(* ===== verification/Prelude.thy ===== *)
theory Prelude
  imports Main "HOL-Library.Word"
begin

text \<open>
  Shared vocabulary of the development: the byte type of the C code, the collections of
  rewrite rules the component theories fill, and the generic facts about counted loops
  (\<open>fold\<close> over an index range), list updates and row-major matrices that every
  component uses.

  A C loop \<open>for (i = a; i < b; i++) body\<close> over a state \<open>s\<close> is written
  \<open>fold body [a..<b] s\<close>, and one that counts down \<open>fold body (rev [a..<b]) s\<close>.
\<close>

unbundle bit_operations_syntax

type_synonym u8 = "8 word"
type_synonym u16 = "16 word"
type_synonym u32 = "32 word"
type_synonym u64 = "64 word"

named_theorems len_simps \<open>array operations keep the length of the array\<close>
named_theorems gf_abs \<open>how the byte operations act on the field elements they stand for\<close>

subsection \<open>Bits\<close>

lemma int_and_255: "(y :: int) AND 255 = y mod 256"
proof -
  have m: "(255 :: int) = mask 8" by (simp add: mask_eq_exp_minus_1)
  have "y AND 255 = take_bit 8 y" by (simp only: take_bit_eq_mask m)
  then show ?thesis by (simp add: take_bit_eq_mod)
qed

lemma int_shift_8: "drop_bit 8 (y :: int) = y div 256"
  by (simp add: drop_bit_eq_div)

lemma bit_7_u8: "bit (a :: u8) 7 \<longleftrightarrow> 128 \<le> a"
proof -
  have "unat a < 2 * 128" using unsigned_less [of a] by simp
  then have "unat a div 128 < 2" by (rule less_mult_imp_div_less)
  then have "odd (unat a div 128) \<longleftrightarrow> unat a div 128 = 1"
    by (elim less_2_cases_iff [THEN iffD1, THEN disjE]) simp_all
  also have "\<dots> \<longleftrightarrow> 128 \<le> unat a"
    using \<open>unat a div 128 < 2\<close> div_le_mono [of 128 "unat a" 128] by (cases "128 \<le> unat a") auto
  finally have "odd (unat a div 128) \<longleftrightarrow> 128 \<le> unat a" .
  moreover have "bit a 7 \<longleftrightarrow> odd (unat a div 128)"
    using bit_unsigned_iff [of a 7, where ?'a = nat] by (simp add: bit_iff_odd)
  ultimately show ?thesis by (simp add: word_le_nat_alt)
qed

lemma unat_u8 [simp]: "unat (a :: u8) < 256"
  using unsigned_less [of a] by simp

lemma unat_u8_eq [simp]: "unat (a :: u8) = unat b \<longleftrightarrow> a = b"
  using word_eq_iff_unsigned [of a b, where ?'a = nat] by simp

lemma unat_u8_0 [simp]: "unat (a :: u8) = 0 \<longleftrightarrow> a = 0"
  using unat_u8_eq [of a 0] by (simp del: unat_u8_eq)

subsection \<open>Counted loops\<close>

lemma fold_upt_Suc [simp]: "a \<le> b \<Longrightarrow> fold f [a..<Suc b] s = f b (fold f [a..<b] s)"
  by simp

text \<open>The invariant rule of a counted loop.\<close>

lemma fold_upt_inv:
  assumes "a \<le> b" and "P a s"
    and step: "\<And>i s. a \<le> i \<Longrightarrow> i < b \<Longrightarrow> P i s \<Longrightarrow> P (Suc i) (f i s)"
  shows "P b (fold f [a..<b] s)"
  using assms(1) step
proof (induction b rule: dec_induct)
  case base
  show ?case using assms(2) by simp
next
  case (step n)
  then show ?case by simp
qed

lemma fold_keeps:
  assumes "\<And>i s. i \<in> set xs \<Longrightarrow> g (f i s) = g s"
  shows "g (fold f xs s) = g s"
  using assms by (induction xs arbitrary: s) simp_all

lemma fold_preserves:
  assumes "\<And>i s. i \<in> set xs \<Longrightarrow> P s \<Longrightarrow> P (f i s)" and "P s"
  shows "P (fold f xs s)"
  using assms by (induction xs arbitrary: s) simp_all

text \<open>A loop that stores a value computed from the index only.\<close>

lemma fold_store_length [len_simps, simp]: "length (fold (\<lambda>i xs. xs[g i := f i xs]) js xs) = length xs"
  by (induction js arbitrary: xs) simp_all

lemma fold_store_nth:
  "j < length xs \<Longrightarrow>
     fold (\<lambda>i xs. xs[i := f i]) [a..<b] xs ! j = (if a \<le> j \<and> j < b then f j else xs ! j)"
proof (induction b)
  case 0
  then show ?case by simp
next
  case (Suc b)
  then show ?case by (cases "a \<le> b"; cases "j = b") auto
qed

text \<open>The same at an offset.\<close>

lemma fold_store_at:
  "j < length d \<Longrightarrow> fold (\<lambda>i d. d[off + i := f i]) [0..<n] d ! j = (if off \<le> j \<and> j < off + n then f (j - off) else d ! j)"
proof (induction n)
  case 0
  then show ?case by auto
next
  case (Suc n)
  then show ?case by (cases "j = off + n") auto
qed

lemma fold_store_at_length [len_simps]: "length (fold (\<lambda>i d. d[off + i := f i]) is d) = length d"
  by (rule fold_keeps [where g = length]) simp

text \<open>A loop that updates each cell from its own old value.\<close>

lemma fold_modify_nth:
  "j < length xs \<Longrightarrow>
     fold (\<lambda>i xs. xs[i := f i (xs ! i)]) [a..<b] xs ! j = (if a \<le> j \<and> j < b then f j (xs ! j) else xs ! j)"
proof (induction b)
  case 0
  then show ?case by simp
next
  case (Suc b)
  then show ?case by (cases "a \<le> b"; cases "j = b") auto
qed

text \<open>A loop that also reads the next cell, not yet updated.\<close>

lemma fold_forward_nth:
  "j < length xs \<Longrightarrow> b < length xs \<Longrightarrow>
     fold (\<lambda>i xs. xs[i := f (xs ! i) (xs ! Suc i)]) [a..<b] xs ! j =
       (if a \<le> j \<and> j < b then f (xs ! j) (xs ! Suc j) else xs ! j)"
proof (induction b arbitrary: j)
  case 0
  then show ?case by simp
next
  case (Suc b)
  then show ?case by (cases "a \<le> b"; cases "j = b") (auto simp: not_less_eq_eq)
qed

text \<open>A loop that counts down and moves every cell up by \<open>k\<close>.\<close>

lemma fold_move_up_nth:
  "j < length xs \<Longrightarrow> k \<le> a \<Longrightarrow>
     fold (\<lambda>i xs. xs[i := xs ! (i - k)]) (rev [a..<b]) xs ! j = (if a \<le> j \<and> j < b then xs ! (j - k) else xs ! j)"
proof (induction b arbitrary: xs)
  case 0
  then show ?case by simp
next
  case (Suc b)
  then show ?case by (cases "a \<le> b") (auto simp: nth_list_update less_Suc_eq)
qed

text \<open>The invariant rule of a loop that counts down.\<close>

lemma fold_down_inv:
  assumes "P n s" and "\<And>i s. i < n \<Longrightarrow> P (Suc i) s \<Longrightarrow> P i (f i s)"
  shows "P 0 (fold f (rev [0..<n]) s)"
  using assms
proof (induction n arbitrary: s)
  case 0
  then show ?case by simp
next
  case (Suc n)
  then show ?case by simp
qed

subsection \<open>Row-major matrices\<close>

text \<open>Cell \<open>(r, c)\<close> of a matrix with \<open>k\<close> columns is \<open>r * k + c\<close>.\<close>

lemma cell_eq [simp]:
  "c < k \<Longrightarrow> c' < k \<Longrightarrow> r * k + c = r' * k + c' \<longleftrightarrow> r = r' \<and> c = (c' :: nat)"
proof
  assume k: "c < k" "c' < k" and e: "r * k + c = r' * k + c'"
  then have "(r * k + c) div k = (r' * k + c') div k" by simp
  with k have "r = r'" by simp
  with e show "r = r' \<and> c = c'" by simp
qed simp

lemma cell_bound: "r < n \<Longrightarrow> c < k \<Longrightarrow> r * k + c < n * (k :: nat)"
proof -
  assume "r < n" "c < k"
  then have "r * k + c < Suc r * k" by simp
  also have "\<dots> \<le> n * k" using \<open>r < n\<close> by (intro mult_le_mono1) simp
  finally show ?thesis .
qed

text \<open>The double loop that stores every cell of an \<open>n\<close> by \<open>m\<close> matrix.\<close>

lemma fold_store_row_nth:
  "j < length xs \<Longrightarrow>
     fold (\<lambda>c xs. xs[r * m + c := f c]) [0..<b] xs ! j = (if r * m \<le> j \<and> j < r * m + b then f (j - r * m) else xs ! (j :: nat))"
proof (induction b)
  case 0
  then show ?case by auto
next
  case (Suc b)
  then show ?case by (cases "j = r * m + b") auto
qed

lemma fold_modify_row_nth:
  "j < length xs \<Longrightarrow>
     fold (\<lambda>c xs. xs[r * k + c := f c (xs ! (r * k + c))]) [0..<b] xs ! j =
       (if r * k \<le> j \<and> j < r * k + b then f (j - r * k) (xs ! j) else xs ! (j :: nat))"
proof (induction b)
  case 0
  then show ?case by auto
next
  case (Suc b)
  then show ?case by (cases "j = r * k + b") auto
qed

lemma fold_store_column_nth:
  assumes "i < n" "j < k" "cl < k" "n * k \<le> length xs"
  shows "fold (\<lambda>r xs. xs[r * k + cl := f r]) [0..<n] xs ! (i * k + j) = (if j = cl then f i else xs ! (i * k + j))"
  using assms
proof (induction n)
  case 0
  then show ?case by simp
next
  case (Suc n)
  have len: "i * k + j < length xs" using cell_bound [OF Suc.prems(1,2)] Suc.prems(4) by linarith
  show ?case
  proof (cases "i = n")
    case True
    have "fold (\<lambda>r xs. xs[r * k + cl := f r]) [0..<m] xs ! (n * k + j) = xs ! (n * k + j)" if "m \<le> n" for m
      using that Suc.prems(2,3) by (induction m) (auto simp: nth_list_update_neq)
    then show ?thesis using True len Suc.prems(2,3) by (auto simp: nth_list_update)
  next
    case False
    then show ?thesis using Suc len by (auto simp: nth_list_update)
  qed
qed

lemma fold_store_matrix_nth:
  assumes "r < n" "c < m" "n * m \<le> length xs"
  shows "fold (\<lambda>r. fold (\<lambda>c xs. xs[r * m + c := f r c]) [0..<m]) [0..<n] xs ! (r * m + c) = f r c"
  using assms
proof (induction n)
  case 0
  then show ?case by simp
next
  case (Suc n)
  let ?ys = "fold (\<lambda>r. fold (\<lambda>c xs. xs[r * m + c := f r c]) [0..<m]) [0..<n] xs"
  have len: "length ?ys = length xs"
    by (rule fold_keeps [where g = length]) (rule fold_store_length)
  have in_range: "r * m + c < length xs"
    using cell_bound [OF Suc.prems(1,2)] Suc.prems(3) by linarith
  show ?case
  proof (cases "r = n")
    case True
    then show ?thesis using in_range len Suc.prems by (simp add: fold_store_row_nth)
  next
    case False
    then have "r * m + c < n * m" using Suc.prems by (intro cell_bound) simp_all
    then show ?thesis using in_range len Suc False by (simp add: fold_store_row_nth)
  qed
qed

lemma fold_store_matrix_other:
  assumes "n * m \<le> j" "j < length xs"
  shows "fold (\<lambda>r. fold (\<lambda>c xs. xs[r * m + c := f r c]) [0..<m]) [0..<n] xs ! j = xs ! (j :: nat)"
  using assms
proof (induction n)
  case 0
  then show ?case by simp
next
  case (Suc n)
  have "length (fold (\<lambda>r. fold (\<lambda>c xs. xs[r * m + c := f r c]) [0..<m]) [0..<n] xs) = length xs"
    by (rule fold_keeps [where g = length]) (rule fold_store_length)
  with Suc show ?case by (simp add: fold_store_row_nth)
qed

lemma fold_store_matrix_length [len_simps, simp]:
  "length (fold (\<lambda>r. fold (\<lambda>c xs. xs[g r c := f r c]) [0..<m]) ns xs) = length xs"
  by (rule fold_keeps [where g = length]) (rule fold_store_length)

subsection \<open>Slices\<close>

text \<open>Reading and overwriting \<open>length r\<close> cells from offset \<open>o\<close>: pointer arguments into an array.\<close>

definition slice :: "nat \<Rightarrow> nat \<Rightarrow> 'a list \<Rightarrow> 'a list" where
  "slice off len xs = take len (drop off xs)"

definition put_slice :: "nat \<Rightarrow> 'a list \<Rightarrow> 'a list \<Rightarrow> 'a list" where
  "put_slice off r xs = take off xs @ r @ drop (off + length r) xs"

lemma length_slice [simp]: "off + len \<le> length xs \<Longrightarrow> length (slice off len xs) = len"
  by (simp add: slice_def)

lemma nth_slice [simp]: "off + len \<le> length xs \<Longrightarrow> j < len \<Longrightarrow> slice off len xs ! j = xs ! (off + j)"
  by (simp add: slice_def)

lemma length_put_slice [simp]: "off + length r \<le> length xs \<Longrightarrow> length (put_slice off r xs) = length xs"
  by (simp add: put_slice_def)

lemma nth_put_slice:
  "off + length r \<le> length xs \<Longrightarrow>
     put_slice off r xs ! j = (if off \<le> j \<and> j < off + length r then r ! (j - off) else xs ! j)"
  by (auto simp: put_slice_def nth_append)

lemma row_range: "c < k \<Longrightarrow> r' * k \<le> r * k + c \<and> r * k + c < r' * k + k \<longleftrightarrow> r = (r' :: nat)"
proof
  assume c: "c < k" and "r' * k \<le> r * k + c \<and> r * k + c < r' * k + k"
  then have "r' * k < Suc r * k" "r * k < Suc r' * k" by simp_all
  then have "r' < Suc r" "r < Suc r'" by (simp_all only: mult_less_cancel2)
  then show "r = r'" by simp
qed simp

lemma nth_put_row:
  assumes "r' * k + k \<le> length xs" "length row = k" "c < k"
  shows "put_slice (r' * k) row xs ! (r * k + c) = (if r = r' then row ! c else xs ! (r * k + c))"
  using assms row_range [of c k r' r] by (auto simp: nth_put_slice)

end
