(* ===== verification/GF256.thy ===== *)
theory GF256
  imports Prelude
begin

text \<open>
  The reference field with 256 elements, built from the bytes without tables: addition is
  exclusive or, the generator acts by shift and reduction with the polynomial
  \<open>x^8 + x^4 + x^3 + x^2 + 1\<close> that both C libraries use, and the product is the sum of the
  shifts the bits of the first factor select. The theory shows that this is a field whose
  nonzero elements are the powers of the generator \<open>alpha\<close>.
\<close>

datatype gf256 = GF (byte_of: u8)

instantiation gf256 :: ab_group_add
begin

definition zero_gf256 :: gf256 where "0 = GF 0"
definition plus_gf256 :: "gf256 \<Rightarrow> gf256 \<Rightarrow> gf256" where "a + b = GF (byte_of a XOR byte_of b)"
definition uminus_gf256 :: "gf256 \<Rightarrow> gf256" where "- a = (a :: gf256)"
definition minus_gf256 :: "gf256 \<Rightarrow> gf256 \<Rightarrow> gf256" where "a - b = a + (b :: gf256)"

instance
proof
  fix a b c :: gf256
  show "a + b + c = a + (b + c)" by (simp add: plus_gf256_def xor.assoc)
  show "a + b = b + a" by (simp add: plus_gf256_def xor.commute)
  show "0 + a = a" by (cases a) (simp add: plus_gf256_def zero_gf256_def)
  show "- a + a = 0" by (cases a) (simp add: plus_gf256_def uminus_gf256_def zero_gf256_def)
  show "a - b = a + - b" by (simp add: minus_gf256_def uminus_gf256_def)
qed

end

lemma byte_of_0 [simp]: "byte_of 0 = 0" by (simp add: zero_gf256_def)
lemma GF_eq_0 [simp]: "GF a = 0 \<longleftrightarrow> a = 0" by (simp add: zero_gf256_def)
lemma GF_0 [simp]: "GF 0 = 0" by simp
lemma GF_xor: "GF (a XOR b) = GF a + GF b" by (simp add: plus_gf256_def)
lemma byte_of_plus: "byte_of (a + b) = byte_of a XOR byte_of b" by (simp add: plus_gf256_def)
lemma byte_of_eq_0 [simp]: "byte_of a = 0 \<longleftrightarrow> a = 0" by (cases a) simp
lemma gf_add_self [simp]: "(a :: gf256) + a = 0" by (simp add: plus_gf256_def)
lemma gf_minus_eq [simp]: "- (a :: gf256) = a" by (simp add: uminus_gf256_def)
lemma gf_diff_eq [simp]: "(a :: gf256) - b = a + b" by (simp add: minus_gf256_def)
lemma gf_add_eq_0 [simp]: "(a :: gf256) + b = 0 \<longleftrightarrow> a = b"
  by (metis gf_minus_eq neg_eq_iff_add_eq_0)

subsection \<open>Multiplication by the generator\<close>

definition xt8 :: "u8 \<Rightarrow> u8" where
  "xt8 a = push_bit 1 a XOR (if bit a 7 then 29 else 0)"

definition xt :: "gf256 \<Rightarrow> gf256" where
  "xt a = GF (xt8 (byte_of a))"

lemma xt8_xor: "xt8 (a XOR b) = xt8 a XOR xt8 b"
  by (rule bit_word_eqI) (auto simp: xt8_def bit_simps)

lemma xt8_0 [simp]: "xt8 0 = 0" by (simp add: xt8_def)

lemma xt_add: "xt (a + b) = xt a + xt b"
  by (simp add: xt_def plus_gf256_def xt8_xor)

lemma xt_0 [simp]: "xt 0 = 0" by (simp add: xt_def)

lemma xt_sum: "xt (sum f A) = (\<Sum>i\<in>A. xt (f i))"
  by (induction A rule: infinite_finite_induct) (simp_all add: xt_add)

lemma xtn_0 [simp]: "(xt ^^ n) 0 = 0" by (induction n) simp_all
lemma xtn_add: "(xt ^^ n) (a + b) = (xt ^^ n) a + (xt ^^ n) b"
  by (induction n) (simp_all add: xt_add)
lemma xtn_sum: "(xt ^^ n) (sum f A) = (\<Sum>i\<in>A. (xt ^^ n) (f i))"
  by (induction n) (simp_all add: xt_sum)

instantiation gf256 :: comm_ring_1
begin

definition one_gf256 :: gf256 where "1 = GF 1"
definition times_gf256 :: "gf256 \<Rightarrow> gf256 \<Rightarrow> gf256" where
  "a * b = (\<Sum>i<8. if bit (byte_of a) i then (xt ^^ i) b else 0)"

lemma gf_times_add_right: "(a :: gf256) * (b + c) = a * b + a * c"
  unfolding times_gf256_def sum.distrib[symmetric]
  by (rule sum.cong) (auto simp: xtn_add)

lemma gf_times_add_left: "((a :: gf256) + b) * c = a * c + b * c"
  unfolding times_gf256_def sum.distrib[symmetric]
  by (rule sum.cong) (auto simp: byte_of_plus bit_simps)

lemma gf_times_0_right: "(a :: gf256) * 0 = 0"
  by (simp add: times_gf256_def cong: if_cong)

lemma gf_times_sum_right: "(a :: gf256) * sum f A = (\<Sum>i\<in>A. a * f i)"
  by (induction A rule: infinite_finite_induct) (simp_all add: gf_times_add_right gf_times_0_right)

lemma gf_times_xt: "a * xt b = xt (a * b)"
  unfolding times_gf256_def xt_sum
  by (rule sum.cong) (auto simp: funpow_swap1)

lemma gf_times_xtn: "a * (xt ^^ n) b = (xt ^^ n) (a * b)"
  by (induction n) (simp_all add: gf_times_xt)

lemma xtn_one: "j < 8 \<Longrightarrow> (xt ^^ j) 1 = GF (push_bit j 1)"
proof (induction j)
  case 0
  show ?case by (simp add: one_gf256_def)
next
  case (Suc j)
  then have "\<not> bit (push_bit j 1 :: u8) 7" by (simp add: bit_simps)
  with Suc show ?case by (simp add: xt_def xt8_def)
qed

lemma bit_sum_push_bit:
  "m \<le> 8 \<Longrightarrow> bit (byte_of (\<Sum>j<m. if P j then GF (push_bit j 1) else 0)) n \<longleftrightarrow> n < m \<and> P n"
  by (induction m) (auto simp: byte_of_plus bit_simps less_Suc_eq)

lemma gf_bits_expand: "b = (\<Sum>j<8. if bit (byte_of b) j then (xt ^^ j) 1 else 0)"
proof -
  have "(\<Sum>j<8. if bit (byte_of b) j then (xt ^^ j) 1 else 0) =
        (\<Sum>j<8. if bit (byte_of b) j then GF (push_bit j 1) else 0)"
    by (intro sum.cong refl) (simp add: xtn_one)
  also have "byte_of \<dots> = byte_of b"
    by (rule bit_word_eqI) (simp add: bit_sum_push_bit)
  finally show ?thesis by (metis gf256.expand)
qed

lemma gf_times_commute: "(a :: gf256) * b = b * a"
proof -
  have "a * b = (\<Sum>i<8. \<Sum>j<8. if bit (byte_of a) i \<and> bit (byte_of b) j then (xt ^^ (i + j)) 1 else 0)"
    (is "_ = (\<Sum>i<8. \<Sum>j<8. ?f a b i j)") for a b :: gf256
  proof -
    have "(xt ^^ i) b = (\<Sum>j<8. if bit (byte_of b) j then (xt ^^ (i + j)) 1 else 0)" for i
      by (subst gf_bits_expand [of b], subst xtn_sum, rule sum.cong) (auto simp: funpow_add)
    then show ?thesis
      unfolding times_gf256_def by (intro sum.cong refl) auto
  qed
  note expand = this
  show ?thesis
    unfolding expand by (subst sum.swap, intro sum.cong refl) (auto simp: add.commute)
qed

lemma gf_times_assoc: "(a :: gf256) * b * c = a * (b * c)"
proof -
  have "c * (a * b) = (\<Sum>i<8. if bit (byte_of a) i then (xt ^^ i) (c * b) else 0)"
    unfolding times_gf256_def [of a b] gf_times_sum_right
    by (intro sum.cong refl) (auto simp: gf_times_xtn gf_times_0_right)
  also have "\<dots> = a * (c * b)" by (simp add: times_gf256_def [of a])
  finally show ?thesis by (metis gf_times_commute)
qed

instance
proof
  fix a b c :: gf256
  show "a * b * c = a * (b * c)" by (rule gf_times_assoc)
  show "a * b = b * a" by (rule gf_times_commute)
  have "1 * a = (\<Sum>i<8. if i = 0 then (xt ^^ i) a else 0)"
    unfolding times_gf256_def by (intro sum.cong refl) (auto simp: one_gf256_def bit_simps)
  also have "\<dots> = a" by (subst sum.delta) simp_all
  finally show "1 * a = a" .
  show "(a + b) * c = a * c + b * c" by (rule gf_times_add_left)
  have "(1 :: gf256) \<noteq> 0" by (simp add: one_gf256_def)
  then show "(0 :: gf256) \<noteq> 1" by metis
qed

end

definition alpha :: gf256 where "alpha = GF 2"

lemma alpha_times: "alpha * b = xt b"
proof -
  have "alpha * b = (\<Sum>i<8. if i = 1 then (xt ^^ i) b else 0)"
    unfolding times_gf256_def by (intro sum.cong refl) (auto simp: alpha_def bit_simps)
  also have "\<dots> = xt b" by (subst sum.delta) simp_all
  finally show ?thesis .
qed

lemma xtn_alpha: "(xt ^^ n) a = alpha ^ n * a"
  by (induction n) (simp_all add: alpha_times [symmetric] mult.assoc)

fun orbit_avoids :: "nat \<Rightarrow> u8 \<Rightarrow> bool" where
  "orbit_avoids 0 a = True"
| "orbit_avoids (Suc n) a = (a \<noteq> 1 \<and> orbit_avoids n (xt8 a))"

fun iter_xt8 :: "nat \<Rightarrow> u8 \<Rightarrow> u8" where
  "iter_xt8 0 a = a"
| "iter_xt8 (Suc n) a = iter_xt8 n (xt8 a)"

lemma byte_of_xt: "byte_of (xt a) = xt8 (byte_of a)" by (simp add: xt_def)

lemma iter_xt8: "iter_xt8 n (byte_of a) = byte_of ((xt ^^ n) a)"
  by (induction n arbitrary: a) (simp_all add: byte_of_xt [symmetric] funpow_swap1)

lemma orbit_avoids_iff: "orbit_avoids n (byte_of a) \<longleftrightarrow> (\<forall>i<n. (xt ^^ i) a \<noteq> 1)"
proof (induction n arbitrary: a)
  case 0
  show ?case by simp
next
  case (Suc n)
  have "byte_of a \<noteq> 1 \<longleftrightarrow> a \<noteq> 1" by (cases a) (simp add: one_gf256_def)
  with Suc.IH [of "xt a"] show ?case
    by (auto simp: All_less_Suc2 byte_of_xt funpow_swap1)
qed

lemma orbit_255: "orbit_avoids 254 2"
  by code_simp

lemma iter_255: "iter_xt8 255 1 = 1"
  by code_simp

lemma alpha_255: "alpha ^ 255 = 1"
proof -
  have "byte_of ((xt ^^ 255) 1) = iter_xt8 255 (byte_of 1)" by (simp only: iter_xt8)
  also have "\<dots> = byte_of 1" using iter_255 by (simp add: one_gf256_def)
  finally have "(xt ^^ 255) 1 = 1" by (metis gf256.expand)
  then show ?thesis using xtn_alpha [of 255 1] by (simp only: mult_1_right)
qed

lemma alpha_order: "0 < i \<Longrightarrow> i < 255 \<Longrightarrow> alpha ^ i \<noteq> 1"
proof -
  assume i: "0 < i" "i < 255"
  have "\<forall>j<254. (xt ^^ j) alpha \<noteq> 1"
    using orbit_255 orbit_avoids_iff [of 254 alpha] by (simp add: alpha_def)
  then have "(xt ^^ (i - 1)) alpha \<noteq> 1" using i by auto
  moreover have "(xt ^^ (i - 1)) alpha = alpha ^ i"
    using i by (cases i) (simp_all add: xtn_alpha mult.commute)
  ultimately show ?thesis by simp
qed

text \<open>
  The powers of \<open>alpha\<close> run through every element but 0, so each has an inverse and the
  ring is a field.
\<close>

lemma alpha_power_nz: "alpha ^ i \<noteq> 0"
proof
  assume "alpha ^ i = 0"
  then have "alpha ^ (i * 255) = 0" by (simp add: power_mult)
  moreover have "alpha ^ (i * 255) = 1" by (simp add: mult.commute [of i] power_mult alpha_255)
  ultimately show False by simp
qed

lemma alpha_power_mod: "alpha ^ (i mod 255) = alpha ^ i"
proof -
  have "alpha ^ i = alpha ^ (i mod 255 + 255 * (i div 255))" by simp
  also have "\<dots> = alpha ^ (i mod 255) * (alpha ^ 255) ^ (i div 255)"
    by (simp only: power_add power_mult)
  finally show ?thesis by (simp add: alpha_255)
qed

lemma alpha_power_less_inj:
  assumes "i < j" "j < 255"
  shows "alpha ^ i \<noteq> alpha ^ j"
proof
  assume "alpha ^ i = alpha ^ j"
  then have "alpha ^ (255 - i + i) = alpha ^ (255 - i + j)" by (simp only: power_add)
  moreover have "255 - i + i = 255" "255 - i + j = 255 + (j - i)" using assms by simp_all
  ultimately have "alpha ^ (j - i) = 1" by (simp only: alpha_255 power_add mult_1_left)
  then show False using alpha_order [of "j - i"] assms by simp
qed

lemma alpha_power_inj: "inj_on (\<lambda>i. alpha ^ i) {..<255}"
  by (rule linorder_inj_onI) (auto simp: alpha_power_less_inj)

lemma alpha_power_eq_iff: "alpha ^ i = alpha ^ j \<longleftrightarrow> i mod 255 = j mod 255"
proof -
  have "alpha ^ i = alpha ^ j \<longleftrightarrow> alpha ^ (i mod 255) = alpha ^ (j mod 255)"
    by (simp only: alpha_power_mod)
  also have "\<dots> \<longleftrightarrow> i mod 255 = j mod 255"
    using inj_on_eq_iff [OF alpha_power_inj, of "i mod 255" "j mod 255"] by simp
  finally show ?thesis .
qed

lemma finite_gf256 [simp]: "finite (UNIV :: gf256 set)"
  and card_gf256: "card (UNIV :: gf256 set) = 256"
proof -
  have bij: "bij_betw GF UNIV UNIV"
    by (rule bij_betw_byWitness [where f' = byte_of]) auto
  show "finite (UNIV :: gf256 set)" using bij_betw_finite [OF bij] by simp
  show "card (UNIV :: gf256 set) = 256"
    using bij_betw_same_card [OF bij] by (simp add: card_word)
qed

lemma alpha_powers_all: "(\<lambda>i. alpha ^ i) ` {..<255} = UNIV - {0}"
proof (rule card_subset_eq)
  show "finite (UNIV - {0 :: gf256})" by simp
  show "(\<lambda>i. alpha ^ i) ` {..<255} \<subseteq> UNIV - {0}" by (auto simp: alpha_power_nz)
  show "card ((\<lambda>i. alpha ^ i) ` {..<255}) = card (UNIV - {0 :: gf256})"
    by (simp add: card_image [OF alpha_power_inj] card_gf256)
qed

lemma nz_is_alpha_power:
  assumes "(a :: gf256) \<noteq> 0"
  obtains i where "i < 255" and "a = alpha ^ i"
  using assms alpha_powers_all by (metis DiffI UNIV_I imageE lessThan_iff singletonD)

lemma gf_power_255: "(a :: gf256) \<noteq> 0 \<Longrightarrow> a ^ 255 = 1"
  by (metis alpha_255 mult.commute nz_is_alpha_power power_mult power_one)

instantiation gf256 :: field
begin

definition inverse_gf256 :: "gf256 \<Rightarrow> gf256" where "inverse a = (a :: gf256) ^ 254"
definition divide_gf256 :: "gf256 \<Rightarrow> gf256 \<Rightarrow> gf256" where "a div b = a * inverse (b :: gf256)"

instance
proof
  fix a b :: gf256
  show "a \<noteq> 0 \<Longrightarrow> inverse a * a = 1"
    using gf_power_255 [of a] by (simp add: inverse_gf256_def power_Suc2 [symmetric] del: power_Suc)
  show "a div b = a * inverse b" by (simp add: divide_gf256_def)
  show "inverse (0 :: gf256) = 0" by (simp add: inverse_gf256_def)
qed

end

lemma inverse_alpha_power: "i \<le> 255 \<Longrightarrow> inverse (alpha ^ i) = alpha ^ (255 - i)"
  by (rule inverse_unique) (simp only: power_add [symmetric] alpha_255 le_add_diff_inverse)

lemma GF_eq_1 [simp]: "GF a = 1 \<longleftrightarrow> a = 1" by (simp add: one_gf256_def)
lemma GF_1 [simp]: "GF 1 = 1" by simp
lemma gf_add_cancel [simp]: "(a :: gf256) + (a + b) = b" by (simp flip: add.assoc)

text \<open>In characteristic 2 an equation can move terms to the other side freely.\<close>

lemma gf_eq_add_iff: "(a :: gf256) = b + c \<longleftrightarrow> b = a + c"
  by (metis add.commute gf_add_cancel)

lemma gf_double [simp]: "2 * (a :: gf256) = 0"
  by (simp add: mult_2)

end
