(* ===== verification/Linear.thy ===== *)
theory Linear
  imports GF256
begin

text \<open>
  Abstract linear algebra over a field, with vectors and matrices as functions of their
  indices. It is the specification side of the matrix routines: polynomials by their
  coefficients, synthetic division, matrix-vector products, the identity, and the fact
  every erasure and Reed-Solomon argument of the repository rests on, that a Vandermonde
  matrix with distinct points has a trivial kernel.
\<close>

subsection \<open>Polynomials and synthetic division\<close>

definition peval :: "(nat \<Rightarrow> 'a::comm_ring_1) \<Rightarrow> nat \<Rightarrow> 'a \<Rightarrow> 'a" where
  "peval c n x = (\<Sum>i<n. c i * x ^ i)"

lemma peval_0 [simp]: "peval c 0 x = 0"
  by (simp add: peval_def)

lemma peval_Suc: "peval c (Suc n) x = peval c n x + c n * x ^ n"
  by (simp add: peval_def)

lemma peval_shift: "peval c (Suc n) x = c 0 + x * peval (\<lambda>i. c (Suc i)) n x"
  unfolding peval_def by (subst sum.lessThan_Suc_shift) (simp add: sum_distrib_left ac_simps)

lemma peval_add: "peval (\<lambda>i. f i + g i) n x = peval f n x + peval g n x"
  by (simp add: peval_def algebra_simps sum.distrib)

lemma peval_scale: "peval (\<lambda>i. a * f i) n x = a * peval f n x"
  by (simp add: peval_def sum_distrib_left mult.assoc)

lemma peval_cong: "(\<And>i. i < n \<Longrightarrow> f i = g i) \<Longrightarrow> peval f n x = peval g n x"
  by (simp add: peval_def)

lemma peval_extend:
  assumes "n \<le> m" and "\<And>i. n \<le> i \<Longrightarrow> i < m \<Longrightarrow> c i = 0"
  shows "peval c m x = peval c n x"
  unfolding peval_def using assms by (intro sum.mono_neutral_right) auto

text \<open>
  Horner's scheme divides by \<open>x - a\<close>: the quotient \<open>b\<close> is built from the top
  coefficient down, and what is left is the value at \<open>a\<close>.
\<close>

lemma synthetic_division:
  fixes a :: "'a::comm_ring_1"
  assumes "b n = 0" and "\<And>i. i < n \<Longrightarrow> c (Suc i) = b i - a * b (Suc i)"
  shows "peval c (Suc n) x = (x - a) * peval b n x + (c 0 + a * b 0)"
proof -
  have "peval c (Suc n) x = c 0 + x * (\<Sum>i<n. (b i - a * b (Suc i)) * x ^ i)"
    using assms(2) by (simp only: peval_shift) (simp add: peval_def)
  also have "(\<Sum>i<n. (b i - a * b (Suc i)) * x ^ i) = peval b n x - a * peval (\<lambda>i. b (Suc i)) n x"
    by (simp add: peval_def sum_subtractf sum_distrib_left algebra_simps)
  also have "x * (peval b n x - a * peval (\<lambda>i. b (Suc i)) n x)
      = x * peval b n x - a * (x * peval (\<lambda>i. b (Suc i)) n x)"
    by (simp add: algebra_simps)
  also have "x * peval (\<lambda>i. b (Suc i)) n x = peval b (Suc n) x - b 0"
    by (simp add: peval_shift)
  also have "peval b (Suc n) x = peval b n x"
    using assms(1) by (simp add: peval_Suc)
  finally show ?thesis by (simp add: algebra_simps)
qed

lemma division_exists:
  fixes a :: "'a::comm_ring_1"
  shows "\<exists>b. b n = 0 \<and> (\<forall>i<n. c (Suc i) = b i - a * b (Suc i))"
proof -
  define b where "b i = (\<Sum>l<n - i. c (Suc (i + l)) * a ^ l)" for i
  have "c (Suc i) = b i - a * b (Suc i)" if "i < n" for i
  proof -
    have n: "n - i = Suc (n - Suc i)" using that by simp
    have "b i = c (Suc i) + a * b (Suc i)"
      unfolding b_def n sum.lessThan_Suc_shift by (simp add: sum_distrib_left ac_simps)
    then show ?thesis by simp
  qed
  moreover have "b n = 0" by (simp add: b_def)
  ultimately show ?thesis by blast
qed

text \<open>A polynomial of degree below \<open>n\<close> with \<open>n\<close> distinct roots has no nonzero coefficient.\<close>

lemma vandermonde_kernel:
  fixes p :: "nat \<Rightarrow> 'a::field"
  assumes "inj_on p {..<n}" and "\<And>i. i < n \<Longrightarrow> peval c n (p i) = 0" and "j < n"
  shows "c j = 0"
  using assms
proof (induction n arbitrary: c j)
  case 0
  then show ?case by simp
next
  case (Suc n)
  define a where "a = p n"
  obtain b where bn: "b n = 0" and b: "\<And>i. i < n \<Longrightarrow> c (Suc i) = b i - a * b (Suc i)"
    using division_exists by blast
  note div = synthetic_division [OF bn b]
  have rest: "c 0 + a * b 0 = 0"
    using div [of a] Suc.prems(2) [of n] by (simp add: a_def)
  have "peval b n (p i) = 0" if "i < n" for i
  proof -
    have "(p i - a) * peval b n (p i) = 0"
      using div [of "p i"] Suc.prems(2) [of i] rest that by simp
    moreover have "p i \<noteq> a"
      using Suc.prems(1) that by (auto simp: a_def inj_on_def)
    ultimately show ?thesis by simp
  qed
  moreover have "inj_on p {..<n}" using Suc.prems(1) by (auto simp: inj_on_def)
  ultimately have b0: "b i = 0" if "i \<le> n" for i
    using Suc.IH [of b i] bn that by (cases "i = n") auto
  show ?case
  proof (cases j)
    case 0
    then show ?thesis using rest b0 [of 0] by simp
  next
    case (Suc i)
    then show ?thesis using b [of i] b0 Suc.prems(3) by simp
  qed
qed

subsection \<open>Matrices as functions\<close>

definition mv :: "(nat \<Rightarrow> nat \<Rightarrow> 'a::comm_ring_1) \<Rightarrow> nat \<Rightarrow> (nat \<Rightarrow> 'a) \<Rightarrow> nat \<Rightarrow> 'a" where
  "mv A k x i = (\<Sum>j<k. A i j * x j)"

definition mm :: "(nat \<Rightarrow> nat \<Rightarrow> 'a::comm_ring_1) \<Rightarrow> nat \<Rightarrow> (nat \<Rightarrow> nat \<Rightarrow> 'a) \<Rightarrow> nat \<Rightarrow> nat \<Rightarrow> 'a" where
  "mm A k B i j = (\<Sum>l<k. A i l * B l j)"

definition idm :: "nat \<Rightarrow> nat \<Rightarrow> 'a::comm_ring_1" where
  "idm i j = (if i = j then 1 else 0)"

text \<open>A matrix is nonsingular when it sends no nonzero vector to 0.\<close>

definition nonsingular :: "(nat \<Rightarrow> nat \<Rightarrow> 'a::comm_ring_1) \<Rightarrow> nat \<Rightarrow> bool" where
  "nonsingular A k \<longleftrightarrow> (\<forall>x. (\<forall>i<k. mv A k x i = 0) \<longrightarrow> (\<forall>j<k. x j = 0))"

lemma mv_cong: "(\<And>j. j < k \<Longrightarrow> x j = y j) \<Longrightarrow> mv A k x i = mv A k y i"
  by (simp add: mv_def)

lemma mv_mv: "mv A k (mv B m x) i = mv (mm A k B) m x i"
  unfolding mv_def mm_def sum_distrib_left sum_distrib_right
  by (subst sum.swap) (simp add: mult.assoc)

lemma mv_idm [simp]: "i < k \<Longrightarrow> mv idm k x i = x i"
  unfolding mv_def idm_def by (subst sum.remove [of _ i]) simp_all

lemma mv_unit: "j < k \<Longrightarrow> mv A k (idm j) i = A i j"
  unfolding mv_def idm_def by (subst sum.remove [of _ j]) auto

lemma mv_mat_cong: "(\<And>j. j < k \<Longrightarrow> A i j = B i j) \<Longrightarrow> mv A k x i = mv B k x i"
  by (simp add: mv_def)

lemma nonsingularD: "nonsingular A k \<Longrightarrow> (\<And>i. i < k \<Longrightarrow> mv A k x i = 0) \<Longrightarrow> j < k \<Longrightarrow> x j = 0"
  by (auto simp: nonsingular_def)

lemma mv_peval: "mv (\<lambda>i j. p i ^ j) k x i = peval x k (p i)"
  by (simp add: mv_def peval_def mult.commute)

lemma nonsingular_vandermonde:
  fixes p :: "nat \<Rightarrow> 'a::field"
  shows "inj_on p {..<k} \<Longrightarrow> nonsingular (\<lambda>i j. p i ^ j) k"
  using vandermonde_kernel [of p k] by (auto simp: nonsingular_def mv_peval)

subsection \<open>In-place Gauss-Jordan inversion as an exchange of variables\<close>

text \<open>
  A matrix \<open>M\<close> in the middle of an in-place inversion relates two mixed vectors: at the
  columns in \<open>P\<close>, already used as pivots, inputs and outputs have changed places. \<open>arr\<close> says
  which original row stands at which place after the row swaps so far. Pivoting on
  \<open>(p, p)\<close> exchanges the \<open>p\<close>-th input with the \<open>p\<close>-th output.
\<close>

definition swp :: "nat \<Rightarrow> nat \<Rightarrow> nat \<Rightarrow> nat" where
  "swp a b j = (if j = a then b else if j = b then a else j)"

lemma swp_swp [simp]: "swp a b (swp a b j) = j"
  by (auto simp: swp_def)

lemma swp_same [simp]: "swp a a = id"
  by (auto simp: swp_def fun_eq_iff)

lemma swp_less [simp]: "a < k \<Longrightarrow> b < k \<Longrightarrow> swp a b j < k \<longleftrightarrow> j < k"
  by (auto simp: swp_def)

lemma bij_swp: "bij (swp a b)"
  by (rule bij_betw_byWitness [where f' = "swp a b"]) auto

lemma sum_swp: "a < k \<Longrightarrow> b < k \<Longrightarrow> (\<Sum>j<k. f (swp a b j)) = (\<Sum>j<k. f j)"
  by (rule sum.reindex_bij_witness [where i = "swp a b" and j = "swp a b"]) auto

definition mixed :: "nat set \<Rightarrow> (nat \<Rightarrow> 'a) \<Rightarrow> (nat \<Rightarrow> 'a) \<Rightarrow> nat \<Rightarrow> 'a" where
  "mixed P f g j = (if j \<in> P then f j else g j)"

definition exch_rel ::
  "(nat \<Rightarrow> nat \<Rightarrow> gf256) \<Rightarrow> nat \<Rightarrow> nat set \<Rightarrow> (nat \<Rightarrow> nat) \<Rightarrow> (nat \<Rightarrow> nat \<Rightarrow> gf256) \<Rightarrow> bool" where
  "exch_rel A k P arr M \<longleftrightarrow> (\<forall>x y. (\<forall>i<k. y i = mv A k x i) \<longleftrightarrow>
     (\<forall>i<k. mixed P x (y \<circ> arr) i = mv M k (mixed P (y \<circ> arr) x) i))"

definition sweep :: "(nat \<Rightarrow> nat \<Rightarrow> gf256) \<Rightarrow> nat \<Rightarrow> nat \<Rightarrow> nat \<Rightarrow> gf256" where
  "sweep M p i j =
     (if i = p then (if j = p then inverse (M p p) else M p j * inverse (M p p))
      else (if j = p then 0 else M i j) + M i p * (if j = p then inverse (M p p) else M p j * inverse (M p p)))"

lemma exch_rel_init: "exch_rel A k {} id A"
proof -
  have "mixed {} f g = g" for f g :: "nat \<Rightarrow> gf256" by (simp add: mixed_def fun_eq_iff)
  then show ?thesis by (simp add: exch_rel_def)
qed

lemma exch_rel_cong:
  assumes "exch_rel A k P arr M" and "\<And>i j. i < k \<Longrightarrow> j < k \<Longrightarrow> N i j = M i j"
  shows "exch_rel A k P arr N"
proof -
  have "mv N k x i = mv M k x i" if "i < k" for x i
    using assms(2) that by (intro mv_mat_cong) auto
  then show ?thesis using assms(1) by (simp add: exch_rel_def)
qed

lemma exch_rel_swap:
  assumes rel: "exch_rel A k P arr M" and "a < k" "b < k" "a \<notin> P" "b \<notin> P"
  shows "exch_rel A k P (arr \<circ> swp a b) (\<lambda>i j. M (swp a b i) j)"
proof -
  have "(\<forall>i<k. mixed P x (y \<circ> (arr \<circ> swp a b)) i = mv (\<lambda>i j. M (swp a b i) j) k (mixed P (y \<circ> (arr \<circ> swp a b)) x) i)
     \<longleftrightarrow> (\<forall>i<k. mixed P x (y \<circ> arr) i = mv M k (mixed P (y \<circ> arr) x) i)" (is "?L \<longleftrightarrow> ?R") for x y
  proof -
    have in_P: "swp a b j = j" if "j \<in> P" for j using assms that by (auto simp: swp_def)
    have notin_P: "swp a b j \<notin> P" if "j \<notin> P" for j using assms that by (auto simp: swp_def)
    have inp: "mixed P (y \<circ> (arr \<circ> swp a b)) x = mixed P (y \<circ> arr) x"
      by (auto simp: mixed_def fun_eq_iff in_P)
    have out: "mixed P x (y \<circ> (arr \<circ> swp a b)) i = mixed P x (y \<circ> arr) (swp a b i)" for i
      using in_P [of i] notin_P [of i] by (auto simp: mixed_def)
    have "?L \<longleftrightarrow> (\<forall>i<k. mixed P x (y \<circ> arr) (swp a b i) = mv M k (mixed P (y \<circ> arr) x) (swp a b i))"
      unfolding inp out by (simp add: mv_def)
    also have "\<dots> \<longleftrightarrow> ?R"
      using assms(2,3) by (metis swp_less swp_swp)
    finally show ?thesis .
  qed
  then show ?thesis using rel by (simp add: exch_rel_def)
qed

lemma mv_split: "p < k \<Longrightarrow> mv M k u i = M i p * u p + (\<Sum>j\<in>{..<k} - {p}. M i j * u j)"
  unfolding mv_def by (subst sum.remove [of _ p]) simp_all

lemma sweep_forward:
  assumes p: "p < k" "M p p \<noteq> 0" and eq: "\<And>i. i < k \<Longrightarrow> v i = mv M k u i" and i: "i < k"
  shows "(v(p := u p)) i = mv (sweep M p) k (u(p := v p)) i"
proof -
  define c where "c = inverse (M p p)"
  define S where "S i = (\<Sum>j\<in>{..<k} - {p}. M i j * u j)" for i
  have c: "M p p * c = 1" using p by (simp add: c_def)
  have "v p = M p p * u p + S p" using eq [of p] p by (simp add: mv_split S_def)
  then have "u p * (M p p * c) = c * (v p + S p)" by (simp add: algebra_simps add_eq_0_iff)
  then have up: "u p = c * v p + c * S p" by (simp only: c mult_1_right distrib_left)
  have others: "(\<Sum>j\<in>{..<k} - {p}. M p j * c * (u(p := v p)) j) = c * S p"
    unfolding S_def sum_distrib_left by (intro sum.cong refl) (auto simp: ac_simps)
  show ?thesis
  proof (cases "i = p")
    case True
    have "mv (sweep M p) k (u(p := v p)) p = c * v p + (\<Sum>j\<in>{..<k} - {p}. M p j * c * (u(p := v p)) j)"
      unfolding mv_split [OF p(1)] by (simp add: sweep_def c_def)
    then show ?thesis using True others up by simp
  next
    case False
    have "(\<Sum>j\<in>{..<k} - {p}. sweep M p i j * (u(p := v p)) j)
        = (\<Sum>j\<in>{..<k} - {p}. M i j * u j + M i p * (M p j * c * u j))"
      using False by (intro sum.cong refl) (auto simp: sweep_def c_def algebra_simps)
    also have "\<dots> = S i + M i p * (c * S p)"
      unfolding sum.distrib S_def sum_distrib_left by (simp add: ac_simps)
    finally have "mv (sweep M p) k (u(p := v p)) i = M i p * c * v p + (S i + M i p * (c * S p))"
      unfolding mv_split [OF p(1)] using False by (simp add: sweep_def c_def)
    also have "\<dots> = M i p * u p + S i" by (simp add: up algebra_simps)
    also have "\<dots> = v i" using eq [OF i] p by (simp add: mv_split S_def)
    finally show ?thesis using False by simp
  qed
qed

lemma sweep_sweep: "M p p \<noteq> 0 \<Longrightarrow> sweep (sweep M p) p i j = M i j"
  by (auto simp: sweep_def algebra_simps)

lemma exch_rel_sweep:
  assumes rel: "exch_rel A k P arr M" and p: "p < k" "p \<notin> P" "M p p \<noteq> 0"
  shows "exch_rel A k (insert p P) arr (sweep M p)"
proof -
  have "(\<forall>i<k. mixed (insert p P) x (y \<circ> arr) i = mv (sweep M p) k (mixed (insert p P) (y \<circ> arr) x) i)
     \<longleftrightarrow> (\<forall>i<k. mixed P x (y \<circ> arr) i = mv M k (mixed P (y \<circ> arr) x) i)" (is "?L \<longleftrightarrow> ?R") for x y
  proof -
    define u where "u = mixed P (y \<circ> arr) x"
    define v where "v = mixed P x (y \<circ> arr)"
    have u': "mixed (insert p P) (y \<circ> arr) x = u(p := v p)" and v': "mixed (insert p P) x (y \<circ> arr) = v(p := u p)"
      using p(2) by (auto simp: u_def v_def mixed_def fun_eq_iff)
    have "sweep M p p p \<noteq> 0" using p(3) by (simp add: sweep_def)
    then have conv: "v i = mv M k u i"
      if "\<And>i. i < k \<Longrightarrow> (v(p := u p)) i = mv (sweep M p) k (u(p := v p)) i" "i < k" for i
      using that sweep_forward [of p k "sweep M p" "v(p := u p)" "u(p := v p)" i] p
      by (simp add: sweep_sweep mv_def)
    show ?thesis
      unfolding u' v' u_def [symmetric] v_def [symmetric]
      using sweep_forward [of p k M v u, OF p(1,3)] conv by blast
  qed
  then show ?thesis using rel by (simp add: exch_rel_def)
qed

text \<open>
  As long as a column has not been a pivot, a nonsingular matrix has a nonzero entry in it
  outside the pivot rows. The vector read off the column shows it.
\<close>

lemma exch_rel_column:
  assumes rel: "exch_rel A k P arr M" and c: "c < k" "c \<notin> P"
    and zero: "\<And>i. i < k \<Longrightarrow> i \<notin> P \<Longrightarrow> M i c = 0"
  shows "\<not> nonsingular A k"
proof
  assume ns: "nonsingular A k"
  define x where "x = mixed P (\<lambda>j. M j c) (idm c)"
  have inp: "mixed P ((\<lambda>_. 0) \<circ> arr) x = idm c"
    using c by (auto simp: x_def mixed_def idm_def fun_eq_iff)
  have "mixed P x ((\<lambda>_. 0) \<circ> arr) i = M i c" if "i < k" for i
    using zero that by (auto simp: x_def mixed_def)
  then have "\<forall>i<k. mixed P x ((\<lambda>_. 0) \<circ> arr) i = mv M k (mixed P ((\<lambda>_. 0) \<circ> arr) x) i"
    unfolding inp using c by (simp add: mv_unit)
  then have "\<forall>i<k. 0 = mv A k x i"
    using rel [unfolded exch_rel_def, THEN spec, THEN spec, of "\<lambda>_. 0" x] by blast
  then have "x c = 0" using nonsingularD [OF ns, of x c] c by auto
  then show False using c by (simp add: x_def mixed_def idm_def)
qed

lemma exch_rel_full:
  assumes "exch_rel A k P arr M" and "{..<k} \<subseteq> P"
  shows "(\<forall>i<k. y i = mv A k x i) \<longleftrightarrow> (\<forall>i<k. x i = (\<Sum>j<k. M i j * y (arr j)))"
proof -
  have "mixed P x (y \<circ> arr) i = x i" if "i < k" for i
    using assms(2) that by (auto simp: mixed_def)
  moreover have "mv M k (mixed P (y \<circ> arr) x) i = (\<Sum>j<k. M i j * y (arr j))" for i
    unfolding mv_def using assms(2) by (intro sum.cong refl) (auto simp: mixed_def)
  ultimately show ?thesis using assms(1) by (simp add: exch_rel_def)
qed

end
