(* ===== verification/ByteField.thy ===== *)
theory ByteField
  imports Linear
begin

text \<open>
  The interface between the two table-driven Galois arithmetics of the repository
  (\<open>gf_mul\<close>/\<open>inverse\<close> of the Vandermonde codec, \<open>gmult\<close>/\<open>ginv\<close> of the Reed-Solomon
  library) and the routines that compute with them. A provider gives its values, which of
  them are bytes, the field element each stands for and its operations; the laws say the
  operations implement the reference field. Proved from the laws alone: the two
  accumulation loops the C code writes over and over, the sum of products and Horner's
  scheme.
\<close>

locale byte_field =
  fixes wf :: "'a \<Rightarrow> bool"
    and val :: "'a \<Rightarrow> gf256"
    and zero :: 'a
    and add :: "'a \<Rightarrow> 'a \<Rightarrow> 'a"
    and mul :: "'a \<Rightarrow> 'a \<Rightarrow> 'a"
    and inv :: "'a \<Rightarrow> 'a"
  assumes wf_zero: "wf zero"
    and val_zero: "val zero = 0"
    and val_inj: "wf a \<Longrightarrow> wf b \<Longrightarrow> val a = val b \<Longrightarrow> a = b"
    and wf_add: "wf a \<Longrightarrow> wf b \<Longrightarrow> wf (add a b)"
    and val_add: "wf a \<Longrightarrow> wf b \<Longrightarrow> val (add a b) = val a + val b"
    and wf_mul: "wf a \<Longrightarrow> wf b \<Longrightarrow> wf (mul a b)"
    and val_mul: "wf a \<Longrightarrow> wf b \<Longrightarrow> val (mul a b) = val a * val b"
    and wf_inv: "wf a \<Longrightarrow> wf (inv a)"
    and val_inv: "wf a \<Longrightarrow> a \<noteq> zero \<Longrightarrow> val (inv a) = inverse (val a)"
begin

lemma val_eq_0_iff: "wf a \<Longrightarrow> val a = 0 \<longleftrightarrow> a = zero"
  using val_inj val_zero wf_zero by metis

lemma mul_inv_cancel: "wf a \<Longrightarrow> a \<noteq> zero \<Longrightarrow> val (mul a (inv a)) = 1"
  by (simp add: val_mul wf_inv val_inv val_eq_0_iff)

text \<open>\<open>for (i = a; i < b; i++) acc ^= mul(f(i), g(i))\<close>\<close>

lemma dot_loop:
  assumes "\<And>i. a \<le> i \<Longrightarrow> i < b \<Longrightarrow> wf (f i) \<and> wf (g i)" and "wf s"
  shows "wf (fold (\<lambda>i acc. add acc (mul (f i) (g i))) [a..<b] s) \<and>
         val (fold (\<lambda>i acc. add acc (mul (f i) (g i))) [a..<b] s) = val s + (\<Sum>i=a..<b. val (f i) * val (g i))"
  using assms(1)
proof (induction b)
  case 0
  then show ?case by (simp add: assms(2))
next
  case (Suc b)
  then show ?case
    by (cases "a \<le> b") (simp_all add: assms(2) wf_add wf_mul val_add val_mul add.assoc)
qed

lemma dot_loop_wf:
  "(\<And>i. a \<le> i \<Longrightarrow> i < b \<Longrightarrow> wf (f i) \<and> wf (g i)) \<Longrightarrow> wf s \<Longrightarrow>
     wf (fold (\<lambda>i acc. add acc (mul (f i) (g i))) [a..<b] s)"
  by (rule dot_loop [THEN conjunct1])

lemma dot_loop_val:
  "(\<And>i. a \<le> i \<Longrightarrow> i < b \<Longrightarrow> wf (f i) \<and> wf (g i)) \<Longrightarrow> wf s \<Longrightarrow>
     val (fold (\<lambda>i acc. add acc (mul (f i) (g i))) [a..<b] s) = val s + (\<Sum>i=a..<b. val (f i) * val (g i))"
  by (rule dot_loop [THEN conjunct2])

text \<open>\<open>for (i = 0; i < n; i++) acc = d(i) ^ mul(x, acc)\<close>\<close>

lemma horner_loop:
  assumes "\<And>i. i < n \<Longrightarrow> wf (d i)" and "wf x"
  shows "wf (fold (\<lambda>i acc. add (d i) (mul x acc)) [0..<n] zero) \<and>
         val (fold (\<lambda>i acc. add (d i) (mul x acc)) [0..<n] zero) = (\<Sum>i<n. val (d i) * val x ^ (n - 1 - i))"
  using assms(1)
proof (induction n)
  case 0
  then show ?case by (simp add: wf_zero val_zero)
next
  case (Suc n)
  let ?s = "fold (\<lambda>i acc. add (d i) (mul x acc)) [0..<n] zero"
  have IH: "wf ?s" "val ?s = (\<Sum>i<n. val (d i) * val x ^ (n - 1 - i))"
    using Suc by auto
  have "val x * val ?s = (\<Sum>i<n. val (d i) * val x ^ (n - i))"
    unfolding IH(2) sum_distrib_left
  proof (intro sum.cong refl)
    fix i assume "i \<in> {..<n}"
    then have "n - i = Suc (n - 1 - i)" by auto
    then show "val x * (val (d i) * val x ^ (n - 1 - i)) = val (d i) * val x ^ (n - i)"
      by (simp add: ac_simps)
  qed
  with IH show ?case using Suc.prems assms(2)
    by (simp add: wf_add wf_mul val_add val_mul add.commute)
qed

end

end
