(* ===== verification/FecTables.thy ===== *)
theory FecTables
  imports ByteField
begin

text \<open>
  The Galois-field tables of the Vandermonde codec (\<open>fec.c\<close>, \<open>generate_gf\<close>,
  \<open>init_mul_table\<close>, \<open>modnn\<close>, \<open>init_fec\<close>). The static arrays are the fields of a state
  record; an array is a list, a store a list update, an index of a byte its \<open>unat\<close>.
  The last section shows that after \<open>init_fec\<close> the tables implement the reference field,
  whatever the arrays held before, and interprets the interface \<open>byte_field\<close> with them.
\<close>

subsection \<open>The static state\<close>

record fec_state =
  gf_exp :: "u8 list"
  gf_log :: "int list"
  inverse_tab :: "u8 list"
  gf_mul_table :: "u8 list list"
  fec_initialized :: bool

text \<open>Static storage starts zeroed.\<close>

definition fec_state0 :: fec_state where
  "fec_state0 = \<lparr>gf_exp = replicate 510 0, gf_log = replicate 256 0, inverse_tab = replicate 256 0,
     gf_mul_table = replicate 256 (replicate 256 0), fec_initialized = False\<rparr>"

definition allPp :: "string option list" where
  "allPp = [None, None,
     Some ''111'',
     Some ''1101'',
     Some ''11001'',
     Some ''101001'',
     Some ''1100001'',
     Some ''10010001'',
     Some ''101110001'',
     Some ''1000100001'',
     Some ''10010000001'',
     Some ''101000000001'',
     Some ''1100101000001'',
     Some ''11011000000001'',
     Some ''110000100010001'',
     Some ''1100000000000001'',
     Some ''11010000000010001'']"

definition pp_bit :: "nat \<Rightarrow> bool" where
  "pp_bit i = (the (allPp ! 8) ! i = CHR ''1'')"

text \<open>\<open>while (x >= GF_SIZE) { x -= GF_SIZE; x = (x >> GF_BITS) + (x & GF_SIZE); }\<close>\<close>

function modnn_loop :: "int \<Rightarrow> int" where
  "modnn_loop x =
     (if 255 \<le> x then (let y = x - 255 in modnn_loop (drop_bit 8 y + (y AND 255))) else x)"
  by pat_completeness auto
termination
proof (relation "measure nat", simp)
  fix x y :: int
  assume "255 \<le> x" "y = x - 255"
  moreover have "y = 256 * (y div 256) + y mod 256" by simp
  moreover have "0 \<le> y div 256" "0 \<le> y mod 256"
    using \<open>255 \<le> x\<close> \<open>y = x - 255\<close> by (simp_all add: pos_imp_zdiv_nonneg_iff)
  ultimately have "y div 256 + y mod 256 < x" "0 \<le> y div 256 + y mod 256" by linarith+
  then show "(drop_bit 8 y + (y AND 255), x) \<in> measure nat"
    by (simp add: int_and_255 int_shift_8)
qed

declare modnn_loop.simps [simp del]

definition modnn :: "int \<Rightarrow> u8" where
  "modnn x = word_of_int (modnn_loop x)"

text \<open>\<open>for (i = 0; i < GF_BITS; i++, mask <<= 1)\<close>: the powers below \<open>x^8\<close>, and \<open>x^8\<close> summed up.\<close>

definition gen_low_step :: "nat \<Rightarrow> u8 \<times> fec_state \<Rightarrow> u8 \<times> fec_state" where
  "gen_low_step i = (\<lambda>(mask, T).
     let T = T\<lparr>gf_exp := (gf_exp T)[i := mask]\<rparr>;
         T = T\<lparr>gf_log := (gf_log T)[unat (gf_exp T ! i) := int i]\<rparr>;
         T = (if pp_bit i then T\<lparr>gf_exp := (gf_exp T)[8 := gf_exp T ! 8 XOR mask]\<rparr> else T)
     in (push_bit 1 mask, T))"

definition gen_high_step :: "nat \<Rightarrow> fec_state \<Rightarrow> fec_state" where
  "gen_high_step i T =
     (let mask = push_bit 7 1 :: u8;
          T = (if mask \<le> gf_exp T ! (i - 1)
               then T\<lparr>gf_exp := (gf_exp T)[i := gf_exp T ! 8 XOR push_bit 1 (gf_exp T ! (i - 1) XOR mask)]\<rparr>
               else T\<lparr>gf_exp := (gf_exp T)[i := push_bit 1 (gf_exp T ! (i - 1))]\<rparr>)
      in T\<lparr>gf_log := (gf_log T)[unat (gf_exp T ! i) := int i]\<rparr>)"

definition gen_ext_step :: "nat \<Rightarrow> fec_state \<Rightarrow> fec_state" where
  "gen_ext_step i T = T\<lparr>gf_exp := (gf_exp T)[i + 255 := gf_exp T ! i]\<rparr>"

definition gen_inv_step :: "nat \<Rightarrow> fec_state \<Rightarrow> fec_state" where
  "gen_inv_step i T = T\<lparr>inverse_tab := (inverse_tab T)[i := gf_exp T ! nat (255 - gf_log T ! i)]\<rparr>"

definition generate_gf :: "fec_state \<Rightarrow> fec_state" where
  "generate_gf T =
     (let T = T\<lparr>gf_exp := (gf_exp T)[8 := 0]\<rparr>;
          T = snd (fold gen_low_step [0..<8] (1, T));
          T = T\<lparr>gf_log := (gf_log T)[unat (gf_exp T ! 8) := 8]\<rparr>;
          T = fold gen_high_step [9..<255] T;
          T = T\<lparr>gf_log := (gf_log T)[0 := 255]\<rparr>;
          T = fold gen_ext_step [0..<255] T;
          T = T\<lparr>inverse_tab := (inverse_tab T)[0 := 0]\<rparr>;
          T = T\<lparr>inverse_tab := (inverse_tab T)[1 := 1]\<rparr>
      in fold gen_inv_step [2..<256] T)"

definition mul_row_step :: "nat \<Rightarrow> nat \<Rightarrow> fec_state \<Rightarrow> fec_state" where
  "mul_row_step i j T = T\<lparr>gf_mul_table := (gf_mul_table T)[i := (gf_mul_table T ! i)
     [j := gf_exp T ! unat (modnn (gf_log T ! i + gf_log T ! j))]]\<rparr>"

definition mul_zero_step :: "nat \<Rightarrow> fec_state \<Rightarrow> fec_state" where
  "mul_zero_step j T =
     (let T = T\<lparr>gf_mul_table := (gf_mul_table T)[j := (gf_mul_table T ! j)[0 := 0]]\<rparr>
      in T\<lparr>gf_mul_table := (gf_mul_table T)[0 := (gf_mul_table T ! 0)[j := 0]]\<rparr>)"

definition init_mul_table :: "fec_state \<Rightarrow> fec_state" where
  "init_mul_table T =
     (let T = fold (\<lambda>i. fold (mul_row_step i) [0..<256]) [0..<256] T
      in fold mul_zero_step [0..<256] T)"

definition init_fec :: "fec_state \<Rightarrow> fec_state" where
  "init_fec T = (init_mul_table (generate_gf T))\<lparr>fec_initialized := True\<rparr>"

definition gf_mul :: "fec_state \<Rightarrow> u8 \<Rightarrow> u8 \<Rightarrow> u8" where
  "gf_mul T x y = gf_mul_table T ! unat x ! unat y"

definition gf_inv :: "fec_state \<Rightarrow> u8 \<Rightarrow> u8" where
  "gf_inv T x = inverse_tab T ! unat x"

text \<open>
  \<open>test_gf\<close>, the self-test compiled in with \<open>TEST\<close>: the complaints it would print, in order.
\<close>

datatype gf_complaint = BadExpLog nat | BadMulInv nat | BadMulZeroLeft nat | BadMulZeroRight nat

definition test_gf :: "fec_state \<Rightarrow> gf_complaint list" where
  "test_gf T = concat (map (\<lambda>i.
      (if unat (gf_exp T ! nat (gf_log T ! i)) \<noteq> i then [BadExpLog i] else [])
    @ (if i \<noteq> 0 \<and> gf_mul T (of_nat i) (inverse_tab T ! i) \<noteq> 1 then [BadMulInv i] else [])
    @ (if gf_mul T 0 (of_nat i) \<noteq> 0 then [BadMulZeroLeft i] else [])
    @ (if gf_mul T (of_nat i) 0 \<noteq> 0 then [BadMulZeroRight i] else [])) [0..<256])"

subsection \<open>The reduction modulo 255\<close>

lemma modnn_loop_mod: "0 \<le> x \<Longrightarrow> modnn_loop x = x mod 255"
proof (induction x rule: modnn_loop.induct)
  case (1 x)
  show ?case
  proof (cases "255 \<le> x")
    case True
    define y where "y = x - 255"
    have split: "y = 256 * (y div 256) + y mod 256" by simp
    have nn: "0 \<le> y div 256 + y mod 256"
      using True by (simp add: y_def pos_imp_zdiv_nonneg_iff)
    have "modnn_loop x = modnn_loop (y div 256 + y mod 256)"
      using True by (subst modnn_loop.simps) (simp add: y_def Let_def int_and_255 int_shift_8)
    also have "\<dots> = (y div 256 + y mod 256) mod 255"
      using "1.IH" [OF True y_def] nn by (simp add: int_and_255 int_shift_8)
    also have "\<dots> = (y div 256 + y mod 256 + 255 * (y div 256)) mod 255"
      by (simp only: mod_mult_self2)
    also have "y div 256 + y mod 256 + 255 * (y div 256) = y" using split by linarith
    also have "y mod 255 = (x - 1 * 255) mod 255" by (simp add: y_def)
    also have "\<dots> = x mod 255" by simp
    finally show ?thesis .
  next
    case False
    with "1.prems" show ?thesis by (subst modnn_loop.simps) simp
  qed
qed

lemma unat_modnn: "unat (modnn (int n)) = n mod 255"
proof -
  have "modnn_loop (int n) = int (n mod 255)" by (simp add: modnn_loop_mod zmod_int)
  then have "modnn (int n) = of_nat (n mod 255)" unfolding modnn_def by (simp only: of_int_of_nat_eq)
  moreover have "n mod 255 < 256" by (rule less_trans [of _ 255]) simp_all
  ultimately show ?thesis by (simp add: unat_of_nat)
qed

subsection \<open>What the tables hold\<close>

text \<open>The array sizes of the declarations.\<close>

definition sizes_ok :: "fec_state \<Rightarrow> bool" where
  "sizes_ok T \<longleftrightarrow> length (gf_exp T) = 510 \<and> length (gf_log T) = 256 \<and> length (inverse_tab T) = 256
     \<and> length (gf_mul_table T) = 256 \<and> (\<forall>r\<in>set (gf_mul_table T). length r = 256)"

text \<open>The exponential and logarithm tables are right below \<open>i\<close>.\<close>

definition logs_ok :: "nat \<Rightarrow> fec_state \<Rightarrow> bool" where
  "logs_ok i T \<longleftrightarrow> sizes_ok T \<and>
     (\<forall>j<i. GF (gf_exp T ! j) = alpha ^ j \<and> gf_log T ! unat (gf_exp T ! j) = int j)"

definition tables_ok :: "fec_state \<Rightarrow> bool" where
  "tables_ok T \<longleftrightarrow> sizes_ok T \<and>
     (\<forall>i<510. GF (gf_exp T ! i) = alpha ^ i) \<and>
     gf_log T ! 0 = 255 \<and>
     (\<forall>a. a \<noteq> 0 \<longrightarrow> 0 \<le> gf_log T ! unat a \<and> gf_log T ! unat a < 255 \<and> alpha ^ nat (gf_log T ! unat a) = GF a) \<and>
     (\<forall>a. GF (gf_inv T a) = inverse (GF a)) \<and>
     (\<forall>a b. GF (gf_mul T a b) = GF a * GF b)"

lemma GF_push_bit: "j < 8 \<Longrightarrow> GF (push_bit j 1) = alpha ^ j"
  using xtn_one [of j] xtn_alpha [of j 1] by simp

lemma GF_power2: "j < 8 \<Longrightarrow> GF (2 ^ j) = alpha ^ j"
  using GF_push_bit [of j] by simp

text \<open>The first loop: \<open>x^8\<close> is the sum of the powers the polynomial string marks.\<close>

definition pp_sum :: "nat \<Rightarrow> u8" where
  "pp_sum i = fold (\<lambda>j a. if pp_bit j then a XOR push_bit j 1 else a) [0..<i] 0"

lemma pp_sum_8: "pp_sum 8 = 29"
  by code_simp

lemma GF_29: "GF 29 = alpha ^ 8"
proof -
  have "alpha ^ 8 = alpha * alpha ^ 7" by (simp add: eval_nat_numeral)
  also have "\<dots> = xt (GF (push_bit 7 1))" by (simp only: alpha_times GF_push_bit)
  also have "\<dots> = GF 29" by (simp add: xt_def xt8_def)
  finally show ?thesis by simp
qed

definition low_inv :: "nat \<Rightarrow> u8 \<times> fec_state \<Rightarrow> bool" where
  "low_inv i = (\<lambda>(mask, T). mask = push_bit i 1 \<and> sizes_ok T \<and> gf_exp T ! 8 = pp_sum i \<and>
     (\<forall>j<i. gf_exp T ! j = push_bit j 1 \<and> gf_log T ! unat (push_bit j 1 :: u8) = int j))"

lemma power2_u8_inj: "i < 8 \<Longrightarrow> j < i \<Longrightarrow> (2 :: u8) ^ i \<noteq> 2 ^ j"
  using alpha_power_less_inj [of j i] GF_push_bit [of i] GF_push_bit [of j] by auto

lemma low_inv_step: "i < 8 \<Longrightarrow> low_inv i s \<Longrightarrow> low_inv (Suc i) (gen_low_step i s)"
  unfolding low_inv_def gen_low_step_def sizes_ok_def Let_def pp_sum_def
  by (cases s) (auto simp: less_Suc_eq nth_list_update power2_u8_inj)

lemma low_loop: "low_inv 0 s \<Longrightarrow> low_inv 8 (fold gen_low_step [0..<8] s)"
  by (rule fold_upt_inv [where P = low_inv]) (auto intro: low_inv_step)

lemma xt8_alt: "xt8 a = (if 128 \<le> a then 29 XOR push_bit 1 (a XOR 128) else push_bit 1 a)"
proof -
  have "push_bit 1 (a XOR 128) = push_bit 1 a XOR push_bit 1 (128 :: u8)" by (simp only: push_bit_xor)
  also have "push_bit 1 (128 :: u8) = 0" by simp
  finally have "push_bit 1 (a XOR 128) = push_bit 1 a" by simp
  then show ?thesis by (simp only: xt8_def bit_7_u8) (simp add: xor.commute)
qed

lemma logs_ok_store:
  assumes "logs_ok i T" and "i < 255" and "GF v = alpha ^ i"
  shows "logs_ok (Suc i) (T\<lparr>gf_exp := (gf_exp T)[i := v], gf_log := (gf_log T)[unat v := int i]\<rparr>)"
proof -
  have "gf_exp T ! j \<noteq> v" if "j < i" for j
    using assms that alpha_power_less_inj [of j i] by (auto simp: logs_ok_def)
  then show ?thesis
    using assms by (fastforce simp: logs_ok_def sizes_ok_def less_Suc_eq nth_list_update)
qed

lemma high_step: "8 < i \<Longrightarrow> i < 255 \<Longrightarrow> logs_ok i T \<Longrightarrow> logs_ok (Suc i) (gen_high_step i T)"
proof -
  assume i: "8 < i" "i < 255" and ok: "logs_ok i T"
  define v where "v = xt8 (gf_exp T ! (i - 1))"
  have "GF (gf_exp T ! 8) = GF 29" using ok i GF_29 by (simp add: logs_ok_def)
  then have x8: "gf_exp T ! 8 = 29" by simp
  have len: "i < length (gf_exp T)" using ok i by (simp add: logs_ok_def sizes_ok_def)
  have "gen_high_step i T = T\<lparr>gf_exp := (gf_exp T)[i := v], gf_log := (gf_log T)[unat v := int i]\<rparr>"
    using len by (simp add: gen_high_step_def v_def xt8_alt x8)
  moreover have "GF v = alpha ^ i"
  proof -
    have "GF v = xt (GF (gf_exp T ! (i - 1)))" by (simp add: v_def xt_def)
    also have "\<dots> = alpha * alpha ^ (i - 1)" using ok i by (simp add: alpha_times logs_ok_def)
    also have "\<dots> = alpha ^ i" using i by (simp flip: power_Suc)
    finally show ?thesis .
  qed
  ultimately show ?thesis using logs_ok_store [OF ok] i by simp
qed

lemma low_to_logs:
  assumes "low_inv 8 (m, T)"
  shows "logs_ok 9 (T\<lparr>gf_log := (gf_log T)[unat (gf_exp T ! 8) := 8]\<rparr>)"
proof -
  have T: "sizes_ok T" "gf_exp T ! 8 = 29"
    "\<And>j. j < 8 \<Longrightarrow> gf_exp T ! j = push_bit j 1 \<and> gf_log T ! unat (push_bit j 1 :: u8) = int j"
    using assms pp_sum_8 by (auto simp: low_inv_def)
  then have "logs_ok 8 T" by (auto simp: logs_ok_def GF_power2)
  moreover have "T\<lparr>gf_log := (gf_log T)[unat (29 :: u8) := 8]\<rparr>
      = T\<lparr>gf_exp := (gf_exp T)[8 := 29], gf_log := (gf_log T)[unat (29 :: u8) := int 8]\<rparr>"
    by (rule fec_state.equality) (simp_all flip: T(2))
  ultimately show ?thesis
    using logs_ok_store [of 8 T 29] GF_29 T(2) by simp
qed

text \<open>After the two generating loops: logarithms of all nonzero bytes.\<close>

definition log_ok :: "fec_state \<Rightarrow> bool" where
  "log_ok T \<longleftrightarrow> gf_log T ! 0 = 255 \<and>
     (\<forall>a. a \<noteq> 0 \<longrightarrow> 0 \<le> gf_log T ! unat a \<and> gf_log T ! unat a < 255 \<and> alpha ^ nat (gf_log T ! unat a) = GF a)"

lemma logs_ok_all:
  assumes "logs_ok 255 T"
  shows "log_ok (T\<lparr>gf_log := (gf_log T)[0 := 255]\<rparr>)"
proof -
  have "0 \<le> gf_log T ! unat a \<and> gf_log T ! unat a < 255 \<and> alpha ^ nat (gf_log T ! unat a) = GF a"
    if "a \<noteq> 0" for a
  proof -
    have "GF a \<noteq> 0" using that by simp
    then obtain i where "i < 255" "GF a = alpha ^ i" by (rule nz_is_alpha_power)
    then have "GF (gf_exp T ! i) = GF a" and l: "gf_log T ! unat (gf_exp T ! i) = int i"
      using assms by (auto simp: logs_ok_def)
    then have "gf_exp T ! i = a" by simp
    with l \<open>i < 255\<close> \<open>GF a = alpha ^ i\<close> show ?thesis by auto
  qed
  moreover have "unat a \<noteq> 0" if "a \<noteq> 0" for a :: u8 using that by (metis unat_eq_zero)
  ultimately show ?thesis using assms by (auto simp: log_ok_def logs_ok_def sizes_ok_def)
qed

definition ext_inv :: "nat \<Rightarrow> fec_state \<Rightarrow> bool" where
  "ext_inv i T \<longleftrightarrow> sizes_ok T \<and> log_ok T \<and> (\<forall>j<255 + i. GF (gf_exp T ! j) = alpha ^ j)"

lemma ext_step: "i < 255 \<Longrightarrow> ext_inv i T \<Longrightarrow> ext_inv (Suc i) (gen_ext_step i T)"
  by (auto simp: ext_inv_def gen_ext_step_def sizes_ok_def log_ok_def less_Suc_eq nth_list_update
      power_add alpha_255)

definition inv_inv :: "nat \<Rightarrow> fec_state \<Rightarrow> bool" where
  "inv_inv i T \<longleftrightarrow> sizes_ok T \<and> log_ok T \<and> (\<forall>j<510. GF (gf_exp T ! j) = alpha ^ j) \<and>
     (\<forall>a. unat a < i \<longrightarrow> GF (gf_inv T a) = inverse (GF a))"

lemma inv_step:
  assumes "2 \<le> i" "i < 256" "inv_inv i T"
  shows "inv_inv (Suc i) (gen_inv_step i T)"
proof -
  have "GF (gf_inv (gen_inv_step i T) a) = inverse (GF a)" if a: "unat a < Suc i" for a
  proof (cases "unat a = i")
    case True
    with assms(1) have "a \<noteq> 0" by auto
    then have l: "0 \<le> gf_log T ! i" "gf_log T ! i < 255" "alpha ^ nat (gf_log T ! i) = GF a"
      using assms(3) True by (auto simp: inv_inv_def log_ok_def)
    have "nat (255 - gf_log T ! i) = 255 - nat (gf_log T ! i)" using l by simp
    then have "GF (gf_exp T ! nat (255 - gf_log T ! i)) = alpha ^ (255 - nat (gf_log T ! i))"
      using assms(3) by (simp add: inv_inv_def)
    also have "\<dots> = inverse (GF a)" using l by (simp flip: l(3) add: inverse_alpha_power)
    finally show ?thesis
      using assms True by (simp add: gf_inv_def gen_inv_step_def inv_inv_def sizes_ok_def)
  next
    case False
    with assms a show ?thesis by (auto simp: gf_inv_def gen_inv_step_def inv_inv_def)
  qed
  moreover have "sizes_ok (gen_inv_step i T) \<and> log_ok (gen_inv_step i T) \<and>
      (\<forall>j<510. GF (gf_exp (gen_inv_step i T) ! j) = alpha ^ j)"
    using assms by (auto simp: inv_inv_def gen_inv_step_def sizes_ok_def log_ok_def)
  ultimately show ?thesis by (auto simp: inv_inv_def)
qed

lemma generate_gf_ok:
  assumes "sizes_ok T"
  shows "inv_inv 256 (generate_gf T)"
proof -
  define T1 where "T1 = T\<lparr>gf_exp := (gf_exp T)[8 := 0]\<rparr>"
  define T2 where "T2 = snd (fold gen_low_step [0..<8] (1, T1))"
  define T3 where "T3 = fold gen_high_step [9..<255] (T2\<lparr>gf_log := (gf_log T2)[unat (gf_exp T2 ! 8) := 8]\<rparr>)"
  define T4 where "T4 = T3\<lparr>gf_log := (gf_log T3)[0 := 255]\<rparr>"
  define T5 where "T5 = fold gen_ext_step [0..<255] T4"
  define T6 where "T6 = T5\<lparr>inverse_tab := (inverse_tab T5)[0 := 0, 1 := 1]\<rparr>"
  have "low_inv 0 (1, T1)"
    using assms by (simp add: T1_def low_inv_def sizes_ok_def pp_sum_def)
  from low_loop [OF this] have "low_inv 8 (fst (fold gen_low_step [0..<8] (1, T1)), T2)"
    by (simp add: T2_def)
  then have "logs_ok 9 (T2\<lparr>gf_log := (gf_log T2)[unat (gf_exp T2 ! 8) := 8]\<rparr>)"
    by (rule low_to_logs)
  then have l: "logs_ok 255 T3"
    unfolding T3_def by (intro fold_upt_inv [where P = logs_ok]) (auto intro: high_step)
  then have "ext_inv 0 T4"
    using logs_ok_all [OF l] by (auto simp: ext_inv_def T4_def logs_ok_def sizes_ok_def)
  then have "ext_inv 255 T5"
    unfolding T5_def by (intro fold_upt_inv [where P = ext_inv]) (auto intro: ext_step)
  moreover have "GF (gf_inv T6 a) = inverse (GF a)" if "unat a < 2" for a
  proof -
    have "length (inverse_tab T5) = 256" using calculation by (simp add: ext_inv_def sizes_ok_def)
    moreover have "a = 0 \<or> a = 1"
      using that unat_u8_eq [of a 0] unat_u8_eq [of a 1] by (auto simp: less_2_cases_iff simp del: unat_u8_eq)
    ultimately show ?thesis by (auto simp: T6_def gf_inv_def)
  qed
  ultimately have "inv_inv 2 T6"
    by (auto simp: inv_inv_def ext_inv_def T6_def sizes_ok_def log_ok_def)
  then have "inv_inv 256 (fold gen_inv_step [2..<256] T6)"
    by (intro fold_upt_inv [where P = inv_inv]) (auto intro: inv_step)
  moreover have "generate_gf T = fold gen_inv_step [2..<256] T6"
    by (simp add: generate_gf_def Let_def T1_def T2_def T3_def T4_def T5_def T6_def)
  ultimately show ?thesis by simp
qed

text \<open>The multiplication table: filled row by row, then row 0 and column 0 cleared.\<close>

definition mul_entry :: "fec_state \<Rightarrow> nat \<Rightarrow> nat \<Rightarrow> u8" where
  "mul_entry T a b = gf_exp T ! unat (modnn (gf_log T ! a + gf_log T ! b))"

definition mul_inv :: "fec_state \<Rightarrow> nat \<Rightarrow> nat \<Rightarrow> fec_state \<Rightarrow> bool" where
  "mul_inv T0 i j T \<longleftrightarrow> sizes_ok T \<and> gf_exp T = gf_exp T0 \<and> gf_log T = gf_log T0 \<and> inverse_tab T = inverse_tab T0 \<and>
     (\<forall>a<256. \<forall>b<256. a < i \<or> a = i \<and> b < j \<longrightarrow> gf_mul_table T ! a ! b = mul_entry T0 a b)"

lemma sizes_ok_row: "sizes_ok T \<Longrightarrow> i < 256 \<Longrightarrow> length (gf_mul_table T ! i) = 256"
  by (auto simp: sizes_ok_def)

lemma sizes_ok_update_row:
  assumes "sizes_ok T" and "length r = 256"
  shows "sizes_ok (T\<lparr>gf_mul_table := (gf_mul_table T)[i := r]\<rparr>)"
  using assms set_update_subset_insert [of "gf_mul_table T" i r] by (auto simp: sizes_ok_def)

lemma mul_inv_row_step: "i < 256 \<Longrightarrow> j < 256 \<Longrightarrow> mul_inv T0 i j T \<Longrightarrow> mul_inv T0 i (Suc j) (mul_row_step i j T)"
  using sizes_ok_row [of T i]
  by (auto simp: mul_inv_def mul_row_step_def mul_entry_def nth_list_update less_Suc_eq
      sizes_ok_update_row sizes_ok_def [of T])

lemma mul_inv_row: "i < 256 \<Longrightarrow> mul_inv T0 i 0 T \<Longrightarrow> mul_inv T0 (Suc i) 0 (fold (mul_row_step i) [0..<256] T)"
proof -
  assume i: "i < 256" and 0: "mul_inv T0 i 0 T"
  from 0 have "mul_inv T0 i 256 (fold (mul_row_step i) [0..<256] T)"
    by (intro fold_upt_inv [where P = "mul_inv T0 i"]) (auto intro: mul_inv_row_step i)
  then show ?thesis by (auto simp: mul_inv_def less_Suc_eq)
qed

definition zero_inv :: "fec_state \<Rightarrow> nat \<Rightarrow> fec_state \<Rightarrow> bool" where
  "zero_inv T0 j T \<longleftrightarrow> sizes_ok T \<and> gf_exp T = gf_exp T0 \<and> gf_log T = gf_log T0 \<and> inverse_tab T = inverse_tab T0 \<and>
     (\<forall>a<256. \<forall>b<256. gf_mul_table T ! a ! b =
        (if a = 0 \<and> b < j \<or> b = 0 \<and> a < j then 0 else mul_entry T0 a b))"

lemma mul_zero_step: "j < 256 \<Longrightarrow> zero_inv T0 j T \<Longrightarrow> zero_inv T0 (Suc j) (mul_zero_step j T)"
proof -
  assume j: "j < 256" and I: "zero_inv T0 j T"
  define T' where "T' = T\<lparr>gf_mul_table := (gf_mul_table T)[j := (gf_mul_table T ! j)[0 := 0]]\<rparr>"
  have s: "sizes_ok T" using I by (simp add: zero_inv_def)
  have s': "sizes_ok T'" unfolding T'_def by (intro sizes_ok_update_row s) (simp add: sizes_ok_row s j)
  have s'': "sizes_ok (mul_zero_step j T)"
    using sizes_ok_update_row [OF s', of "(gf_mul_table T' ! 0)[j := 0]" 0] sizes_ok_row [OF s']
    by (simp add: mul_zero_step_def T'_def)
  have len: "length (gf_mul_table T) = 256" using s by (simp add: sizes_ok_def)
  have "gf_mul_table (mul_zero_step j T) ! a ! b = (if a = 0 \<and> b = j \<or> b = 0 \<and> a = j then 0 else gf_mul_table T ! a ! b)"
    if "a < 256" "b < 256" for a b
    using that j s sizes_ok_row [OF s, of a] sizes_ok_row [OF s, of 0] sizes_ok_row [OF s, of j]
    by (auto simp: mul_zero_step_def len nth_list_update)
  then show ?thesis using I s'' by (auto simp: zero_inv_def less_Suc_eq mul_zero_step_def)
qed

lemma init_mul_table_zero: "sizes_ok T \<Longrightarrow> zero_inv T 256 (init_mul_table T)"
proof -
  assume "sizes_ok T"
  then have "mul_inv T 0 0 T" by (simp add: mul_inv_def)
  then have "mul_inv T 256 0 (fold (\<lambda>i. fold (mul_row_step i) [0..<256]) [0..<256] T)"
    by (intro fold_upt_inv [where P = "\<lambda>i. mul_inv T i 0"]) (auto intro: mul_inv_row)
  then have "zero_inv T 0 (fold (\<lambda>i. fold (mul_row_step i) [0..<256]) [0..<256] T)"
    by (auto simp: mul_inv_def zero_inv_def)
  then show ?thesis
    unfolding init_mul_table_def Let_def
    by (intro fold_upt_inv [where P = "zero_inv T"]) (auto intro: mul_zero_step)
qed

lemma mul_entry_val:
  assumes "inv_inv 256 T" and "a \<noteq> 0" and "b \<noteq> 0"
  shows "GF (mul_entry T (unat a) (unat b)) = GF a * GF b"
proof -
  define i where "i = nat (gf_log T ! unat a)"
  define j where "j = nat (gf_log T ! unat b)"
  have "gf_log T ! unat a = int i" "gf_log T ! unat b = int j"
    using assms by (auto simp: i_def j_def inv_inv_def log_ok_def)
  then have "mul_entry T (unat a) (unat b) = gf_exp T ! ((i + j) mod 255)"
    using unat_modnn [of "i + j"] by (simp add: mul_entry_def)
  moreover have "(i + j) mod 255 < 510" by (rule less_trans [of _ 255]) simp_all
  ultimately have "GF (mul_entry T (unat a) (unat b)) = alpha ^ ((i + j) mod 255)"
    using assms(1) by (simp add: inv_inv_def)
  also have "\<dots> = alpha ^ i * alpha ^ j" by (simp only: alpha_power_mod power_add)
  also have "\<dots> = GF a * GF b" using assms by (simp add: i_def j_def inv_inv_def log_ok_def)
  finally show ?thesis .
qed

lemma init_mul_table_ok:
  assumes "inv_inv 256 T"
  shows "tables_ok (init_mul_table T)"
proof -
  have z: "zero_inv T 256 (init_mul_table T)"
    using assms by (intro init_mul_table_zero) (simp add: inv_inv_def)
  have "GF (gf_mul (init_mul_table T) a b) = GF a * GF b" for a b
  proof -
    have "gf_mul (init_mul_table T) a b = (if a = 0 \<or> b = 0 then 0 else mul_entry T (unat a) (unat b))"
      using z unat_u8 [of a] unat_u8 [of b] by (auto simp: gf_mul_def zero_inv_def simp del: unat_u8)
    then show ?thesis using mul_entry_val [OF assms] by simp
  qed
  then show ?thesis
    using z assms by (auto simp: tables_ok_def zero_inv_def inv_inv_def log_ok_def gf_inv_def)
qed

lemma tables_ok_flag: "tables_ok (T\<lparr>fec_initialized := b\<rparr>) \<longleftrightarrow> tables_ok T"
  by (simp add: tables_ok_def sizes_ok_def gf_mul_def gf_inv_def)

lemma init_fec_ok: "sizes_ok T \<Longrightarrow> tables_ok (init_fec T)"
  by (simp add: init_fec_def tables_ok_flag init_mul_table_ok generate_gf_ok)

lemma sizes_ok_state0: "sizes_ok fec_state0"
  by (simp add: sizes_ok_def fec_state0_def)

subsection \<open>The tables as a provider of Galois arithmetic\<close>

text \<open>
  What the linear algebra and the codec need of the tables: they are the ones \<open>init_fec\<close>
  builds. Any such state provides the byte arithmetic.
\<close>

locale gf_tables =
  fixes T :: fec_state
  assumes tabs: "tables_ok T"

sublocale gf_tables \<subseteq> byte_field "\<lambda>_. True" GF 0 "(XOR)" "gf_mul T" "gf_inv T"
  using tabs by unfold_locales (auto simp: tables_ok_def GF_xor)

context gf_tables
begin

lemma GF_mul [gf_abs]: "GF (gf_mul T a b) = GF a * GF b"
  by (simp add: val_mul)

lemma GF_inv [gf_abs]: "GF (gf_inv T a) = inverse (GF a)"
  using tabs by (simp add: tables_ok_def)

lemma GF_exp [gf_abs]: "i < 510 \<Longrightarrow> GF (gf_exp T ! i) = alpha ^ i"
  using tabs by (simp add: tables_ok_def)

lemma GF_mul_row [gf_abs]: "GF (gf_mul_table T ! unat a ! unat b) = GF a * GF b"
  using GF_mul by (simp add: gf_mul_def)

end

text \<open>The tables of the running program: those \<open>init_fec\<close> builds from zeroed storage.\<close>

definition fec_tabs :: fec_state where
  "fec_tabs = init_fec fec_state0"

lemma fec_tabs_ok: "tables_ok fec_tabs"
  unfolding fec_tabs_def by (rule init_fec_ok [OF sizes_ok_state0])

interpretation vdm: gf_tables fec_tabs
  by unfold_locales (rule fec_tabs_ok)

end
