(* ===== verification/FecLinalg.thy ===== *)
theory FecLinalg
  imports FecTables
begin

text \<open>
  The linear algebra of the Vandermonde codec (\<open>fec.c\<close>: \<open>addmul1\<close>, \<open>matmul\<close>,
  \<open>is_identity\<close>, \<open>invert_mat\<close>, \<open>invert_vdm\<close>). A matrix is a flat row-major list as in the
  code; \<open>mat k xs\<close> reads it as a matrix of field elements. A freshly allocated buffer is
  a list of zeros: every cell is written before it is read. A pointer into a matrix is an
  offset, and a row handed to another routine a slice put back afterwards.
\<close>

definition mat :: "nat \<Rightarrow> u8 list \<Rightarrow> nat \<Rightarrow> nat \<Rightarrow> gf256" where
  "mat k xs i j = GF (xs ! (i * k + j))"

subsection \<open>Multiply and accumulate\<close>

text \<open>\<open>GF_ADDMULC(dst[i], src[i])\<close> with the row of the multiplication table fixed by \<open>GF_MULC0\<close>.\<close>

definition addmulc_at :: "u8 list \<Rightarrow> u8 list \<Rightarrow> nat \<Rightarrow> u8 list \<Rightarrow> u8 list" where
  "addmulc_at mulc src i dst = dst[i := dst ! i XOR mulc ! unat (src ! i)]"

text \<open>The loop unrolled sixteen times: \<open>for (; dst < lim; dst += UNROLL, src += UNROLL)\<close>.\<close>

function addmul1_blocks :: "u8 list \<Rightarrow> u8 list \<Rightarrow> nat \<Rightarrow> nat \<Rightarrow> u8 list \<Rightarrow> nat \<times> u8 list" where
  "addmul1_blocks mulc src sz i dst =
     (if i + 15 < sz
      then addmul1_blocks mulc src sz (i + 16) (fold (\<lambda>u. addmulc_at mulc src (i + u)) [0..<16] dst)
      else (i, dst))"
  by pat_completeness auto
termination
  by (relation "measure (\<lambda>(mulc, src, sz, i, dst). sz - i)") auto

declare addmul1_blocks.simps [simp del]

definition addmul1 :: "fec_state \<Rightarrow> u8 list \<Rightarrow> u8 list \<Rightarrow> u8 \<Rightarrow> nat \<Rightarrow> u8 list" where
  "addmul1 T dst src c sz =
     (let mulc = gf_mul_table T ! unat c;
          (i, dst) = addmul1_blocks mulc src sz 0 dst
      in fold (addmulc_at mulc src) [i..<sz] dst)"

definition addmul :: "fec_state \<Rightarrow> u8 list \<Rightarrow> u8 list \<Rightarrow> u8 \<Rightarrow> nat \<Rightarrow> u8 list" where
  "addmul T dst src c sz = (if c \<noteq> 0 then addmul1 T dst src c sz else dst)"

subsection \<open>Matrix product and identity test\<close>

definition matmul :: "fec_state \<Rightarrow> u8 list \<Rightarrow> u8 list \<Rightarrow> u8 list \<Rightarrow> nat \<Rightarrow> nat \<Rightarrow> nat \<Rightarrow> u8 list" where
  "matmul T a b c n k m =
     fold (\<lambda>row. fold (\<lambda>col c. c[row * m + col :=
       fold (\<lambda>i acc. acc XOR gf_mul T (a ! (row * k + i)) (b ! (col + i * m))) [0..<k] 0]) [0..<m]) [0..<n] c"

definition is_identity :: "u8 list \<Rightarrow> nat \<Rightarrow> bool" where
  "is_identity m k = list_all (\<lambda>row. list_all (\<lambda>col.
     \<not> (row = col \<and> m ! (row * k + col) \<noteq> 1 \<or> row \<noteq> col \<and> m ! (row * k + col) \<noteq> 0)) [0..<k]) [0..<k]"

subsection \<open>Inversion of a Vandermonde matrix\<close>

text \<open>Multiply the polynomial in \<open>c\<close> by \<open>x - p_i\<close> (the leading coefficient is implicit).\<close>

definition vdm_coef_step :: "fec_state \<Rightarrow> u8 list \<Rightarrow> nat \<Rightarrow> nat \<Rightarrow> u8 list \<Rightarrow> u8 list" where
  "vdm_coef_step T p k i c =
     (let c = fold (\<lambda>j c. c[j := c ! j XOR gf_mul T (p ! i) (c ! (j + 1))]) [k - 1 - (i - 1)..<k - 1] c
      in c[k - 1 := c ! (k - 1) XOR p ! i])"

text \<open>Synthetic division by \<open>x - xx\<close>, and the quotient's value at \<open>xx\<close> in \<open>t\<close>.\<close>

definition vdm_divide :: "fec_state \<Rightarrow> u8 list \<Rightarrow> nat \<Rightarrow> u8 \<Rightarrow> u8 list \<Rightarrow> u8 list \<times> u8" where
  "vdm_divide T c k xx b =
     fold (\<lambda>i (b, t). let b = b[i := c ! (i + 1) XOR gf_mul T xx (b ! (i + 1))]
                       in (b, gf_mul T xx t XOR b ! i))
       (rev [0..<k - 1]) (b[k - 1 := 1], 1)"

definition vdm_row :: "fec_state \<Rightarrow> u8 list \<Rightarrow> u8 list \<Rightarrow> nat \<Rightarrow> nat \<Rightarrow> u8 list \<times> u8 list \<Rightarrow> u8 list \<times> u8 list" where
  "vdm_row T p c k row = (\<lambda>(b, src).
     let (b, t) = vdm_divide T c k (p ! row) b
     in (b, fold (\<lambda>col src. src[col * k + row := gf_mul T (gf_inv T t) (b ! col)]) [0..<k] src))"

definition invert_vdm :: "fec_state \<Rightarrow> u8 list \<Rightarrow> nat \<Rightarrow> u8 list" where
  "invert_vdm T src k =
     (if k = 1 then src
      else
        let p = fold (\<lambda>i p. p[i := src ! (1 + i * k)]) [0..<k] (replicate k 0);
            c = fold (\<lambda>i c. c[i := 0]) [0..<k] (replicate k 0);
            c = c[k - 1 := p ! 0];
            c = fold (vdm_coef_step T p k) [1..<k] c
        in snd (fold (vdm_row T p c k) [0..<k] (replicate k 0, src)))"

subsection \<open>Inversion of any matrix\<close>

definition swap_cells :: "nat \<Rightarrow> nat \<Rightarrow> 'a list \<Rightarrow> 'a list" where
  "swap_cells a b xs = xs[a := xs ! b, b := xs ! a]"

text \<open>Where the search for a pivot can end: \<open>goto found_piv\<close>, \<open>"singular matrix"\<close>, or nothing found.\<close>

datatype pivot = Found nat nat | Singular | NotFound

fun scan_row :: "u8 list \<Rightarrow> nat list \<Rightarrow> nat \<Rightarrow> nat \<Rightarrow> nat list \<Rightarrow> pivot" where
  "scan_row src ipiv k row [] = NotFound"
| "scan_row src ipiv k row (ix # ixs) =
     (if ipiv ! ix = 0
      then if src ! (row * k + ix) \<noteq> 0 then Found row ix else scan_row src ipiv k row ixs
      else if ipiv ! ix > 1 then Singular
      else scan_row src ipiv k row ixs)"

fun scan_rows :: "u8 list \<Rightarrow> nat list \<Rightarrow> nat \<Rightarrow> nat list \<Rightarrow> pivot" where
  "scan_rows src ipiv k [] = NotFound"
| "scan_rows src ipiv k (row # rows) =
     (if ipiv ! row \<noteq> 1
      then case scan_row src ipiv k row [0..<k] of NotFound \<Rightarrow> scan_rows src ipiv k rows | r \<Rightarrow> r
      else scan_rows src ipiv k rows)"

definition find_pivot :: "u8 list \<Rightarrow> nat list \<Rightarrow> nat \<Rightarrow> nat \<Rightarrow> pivot" where
  "find_pivot src ipiv k col =
     (if ipiv ! col \<noteq> 1 \<and> src ! (col * k + col) \<noteq> 0 then Found col col
      else scan_rows src ipiv k [0..<k])"

record inv_state =
  im_src :: "u8 list"
  im_ipiv :: "nat list"
  im_indxr :: "nat list"
  im_indxc :: "nat list"

definition swap_rows :: "nat \<Rightarrow> nat \<Rightarrow> nat \<Rightarrow> u8 list \<Rightarrow> u8 list" where
  "swap_rows k irow icol src =
     (if irow \<noteq> icol then fold (\<lambda>ix. swap_cells (irow * k + ix) (icol * k + ix)) [0..<k] src else src)"

definition scale_pivot_row :: "fec_state \<Rightarrow> nat \<Rightarrow> nat \<Rightarrow> u8 list \<Rightarrow> u8 list" where
  "scale_pivot_row T k icol src =
     (let c = src ! (icol * k + icol)
      in if c \<noteq> 1
         then fold (\<lambda>ix src. src[icol * k + ix := gf_mul T (gf_inv T c) (src ! (icol * k + ix))]) [0..<k]
                (src[icol * k + icol := 1])
         else src)"

definition eliminate_row :: "fec_state \<Rightarrow> nat \<Rightarrow> nat \<Rightarrow> nat \<Rightarrow> u8 list \<Rightarrow> u8 list" where
  "eliminate_row T k icol ix src =
     (if ix \<noteq> icol
      then let c = src ! (ix * k + icol);
               p = (slice (ix * k) k src)[icol := 0]
           in put_slice (ix * k) (addmul T p (slice (icol * k) k src) c k) src
      else src)"

definition eliminate :: "fec_state \<Rightarrow> nat \<Rightarrow> nat \<Rightarrow> u8 list \<Rightarrow> u8 list" where
  "eliminate T k icol src =
     (if slice (icol * k) k src \<noteq> (replicate k 0)[icol := 1]
      then fold (eliminate_row T k icol) [0..<k] src else src)"

text \<open>One pass of the column loop; \<open>Inl\<close> is \<open>goto fail\<close>.\<close>

definition invert_col :: "fec_state \<Rightarrow> nat \<Rightarrow> nat \<Rightarrow> inv_state \<Rightarrow> inv_state + inv_state" where
  "invert_col T k col s =
     (case find_pivot (im_src s) (im_ipiv s) k col of
        Singular \<Rightarrow> Inl s
      | NotFound \<Rightarrow> Inl s
      | Found irow icol \<Rightarrow>
          let s = s\<lparr>im_ipiv := (im_ipiv s)[icol := im_ipiv s ! icol + 1],
                     im_src := swap_rows k irow icol (im_src s),
                     im_indxr := (im_indxr s)[col := irow],
                     im_indxc := (im_indxc s)[col := icol]\<rparr>
          in if im_src s ! (icol * k + icol) = 0 then Inl s
             else Inr (s\<lparr>im_src := eliminate T k icol (scale_pivot_row T k icol (im_src s))\<rparr>))"

fun invert_cols :: "fec_state \<Rightarrow> nat \<Rightarrow> nat list \<Rightarrow> inv_state \<Rightarrow> inv_state + inv_state" where
  "invert_cols T k [] s = Inr s"
| "invert_cols T k (col # cols) s =
     (case invert_col T k col s of Inl s \<Rightarrow> Inl s | Inr s \<Rightarrow> invert_cols T k cols s)"

text \<open>Undo the row swaps by swapping columns, last swap first.\<close>

definition unscramble_col :: "nat \<Rightarrow> nat list \<Rightarrow> nat list \<Rightarrow> nat \<Rightarrow> u8 list \<Rightarrow> u8 list" where
  "unscramble_col k indxr indxc col src =
     (if k \<le> indxr ! col then src
      else if k \<le> indxc ! col then src
      else if indxr ! col \<noteq> indxc ! col
      then fold (\<lambda>row. swap_cells (row * k + indxr ! col) (row * k + indxc ! col)) [0..<k] src
      else src)"

definition invert_mat :: "fec_state \<Rightarrow> u8 list \<Rightarrow> nat \<Rightarrow> nat \<times> u8 list" where
  "invert_mat T src k =
     (case invert_cols T k [0..<k] \<lparr>im_src = src, im_ipiv = replicate k 0, im_indxr = replicate k 0, im_indxc = replicate k 0\<rparr> of
        Inl s \<Rightarrow> (1, im_src s)
      | Inr s \<Rightarrow> (0, fold (unscramble_col k (im_indxr s) (im_indxc s)) (rev [0..<k]) (im_src s)))"

subsection \<open>What the multiply-and-accumulate loop computes\<close>

lemma length_addmulc_at [simp]: "length (addmulc_at mulc src i dst) = length dst"
  by (simp add: addmulc_at_def)

lemma fold_shift: "fold (\<lambda>u. f (i + u)) [0..<n] s = fold f [i..<i + n] s"
  by (induction n) simp_all

text \<open>The unrolled loop is the plain loop over a prefix of the indices.\<close>

lemma addmul1_blocks_prefix:
  "i \<le> sz \<Longrightarrow> \<exists>i'. i \<le> i' \<and> i' \<le> sz \<and>
     addmul1_blocks mulc src sz i dst = (i', fold (addmulc_at mulc src) [i..<i'] dst)"
proof (induction mulc src sz i dst rule: addmul1_blocks.induct)
  case (1 mulc src sz i dst)
  show ?case
  proof (cases "i + 15 < sz")
    case True
    then obtain i' where i': "i + 16 \<le> i'" "i' \<le> sz"
      "addmul1_blocks mulc src sz (i + 16) (fold (addmulc_at mulc src) [i..<i + 16] dst)
         = (i', fold (addmulc_at mulc src) [i + 16..<i'] (fold (addmulc_at mulc src) [i..<i + 16] dst))"
      using "1.IH" by (auto simp: fold_shift)
    have "[i..<i'] = [i..<i + 16] @ [i + 16..<i']"
      using i'(1) upt_add_eq_append [of i "i + 16" "i' - (i + 16)"] by simp
    then have "fold (addmulc_at mulc src) [i + 16..<i'] (fold (addmulc_at mulc src) [i..<i + 16] dst)
        = fold (addmulc_at mulc src) [i..<i'] dst" by (simp only: fold_append comp_apply)
    then show ?thesis
      using True i' by (intro exI [of _ i']) (subst addmul1_blocks.simps, simp add: fold_shift)
  next
    case False
    then show ?thesis using "1.prems" by (intro exI [of _ i]) (subst addmul1_blocks.simps, simp)
  qed
qed

lemma addmul1_plain: "addmul1 T dst src c sz = fold (addmulc_at (gf_mul_table T ! unat c) src) [0..<sz] dst"
proof -
  obtain i where i: "i \<le> sz" "addmul1_blocks (gf_mul_table T ! unat c) src sz 0 dst
      = (i, fold (addmulc_at (gf_mul_table T ! unat c) src) [0..<i] dst)"
    using addmul1_blocks_prefix [of 0 sz "gf_mul_table T ! unat c" src dst] by auto
  have "[0..<sz] = [0..<i] @ [i..<sz]" using i(1) upt_add_eq_append [of 0 i "sz - i"] by simp
  then have "fold (addmulc_at (gf_mul_table T ! unat c) src) [0..<sz] dst
      = fold (addmulc_at (gf_mul_table T ! unat c) src) [i..<sz] (fold (addmulc_at (gf_mul_table T ! unat c) src) [0..<i] dst)"
    by (simp only: fold_append comp_apply)
  then show ?thesis using i(2) by (simp add: addmul1_def Let_def)
qed

lemma length_addmul [len_simps, simp]: "length (addmul T dst src c sz) = length dst"
  unfolding addmul_def addmul1_plain by (simp add: fold_keeps [where g = length])

context gf_tables
begin

lemma addmul_nth:
  assumes "j < length dst"
  shows "GF (addmul T dst src c sz ! j) = (if j < sz then GF (dst ! j) + GF c * GF (src ! j) else GF (dst ! j))"
proof (cases "c = 0")
  case False
  have "addmul T dst src c sz = fold (\<lambda>i xs. xs[i := xs ! i XOR gf_mul_table T ! unat c ! unat (src ! i)]) [0..<sz] dst"
    using False by (simp add: addmul_def addmul1_plain addmulc_at_def [abs_def])
  then show ?thesis
    using fold_modify_nth [OF assms, of "\<lambda>i x. x XOR gf_mul_table T ! unat c ! unat (src ! i)" 0 sz]
    by (simp add: GF_xor GF_mul_row)
qed (simp add: addmul_def)

lemma matmul_nth:
  assumes "r < n" "cl < m" "n * m \<le> length c"
  shows "mat m (matmul T a b c n k m) r cl = mm (mat k a) k (mat m b) r cl"
  unfolding mat_def matmul_def fold_store_matrix_nth [OF assms] mm_def
  using dot_loop_val [of 0 k "\<lambda>i. a ! (r * k + i)" "\<lambda>i. b ! (cl + i * m)" 0]
  by (simp add: atLeast0LessThan add.commute)

end

lemma matmul_length [len_simps, simp]: "length (matmul T a b c n k m) = length c"
  unfolding matmul_def by (rule fold_store_matrix_length)

lemma matmul_other: "n * m \<le> j \<Longrightarrow> j < length c \<Longrightarrow> matmul T a b c n k m ! j = c ! j"
  unfolding matmul_def by (rule fold_store_matrix_other)

lemma is_identity_iff: "is_identity m k \<longleftrightarrow> (\<forall>i<k. \<forall>j<k. mat k m i j = idm i j)"
proof -
  have "is_identity m k \<longleftrightarrow> (\<forall>i<k. \<forall>j<k. m ! (i * k + j) = (if i = j then 1 else 0))"
    unfolding is_identity_def list_all_iff by (simp add: Ball_def) metis
  then show ?thesis by (simp add: mat_def idm_def split: if_splits)
qed

subsection \<open>The Vandermonde inversion\<close>

text \<open>The coefficients in \<open>c\<close> with the implicit leading 1.\<close>

definition monic :: "nat \<Rightarrow> u8 list \<Rightarrow> nat \<Rightarrow> gf256" where
  "monic k c j = (if j < k then GF (c ! j) else if j = k then 1 else 0)"

lemma monic_simps [simp]: "monic k c k = 1" "j < k \<Longrightarrow> monic k c j = GF (c ! j)"
  by (simp_all add: monic_def)

text \<open>
  The coefficients before stage \<open>i\<close>: the polynomial vanishes at the first \<open>i\<close> points, and the
  cells no stage has reached are still 0. The latter needs the first point to be 0.
\<close>

definition coef_inv :: "nat \<Rightarrow> (nat \<Rightarrow> gf256) \<Rightarrow> nat \<Rightarrow> u8 list \<Rightarrow> bool" where
  "coef_inv k P i c \<longleftrightarrow> length c = k \<and> (\<forall>j<k. j \<le> k - i \<longrightarrow> c ! j = 0) \<and>
     (\<forall>l<i. peval (monic k c) (Suc k) (P l) = 0)"

text \<open>The quotient by \<open>x - xx\<close>, from its top coefficient down to \<open>i\<close>.\<close>

definition quot_inv :: "nat \<Rightarrow> u8 list \<Rightarrow> gf256 \<Rightarrow> nat \<Rightarrow> u8 list \<times> u8 \<Rightarrow> bool" where
  "quot_inv k c X i = (\<lambda>(b, t). length b = k \<and> b ! (k - 1) = 1 \<and>
     (\<forall>j. i \<le> j \<and> j < k - 1 \<longrightarrow> GF (b ! j) = monic k c (Suc j) + X * GF (b ! Suc j)) \<and>
     GF t = (\<Sum>j=i..<k. GF (b ! j) * X ^ (j - i)))"

context gf_tables
begin

lemma coef_step_nth:
  assumes "coef_inv k P i c" "1 \<le> i" "i < k" "j < k"
  shows "GF (vdm_coef_step T p k i c ! j) = monic k c j + GF (p ! i) * monic k c (Suc j)"
proof -
  define d where "d = fold (\<lambda>j c. c[j := c ! j XOR gf_mul T (p ! i) (c ! (j + 1))]) [k - i..<k - 1] c"
  have len: "length c = k" using assms by (simp add: coef_inv_def)
  have d: "d ! j = (if k - i \<le> j \<and> j < k - 1 then c ! j XOR gf_mul T (p ! i) (c ! Suc j) else c ! j)" if "j < k" for j
    using fold_forward_nth [of j c "k - 1" "\<lambda>x y. x XOR gf_mul T (p ! i) y" "k - i"] len assms that
    by (simp add: d_def)
  have "length d = k" unfolding d_def using len by (simp add: fold_keeps [where g = length])
  moreover have "vdm_coef_step T p k i c = d[k - 1 := d ! (k - 1) XOR p ! i]"
    using assms by (simp add: vdm_coef_step_def d_def Let_def)
  ultimately have e: "vdm_coef_step T p k i c ! j = (if j = k - 1 then c ! j XOR p ! i else d ! j)"
    using assms d [of "k - 1"] by (auto simp: nth_list_update)
  show ?thesis
  proof (cases "j < k - i")
    case True
    then have "c ! j = 0" "c ! Suc j = 0" "Suc j < k" "j \<noteq> k - 1" using assms by (auto simp: coef_inv_def)
    then show ?thesis using True e d [of j] assms by (simp add: GF_xor)
  next
    case False
    then show ?thesis using e d [of j] assms by (cases "j = k - 1") (auto simp: GF_xor GF_mul)
  qed
qed

lemma coef_inv_step:
  assumes inv: "coef_inv k P i c" and i: "1 \<le> i" "i < k" and p: "P i = GF (p ! i)"
  shows "coef_inv k P (Suc i) (vdm_coef_step T p k i c)"
proof -
  define c' where "c' = vdm_coef_step T p k i c"
  have len: "length c' = k"
    using inv by (simp add: c'_def vdm_coef_step_def Let_def coef_inv_def fold_keeps [where g = length])
  have c': "monic k c' j = monic k c j + P i * monic k c (Suc j)" if "j < k" for j
    using coef_step_nth [OF inv i that, of p] that p by (simp add: c'_def)
  have zero: "c' ! j = 0" if "j < k" "j \<le> k - Suc i" for j
  proof -
    have "c ! j = 0" "c ! Suc j = 0" "Suc j < k" using inv i that by (auto simp: coef_inv_def)
    then show ?thesis using c' [of j] that by simp
  qed
  define S where "S x = peval (\<lambda>j. monic k c (Suc j)) k x" for x
  have c0: "monic k c 0 = 0" using inv i by (auto simp: coef_inv_def)
  have R: "peval (monic k c) (Suc k) x = x * S x" for x
    using c0 by (simp add: peval_shift S_def)
  have "peval (monic k c') (Suc k) x = (x + P i) * S x" for x
  proof -
    have "peval (monic k c') (Suc k) x = peval (\<lambda>j. monic k c j + P i * monic k c (Suc j)) k x + x ^ k"
      using c' by (simp add: peval_Suc cong: peval_cong)
    also have "\<dots> = peval (monic k c) (Suc k) x + P i * S x"
      by (simp add: peval_add peval_scale peval_Suc S_def)
    finally show ?thesis by (simp add: R distrib_right)
  qed
  moreover have "peval (monic k c') (Suc k) 0 = 0"
    using zero [of 0] i by (simp add: peval_shift)
  ultimately have "peval (monic k c') (Suc k) (P l) = 0" if "l < Suc i" for l
    using that inv R [of "P l"] by (cases "l = i"; cases "P l = 0") (auto simp: coef_inv_def)
  then show ?thesis using len zero by (simp add: coef_inv_def c'_def)
qed

lemma quot_inv_step:
  assumes "i < k - 1" "quot_inv k c (GF xx) (Suc i) (b, t)"
  shows "quot_inv k c (GF xx) i
    (let b = b[i := c ! (i + 1) XOR gf_mul T xx (b ! (i + 1))] in (b, gf_mul T xx t XOR b ! i))"
proof -
  define b' where "b' = b[i := c ! (i + 1) XOR gf_mul T xx (b ! (i + 1))]"
  have b: "length b = k" "b ! (k - 1) = 1" using assms by (auto simp: quot_inv_def)
  have b': "b' ! j = b ! j" if "j \<noteq> i" for j using that by (simp add: b'_def)
  have bi: "GF (b' ! i) = monic k c (Suc i) + GF xx * GF (b ! Suc i)"
    using assms b by (simp add: b'_def GF_xor GF_mul)
  have "(\<Sum>j=i..<k. GF (b' ! j) * GF xx ^ (j - i)) = GF (b' ! i) + (\<Sum>j=Suc i..<k. GF (b' ! j) * GF xx ^ (j - i))"
    using assms(1) by (subst sum.atLeast_Suc_lessThan) simp_all
  also have "(\<Sum>j=Suc i..<k. GF (b' ! j) * GF xx ^ (j - i)) = (\<Sum>j=Suc i..<k. GF xx * (GF (b ! j) * GF xx ^ (j - Suc i)))"
  proof (intro sum.cong refl)
    fix j assume "j \<in> {Suc i..<k}"
    then have "j - i = Suc (j - Suc i)" "b' ! j = b ! j" using b' by auto
    then show "GF (b' ! j) * GF xx ^ (j - i) = GF xx * (GF (b ! j) * GF xx ^ (j - Suc i))"
      by (simp only: power_Suc) (simp add: ac_simps)
  qed
  also have "\<dots> = GF xx * GF t"
    using assms(2) by (simp add: quot_inv_def sum_distrib_left)
  finally have t: "GF (gf_mul T xx t XOR b' ! i) = (\<Sum>j=i..<k. GF (b' ! j) * GF xx ^ (j - i))"
    by (simp add: GF_xor GF_mul add.commute)
  have "GF (b' ! j) = monic k c (Suc j) + GF xx * GF (b' ! Suc j)" if "i \<le> j" "j < k - 1" for j
    using assms(2) bi b' that by (cases "j = i") (auto simp: quot_inv_def)
  then show ?thesis
    using b b' [of "k - 1"] t assms(1) by (simp add: quot_inv_def Let_def flip: b'_def) (auto simp: b'_def)
qed

lemma vdm_divide_inv:
  assumes "1 < k" "length c = k" "length b = k"
  shows "quot_inv k c (GF xx) 0 (vdm_divide T c k xx b)"
  unfolding vdm_divide_def
proof (rule fold_down_inv)
  show "quot_inv k c (GF xx) (k - 1) (b[k - 1 := 1], 1)"
    using assms by (cases k) (auto simp: quot_inv_def)
  fix i s assume "i < k - 1" "quot_inv k c (GF xx) (Suc i) s"
  then show "quot_inv k c (GF xx) i (case s of (b, t) \<Rightarrow>
      let b = b[i := c ! (i + 1) XOR gf_mul T xx (b ! (i + 1))] in (b, gf_mul T xx t XOR b ! i))"
    by (cases s) (simp only: prod.case quot_inv_step)
qed

text \<open>
  With the polynomial vanishing at \<open>k\<close> distinct points, the quotient divided by its value at
  the point is the Lagrange polynomial of the point.
\<close>

lemma vdm_lagrange:
  assumes k: "1 < k" "length c = k" "length b0 = k"
    and roots: "\<And>l. l < k \<Longrightarrow> peval (monic k c) (Suc k) (P l) = 0"
    and inj: "inj_on P {..<k}" and r: "r < k" "P r = GF xx"
    and div: "vdm_divide T c k xx b0 = (b, t)"
  shows "length b = k" and "\<And>i. i < k \<Longrightarrow> (\<Sum>j<k. P i ^ j * (inverse (GF t) * GF (b ! j))) = idm i r"
proof -
  have q: "quot_inv k c (GF xx) 0 (b, t)" using vdm_divide_inv [OF k] by (simp flip: div)
  then show len: "length b = k" by (simp add: quot_inv_def)
  define B where "B j = (if j < k then GF (b ! j) else 0)" for j
  have B: "monic k c (Suc j) = B j - P r * B (Suc j)" if j: "j < k" for j
  proof (cases "j = k - 1")
    case True
    then show ?thesis using q k by (simp add: quot_inv_def B_def)
  next
    case False
    then have "GF (b ! j) = monic k c (Suc j) + P r * GF (b ! Suc j)" "Suc j < k"
      using q j r(2) by (auto simp: quot_inv_def)
    then show ?thesis by (simp add: B_def add.assoc)
  qed
  have "B k = 0" by (simp add: B_def)
  note dv = synthetic_division [of B k "monic k c" "P r", OF this B]
  have rest: "monic k c 0 + P r * B 0 = 0" using dv [of "P r"] roots [OF r(1)] by simp
  have t: "GF t = peval B k (P r)"
    using q r by (simp add: quot_inv_def peval_def B_def atLeast0LessThan)
  have other: "peval B k (P i) = 0" if "i < k" "i \<noteq> r" for i
  proof -
    have "P i \<noteq> P r" using inj r that by (auto simp: inj_on_def)
    then show ?thesis using dv [of "P i"] roots [OF that(1)] rest by simp
  qed
  have "GF t \<noteq> 0"
  proof
    assume "GF t = 0"
    then have "\<And>i. i < k \<Longrightarrow> peval B k (P i) = 0" using other t by metis
    then have "B (k - 1) = 0" using vandermonde_kernel [OF inj, of B "k - 1"] k by simp
    then show False using q k by (simp add: B_def quot_inv_def)
  qed
  moreover have "(\<Sum>j<k. P i ^ j * (inverse (GF t) * GF (b ! j))) = inverse (GF t) * peval B k (P i)" for i
    unfolding peval_def sum_distrib_left by (intro sum.cong refl) (simp add: B_def ac_simps)
  ultimately show "(\<Sum>j<k. P i ^ j * (inverse (GF t) * GF (b ! j))) = idm i r" if "i < k" for i
    using other [of i] t that by (auto simp: idm_def)
qed

text \<open>Column \<open>r\<close> of \<open>src\<close> is column \<open>r\<close> of the inverse of the Vandermonde matrix of \<open>P\<close>.\<close>

lemma vdm_row_step:
  assumes k: "1 < k" "length c = k" "length b0 = k" "k * k \<le> length src"
    and roots: "\<And>l. l < k \<Longrightarrow> peval (monic k c) (Suc k) (P l) = 0"
    and inj: "inj_on P {..<k}" and r: "r < k" "P r = GF (p ! r)"
    and step: "vdm_row T p c k r (b0, src) = (b, src')"
  shows "length b = k" "length src' = length src"
    and "i < k \<Longrightarrow> mm (\<lambda>i j. P i ^ j) k (mat k src') i r = idm i r"
    and "i < k \<Longrightarrow> j < k \<Longrightarrow> j \<noteq> r \<Longrightarrow> mat k src' i j = mat k src i j"
    and "k * k \<le> m \<Longrightarrow> src' ! m = src ! m"
proof -
  obtain b1 t where div: "vdm_divide T c k (p ! r) b0 = (b1, t)" by (cases "vdm_divide T c k (p ! r) b0")
  have b: "b = b1" and src': "src' = fold (\<lambda>cl src. src[cl * k + r := gf_mul T (gf_inv T t) (b1 ! cl)]) [0..<k] src"
    using step by (auto simp: vdm_row_def div)
  note lag = vdm_lagrange [OF k(1-3) roots inj r div]
  show "length b = k" using lag(1) b by simp
  show "length src' = length src" by (simp add: src' fold_keeps [where g = length])
  show "src' ! m = src ! m" if "k * k \<le> m"
  proof -
    have "cl * k + r \<noteq> m" if "cl < k" for cl
      using cell_bound [OF that r(1)] \<open>k * k \<le> m\<close> by simp
    then show ?thesis unfolding src' by (intro fold_keeps [where g = "\<lambda>s. s ! m"]) auto
  qed
  have cell: "src' ! (i * k + j) = (if j = r then gf_mul T (gf_inv T t) (b1 ! i) else src ! (i * k + j))"
    if "i < k" "j < k" for i j
    unfolding src' by (rule fold_store_column_nth [OF that r(1) k(4)])
  show "i < k \<Longrightarrow> j < k \<Longrightarrow> j \<noteq> r \<Longrightarrow> mat k src' i j = mat k src i j"
    by (simp add: mat_def cell)
  show "mm (\<lambda>i j. P i ^ j) k (mat k src') i r = idm i r" if "i < k"
    using lag(2) [of i] that r(1) by (simp add: mm_def mat_def cell GF_mul GF_inv)
qed

lemma invert_vdm_correct:
  assumes k: "0 < k" "k * k \<le> length src"
    and vdm: "\<And>i j. i < k \<Longrightarrow> j < k \<Longrightarrow> mat k src i j = P i ^ j"
    and P: "P 0 = 0" "inj_on P {..<k}"
  shows "length (invert_vdm T src k) = length src"
    and "i < k \<Longrightarrow> j < k \<Longrightarrow> mm (\<lambda>i j. P i ^ j) k (mat k (invert_vdm T src k)) i j = idm i j"
    and "k * k \<le> m \<Longrightarrow> invert_vdm T src k ! m = src ! m"
proof -
  have goal: "length (invert_vdm T src k) = length src \<and>
     (\<forall>m. k * k \<le> m \<longrightarrow> invert_vdm T src k ! m = src ! m) \<and>
     (\<forall>i<k. \<forall>j<k. mm (\<lambda>i j. P i ^ j) k (mat k (invert_vdm T src k)) i j = idm i j)"
  proof (cases "k = 1")
    case True
    then show ?thesis using vdm [of 0 0] by (simp add: invert_vdm_def mm_def idm_def)
  next
    case False
    with k have k1: "1 < k" by simp
    define p where "p = fold (\<lambda>i p. p[i := src ! (1 + i * k)]) [0..<k] (replicate k 0)"
    define c0 where "c0 = (fold (\<lambda>i c. c[i := 0]) [0..<k] (replicate k (0 :: u8)))[k - 1 := p ! 0]"
    define c where "c = fold (vdm_coef_step T p k) [1..<k] c0"
    have p: "GF (p ! i) = P i" if "i < k" for i
      using that vdm [OF that k1] by (simp add: p_def fold_store_nth mat_def add.commute)
    have z: "c0 ! j = 0" if "j < k" for j
      using that p [of 0] P(1) k by (auto simp: c0_def nth_list_update fold_store_nth)
    have "peval (monic k c0) (Suc k) 0 = 0" using z [of 0] k by (simp add: peval_shift)
    then have "coef_inv k P 1 c0" using z P(1) by (simp add: coef_inv_def c0_def)
    then have cinv: "coef_inv k P k c"
      unfolding c_def using k by (intro fold_upt_inv [where P = "coef_inv k P"]) (auto intro: coef_inv_step simp: p)
    then have roots: "\<And>l. l < k \<Longrightarrow> peval (monic k c) (Suc k) (P l) = 0" and lc: "length c = k"
      by (simp_all add: coef_inv_def)
    define Q where "Q = (\<lambda>r (b :: u8 list, s). length b = k \<and> length s = length src \<and>
       (\<forall>m. k * k \<le> m \<longrightarrow> s ! m = src ! m) \<and> (\<forall>i<k. \<forall>j<r. mm (\<lambda>i j. P i ^ j) k (mat k s) i j = idm i j))"
    have "Q k (fold (vdm_row T p c k) [0..<k] (replicate k 0, src))"
    proof (rule fold_upt_inv)
      show "Q 0 (replicate k 0, src)" by (simp add: Q_def)
      fix r bs assume r: "r < k" and Qr: "Q r bs"
      obtain b s where bs: "bs = (b, s)" by (cases bs)
      obtain b' s' where bs': "vdm_row T p c k r (b, s) = (b', s')" by (cases "vdm_row T p c k r (b, s)")
      have "length b = k" "k * k \<le> length s" using Qr bs k by (auto simp: Q_def)
      note st = vdm_row_step [OF k1 lc this roots P(2) r p [OF r, symmetric] bs']
      have "mm (\<lambda>i j. P i ^ j) k (mat k s') i j = mm (\<lambda>i j. P i ^ j) k (mat k s) i j" if "j < r" for i j
        using st(4) r that by (simp add: mm_def)
      then show "Q (Suc r) (vdm_row T p c k r bs)"
        using Qr st by (auto simp: Q_def bs bs' less_Suc_eq)
    qed simp
    moreover have "invert_vdm T src k = snd (fold (vdm_row T p c k) [0..<k] (replicate k 0, src))"
      using False by (simp add: invert_vdm_def p_def c0_def c_def Let_def)
    ultimately show ?thesis by (auto simp: Q_def split: prod.splits)
  qed
  then show "length (invert_vdm T src k) = length src"
    and "i < k \<Longrightarrow> j < k \<Longrightarrow> mm (\<lambda>i j. P i ^ j) k (mat k (invert_vdm T src k)) i j = idm i j"
    and "k * k \<le> m \<Longrightarrow> invert_vdm T src k ! m = src ! m"
    by blast+
qed

end

subsection \<open>Row and column swaps\<close>

lemma length_swap_cells [simp]: "length (swap_cells a b xs) = length xs"
  by (simp add: swap_cells_def)

lemma nth_swap_cells:
  "a < length xs \<Longrightarrow> b < length xs \<Longrightarrow>
     swap_cells a b xs ! j = (if j = a then xs ! b else if j = b then xs ! a else xs ! j)"
  by (auto simp: swap_cells_def nth_list_update)

lemma fold_swap_cells_length [simp]: "length (fold (\<lambda>i. swap_cells (f i) (g i)) is xs) = length xs"
  by (rule fold_keeps [where g = length]) simp

lemma swap_rows_cell:
  assumes "a < k" "b < k" "i < k" "j < k" "k * k \<le> length src" "m \<le> k"
  shows "fold (\<lambda>ix. swap_cells (a * k + ix) (b * k + ix)) [0..<m] src ! (i * k + j)
       = (if j < m then src ! (swp a b i * k + j) else src ! (i * k + j))"
  using assms(6)
proof (induction m)
  case 0
  then show ?case by simp
next
  case (Suc m)
  let ?s = "fold (\<lambda>ix. swap_cells (a * k + ix) (b * k + ix)) [0..<m] src"
  have "a * k + m < length src" "b * k + m < length src"
    using cell_bound [of a k m k] cell_bound [of b k m k] assms Suc.prems by linarith+
  then have "fold (\<lambda>ix. swap_cells (a * k + ix) (b * k + ix)) [0..<Suc m] src ! (i * k + j)
      = (if j = m then ?s ! (swp a b i * k + j) else ?s ! (i * k + j))"
    using assms Suc.prems by (auto simp: nth_swap_cells swp_def)
  moreover have "?s ! (i' * k + m) = src ! (i' * k + m)" for i'
  proof (rule fold_keeps [where g = "\<lambda>s. s ! (i' * k + m)"])
    fix ix s assume "ix \<in> set [0..<m]"
    then have "i' * k + m \<noteq> a * k + ix" "i' * k + m \<noteq> b * k + ix"
      using Suc.prems by (auto simp del: cell_eq simp: cell_eq [of m k])
    then show "swap_cells (a * k + ix) (b * k + ix) s ! (i' * k + m) = s ! (i' * k + m)"
      by (simp add: swap_cells_def)
  qed
  ultimately show ?case using Suc by (auto simp: less_Suc_eq)
qed

lemma swap_cols_cell:
  assumes "a < k" "b < k" "i < k" "j < k" "k * k \<le> length src" "m \<le> k"
  shows "fold (\<lambda>row. swap_cells (row * k + a) (row * k + b)) [0..<m] src ! (i * k + j)
       = (if i < m then src ! (i * k + swp a b j) else src ! (i * k + j))"
  using assms(4,6)
proof (induction m arbitrary: j)
  case 0
  then show ?case by simp
next
  case (Suc m)
  let ?s = "fold (\<lambda>row. swap_cells (row * k + a) (row * k + b)) [0..<m] src"
  have "m * k + a < length src" "m * k + b < length src"
    using cell_bound [of m k a k] cell_bound [of m k b k] assms Suc.prems by linarith+
  then have "fold (\<lambda>row. swap_cells (row * k + a) (row * k + b)) [0..<Suc m] src ! (i * k + j)
      = (if i = m then ?s ! (i * k + swp a b j) else ?s ! (i * k + j))"
    using assms Suc.prems by (auto simp: nth_swap_cells swp_def)
  moreover have "swp a b j < k" using assms Suc.prems by simp
  ultimately show ?case using Suc.IH [of j] Suc.IH [of "swp a b j"] Suc.prems by (auto simp: less_Suc_eq)
qed

lemma mat_swap_rows:
  assumes "a < k" "b < k" "k * k \<le> length src" "i < k" "j < k"
  shows "mat k (swap_rows k a b src) i j = mat k src (swp a b i) j"
  using assms swap_rows_cell [of a k b i j src k] by (auto simp: mat_def swap_rows_def)

lemma length_swap_rows [simp]: "length (swap_rows k a b src) = length src"
  by (simp add: swap_rows_def)

lemma length_unscramble_col [simp]: "length (unscramble_col k R C col src) = length src"
  by (simp add: unscramble_col_def)

lemma mat_unscramble_col:
  assumes "R ! col < k" "C ! col < k" "k * k \<le> length src" "i < k" "j < k"
  shows "mat k (unscramble_col k R C col src) i j = mat k src i (swp (R ! col) (C ! col) j)"
  using assms swap_cols_cell [of "R ! col" k "C ! col" i j src k] by (auto simp: mat_def unscramble_col_def)

subsection \<open>One pivot step is one exchange\<close>

lemma length_scale_pivot_row [simp]: "length (scale_pivot_row T k p src) = length src"
  by (simp add: scale_pivot_row_def Let_def fold_keeps [where g = length])

lemma length_eliminate_row:
  "ix < k \<Longrightarrow> k * k \<le> length src \<Longrightarrow> length (eliminate_row T k p ix src) = length src"
  using cell_bound [of ix k "k - 1" k] by (simp add: eliminate_row_def Let_def)

context gf_tables
begin

lemma mat_scale_pivot_row:
  assumes "p < k" "k * k \<le> length src" "i < k" "j < k"
  shows "mat k (scale_pivot_row T k p src) i j =
     (if i = p then (if j = p then inverse (mat k src p p) else mat k src p j * inverse (mat k src p p))
      else mat k src i j)"
proof -
  define c where "c = src ! (p * k + p)"
  have len: "i * k + j < length src" "p * k + p < length src"
    using cell_bound [of i k j k] cell_bound [of p k p k] assms by linarith+
  show ?thesis
  proof (cases "c = 1")
    case True
    then show ?thesis by (auto simp: scale_pivot_row_def mat_def Let_def c_def)
  next
    case False
    have "scale_pivot_row T k p src ! (i * k + j) = (if i = p
        then gf_mul T (gf_inv T c) (src[p * k + p := 1] ! (i * k + j)) else src[p * k + p := 1] ! (i * k + j))"
      using False fold_modify_row_nth [of "i * k + j" "src[p * k + p := 1]" p k "\<lambda>_. gf_mul T (gf_inv T c)" k]
        len row_range [of j k p i] assms
      by (auto simp: scale_pivot_row_def Let_def c_def)
    then show ?thesis using len assms by (auto simp: mat_def GF_mul GF_inv c_def nth_list_update mult.commute [of "inverse (GF (src ! (p * k + p)))"])
  qed
qed

lemma mat_eliminate_row:
  assumes "p < k" "k * k \<le> length src" "ix < k" "ix \<noteq> p" "i < k" "j < k"
  shows "mat k (eliminate_row T k p ix src) i j =
     (if i = ix then (if j = p then 0 else mat k src i j) + mat k src i p * mat k src p j else mat k src i j)"
proof -
  have r: "ix * k + k \<le> length src" "p * k + k \<le> length src"
    using mult_le_mono1 [of "Suc ix" k k] mult_le_mono1 [of "Suc p" k k] assms by (simp_all add: add.commute)
  have "eliminate_row T k p ix src ! (i * k + j) = (if i = ix
      then addmul T ((slice (ix * k) k src)[p := 0]) (slice (p * k) k src) (src ! (ix * k + p)) k ! j else src ! (i * k + j))"
    using assms r by (simp add: eliminate_row_def Let_def nth_put_row)
  then show ?thesis
    using assms r by (auto simp: mat_def addmul_nth nth_list_update)
qed

lemma mat_eliminate_rows:
  assumes "p < k" "k * k \<le> length src" "m \<le> k"
  shows "length (fold (eliminate_row T k p) [0..<m] src) = length src \<and>
     (\<forall>i<k. \<forall>j<k. mat k (fold (eliminate_row T k p) [0..<m] src) i j =
       (if i < m \<and> i \<noteq> p then (if j = p then 0 else mat k src i j) + mat k src i p * mat k src p j else mat k src i j))"
  using assms(3)
proof (induction m)
  case 0
  then show ?case by simp
next
  case (Suc m)
  let ?s = "fold (eliminate_row T k p) [0..<m] src"
  have IH: "length ?s = length src" "k * k \<le> length ?s"
    "\<And>i j. i < k \<Longrightarrow> j < k \<Longrightarrow> mat k ?s i j =
       (if i < m \<and> i \<noteq> p then (if j = p then 0 else mat k src i j) + mat k src i p * mat k src p j else mat k src i j)"
    using Suc assms(2) by auto
  show ?case
  proof (cases "m = p")
    case True
    then have "eliminate_row T k p m ?s = ?s" by (simp add: eliminate_row_def)
    then show ?thesis using IH True by (auto simp: less_Suc_eq)
  next
    case False
    have "length (eliminate_row T k p m ?s) = length src"
      using Suc.prems IH by (simp add: length_eliminate_row)
    moreover have "mat k (eliminate_row T k p m ?s) i j =
       (if i < Suc m \<and> i \<noteq> p then (if j = p then 0 else mat k src i j) + mat k src i p * mat k src p j else mat k src i j)"
      if "i < k" "j < k" for i j
      using that Suc.prems False assms(1) mat_eliminate_row [OF assms(1) IH(2), of m i j]
      by (auto simp: IH(3) less_Suc_eq)
    ultimately show ?thesis by simp
  qed
qed

lemma pivot_step_sweep:
  assumes p: "p < k" and len: "k * k \<le> length src"
  defines "src' \<equiv> eliminate T k p (scale_pivot_row T k p src)"
  shows "length src' = length src"
    and "i < k \<Longrightarrow> j < k \<Longrightarrow> mat k src p p \<noteq> 0 \<Longrightarrow> mat k src' i j = sweep (mat k src) p i j"
proof -
  define s where "s = scale_pivot_row T k p src"
  have ls: "length s = length src" "k * k \<le> length s" using len by (simp_all add: s_def)
  note sc = mat_scale_pivot_row [OF p len, folded s_def]
  note el = mat_eliminate_rows [OF p ls(2) order_refl]
  show "length src' = length src"
    using el ls by (simp add: src'_def eliminate_def s_def)
  show "mat k src' i j = sweep (mat k src) p i j" if ij: "i < k" "j < k" and nz: "mat k src p p \<noteq> 0"
  proof (cases "slice (p * k) k s = (replicate k 0)[p := 1]")
    case False
    then have "src' = fold (eliminate_row T k p) [0..<k] s" by (simp add: src'_def eliminate_def s_def)
    then show ?thesis using el ij p by (auto simp: sc sweep_def)
  next
    case True
    then have src': "src' = s" by (simp add: src'_def eliminate_def s_def)
    have "p * k + k \<le> length s" using mult_le_mono1 [of "Suc p" k k] p ls by simp
    then have "s ! (p * k + l) = (if l = p then 1 else 0)" if "l < k" for l
      using nth_slice [of "p * k" k s l] that p unfolding True by (auto simp: nth_list_update split: if_splits)
    then have row: "mat k s p l = (if l = p then 1 else 0)" if "l < k" for l
      using that by (simp add: mat_def)
    have one: "mat k src p p = 1" using row [OF p] sc [OF p p] nz by (metis inverse_1 inverse_inverse_eq)
    have "mat k src p l = 0" if "l < k" "l \<noteq> p" for l
      using row [OF that(1)] sc [OF p that(1)] that(2) one by simp
    then show ?thesis using ij p sc [of i j] by (auto simp: src' sweep_def one)
  qed
qed

end

subsection \<open>The pivot search\<close>

lemma scan_row_Found:
  "scan_row src ipiv k row ixs = Found r c \<Longrightarrow> r = row \<and> c \<in> set ixs \<and> ipiv ! c = 0 \<and> src ! (row * k + c) \<noteq> 0"
  by (induction ixs) (auto split: if_splits)

lemma scan_row_NotFound:
  "scan_row src ipiv k row ixs = NotFound \<Longrightarrow> c \<in> set ixs \<Longrightarrow> ipiv ! c = 0 \<Longrightarrow> src ! (row * k + c) = 0"
  by (induction ixs) (auto split: if_splits)

lemma scan_row_Singular:
  "scan_row src ipiv k row ixs = Singular \<Longrightarrow> \<exists>c\<in>set ixs. ipiv ! c > 1"
  by (induction ixs) (auto split: if_splits)

lemma scan_rows_Found:
  "scan_rows src ipiv k rows = Found r c \<Longrightarrow>
     r \<in> set rows \<and> ipiv ! r \<noteq> 1 \<and> c < k \<and> ipiv ! c = 0 \<and> src ! (r * k + c) \<noteq> 0"
  by (induction rows) (auto split: if_splits pivot.splits dest: scan_row_Found)

lemma scan_rows_NotFound:
  "scan_rows src ipiv k rows = NotFound \<Longrightarrow> r \<in> set rows \<Longrightarrow> ipiv ! r \<noteq> 1 \<Longrightarrow> c < k \<Longrightarrow> ipiv ! c = 0 \<Longrightarrow>
     src ! (r * k + c) = 0"
  by (induction rows) (auto split: if_splits pivot.splits dest: scan_row_NotFound)

lemma scan_rows_Singular:
  "scan_rows src ipiv k rows = Singular \<Longrightarrow> \<exists>c<k. ipiv ! c > 1"
  by (induction rows) (fastforce split: if_splits pivot.splits dest: scan_row_Singular)+

subsection \<open>The whole inversion\<close>

text \<open>The arrangement of the rows after the first \<open>n\<close> swaps.\<close>

primrec arr_of :: "nat list \<Rightarrow> nat list \<Rightarrow> nat \<Rightarrow> nat \<Rightarrow> nat" where
  "arr_of R C 0 = id"
| "arr_of R C (Suc n) = arr_of R C n \<circ> swp (R ! n) (C ! n)"

lemma arr_of_update: "n \<le> c \<Longrightarrow> arr_of (R[c := r]) (C[c := q]) n = arr_of R C n"
  by (induction n) auto

definition pivoted :: "nat \<Rightarrow> nat list \<Rightarrow> nat set" where
  "pivoted k ipiv = {p. p < k \<and> ipiv ! p = 1}"

definition gj_inv :: "(nat \<Rightarrow> nat \<Rightarrow> gf256) \<Rightarrow> nat \<Rightarrow> nat \<Rightarrow> inv_state \<Rightarrow> bool" where
  "gj_inv A k n s \<longleftrightarrow> k * k \<le> length (im_src s) \<and>
     length (im_ipiv s) = k \<and> length (im_indxr s) = k \<and> length (im_indxc s) = k \<and>
     (\<forall>p<k. im_ipiv s ! p \<le> 1) \<and> card (pivoted k (im_ipiv s)) = n \<and>
     (\<forall>c<n. im_indxr s ! c < k \<and> im_indxc s ! c < k) \<and>
     exch_rel A k (pivoted k (im_ipiv s)) (arr_of (im_indxr s) (im_indxc s) n) (mat k (im_src s))"

lemma pivoted_subset: "pivoted k ipiv \<subseteq> {..<k}"
  by (auto simp: pivoted_def)

lemma pivoted_mark:
  assumes "length ipiv = k" "c < k" "ipiv ! c = 0"
  shows "pivoted k (ipiv[c := Suc 0]) = insert c (pivoted k ipiv)" and "c \<notin> pivoted k ipiv"
  using assms by (auto simp: pivoted_def nth_list_update)

lemma find_pivot_Found:
  assumes "find_pivot src ipiv k col = Found r c" "col < k" "\<And>p. p < k \<Longrightarrow> ipiv ! p \<le> 1"
  shows "r < k \<and> c < k \<and> ipiv ! r = 0 \<and> ipiv ! c = 0 \<and> src ! (r * k + c) \<noteq> 0"
proof -
  have piv: "ipiv ! p = 0" if "p < k" "ipiv ! p \<noteq> 1" for p
    using assms(3) [OF that(1)] that(2) by simp
  then show ?thesis
    using assms scan_rows_Found [of src ipiv k "[0..<k]" r c]
    by (auto simp: find_pivot_def split: if_splits)
qed

lemma find_pivot_NotFound:
  assumes "find_pivot src ipiv k col = NotFound" "r < k" "ipiv ! r \<noteq> 1" "c < k" "ipiv ! c = 0"
  shows "src ! (r * k + c) = 0"
  using assms scan_rows_NotFound [of src ipiv k "[0..<k]" r c]
  by (auto simp: find_pivot_def split: if_splits)

lemma find_pivot_not_Singular:
  assumes "\<And>p. p < k \<Longrightarrow> ipiv ! p \<le> 1"
  shows "find_pivot src ipiv k col \<noteq> Singular"
proof -
  have "scan_rows src ipiv k [0..<k] \<noteq> Singular"
    using scan_rows_Singular [of src ipiv k "[0..<k]"] assms by (metis not_le)
  then show ?thesis by (simp add: find_pivot_def)
qed

lemma gj_no_pivot_singular:
  assumes inv: "gj_inv A k col s" and "col < k"
    and nf: "find_pivot (im_src s) (im_ipiv s) k col = NotFound"
  shows "\<not> nonsingular A k"
proof -
  have "card (pivoted k (im_ipiv s)) < card {..<k}" using assms by (simp add: gj_inv_def)
  then obtain c where c: "c < k" "c \<notin> pivoted k (im_ipiv s)"
    by (metis card_mono finite_lessThan lessThan_iff not_less pivoted_subset rev_finite_subset subsetI)
  then have "im_ipiv s ! c = 0" using inv by (fastforce simp: gj_inv_def pivoted_def)
  then have "mat k (im_src s) i c = 0" if "i < k" "i \<notin> pivoted k (im_ipiv s)" for i
    using find_pivot_NotFound [OF nf, of i c] that c by (auto simp: mat_def pivoted_def)
  moreover have "exch_rel A k (pivoted k (im_ipiv s)) (arr_of (im_indxr s) (im_indxc s) col) (mat k (im_src s))"
    using inv by (simp add: gj_inv_def)
  ultimately show ?thesis using exch_rel_column c by blast
qed

context gf_tables
begin

lemma gj_step:
  assumes inv: "gj_inv A k col s" and col: "col < k"
  shows "case invert_col T k col s of Inl _ \<Rightarrow> \<not> nonsingular A k | Inr s' \<Rightarrow> gj_inv A k (Suc col) s'"
proof (cases "find_pivot (im_src s) (im_ipiv s) k col")
  case Singular
  then show ?thesis using find_pivot_not_Singular inv by (auto simp: gj_inv_def)
next
  case NotFound
  then show ?thesis using gj_no_pivot_singular [OF inv col] by (simp add: invert_col_def)
next
  case (Found r c)
  define P where "P = pivoted k (im_ipiv s)"
  define src1 where "src1 = swap_rows k r c (im_src s)"
  define R where "R = (im_indxr s)[col := r]"
  define C where "C = (im_indxc s)[col := c]"
  have len: "k * k \<le> length (im_src s)" "k * k \<le> length src1" "length (im_ipiv s) = k"
    using inv by (simp_all add: gj_inv_def src1_def)
  have f: "r < k" "c < k" "im_ipiv s ! r = 0" "im_ipiv s ! c = 0" "im_src s ! (r * k + c) \<noteq> 0"
    using find_pivot_Found [OF Found col] inv by (auto simp: gj_inv_def)
  have notP: "r \<notin> P" "c \<notin> P" using f by (simp_all add: P_def pivoted_def)
  have src1: "mat k src1 i j = mat k (im_src s) (swp r c i) j" if "i < k" "j < k" for i j
    unfolding src1_def using f len that by (intro mat_swap_rows) auto
  have nz: "mat k src1 c c \<noteq> 0" using src1 [OF f(2,2)] f by (cases "c = r") (auto simp: mat_def swp_def)
  have arr: "arr_of R C (Suc col) = arr_of (im_indxr s) (im_indxc s) col \<circ> swp r c"
    using inv col by (simp add: R_def C_def arr_of_update gj_inv_def)
  have "exch_rel A k P (arr_of (im_indxr s) (im_indxc s) col) (mat k (im_src s))"
    using inv by (simp add: gj_inv_def P_def)
  from exch_rel_swap [OF this f(1,2) notP]
  have "exch_rel A k P (arr_of R C (Suc col)) (mat k src1)"
    unfolding arr by (rule exch_rel_cong) (simp add: src1)
  from exch_rel_sweep [OF this f(2) notP(2) nz]
  have rel: "exch_rel A k (insert c P) (arr_of R C (Suc col)) (mat k (eliminate T k c (scale_pivot_row T k c src1)))"
    by (rule exch_rel_cong) (simp add: pivot_step_sweep(2) [OF f(2) len(2)] nz)
  define s' where "s' = s\<lparr>im_ipiv := (im_ipiv s)[c := Suc 0],
     im_src := eliminate T k c (scale_pivot_row T k c src1), im_indxr := R, im_indxc := C\<rparr>"
  have "invert_col T k col s = Inr s'"
    using Found f nz by (simp add: invert_col_def Let_def s'_def src1_def R_def C_def mat_def)
  moreover have "gj_inv A k (Suc col) s'"
    using inv rel f notP(2) len pivoted_mark [OF len(3) f(2,4)] pivot_step_sweep(1) [OF f(2) len(2)] col
    by (auto simp: gj_inv_def s'_def R_def C_def nth_list_update less_Suc_eq P_def src1_def
        card_insert_disjoint finite_subset [OF pivoted_subset])
  ultimately show ?thesis by simp
qed

lemma gj_loop:
  "gj_inv A k n s \<Longrightarrow> n \<le> k \<Longrightarrow>
     case invert_cols T k [n..<k] s of Inl _ \<Rightarrow> \<not> nonsingular A k | Inr s' \<Rightarrow> gj_inv A k k s'"
proof (induction "k - n" arbitrary: n s)
  case 0
  then show ?case by simp
next
  case (Suc m)
  then have n: "n < k" "[n..<k] = n # [Suc n..<k]" by (simp_all add: upt_conv_Cons)
  from gj_step [OF Suc.prems(1) n(1)] show ?case
    using Suc.hyps n by (cases "invert_col T k n s") auto
qed

end

text \<open>Undoing the swaps: the inverse for the rows in their original order.\<close>

definition unscr_inv :: "(nat \<Rightarrow> nat \<Rightarrow> gf256) \<Rightarrow> nat \<Rightarrow> (nat \<Rightarrow> nat \<Rightarrow> nat) \<Rightarrow> nat \<Rightarrow> u8 list \<Rightarrow> bool" where
  "unscr_inv A k arr n src \<longleftrightarrow> k * k \<le> length src \<and>
     (\<forall>x y. (\<forall>i<k. y i = mv A k x i) \<longleftrightarrow> (\<forall>i<k. x i = (\<Sum>j<k. mat k src i j * y (arr n j))))"

lemma unscr_step:
  assumes "unscr_inv A k (arr_of R C) (Suc n) src" "R ! n < k" "C ! n < k"
  shows "unscr_inv A k (arr_of R C) n (unscramble_col k R C n src)"
proof -
  let ?src' = "unscramble_col k R C n src"
  have len: "k * k \<le> length src" using assms by (simp add: unscr_inv_def)
  have "(\<Sum>j<k. mat k ?src' i j * y (arr_of R C n j)) = (\<Sum>j<k. mat k src i j * y (arr_of R C (Suc n) j))"
    if "i < k" for i y
  proof -
    have "(\<Sum>j<k. mat k ?src' i j * y (arr_of R C n j))
        = (\<Sum>j<k. mat k src i (swp (R ! n) (C ! n) j) * y (arr_of R C n j))"
      using assms len that by (intro sum.cong refl) (simp add: mat_unscramble_col)
    also have "\<dots> = (\<Sum>j<k. mat k src i j * y (arr_of R C n (swp (R ! n) (C ! n) j)))"
      using sum_swp [OF assms(2,3), of "\<lambda>j. mat k src i j * y (arr_of R C n (swp (R ! n) (C ! n) j))"] by simp
    finally show ?thesis by simp
  qed
  then show ?thesis using assms(1) by (simp add: unscr_inv_def)
qed

text \<open>\<open>B\<close> is the inverse of \<open>A\<close>: each solves the other's equations.\<close>

definition inverse_mat :: "(nat \<Rightarrow> nat \<Rightarrow> gf256) \<Rightarrow> (nat \<Rightarrow> nat \<Rightarrow> gf256) \<Rightarrow> nat \<Rightarrow> bool" where
  "inverse_mat A B k \<longleftrightarrow> (\<forall>x y. (\<forall>i<k. y i = mv A k x i) \<longleftrightarrow> (\<forall>i<k. x i = mv B k y i))"

lemma inverse_mat_nonsingular: "inverse_mat A B k \<Longrightarrow> nonsingular A k"
proof -
  assume inv: "inverse_mat A B k"
  have "x j = 0" if "\<forall>i<k. mv A k x i = 0" "j < k" for x j
    using inv [unfolded inverse_mat_def, THEN spec, THEN spec, of "\<lambda>_. 0" x] that
    by (auto simp: mv_def)
  then show ?thesis by (auto simp: nonsingular_def)
qed

lemma inverse_mat_solves: "inverse_mat A B k \<Longrightarrow> i < k \<Longrightarrow> mv B k (mv A k x) i = x i"
  by (metis inverse_mat_def)

context gf_tables
begin

lemma invert_mat_cases:
  assumes "k * k \<le> length src"
  shows "if nonsingular (mat k src) k
         then \<exists>inv. invert_mat T src k = (0, inv) \<and> inverse_mat (mat k src) (mat k inv) k
         else fst (invert_mat T src k) = 1"
proof -
  define s0 where "s0 = \<lparr>im_src = src, im_ipiv = replicate k 0, im_indxr = replicate k 0, im_indxc = replicate k 0\<rparr>"
  have "pivoted k (replicate k 0) = {}" by (auto simp: pivoted_def)
  then have "gj_inv (mat k src) k 0 s0"
    using assms exch_rel_init by (simp add: gj_inv_def s0_def)
  from gj_loop [OF this] have loop: "case invert_cols T k [0..<k] s0 of
      Inl _ \<Rightarrow> \<not> nonsingular (mat k src) k | Inr s' \<Rightarrow> gj_inv (mat k src) k k s'" by simp
  show ?thesis
  proof (cases "invert_cols T k [0..<k] s0")
    case (Inl s)
    then show ?thesis using loop by (simp add: invert_mat_def flip: s0_def)
  next
    case (Inr s)
    then have inv: "gj_inv (mat k src) k k s" using loop by simp
    define R where "R = im_indxr s"
    define C where "C = im_indxc s"
    have "pivoted k (im_ipiv s) = {..<k}"
      using inv by (intro card_subset_eq pivoted_subset) (auto simp: gj_inv_def)
    then have "unscr_inv (mat k src) k (arr_of R C) k (im_src s)"
      using inv exch_rel_full [of "mat k src" k "{..<k}" "arr_of R C k" "mat k (im_src s)"]
      by (auto simp: gj_inv_def unscr_inv_def R_def C_def)
    then have "unscr_inv (mat k src) k (arr_of R C) 0 (fold (unscramble_col k R C) (rev [0..<k]) (im_src s))"
    proof (rule fold_down_inv [where P = "unscr_inv (mat k src) k (arr_of R C)"])
      fix n src' assume "n < k" "unscr_inv (mat k src) k (arr_of R C) (Suc n) src'"
      then show "unscr_inv (mat k src) k (arr_of R C) n (unscramble_col k R C n src')"
        using inv by (intro unscr_step) (auto simp: gj_inv_def R_def C_def)
    qed
    then have im: "inverse_mat (mat k src) (mat k (fold (unscramble_col k R C) (rev [0..<k]) (im_src s))) k"
      unfolding unscr_inv_def inverse_mat_def mv_def by simp
    moreover have "invert_mat T src k = (0, fold (unscramble_col k R C) (rev [0..<k]) (im_src s))"
      using Inr by (simp add: invert_mat_def R_def C_def flip: s0_def)
    ultimately show ?thesis
      using inverse_mat_nonsingular [OF im] by auto
  qed
qed

end

end
