(* ===== verification/FecCodec.thy ===== *)
theory FecCodec
  imports FecLinalg
begin

text \<open>
  The erasure codec itself (\<open>fec.c\<close>: \<open>fec_new\<close>, \<open>fec_free\<close>, \<open>fec_encode\<close>, \<open>shuffle\<close>,
  \<open>build_decode_matrix\<close>, \<open>fec_decode\<close>). A packet buffer is a list of bytes and the array
  of packet pointers a list of buffers: the buffers are taken to be distinct objects, so
  swapping two pointers swaps two entries. \<open>None\<close> and \<open>NewUndefined\<close> stand for calls whose
  behaviour C leaves undefined (an index before or past its array). Allocation succeeds.
\<close>

subsection \<open>Code descriptors\<close>

text \<open>\<open>enc_addr\<close> is the address \<open>malloc\<close> gave the encoding matrix.\<close>

record fec_parms =
  fp_magic :: u64
  fp_k :: int
  fp_n :: int
  enc_matrix :: "u8 list"
  enc_addr :: u64

definition fec_magic :: "int \<Rightarrow> int \<Rightarrow> u64 \<Rightarrow> u64" where
  "fec_magic k n addr = ucast (((0xFECC0DEC :: u32) XOR word_of_int k) XOR word_of_int n) XOR addr"

definition fec_free :: "fec_parms option \<Rightarrow> bool" where
  "fec_free p =
     (case p of None \<Rightarrow> False
      | Some p \<Rightarrow> \<not> (fp_magic p \<noteq> fec_magic (fp_k p) (fp_n p) (enc_addr p)))"

datatype fec_new_result = NewNull | NewUndefined | NewOk fec_parms

text \<open>The \<open>n\<close> by \<open>k\<close> matrix of powers of the points \<open>0, alpha^0, alpha^1, ...\<close>\<close>

definition power_matrix :: "fec_state \<Rightarrow> nat \<Rightarrow> nat \<Rightarrow> u8 list" where
  "power_matrix T k n =
     (let tmp_m = (replicate (n * k) 0)[0 := 1];
          tmp_m = fold (\<lambda>col m. m[col := 0]) [1..<k] tmp_m
      in fold (\<lambda>row. fold (\<lambda>col m. m[k + row * k + col := gf_exp T ! unat (modnn (int row * int col))]) [0..<k])
           [0..<n - 1] tmp_m)"

text \<open>Invert the top, multiply the bottom by the inverse, and put the identity on top.\<close>

definition encoding_matrix :: "fec_state \<Rightarrow> nat \<Rightarrow> nat \<Rightarrow> u8 list" where
  "encoding_matrix T k n =
     (let tmp_m = invert_vdm T (power_matrix T k n) k;
          enc = replicate (n * k) 0;
          enc = put_slice (k * k) (matmul T (drop (k * k) tmp_m) tmp_m (drop (k * k) enc) (n - k) k k) enc;
          enc = put_slice 0 (replicate (k * k) 0) enc
      in fold (\<lambda>col enc. enc[col * (k + 1) := 1]) [0..<k] enc)"

definition fec_new :: "fec_state \<Rightarrow> int \<Rightarrow> int \<Rightarrow> u64 \<Rightarrow> fec_state \<times> fec_new_result" where
  "fec_new T k n addr =
     (let T = (if fec_initialized T then T else init_fec T)
      in if k > 256 \<or> n > 256 \<or> k > n then (T, NewNull)
         else if k \<le> 0 then (T, NewUndefined)
         else (T, NewOk \<lparr>fp_magic = fec_magic k n addr, fp_k = k, fp_n = n,
                enc_matrix = encoding_matrix T (nat k) (nat n), enc_addr = addr\<rparr>))"

subsection \<open>Encoding\<close>

definition accumulate :: "fec_state \<Rightarrow> u8 list list \<Rightarrow> (nat \<Rightarrow> u8) \<Rightarrow> nat \<Rightarrow> nat \<Rightarrow> u8 list \<Rightarrow> u8 list" where
  "accumulate T pkt coef k sz dst = fold (\<lambda>i dst. addmul T dst (pkt ! i) (coef i) sz) [0..<k] dst"

definition fec_encode :: "fec_state \<Rightarrow> fec_parms \<Rightarrow> u8 list list \<Rightarrow> u8 list \<Rightarrow> int \<Rightarrow> nat \<Rightarrow> u8 list option" where
  "fec_encode T code src fec index sz =
     (let k = nat (fp_k code)
      in if index < 0 then None
         else if index < fp_k code then Some (put_slice 0 (take sz (src ! nat index)) fec)
         else if index < fp_n code
         then Some (accumulate T src (\<lambda>i. enc_matrix code ! (nat index * k + i)) k sz (put_slice 0 (replicate sz 0) fec))
         else Some fec)"

subsection \<open>Decoding\<close>

function shuffle_loop :: "nat \<Rightarrow> nat \<Rightarrow> 'p list \<Rightarrow> int list \<Rightarrow> (int \<times> 'p list \<times> int list) option" where
  "shuffle_loop k i pkt index =
     (if i < k
      then if length index \<le> i \<or> length pkt \<le> i then None
           else if int k \<le> index ! i \<or> index ! i = int i then shuffle_loop k (Suc i) pkt index
           else let c = index ! i
                in if c < 0 \<or> int (length index) \<le> c \<or> int (length pkt) \<le> c then None
                   else if index ! nat c = c then Some (1, pkt, index)
                   else shuffle_loop k i (swap_cells i (nat c) pkt) (swap_cells i (nat c) index)
      else Some (0, pkt, index))"
  by pat_completeness auto

text \<open>Every swap puts one more index in its place, and otherwise the position advances.\<close>

definition misplaced :: "int list \<Rightarrow> nat" where
  "misplaced index = card {j. j < length index \<and> index ! j \<noteq> int j}"

lemma misplaced_swap:
  assumes i: "i < length index" and c: "0 \<le> c" "c = index ! i" "c \<noteq> int i" "c < int (length index)" "index ! nat c \<noteq> c"
  shows "misplaced (swap_cells i (nat c) index) < misplaced index"
proof -
  define d where "d = nat c"
  have d: "d < length index" "index ! i = int d" "index ! d \<noteq> int d" "i \<noteq> d"
    using c by (auto simp: d_def)
  let ?bad = "\<lambda>xs. {j. j < length index \<and> xs ! j \<noteq> int j}"
  have "?bad (swap_cells i d index) \<subseteq> ?bad index"
    using i d by (auto simp: nth_swap_cells split: if_splits)
  moreover have "d \<in> ?bad index" using d by simp
  moreover have "d \<notin> ?bad (swap_cells i d index)" using i d by (simp add: nth_swap_cells)
  ultimately have "?bad (swap_cells i d index) \<subset> ?bad index" by blast
  then have "card (?bad (swap_cells i d index)) < card (?bad index)" by (intro psubset_card_mono) simp_all
  then show ?thesis by (simp add: misplaced_def d_def)
qed

termination shuffle_loop
  by (relation "measures [\<lambda>(k, i, pkt, index). misplaced index, \<lambda>(k, i, pkt, index). k - i]")
     (auto simp: misplaced_swap)

declare shuffle_loop.simps [simp del]

definition shuffle :: "'p list \<Rightarrow> int list \<Rightarrow> nat \<Rightarrow> (int \<times> 'p list \<times> int list) option" where
  "shuffle pkt index k = shuffle_loop k 0 pkt index"

text \<open>One row of the decoding matrix; \<open>None\<close> is the invalid index.\<close>

definition decode_row :: "fec_parms \<Rightarrow> int list \<Rightarrow> nat \<Rightarrow> u8 list option" where
  "decode_row code index i =
     (let k = nat (fp_k code)
      in if index ! i < fp_k code then Some ((replicate k 0)[i := 1])
         else if index ! i < fp_n code then Some (slice (nat (index ! i) * k) k (enc_matrix code))
         else None)"

fun build_rows :: "fec_parms \<Rightarrow> int list \<Rightarrow> nat list \<Rightarrow> u8 list \<Rightarrow> u8 list option" where
  "build_rows code index [] m = Some m"
| "build_rows code index (i # is) m =
     (case decode_row code index i of None \<Rightarrow> None
      | Some r \<Rightarrow> build_rows code index is (put_slice (i * nat (fp_k code)) r m))"

definition build_decode_matrix :: "fec_state \<Rightarrow> fec_parms \<Rightarrow> int list \<Rightarrow> u8 list option" where
  "build_decode_matrix T code index =
     (let k = nat (fp_k code)
      in case build_rows code index [0..<k] (replicate (k * k) 0) of
           None \<Rightarrow> None
         | Some matrix \<Rightarrow>
             (let (err, matrix) = invert_mat T matrix k in if err \<noteq> 0 then None else Some matrix))"

definition fec_decode :: "fec_state \<Rightarrow> fec_parms \<Rightarrow> u8 list list \<Rightarrow> int list \<Rightarrow> nat \<Rightarrow> (int \<times> u8 list list \<times> int list) option" where
  "fec_decode T code pkt index sz =
     (let k = nat (fp_k code)
      in case shuffle pkt index k of
           None \<Rightarrow> None
         | Some (r, pkt, index) \<Rightarrow>
             if r \<noteq> 0 then Some (1, pkt, index)
             else (case build_decode_matrix T code index of
                 None \<Rightarrow> Some (1, pkt, index)
               | Some m_dec \<Rightarrow>
                   let new_pkt = map (\<lambda>row. if fp_k code \<le> index ! row
                         then Some (accumulate T pkt (\<lambda>col. m_dec ! (row * k + col)) k sz (replicate sz 0))
                         else None) [0..<k];
                       pkt = fold (\<lambda>row pkt. case new_pkt ! row of
                           Some buf \<Rightarrow> pkt[row := put_slice 0 (take sz buf) (pkt ! row)] | None \<Rightarrow> pkt) [0..<k] pkt
                   in Some (0, pkt, index)))"

end
