(* ===== verification/FecRecover.thy ===== *)
theory FecRecover
  imports FecCodec
begin

text \<open>
  Correctness of the erasure codec: what the encoding matrix is, what a redundant packet
  holds, what \<open>shuffle\<close> leaves behind, and that \<open>fec_decode\<close> rebuilds the data from any \<open>k\<close>
  packets of the group. A packet is followed byte by byte: position \<open>b\<close> of every packet
  forms one vector over the field.
\<close>

subsection \<open>The matrix of powers\<close>

text \<open>The points of the code: 0, then the powers of the generator.\<close>

definition vdm_point :: "nat \<Rightarrow> gf256" where
  "vdm_point r = (if r = 0 then 0 else alpha ^ (r - 1))"

lemma vdm_point_0 [simp]: "vdm_point 0 = 0"
  by (simp add: vdm_point_def)

lemma inj_vdm_point: "inj_on vdm_point {..<256}"
proof (rule inj_onI)
  fix r s assume rs: "r \<in> {..<256}" "s \<in> {..<256}" "vdm_point r = vdm_point s"
  show "r = s"
  proof (cases "r = 0 \<or> s = 0")
    case True
    then show ?thesis using rs(3) alpha_power_nz by (auto simp: vdm_point_def split: if_splits)
  next
    case False
    then have "alpha ^ (r - 1) = alpha ^ (s - 1)" using rs(3) by (simp add: vdm_point_def)
    moreover have "r - 1 < 255" "s - 1 < 255" using rs False by auto
    ultimately have "r - 1 = s - 1" using alpha_power_eq_iff [of "r - 1" "s - 1"] by simp
    then show ?thesis using False by arith
  qed
qed

lemma fold_store_block_row_nth:
  "j < length xs \<Longrightarrow>
     fold (\<lambda>c xs. xs[off + c := f c]) [0..<b] xs ! j = (if off \<le> j \<and> j < off + b then f (j - off) else xs ! (j :: nat))"
proof (induction b)
  case 0
  then show ?case by auto
next
  case (Suc b)
  then show ?case by (cases "j = off + b") auto
qed

lemma fold_store_block_nth:
  assumes "0 < m" "j < length xs"
  shows "fold (\<lambda>r. fold (\<lambda>c xs. xs[off + r * m + c := f r c]) [0..<m]) [0..<n] xs ! j =
    (if off \<le> j \<and> j < off + n * m then f ((j - off) div m) ((j - off) mod m) else xs ! (j :: nat))"
proof (induction n)
  case 0
  then show ?case by auto
next
  case (Suc n)
  let ?ys = "fold (\<lambda>r. fold (\<lambda>c xs. xs[off + r * m + c := f r c]) [0..<m]) [0..<n] xs"
  have len: "length ?ys = length xs" by (rule fold_store_matrix_length)
  show ?case
  proof (cases "off + n * m \<le> j \<and> j < off + n * m + m")
    case True
    define d where "d = j - off - n * m"
    have j: "j - off = n * m + d" "d < m" using True by (auto simp: d_def)
    then have "(j - off) div m = n" "(j - off) mod m = j - (off + n * m)" by simp_all
    then show ?thesis using True assms len by (simp add: fold_store_block_row_nth)
  next
    case False
    then show ?thesis using Suc assms len by (auto simp: fold_store_block_row_nth)
  qed
qed

context gf_tables
begin

lemma GF_exp_modnn: "GF (gf_exp T ! unat (modnn (int r * int c))) = (alpha ^ r) ^ c"
proof -
  have "unat (modnn (int r * int c)) = (r * c) mod 255" using unat_modnn [of "r * c"] by simp
  moreover have "(r * c) mod 255 < 510" by (rule less_trans [of _ 255]) simp_all
  ultimately show ?thesis by (simp add: GF_exp alpha_power_mod power_mult)
qed

lemma length_power_matrix [len_simps]: "length (power_matrix T k n) = n * k"
  by (simp add: power_matrix_def Let_def)

lemma mat_power_matrix:
  assumes "0 < k" "r < n" "c < k"
  shows "mat k (power_matrix T k n) r c = vdm_point r ^ c"
proof -
  have len: "r * k + c < n * k" using assms by (intro cell_bound)
  define first where "first = fold (\<lambda>col m. m[col := 0]) [1..<k] ((replicate (n * k) 0)[0 := (1 :: u8)])"
  have lf: "length first = n * k" by (simp add: first_def)
  have pm: "power_matrix T k n ! (r * k + c) = (if k \<le> r * k + c \<and> r * k + c < k + (n - 1) * k
      then gf_exp T ! unat (modnn (int ((r * k + c - k) div k) * int ((r * k + c - k) mod k))) else first ! (r * k + c))"
    unfolding power_matrix_def Let_def first_def [symmetric]
    using fold_store_block_nth [OF assms(1), of "r * k + c" first k
        "\<lambda>row col. gf_exp T ! unat (modnn (int row * int col))" "n - 1"] len lf by simp
  show ?thesis
  proof (cases r)
    case 0
    have "first ! c = (if c = 0 then 1 else 0)"
      using assms 0 len by (auto simp: first_def fold_store_nth)
    then show ?thesis using pm 0 assms by (auto simp: mat_def)
  next
    case (Suc r')
    have "r * k + c - k = r' * k + c" using Suc by simp
    moreover have "k \<le> r * k + c" using Suc by simp
    moreover have "r * k + c < k + (n - 1) * k" using len assms(2) by (cases n) auto
    ultimately have "power_matrix T k n ! (r * k + c) = gf_exp T ! unat (modnn (int r' * int c))"
      using pm assms(3) by simp
    then show ?thesis using GF_exp_modnn [of r' c] by (simp add: mat_def Suc vdm_point_def)
  qed
qed

subsection \<open>The encoding matrix\<close>

text \<open>Cell \<open>(i, j)\<close>, below any list.\<close>

lemma nth_store_diag:
  assumes "i * k + j < length m" "j < k" "c \<le> k"
  shows "fold (\<lambda>col m. m[col * (k + 1) := 1]) [0..<c] m ! (i * k + j) = (if i = j \<and> i < c then 1 else m ! (i * k + j :: nat))"
  using assms(3)
proof (induction c)
  case 0
  then show ?case by simp
next
  case (Suc c)
  have "i * k + j = c * (k + 1) \<longleftrightarrow> i = c \<and> j = c"
    using cell_eq [of j k c i c] assms(2) Suc.prems by (simp add: algebra_simps)
  moreover have "length (fold (\<lambda>col m. m[col * (k + 1) := 1]) [0..<c] m) = length m" by simp
  ultimately show ?case using Suc assms(1) by (auto simp: nth_list_update)
qed

text \<open>
  Every row of the encoding matrix is a row of the Vandermonde matrix times the inverse
  of its top square: the code is the evaluation of a polynomial at the point of the row.
\<close>

lemma encoding_matrix_spec:
  assumes k: "0 < k" "k \<le> n" "n \<le> 256"
  obtains W where "\<And>i j. i < k \<Longrightarrow> j < k \<Longrightarrow> mm (\<lambda>i j. vdm_point i ^ j) k W i j = idm i j"
    and "\<And>i j. i < n \<Longrightarrow> j < k \<Longrightarrow> mat k (encoding_matrix T k n) i j = mm (\<lambda>i j. vdm_point i ^ j) k W i j"
    and "\<And>i j. i < k \<Longrightarrow> j < k \<Longrightarrow> mat k (encoding_matrix T k n) i j = idm i j"
    and "length (encoding_matrix T k n) = n * k"
proof -
  define V where "V = (\<lambda>i j. vdm_point i ^ j)"
  define pm where "pm = power_matrix T k n"
  define tmp where "tmp = invert_vdm T pm k"
  define W where "W = mat k tmp"
  have nk: "k * k \<le> n * k" using k by simp
  have lp: "length pm = n * k" by (simp add: pm_def length_power_matrix)
  have pmV: "mat k pm i j = V i j" if "i < n" "j < k" for i j
    using that k by (simp add: pm_def V_def mat_power_matrix)
  have inj: "inj_on vdm_point {..<k}"
    using inj_vdm_point by (rule inj_on_subset) (use k in auto)
  have pmk: "mat k pm i j = vdm_point i ^ j" if "i < k" "j < k" for i j
    using pmV that k by (simp add: V_def)
  have lt: "length tmp = n * k"
    and inv: "\<And>i j. i < k \<Longrightarrow> j < k \<Longrightarrow> mm V k W i j = idm i j"
    and rest: "\<And>m. k * k \<le> m \<Longrightarrow> tmp ! m = pm ! m"
    using invert_vdm_correct [OF k(1) _ pmk _ inj] nk lp by (simp_all add: tmp_def W_def V_def)
  define z where "z = replicate (n * k) (0 :: u8)"
  define lower where "lower = matmul T (drop (k * k) tmp) tmp (drop (k * k) z) (n - k) k k"
  have ll: "length lower = n * k - k * k" by (simp add: lower_def z_def)
  define e1 where "e1 = put_slice (k * k) lower z"
  define e2 where "e2 = put_slice 0 (replicate (k * k) 0) e1"
  have l1: "length e1 = n * k" using nk ll by (simp add: e1_def z_def)
  have l2: "length e2 = n * k" using nk l1 by (simp add: e2_def)
  have enc: "encoding_matrix T k n = fold (\<lambda>col enc. enc[col * (k + 1) := 1]) [0..<k] e2"
    by (simp add: encoding_matrix_def Let_def e1_def e2_def lower_def z_def tmp_def pm_def)
  have len: "length (encoding_matrix T k n) = n * k" unfolding enc using l2 by simp
  have cells: "mat k (encoding_matrix T k n) i j = (if i = j \<and> i < k then 1 else mat k e2 i j)"
    if "i < n" "j < k" for i j
    using nth_store_diag [of i k j e2 k] cell_bound [OF that] that(2) l2 by (simp add: mat_def enc)
  have top: "mat k (encoding_matrix T k n) i j = idm i j" if "i < k" "j < k" for i j
  proof -
    have "i * k + j < k * k" using that by (intro cell_bound)
    then have "mat k e2 i j = 0" using nk l1 by (simp add: mat_def e2_def nth_put_slice)
    then show ?thesis using cells [of i j] that k by (simp add: idm_def)
  qed
  have "mat k (encoding_matrix T k n) i j = mm V k W i j" if "i < n" "j < k" for i j
  proof (cases "i < k")
    case True
    then show ?thesis using top inv that by simp
  next
    case False
    define r where "r = i - k"
    have i: "i = k + r" "r < n - k" using False that by (auto simp: r_def)
    have rj: "r * k + j < (n - k) * k" using i that by (intro cell_bound)
    have off: "i * k + j = k * k + (r * k + j)" by (simp add: i(1) algebra_simps)
    have lens: "(n - k) * k = n * k - k * k" by (simp add: diff_mult_distrib)
    have "mat k (encoding_matrix T k n) i j = mat k e2 i j" using cells that False by simp
    also have "\<dots> = mat k lower r j"
    proof -
      have "k * k + (r * k + j) < n * k" using rj lens by linarith
      then show ?thesis using nk l1 ll by (simp add: mat_def e2_def e1_def nth_put_slice off z_def)
    qed
    also have "\<dots> = mm (mat k (drop (k * k) tmp)) k (mat k tmp) r j"
      unfolding lower_def using i that by (intro matmul_nth) (simp_all add: lens z_def)
    also have "\<dots> = mm V k W i j"
    proof -
      have "mat k (drop (k * k) tmp) r l = V i l" if l: "l < k" for l
      proof -
        have "mat k (drop (k * k) tmp) r l = mat k tmp i l"
          using lt nk by (simp add: mat_def i(1) algebra_simps)
        also have "\<dots> = mat k pm i l"
          using rest [of "i * k + l"] by (simp add: mat_def i(1) algebra_simps)
        finally show ?thesis using pmV \<open>i < n\<close> l by simp
      qed
      then show ?thesis by (simp add: mm_def W_def)
    qed
    finally show ?thesis .
  qed
  with inv top len show thesis
    by (intro that [of W]) (simp_all add: V_def)
qed

text \<open>Any \<open>k\<close> rows of the encoding matrix with different numbers are independent.\<close>

lemma encoding_rows_nonsingular:
  assumes k: "0 < k" "k \<le> n" "n \<le> 256"
    and ix: "\<And>i. i < k \<Longrightarrow> ix i < n" "inj_on ix {..<k}"
  shows "nonsingular (\<lambda>i. mat k (encoding_matrix T k n) (ix i)) k"
proof -
  define E where "E = mat k (encoding_matrix T k n)"
  define V where "V i j = vdm_point i ^ j" for i j :: nat
  have "\<exists>W. (\<forall>i<k. \<forall>j<k. mm V k W i j = idm i j) \<and> (\<forall>i<n. \<forall>j<k. E i j = mm V k W i j)"
    unfolding E_def V_def by (rule encoding_matrix_spec [OF k]) blast
  then obtain W where inv: "\<And>i j. i < k \<Longrightarrow> j < k \<Longrightarrow> mm V k W i j = idm i j"
    and E: "\<And>i j. i < n \<Longrightarrow> j < k \<Longrightarrow> E i j = mm V k W i j" by blast
  have "x j = 0" if x: "\<forall>i<k. mv (\<lambda>i. E (ix i)) k x i = 0" and j: "j < k" for x j
  proof -
    define y where "y = mv W k x"
    have "mv (\<lambda>i. V (ix i)) k y i = 0" if i: "i < k" for i
    proof -
      have "mv (\<lambda>i. V (ix i)) k y i = mv (mm V k W) k x (ix i)"
        unfolding y_def mv_mv [symmetric] by (simp only: mv_def)
      also have "\<dots> = mv (\<lambda>i. E (ix i)) k x i"
        unfolding mv_def using E ix(1) [OF i] by simp
      finally show ?thesis using x i by simp
    qed
    moreover have "inj_on (\<lambda>i. vdm_point (ix i)) {..<k}"
    proof -
      have "ix ` {..<k} \<subseteq> {..<256}" using ix(1) k(3) by force
      then have "inj_on (vdm_point \<circ> ix) {..<k}"
        by (intro comp_inj_on ix(2) inj_on_subset [OF inj_vdm_point])
      then show ?thesis by (simp only: comp_def)
    qed
    then have "nonsingular (\<lambda>i j. vdm_point (ix i) ^ j) k" by (rule nonsingular_vandermonde)
    ultimately have "y l = 0" if "l < k" for l
      using nonsingularD [of "\<lambda>i j. vdm_point (ix i) ^ j" k y l] that by (simp add: V_def [abs_def])
    then have "mv V k y j = 0" by (simp add: mv_def)
    moreover have "mv V k y j = mv (mm V k W) k x j" by (simp add: y_def mv_mv)
    moreover have "\<dots> = mv idm k x j" using inv j by (intro mv_mat_cong) simp
    ultimately show ?thesis using j by simp
  qed
  then show ?thesis by (simp add: nonsingular_def E_def)
qed

subsection \<open>Accumulated packets\<close>

lemma accumulate_nth:
  assumes "b < length dst" "b < sz"
  shows "GF (accumulate T pkt coef m sz dst ! b) = GF (dst ! b) + (\<Sum>i<m. GF (coef i) * GF (pkt ! i ! b))"
    and "length (accumulate T pkt coef m sz dst) = length dst"
proof -
  have "length (accumulate T pkt coef m sz dst) = length dst \<and>
     GF (accumulate T pkt coef m sz dst ! b) = GF (dst ! b) + (\<Sum>i<m. GF (coef i) * GF (pkt ! i ! b))"
    using assms by (induction m) (simp_all add: accumulate_def addmul_nth add.assoc)
  then show "GF (accumulate T pkt coef m sz dst ! b) = GF (dst ! b) + (\<Sum>i<m. GF (coef i) * GF (pkt ! i ! b))"
    and "length (accumulate T pkt coef m sz dst) = length dst" by auto
qed

end

lemma length_accumulate [len_simps, simp]: "length (accumulate T pkt coef m sz dst) = length dst"
  unfolding accumulate_def by (rule fold_keeps [where g = length]) simp

subsection \<open>The encoder\<close>

text \<open>A group of data packets: \<open>k\<close> buffers of \<open>sz\<close> bytes.\<close>

definition packets_ok :: "nat \<Rightarrow> nat \<Rightarrow> u8 list list \<Rightarrow> bool" where
  "packets_ok k sz src \<longleftrightarrow> length src = k \<and> (\<forall>p\<in>set src. length p = sz)"

lemma packets_ok_nth: "packets_ok k sz src \<Longrightarrow> i < k \<Longrightarrow> length (src ! i) = sz"
  by (auto simp: packets_ok_def)

text \<open>Byte \<open>b\<close> of every packet, as a vector.\<close>

definition column :: "u8 list list \<Rightarrow> nat \<Rightarrow> nat \<Rightarrow> gf256" where
  "column src b j = GF (src ! j ! b)"

lemma put_slice_all: "length r = length xs \<Longrightarrow> put_slice 0 r xs = r"
  by (simp add: put_slice_def)

text \<open>A code whose matrix is the encoding matrix: what \<open>fec_new\<close> returns.\<close>

definition code_ok :: "fec_state \<Rightarrow> nat \<Rightarrow> nat \<Rightarrow> fec_parms \<Rightarrow> bool" where
  "code_ok T k n code \<longleftrightarrow> 0 < k \<and> k \<le> n \<and> n \<le> 256 \<and> fp_k code = int k \<and> fp_n code = int n \<and>
     enc_matrix code = encoding_matrix T k n"

lemma fec_new_code_ok:
  assumes "fec_new T0 k n addr = (T, NewOk code)" "sizes_ok T0" "fec_initialized T0 \<Longrightarrow> tables_ok T0"
  shows "tables_ok T" and "code_ok T (nat k) (nat n) code"
  using assms by (auto simp: fec_new_def Let_def code_ok_def init_fec_ok split: if_splits)

context gf_tables
begin

lemma fec_encode_spec:
  assumes code: "code_ok T k n code" and src: "packets_ok k sz src" and fec: "length fec = sz" and i: "i < n"
  obtains p where "fec_encode T code src fec (int i) sz = Some p" and "length p = sz"
    and "\<And>b. b < sz \<Longrightarrow> GF (p ! b) = mv (mat k (enc_matrix code)) k (column src b) i"
proof (cases "i < k")
  case True
  have k: "0 < k" "k \<le> n" "n \<le> 256" using code by (auto simp: code_ok_def)
  have "mat k (enc_matrix code) i j = idm i j" if "j < k" for j
    using encoding_matrix_spec [OF k] True that code by (metis code_ok_def)
  then have "mv (mat k (enc_matrix code)) k (column src b) i = mv idm k (column src b) i" for b
    by (intro mv_mat_cong)
  moreover have "fec_encode T code src fec (int i) sz = Some (src ! i)"
    using True code packets_ok_nth [OF src] fec by (simp add: fec_encode_def code_ok_def put_slice_all)
  ultimately show thesis
    using True packets_ok_nth [OF src] by (intro that) (auto simp: column_def)
next
  case False
  define p where "p = accumulate T src (\<lambda>j. enc_matrix code ! (i * k + j)) k sz (replicate sz 0)"
  have "fec_encode T code src fec (int i) sz = Some p"
    using False i code fec by (simp add: fec_encode_def code_ok_def put_slice_all p_def)
  moreover have "GF (p ! b) = mv (mat k (enc_matrix code)) k (column src b) i" if "b < sz" for b
    using that by (simp add: p_def accumulate_nth mv_def mat_def column_def)
  ultimately show thesis by (intro that) (auto simp: p_def)
qed

end

end
