(* ===== verification/FecDecode.thy ===== *)
theory FecDecode
  imports FecRecover "HOL-Library.Multiset"
begin

text \<open>
  Correctness of the decoder: \<open>shuffle\<close> keeps every packet with its index and puts the
  primary packets in their places, \<open>build_decode_matrix\<close> returns the inverse of the rows
  received, and \<open>fec_decode\<close> turns the received packets into the data packets.
\<close>

subsection \<open>What \<open>shuffle\<close> does\<close>

lemma zip_swap_cells:
  "length xs = length ys \<Longrightarrow> i < length xs \<Longrightarrow> j < length xs \<Longrightarrow>
     zip (swap_cells i j xs) (swap_cells i j ys) = swap_cells i j (zip xs ys)"
  by (simp add: swap_cells_def zip_update)

lemma mset_swap_cells: "i < length xs \<Longrightarrow> j < length xs \<Longrightarrow> mset (swap_cells i j xs) = mset xs"
  using mset_swap [of j xs i] by (cases "i = j") (simp_all add: swap_cells_def list_update_swap)

text \<open>The primaries are in place, and the packets are the ones there were, with their indices.\<close>

definition placed :: "nat \<Rightarrow> int list \<Rightarrow> bool" where
  "placed k index \<longleftrightarrow> (\<forall>i<k. int k \<le> index ! i \<or> index ! i = int i)"

definition shuffled :: "nat \<Rightarrow> 'p list \<Rightarrow> int list \<Rightarrow> int \<times> 'p list \<times> int list \<Rightarrow> bool" where
  "shuffled k pkt index = (\<lambda>(r, pkt', index').
     length pkt' = length pkt \<and> length index' = length index \<and>
     mset (zip pkt' index') = mset (zip pkt index) \<and>
     (r = 0 \<and> placed k index' \<or> r = 1 \<and> \<not> distinct (filter (\<lambda>x. x < int k) index')))"

lemma shuffled_swap:
  assumes "shuffled k (swap_cells i j pkt) (swap_cells i j index) res"
    and "length pkt = length index" "i < length index" "j < length index"
  shows "shuffled k pkt index res"
  using assms by (auto simp: shuffled_def zip_swap_cells mset_swap_cells)

lemma not_distinct_filter:
  assumes "i < j" "j < length xs" "xs ! i = xs ! j" "P (xs ! i)"
  shows "\<not> distinct (filter P xs)"
proof -
  have "xs ! j = drop (Suc i) xs ! (j - Suc i)" using assms by simp
  then have "xs ! i \<in> set (drop (Suc i) xs)" using assms by (metis diff_less_mono length_drop nth_mem Suc_leI)
  moreover have "xs = take i xs @ xs ! i # drop (Suc i) xs" using assms by (intro id_take_nth_drop) simp
  then have "filter P xs = filter P (take i xs) @ xs ! i # filter P (drop (Suc i) xs)"
    using assms(4) by (metis filter.simps(2) filter_append)
  ultimately show ?thesis using assms(4) by simp
qed

lemma shuffle_loop_spec:
  assumes "length pkt = length index" "k \<le> length index" "\<forall>x\<in>set index. 0 \<le> x" "i \<le> k"
    and "\<forall>j<i. int k \<le> index ! j \<or> index ! j = int j"
  shows "\<exists>res. shuffle_loop k i pkt index = Some res \<and> shuffled k pkt index res"
  using assms
proof (induction k i pkt index rule: shuffle_loop.induct)
  case (1 k i pkt index)
  define c where "c = index ! i"
  consider (fin) "i = k" | (ok) "i < k" "int k \<le> c \<or> c = int i" | (swap) "i < k" "c < int k" "c \<noteq> int i"
    using "1.prems"(4) by linarith
  then show ?case
  proof cases
    case fin
    then show ?thesis using "1.prems" by (subst shuffle_loop.simps) (simp add: shuffled_def placed_def)
  next
    case ok
    then have "\<forall>j<Suc i. int k \<le> index ! j \<or> index ! j = int j"
      using "1.prems"(5) by (auto simp: c_def less_Suc_eq)
    then have "\<exists>res. shuffle_loop k (Suc i) pkt index = Some res \<and> shuffled k pkt index res"
      using "1.IH"(1) "1.prems" ok by (simp add: c_def)
    moreover have "shuffle_loop k i pkt index = shuffle_loop k (Suc i) pkt index"
      using ok "1.prems" by (subst shuffle_loop.simps) (simp add: c_def)
    ultimately show ?thesis by simp
  next
    case swap
    have c0: "0 \<le> c" using "1.prems"(2,3) swap(1) by (auto simp: c_def)
    define d where "d = nat c"
    have d: "c = int d" "d < k" "d \<noteq> i" using c0 swap by (auto simp: d_def)
    have len: "d < length index" "i < length index" using d swap(1) "1.prems"(2) by linarith+
    show ?thesis
    proof (cases "index ! d = c")
      case True
      have "\<not> distinct (filter (\<lambda>x. x < int k) index)"
        using len d True swap(2) not_distinct_filter [of i d index] not_distinct_filter [of d i index]
        by (cases "i < d") (simp_all add: c_def)
      moreover have "shuffle_loop k i pkt index = Some (1, pkt, index)"
        using swap d len True "1.prems"(1) by (subst shuffle_loop.simps) (simp add: c_def)
      ultimately show ?thesis by (simp add: shuffled_def)
    next
      case False
      let ?p = "swap_cells i d pkt" and ?x = "swap_cells i d index"
      have step: "shuffle_loop k i pkt index = shuffle_loop k i ?p ?x"
        using swap d len False "1.prems"(1) by (subst shuffle_loop.simps) (simp add: c_def)
      have "\<exists>res. shuffle_loop k i ?p ?x = Some res \<and> shuffled k ?p ?x res"
      proof -
        have "\<forall>x\<in>set ?x. 0 \<le> x"
          using "1.prems"(3) mset_swap_cells [OF len(2,1)] by (metis set_mset_mset)
        moreover have "\<forall>j<i. int k \<le> ?x ! j \<or> ?x ! j = int j"
          using "1.prems"(5) len d(1) by (auto simp: nth_swap_cells c_def)
        moreover have "\<not> (length index \<le> i \<or> length pkt \<le> i)" "\<not> (int k \<le> index ! i \<or> index ! i = int i)"
          "\<not> (c < 0 \<or> int (length index) \<le> c \<or> int (length pkt) \<le> c)" "index ! nat c \<noteq> c"
          using len swap d(1) False "1.prems"(1) c_def by auto
        ultimately show ?thesis
          unfolding d_def using "1.prems"(1,2,4) by (intro "1.IH"(2) [OF swap(1) _ _ c_def]) simp_all
      qed
      then show ?thesis unfolding step using shuffled_swap len "1.prems"(1) by metis
    qed
  qed
qed

lemma shuffle_spec:
  assumes "length pkt = length index" "k \<le> length index" "\<forall>x\<in>set index. 0 \<le> x"
  obtains r pkt' index' where "shuffle pkt index k = Some (r, pkt', index')" "shuffled k pkt index (r, pkt', index')"
  using shuffle_loop_spec [of pkt index k 0] assms by (auto simp: shuffle_def)

lemma shuffled_mset_index:
  assumes "shuffled k pkt index (r, pkt', index')" "length pkt = length index"
  shows "mset index' = mset index"
proof -
  have "mset (map snd (zip pkt' index')) = mset (map snd (zip pkt index))"
    unfolding mset_map using assms by (simp add: shuffled_def)
  moreover have "map snd (zip pkt' index') = index'" "map snd (zip pkt index) = index"
    using assms by (simp_all add: shuffled_def)
  ultimately show ?thesis by (simp only:)
qed

lemma placed_distinct:
  assumes "placed k index" "length index = k"
  shows "distinct (filter (\<lambda>x. x < int k) index)"
proof -
  have idx: "map ((!) index) [0..<k] = index" using map_nth [of index] assms(2) by simp
  have "filter (\<lambda>x. x < int k) index = filter (\<lambda>x. x < int k) (map ((!) index) [0..<k])" unfolding idx ..
  also have "\<dots> = map ((!) index) (filter ((\<lambda>x. x < int k) \<circ> (!) index) [0..<k])" by (rule filter_map)
  finally have "filter (\<lambda>x. x < int k) index = map ((!) index) (filter ((\<lambda>x. x < int k) \<circ> (!) index) [0..<k])" .
  moreover have "index ! i = int i" if "i < k" "index ! i < int k" for i
    using assms(1) that by (metis placed_def not_le)
  then have "inj_on ((!) index) {i. i < k \<and> index ! i < int k}"
    by (intro inj_onI) (metis (mono_tags, lifting) mem_Collect_eq of_nat_eq_iff)
  ultimately show ?thesis by (simp add: distinct_map)
qed

text \<open>The packets that arrive twice are the reason for the error, and the only one.\<close>

lemma shuffled_error:
  assumes "shuffled k pkt index (r, pkt', index')" "length pkt = length index" "length index = k"
  shows "if distinct (filter (\<lambda>x. x < int k) index) then r = 0 \<and> placed k index' else r = 1"
proof -
  have "mset (filter (\<lambda>x. x < int k) index') = mset (filter (\<lambda>x. x < int k) index)"
    using shuffled_mset_index [OF assms(1,2)] by simp
  then have "distinct (filter (\<lambda>x. x < int k) index') \<longleftrightarrow> distinct (filter (\<lambda>x. x < int k) index)"
    by (rule mset_eq_imp_distinct_iff)
  then show ?thesis using assms placed_distinct [of k index'] by (auto simp: shuffled_def)
qed

text \<open>A relation between each packet and its index survives the shuffling.\<close>

lemma shuffled_relates:
  assumes "shuffled k pkt index (r, pkt', index')" "length pkt = length index" "i < length index"
    and "\<And>i. i < length index \<Longrightarrow> R (pkt ! i) (index ! i)"
  shows "R (pkt' ! i) (index' ! i)"
proof -
  have s: "set (zip pkt' index') = set (zip pkt index)" "length pkt' = length index" "length index' = length index"
    using assms(1,2) by (auto simp: shuffled_def dest: mset_eq_setD)
  have "(pkt' ! i, index' ! i) \<in> set (zip pkt' index')" using s(2,3) assms(3) by (auto simp: set_zip)
  then show ?thesis using assms(2,4) unfolding s(1) by (auto simp: set_zip)
qed

subsection \<open>The decoding matrix\<close>

lemma build_rows_fold:
  "build_rows code index is m =
     (if \<forall>i\<in>set is. decode_row code index i \<noteq> None
      then Some (fold (\<lambda>i. put_slice (i * nat (fp_k code)) (the (decode_row code index i))) is m) else None)"
  by (induction "is" arbitrary: m) (auto split: option.splits)

lemma fold_put_rows:
  assumes "\<And>i. i < k \<Longrightarrow> length (row i) = k" "k * k \<le> length m" "c \<le> k"
  shows "length (fold (\<lambda>i. put_slice (i * k) (row i)) [0..<c] m) = length m \<and>
    (\<forall>i j. j < k \<longrightarrow> fold (\<lambda>i. put_slice (i * k) (row i)) [0..<c] m ! (i * k + j) =
      (if i < c then row i ! j else m ! (i * k + j)))"
  using assms(3)
proof (induction c)
  case 0
  then show ?case by simp
next
  case (Suc c)
  have "c * k + k \<le> k * k" using Suc.prems mult_le_mono1 [of "Suc c" k k] by simp
  then have "c * k + k \<le> length m" using assms(2) by linarith
  then show ?case using Suc assms(1) [of c] by (auto simp: nth_put_row)
qed

lemma mat_decode_row:
  assumes "code_ok T k n code" "tables_ok T" "i < k" "index ! i = int ix" "ix < n" "k \<le> ix \<or> ix = i"
  obtains r where "decode_row code index i = Some r" "length r = k"
    and "\<And>j. j < k \<Longrightarrow> GF (r ! j) = mat k (enc_matrix code) ix j"
proof -
  have k: "0 < k" "k \<le> n" "n \<le> 256" using assms(1) by (auto simp: code_ok_def)
  have tab: "gf_tables T" using assms(2) by (simp add: gf_tables_def)
  have len: "length (enc_matrix code) = n * k"
    and top: "\<And>i j. i < k \<Longrightarrow> j < k \<Longrightarrow> mat k (enc_matrix code) i j = idm i j"
    using gf_tables.encoding_matrix_spec [OF tab k] assms(1) by (metis code_ok_def)+
  show thesis
  proof (cases "ix < k")
    case True
    then show thesis
      using assms top [of i] by (intro that [of "(replicate k 0)[i := 1]"])
        (auto simp: decode_row_def code_ok_def idm_def nth_list_update)
  next
    case False
    have "ix * k + k \<le> n * k" using assms(5) mult_le_mono1 [of "Suc ix" n k] by simp
    then show thesis
      using assms False len by (intro that [of "slice (ix * k) k (enc_matrix code)"])
        (auto simp: decode_row_def code_ok_def mat_def)
  qed
qed

lemma inverse_mat_rows_differ:
  assumes "inverse_mat A B k" "a < k" "b < k" "a \<noteq> b"
  shows "\<exists>j<k. A a j \<noteq> A b j"
proof (rule ccontr)
  assume same: "\<not> (\<exists>j<k. A a j \<noteq> A b j)"
  have "idm a i = mv A k (mv B k (idm a)) i" if "i < k" for i
    using assms(1) that by (metis inverse_mat_def)
  moreover have "mv A k (mv B k (idm a)) a = mv A k (mv B k (idm a)) b"
    unfolding mv_def using same by (intro sum.cong) auto
  ultimately have "(idm a a :: gf256) = idm a b" using assms by metis
  then show False using assms(4) by (simp add: idm_def)
qed

text \<open>
  The decoding matrix exists exactly when the indices are different numbers of the group, and
  then it is the inverse of the received rows.
\<close>

lemma build_decode_matrix_spec:
  assumes code: "code_ok T k n code" "tables_ok T" and ix: "placed k index" "length index = k" "\<forall>x\<in>set index. 0 \<le> x"
  shows "if distinct index \<and> (\<forall>x\<in>set index. x < int n)
    then \<exists>m. build_decode_matrix T code index = Some m \<and>
      inverse_mat (\<lambda>i. mat k (enc_matrix code) (nat (index ! i))) (mat k m) k
    else build_decode_matrix T code index = None"
proof -
  have tab: "gf_tables T" using code(2) by (simp add: gf_tables_def)
  have k: "0 < k" "k \<le> n" "n \<le> 256" "nat (fp_k code) = k" "enc_matrix code = encoding_matrix T k n"
    using code(1) by (auto simp: code_ok_def)
  have pos: "0 \<le> index ! i" if "i < k" for i using ix(2,3) that by auto
  let ?A = "\<lambda>i. mat k (enc_matrix code) (nat (index ! i))"
  show ?thesis
  proof (cases "\<forall>x\<in>set index. x < int n")
    case False
    then obtain i where "i < k" "int n \<le> index ! i" using ix(2) by (metis in_set_conv_nth not_less)
    then have "decode_row code index i = None"
      using code(1) k(2) by (simp add: decode_row_def code_ok_def)
    then have "build_rows code index [0..<k] (replicate (k * k) 0) = None"
      using \<open>i < k\<close> by (auto simp: build_rows_fold)
    then have "build_decode_matrix T code index = None"
      by (simp add: build_decode_matrix_def k(4))
    then show ?thesis using False by auto
  next
    case True
    have row: "\<exists>r. decode_row code index i = Some r \<and> length r = k \<and> (\<forall>j<k. GF (r ! j) = ?A i j)" if "i < k" for i
    proof -
      have "index ! i < int n" using True ix(2) that by simp
      then have "index ! i = int (nat (index ! i))" "nat (index ! i) < n" "k \<le> nat (index ! i) \<or> nat (index ! i) = i"
        using that pos [OF that] ix(1) by (auto simp: placed_def)
      then show ?thesis by (metis mat_decode_row [OF code that])
    qed
    define m where "m = fold (\<lambda>i. put_slice (i * k) (the (decode_row code index i))) [0..<k] (replicate (k * k) 0)"
    have rows: "build_rows code index [0..<k] (replicate (k * k) 0) = Some m"
      using row by (fastforce simp: build_rows_fold m_def k(4))
    have lm: "length m = k * k" and mA: "\<And>i j. i < k \<Longrightarrow> j < k \<Longrightarrow> mat k m i j = ?A i j"
      using fold_put_rows [of k "\<lambda>i. the (decode_row code index i)" "replicate (k * k) 0" k] row
      by (fastforce simp: m_def mat_def)+
    have ns: "nonsingular (mat k m) k \<longleftrightarrow> nonsingular ?A k"
      unfolding nonsingular_def mv_def using mA by simp
    have im: "inverse_mat (mat k m) B k \<longleftrightarrow> inverse_mat ?A B k" for B
      unfolding inverse_mat_def mv_def using mA by simp
    note inv = gf_tables.invert_mat_cases [OF tab, of k m, unfolded lm ns im]
    have bdm: "build_decode_matrix T code index = (if fst (invert_mat T m k) \<noteq> 0 then None else Some (snd (invert_mat T m k)))"
      by (simp add: build_decode_matrix_def k(4) rows Let_def split: prod.splits)
    show ?thesis
    proof (cases "distinct index")
      case d: True
      have "inj_on (\<lambda>i. nat (index ! i)) {..<k}"
        using d ix(2) pos by (auto simp: inj_on_def nat_eq_iff2 nth_eq_iff_index_eq)
      moreover have "nat (index ! i) < n" if "i < k" for i
      proof -
        have "index ! i < int n" using True ix(2) that by simp
        then show ?thesis using pos [OF that] by simp
      qed
      ultimately have "nonsingular ?A k"
        using gf_tables.encoding_rows_nonsingular [OF tab k(1-3)] k(5) by simp
      then show ?thesis using inv bdm d True by auto
    next
      case d: False
      then obtain a b where "a < k" "b < k" "a \<noteq> b" "index ! a = index ! b"
        using ix(2) by (auto simp: distinct_conv_nth)
      then have "\<not> inverse_mat ?A B k" for B
        using inverse_mat_rows_differ [of ?A B k a b] by auto
      then have "fst (invert_mat T m k) = 1" using inv by (auto split: if_splits)
      then show ?thesis using bdm d by simp
    qed
  qed
qed

subsection \<open>Decoding\<close>

text \<open>The rebuilt packets, and the packets in their final places.\<close>

definition rebuilt :: "fec_state \<Rightarrow> nat \<Rightarrow> u8 list list \<Rightarrow> u8 list \<Rightarrow> nat \<Rightarrow> nat \<Rightarrow> u8 list" where
  "rebuilt T k pkt m sz row = accumulate T pkt (\<lambda>col. m ! (row * k + col)) k sz (replicate sz 0)"

lemma final_packets:
  assumes "length pkt = k" "\<And>i. i < k \<Longrightarrow> length (pkt ! i) = sz" "\<And>i. i < k \<Longrightarrow> length (buf i) = sz"
  shows "fold (\<lambda>row pkt. case map (\<lambda>row. if big row then Some (buf row) else None) [0..<k] ! row of
      Some buf \<Rightarrow> pkt[row := put_slice 0 (take sz buf) (pkt ! row)] | None \<Rightarrow> pkt) [0..<k] pkt
    = map (\<lambda>row. if big row then buf row else pkt ! row) [0..<k]"
proof -
  define f where "f row x = (if big row then put_slice 0 (take sz (buf row)) x else x)" for row x
  have "fold (\<lambda>row pkt. case map (\<lambda>row. if big row then Some (buf row) else None) [0..<k] ! row of
      Some buf \<Rightarrow> pkt[row := put_slice 0 (take sz buf) (pkt ! row)] | None \<Rightarrow> pkt) [0..<k] pkt
    = fold (\<lambda>row pkt. pkt[row := f row (pkt ! row)]) [0..<k] pkt"
    by (intro fold_cong refl) (auto simp: f_def fun_eq_iff)
  moreover have "fold (\<lambda>row pkt. pkt[row := f row (pkt ! row)]) [0..<k] pkt ! i = (if big i then buf i else pkt ! i)"
    if "i < k" for i
    using that assms fold_modify_nth [of i pkt f 0 k] by (simp add: f_def put_slice_all)
  ultimately show ?thesis using assms(1) by (intro nth_equalityI) simp_all
qed

lemma fec_decode_returns:
  assumes code: "code_ok T k n code" "tables_ok T"
    and ix: "length pkt = k" "length index = k" "\<forall>x\<in>set index. 0 \<le> x"
  shows "\<exists>r pkt' index'. fec_decode T code pkt index sz = Some (r, pkt', index') \<and>
    r = (if distinct index \<and> (\<forall>x\<in>set index. x < int n) then 0 else 1)"
proof -
  have k: "nat (fp_k code) = k" using code by (simp add: code_ok_def)
  obtain r pkt' index' where sh: "shuffle pkt index k = Some (r, pkt', index')" "shuffled k pkt index (r, pkt', index')"
    by (rule shuffle_spec [of pkt index k]) (use ix in auto)
  have ms: "mset index' = mset index" using shuffled_mset_index [OF sh(2)] ix by simp
  then have eq: "set index' = set index" "distinct index' \<longleftrightarrow> distinct index" "length index' = k"
    using ix by (auto dest: mset_eq_setD mset_eq_imp_distinct_iff mset_eq_length)
  note err = shuffled_error [OF sh(2)]
  show ?thesis
  proof (cases "r = 0")
    case False
    then have "r = 1" "\<not> distinct index" using err ix by (auto split: if_splits)
    then show ?thesis using sh(1) k by (simp add: fec_decode_def)
  next
    case True
    then have "placed k index'" using err ix by (auto split: if_splits)
    from build_decode_matrix_spec [OF code this eq(3)] show ?thesis
      using True sh(1) k eq ix(3) by (auto simp: fec_decode_def Let_def split: if_splits)
  qed
qed

lemma fec_decode_recovers:
  assumes code: "code_ok T k n code" "tables_ok T" and src: "packets_ok k sz src"
    and ix: "length pkt = k" "length index = k" "distinct index" "\<forall>x\<in>set index. 0 \<le> x \<and> x < int n"
    and rec: "\<And>i. i < k \<Longrightarrow> fec_encode T code src (replicate sz 0) (index ! i) sz = Some (pkt ! i)"
  shows "\<exists>index'. fec_decode T code pkt index sz = Some (0, src, index')"
proof -
  have tab: "gf_tables T" using code(2) by (simp add: gf_tables_def)
  have k: "nat (fp_k code) = k" "fp_k code = int k" using code by (simp_all add: code_ok_def)
  define enc where "enc p x \<longleftrightarrow> length p = sz \<and> (\<forall>b < sz. GF (p ! b) = mv (mat k (enc_matrix code)) k (column src b) (nat x))" for p x
  have encd: "enc p x" if "fec_encode T code src (replicate sz 0) x sz = Some p" "0 \<le> x" "x < int n" for p x
    by (rule gf_tables.fec_encode_spec [OF tab code(1) src, of "replicate sz 0" "nat x"])
      (use that in \<open>auto simp: enc_def\<close>)
  obtain r pkt' index' where sh: "shuffle pkt index k = Some (r, pkt', index')" "shuffled k pkt index (r, pkt', index')"
    by (rule shuffle_spec [of pkt index k]) (use ix in auto)
  have "mset index' = mset index" using shuffled_mset_index [OF sh(2)] ix by simp
  then have eq: "set index' = set index" "distinct index'" "length index' = k"
    using ix by (auto dest: mset_eq_setD mset_eq_imp_distinct_iff mset_eq_length)
  have r: "r = 0" "placed k index'" using shuffled_error [OF sh(2)] ix by (auto split: if_splits)
  have pkt': "fec_encode T code src (replicate sz 0) (index' ! i) sz = Some (pkt' ! i)" if "i < k" for i
    by (rule shuffled_relates [OF sh(2), of i "\<lambda>p x. fec_encode T code src (replicate sz 0) x sz = Some p"])
      (use that ix rec in simp_all)
  then have p_enc: "enc (pkt' ! i) (index' ! i)" if "i < k" for i
    using encd that ix(4) eq nth_mem [of i index'] by auto
  obtain m where m: "build_decode_matrix T code index' = Some m"
    and inv: "inverse_mat (\<lambda>i. mat k (enc_matrix code) (nat (index' ! i))) (mat k m) k"
    using build_decode_matrix_spec [OF code r(2) eq(3)] eq ix(4) by auto
  have lp: "length pkt' = k" using sh(2) ix by (simp add: shuffled_def)
  define row where "row = rebuilt T k pkt' m sz"
  have row: "row i = src ! i" if i: "i < k" for i
  proof (rule nth_equalityI)
    show "length (row i) = length (src ! i)"
      using packets_ok_nth [OF src i] by (simp add: row_def rebuilt_def)
    fix b assume "b < length (row i)"
    then have b: "b < sz" by (simp add: row_def rebuilt_def)
    have "GF (row i ! b) = mv (mat k m) k (\<lambda>col. GF (pkt' ! col ! b)) i"
      using b gf_tables.accumulate_nth(1) [OF tab] by (simp add: row_def rebuilt_def mv_def mat_def)
    also have "\<dots> = mv (mat k m) k (mv (\<lambda>i. mat k (enc_matrix code) (nat (index' ! i))) k (column src b)) i"
      using p_enc b by (intro mv_cong) (simp add: enc_def mv_def)
    also have "\<dots> = GF (src ! i ! b)" using inverse_mat_solves [OF inv i] by (simp add: column_def)
    finally show "row i ! b = src ! i ! b" by simp
  qed
  have "fec_decode T code pkt index sz = Some (0, map (\<lambda>i. if int k \<le> index' ! i then row i else pkt' ! i) [0..<k], index')"
    using final_packets [of pkt' k sz row "\<lambda>i. int k \<le> index' ! i"] lp p_enc
    unfolding row_def rebuilt_def by (simp add: fec_decode_def k sh(1) r(1) m Let_def enc_def)
  moreover have "map (\<lambda>i. if int k \<le> index' ! i then row i else pkt' ! i) [0..<k] = src"
  proof (rule nth_equalityI)
    fix i assume "i < length (map (\<lambda>i. if int k \<le> index' ! i then row i else pkt' ! i) [0..<k])"
    then have i: "i < k" by simp
    have "pkt' ! i = src ! i" if "index' ! i < int k"
    proof -
      have "index' ! i = int i" using r(2) i that by (metis placed_def not_le)
      then show ?thesis using pkt' [OF i] i packets_ok_nth [OF src i] k
        by (simp add: fec_encode_def put_slice_all)
    qed
    then show "map (\<lambda>i. if int k \<le> index' ! i then row i else pkt' ! i) [0..<k] ! i = src ! i"
      using i row by simp
  qed (use src in \<open>simp add: packets_ok_def\<close>)
  ultimately show ?thesis by auto
qed

end
