(* ===== verification/ErasureSpec.thy ===== *)
theory ErasureSpec
  imports Main
begin

text \<open>
  What a maximum-distance-separable erasure code promises its users, as an interface: a
  group \<open>d\<close> is sent as \<open>n\<close> numbered packets and any \<open>k\<close> of them give it back. Proved from
  this law alone: a receiver that decodes the first \<open>k\<close> packets to arrive survives every
  loss of at most \<open>n - k\<close> packets, whatever the order of arrival, and two groups never
  share \<open>k\<close> packets.
\<close>

locale erasure_code =
  fixes ok :: "'d \<Rightarrow> bool"
    and enc :: "'d \<Rightarrow> nat \<Rightarrow> 'p"
    and dec :: "(nat \<times> 'p) list \<Rightarrow> 'd option"
    and k n :: nat
  assumes size_bound: "k \<le> n"
    and recover: "ok d \<Longrightarrow> length ix = k \<Longrightarrow> distinct ix \<Longrightarrow> set ix \<subseteq> {..<n} \<Longrightarrow>
      dec (map (\<lambda>i. (i, enc d i)) ix) = Some d"
begin

lemma survives_loss:
  assumes "ok d" "distinct arrived" "set arrived = {..<n} - lost" "card lost \<le> n - k" "finite lost"
  shows "dec (take k (map (\<lambda>i. (i, enc d i)) arrived)) = Some d"
proof -
  have "card {..<n} - card lost \<le> card ({..<n} - lost)" using assms(5) by (intro diff_card_le_card_Diff)
  then have "k \<le> length arrived"
    using assms size_bound distinct_card [of arrived] by simp
  then have "length (take k arrived) = k" "distinct (take k arrived)" "set (take k arrived) \<subseteq> {..<n}"
    using assms(2,3) set_take_subset [of k arrived] by auto
  then show ?thesis using recover [OF assms(1)] by (simp add: take_map)
qed

lemma packets_determine_group:
  assumes "ok d" "ok d'" "length ix = k" "distinct ix" "set ix \<subseteq> {..<n}" "\<And>i. i \<in> set ix \<Longrightarrow> enc d i = enc d' i"
  shows "d = d'"
proof -
  have "map (\<lambda>i. (i, enc d i)) ix = map (\<lambda>i. (i, enc d' i)) ix" using assms(6) by simp
  then show ?thesis
    using recover [OF assms(1,3,4,5)] recover [OF assms(2,3,4,5)] by (metis option.inject)
qed

end

end
