(* ===== verification/FecProps.thy ===== *)
theory FecProps
  imports FecDecode ErasureSpec
begin

text \<open>
  The properties of the Vandermonde erasure codec, and the codec as a provider of the
  interface \<open>erasure_code\<close>.
\<close>

subsection \<open>The codec as an erasure code\<close>

text \<open>The library state between calls: the tables are either untouched or complete.\<close>

definition fec_ready :: "fec_state \<Rightarrow> bool" where
  "fec_ready T \<longleftrightarrow> sizes_ok T \<and> (fec_initialized T \<longrightarrow> tables_ok T)"

lemma fec_ready_state0: "fec_ready fec_state0"
  by (simp add: fec_ready_def sizes_ok_state0) (simp add: fec_state0_def)

lemma fec_new_ready:
  assumes "fec_new T0 k n addr = (T, NewOk code)" "fec_ready T0"
  shows "tables_ok T" "code_ok T (nat k) (nat n) code"
  using fec_new_code_ok [OF assms(1)] assms(2) by (auto simp: fec_ready_def)

text \<open>The packet with number \<open>i\<close>, and the data decoded from numbered packets.\<close>

definition fec_packet :: "fec_state \<Rightarrow> fec_parms \<Rightarrow> nat \<Rightarrow> u8 list list \<Rightarrow> nat \<Rightarrow> u8 list" where
  "fec_packet T code sz src i = the (fec_encode T code src (replicate sz 0) (int i) sz)"

definition fec_group :: "fec_state \<Rightarrow> fec_parms \<Rightarrow> nat \<Rightarrow> (nat \<times> u8 list) list \<Rightarrow> u8 list list option" where
  "fec_group T code sz got =
     (case fec_decode T code (map snd got) (map (int \<circ> fst) got) sz of
        Some (r, pkt, index) \<Rightarrow> if r = 0 then Some pkt else None | None \<Rightarrow> None)"

lemma fec_packet_encode:
  assumes "code_ok T k n code" "tables_ok T" "packets_ok k sz src" "i < n"
  shows "fec_encode T code src (replicate sz 0) (int i) sz = Some (fec_packet T code sz src i)"
proof -
  have "gf_tables T" using assms(2) by (simp add: gf_tables_def)
  then show ?thesis
    by (rule gf_tables.fec_encode_spec [OF _ assms(1,3) _ assms(4), of "replicate sz 0"])
      (simp_all add: fec_packet_def)
qed

lemma fec_group_recover:
  assumes "code_ok T k n code" "tables_ok T" "packets_ok k sz d" "length ix = k" "distinct ix" "set ix \<subseteq> {..<n}"
  shows "fec_group T code sz (map (\<lambda>i. (i, fec_packet T code sz d i)) ix) = Some d"
proof -
  let ?pkt = "map (fec_packet T code sz d) ix"
  have "\<exists>index'. fec_decode T code ?pkt (map int ix) sz = Some (0, d, index')"
  proof (rule fec_decode_recovers [OF assms(1-3)])
    fix i assume "i < k"
    moreover have "ix ! i < n" using calculation assms(4,6) nth_mem [of i ix] by blast
    ultimately show "fec_encode T code d (replicate sz 0) (map int ix ! i) sz = Some (?pkt ! i)"
      using fec_packet_encode [OF assms(1-3), of "ix ! i"] assms(4) by simp
  qed (use assms in \<open>auto simp: distinct_map\<close>)
  then show ?thesis by (auto simp: fec_group_def comp_def)
qed

text \<open>
  A code descriptor together with the library state it was made in. Every such pair is an
  erasure code.
\<close>

locale fec_handle =
  fixes T :: fec_state and code :: fec_parms and k n sz :: nat
  assumes handle: "code_ok T k n code" "tables_ok T"

sublocale fec_handle \<subseteq>
  erasure_code "packets_ok k sz" "fec_packet T code sz" "fec_group T code sz" k n
proof unfold_locales
  show "k \<le> n" using handle by (simp add: code_ok_def)
qed (rule fec_group_recover [OF handle])

text \<open>The code the demo's sender and receiver both make: \<open>FECGenerator(FEC_K, FEC_N, FEC_SIZE)\<close>.\<close>

definition demo_code :: fec_parms where
  "demo_code = \<lparr>fp_magic = fec_magic 8 8 0, fp_k = 8, fp_n = 8, enc_matrix = encoding_matrix fec_tabs 8 8, enc_addr = 0\<rparr>"

interpretation demo: fec_handle fec_tabs demo_code 8 8 10
  by unfold_locales (simp_all add: code_ok_def demo_code_def fec_tabs_ok)

subsection \<open>Properties of the codec\<close>

text \<open>C3: whatever \<open>k\<close> different packets of a group arrive, in whatever order, \<open>fec_decode\<close>
  with the descriptor \<open>fec_new\<close> returned reports success and leaves exactly the \<open>k\<close> data
  packets, in order, in the packet array.\<close>

theorem fec_decode_any_k:
  assumes "fec_ready T0" and "fec_new T0 k n addr = (T, NewOk code)"
    and "packets_ok (nat k) sz src"
    and "length index = nat k" "distinct index" "\<forall>x\<in>set index. 0 \<le> x \<and> x < n"
    and "length pkt = nat k"
    and "\<forall>i<nat k. fec_encode T code src (replicate sz 0) (index ! i) sz = Some (pkt ! i)"
  shows "\<exists>index'. fec_decode T code pkt index sz = Some (0, src, index')"
proof -
  note T = fec_new_ready [OF assms(2,1)]
  have "x < int (nat n)" if "x \<in> set index" for x using assms(6) that by auto
  then show ?thesis
    using assms by (intro fec_decode_recovers [OF T(2,1) assms(3)]) auto
qed

lemma fec_new_state0: "0 < k \<Longrightarrow> k \<le> n \<Longrightarrow> n \<le> 256 \<Longrightarrow>
    fec_new fec_state0 (int k) (int n) addr = (fec_tabs, NewOk \<lparr>fp_magic = fec_magic (int k) (int n) addr,
      fp_k = int k, fp_n = int n, enc_matrix = encoding_matrix fec_tabs k n, enc_addr = addr\<rparr>)"
proof -
  assume k: "0 < k" "k \<le> n" "n \<le> 256"
  have "\<not> fec_initialized fec_state0" by (simp add: fec_state0_def)
  then show ?thesis using k by (simp add: fec_new_def fec_tabs_def [symmetric] Let_def)
qed

text \<open>Two data packets, of which the second and the third of three packets arrive.\<close>

definition ex_code :: fec_parms where
  "ex_code = \<lparr>fp_magic = fec_magic 2 3 0, fp_k = 2, fp_n = 3, enc_matrix = encoding_matrix fec_tabs 2 3, enc_addr = 0\<rparr>"

definition ex_src :: "u8 list list" where
  "ex_src = [[1, 2, 3], [4, 5, 6]]"

definition ex_pkt :: "u8 list list" where
  "ex_pkt = [fec_packet fec_tabs ex_code 3 ex_src 2, fec_packet fec_tabs ex_code 3 ex_src 1]"

lemma ex_new: "fec_new fec_state0 2 3 0 = (fec_tabs, NewOk ex_code)"
  using fec_new_state0 [of 2 3 0] by (simp add: ex_code_def)

lemma ex_packets: "packets_ok (nat 2) 3 ex_src"
  by (simp add: packets_ok_def ex_src_def)

lemma ex_code_ok: "code_ok fec_tabs 2 3 ex_code"
  by (simp add: code_ok_def ex_code_def)

lemma ex_received: "\<forall>i<nat 2. fec_encode fec_tabs ex_code ex_src (replicate 3 0) ([2, 1] ! i) 3 = Some (ex_pkt ! i)"
  using fec_packet_encode [OF ex_code_ok fec_tabs_ok, of 3 ex_src 2]
    fec_packet_encode [OF ex_code_ok fec_tabs_ok, of 3 ex_src 1] ex_packets
  by (auto simp: less_2_cases_iff ex_pkt_def)

theorem fec_decode_any_k_witness:
  "\<exists>index'. fec_decode fec_tabs ex_code ex_pkt [2, 1] 3 = Some (0, [[1, 2, 3], [4, 5, 6]], index')"
  using fec_decode_any_k [OF fec_ready_state0 ex_new ex_packets, of "[2, 1]" ex_pkt] ex_received
  by (simp add: ex_src_def ex_pkt_def)

text \<open>C11: on arrays of \<open>k\<close> packets and \<open>k\<close> nonnegative indices \<open>fec_decode\<close> always returns, and it
  returns 0 exactly when the indices are different numbers below \<open>n\<close>: a packet that arrived
  twice and an index out of range are reported, and nothing else is.\<close>

theorem fec_decode_error_iff:
  assumes "fec_ready T0" "fec_new T0 k n addr = (T, NewOk code)"
    and "length pkt = nat k" "length index = nat k" "\<forall>x\<in>set index. 0 \<le> x"
  shows "\<exists>r pkt' index'. fec_decode T code pkt index sz = Some (r, pkt', index') \<and>
    r = (if distinct index \<and> (\<forall>x\<in>set index. x < n) then 0 else 1)"
proof -
  note T = fec_new_ready [OF assms(2,1)]
  have "0 \<le> n" using T(2) assms(2) by (auto simp: code_ok_def)
  then show ?thesis using fec_decode_returns [OF T(2,1) assms(3-5), of sz] by simp
qed

theorem fec_decode_error_iff_witness:
  "\<exists>r pkt' index'. fec_decode fec_tabs ex_code [[1], [2]] [2, 2] 1 = Some (r, pkt', index') \<and> r = 1"
  using fec_decode_error_iff [OF fec_ready_state0 ex_new, of "[[1], [2]]" "[2, 2]" 1] by simp

text \<open>C25: \<open>fec_new\<close> initialises the tables at most once and keeps the library state sound; it
  returns no descriptor exactly when \<open>k > 256\<close>, \<open>n > 256\<close> or \<open>k > n\<close>, and otherwise, for a positive
  \<open>k\<close>, one that \<open>fec_free\<close> accepts.\<close>

theorem fec_new_result:
  assumes "fec_ready T0" "fec_new T0 k n addr = (T, res)"
  shows "fec_ready T \<and> tables_ok T \<and> (fec_initialized T0 \<longrightarrow> T = T0) \<and>
    (res = NewNull \<longleftrightarrow> 256 < k \<or> 256 < n \<or> n < k) \<and>
    (0 < k \<and> k \<le> n \<and> n \<le> 256 \<longrightarrow> (\<exists>code. res = NewOk code \<and> fp_k code = k \<and> fp_n code = n \<and> fec_free (Some code)))"
proof -
  have T: "T = (if fec_initialized T0 then T0 else init_fec T0)"
    using assms(2) by (auto simp: fec_new_def Let_def split: if_splits)
  have "tables_ok T" using assms(1) T init_fec_ok by (auto simp: fec_ready_def)
  moreover have "fec_ready T" using calculation by (auto simp: fec_ready_def tables_ok_def)
  moreover have "res = NewNull \<longleftrightarrow> 256 < k \<or> 256 < n \<or> n < k"
    using assms(2) by (auto simp: fec_new_def Let_def split: if_splits)
  moreover have "\<exists>code. res = NewOk code \<and> fp_k code = k \<and> fp_n code = n \<and> fec_free (Some code)"
    if "0 < k \<and> k \<le> n \<and> n \<le> 256"
    using assms(2) that by (auto simp: fec_new_def Let_def fec_free_def split: if_splits)
  ultimately show ?thesis using T by simp
qed

theorem fec_new_result_witness:
  "\<exists>code. NewOk ex_code = NewOk code \<and> fp_k code = 2 \<and> fp_n code = 3 \<and> fec_free (Some code)"
  using fec_new_result [OF fec_ready_state0 ex_new] by simp

text \<open>C24: the encoder is systematic and linear: packet \<open>i\<close> below \<open>k\<close> is the \<open>i\<close>-th data packet,
  and byte \<open>b\<close> of any packet is the value at its own point, 0 or a power of the generator, of
  the polynomial of degree below \<open>k\<close> that takes the \<open>b\<close>-th bytes of the data packets at the
  first \<open>k\<close> points.\<close>

theorem fec_encode_interpolates:
  assumes "fec_ready T0" "fec_new T0 k n addr = (T, NewOk code)" "packets_ok (nat k) sz src" "b < sz"
  shows "\<exists>q. (\<forall>j<nat k. peval q (nat k) (vdm_point j) = GF (src ! j ! b)) \<and>
    (\<forall>i<nat n. \<exists>p. fec_encode T code src (replicate sz 0) (int i) sz = Some p \<and> length p = sz \<and>
       (i < nat k \<longrightarrow> p = src ! i) \<and> GF (p ! b) = peval q (nat k) (vdm_point i))"
proof -
  note T = fec_new_ready [OF assms(2,1)]
  define K where "K = nat k"
  have K: "0 < K" "K \<le> nat n" "nat n \<le> 256" "enc_matrix code = encoding_matrix T K (nat n)" "fp_k code = int K"
    using T(2) by (auto simp: code_ok_def K_def)
  have tab: "gf_tables T" using T(1) by (simp add: gf_tables_def)
  obtain W where inv: "\<forall>i<K. \<forall>j<K. mm (\<lambda>i j. vdm_point i ^ j) K W i j = idm i j"
    and E: "\<forall>i<nat n. \<forall>j<K. mat K (enc_matrix code) i j = mm (\<lambda>i j. vdm_point i ^ j) K W i j"
    unfolding K(4) by (rule gf_tables.encoding_matrix_spec [OF tab K(1-3)]) blast
  define q where "q = mv W K (column src b)"
  have q: "peval q K (vdm_point i) = mv (mm (\<lambda>i j. vdm_point i ^ j) K W) K (column src b) i" for i
    unfolding q_def mv_mv [symmetric] by (rule mv_peval [symmetric])
  have "peval q K (vdm_point j) = GF (src ! j ! b)" if "j < K" for j
  proof -
    have "peval q K (vdm_point j) = mv idm K (column src b) j" unfolding q using inv that by (intro mv_mat_cong) simp
    then show ?thesis using that by (simp add: column_def)
  qed
  moreover have "\<exists>p. fec_encode T code src (replicate sz 0) (int i) sz = Some p \<and> length p = sz \<and>
       (i < K \<longrightarrow> p = src ! i) \<and> GF (p ! b) = peval q K (vdm_point i)" if i: "i < nat n" for i
  proof (rule gf_tables.fec_encode_spec [OF tab T(2) assms(3) _ i, of "replicate sz 0"])
    fix p assume p: "fec_encode T code src (replicate sz 0) (int i) sz = Some p" "length p = sz"
      "\<And>b. b < sz \<Longrightarrow> GF (p ! b) = mv (mat (nat k) (enc_matrix code)) (nat k) (column src b) i"
    have "GF (p ! b) = peval q K (vdm_point i)"
      unfolding q p(3) [OF assms(4)] K_def [symmetric] using E i by (intro mv_mat_cong) simp
    moreover have "p = src ! i" if "i < K"
      using p(1) that packets_ok_nth [OF assms(3), of i] by (simp add: fec_encode_def K(5) put_slice_all K_def [symmetric])
    ultimately show ?thesis using p(1,2) by blast
  qed simp
  ultimately show ?thesis unfolding K_def by blast
qed

theorem fec_encode_interpolates_witness:
  "\<exists>q. (\<forall>j<nat 2. peval q (nat 2) (vdm_point j) = GF (ex_src ! j ! 1)) \<and>
    (\<forall>i<nat 3. \<exists>p. fec_encode fec_tabs ex_code ex_src (replicate 3 0) (int i) 3 = Some p \<and> length p = 3 \<and>
       (i < nat 2 \<longrightarrow> p = ex_src ! i) \<and> GF (p ! 1) = peval q (nat 2) (vdm_point i))"
  using fec_encode_interpolates [OF fec_ready_state0 ex_new ex_packets, of 1] by simp

text \<open>C26: from any contents of the static arrays \<open>init_fec\<close> leaves tables that implement the
  field with 256 elements: products, inverses of nonzero bytes, exponents and logarithms.\<close>

theorem init_fec_field:
  assumes "sizes_ok T"
  shows "GF (gf_mul (init_fec T) a b) = GF a * GF b \<and>
    (a \<noteq> 0 \<longrightarrow> gf_mul (init_fec T) a (gf_inv (init_fec T) a) = 1) \<and>
    (i < 510 \<longrightarrow> GF (gf_exp (init_fec T) ! i) = alpha ^ i) \<and>
    (a \<noteq> 0 \<longrightarrow> gf_exp (init_fec T) ! nat (gf_log (init_fec T) ! unat a) = a)"
proof -
  have ok: "tables_ok (init_fec T)" by (rule init_fec_ok [OF assms])
  then have tab: "gf_tables (init_fec T)" by (simp add: gf_tables_def)
  have log: "alpha ^ nat (gf_log (init_fec T) ! unat a) = GF a" "nat (gf_log (init_fec T) ! unat a) < 255" if "a \<noteq> 0"
    using ok that by (auto simp: tables_ok_def)
  have "gf_mul (init_fec T) a (gf_inv (init_fec T) a) = 1" if "a \<noteq> 0"
  proof -
    have "GF (gf_mul (init_fec T) a (gf_inv (init_fec T) a)) = GF 1"
      using that by (simp add: gf_tables.GF_mul [OF tab] gf_tables.GF_inv [OF tab])
    then show ?thesis by (simp only: gf256.inject)
  qed
  moreover have "GF (gf_exp (init_fec T) ! nat (gf_log (init_fec T) ! unat a)) = GF a" if "a \<noteq> 0"
    using log [OF that] by (simp add: gf_tables.GF_exp [OF tab])
  ultimately show ?thesis by (simp add: gf_tables.GF_mul [OF tab] gf_tables.GF_exp [OF tab])
qed

theorem init_fec_field_witness:
  "GF (gf_mul (init_fec fec_state0) 3 7) = GF 9"
proof -
  have "GF 3 * GF 7 = GF (9 :: u8)" by code_simp
  then show ?thesis using init_fec_field [OF sizes_ok_state0, of 3 7 0] by simp
qed

text \<open>C27: \<open>invert_mat\<close> returns 0 exactly for the nonsingular matrices, and then the buffer holds
  the two-sided inverse: it and the original matrix solve each other's equations.\<close>

theorem invert_mat_correct:
  assumes "tables_ok T" "length src = k * k"
  shows "case invert_mat T src k of (err, B) \<Rightarrow>
    (err = 0 \<longleftrightarrow> nonsingular (mat k src) k) \<and>
    (err = 0 \<longrightarrow> (\<forall>x y. (\<forall>i<k. y i = mv (mat k src) k x i) \<longleftrightarrow> (\<forall>i<k. x i = mv (mat k B) k y i)))"
proof -
  have "gf_tables T" using assms(1) by (simp add: gf_tables_def)
  then have c: "if nonsingular (mat k src) k
         then \<exists>B. invert_mat T src k = (0, B) \<and> inverse_mat (mat k src) (mat k B) k
         else fst (invert_mat T src k) = 1"
    by (rule gf_tables.invert_mat_cases) (simp add: assms(2))
  show ?thesis
  proof (cases "nonsingular (mat k src) k")
    case True
    then obtain inv where inv: "invert_mat T src k = (0, inv)" "inverse_mat (mat k src) (mat k inv) k"
      using c by auto
    from inv(2) have "(\<forall>i<k. y i = mv (mat k src) k x i) \<longleftrightarrow> (\<forall>i<k. x i = mv (mat k inv) k y i)" for x y
      unfolding inverse_mat_def by blast
    then show ?thesis using inv(1) True by simp
  next
    case False
    then have "fst (invert_mat T src k) = 1" using c by simp
    then show ?thesis using False by (cases "invert_mat T src k") simp
  qed
qed

theorem invert_mat_correct_witness:
  "case invert_mat fec_tabs [0, 3, 7, 1] 2 of (err, B) \<Rightarrow>
    (err = 0 \<longleftrightarrow> nonsingular (mat 2 [0, 3, 7, 1]) 2) \<and>
    (err = 0 \<longrightarrow> (\<forall>x y. (\<forall>i<2. y i = mv (mat 2 [0, 3, 7, 1]) 2 x i) \<longleftrightarrow> (\<forall>i<2. x i = mv (mat 2 B) 2 y i)))"
  by (rule invert_mat_correct [OF fec_tabs_ok]) simp

text \<open>C28: \<open>invert_vdm\<close> replaces a Vandermonde matrix whose points are different and start with 0, as
  \<open>fec_new\<close> builds it, by its inverse, and leaves the rest of the buffer alone.\<close>

theorem invert_vdm_inverts:
  assumes "tables_ok T" "0 < k" "k * k \<le> length src" "inj_on P {..<k}" "P 0 = 0"
    and "\<forall>i<k. \<forall>j<k. GF (src ! (i * k + j)) = P i ^ j"
  shows "length (invert_vdm T src k) = length src \<and>
    (\<forall>i<k. \<forall>j<k. mm (\<lambda>i j. P i ^ j) k (mat k (invert_vdm T src k)) i j = idm i j) \<and>
    (\<forall>m\<ge>k * k. invert_vdm T src k ! m = src ! m)"
proof -
  have tab: "gf_tables T" using assms(1) by (simp add: gf_tables_def)
  have "mat k src i j = P i ^ j" if "i < k" "j < k" for i j using assms(6) that by (simp add: mat_def)
  note inv = gf_tables.invert_vdm_correct [OF tab assms(2,3) this assms(5,4)]
  show ?thesis using inv by blast
qed

definition ex_vdm :: "u8 list" where
  "ex_vdm = [1, 0, 0, 1, 1, 1, 1, 2, 4]"

theorem invert_vdm_inverts_witness:
  "mm (\<lambda>i j. vdm_point i ^ j) 3 (mat 3 (invert_vdm fec_tabs ex_vdm 3)) 2 2 = 1"
proof -
  have "inj_on vdm_point {..<3}" by (rule inj_on_subset [OF inj_vdm_point]) auto
  moreover have "\<forall>i<3. \<forall>j<3. GF (ex_vdm ! (i * 3 + j)) = vdm_point i ^ j"
  proof -
    have "GF 2 * GF 2 = GF (4 :: u8)" by code_simp
    then show ?thesis
      by (simp add: All_less_Suc numeral_3_eq_3) (simp add: ex_vdm_def vdm_point_def alpha_def)
  qed
  ultimately show ?thesis
    using invert_vdm_inverts [OF fec_tabs_ok, of 3 ex_vdm vdm_point] by (simp add: ex_vdm_def idm_def)
qed

text \<open>Evaluating the tables of the running program at given bytes.\<close>

lemma gf_mul_tabs: "gf_mul fec_tabs a b = byte_of (GF a * GF b)"
  using vdm.GF_mul [of a b] by (metis gf256.sel)

lemma gf_inv_tabs_0: "gf_inv fec_tabs 0 = 0"
  using vdm.GF_inv [of 0] by simp

lemma ex_products:
  "byte_of (GF 2 * GF 1) = 2" "byte_of (GF 3 * GF 1) = 3" "byte_of (GF 1 * GF 1) = 1" "byte_of (GF 2 * GF 2) = 4"
  "byte_of (GF 3 * GF 3) = 5" "byte_of (GF 3 * GF 2) = 6"
  by code_simp+

lemma ex_vdm_coefficients:
  "fold (vdm_coef_step fec_tabs [1, 2, 3] 3) [1..<3] [0, 0, 1] = [0, 5, 0]"
  by (simp add: vdm_coef_step_def gf_mul_tabs ex_products upt_rec numeral_3_eq_3)

text \<open>
  The first point has to be 0: for the different points 1, 2 and 3 the buffer ends up with
  a column of zeros, so it is not an inverse. The loop that builds the coefficients skips
  the cell below the last one reached, which is right only while that product is 0.
\<close>

lemma invert_vdm_nonzero_point:
  "map GF [1, 1, 1, 1, 2, 4, 1, 3, 5] = concat (map (\<lambda>p. [1, p, p * p]) [GF 1, GF 2, GF 3]) \<and>
   mm (\<lambda>i j. ([GF 1, GF 2, GF 3] ! i) ^ j) 3 (mat 3 (invert_vdm fec_tabs [1, 1, 1, 1, 2, 4, 1, 3, 5] 3)) 2 2 = 0"
proof
  show "map GF [1, 1, 1, 1, 2, 4, 1, 3, 5] = concat (map (\<lambda>p. [1, p, p * p]) [GF 1, GF 2, GF 3])"
    by code_simp
  have c: "fold (vdm_coef_step fec_tabs [1, 2, 3] 3) [1..<3] [0, 0, 1] = [0, 5, 0]"
    by (rule ex_vdm_coefficients)
  have upt: "[0..<3] = [0, 1, 2 :: nat]" by code_simp
  have row2: "snd (vdm_row fec_tabs [1, 2, 3] [0, 5, 0] 3 2 ([x, y, z], src)) = src[2 := 0, 5 := 0, 8 := 0]" for x y z src
    by (simp add: vdm_row_def vdm_divide_def gf_mul_tabs ex_products gf_inv_tabs_0 upt numeral_3_eq_3 eval_nat_numeral)
  show "mm (\<lambda>i j. ([GF 1, GF 2, GF 3] ! i) ^ j) 3 (mat 3 (invert_vdm fec_tabs [1, 1, 1, 1, 2, 4, 1, 3, 5] 3)) 2 2 = 0"
  proof -
    let ?src = "[1, 1, 1, 1, 2, 4, 1, 3, 5] :: u8 list"
    have "\<exists>x y z src'. fold (vdm_row fec_tabs [1, 2, 3] [0, 5, 0] 3) [0, 1] ([0, 0, 0], ?src) = ([x, y, z], src') \<and> length src' = 9"
      by (simp add: vdm_row_def vdm_divide_def upt eval_nat_numeral Let_def)
    then obtain x y z src' where two: "fold (vdm_row fec_tabs [1, 2, 3] [0, 5, 0] 3) [0, 1] ([0, 0, 0], ?src) = ([x, y, z], src')"
      and len: "length src' = 9" by blast
    have "invert_vdm fec_tabs ?src 3 = snd (fold (vdm_row fec_tabs [1, 2, 3] [0, 5, 0] 3) [0, 1, 2] ([0, 0, 0], ?src))"
      using c by (simp add: invert_vdm_def upt) (simp add: eval_nat_numeral Let_def)
    also have "\<dots> = src'[2 := 0, 5 := 0, 8 := 0]" using two row2 [of x y z src'] by simp
    finally have inv: "invert_vdm fec_tabs ?src 3 = src'[2 := 0, 5 := 0, 8 := 0]" .
    show ?thesis unfolding mm_def mat_def inv using len by (simp add: eval_nat_numeral)
  qed
qed

text \<open>C29: \<open>addmul1\<close>, unrolled sixteen times with a loop for the rest, adds \<open>c\<close> times the source to
  the first \<open>sz\<close> bytes of the destination and touches nothing else.\<close>

theorem addmul1_adds:
  assumes "tables_ok T" "j < length dst"
  shows "length (addmul1 T dst src c sz) = length dst \<and>
    GF (addmul1 T dst src c sz ! j) = (if j < sz then GF (dst ! j) + GF c * GF (src ! j) else GF (dst ! j))"
proof -
  have tab: "gf_tables T" using assms(1) by (simp add: gf_tables_def)
  have "length (addmul1 T dst src c sz) = length dst"
    unfolding addmul1_plain by (simp add: fold_keeps [where g = length])
  moreover have "GF (addmul1 T dst src c sz ! j) = (if j < sz then GF (dst ! j) + GF c * GF (src ! j) else GF (dst ! j))"
    using fold_modify_nth [OF assms(2), of "\<lambda>i x. x XOR gf_mul_table T ! unat c ! unat (src ! i)" 0 sz]
    by (simp add: addmul1_plain addmulc_at_def [abs_def] GF_xor gf_tables.GF_mul_row [OF tab])
  ultimately show ?thesis by simp
qed

theorem addmul1_adds_witness:
  "GF (addmul1 fec_tabs [1, 2, 3] [4, 5, 6] 7 2 ! 1) = GF 2 + GF 7 * GF 5"
  using addmul1_adds [OF fec_tabs_ok, of 1 "[1, 2, 3]" "[4, 5, 6]" 7 2] by simp

text \<open>C30: \<open>shuffle\<close> terminates on any nonnegative indices; it never separates a packet from its
  index, it returns 1 exactly when some data packet is there twice, and otherwise every data
  packet present ends up at its own position.\<close>

theorem shuffle_places:
  assumes "length pkt = k" "length index = k" "\<forall>x\<in>set index. 0 \<le> x"
  shows "\<exists>r pkt' index'. shuffle pkt index k = Some (r, pkt', index') \<and>
    mset (zip pkt' index') = mset (zip pkt index) \<and>
    (if distinct (filter (\<lambda>x. x < int k) index)
     then r = 0 \<and> (\<forall>i<k. int k \<le> index' ! i \<or> index' ! i = int i) else r = 1)"
proof (rule shuffle_spec [of pkt index k])
  fix r pkt' index'
  assume sh: "shuffle pkt index k = Some (r, pkt', index')" "shuffled k pkt index (r, pkt', index')"
  have "mset (zip pkt' index') = mset (zip pkt index)" using sh(2) by (simp add: shuffled_def)
  then show ?thesis
    using shuffled_error [OF sh(2)] sh(1) assms by (simp only: placed_def) blast
qed (use assms in auto)

theorem shuffle_places_witness:
  "\<exists>r pkt' index'. shuffle [''a'', ''b'', ''c''] [5, 0, 1] 3 = Some (r, pkt', index') \<and>
    mset (zip pkt' index') = mset (zip [''a'', ''b'', ''c''] [5, 0, 1]) \<and>
    r = 0 \<and> (\<forall>i<3. 3 \<le> index' ! i \<or> index' ! i = int i)"
  using shuffle_places [of "[''a'', ''b'', ''c'']" 3 "[5, 0, 1]"] by simp

text \<open>C31: the division-free \<open>modnn\<close> terminates and reduces any nonnegative number modulo 255.\<close>

theorem modnn_is_mod: "unat (modnn (int n)) = n mod 255"
  by (rule unat_modnn)

text \<open>On correct tables the self-test \<open>test_gf\<close> reports one thing, the logarithm of 0, which the
  tables represent by the out-of-band value 255.\<close>

theorem test_gf_reports:
  assumes "tables_ok T"
  shows "test_gf T = [BadExpLog 0]"
proof -
  have tab: "gf_tables T" using assms by (simp add: gf_tables_def)
  have mul: "gf_mul T a b = byte_of (GF a * GF b)" for a b
    using gf_tables.GF_mul [OF tab, of a b] by (metis gf256.sel)
  define f where "f i = (if unat (gf_exp T ! nat (gf_log T ! i)) \<noteq> i then [BadExpLog i] else [])
    @ (if i \<noteq> 0 \<and> gf_mul T (of_nat i) (inverse_tab T ! i) \<noteq> 1 then [BadMulInv i] else [])
    @ (if gf_mul T 0 (of_nat i) \<noteq> 0 then [BadMulZeroLeft i] else [])
    @ (if gf_mul T (of_nat i) 0 \<noteq> 0 then [BadMulZeroRight i] else [])" for i
  have rest: "f i = []" if i: "0 < i" "i < 256" for i
  proof -
    define a where "a = (of_nat i :: u8)"
    have a: "unat a = i" "a \<noteq> 0" using i by (auto simp: a_def unat_of_nat simp flip: unat_u8_0)
    have l: "0 \<le> gf_log T ! i" "gf_log T ! i < 255" "alpha ^ nat (gf_log T ! i) = GF a"
      using assms a by (auto simp: tables_ok_def)
    then have "GF (gf_exp T ! nat (gf_log T ! i)) = GF a" by (simp add: gf_tables.GF_exp [OF tab])
    then have "gf_exp T ! nat (gf_log T ! i) = a" by simp
    moreover have "GF (inverse_tab T ! i) = inverse (GF a)"
      using gf_tables.GF_inv [OF tab, of a] a(1) by (simp add: gf_inv_def)
    then have "GF (gf_mul T a (inverse_tab T ! i)) = GF 1" using a(2) by (simp add: gf_tables.GF_mul [OF tab])
    then have "gf_mul T a (inverse_tab T ! i) = 1" by (simp only: gf256.inject)
    ultimately show ?thesis using a by (simp add: f_def mul flip: a_def)
  qed
  have "GF (gf_exp T ! 255) = GF 1" by (simp add: gf_tables.GF_exp [OF tab] alpha_255)
  then have "f 0 = [BadExpLog 0]" using assms by (simp add: f_def mul tables_ok_def)
  moreover have "concat (map f [Suc 0..<256]) = []" using rest by (simp only: concat_eq_Nil_conv set_map set_upt) auto
  moreover have "[0..<256] = 0 # [Suc 0..<256]" by (rule upt_conv_Cons) simp
  ultimately show ?thesis unfolding test_gf_def f_def [symmetric] by (simp only: list.map concat.simps append_Nil2)
qed

theorem test_gf_reports_witness: "test_gf fec_tabs = [BadExpLog 0]"
  by (rule test_gf_reports [OF fec_tabs_ok])

end
