(* ===== verification/ByteIo.thy ===== *)
theory ByteIo
  imports Prelude
begin

text \<open>
  Integers in byte arrays, \<open>byte_io.h\<close>: the templates \<open>ByteReader\<close> and \<open>ByteWriter\<close>. The type
  \<open>T\<close> of the template is a word type, its number \<open>B\<close> of bytes an argument, and a pointer
  \<open>&data[off]\<close> the array with an offset. The unsigned loops come first, then the signed class on top
  of them and the unrolled specialisations for one, two, four and eight bytes. The theory shows that
  the specialisations are the loops, and that what was written is read back.
\<close>

subsection \<open>Unsigned integers of any number of bytes\<close>

definition ReadBigEndian :: "nat \<Rightarrow> u8 list \<Rightarrow> nat \<Rightarrow> 'a :: len word" where
  "ReadBigEndian B data off = fold (\<lambda>i val. val OR push_bit ((B - 1 - i) * 8) (ucast (data ! (off + i)))) [0..<B] 0"

definition ReadLittleEndian :: "nat \<Rightarrow> u8 list \<Rightarrow> nat \<Rightarrow> 'a :: len word" where
  "ReadLittleEndian B data off = fold (\<lambda>i val. val OR push_bit (i * 8) (ucast (data ! (off + i)))) [0..<B] 0"

definition WriteBigEndian :: "nat \<Rightarrow> u8 list \<Rightarrow> nat \<Rightarrow> 'a :: len word \<Rightarrow> u8 list" where
  "WriteBigEndian B data off val = fold (\<lambda>i d. d[off + i := ucast (drop_bit ((B - 1 - i) * 8) val)]) [0..<B] data"

definition WriteLittleEndian :: "nat \<Rightarrow> u8 list \<Rightarrow> nat \<Rightarrow> 'a :: len word \<Rightarrow> u8 list" where
  "WriteLittleEndian B data off val = fold (\<lambda>i d. d[off + i := ucast (drop_bit (i * 8) val)]) [0..<B] data"

subsection \<open>Signed integers\<close>

text \<open>A signed value is an \<open>int\<close>; the unsigned type \<open>U\<close> is a word type.\<close>

definition ReinterpretAsSigned :: "'a :: len word \<Rightarrow> int" where
  "ReinterpretAsSigned unsigned_val =
     (let kUnsignedHighestBitMask = push_bit (LENGTH('a) - 1) 1;
          kSignedHighestBitMask = - (2 ^ (LENGTH('a) - 1))
      in if unsigned_val AND kUnsignedHighestBitMask \<noteq> 0
         then uint (unsigned_val AND NOT kUnsignedHighestBitMask) OR kSignedHighestBitMask
         else uint unsigned_val)"

text \<open>The literal 1 is an \<open>int\<close> of 32 bits: shifting it by 32 bits or more is undefined, the
  result \<open>None\<close>.\<close>

definition SignExtend :: "nat \<Rightarrow> 'a :: len word \<Rightarrow> 'a word option" where
  "SignExtend B val =
     (let kMsb = ucast (drop_bit ((B - 1) * 8) val) :: u8;
          shift = B mod (LENGTH('a) div 8) * 8
      in if kMsb AND 0x80 \<noteq> 0
         then if shift < 32 then Some (NOT (push_bit shift 1 - 1) OR val) else None
         else Some val)"

text \<open>The template argument \<open>TYPE('a)\<close> is the unsigned equivalent of the type that is read.\<close>

definition ReadBigEndian_signed :: "'a :: len itself \<Rightarrow> nat \<Rightarrow> u8 list \<Rightarrow> nat \<Rightarrow> int option" where
  "ReadBigEndian_signed U B data off =
     (let unsigned_val = ReadBigEndian B data off :: 'a word
      in map_option ReinterpretAsSigned
           (if B < LENGTH('a) div 8 then SignExtend B unsigned_val else Some unsigned_val))"

definition ReadLittleEndian_signed :: "'a :: len itself \<Rightarrow> nat \<Rightarrow> u8 list \<Rightarrow> nat \<Rightarrow> int option" where
  "ReadLittleEndian_signed U B data off =
     (let unsigned_val = ReadLittleEndian B data off :: 'a word
      in map_option ReinterpretAsSigned
           (if B < LENGTH('a) div 8 then SignExtend B unsigned_val else Some unsigned_val))"

definition ReinterpretAsUnsigned :: "int \<Rightarrow> 'a :: len word" where
  "ReinterpretAsUnsigned val = word_of_int val"

definition WriteBigEndian_signed :: "'a :: len itself \<Rightarrow> nat \<Rightarrow> u8 list \<Rightarrow> nat \<Rightarrow> int \<Rightarrow> u8 list" where
  "WriteBigEndian_signed U B data off val = WriteBigEndian B data off (ReinterpretAsUnsigned val :: 'a word)"

definition WriteLittleEndian_signed :: "'a :: len itself \<Rightarrow> nat \<Rightarrow> u8 list \<Rightarrow> nat \<Rightarrow> int \<Rightarrow> u8 list" where
  "WriteLittleEndian_signed U B data off val = WriteLittleEndian B data off (ReinterpretAsUnsigned val :: 'a word)"

subsection \<open>Specialisations\<close>

definition ReadBigEndian1 :: "u8 list \<Rightarrow> nat \<Rightarrow> u8" where
  "ReadBigEndian1 data off = data ! off"

definition ReadLittleEndian1 :: "u8 list \<Rightarrow> nat \<Rightarrow> u8" where
  "ReadLittleEndian1 data off = data ! off"

definition WriteBigEndian1 :: "u8 list \<Rightarrow> nat \<Rightarrow> u8 \<Rightarrow> u8 list" where
  "WriteBigEndian1 data off val = data[off := val]"

definition WriteLittleEndian1 :: "u8 list \<Rightarrow> nat \<Rightarrow> u8 \<Rightarrow> u8 list" where
  "WriteLittleEndian1 data off val = data[off := val]"

definition ReadBigEndian2 :: "u8 list \<Rightarrow> nat \<Rightarrow> 'a :: len word" where
  "ReadBigEndian2 data off = push_bit 8 (ucast (data ! off)) OR ucast (data ! (off + 1))"

definition ReadLittleEndian2 :: "u8 list \<Rightarrow> nat \<Rightarrow> 'a :: len word" where
  "ReadLittleEndian2 data off = ucast (data ! off) OR push_bit 8 (ucast (data ! (off + 1)))"

definition WriteBigEndian2 :: "u8 list \<Rightarrow> nat \<Rightarrow> 'a :: len word \<Rightarrow> u8 list" where
  "WriteBigEndian2 data off val = data[off := ucast (drop_bit 8 val), off + 1 := ucast val]"

definition WriteLittleEndian2 :: "u8 list \<Rightarrow> nat \<Rightarrow> 'a :: len word \<Rightarrow> u8 list" where
  "WriteLittleEndian2 data off val = data[off := ucast val, off + 1 := ucast (drop_bit 8 val)]"

definition ReadBigEndian4 :: "u8 list \<Rightarrow> nat \<Rightarrow> 'a :: len word" where
  "ReadBigEndian4 data off =
     push_bit 24 (ucast (data ! off)) OR push_bit 16 (ucast (data ! (off + 1))) OR
     push_bit 8 (ucast (data ! (off + 2))) OR ucast (data ! (off + 3))"

definition ReadLittleEndian4 :: "u8 list \<Rightarrow> nat \<Rightarrow> 'a :: len word" where
  "ReadLittleEndian4 data off =
     ucast (data ! off) OR push_bit 8 (ucast (data ! (off + 1))) OR
     push_bit 16 (ucast (data ! (off + 2))) OR push_bit 24 (ucast (data ! (off + 3)))"

definition WriteBigEndian4 :: "u8 list \<Rightarrow> nat \<Rightarrow> 'a :: len word \<Rightarrow> u8 list" where
  "WriteBigEndian4 data off val =
     data[off := ucast (drop_bit 24 val), off + 1 := ucast (drop_bit 16 val),
          off + 2 := ucast (drop_bit 8 val), off + 3 := ucast val]"

definition WriteLittleEndian4 :: "u8 list \<Rightarrow> nat \<Rightarrow> 'a :: len word \<Rightarrow> u8 list" where
  "WriteLittleEndian4 data off val =
     data[off := ucast val, off + 1 := ucast (drop_bit 8 val),
          off + 2 := ucast (drop_bit 16 val), off + 3 := ucast (drop_bit 24 val)]"

definition ReadBigEndian8 :: "u8 list \<Rightarrow> nat \<Rightarrow> 'a :: len word" where
  "ReadBigEndian8 data off =
     push_bit 56 (ucast (data ! off)) OR push_bit 48 (ucast (data ! (off + 1))) OR
     push_bit 40 (ucast (data ! (off + 2))) OR push_bit 32 (ucast (data ! (off + 3))) OR
     push_bit 24 (ucast (data ! (off + 4))) OR push_bit 16 (ucast (data ! (off + 5))) OR
     push_bit 8 (ucast (data ! (off + 6))) OR ucast (data ! (off + 7))"

definition ReadLittleEndian8 :: "u8 list \<Rightarrow> nat \<Rightarrow> 'a :: len word" where
  "ReadLittleEndian8 data off =
     ucast (data ! off) OR push_bit 8 (ucast (data ! (off + 1))) OR
     push_bit 16 (ucast (data ! (off + 2))) OR push_bit 24 (ucast (data ! (off + 3))) OR
     push_bit 32 (ucast (data ! (off + 4))) OR push_bit 40 (ucast (data ! (off + 5))) OR
     push_bit 48 (ucast (data ! (off + 6))) OR push_bit 56 (ucast (data ! (off + 7)))"

definition WriteBigEndian8 :: "u8 list \<Rightarrow> nat \<Rightarrow> 'a :: len word \<Rightarrow> u8 list" where
  "WriteBigEndian8 data off val =
     data[off := ucast (drop_bit 56 val), off + 1 := ucast (drop_bit 48 val),
          off + 2 := ucast (drop_bit 40 val), off + 3 := ucast (drop_bit 32 val),
          off + 4 := ucast (drop_bit 24 val), off + 5 := ucast (drop_bit 16 val),
          off + 6 := ucast (drop_bit 8 val), off + 7 := ucast val]"

definition WriteLittleEndian8 :: "u8 list \<Rightarrow> nat \<Rightarrow> 'a :: len word \<Rightarrow> u8 list" where
  "WriteLittleEndian8 data off val =
     data[off := ucast val, off + 1 := ucast (drop_bit 8 val),
          off + 2 := ucast (drop_bit 16 val), off + 3 := ucast (drop_bit 24 val),
          off + 4 := ucast (drop_bit 32 val), off + 5 := ucast (drop_bit 40 val),
          off + 6 := ucast (drop_bit 48 val), off + 7 := ucast (drop_bit 56 val)]"

subsection \<open>Bits that were read, bytes that were written\<close>

lemma bit_fold_or: "bit (fold (\<lambda>i val. val OR f i) [0..<n] 0 :: 'a :: len word) k \<longleftrightarrow> (\<exists>i<n. bit (f i) k)"
  by (induction n) (auto simp: bit_or_iff less_Suc_eq)

lemma bit_push_byte:
  "bit (push_bit (s * 8) (ucast (b :: u8)) :: 'a :: len word) k \<longleftrightarrow> k < LENGTH('a) \<and> k div 8 = s \<and> bit b (k mod 8)"
proof -
  have "bit (push_bit (s * 8) (ucast b) :: 'a word) k \<longleftrightarrow> k < LENGTH('a) \<and> s * 8 \<le> k \<and> bit b (k - s * 8)"
    by (auto simp: bit_push_bit_iff bit_unsigned_iff)
  also have "\<dots> \<longleftrightarrow> k < LENGTH('a) \<and> k div 8 = s \<and> bit b (k mod 8)"
  proof (cases "k div 8 = s")
    case True
    then have "k - s * 8 = k mod 8" "s * 8 \<le> k" by (auto simp: modulo_nat_def)
    then show ?thesis using True by simp
  next
    case False
    have "\<not> bit b (k - s * 8)" if "s * 8 \<le> k"
    proof
      assume "bit b (k - s * 8)"
      then have "k - s * 8 < 8" using bit_imp_le_length [of b] by fastforce
      moreover have "k = (k - s * 8) + s * 8" using that by simp
      ultimately have "k div 8 = (k - s * 8) div 8 + s" by (metis div_mult_self1 add.commute zero_neq_numeral)
      then show False using False \<open>k - s * 8 < 8\<close> by simp
    qed
    then show ?thesis using False by auto
  qed
  finally show ?thesis .
qed

lemma bit_ReadBigEndian:
  "bit (ReadBigEndian B data off :: 'a :: len word) k \<longleftrightarrow>
     k < LENGTH('a) \<and> k div 8 < B \<and> bit (data ! (off + (B - 1 - k div 8))) (k mod 8)"
proof -
  have "(\<exists>i<B. B - 1 - i = k div 8 \<and> bit (data ! (off + i)) (k mod 8)) \<longleftrightarrow>
      k div 8 < B \<and> bit (data ! (off + (B - 1 - k div 8))) (k mod 8)" (is "?L \<longleftrightarrow> ?R")
  proof
    assume ?L
    then obtain i where i: "i < B" "B - 1 - i = k div 8" "bit (data ! (off + i)) (k mod 8)" by blast
    then have "i = B - 1 - k div 8" "k div 8 < B" by simp_all
    then show ?R using i(3) by simp
  next
    assume ?R
    then show ?L by (intro exI [of _ "B - 1 - k div 8"]) auto
  qed
  then show ?thesis unfolding ReadBigEndian_def bit_fold_or bit_push_byte by auto
qed

lemma bit_ReadLittleEndian:
  "bit (ReadLittleEndian B data off :: 'a :: len word) k \<longleftrightarrow>
     k < LENGTH('a) \<and> k div 8 < B \<and> bit (data ! (off + k div 8)) (k mod 8)"
  unfolding ReadLittleEndian_def bit_fold_or bit_push_byte by auto

lemma WriteBigEndian_length [len_simps, simp]: "length (WriteBigEndian B data off val) = length data"
  and WriteLittleEndian_length [len_simps, simp]: "length (WriteLittleEndian B data off val) = length data"
  by (simp_all add: WriteBigEndian_def WriteLittleEndian_def fold_store_at_length)

lemma WriteBigEndian_nth:
  "j < length data \<Longrightarrow> WriteBigEndian B data off val ! j =
     (if off \<le> j \<and> j < off + B then ucast (drop_bit ((B - 1 - (j - off)) * 8) val) else data ! j)"
  unfolding WriteBigEndian_def by (rule fold_store_at)

lemma WriteLittleEndian_nth:
  "j < length data \<Longrightarrow> WriteLittleEndian B data off val ! j =
     (if off \<le> j \<and> j < off + B then ucast (drop_bit ((j - off) * 8) val) else data ! j)"
  unfolding WriteLittleEndian_def by (rule fold_store_at)

lemma bit_byte_of: "bit (ucast (drop_bit s (val :: 'a :: len word)) :: u8) j \<longleftrightarrow> j < 8 \<and> bit val (s + j)"
  by (auto simp: bit_unsigned_iff bit_drop_bit_eq)

subsection \<open>Round trips\<close>

lemma read_write_big:
  assumes "off + B \<le> length data"
  shows "ReadBigEndian B (WriteBigEndian B data off val) off = take_bit (B * 8) (val :: 'a :: len word)"
proof (rule bit_word_eqI)
  fix k assume k: "k < LENGTH('a)"
  show "bit (ReadBigEndian B (WriteBigEndian B data off val) off :: 'a word) k \<longleftrightarrow> bit (take_bit (B * 8) val) k"
  proof (cases "k div 8 < B")
    case True
    define i where "i = B - 1 - k div 8"
    have i: "off + i < length data" "i < B" "B - 1 - i = k div 8" using assms True by (simp_all add: i_def)
    then have "WriteBigEndian B data off val ! (off + (B - 1 - k div 8)) = ucast (drop_bit (k div 8 * 8) val)"
      unfolding i_def [symmetric] by (subst WriteBigEndian_nth) simp_all
    then show ?thesis using True k
      by (simp add: bit_ReadBigEndian bit_byte_of bit_take_bit_iff div_less_iff_less_mult)
  next
    case False
    then show ?thesis by (simp add: bit_ReadBigEndian bit_take_bit_iff div_less_iff_less_mult)
  qed
qed

lemma read_write_little:
  assumes "off + B \<le> length data"
  shows "ReadLittleEndian B (WriteLittleEndian B data off val) off = take_bit (B * 8) (val :: 'a :: len word)"
proof (rule bit_word_eqI)
  fix k assume k: "k < LENGTH('a)"
  show "bit (ReadLittleEndian B (WriteLittleEndian B data off val) off :: 'a word) k \<longleftrightarrow> bit (take_bit (B * 8) val) k"
  proof (cases "k div 8 < B")
    case True
    then have "k div 8 * 8 + k mod 8 = k" by simp
    then show ?thesis using True k assms
      by (simp add: bit_ReadLittleEndian WriteLittleEndian_nth bit_byte_of bit_take_bit_iff div_less_iff_less_mult)
  next
    case False
    then show ?thesis by (simp add: bit_ReadLittleEndian bit_take_bit_iff div_less_iff_less_mult)
  qed
qed

subsection \<open>The specialisations are the loops\<close>

lemma upt_2: "[0..<2] = [0, 1]" and upt_4: "[0..<4] = [0, 1, 2, 3]" and upt_8: "[0..<8] = [0, 1, 2, 3, 4, 5, 6, 7]"
  by code_simp+

lemmas byte_io_defs = ReadBigEndian_def ReadLittleEndian_def WriteBigEndian_def WriteLittleEndian_def
  ReadBigEndian1_def ReadLittleEndian1_def WriteBigEndian1_def WriteLittleEndian1_def
  ReadBigEndian2_def ReadLittleEndian2_def WriteBigEndian2_def WriteLittleEndian2_def
  ReadBigEndian4_def ReadLittleEndian4_def WriteBigEndian4_def WriteLittleEndian4_def
  ReadBigEndian8_def ReadLittleEndian8_def WriteBigEndian8_def WriteLittleEndian8_def

lemma byte_io_1:
  "ReadBigEndian1 data off = ReadBigEndian 1 data off" "ReadLittleEndian1 data off = ReadLittleEndian 1 data off"
  "WriteBigEndian1 data off v = WriteBigEndian 1 data off v" "WriteLittleEndian1 data off v = WriteLittleEndian 1 data off v"
  by (simp_all add: byte_io_defs)

lemma byte_io_2:
  "ReadBigEndian2 data off = ReadBigEndian 2 data off" "ReadLittleEndian2 data off = ReadLittleEndian 2 data off"
  "WriteBigEndian2 data off v = WriteBigEndian 2 data off v" "WriteLittleEndian2 data off v = WriteLittleEndian 2 data off v"
  by (simp_all add: byte_io_defs upt_2)

lemma byte_io_4:
  "ReadBigEndian4 data off = ReadBigEndian 4 data off" "ReadLittleEndian4 data off = ReadLittleEndian 4 data off"
  "WriteBigEndian4 data off v = WriteBigEndian 4 data off v" "WriteLittleEndian4 data off v = WriteLittleEndian 4 data off v"
  by (simp_all add: byte_io_defs upt_4 or.assoc)

lemma byte_io_8:
  "ReadBigEndian8 data off = ReadBigEndian 8 data off" "ReadLittleEndian8 data off = ReadLittleEndian 8 data off"
  "WriteBigEndian8 data off v = WriteBigEndian 8 data off v" "WriteLittleEndian8 data off v = WriteLittleEndian 8 data off v"
  by (simp_all add: byte_io_defs upt_8 or.assoc)

text \<open>The unrolled readers and writers of one, two, four and eight bytes compute what the generic
  loops compute.\<close>

theorem byte_io_specialised:
  "ReadBigEndian1 = ReadBigEndian 1 \<and> ReadLittleEndian1 = ReadLittleEndian 1 \<and>
   WriteBigEndian1 = WriteBigEndian 1 \<and> WriteLittleEndian1 = WriteLittleEndian 1 \<and>
   (ReadBigEndian2 :: u8 list \<Rightarrow> nat \<Rightarrow> 'a :: len word) = ReadBigEndian 2 \<and>
   (ReadLittleEndian2 :: u8 list \<Rightarrow> nat \<Rightarrow> 'a word) = ReadLittleEndian 2 \<and>
   (WriteBigEndian2 :: u8 list \<Rightarrow> nat \<Rightarrow> 'a word \<Rightarrow> u8 list) = WriteBigEndian 2 \<and>
   (WriteLittleEndian2 :: u8 list \<Rightarrow> nat \<Rightarrow> 'a word \<Rightarrow> u8 list) = WriteLittleEndian 2 \<and>
   (ReadBigEndian4 :: u8 list \<Rightarrow> nat \<Rightarrow> 'a word) = ReadBigEndian 4 \<and>
   (ReadLittleEndian4 :: u8 list \<Rightarrow> nat \<Rightarrow> 'a word) = ReadLittleEndian 4 \<and>
   (WriteBigEndian4 :: u8 list \<Rightarrow> nat \<Rightarrow> 'a word \<Rightarrow> u8 list) = WriteBigEndian 4 \<and>
   (WriteLittleEndian4 :: u8 list \<Rightarrow> nat \<Rightarrow> 'a word \<Rightarrow> u8 list) = WriteLittleEndian 4 \<and>
   (ReadBigEndian8 :: u8 list \<Rightarrow> nat \<Rightarrow> 'a word) = ReadBigEndian 8 \<and>
   (ReadLittleEndian8 :: u8 list \<Rightarrow> nat \<Rightarrow> 'a word) = ReadLittleEndian 8 \<and>
   (WriteBigEndian8 :: u8 list \<Rightarrow> nat \<Rightarrow> 'a word \<Rightarrow> u8 list) = WriteBigEndian 8 \<and>
   (WriteLittleEndian8 :: u8 list \<Rightarrow> nat \<Rightarrow> 'a word \<Rightarrow> u8 list) = WriteLittleEndian 8"
  by (intro conjI ext byte_io_1 byte_io_2 byte_io_4 byte_io_8)

subsection \<open>Signed values\<close>

lemma min_pred: "k < n \<Longrightarrow> min (n - 1) k = (k :: nat)" "\<not> k < n \<Longrightarrow> min (n - 1) k = n - 1"
  by simp_all

lemma ReinterpretAsSigned_sint: "ReinterpretAsSigned (u :: 'a :: len word) = sint u"
proof (rule bit_eqI)
  fix k
  have top: "u AND push_bit (LENGTH('a) - 1) 1 \<noteq> 0 \<longleftrightarrow> bit u (LENGTH('a) - 1)"
    by (auto simp: bit_eq_iff [where ?'a = "'a word"] bit_and_iff bit_exp_iff)
  have b: "bit (uint (u AND NOT (push_bit (LENGTH('a) - 1) 1)) OR - (2 ^ (LENGTH('a) - 1))) k \<longleftrightarrow>
      (if k < LENGTH('a) - 1 then bit u k else True)"
    by (auto simp: bit_or_iff bit_and_iff bit_not_iff bit_uint_iff bit_exp_iff minus_exp_eq_not_mask bit_mask_iff)
  show "bit (ReinterpretAsSigned u) k \<longleftrightarrow> bit (sint u) k"
  proof (cases "bit u (LENGTH('a) - 1)")
    case True
    then have "ReinterpretAsSigned u = uint (u AND NOT (push_bit (LENGTH('a) - 1) 1)) OR - (2 ^ (LENGTH('a) - 1))"
      using top by (simp add: ReinterpretAsSigned_def Let_def)
    then show ?thesis using b True
      by (simp only: bit_sint_iff) (cases "k < LENGTH('a)"; cases "k = LENGTH('a) - 1"; auto)
  next
    case False
    then have "ReinterpretAsSigned u = uint u" using top by (simp add: ReinterpretAsSigned_def Let_def)
    then show ?thesis using False bit_imp_le_length [of u k]
      by (simp only: bit_sint_iff bit_uint_iff) (auto simp: min_def not_le not_less less_eq_Suc_le)
  qed
qed

text \<open>Sign extension copies bit \<open>8 B - 1\<close> upwards.\<close>

lemma SignExtend_value:
  assumes "0 < B" "B < LENGTH('a) div 8" "B < 4"
  shows "SignExtend B (take_bit (B * 8) u) = Some (signed_take_bit (B * 8 - 1) (u :: 'a :: len word))"
proof -
  have len: "B * 8 \<le> LENGTH('a)" using mult_le_mono1 [of B "LENGTH('a) div 8" 8] assms(2) div_times_less_eq_dividend [of "LENGTH('a)" 8]
    by linarith
  have s: "(B - 1) * 8 + 7 = B * 8 - 1" using assms(1) by (cases B) simp_all
  have bit7: "(a :: u8) AND 0x80 \<noteq> 0 \<longleftrightarrow> bit a 7" for a
  proof -
    have "(0x80 :: u8) = 2 ^ 7" by simp
    then show ?thesis by (simp only: and_exp_eq_0_iff_not_bit not_not)
  qed
  have msb: "(ucast (drop_bit ((B - 1) * 8) (take_bit (B * 8) u)) :: u8) AND 0x80 \<noteq> 0 \<longleftrightarrow> bit u (B * 8 - 1)"
    unfolding bit7 bit_byte_of s using assms(1) by (simp add: bit_take_bit_iff)
  have m: "push_bit (B mod (LENGTH('a) div 8) * 8) 1 - 1 = (mask (B * 8) :: 'a word)"
    using assms(2) by (simp add: mask_eq_exp_minus_1)
  have sh: "B mod (LENGTH('a) div 8) * 8 < 32" using assms by simp
  show ?thesis
  proof (cases "bit u (B * 8 - 1)")
    case True
    have "NOT (mask (B * 8)) OR take_bit (B * 8) u = signed_take_bit (B * 8 - 1) u"
    proof (rule bit_word_eqI)
      fix n assume "n < LENGTH('a)"
      then show "bit (NOT (mask (B * 8)) OR take_bit (B * 8) u) n \<longleftrightarrow> bit (signed_take_bit (B * 8 - 1) u) n"
        using True len by (cases "n < B * 8")
          (simp_all add: bit_or_iff bit_not_iff bit_mask_iff bit_take_bit_iff bit_signed_take_bit_iff min_pred [unfolded One_nat_def])
    qed
    then show ?thesis using True msb sh unfolding SignExtend_def Let_def m by simp
  next
    case False
    have "take_bit (B * 8) u = signed_take_bit (B * 8 - 1) u"
    proof (rule bit_word_eqI)
      fix n assume "n < LENGTH('a)"
      then show "bit (take_bit (B * 8) u) n \<longleftrightarrow> bit (signed_take_bit (B * 8 - 1) u) n"
        using False len by (cases "n < B * 8")
          (simp_all add: bit_take_bit_iff bit_signed_take_bit_iff min_pred [unfolded One_nat_def])
    qed
    then show ?thesis using False msb unfolding SignExtend_def Let_def by simp
  qed
qed

text \<open>The numbers that \<open>B\<close> bytes can hold.\<close>

definition fits_signed :: "nat \<Rightarrow> int \<Rightarrow> bool" where
  "fits_signed B v \<longleftrightarrow> 0 < B \<and> - (2 ^ (B * 8 - 1)) \<le> v \<and> v < 2 ^ (B * 8 - 1)"

lemma fits_signed_take: "fits_signed B v \<Longrightarrow> signed_take_bit (B * 8 - 1) v = v"
  by (simp add: fits_signed_def signed_take_bit_int_eq_self)

lemma sint_signed_take:
  assumes "fits_signed B v" "B * 8 \<le> LENGTH('a)"
  shows "sint (signed_take_bit (B * 8 - 1) (word_of_int v :: 'a :: len word)) = v"
proof -
  have "sint (signed_take_bit (B * 8 - 1) (word_of_int v :: 'a word)) = signed_take_bit (B * 8 - 1) v"
    using assms by (intro bit_eqI) (auto simp: bit_sint_iff bit_signed_take_bit_iff bit_word_of_int_iff min_def fits_signed_def)
  then show ?thesis using fits_signed_take [OF assms(1)] by simp
qed

lemma signed_value:
  assumes "fits_signed B v" "8 dvd LENGTH('a)" "B * 8 \<le> LENGTH('a)" "B < 4 \<or> B * 8 = LENGTH('a)"
  shows "map_option ReinterpretAsSigned
     (if B < LENGTH('a) div 8 then SignExtend B (take_bit (B * 8) (word_of_int v :: 'a :: len word))
      else Some (take_bit (B * 8) (word_of_int v))) = Some v"
proof (cases "B * 8 = LENGTH('a)")
  case True
  then have "\<not> B < LENGTH('a) div 8" by simp
  moreover have "take_bit (B * 8) (word_of_int v :: 'a word) = signed_take_bit (B * 8 - 1) (word_of_int v)"
    using True by (intro bit_word_eqI) (simp add: bit_take_bit_iff bit_signed_take_bit_iff min_pred [unfolded One_nat_def])
  ultimately show ?thesis using sint_signed_take [OF assms(1,3)] by (simp add: ReinterpretAsSigned_sint)
next
  case False
  then have "B < LENGTH('a) div 8" "B < 4" using assms(2-4) by auto
  then show ?thesis using sint_signed_take [OF assms(1,3)] assms(1)
    by (simp add: SignExtend_value ReinterpretAsSigned_sint fits_signed_def)
qed

text \<open>C34: an unsigned integer written in either byte order is read back, reduced to the bytes it was
  given; a signed one that fits the bytes is read back exactly, through sign extension when the
  bytes are fewer than those of its type.\<close>

theorem byte_io_roundtrip:
  assumes "off + B \<le> length data" "fits_signed B v" "8 dvd LENGTH('a)" "B * 8 \<le> LENGTH('a)" "B < 4 \<or> B * 8 = LENGTH('a)"
  shows "ReadBigEndian B (WriteBigEndian B data off u) off = take_bit (B * 8) (u :: 'a :: len word) \<and>
      ReadLittleEndian B (WriteLittleEndian B data off u) off = take_bit (B * 8) u \<and>
      ReadBigEndian_signed TYPE('a) B (WriteBigEndian_signed TYPE('a) B data off v) off = Some v \<and>
      ReadLittleEndian_signed TYPE('a) B (WriteLittleEndian_signed TYPE('a) B data off v) off = Some v"
  unfolding ReadBigEndian_signed_def ReadLittleEndian_signed_def WriteBigEndian_signed_def WriteLittleEndian_signed_def
    ReinterpretAsUnsigned_def Let_def read_write_big [OF assms(1)] read_write_little [OF assms(1)]
  using assms by (intro conjI signed_value refl)

theorem byte_io_roundtrip_witness:
  "ReadBigEndian_signed TYPE(32) 3 (WriteBigEndian_signed TYPE(32) 3 [1, 2, 3, 4, 5] 1 (- 5)) 1 = Some (- 5) \<and>
   ReadBigEndian 3 (WriteBigEndian 3 [1, 2, 3, 4, 5] 1 (0x01020304 :: u32)) 1 = take_bit (3 * 8) (0x01020304 :: u32)"
proof -
  have "1 + 3 \<le> length [1, 2, 3, 4, 5 :: u8]" "fits_signed 3 (- 5)" "8 dvd LENGTH(32)" "3 * 8 \<le> LENGTH(32)" "3 < (4 :: nat) \<or> 3 * 8 = LENGTH(32)"
    by (simp_all add: fits_signed_def)
  from byte_io_roundtrip [OF this, of "0x01020304"] show ?thesis by blast
qed

end
