(* ===== verification/FecGen.thy ===== *)
theory FecGen
  imports FecProps ByteIo
begin

text \<open>
  Groups of packets around the Vandermonde erasure code: \<open>fec_gen.h\<close> and \<open>fec_gen.cpp\<close> of
  \<open>src/fec-test/sender/Transport/FEC\<close> (the copy under \<open>receiver\<close> is the same). The class \<open>FECGenerator\<close> is a record; its
  buffers are lists of 128 buffers of 1300 bytes and a pointer to one of them is its position. A call of
  the callback is a value of \<open>fec_call\<close>; an operation returns the calls it makes, in order, with the bytes the
  pointer shows at the time of the call. \<open>None\<close> is an access outside an array, for which the code has no check.
  The tables of the library are the argument \<open>T\<close>.
\<close>

subsection \<open>The class\<close>

definition kMaxN :: nat where [simp]: "kMaxN = 128"
definition MAX_FEC_PACKET_SIZE :: nat where [simp]: "MAX_FEC_PACKET_SIZE = 1300"

definition int16 :: "int \<Rightarrow> int" where
  "int16 x = (x + 2 ^ 15) mod 2 ^ 16 - 2 ^ 15"

record fec_call =
  call_group :: u64
  call_k :: int
  call_n :: int
  call_index :: int
  call_data :: "u8 list"

record FECGenerator =
  fg_code :: fec_parms
  fec_k :: int
  fec_n :: int
  packet_size :: int
  last_packet_size :: int
  packet_count :: int
  raw_packet_count :: int
  input_data :: "u8 list list"
  output_data :: "u8 list list"
  used_marks :: "bool list"
  last_group_id :: u32

text \<open>What a new buffer holds is an argument.\<close>

definition new_buffers :: "(nat \<Rightarrow> u8 list) \<Rightarrow> u8 list list" where
  "new_buffers mem = map (\<lambda>i. take MAX_FEC_PACKET_SIZE (mem i @ replicate MAX_FEC_PACKET_SIZE 0)) [0..<kMaxN]"

text \<open>The constructor, with the new tables; \<open>None\<close> when the assertion fails.\<close>

definition new_FECGenerator :: "fec_state \<Rightarrow> int \<Rightarrow> int \<Rightarrow> int \<Rightarrow> u64 \<Rightarrow> (nat \<Rightarrow> u8 list) \<Rightarrow> (nat \<Rightarrow> u8 list) \<Rightarrow>
    (fec_state \<times> FECGenerator) option" where
  "new_FECGenerator T k n packetSize addr mem mem' =
     (case fec_new T k n addr of
        (T, NewOk code) \<Rightarrow> Some (T, \<lparr>fg_code = code, fec_k = int16 k, fec_n = int16 n,
          packet_size = int16 packetSize, last_packet_size = int16 packetSize, packet_count = 0, raw_packet_count = 0,
          input_data = new_buffers mem, output_data = new_buffers mem', used_marks = replicate kMaxN False, last_group_id = 0\<rparr>)
      | _ \<Rightarrow> None)"

definition Clear :: "FECGenerator \<Rightarrow> FECGenerator" where
  "Clear g = g\<lparr>packet_count := 0, raw_packet_count := 0, used_marks := replicate kMaxN False\<rparr>"

text \<open>Whether the length the codec is called with lies in the buffers.\<close>

definition size_ok :: "int \<Rightarrow> bool" where
  "size_ok sz \<longleftrightarrow> 0 \<le> sz \<and> sz \<le> int MAX_FEC_PACKET_SIZE"

subsection \<open>Encoding\<close>

definition encode_raw :: "fec_state \<Rightarrow> u8 list \<Rightarrow> FECGenerator \<Rightarrow> (FECGenerator \<times> fec_call list) option" where
  "encode_raw T data g =
     (let i = nat (packet_count g)
      in if kMaxN \<le> i \<or> MAX_FEC_PACKET_SIZE < length data then None
         else
           let g = g\<lparr>input_data := (input_data g)[i := put_slice 0 data (input_data g ! i)]\<rparr>
           in case fec_encode T (fg_code g) (input_data g) (output_data g ! i) (packet_count g) (length data) of
                None \<Rightarrow> None
              | Some buf \<Rightarrow>
                  Some (g\<lparr>output_data := (output_data g)[i := buf], packet_count := int16 (packet_count g + 1),
                          raw_packet_count := int16 (raw_packet_count g + 1)\<rparr>,
                        [\<lparr>call_group = ucast (last_group_id g), call_k = fec_k g, call_n = fec_n g,
                          call_index = packet_count g, call_data = take (length data) buf\<rparr>]))"

fun encode_redundant :: "fec_state \<Rightarrow> nat list \<Rightarrow> FECGenerator \<Rightarrow> (FECGenerator \<times> fec_call list) option" where
  "encode_redundant T [] g = Some (g, [])"
| "encode_redundant T (i # is) g =
     (if kMaxN \<le> i \<or> \<not> size_ok (packet_size g) then None
      else case fec_encode T (fg_code g) (input_data g) (output_data g ! i) (int i) (nat (packet_size g)) of
          None \<Rightarrow> None
        | Some buf \<Rightarrow>
            (case encode_redundant T is
                (g\<lparr>output_data := (output_data g)[i := buf], packet_count := int16 (packet_count g + 1)\<rparr>) of
               None \<Rightarrow> None
             | Some (g', out) \<Rightarrow>
                 Some (g', \<lparr>call_group = ucast (last_group_id g), call_k = fec_k g, call_n = fec_n g,
                            call_index = int i, call_data = take (nat (packet_size g)) buf\<rparr> # out)))"

definition Encode :: "fec_state \<Rightarrow> u8 list \<Rightarrow> FECGenerator \<Rightarrow> (FECGenerator \<times> fec_call list) option" where
  "Encode T data g =
     (case (if packet_count g < fec_k g then encode_raw T data g else Some (g, [])) of
        None \<Rightarrow> None
      | Some (g, out) \<Rightarrow>
          if packet_count g < fec_k g then Some (g, out)
          else (case encode_redundant T [nat (fec_k g)..<nat (fec_n g)] g of
              None \<Rightarrow> None
            | Some (g, out') \<Rightarrow> Some (Clear (g\<lparr>last_group_id := last_group_id g + 1\<rparr>), out @ out')))"

subsection \<open>Decoding\<close>

text \<open>The header of an FEC packet, in the order of the host.\<close>

record TESTFECHeader =
  fech_type :: u16
  fech_length :: u32
  fech_k :: u16
  fech_n :: u16
  fech_index :: u16
  fech_group_id :: u32
  fech_sequence :: u16
  fech_packet_size :: u16
  fech_last_packet_size :: u16
  fech_is_last_packet :: u16

definition read_fec_header :: "u8 list \<Rightarrow> TESTFECHeader" where
  "read_fec_header b = \<lparr>fech_type = ReadBigEndian2 b 0, fech_length = ReadBigEndian4 b 4, fech_k = ReadBigEndian2 b 10,
     fech_n = ReadBigEndian2 b 12, fech_index = ReadBigEndian2 b 14, fech_group_id = ReadBigEndian4 b 16,
     fech_sequence = ReadBigEndian2 b 20, fech_packet_size = ReadBigEndian2 b 22, fech_last_packet_size = ReadBigEndian2 b 24,
     fech_is_last_packet = ReadBigEndian2 b 26\<rparr>"

text \<open>A packet seen for the first time is stored, and an original is passed on.\<close>

definition store_packet :: "TESTFECHeader \<Rightarrow> u8 list \<Rightarrow> FECGenerator \<Rightarrow> (FECGenerator \<times> fec_call list) option" where
  "store_packet h data g =
     (let i = unat (fech_index h); len = unat (fech_length h)
      in if kMaxN \<le> i then None
         else if used_marks g ! i then Some (g, [])
         else if MAX_FEC_PACKET_SIZE < len \<or> length data < len then None
         else
           let g = g\<lparr>input_data := (input_data g)[i := put_slice 0 (take len data) (input_data g ! i)],
                     used_marks := (used_marks g)[i := True]\<rparr>;
               (g, out) =
                 if int i < fec_k g
                 then (g\<lparr>raw_packet_count := int16 (raw_packet_count g + 1)\<rparr>,
                       [\<lparr>call_group = ucast (last_group_id g), call_k = int16 (uint (fech_k h)), call_n = int16 (uint (fech_n h)),
                         call_index = int16 (uint (fech_index h)), call_data = take len data\<rparr>])
                 else (g, [])
           in Some (g\<lparr>packet_count := int16 (packet_count g + 1)\<rparr>, out))"

text \<open>The received originals in their places, then a received redundant packet in every place left.\<close>

type_synonym plan = "bool list \<times> nat option list \<times> int list"

definition place_originals :: "nat \<Rightarrow> plan \<Rightarrow> plan" where
  "place_originals k = fold (\<lambda>i (marks, recovery, index).
     if marks ! i then (marks, recovery[i := Some i], index[i := int i]) else (marks, recovery, index)) [0..<k]"

definition place_redundant :: "nat \<Rightarrow> nat \<Rightarrow> plan \<Rightarrow> plan" where
  "place_redundant k n = fold (\<lambda>i (marks, recovery, index).
     if marks ! i then (marks, recovery, index)
     else case List.find (\<lambda>j. marks ! j) [k..<n] of
         None \<Rightarrow> (marks, recovery, index)
       | Some j \<Rightarrow> (marks[j := False, i := True], recovery[i := Some j], index[i := int j])) [0..<k]"

definition recovery_plan :: "nat \<Rightarrow> nat \<Rightarrow> bool list \<Rightarrow> plan" where
  "recovery_plan k n used = place_redundant k n (place_originals k (used, replicate kMaxN None, replicate kMaxN 0))"

text \<open>Decoding writes the recovered packets into the buffers of the redundant packets. The result of
  \<open>fec_decode\<close> is not looked at.\<close>

definition recover_group :: "fec_state \<Rightarrow> FECGenerator \<Rightarrow> (FECGenerator \<times> fec_call list) option" where
  "recover_group T g =
     (let k = nat (fec_k g); n = nat (fec_n g); sz = nat (packet_size g)
      in if kMaxN < k \<or> kMaxN < n then None
         else
           let (marks, recovery, index) = recovery_plan k n (used_marks g)
           in if \<exists>i<k. recovery ! i = None \<or> \<not> marks ! i then Some (g, [])
              else if \<not> size_ok (packet_size g) then None
              else
                let ptr = map (\<lambda>i. the (recovery ! i)) [0..<k]; index = take k index
                in case (shuffle ptr index k, fec_decode T (fg_code g) (map ((!) (input_data g)) ptr) index sz) of
                     (Some (_, ptr, _), Some (_, pkt, index)) \<Rightarrow>
                       let lost = filter (\<lambda>i. index ! i \<noteq> int i) [0..<k]
                       in Some (g\<lparr>input_data := fold (\<lambda>i inp. inp[ptr ! i := pkt ! i]) [0..<k] (input_data g),
                                  raw_packet_count := int16 (raw_packet_count g + int (length lost)),
                                  packet_count := int16 (packet_count g + int (length lost))\<rparr>,
                                map (\<lambda>i. \<lparr>call_group = ucast (last_group_id g), call_k = fec_k g, call_n = fec_n g,
                                          call_index = int i, call_data = take sz (pkt ! i)\<rparr>) lost)
                   | _ \<Rightarrow> None)"

definition Decode :: "fec_state \<Rightarrow> TESTFECHeader \<Rightarrow> u8 list \<Rightarrow> FECGenerator \<Rightarrow> (FECGenerator \<times> fec_call list) option" where
  "Decode T h decoded_data g =
     (let g = g\<lparr>last_packet_size := int16 (uint (fech_last_packet_size h))\<rparr>;
          g = if fech_group_id h \<noteq> last_group_id g then (Clear g)\<lparr>last_group_id := fech_group_id h\<rparr> else g
      in case store_packet h decoded_data g of
           None \<Rightarrow> None
         | Some (g, out) \<Rightarrow>
             if packet_count g < fec_k g then Some (g, out)
             else if raw_packet_count g = fec_k g then Some (g, out)
             else (case recover_group T g of None \<Rightarrow> None | Some (g, out') \<Rightarrow> Some (g, out @ out')))"

subsection \<open>The codec on longer buffers\<close>

lemma take_put_slice_0: "length r \<le> sz \<Longrightarrow> take sz (put_slice 0 r xs) = r @ take (sz - length r) (drop (length r) xs)"
  by (simp add: put_slice_def)

lemma take_put_all [simp]: "length r = sz \<Longrightarrow> take sz (put_slice 0 r xs) = r"
  by (simp add: put_slice_def)

context gf_tables
begin

lemma take_accumulate:
  assumes "sz \<le> length dst" "m \<le> length pkt"
  shows "take sz (accumulate T pkt coef m sz dst) = accumulate T (map (take sz) pkt) coef m sz (take sz dst)"
proof (rule nth_equalityI)
  fix b assume "b < length (take sz (accumulate T pkt coef m sz dst))"
  then have b: "b < sz" "b < length dst" "b < length (take sz dst)" using assms by simp_all
  have "GF (accumulate T pkt coef m sz dst ! b) = GF (accumulate T (map (take sz) pkt) coef m sz (take sz dst) ! b)"
    using assms(2) by (simp add: accumulate_nth(1) [OF b(2,1)] accumulate_nth(1) [OF b(3,1)] b(1))
  then show "take sz (accumulate T pkt coef m sz dst) ! b = accumulate T (map (take sz) pkt) coef m sz (take sz dst) ! b"
    using b by simp
qed simp

lemma fec_encode_long:
  assumes code: "code_ok T k n code" and bufs: "k \<le> length bufs" "\<And>i. i < k \<Longrightarrow> sz \<le> length (bufs ! i)"
    and fec: "sz \<le> length fec" and i: "i < n"
  obtains buf where "fec_encode T code bufs fec (int i) sz = Some buf" "length buf = length fec"
    "take sz buf = fec_packet T code sz (map (take sz) (take k bufs)) i"
proof (cases "i < k")
  case True
  have "fec_encode T code bufs fec (int i) sz = Some (put_slice 0 (take sz (bufs ! i)) fec)"
    using True code by (simp add: fec_encode_def code_ok_def)
  moreover have "fec_packet T code sz (map (take sz) (take k bufs)) i = take sz (bufs ! i)"
    using True code bufs by (simp add: fec_packet_def fec_encode_def code_ok_def put_slice_all)
  ultimately show thesis using bufs(2) [OF True] fec that by simp
next
  case False
  define coef where "coef j = enc_matrix code ! (i * k + j)" for j
  define dst where "dst = put_slice 0 (replicate sz 0) fec"
  have dst: "length dst = length fec" "take sz dst = replicate sz 0" using fec by (simp_all add: dst_def)
  have "fec_encode T code bufs fec (int i) sz = Some (accumulate T bufs coef k sz dst)"
    using False i code by (simp add: fec_encode_def code_ok_def coef_def [abs_def] dst_def)
  moreover have "take sz (accumulate T bufs coef k sz dst) = accumulate T (map (take sz) bufs) coef k sz (replicate sz 0)"
    using take_accumulate [of sz dst k bufs coef] fec bufs dst by simp
  moreover have "\<dots> = accumulate T (map (take sz) (take k bufs)) coef k sz (replicate sz 0)"
    unfolding accumulate_def using bufs(1) by (intro fold_cong) simp_all
  moreover have "fec_packet T code sz (map (take sz) (take k bufs)) i = \<dots>"
    using False i code by (simp add: fec_packet_def fec_encode_def code_ok_def coef_def [abs_def] put_slice_all)
  ultimately show thesis using dst by (intro that) simp_all
qed

end

text \<open>When the indices are in place already, \<open>shuffle\<close> does nothing.\<close>

lemma shuffle_placed:
  assumes "placed k index" "k \<le> length index" "k \<le> length pkt"
  shows "shuffle pkt index k = Some (0, pkt, index)"
proof -
  have "shuffle_loop k i pkt index = Some (0, pkt, index)" if "i \<le> k" for i
    using that assms
  proof (induction "k - i" arbitrary: i)
    case 0
    then show ?case by (simp add: shuffle_loop.simps)
  next
    case (Suc d)
    then show ?case by (subst shuffle_loop.simps) (auto simp: placed_def)
  qed
  then show ?thesis by (simp add: shuffle_def)
qed

lemma fec_decode_long:
  assumes tab: "tables_ok T" and k: "nat (fp_k code) = k"
    and ix: "placed k index" "length index = k" "length pkt = k" "\<And>i. i < k \<Longrightarrow> sz \<le> length (pkt ! i)"
    and dec: "fec_decode T code (map (take sz) pkt) index sz = Some (0, src, index')" "length src = k"
  shows "\<exists>pkt'. fec_decode T code pkt index sz = Some (0, pkt', index) \<and> length pkt' = k \<and>
    (\<forall>i<k. take sz (pkt' ! i) = src ! i \<and> length (pkt' ! i) = length (pkt ! i))"
proof -
  have g: "gf_tables T" using tab by (simp add: gf_tables_def)
  have sh: "shuffle pkt index k = Some (0, pkt, index)" "shuffle (map (take sz) pkt) index k = Some (0, map (take sz) pkt, index)"
    using ix by (simp_all add: shuffle_placed)
  show ?thesis
  proof (cases "build_decode_matrix T code index")
    case None
    then show ?thesis using dec sh(2) k by (simp add: fec_decode_def)
  next
    case (Some m)
    define buf where "buf row = accumulate T pkt (\<lambda>col. m ! (row * k + col)) k sz (replicate sz 0)" for row
    have short: "accumulate T (map (take sz) pkt) (\<lambda>col. m ! (row * k + col)) k sz (replicate sz 0) = buf row" for row
      using gf_tables.take_accumulate [OF g, of sz "replicate sz 0" k pkt] ix(3) by (simp add: buf_def)
    define new where "new = map (\<lambda>row. if fp_k code \<le> index ! row then Some (buf row) else None) [0..<k]"
    define stored where "stored p = fold (\<lambda>row pkt. case new ! row of
        Some buf \<Rightarrow> pkt[row := put_slice 0 (take sz buf) (pkt ! row)] | None \<Rightarrow> pkt) [0..<k] p" for p
    have d: "fec_decode T code pkt index sz = Some (0, stored pkt, index)"
      "fec_decode T code (map (take sz) pkt) index sz = Some (0, stored (map (take sz) pkt), index)"
      unfolding fec_decode_def stored_def new_def
      by (simp_all only: sh Some short Let_def buf_def [symmetric] option.case prod.case k simp_thms if_False)
    define f where "f row x = (if fp_k code \<le> index ! row then put_slice 0 (take sz (buf row)) x else x)" for row x
    have w: "stored p = fold (\<lambda>row p. p[row := f row (p ! row)]) [0..<k] p" for p
      unfolding stored_def by (rule fold_cong) (auto simp: f_def new_def fun_eq_iff)
    have nth: "stored p ! i = f i (p ! i)" "length (stored p) = length p" if "i < k" "length p = k" for p i
      unfolding w using that fold_modify_nth [of i p f 0 k] by simp_all
    have lb: "length (buf row) = sz" for row by (simp add: buf_def)
    have "take sz (f i (pkt ! i)) = f i (take sz (pkt ! i))" "length (f i (pkt ! i)) = length (pkt ! i)" if "i < k" for i
      using ix(4) [OF that] lb by (auto simp: f_def put_slice_all)
    moreover have "src = stored (map (take sz) pkt)" using dec(1) d(2) by simp
    ultimately show ?thesis using d(1) nth ix(3) by (intro exI [of _ "stored pkt"]) (cases "k = 0"; auto simp: w)
  qed
qed

subsection \<open>A generator in order\<close>

definition gen_ok :: "fec_state \<Rightarrow> nat \<Rightarrow> nat \<Rightarrow> nat \<Rightarrow> FECGenerator \<Rightarrow> bool" where
  "gen_ok T k n sz g \<longleftrightarrow> code_ok T k n (fg_code g) \<and> n \<le> 128 \<and> sz \<le> 1300 \<and>
     fec_k g = int k \<and> fec_n g = int n \<and> packet_size g = int sz \<and>
     length (input_data g) = 128 \<and> (\<forall>b \<in> set (input_data g). length b = 1300) \<and>
     length (output_data g) = 128 \<and> (\<forall>b \<in> set (output_data g). length b = 1300) \<and> length (used_marks g) = 128"

lemma gen_okD:
  assumes "gen_ok T k n sz g"
  shows "code_ok T k n (fg_code g)" "0 < k" "k \<le> n" "n \<le> 128" "sz \<le> 1300" "fec_k g = int k" "fec_n g = int n" "packet_size g = int sz"
    "length (input_data g) = 128" "length (output_data g) = 128" "length (used_marks g) = 128"
    "i < 128 \<Longrightarrow> length (input_data g ! i) = 1300" "i < 128 \<Longrightarrow> length (output_data g ! i) = 1300"
  using assms by (auto simp: gen_ok_def code_ok_def)

lemma int16_small: "- 32768 \<le> x \<Longrightarrow> x < 32768 \<Longrightarrow> int16 x = x"
  by (simp add: int16_def)

lemma new_buffers_ok: "length (new_buffers mem) = 128" "\<forall>b \<in> set (new_buffers mem). length b = 1300"
  by (auto simp: new_buffers_def)

lemma new_FECGenerator_ok:
  assumes "new_FECGenerator T0 (int k) (int n) (int sz) addr mem mem' = Some (T, g)" "fec_ready T0" "n \<le> 128" "sz \<le> 1300"
  shows "tables_ok T" "gen_ok T k n sz g" "packet_count g = 0" "raw_packet_count g = 0" "used_marks g = replicate 128 False" "last_group_id g = 0"
proof -
  obtain code where new: "fec_new T0 (int k) (int n) addr = (T, NewOk code)"
    using assms(1) by (auto simp: new_FECGenerator_def split: prod.splits fec_new_result.splits)
  have code: "tables_ok T" "code_ok T k n code" using fec_new_ready [OF new assms(2)] by simp_all
  then have kn: "k \<le> n" by (simp add: code_ok_def)
  then show "tables_ok T" "gen_ok T k n sz g" "packet_count g = 0" "raw_packet_count g = 0"
    "used_marks g = replicate 128 False" "last_group_id g = 0"
    using assms code new_buffers_ok by (auto simp: new_FECGenerator_def new gen_ok_def int16_small)
qed

lemma gen_ok_counts [simp]:
  "gen_ok T k n sz (g\<lparr>packet_count := x\<rparr>) = gen_ok T k n sz g"
  "gen_ok T k n sz (g\<lparr>raw_packet_count := x\<rparr>) = gen_ok T k n sz g"
  "gen_ok T k n sz (g\<lparr>last_group_id := y\<rparr>) = gen_ok T k n sz g"
  "gen_ok T k n sz (g\<lparr>last_packet_size := x\<rparr>) = gen_ok T k n sz g"
  by (simp_all add: gen_ok_def)

lemma gen_ok_marks: "gen_ok T k n sz g \<Longrightarrow> length m = 128 \<Longrightarrow> gen_ok T k n sz (g\<lparr>used_marks := m\<rparr>)"
  by (simp add: gen_ok_def)

lemma gen_ok_input: "gen_ok T k n sz g \<Longrightarrow> length b = 1300 \<Longrightarrow> gen_ok T k n sz (g\<lparr>input_data := (input_data g)[i := b]\<rparr>)"
  unfolding gen_ok_def by (auto dest!: subsetD [OF set_update_subset_insert])

lemma gen_ok_output: "gen_ok T k n sz g \<Longrightarrow> length b = 1300 \<Longrightarrow> gen_ok T k n sz (g\<lparr>output_data := (output_data g)[i := b]\<rparr>)"
  unfolding gen_ok_def by (auto dest!: subsetD [OF set_update_subset_insert])

lemma gen_ok_Clear: "gen_ok T k n sz g \<Longrightarrow> gen_ok T k n sz (Clear g)"
  by (simp add: gen_ok_def Clear_def)

subsection \<open>A group is encoded\<close>

text \<open>The packets of a group, one call of \<open>Encode\<close> after the other.\<close>

fun encode_all :: "fec_state \<Rightarrow> u8 list list \<Rightarrow> FECGenerator \<Rightarrow> (FECGenerator \<times> fec_call list) option" where
  "encode_all T [] g = Some (g, [])"
| "encode_all T (d # ds) g =
     (case Encode T d g of None \<Rightarrow> None
      | Some (g, out) \<Rightarrow> (case encode_all T ds g of None \<Rightarrow> None | Some (g, out') \<Rightarrow> Some (g, out @ out')))"

definition group_call :: "u32 \<Rightarrow> nat \<Rightarrow> nat \<Rightarrow> (nat \<Rightarrow> u8 list) \<Rightarrow> nat \<Rightarrow> fec_call" where
  "group_call gid k n data i = \<lparr>call_group = ucast gid, call_k = int k, call_n = int n, call_index = int i, call_data = data i\<rparr>"

lemma encode_redundant_spec:
  assumes "tables_ok T"
  shows "gen_ok T k n sz g \<Longrightarrow> set is \<subseteq> {..<n} \<Longrightarrow>
    \<exists>g'. encode_redundant T is g = Some (g', map (group_call (last_group_id g) k n
        (fec_packet T (fg_code g) sz (map (take sz) (take k (input_data g))))) is) \<and>
      gen_ok T k n sz g' \<and> last_group_id g' = last_group_id g \<and> fg_code g' = fg_code g"
proof (induction "is" arbitrary: g)
  case (Cons i "is")
  note ok = gen_okD [OF Cons.prems(1)]
  have g: "gf_tables T" using assms by (simp add: gf_tables_def)
  have i: "i < n" "i < 128" using Cons.prems(2) ok(4) by auto
  obtain buf where buf: "fec_encode T (fg_code g) (input_data g) (output_data g ! i) (int i) sz = Some buf"
    "length buf = 1300" "take sz buf = fec_packet T (fg_code g) sz (map (take sz) (take k (input_data g))) i"
    by (rule gf_tables.fec_encode_long [OF g ok(1), of "input_data g" sz "output_data g ! i" i])
      (use ok i in auto)
  define g1 where "g1 = g\<lparr>output_data := (output_data g)[i := buf], packet_count := int16 (packet_count g + 1)\<rparr>"
  have g1: "gen_ok T k n sz g1" "last_group_id g1 = last_group_id g" "fg_code g1 = fg_code g" "input_data g1 = input_data g"
    using gen_ok_output [OF Cons.prems(1) buf(2)] by (simp_all add: g1_def)
  show ?case using Cons.IH [OF g1(1)] Cons.prems(2) buf i ok g1(2-4)
    by (auto simp: g1_def [symmetric] size_ok_def group_call_def)
qed simp

definition encoded :: "fec_state \<Rightarrow> nat \<Rightarrow> nat \<Rightarrow> nat \<Rightarrow> u8 list list \<Rightarrow> nat \<Rightarrow> FECGenerator \<Rightarrow> bool" where
  "encoded T k n sz src m g \<longleftrightarrow> gen_ok T k n sz g \<and> packet_count g = int m \<and> (\<forall>i<m. take sz (input_data g ! i) = src ! i)"

lemma encode_raw_spec:
  assumes enc: "encoded T k n sz src m g" and src: "packets_ok k sz src" "m < k"
  shows "\<exists>g'. encode_raw T (src ! m) g = Some (g', [group_call (last_group_id g) k n (\<lambda>i. src ! i) m]) \<and>
    encoded T k n sz src (Suc m) g' \<and> last_group_id g' = last_group_id g \<and> fg_code g' = fg_code g"
proof -
  have gen: "gen_ok T k n sz g" and pc: "packet_count g = int m" and old: "\<forall>i<m. take sz (input_data g ! i) = src ! i"
    using enc by (simp_all add: encoded_def)
  note ok = gen_okD [OF gen]
  have m: "m < 128" using src(2) ok(3,4) by simp
  have len: "length (src ! m) = sz" using packets_ok_nth [OF src] .
  define data where "data = put_slice 0 (src ! m) (input_data g ! m)"
  define buf where "buf = put_slice 0 (src ! m) (output_data g ! m)"
  have data: "length data = 1300" "take sz data = src ! m" using len ok(5,12) m by (simp_all add: data_def)
  have buf: "length buf = 1300" "take sz buf = src ! m" using len ok(5,13) m by (simp_all add: buf_def)
  have "fec_encode T (fg_code g) ((input_data g)[m := data]) (output_data g ! m) (int m) sz = Some buf"
    using ok(1) src(2) ok(9) m data by (simp add: fec_encode_def code_ok_def buf_def)
  moreover define g' where "g' = g\<lparr>input_data := (input_data g)[m := data], output_data := (output_data g)[m := buf],
    packet_count := int16 (int m + 1), raw_packet_count := int16 (raw_packet_count g + 1)\<rparr>"
  ultimately have "encode_raw T (src ! m) g = Some (g', [group_call (last_group_id g) k n (\<lambda>i. src ! i) m])"
    using m len ok buf pc by (simp add: encode_raw_def data_def g'_def group_call_def)
  moreover have "gen_ok T k n sz g'"
    using gen_ok_output [OF gen_ok_input [OF gen data(1), of m] buf(1), of m] by (simp add: g'_def)
  moreover have "packet_count g' = int (Suc m)" using m by (simp add: g'_def int16_small)
  moreover have "take sz (input_data g' ! i) = src ! i" if "i < Suc m" for i
    using that old data(2) m ok(9) by (cases "i = m") (simp_all add: g'_def)
  ultimately show ?thesis by (intro exI [of _ g']) (simp add: encoded_def, simp add: g'_def)
qed

lemma fec_packet_code: "code_ok T k n code \<Longrightarrow> code_ok T k n code' \<Longrightarrow> fec_packet T code = fec_packet T code'"
  by (simp add: fec_packet_def fec_encode_def code_ok_def fun_eq_iff)

lemma fec_packet_original:
  "code_ok T k n code \<Longrightarrow> packets_ok k sz src \<Longrightarrow> i < k \<Longrightarrow> fec_packet T code sz src i = src ! i"
  using packets_ok_nth [of k sz src i] by (simp add: fec_packet_def fec_encode_def code_ok_def put_slice_all)

lemma encode_step:
  assumes enc: "encoded T k n sz src m g" and tab: "tables_ok T" and src: "packets_ok k sz src" "m < k"
  shows "\<exists>g'. last_group_id g' = last_group_id g + (if Suc m = k then 1 else 0) \<and> fg_code g' = fg_code g \<and>
    encoded T k n sz src (if Suc m = k then 0 else Suc m) g' \<and>
    Encode T (src ! m) g = Some (g', map (group_call (last_group_id g) k n (fec_packet T (fg_code g) sz src))
      (if Suc m = k then [m..<n] else [m]))"
proof -
  obtain g1 where g1: "encode_raw T (src ! m) g = Some (g1, [group_call (last_group_id g) k n (\<lambda>i. src ! i) m])"
    "encoded T k n sz src (Suc m) g1" "last_group_id g1 = last_group_id g" "fg_code g1 = fg_code g"
    using encode_raw_spec [OF enc src] by blast
  have gen: "gen_ok T k n sz g" "packet_count g = int m" using enc by (simp_all add: encoded_def)
  have gen1: "gen_ok T k n sz g1" "packet_count g1 = int (Suc m)" "\<forall>i<Suc m. take sz (input_data g1 ! i) = src ! i"
    using g1(2) by (simp_all add: encoded_def)
  note ok = gen_okD [OF gen(1)] and ok1 = gen_okD [OF gen1(1)]
  have raw: "group_call gid k n (\<lambda>i. src ! i) m = group_call gid k n (fec_packet T (fg_code g) sz src) m" for gid
    using fec_packet_original [OF ok(1) src] by (simp add: group_call_def)
  show ?thesis
  proof (cases "Suc m = k")
    case False
    then show ?thesis using g1 gen gen1 ok ok1 src(2) raw by (intro exI [of _ g1]) (simp add: Encode_def)
  next
    case True
    have "map (take sz) (take k (input_data g1)) = src"
      using gen1(3) ok1(3,4,9) True src(1) by (intro nth_equalityI) (simp_all add: packets_ok_def)
    moreover have "set [k..<n] \<subseteq> {..<n}" by auto
    ultimately obtain g2 where g2: "encode_redundant T [k..<n] g1 =
        Some (g2, map (group_call (last_group_id g) k n (fec_packet T (fg_code g) sz src)) [k..<n])"
      "gen_ok T k n sz g2" "last_group_id g2 = last_group_id g" "fg_code g2 = fg_code g"
      using encode_redundant_spec [OF tab gen1(1), of "[k..<n]"] g1(3,4) by auto
    have upt: "[m..<n] = m # [k..<n]" using True ok(3) by (simp add: upt_conv_Cons)
    have "encoded T k n sz src 0 (Clear (g2\<lparr>last_group_id := last_group_id g2 + 1\<rparr>))"
      using gen_ok_Clear [of T k n sz "g2\<lparr>last_group_id := last_group_id g2 + 1\<rparr>"] g2(2) by (simp add: encoded_def Clear_def)
    then show ?thesis using g1 gen gen1(2) ok ok1 True g2 raw upt
      by (intro exI [of _ "Clear (g2\<lparr>last_group_id := last_group_id g2 + 1\<rparr>)"]) (simp add: Encode_def Clear_def)
  qed
qed

text \<open>All \<open>n\<close> packets of the group are passed to the callback, in order, and the generator is ready for the next group.\<close>

lemma encode_group:
  assumes gen: "gen_ok T k n sz g" "packet_count g = 0" and tab: "tables_ok T" and src: "packets_ok k sz src"
  shows "\<exists>g'. encode_all T src g = Some (g', map (group_call (last_group_id g) k n (fec_packet T (fg_code g) sz src)) [0..<n]) \<and>
    gen_ok T k n sz g' \<and> packet_count g' = 0 \<and> last_group_id g' = last_group_id g + 1"
proof -
  have k: "0 < k" "k \<le> n" and len: "length src = k" using gen_okD(2,3) [OF gen(1)] src by (simp_all add: packets_ok_def)
  let ?call = "\<lambda>gid code. group_call gid k n (fec_packet T code sz src)"
  have "\<exists>g'. encode_all T (drop m src) g = Some (g', map (?call (last_group_id g) (fg_code g)) [m..<n]) \<and>
      gen_ok T k n sz g' \<and> packet_count g' = 0 \<and> last_group_id g' = last_group_id g + 1"
    if "encoded T k n sz src m g" "m < k" for m g
    using that
  proof (induction "k - m" arbitrary: m g)
    case (Suc d)
    obtain g1 where g1: "last_group_id g1 = last_group_id g + (if Suc m = k then 1 else 0)" "fg_code g1 = fg_code g"
      "encoded T k n sz src (if Suc m = k then 0 else Suc m) g1"
      "Encode T (src ! m) g = Some (g1, map (?call (last_group_id g) (fg_code g)) (if Suc m = k then [m..<n] else [m]))"
      using encode_step [OF Suc.prems(1) tab src Suc.prems(2)] by blast
    have dr: "drop m src = src ! m # drop (Suc m) src" using Suc.prems(2) len by (simp add: Cons_nth_drop_Suc)
    show ?case
    proof (cases "Suc m = k")
      case True
      then show ?thesis using g1 dr len by (auto simp: encoded_def)
    next
      case False
      then have "Suc m < k" "d = k - Suc m" using Suc.prems(2) Suc.hyps(2) by simp_all
      moreover have "[m..<n] = m # [Suc m..<n]" using Suc.prems(2) k(2) by (simp add: upt_conv_Cons)
      ultimately show ?thesis using Suc.hyps(1) [of "Suc m" g1] g1 False dr by auto
    qed
  qed simp
  from this [of 0 g] show ?thesis using gen k by (simp add: encoded_def)
qed

end
