(* ===== verification/FecGroup.thy ===== *)
theory FecGroup
  imports FecGen
begin

text \<open>
  What \<open>FECGenerator\<close> achieves for one group: the plan of \<open>Decode\<close> picks a received packet for every
  original, the recovered packets are the originals, and an original that comes late is answered
  with a wrong packet.
\<close>

subsection \<open>The plan\<close>

lemma place_originals_spec:
  assumes "length used = 128" "k \<le> 128"
  shows "\<exists>rec ix. place_originals k (used, replicate 128 None, replicate 128 0) = (used, rec, ix) \<and>
    length rec = 128 \<and> length ix = 128 \<and>
    (\<forall>j<128. rec ! j = (if used ! j \<and> j < k then Some j else None) \<and> (used ! j \<and> j < k \<longrightarrow> ix ! j = int j))"
  using assms(2)
proof (induction k)
  case 0
  then show ?case by (simp add: place_originals_def)
next
  case (Suc k)
  then obtain rec ix where IH: "place_originals k (used, replicate 128 None, replicate 128 0) = (used, rec, ix)"
    "length rec = 128" "length ix = 128"
    "\<forall>j<128. rec ! j = (if used ! j \<and> j < k then Some j else None) \<and> (used ! j \<and> j < k \<longrightarrow> ix ! j = int j)" by auto
  have "place_originals (Suc k) (used, replicate 128 None, replicate 128 0) =
      (if used ! k then (used, rec[k := Some k], ix[k := int k]) else (used, rec, ix))"
    using IH(1) by (simp add: place_originals_def)
  then show ?case using IH(2-4) Suc.prems by (auto simp: nth_list_update less_Suc_eq)
qed

definition filled :: "nat set \<Rightarrow> nat \<Rightarrow> nat set" where
  "filled S i = {a. a < i \<and> a \<notin> S}"

lemma filled_Suc: "filled S (Suc i) = (if i \<in> S then filled S i else insert i (filled S i))"
  by (auto simp: filled_def less_Suc_eq)

lemma finite_filled [simp]: "finite (filled S i)"
  by (simp add: filled_def)

text \<open>The plan when the places below \<open>i\<close> are taken.\<close>

definition plan_inv :: "nat set \<Rightarrow> nat \<Rightarrow> nat \<Rightarrow> nat \<Rightarrow> plan \<Rightarrow> bool" where
  "plan_inv S k n i = (\<lambda>(marks, rec, ix). length marks = 128 \<and> length rec = 128 \<and> length ix = 128 \<and>
     (\<forall>j<k. marks ! j \<longleftrightarrow> j \<in> S \<or> j < i) \<and>
     (\<forall>j<k. j \<in> S \<longrightarrow> rec ! j = Some j \<and> ix ! j = int j) \<and>
     (\<forall>j\<in>filled S i. \<exists>r. k \<le> r \<and> r \<in> S \<and> rec ! j = Some r \<and> ix ! j = int r) \<and>
     (\<forall>j. k \<le> j \<and> j < n \<longrightarrow> (marks ! j \<longleftrightarrow> j \<in> S \<and> int j \<notin> (!) ix ` filled S i)) \<and>
     inj_on ((!) ix) (filled S i))"

text \<open>As long as a place is open a redundant packet is left.\<close>

lemma redundant_left:
  assumes "S \<subseteq> {..<n}" "card S = k" "i < k" "i \<notin> S" "inj_on f (filled S i)"
    "\<And>j. j \<in> filled S i \<Longrightarrow> \<exists>r. k \<le> r \<and> r \<in> S \<and> f j = int r"
  shows "\<exists>r. k \<le> r \<and> r < n \<and> r \<in> S \<and> int r \<notin> f ` filled S i"
proof (rule ccontr)
  assume none: "\<not> ?thesis"
  let ?R = "{r \<in> S. k \<le> r}"
  have fin: "finite S" using assms(1) finite_subset by blast
  have "int ` ?R \<subseteq> f ` filled S i" using none assms(1) by auto
  then have "card ?R \<le> card (filled S i)"
    using assms(5) card_mono [of "f ` filled S i" "int ` ?R"] by (simp add: card_image)
  also have "\<dots> < card (filled S k)"
  proof (rule psubset_card_mono)
    show "filled S i \<subset> filled S k" using assms(3,4) by (auto simp: filled_def)
  qed simp
  also have "card (filled S k) = k - card {r \<in> S. r < k}"
  proof -
    have "filled S k = {..<k} - {r \<in> S. r < k}" by (auto simp: filled_def)
    then show ?thesis using card_Diff_subset [of "{r \<in> S. r < k}" "{..<k}"] fin by (simp add: subset_iff)
  qed
  also have "\<dots> = card ?R"
  proof -
    have "S = {r \<in> S. r < k} \<union> ?R" by auto
    then have "card S = card {r \<in> S. r < k} + card ?R"
      using fin card_Un_disjoint [of "{r \<in> S. r < k}" ?R] by (metis (no_types, lifting) Collect_cong card_Un_disjoint disjoint_iff finite_Un linorder_not_less mem_Collect_eq)
    then show ?thesis using assms(2) by simp
  qed
  finally show False by simp
qed

lemma plan_step:
  assumes inv: "plan_inv S k n i (marks, rec, ix)" and S: "S \<subseteq> {..<n}" "card S = k" "n \<le> 128" "k \<le> n" and i: "i < k"
  shows "plan_inv S k n (Suc i)
    (if marks ! i then (marks, rec, ix)
     else case List.find (\<lambda>j. marks ! j) [k..<n] of
         None \<Rightarrow> (marks, rec, ix)
       | Some j \<Rightarrow> (marks[j := False, i := True], rec[i := Some j], ix[i := int j]))"
proof (cases "i \<in> S")
  case True
  then show ?thesis using inv i by (auto simp: plan_inv_def filled_Suc less_Suc_eq)
next
  case False
  have free: "\<not> marks ! i" using inv False i by (simp add: plan_inv_def)
  have "inj_on ((!) ix) (filled S i)" using inv by (simp add: plan_inv_def)
  moreover have "\<exists>r. k \<le> r \<and> r \<in> S \<and> ix ! a = int r" if "a \<in> filled S i" for a
    using inv that by (fastforce simp: plan_inv_def)
  ultimately obtain r where r: "k \<le> r" "r < n" "r \<in> S" "int r \<notin> (!) ix ` filled S i"
    using redundant_left [OF S(1,2) i False, of "(!) ix"] by blast
  then have "marks ! r" using inv by (simp add: plan_inv_def)
  then have "List.find (\<lambda>j. marks ! j) [k..<n] \<noteq> None" using r by (auto simp: find_None_iff)
  then obtain j where j: "List.find (\<lambda>j. marks ! j) [k..<n] = Some j" by blast
  then have jm: "k \<le> j" "j < n" "marks ! j" by (auto simp: find_Some_iff)
  then have jS: "j \<in> S" "int j \<notin> (!) ix ` filled S i" using inv by (simp_all add: plan_inv_def)
  have i128: "i < 128" "j < 128" using i jm S by simp_all
  have same: "ix[i := int j] ! a = ix ! a" "rec[i := Some j] ! a = rec ! a" if "a \<in> filled S i" for a
    using that by (auto simp: filled_def)
  have img: "(!) (ix[i := int j]) ` filled S (Suc i) = insert (int j) ((!) ix ` filled S i)"
    using False i128 inv same(1) by (auto simp: filled_Suc plan_inv_def)
  have "inj_on ((!) (ix[i := int j])) (filled S i)"
    using inv same(1) by (auto simp: plan_inv_def inj_on_def)
  then have inj: "inj_on ((!) (ix[i := int j])) (filled S (Suc i))"
    using False i128 inv same(1) jS(2) by (auto simp: filled_Suc plan_inv_def)
  have places: "\<exists>r. k \<le> r \<and> r \<in> S \<and> rec[i := Some j] ! a = Some r \<and> ix[i := int j] ! a = int r" if "a \<in> filled S (Suc i)" for a
  proof (cases "a = i")
    case True
    then show ?thesis using jm jS inv i128 by (auto simp: plan_inv_def)
  next
    case False
    then have "a \<in> filled S i" using that by (auto simp: filled_def)
    then show ?thesis using inv same [of a] by (auto simp: plan_inv_def)
  qed
  have "plan_inv S k n (Suc i) (marks[j := False, i := True], rec[i := Some j], ix[i := int j])"
    unfolding plan_inv_def prod.case img
  proof (intro conjI inj ballI allI impI)
    show "length (marks[j := False, i := True]) = 128" "length (rec[i := Some j]) = 128" "length (ix[i := int j]) = 128"
      using inv by (simp_all add: plan_inv_def)
  next
    fix a assume "a < k"
    then show "marks[j := False, i := True] ! a \<longleftrightarrow> a \<in> S \<or> a < Suc i"
      using inv jm i128 by (auto simp: plan_inv_def nth_list_update less_Suc_eq)
  next
    fix a assume "a < k" "a \<in> S"
    moreover then have "i \<noteq> a" using False by blast
    ultimately show "rec[i := Some j] ! a = Some a" "ix[i := int j] ! a = int a" using inv by (simp_all add: plan_inv_def)
  next
    fix a assume "k \<le> a \<and> a < n"
    then show "marks[j := False, i := True] ! a \<longleftrightarrow> a \<in> S \<and> int a \<notin> insert (int j) ((!) ix ` filled S i)"
      using inv i i128 by (auto simp: plan_inv_def nth_list_update)
  qed (rule places)
  then show ?thesis using free j by simp
qed

lemma recovery_plan_spec:
  assumes "length used = 128" "\<And>j. j < 128 \<Longrightarrow> used ! j \<longleftrightarrow> j \<in> S" "S \<subseteq> {..<n}" "card S = k" "n \<le> 128" "k \<le> n"
  shows "plan_inv S k n k (recovery_plan k n used)"
proof -
  obtain rec ix where o: "place_originals k (used, replicate 128 None, replicate 128 0) = (used, rec, ix)"
    "length rec = 128" "length ix = 128"
    "\<forall>j<128. rec ! j = (if used ! j \<and> j < k then Some j else None) \<and> (used ! j \<and> j < k \<longrightarrow> ix ! j = int j)"
    using place_originals_spec [of used k] assms by auto
  have "plan_inv S k n 0 (used, rec, ix)" using o assms by (auto simp: plan_inv_def filled_def)
  then have "plan_inv S k n k (place_redundant k n (used, rec, ix))"
    unfolding place_redundant_def
  proof (rule fold_upt_inv [of 0 k "plan_inv S k n", OF le0])
    fix i :: nat and p :: plan assume "i < k" "plan_inv S k n i p"
    moreover obtain marks rec ix where "p = (marks, rec, ix)" by (cases p)
    ultimately show "plan_inv S k n (Suc i) (case p of (marks, recovery, index) \<Rightarrow>
        if marks ! i then (marks, recovery, index)
        else case List.find (\<lambda>j. marks ! j) [k..<n] of None \<Rightarrow> (marks, recovery, index)
          | Some j \<Rightarrow> (marks[j := False, i := True], recovery[i := Some j], index[i := int j]))"
      using plan_step [of S k n i marks rec ix] assms(3-6) by simp
  qed
  then show ?thesis using o(1) by (simp add: recovery_plan_def)
qed

subsection \<open>Recovery\<close>

text \<open>The packets of the group that have arrived are \<open>S\<close>; \<open>pk\<close> are all its packets.\<close>

definition arrived :: "fec_state \<Rightarrow> nat \<Rightarrow> nat \<Rightarrow> nat \<Rightarrow> (nat \<Rightarrow> u8 list) \<Rightarrow> u32 \<Rightarrow> nat set \<Rightarrow> FECGenerator \<Rightarrow> bool" where
  "arrived T k n sz pk gid S g \<longleftrightarrow> gen_ok T k n sz g \<and> last_group_id g = gid \<and> S \<subseteq> {..<n} \<and>
     packet_count g = int (card S) \<and> raw_packet_count g = int (card {i \<in> S. i < k}) \<and>
     (\<forall>j<128. used_marks g ! j \<longleftrightarrow> j \<in> S) \<and> (\<forall>j\<in>S. take sz (input_data g ! j) = pk j)"

lemma fold_store_inj:
  "inj_on p {..<k} \<Longrightarrow> (\<And>i. i < k \<Longrightarrow> p i < length xs) \<Longrightarrow> i < k \<Longrightarrow> fold (\<lambda>i xs. xs[p i := f i]) [0..<k] xs ! p i = f i"
proof (induction k)
  case (Suc k)
  have "inj_on p {..<k}" using Suc.prems(1) by (rule inj_on_subset) auto
  moreover have "p i = p k \<longleftrightarrow> i = k" using Suc.prems(1,3) by (auto simp: inj_on_def)
  ultimately show ?case using Suc by (cases "i = k") (auto simp: less_Suc_eq)
qed simp

text \<open>Recovery by a plan that takes packet \<open>p i\<close> for place \<open>i\<close>. If these packets agree with the group
  \<open>src\<close>, the packets recovered are those of \<open>src\<close>, and they replace the packets taken.\<close>

lemma recover_planned:
  assumes gen: "gen_ok T k n sz g" and plan: "recovery_plan k n (used_marks g) = (m, rec, ix)" "k \<le> length ix"
    and p: "\<And>i. i < k \<Longrightarrow> m ! i \<and> rec ! i = Some (p i) \<and> ix ! i = int (p i) \<and> p i < n \<and> (p i = i \<or> k \<le> p i)" "inj_on p {..<k}"
    and agree: "\<And>i. i < k \<Longrightarrow> take sz (input_data g ! p i) = fec_packet T code sz src (p i)"
    and tab: "tables_ok T" and code: "code_ok T k n code" and src: "packets_ok k sz src"
  defines "lost \<equiv> filter (\<lambda>i. p i \<noteq> i) [0..<k]"
  shows "\<exists>g'. recover_group T g = Some (g', map (group_call (last_group_id g) k n (\<lambda>i. src ! i)) lost) \<and>
    gen_ok T k n sz g' \<and> last_group_id g' = last_group_id g \<and> used_marks g' = used_marks g \<and>
    raw_packet_count g' = int16 (raw_packet_count g + int (length lost)) \<and>
    packet_count g' = int16 (packet_count g + int (length lost)) \<and> (\<forall>i<k. take sz (input_data g' ! p i) = src ! i)"
proof -
  note ok = gen_okD [OF gen]
  define idx where "idx = take k ix"
  define ptr where "ptr = map (\<lambda>i. the (rec ! i)) [0..<k]"
  have ptr: "ptr = map p [0..<k]" using p(1) by (auto simp: ptr_def)
  have idx: "length idx = k" "\<And>i. i < k \<Longrightarrow> idx ! i = int (p i)" using plan(2) p(1) by (simp_all add: idx_def)
  have placed: "placed k idx" using idx p(1) by (auto simp: placed_def)
  have dist: "distinct idx" unfolding distinct_conv_nth using idx p(2) by (auto simp: inj_on_def)
  have p128: "p i < 128" if "i < k" for i using p(1) [OF that] ok(4) by simp
  define pkt where "pkt = map ((!) (input_data g)) ptr"
  have "map (take sz) pkt = map (fec_packet T code sz src) ptr" using agree by (auto simp: pkt_def ptr)
  moreover have "\<exists>index'. fec_decode T (fg_code g) (map (fec_packet T code sz src) ptr) idx sz = Some (0, src, index')"
  proof (rule fec_decode_recovers [OF ok(1) tab src])
    fix i assume i: "i < k"
    have "p i < n" using p(1) [OF i] by simp
    then show "fec_encode T (fg_code g) src (replicate sz 0) (idx ! i) sz = Some (map (fec_packet T code sz src) ptr ! i)"
      using fec_packet_encode [OF ok(1) tab src] fec_packet_code [OF ok(1) code] i idx(2) by (simp add: ptr)
  qed (use idx dist p(1) ok(3) in \<open>auto simp: in_set_conv_nth ptr\<close>)
  ultimately obtain index' where "fec_decode T (fg_code g) (map (take sz) pkt) idx sz = Some (0, src, index')" by auto
  then obtain pkt' where dec: "fec_decode T (fg_code g) pkt idx sz = Some (0, pkt', idx)" "length pkt' = k"
    "\<And>i. i < k \<Longrightarrow> take sz (pkt' ! i) = src ! i" "\<And>i. i < k \<Longrightarrow> length (pkt' ! i) = 1300"
    using fec_decode_long [OF tab _ placed idx(1), of "fg_code g" pkt sz src] ok p128 src
    by (auto simp: pkt_def ptr code_ok_def packets_ok_def)
  have lost: "filter (\<lambda>i. idx ! i \<noteq> int i) [0..<k] = lost"
    unfolding lost_def using idx(2) by (intro filter_cong) auto
  define inp' where "inp' = fold (\<lambda>i inp. inp[ptr ! i := pkt' ! i]) [0..<k] (input_data g)"
  have "length inp' = 128 \<and> (\<forall>b \<in> set inp'. length b = 1300)" unfolding inp'_def
    by (rule fold_preserves [where P = "\<lambda>x. length x = 128 \<and> (\<forall>b \<in> set x. length b = 1300)"])
      (use gen dec(4) in \<open>auto simp: gen_ok_def dest!: subsetD [OF set_update_subset_insert]\<close>)
  then have gen': "gen_ok T k n sz (g\<lparr>input_data := inp'\<rparr>)" using gen by (simp add: gen_ok_def)
  have "inp' = fold (\<lambda>i inp. inp[p i := pkt' ! i]) [0..<k] (input_data g)"
    unfolding inp'_def by (rule fold_cong) (simp_all add: ptr)
  then have inp': "take sz (inp' ! p i) = src ! i" if "i < k" for i
    using fold_store_inj [OF p(2), of "input_data g" i "\<lambda>i. pkt' ! i"] p128 ok(9) dec(3) that by simp
  have sh: "shuffle ptr idx k = Some (0, ptr, idx)" using placed idx(1) by (simp add: shuffle_placed ptr)
  have full: "\<not> (\<exists>i<k. rec ! i = None \<or> \<not> m ! i)" using p(1) by auto
  define g' where "g' = g\<lparr>input_data := inp', raw_packet_count := int16 (raw_packet_count g + int (length lost)),
    packet_count := int16 (packet_count g + int (length lost))\<rparr>"
  have out: "map (\<lambda>i. \<lparr>call_group = ucast (last_group_id g), call_k = fec_k g, call_n = fec_n g,
      call_index = int i, call_data = take sz (pkt' ! i)\<rparr>) lost = map (group_call (last_group_id g) k n (\<lambda>i. src ! i)) lost"
    using dec(3) ok by (auto simp: group_call_def lost_def)
  have "recover_group T g = Some (g', map (group_call (last_group_id g) k n (\<lambda>i. src ! i)) lost)"
    unfolding out [symmetric] g'_def inp'_def recover_group_def
    using plan full ok sh dec(1) lost
    by (simp add: Let_def size_ok_def idx_def [symmetric] ptr_def [symmetric] pkt_def [symmetric] del: map_eq_conv)
      (use full in blast)
  then show ?thesis using gen' inp' by (intro exI [of _ g']) (simp add: g'_def)
qed

lemma recover_group_spec:
  assumes arr: "arrived T k n sz (fec_packet T code sz src) gid S g" and S: "card S = k"
    and fixed: "tables_ok T" "code_ok T k n code" "packets_ok k sz src"
  shows "\<exists>g'. recover_group T g = Some (g', map (group_call gid k n (\<lambda>i. src ! i)) (filter (\<lambda>i. i \<notin> S) [0..<k])) \<and>
    gen_ok T k n sz g' \<and> last_group_id g' = gid \<and> raw_packet_count g' = int k"
proof -
  have gen: "gen_ok T k n sz g" and Sn: "S \<subseteq> {..<n}" and marks: "\<And>j. j < 128 \<Longrightarrow> used_marks g ! j \<longleftrightarrow> j \<in> S"
    and inp: "\<And>j. j \<in> S \<Longrightarrow> take sz (input_data g ! j) = fec_packet T code sz src j" and gid: "last_group_id g = gid"
    and raw: "raw_packet_count g = int (card {i \<in> S. i < k})"
    using arr by (simp_all add: arrived_def)
  note ok = gen_okD [OF gen]
  obtain m rec ix where plan: "recovery_plan k n (used_marks g) = (m, rec, ix)" by (cases "recovery_plan k n (used_marks g)")
  have inv: "plan_inv S k n k (m, rec, ix)"
    using recovery_plan_spec [of "used_marks g" S n k] marks Sn S ok(3,4,11) plan by simp
  define p where "p i = nat (ix ! i)" for i
  have place: "p i \<in> S \<and> rec ! i = Some (p i) \<and> ix ! i = int (p i) \<and> (if i \<in> S then p i = i else k \<le> p i)" if "i < k" for i
  proof (cases "i \<in> S")
    case True
    then show ?thesis using inv that by (auto simp: plan_inv_def p_def)
  next
    case False
    then have "i \<in> filled S k" using that by (simp add: filled_def)
    then show ?thesis using inv False by (fastforce simp: plan_inv_def p_def)
  qed
  have inj: "inj_on p {..<k}"
  proof (rule inj_onI)
    fix i j assume ij: "i \<in> {..<k}" "j \<in> {..<k}" "p i = p j"
    show "i = j"
    proof (cases "i \<in> S \<or> j \<in> S")
      case True
      then show ?thesis using place [of i] place [of j] ij by (auto split: if_splits)
    next
      case False
      then have "i \<in> filled S k" "j \<in> filled S k" "ix ! i = ix ! j" using ij place [of i] place [of j] by (simp_all add: filled_def)
      then show ?thesis using inv by (auto simp: plan_inv_def dest: inj_onD)
    qed
  qed
  have lost: "filter (\<lambda>i. p i \<noteq> i) [0..<k] = filter (\<lambda>i. i \<notin> S) [0..<k]"
    using place by (intro filter_cong) (force split: if_splits)+
  have "m ! i \<and> rec ! i = Some (p i) \<and> ix ! i = int (p i) \<and> p i < n \<and> (p i = i \<or> k \<le> p i)" if "i < k" for i
    using place [OF that] inv that Sn by (auto simp: plan_inv_def split: if_splits)
  moreover have "k \<le> length ix" using inv ok(3,4) by (simp add: plan_inv_def)
  moreover have "take sz (input_data g ! p i) = fec_packet T code sz src (p i)" if "i < k" for i
    using inp place [OF that] by simp
  ultimately obtain g' where g': "recover_group T g = Some (g', map (group_call gid k n (\<lambda>i. src ! i)) (filter (\<lambda>i. i \<notin> S) [0..<k]))"
    "gen_ok T k n sz g'" "last_group_id g' = gid"
    "raw_packet_count g' = int16 (raw_packet_count g + int (length (filter (\<lambda>i. i \<notin> S) [0..<k])))"
    using recover_planned [OF gen plan, of p code src] inj fixed unfolding lost gid by blast
  have "int (card {i \<in> S. i < k}) + int (length (filter (\<lambda>i. i \<notin> S) [0..<k])) = int k"
  proof -
    let ?lost = "filter (\<lambda>i. i \<notin> S) [0..<k]"
    have "{i \<in> S. i < k} \<union> set ?lost = {..<k}" "{i \<in> S. i < k} \<inter> set ?lost = {}" by auto
    then have "card {i \<in> S. i < k} + card (set ?lost) = k"
      using card_Un_disjoint [of "{i \<in> S. i < k}" "set ?lost"] by simp
    then show ?thesis using distinct_card [of ?lost] by simp
  qed
  then show ?thesis using g' raw ok(3,4) by (intro exI [of _ g']) (simp add: int16_small)
qed

subsection \<open>A group is decoded\<close>

text \<open>A header and data that carry packet \<open>i\<close> of the group.\<close>

definition carries :: "nat \<Rightarrow> nat \<Rightarrow> nat \<Rightarrow> (nat \<Rightarrow> u8 list) \<Rightarrow> u32 \<Rightarrow> nat \<Rightarrow> TESTFECHeader \<times> u8 list \<Rightarrow> bool" where
  "carries k n sz pk gid i = (\<lambda>(h, data). fech_index h = of_nat i \<and> fech_length h = of_nat sz \<and> fech_group_id h = gid \<and>
     fech_k h = of_nat k \<and> fech_n h = of_nat n \<and> sz \<le> length data \<and> take sz data = pk i)"

definition stored :: "nat \<Rightarrow> nat \<Rightarrow> (nat \<Rightarrow> u8 list) \<Rightarrow> FECGenerator \<Rightarrow> FECGenerator" where
  "stored i k pk g = g\<lparr>input_data := (input_data g)[i := put_slice 0 (pk i) (input_data g ! i)],
     used_marks := (used_marks g)[i := True],
     raw_packet_count := (if i < k then int16 (raw_packet_count g + 1) else raw_packet_count g),
     packet_count := int16 (packet_count g + 1)\<rparr>"

lemma store_packet_new:
  assumes gen: "gen_ok T k n sz g" and gid: "last_group_id g = gid" and i: "i < n" "\<not> used_marks g ! i"
    and h: "carries k n sz pk gid i (h, data)"
  shows "store_packet h data g = Some (stored i k pk g, if i < k then [group_call gid k n pk i] else [])"
    and "gen_ok T k n sz (stored i k pk g)" and "take sz (input_data (stored i k pk g) ! i) = pk i" and "i < 128"
proof -
  note ok = gen_okD [OF gen]
  show i128: "i < 128" using i ok(4) by simp
  have hd: "unat (fech_index h) = i" "uint (fech_index h) = int i" "unat (fech_length h) = sz" "uint (fech_k h) = int k"
    "uint (fech_n h) = int n" "sz \<le> length data" "take sz data = pk i"
    using h i128 ok(3,4,5) by (simp_all add: carries_def unat_of_nat uint_word_of_int_eq unsigned_of_nat take_bit_nat_eq_self take_bit_int_eq_self)
  have lpk: "length (pk i) = sz" using hd(6,7) by (metis length_take min.absorb2)
  have b: "length (put_slice 0 (pk i) (input_data g ! i)) = 1300" using ok(5,12) i128 lpk by simp
  show "store_packet h data g = Some (stored i k pk g, if i < k then [group_call gid k n pk i] else [])"
    using hd i i128 ok gid by (simp add: store_packet_def stored_def group_call_def int16_small Let_def)
  show "gen_ok T k n sz (stored i k pk g)"
    using gen_ok_marks [OF gen_ok_input [OF gen b, of i], of "(used_marks g)[i := True]"] ok(11) by (simp add: stored_def)
  show "take sz (input_data (stored i k pk g) ! i) = pk i" using lpk ok(9) i128 by (simp add: stored_def)
qed

lemma store_packet_spec:
  assumes arr: "arrived T k n sz pk gid S g" and i: "i < n" "i \<notin> S" and h: "carries k n sz pk gid i (h, data)"
  shows "store_packet h data g = Some (stored i k pk g, if i < k then [group_call gid k n pk i] else []) \<and>
    arrived T k n sz pk gid (insert i S) (stored i k pk g)"
proof -
  have gen: "gen_ok T k n sz g" and Sn: "S \<subseteq> {..<n}" and marks: "\<And>j. j < 128 \<Longrightarrow> used_marks g ! j \<longleftrightarrow> j \<in> S"
    and inp: "\<And>j. j \<in> S \<Longrightarrow> take sz (input_data g ! j) = pk j" and gid: "last_group_id g = gid"
    and raw: "raw_packet_count g = int (card {i \<in> S. i < k})" and pc: "packet_count g = int (card S)"
    using arr by (simp_all add: arrived_def)
  note ok = gen_okD [OF gen]
  have fin: "finite S" using Sn finite_subset by blast
  have free: "\<not> used_marks g ! i" using marks [of i] i ok(4) by simp
  note new = store_packet_new [OF gen gid i(1) free h]
  have card: "card S < n" "card {j \<in> S. j < k} \<le> card S"
  proof -
    have "S \<subset> {..<n}" using Sn i by auto
    then show "card S < n" using psubset_card_mono [of "{..<n}" S] by simp
    show "card {j \<in> S. j < k} \<le> card S" using fin by (intro card_mono) auto
  qed
  have split: "{j \<in> insert i S. j < k} = (if i < k then insert i {j \<in> S. j < k} else {j \<in> S. j < k})" by auto
  have cards: "card (insert i S) = Suc (card S)"
    "card {j \<in> insert i S. j < k} = (if i < k then Suc (card {j \<in> S. j < k}) else card {j \<in> S. j < k})"
    unfolding split using fin i(2) by simp_all
  have "used_marks (stored i k pk g) ! j \<longleftrightarrow> j \<in> insert i S" if "j < 128" for j
    using marks [OF that] ok(11) that by (cases "j = i") (simp_all add: stored_def)
  moreover have "take sz (input_data (stored i k pk g) ! j) = pk j" if "j \<in> insert i S" for j
  proof (cases "j = i")
    case False
    then show ?thesis using inp [of j] that by (simp add: stored_def)
  qed (simp add: new(3))
  moreover have "packet_count (stored i k pk g) = int (card (insert i S))"
    "raw_packet_count (stored i k pk g) = int (card {j \<in> insert i S. j < k})"
    using card cards raw pc ok(4) by (simp_all add: stored_def int16_small)
  ultimately show ?thesis using new(1,2) gid Sn i(1) by (simp add: arrived_def, simp add: stored_def)
qed

lemma Decode_same_group:
  "fech_group_id h = last_group_id g \<Longrightarrow> Decode T h data g =
     (case store_packet h data (g\<lparr>last_packet_size := int16 (uint (fech_last_packet_size h))\<rparr>) of None \<Rightarrow> None
      | Some (g, out) \<Rightarrow>
          if packet_count g < fec_k g \<or> raw_packet_count g = fec_k g then Some (g, out)
          else (case recover_group T g of None \<Rightarrow> None | Some (g, out') \<Rightarrow> Some (g, out @ out')))"
  by (simp add: Decode_def Let_def cong: option.case_cong) (auto split: option.splits)

lemma arrived_last [simp]: "arrived T k n sz pk gid S (g\<lparr>last_packet_size := x\<rparr>) = arrived T k n sz pk gid S g"
  by (simp add: arrived_def)

text \<open>The packets before the last needed one are stored; the last one starts the recovery.\<close>

lemma decode_step:
  assumes arr: "arrived T k n sz (fec_packet T code sz src) gid S g" and i: "i < n" "i \<notin> S" "card S < k"
    and h: "carries k n sz (fec_packet T code sz src) gid i (h, data)"
    and tab: "tables_ok T" and code: "code_ok T k n code" and src: "packets_ok k sz src"
  shows "\<exists>g'. Decode T h data g = Some (g', map (group_call gid k n (\<lambda>i. src ! i))
      ((if i < k then [i] else []) @ (if Suc (card S) = k then filter (\<lambda>j. j \<notin> insert i S) [0..<k] else []))) \<and>
    (Suc (card S) < k \<longrightarrow> arrived T k n sz (fec_packet T code sz src) gid (insert i S) g') \<and>
    gen_ok T k n sz g' \<and> last_group_id g' = gid \<and> (Suc (card S) = k \<longrightarrow> raw_packet_count g' = int k)"
proof -
  define g0 where "g0 = g\<lparr>last_packet_size := int16 (uint (fech_last_packet_size h))\<rparr>"
  have arr0: "arrived T k n sz (fec_packet T code sz src) gid S g0" using arr by (simp add: g0_def)
  obtain g1 where g1: "store_packet h data g0 = Some (g1, if i < k then [group_call gid k n (fec_packet T code sz src) i] else [])"
    "arrived T k n sz (fec_packet T code sz src) gid (insert i S) g1"
    using store_packet_spec [OF arr0 i(1,2) h] by simp
  define orig where "orig = (if i < k then [group_call gid k n (\<lambda>i. src ! i) i] else [])"
  have orig: "(if i < k then [group_call gid k n (fec_packet T code sz src) i] else []) = orig"
    using fec_packet_original [OF code src] by (simp add: group_call_def orig_def)
  have gid: "fech_group_id h = gid" "last_group_id g0 = gid" using h arr by (simp_all add: carries_def arrived_def g0_def)
  have dec: "Decode T h data g =
      (if packet_count g1 < fec_k g1 \<or> raw_packet_count g1 = fec_k g1 then Some (g1, orig)
       else case recover_group T g1 of None \<Rightarrow> None | Some (g, out') \<Rightarrow> Some (g, orig @ out'))"
    using g1(1) [unfolded orig] gid by (simp add: Decode_def g0_def [symmetric] Let_def)
  have S: "S \<subseteq> {..<n}" using arr by (simp add: arrived_def)
  then have fin: "finite S" using finite_subset by blast
  have cS: "card (insert i S) = Suc (card S)" using fin i(2) by simp
  have gen1: "gen_ok T k n sz g1" "packet_count g1 = int (Suc (card S))" "last_group_id g1 = gid"
    "raw_packet_count g1 = int (card {j \<in> insert i S. j < k})" "fec_k g1 = int k"
    using g1(2) cS by (simp_all add: arrived_def gen_ok_def)
  show ?thesis
  proof (cases "Suc (card S) = k")
    case False
    then show ?thesis using dec gen1 g1(2) i(3) by (intro exI [of _ g1]) (simp add: orig_def)
  next
    case True
    let ?lost = "filter (\<lambda>j. j \<notin> insert i S) [0..<k]"
    show ?thesis
    proof (cases "raw_packet_count g1 = int k")
      case True
      have "card {j \<in> insert i S. j < k} = card {..<k}" using True gen1(4) by simp
      then have all: "{j \<in> insert i S. j < k} = {..<k}" by (intro card_subset_eq) auto
      have "j \<in> insert i S" if "j < k" for j using equalityD2 [OF all] that by blast
      then have "?lost = []" by (simp add: filter_empty_conv)
      then show ?thesis using dec gen1 True \<open>Suc (card S) = k\<close> by (intro exI [of _ g1]) (simp add: orig_def)
    next
      case notall: False
      obtain g2 where "recover_group T g1 = Some (g2, map (group_call gid k n (\<lambda>i. src ! i)) ?lost)"
        "gen_ok T k n sz g2" "last_group_id g2 = gid" "raw_packet_count g2 = int k"
        using recover_group_spec [OF g1(2) _ tab code src] cS True by auto
      then show ?thesis using dec gen1 True notall by (intro exI [of _ g2]) (simp add: orig_def)
    qed
  qed
qed

fun decode_all :: "fec_state \<Rightarrow> (TESTFECHeader \<times> u8 list) list \<Rightarrow> FECGenerator \<Rightarrow> (FECGenerator \<times> fec_call list) option" where
  "decode_all T [] g = Some (g, [])"
| "decode_all T ((h, data) # ps) g =
     (case Decode T h data g of None \<Rightarrow> None
      | Some (g, out) \<Rightarrow> (case decode_all T ps g of None \<Rightarrow> None | Some (g, out') \<Rightarrow> Some (g, out @ out')))"

lemma decode_group:
  assumes "arrived T k n sz (fec_packet T code sz src) gid S g" "card S < k" "card S + length ix = k"
    and "distinct ix" "set ix \<subseteq> {..<n} - S" "list_all2 (carries k n sz (fec_packet T code sz src) gid) ix ps"
    and fixed: "tables_ok T" "code_ok T k n code" "packets_ok k sz src"
  shows "\<exists>g'. decode_all T ps g = Some (g', map (group_call gid k n (\<lambda>i. src ! i))
      (filter (\<lambda>i. i < k) ix @ filter (\<lambda>j. j \<notin> S \<union> set ix) [0..<k])) \<and>
    gen_ok T k n sz g' \<and> last_group_id g' = gid \<and> raw_packet_count g' = int k"
  using assms(1-6)
proof (induction ix arbitrary: ps S g)
  case (Cons i ix)
  obtain h data ps' where ps: "ps = (h, data) # ps'" "carries k n sz (fec_packet T code sz src) gid i (h, data)"
    "list_all2 (carries k n sz (fec_packet T code sz src) gid) ix ps'"
    using Cons.prems(6) by (auto simp: list_all2_Cons1)
  have i: "i < n" "i \<notin> S" using Cons.prems(5) by auto
  have fin: "finite S" using Cons.prems(1) finite_subset by (auto simp: arrived_def)
  have cS: "card (insert i S) = Suc (card S)" using fin i(2) by simp
  obtain g1 where g1: "Decode T h data g = Some (g1, map (group_call gid k n (\<lambda>i. src ! i))
      ((if i < k then [i] else []) @ (if Suc (card S) = k then filter (\<lambda>j. j \<notin> insert i S) [0..<k] else [])))"
    "Suc (card S) < k \<Longrightarrow> arrived T k n sz (fec_packet T code sz src) gid (insert i S) g1"
    "gen_ok T k n sz g1" "last_group_id g1 = gid" "Suc (card S) = k \<Longrightarrow> raw_packet_count g1 = int k"
    using decode_step [OF Cons.prems(1) i Cons.prems(2) ps(2) fixed] by blast
  show ?case
  proof (cases "Suc (card S) = k")
    case True
    then have "ix = []" using Cons.prems(3) by (cases ix) simp_all
    then show ?thesis using True g1 ps by auto
  next
    case False
    then have "Suc (card S) < k" using Cons.prems(2) by simp
    moreover have "set ix \<subseteq> {..<n} - insert i S" using Cons.prems(4,5) by auto
    ultimately obtain g2 where "decode_all T ps' g1 = Some (g2, map (group_call gid k n (\<lambda>i. src ! i))
        (filter (\<lambda>i. i < k) ix @ filter (\<lambda>j. j \<notin> insert i S \<union> set ix) [0..<k]))"
      "gen_ok T k n sz g2" "last_group_id g2 = gid" "raw_packet_count g2 = int k"
      using Cons.IH [of "insert i S" g1 ps'] g1(2) cS Cons.prems(3,4) ps(3) by auto
    then show ?thesis using False g1(1) ps(1) by (auto simp: Un_commute)
  qed
qed simp

text \<open>A receiver that is between groups: the packets to come belong to a new group, or nothing has been received.\<close>

definition expects :: "u32 \<Rightarrow> FECGenerator \<Rightarrow> bool" where
  "expects gid r \<longleftrightarrow> last_group_id r \<noteq> gid \<or> packet_count r = 0 \<and> raw_packet_count r = 0 \<and> used_marks r = replicate 128 False"

definition cleared :: "u32 \<Rightarrow> FECGenerator \<Rightarrow> FECGenerator" where
  "cleared gid r = (if last_group_id r \<noteq> gid then (Clear r)\<lparr>last_group_id := gid\<rparr> else r)"

lemma decode_all_cleared:
  "ps \<noteq> [] \<Longrightarrow> list_all2 (carries k n sz pk gid) ix ps \<Longrightarrow> decode_all T ps r = decode_all T ps (cleared gid r)"
proof -
  assume "ps \<noteq> []" "list_all2 (carries k n sz pk gid) ix ps"
  then obtain h data ps' where ps: "ps = (h, data) # ps'" "fech_group_id h = gid"
    by (cases ps) (auto simp: list_all2_Cons2 carries_def)
  have "Decode T h data r = Decode T h data (cleared gid r)"
    using ps(2) by (cases r) (simp add: Decode_def cleared_def Clear_def)
  then show ?thesis by (simp add: ps(1))
qed

lemma arrived_none: "gen_ok T k n sz r \<Longrightarrow> expects gid r \<Longrightarrow> arrived T k n sz pk gid {} (cleared gid r)"
  using gen_ok_Clear [of T k n sz r] by (auto simp: arrived_def cleared_def expects_def Clear_def)

lemma group_received:
  assumes "gen_ok T k n sz r" "expects gid r" and ix: "length ix = k" "distinct ix" "set ix \<subseteq> {..<n}"
    and ps: "list_all2 (carries k n sz (fec_packet T code sz src) gid) ix ps"
    and fixed: "tables_ok T" "code_ok T k n code" "packets_ok k sz src"
  shows "\<exists>r'. decode_all T ps r = Some (r', map (group_call gid k n (\<lambda>i. src ! i))
      (filter (\<lambda>i. i < k) ix @ filter (\<lambda>j. j \<notin> set ix) [0..<k])) \<and>
    gen_ok T k n sz r' \<and> last_group_id r' = gid"
proof -
  have "0 < k" using gen_okD(2) [OF assms(1)] .
  then have "ps \<noteq> []" using ix(1) ps by auto
  then show ?thesis
    using decode_group [OF arrived_none [OF assms(1,2)] _ _ ix(2) _ ps fixed] ix \<open>0 < k\<close>
      decode_all_cleared [OF _ ps, of T r] by auto
qed

text \<open>Every original exactly once.\<close>

lemma originals_once:
  "distinct ix \<Longrightarrow> mset (filter (\<lambda>i. i < k) ix @ filter (\<lambda>j. j \<notin> set ix) [0..<k]) = mset [0..<(k :: nat)]"
  by (rule set_eq_iff_mset_eq_distinct [THEN iffD1]) auto

subsection \<open>A late original\<close>

text \<open>Two originals, both lost and recovered from two redundant packets, and one of them comes late.\<close>

lemma upt_from_2: "4 \<le> n \<Longrightarrow> [2..<n] = 2 # 3 # [4..<n]"
  by (simp add: upt_conv_Cons)

lemma plan_two_lost:
  assumes "length used = 128" "\<not> used ! 0" "\<not> used ! 1" "used ! 2" "used ! 3" "4 \<le> n"
  shows "\<exists>m rec ix. recovery_plan 2 n used = (m, rec, ix) \<and> 2 \<le> length ix \<and>
    (\<forall>i<2. m ! i \<and> rec ! i = Some (i + 2) \<and> ix ! i = int (i + 2))"
  using assms
  by (simp add: recovery_plan_def place_originals_def place_redundant_def upt_2 upt_from_2 less_2_cases_iff)

lemma plan_late:
  assumes "length used = 128" "used ! 0" "\<not> used ! 1" "used ! 2" "4 \<le> n"
  shows "\<exists>m rec ix. recovery_plan 2 n used = (m, rec, ix) \<and> 2 \<le> length ix \<and>
    (\<forall>i<2. m ! i \<and> rec ! i = Some (if i = 0 then 0 else 2) \<and> ix ! i = int (if i = 0 then 0 else 2))"
  using assms
  by (simp add: recovery_plan_def place_originals_def place_redundant_def upt_2 upt_from_2 less_2_cases_iff)

text \<open>A group of equal packets is encoded to the same packet everywhere: the polynomial is constant.\<close>

lemma encode_equal:
  assumes tab: "tables_ok T" and code: "code_ok T k n code" "i < n" and len: "length z = sz"
  shows "fec_packet T code sz (replicate k z) i = z"
proof -
  let ?z = "replicate k z"
  have z: "packets_ok k sz ?z" using len by (simp add: packets_ok_def)
  have g: "gf_tables T" using tab by (simp add: gf_tables_def)
  have k: "0 < k" "k \<le> n" "n \<le> 256" "enc_matrix code = encoding_matrix T k n" using code(1) by (auto simp: code_ok_def)
  obtain W where inv: "\<forall>i<k. \<forall>j<k. mm (\<lambda>i j. vdm_point i ^ j) k W i j = idm i j"
    and E: "\<forall>i<n. \<forall>j<k. mat k (enc_matrix code) i j = mm (\<lambda>i j. vdm_point i ^ j) k W i j"
    unfolding k(4) by (rule gf_tables.encoding_matrix_spec [OF g k(1-3)]) blast
  obtain p where p: "fec_encode T code ?z (replicate sz 0) (int i) sz = Some p" "length p = sz"
    "\<And>b. b < sz \<Longrightarrow> GF (p ! b) = mv (mat k (enc_matrix code)) k (column ?z b) i"
    by (rule gf_tables.fec_encode_spec [OF g code(1) z, of "replicate sz 0" i]) (use code in auto)
  have "p ! b = z ! b" if b: "b < sz" for b
  proof -
    define q where "q = mv W k (column ?z b)"
    define c where "c j = (if j = 0 then GF (z ! b) else 0)" for j :: nat
    have const: "peval c k x = GF (z ! b)" for x
      using k(1) by (simp add: peval_def c_def if_distrib [of "\<lambda>y. y * _"] sum.delta cong: if_cong)
    have q: "peval q k (vdm_point j) = mv (mm (\<lambda>i j. vdm_point i ^ j) k W) k (column ?z b) j" for j
      unfolding q_def mv_mv [symmetric] by (rule mv_peval [symmetric])
    have "peval q k (vdm_point j) = GF (z ! b)" if "j < k" for j
    proof -
      have "peval q k (vdm_point j) = mv idm k (column ?z b) j" unfolding q using inv that by (intro mv_mat_cong) simp
      then show ?thesis using that by (simp add: column_def)
    qed
    then have "peval (\<lambda>j. q j + -1 * c j) k (vdm_point l) = 0" if "l < k" for l
      using that unfolding peval_add peval_scale const by simp
    moreover have "inj_on vdm_point {..<k}" using inj_vdm_point k(2,3) by (auto intro: inj_on_subset)
    ultimately have "q j + -1 * c j = 0" if "j < k" for j using vandermonde_kernel [of vdm_point k] that by blast
    then have "peval q k (vdm_point i) = peval c k (vdm_point i)" by (intro peval_cong) simp
    moreover have "GF (p ! b) = peval q k (vdm_point i)"
      unfolding q p(3) [OF b] using E code(2) by (intro mv_mat_cong) simp
    ultimately show ?thesis unfolding const by simp
  qed
  then have "p = z" using p(2) len by (intro nth_equalityI) simp_all
  then show ?thesis using p(1) by (simp add: fec_packet_def)
qed

lemma late_original:
  assumes gen: "gen_ok T 2 n sz r" "expects gid r" and n: "4 \<le> n" and src: "packets_ok 2 sz src"
    and ps: "list_all2 (carries 2 n sz (fec_packet T code sz src) gid) [2, 3, 0] ps"
    and tab: "tables_ok T" and code: "code_ok T 2 n code"
  shows "\<exists>r'. decode_all T ps r = Some (r', map (group_call gid 2 n (\<lambda>i. src ! i)) [0, 1] @
    [group_call gid 2 n (\<lambda>i. src ! i) 0, group_call gid 2 n (\<lambda>_. src ! 0) 1])"
proof -
  let ?pk = "fec_packet T code sz src" and ?Z = "src ! 0"
  obtain h2 d2 h3 d3 h0 d0 where ps_eq: "ps = [(h2, d2), (h3, d3), (h0, d0)]" and c2: "carries 2 n sz ?pk gid 2 (h2, d2)"
    and c3: "carries 2 n sz ?pk gid 3 (h3, d3)" and c0: "carries 2 n sz ?pk gid 0 (h0, d0)"
    using ps by (auto simp: list_all2_Cons1)
  define r0 where "r0 = cleared gid r"
  have "arrived T 2 n sz ?pk gid {} r0" unfolding r0_def by (rule arrived_none [OF gen])
  then obtain g1 where g1: "Decode T h2 d2 r0 = Some (g1, [])" "arrived T 2 n sz ?pk gid {2} g1"
    using decode_step [of T 2 n sz code src gid "{}" r0 2 h2 d2] c2 n tab code src by auto
  define g1' where "g1' = g1\<lparr>last_packet_size := int16 (uint (fech_last_packet_size h3))\<rparr>"
  define g2 where "g2 = stored 3 2 ?pk g1'"
  have st2: "store_packet h3 d3 g1' = Some (g2, [])" "arrived T 2 n sz ?pk gid {2, 3} g2"
    using store_packet_spec [of T 2 n sz ?pk gid "{2}" g1' 3 h3 d3] g1(2) c3 n by (auto simp: g1'_def g2_def insert_commute)
  have gen2: "gen_ok T 2 n sz g2" "last_group_id g2 = gid" "packet_count g2 = 2" "raw_packet_count g2 = 0" "fec_k g2 = 2"
    and used2: "\<And>j. j < 128 \<Longrightarrow> used_marks g2 ! j \<longleftrightarrow> j = 2 \<or> j = 3"
    and inp2: "take sz (input_data g2 ! 2) = ?pk 2" "take sz (input_data g2 ! 3) = ?pk 3"
    using st2(2) gen_okD(6) [of T 2 n sz g2] by (auto simp: arrived_def)
  obtain m rec ix where plan2: "recovery_plan 2 n (used_marks g2) = (m, rec, ix)" "2 \<le> length ix"
    "\<forall>i<2. m ! i \<and> rec ! i = Some (i + 2) \<and> ix ! i = int (i + 2)"
    using plan_two_lost [of "used_marks g2" n] used2 gen_okD(11) [OF gen2(1)] n by auto
  have two: "filter (\<lambda>i. i + 2 \<noteq> i) [0..<2] = [0, 1 :: nat]" by (simp add: upt_2)
  obtain g3 where g3: "recover_group T g2 = Some (g3, map (group_call gid 2 n (\<lambda>i. src ! i)) [0, 1])" "gen_ok T 2 n sz g3"
    "last_group_id g3 = gid" "used_marks g3 = used_marks g2" "raw_packet_count g3 = 2" "packet_count g3 = 4"
    "take sz (input_data g3 ! 2) = ?Z"
  proof -
    have "\<exists>g'. recover_group T g2 = Some (g', map (group_call (last_group_id g2) 2 n (\<lambda>i. src ! i)) (filter (\<lambda>i. i + 2 \<noteq> i) [0..<2])) \<and>
      gen_ok T 2 n sz g' \<and> last_group_id g' = last_group_id g2 \<and> used_marks g' = used_marks g2 \<and>
      raw_packet_count g' = int16 (raw_packet_count g2 + int (length (filter (\<lambda>i. i + 2 \<noteq> i) [0..<2 :: nat]))) \<and>
      packet_count g' = int16 (packet_count g2 + int (length (filter (\<lambda>i. i + 2 \<noteq> i) [0..<2 :: nat]))) \<and>
      (\<forall>i<2. take sz (input_data g' ! (i + 2)) = src ! i)"
    proof (rule recover_planned [OF gen2(1) plan2(1,2) _ _ _ tab code src])
      show "take sz (input_data g2 ! (i + 2)) = ?pk (i + 2)" if "i < 2" for i
        using less_2_cases [OF that] inp2 by (auto simp: numeral_2_eq_2 numeral_3_eq_3)
    qed (use plan2(3) n in \<open>auto simp: inj_on_def\<close>)
    then obtain g' where g': "recover_group T g2 = Some (g', map (group_call gid 2 n (\<lambda>i. src ! i)) [0, 1])" "gen_ok T 2 n sz g'"
      "last_group_id g' = gid" "used_marks g' = used_marks g2" "raw_packet_count g' = int16 2" "packet_count g' = int16 4"
      "\<forall>i<2. take sz (input_data g' ! (i + 2)) = src ! i"
      unfolding two gen2 by auto
    have "take sz (input_data g' ! (0 + 2)) = src ! 0" by (rule g'(7) [rule_format]) simp
    then have "take sz (input_data g' ! 2) = ?Z" by (simp add: numeral_2_eq_2)
    then show thesis using g'(1-6) by (intro that [of g']) (simp_all add: int16_small)
  qed
  have d3: "Decode T h3 d3 g1 = Some (g3, map (group_call gid 2 n (\<lambda>i. src ! i)) [0, 1])"
    using Decode_same_group [of h3 g1 T d3] st2(1) g3(1) gen2 c3 g1(2) by (simp add: g1'_def carries_def arrived_def)
  define g3' where "g3' = g3\<lparr>last_packet_size := int16 (uint (fech_last_packet_size h0))\<rparr>"
  define g4 where "g4 = stored 0 2 ?pk g3'"
  have gen3: "gen_ok T 2 n sz g3'" "last_group_id g3' = gid" "\<not> used_marks g3' ! 0" using g3(2-4) used2 by (simp_all add: g3'_def)
  have st4: "store_packet h0 d0 g3' = Some (g4, [group_call gid 2 n ?pk 0])" "gen_ok T 2 n sz g4"
    "take sz (input_data g4 ! 0) = ?pk 0"
    using store_packet_new [OF gen3(1,2) _ gen3(3) c0] n by (simp_all add: g4_def)
  have p0: "?pk 0 = ?Z" using fec_packet_original [OF code src, of 0] by (simp add: src(1))
  have g4: "last_group_id g4 = gid" "packet_count g4 = 5" "raw_packet_count g4 = 3" "fec_k g4 = 2" "take sz (input_data g4 ! 2) = ?Z"
    using g3 gen3(2) gen_okD(6) [OF st4(2)] by (simp_all add: g4_def stored_def g3'_def int16_small)
  have "used_marks g4 = (used_marks g2)[0 := True]" using g3(4) by (simp add: g4_def stored_def g3'_def)
  then obtain m' rec' ix' where plan4: "recovery_plan 2 n (used_marks g4) = (m', rec', ix')" "2 \<le> length ix'"
    "\<forall>i<2. m' ! i \<and> rec' ! i = Some (if i = 0 then 0 else 2) \<and> ix' ! i = int (if i = 0 then 0 else 2)"
    using plan_late [of "used_marks g4" n] used2 gen_okD(11) [OF st4(2)] n by auto
  have len: "length ?Z = sz" using packets_ok_nth [OF src, of 0] by simp
  then have Z: "packets_ok 2 sz (replicate 2 ?Z)" by (simp add: packets_ok_def)
  have one: "filter (\<lambda>i. (if i = 0 then 0 else 2) \<noteq> i) [0..<2] = [1 :: nat]" by (simp add: upt_2)
  have "\<exists>g'. recover_group T g4 = Some (g', map (group_call (last_group_id g4) 2 n (\<lambda>i. replicate 2 ?Z ! i))
      (filter (\<lambda>i. (if i = 0 then 0 else 2) \<noteq> i) [0..<2])) \<and>
      gen_ok T 2 n sz g' \<and> last_group_id g' = last_group_id g4 \<and> used_marks g' = used_marks g4 \<and>
      raw_packet_count g' = int16 (raw_packet_count g4 + int (length (filter (\<lambda>i. (if i = 0 then 0 else 2) \<noteq> i) [0..<2 :: nat]))) \<and>
      packet_count g' = int16 (packet_count g4 + int (length (filter (\<lambda>i. (if i = 0 then 0 else 2) \<noteq> i) [0..<2 :: nat]))) \<and>
      (\<forall>i<2. take sz (input_data g' ! (if i = 0 then 0 else 2)) = replicate 2 ?Z ! i)"
  proof (rule recover_planned [OF st4(2) plan4(1,2) _ _ _ tab code Z])
    show "inj_on (\<lambda>i :: nat. if i = 0 then 0 else 2 :: nat) {..<2}" by (auto simp: inj_on_def)
    show "take sz (input_data g4 ! (if i = 0 then 0 else 2)) = fec_packet T code sz (replicate 2 ?Z) (if i = 0 then 0 else 2)"
      if "i < 2" for i
      using encode_equal [OF tab code _ len] st4(3) p0 g4(5) n by simp
  qed (use plan4(3) n in auto)
  then obtain g5 where g5: "recover_group T g4 = Some (g5, [group_call gid 2 n (\<lambda>_. ?Z) 1])"
    unfolding one g4(1) by (auto simp: group_call_def)
  have d0: "Decode T h0 d0 g3 = Some (g5, [group_call gid 2 n (\<lambda>i. src ! i) 0, group_call gid 2 n (\<lambda>_. ?Z) 1])"
    using Decode_same_group [of h0 g3 T d0] st4(1) g5 g4 c0 g3(3) p0
    by (simp add: g3'_def carries_def group_call_def)
  have "decode_all T ps r0 = Some (g5, map (group_call gid 2 n (\<lambda>i. src ! i)) [0, 1] @
    [group_call gid 2 n (\<lambda>i. src ! i) 0, group_call gid 2 n (\<lambda>_. ?Z) 1])"
    using g1(1) d3 d0 by (simp add: ps_eq)
  moreover have "ps \<noteq> []" by (simp add: ps_eq)
  ultimately show ?thesis using decode_all_cleared [OF _ ps, of T r] by (simp add: r0_def)
qed

subsection \<open>Properties\<close>

text \<open>C6: a group goes through both generators. The sender passes all \<open>n\<close> packets of the group to its callback, in
  order; whichever \<open>k\<close> different ones of them reach the receiver, in whatever order, its callback gets every
  original exactly once, the received ones first, with the bytes that were sent.\<close>

theorem fec_group_delivered:
  assumes "tables_ok T" "gen_ok T k n sz s" "packet_count s = 0" "packets_ok k sz src"
    and "gen_ok T k n sz r" "expects (last_group_id s) r"
    and "length ix = k" "distinct ix" "set ix \<subseteq> {..<n}"
  shows "\<exists>s' calls. encode_all T src s = Some (s', calls) \<and> map call_index calls = map int [0..<n] \<and>
      gen_ok T k n sz s' \<and> packet_count s' = 0 \<and> last_group_id s' = last_group_id s + 1 \<and>
      (\<forall>ps. list_all2 (carries k n sz (\<lambda>i. call_data (calls ! i)) (last_group_id s)) ix ps \<longrightarrow>
        (\<exists>r' out. decode_all T ps r = Some (r', out) \<and> gen_ok T k n sz r' \<and>
           mset (map (\<lambda>c. (call_index c, call_data c)) out) = mset (map (\<lambda>i. (int i, src ! i)) [0..<k])))"
proof -
  note ok = gen_okD [OF assms(2)]
  obtain s' where s': "encode_all T src s = Some (s', map (group_call (last_group_id s) k n (fec_packet T (fg_code s) sz src)) [0..<n])"
    "gen_ok T k n sz s'" "packet_count s' = 0" "last_group_id s' = last_group_id s + 1"
    using encode_group [OF assms(2,3,1,4)] by blast
  let ?calls = "map (group_call (last_group_id s) k n (fec_packet T (fg_code s) sz src)) [0..<n]"
  have call: "call_data (?calls ! i) = fec_packet T (fg_code s) sz src i" if "i < n" for i
    using that by (simp add: group_call_def)
  have "\<exists>r' out. decode_all T ps r = Some (r', out) \<and> gen_ok T k n sz r' \<and>
      mset (map (\<lambda>c. (call_index c, call_data c)) out) = mset (map (\<lambda>i. (int i, src ! i)) [0..<k])"
    if ps: "list_all2 (carries k n sz (\<lambda>i. call_data (?calls ! i)) (last_group_id s)) ix ps" for ps
  proof -
    have "list_all2 (carries k n sz (fec_packet T (fg_code s) sz src) (last_group_id s)) ix ps"
      using ps by (rule list.rel_mono_strong) (use assms(9) call in \<open>auto simp: carries_def subset_iff\<close>)
    moreover define ys where "ys = filter (\<lambda>i. i < k) ix @ filter (\<lambda>j. j \<notin> set ix) [0..<k]"
    ultimately obtain r' where r': "decode_all T ps r = Some (r', map (group_call (last_group_id s) k n (\<lambda>i. src ! i)) ys)"
      "gen_ok T k n sz r'"
      using group_received [OF assms(5-9) _ assms(1) ok(1) assms(4)] by blast
    have "mset ys = mset [0..<k]" unfolding ys_def by (rule originals_once [OF assms(8)])
    then have "mset (map (\<lambda>i. (int i, src ! i)) ys) = mset (map (\<lambda>i. (int i, src ! i)) [0..<k])" by (simp only: mset_map)
    moreover have "map (\<lambda>c. (call_index c, call_data c)) (map (group_call (last_group_id s) k n (\<lambda>i. src ! i)) ys) =
        map (\<lambda>i. (int i, src ! i)) ys" by (simp add: group_call_def)
    ultimately have "mset (map (\<lambda>c. (call_index c, call_data c)) (map (group_call (last_group_id s) k n (\<lambda>i. src ! i)) ys)) =
        mset (map (\<lambda>i. (int i, src ! i)) [0..<k])" by (simp only:)
    then show ?thesis using r' by blast
  qed
  then show ?thesis using s' by (intro exI [of _ s'] exI [of _ ?calls]) (simp add: group_call_def comp_def)
qed

text \<open>C22: an original that arrives after it has been recovered makes the receiver pass on a wrong packet. The
  recovered packets have replaced the redundant ones in the buffers, but these still count as redundant. With two
  originals, whatever they are, both recovered from packets 2 and 3, a late packet 0 is passed on a second time, and
  with it the bytes of packet 0 in the name of packet 1: a wrong packet, unless the two originals are equal.\<close>

theorem late_original_corrupts:
  assumes "gen_ok T 2 n sz r" "expects gid r" "4 \<le> n" "packets_ok 2 sz src"
    and "list_all2 (carries 2 n sz (fec_packet T code sz src) gid) [2, 3, 0] ps" "tables_ok T" "code_ok T 2 n code"
  shows "\<exists>r'. decode_all T ps r = Some (r', map (group_call gid 2 n (\<lambda>i. src ! i)) [0, 1] @
    [group_call gid 2 n (\<lambda>i. src ! i) 0, group_call gid 2 n (\<lambda>_. src ! 0) 1])"
  using assms by (rule late_original)

subsection \<open>An example\<close>

text \<open>Two new generators with two originals of one byte and four packets in all.\<close>

definition ex_gen4 :: FECGenerator where
  "ex_gen4 = snd (the (new_FECGenerator fec_state0 2 4 1 0 (\<lambda>_. []) (\<lambda>_. [])))"

lemma ex_gen4_new: "new_FECGenerator fec_state0 (int 2) (int 4) (int 1) 0 (\<lambda>_. []) (\<lambda>_. []) = Some (fec_tabs, ex_gen4)"
  using fec_new_state0 [of 2 4 0] by (simp add: ex_gen4_def new_FECGenerator_def)

lemmas ex_gen4_ok = new_FECGenerator_ok [OF ex_gen4_new fec_ready_state0]

lemma ex_gen4_gen_ok: "gen_ok fec_tabs 2 4 (Suc 0) ex_gen4"
  using ex_gen4_ok(2) by simp

lemma ex_expects: "expects 0 ex_gen4"
  using ex_gen4_ok(3,4,5) by (simp add: expects_def)

theorem fec_group_delivered_witness:
  "\<exists>s' calls. encode_all fec_tabs [[7], [9]] ex_gen4 = Some (s', calls) \<and> map call_index calls = map int [0..<4] \<and>
      gen_ok fec_tabs 2 4 1 s' \<and> packet_count s' = 0 \<and> last_group_id s' = last_group_id ex_gen4 + 1 \<and>
      (\<forall>ps. list_all2 (carries 2 4 1 (\<lambda>i. call_data (calls ! i)) (last_group_id ex_gen4)) [3, 1] ps \<longrightarrow>
        (\<exists>r' out. decode_all fec_tabs ps ex_gen4 = Some (r', out) \<and> gen_ok fec_tabs 2 4 1 r' \<and>
           mset (map (\<lambda>c. (call_index c, call_data c)) out) = mset (map (\<lambda>i. (int i, [[7], [9]] ! i)) [0..<2])))"
  by (rule fec_group_delivered) (simp_all add: ex_gen4_ok ex_gen4_gen_ok ex_expects packets_ok_def)

definition ex_late :: "nat \<Rightarrow> TESTFECHeader \<times> u8 list" where
  "ex_late i = (\<lparr>fech_type = 13, fech_length = 1, fech_k = 2, fech_n = 4, fech_index = of_nat i, fech_group_id = 0, fech_sequence = 0,
     fech_packet_size = 1, fech_last_packet_size = 1, fech_is_last_packet = 0\<rparr>, fec_packet fec_tabs (fg_code ex_gen4) 1 [[5], [9]] i)"

lemma ex_late_carries: "i < 4 \<Longrightarrow> carries 2 4 1 (fec_packet fec_tabs (fg_code ex_gen4) 1 [[5], [9]]) 0 i (ex_late i)"
proof -
  assume i: "i < 4"
  have code: "code_ok fec_tabs 2 4 (fg_code ex_gen4)" using gen_okD(1) [OF ex_gen4_ok(2)] by simp
  have "packets_ok 2 1 [[5], [9 :: u8]]" by (simp add: packets_ok_def)
  then obtain p where "fec_encode fec_tabs (fg_code ex_gen4) [[5], [9]] (replicate 1 0) (int i) 1 = Some p" "length p = 1"
    using gf_tables.fec_encode_spec [of fec_tabs 2 4 "fg_code ex_gen4" 1 "[[5], [9]]" "replicate 1 0" i] code i fec_tabs_ok
    by (auto simp: gf_tables_def)
  then show ?thesis by (simp add: carries_def ex_late_def fec_packet_def)
qed

theorem late_original_corrupts_witness:
  "\<exists>r'. decode_all fec_tabs [ex_late 2, ex_late 3, ex_late 0] ex_gen4 = Some (r', map (group_call 0 2 4 (\<lambda>i. [[5], [9]] ! i)) [0, 1] @
    [group_call 0 2 4 (\<lambda>i. [[5], [9]] ! i) 0, group_call 0 2 4 (\<lambda>_. [[5], [9]] ! 0) 1])"
proof (rule late_original_corrupts [OF _ ex_expects])
  show "list_all2 (carries 2 4 1 (fec_packet fec_tabs (fg_code ex_gen4) 1 [[5], [9]]) 0) [2, 3, 0] [ex_late 2, ex_late 3, ex_late 0]"
    using ex_late_carries by simp
  show "code_ok fec_tabs 2 4 (fg_code ex_gen4)" using gen_okD(1) [OF ex_gen4_ok(2)] by simp
qed (simp_all add: ex_gen4_ok ex_gen4_gen_ok packets_ok_def)

end
