(* ===== verification/RsGalois.thy ===== *)
theory RsGalois
  imports ByteField
begin

text \<open>
  Galois arithmetic of the Reed-Solomon library (\<open>rscode-1.3/galois.c\<close>). The tables are
  arrays of \<open>int\<close>; the register of the generator is eight \<open>int\<close> variables \<open>p1\<close> to \<open>p8\<close>. The
  last section shows that \<open>gmult\<close> and \<open>ginv\<close> implement the reference field on bytes and
  interprets the interface \<open>byte_field\<close> with them.
\<close>

subsection \<open>The tables\<close>

record galois_tables =
  gexp :: "int list"
  glog :: "int list"

definition galois0 :: galois_tables where
  "galois0 = \<lparr>gexp = replicate 512 0, glog = replicate 256 0\<rparr>"

text \<open>The shift register \<open>p1, ..., p8\<close>, and one turn of it.\<close>

type_synonym lfsr8 = "int \<times> int \<times> int \<times> int \<times> int \<times> int \<times> int \<times> int"

definition exp_shift :: "lfsr8 \<Rightarrow> lfsr8" where
  "exp_shift = (\<lambda>(p1, p2, p3, p4, p5, p6, p7, p8).
     let pinit = p8; p8 = p7; p7 = p6; p6 = p5; p5 = p4 XOR pinit; p4 = p3 XOR pinit; p3 = p2 XOR pinit;
         p2 = p1; p1 = pinit
     in (p1, p2, p3, p4, p5, p6, p7, p8))"

definition exp_value :: "lfsr8 \<Rightarrow> int" where
  "exp_value = (\<lambda>(p1, p2, p3, p4, p5, p6, p7, p8).
     p1 + p2 * 2 + p3 * 4 + p4 * 8 + p5 * 16 + p6 * 32 + p7 * 64 + p8 * 128)"

definition exp_step :: "nat \<Rightarrow> lfsr8 \<times> galois_tables \<Rightarrow> lfsr8 \<times> galois_tables" where
  "exp_step i = (\<lambda>(p, G).
     let p = exp_shift p;
         G = G\<lparr>gexp := (gexp G)[i := exp_value p]\<rparr>;
         G = G\<lparr>gexp := (gexp G)[i + 255 := gexp G ! i]\<rparr>
     in (p, G))"

text \<open>\<open>for (z = 0; z < 256; z++) if (gexp[z] == i) { glog[i] = z; break; }\<close>\<close>

definition log_step :: "nat \<Rightarrow> galois_tables \<Rightarrow> galois_tables" where
  "log_step i G = (case find (\<lambda>z. gexp G ! z = int i) [0..<256] of
     Some z \<Rightarrow> G\<lparr>glog := (glog G)[i := int z]\<rparr> | None \<Rightarrow> G)"

definition init_exp_table :: "galois_tables \<Rightarrow> galois_tables" where
  "init_exp_table G =
     (let G = G\<lparr>gexp := (gexp G)[0 := 1]\<rparr>;
          G = G\<lparr>gexp := (gexp G)[255 := gexp G ! 0]\<rparr>;
          G = G\<lparr>glog := (glog G)[0 := 0]\<rparr>;
          G = snd (fold exp_step [1..<256] ((1, 0, 0, 0, 0, 0, 0, 0), G))
      in fold log_step [1..<256] G)"

definition init_galois_tables :: "galois_tables \<Rightarrow> galois_tables" where
  "init_galois_tables G = init_exp_table G"

definition gmult :: "galois_tables \<Rightarrow> int \<Rightarrow> int \<Rightarrow> int" where
  "gmult G a b =
     (if a = 0 \<or> b = 0 then 0
      else let i = glog G ! nat a; j = glog G ! nat b in gexp G ! nat (i + j))"

definition ginv :: "galois_tables \<Rightarrow> int \<Rightarrow> int" where
  "ginv G elt = gexp G ! nat (255 - glog G ! nat elt)"

subsection \<open>Bytes held in an \<open>int\<close>\<close>

definition is_byte :: "int \<Rightarrow> bool" where
  "is_byte x \<longleftrightarrow> 0 \<le> x \<and> x < 256"

definition gfi :: "int \<Rightarrow> gf256" where
  "gfi x = GF (word_of_int x)"

lemma gfi_0 [simp]: "gfi 0 = 0" by (simp add: gfi_def)
lemma gfi_1 [simp]: "gfi 1 = 1" by (simp add: gfi_def)
lemma is_byte_0 [simp]: "is_byte 0" by (simp add: is_byte_def)
lemma is_byte_1 [simp]: "is_byte 1" by (simp add: is_byte_def)

lemma is_byte_uint [simp]: "is_byte (uint (a :: u8))"
  using unsigned_less [of a, where ?'a = int] by (simp add: is_byte_def)

lemma gfi_uint [simp]: "gfi (uint a) = GF a" by (simp add: gfi_def)

lemma is_byte_uint_ex: "is_byte x \<Longrightarrow> \<exists>a :: u8. x = uint a"
  by (rule exI [of _ "word_of_int x"]) (simp add: is_byte_def uint_word_of_int_eq take_bit_int_eq_self)

lemma gfi_inj: "is_byte a \<Longrightarrow> is_byte b \<Longrightarrow> gfi a = gfi b \<Longrightarrow> a = b"
  using is_byte_uint_ex [of a] is_byte_uint_ex [of b] by auto

lemma is_byte_xor [simp]: "is_byte a \<Longrightarrow> is_byte b \<Longrightarrow> is_byte (a XOR b)"
  using is_byte_uint_ex [of a] is_byte_uint_ex [of b] by (auto simp flip: unsigned_xor_eq)

lemma gfi_xor: "gfi (a XOR b) = gfi a + gfi b"
proof -
  have "(word_of_int (a XOR b) :: u8) = word_of_int a XOR word_of_int b"
    by (rule bit_word_eqI) (simp add: bit_simps)
  then show ?thesis by (simp add: gfi_def GF_xor)
qed

lemma gfi_eq_0 [simp]: "is_byte a \<Longrightarrow> gfi a = 0 \<longleftrightarrow> a = 0"
  using gfi_inj [of a 0] by auto

lemma uint_bits: "uint (a :: u8) = of_bool (bit a 0) + of_bool (bit a 1) * 2 + of_bool (bit a 2) * 4 + of_bool (bit a 3) * 8
   + of_bool (bit a 4) * 16 + of_bool (bit a 5) * 32 + of_bool (bit a 6) * 64 + of_bool (bit a 7) * 128"
proof -
  have "uint a = take_bit 8 (uint a)" using unsigned_less [of a, where ?'a = int] by (simp add: take_bit_int_eq_self)
  also have "\<dots> = horner_sum of_bool 2 (map (bit (uint a)) [0..<8])" by (rule horner_sum_bit_eq_take_bit [symmetric])
  also have "[0..<8] = [0, 1, 2, 3, 4, 5, 6, 7]" by code_simp
  finally show ?thesis by (simp add: bit_uint_iff del: of_bool_eq_iff)
qed

subsection \<open>The loop that builds the powers\<close>

text \<open>The register holds the bits of a byte, and a turn multiplies it by the generator.\<close>

definition reg_of :: "u8 \<Rightarrow> lfsr8" where
  "reg_of a = (of_bool (bit a 0), of_bool (bit a 1), of_bool (bit a 2), of_bool (bit a 3),
     of_bool (bit a 4), of_bool (bit a 5), of_bool (bit a 6), of_bool (bit a 7))"

lemma exp_value_reg: "exp_value (reg_of a) = uint a"
  unfolding uint_bits by (simp add: exp_value_def reg_of_def)

lemma xor_of_bool: "(of_bool p XOR of_bool q :: int) = of_bool (p \<noteq> q)"
  by (cases p; cases q) simp_all

lemma bit_xt8: "n < 8 \<Longrightarrow> bit (xt8 a) n \<longleftrightarrow> (1 \<le> n \<and> bit a (n - 1)) \<noteq> (bit a 7 \<and> bit (29 :: u8) n)"
  unfolding xt8_def bit_xor_iff bit_push_bit_iff by (auto simp: bit_iff_odd)

lemma exp_shift_reg: "exp_shift (reg_of a) = reg_of (xt8 a)"
proof -
  have bits: "bit (29 :: u8) 0" "\<not> bit (29 :: u8) 1" "bit (29 :: u8) 2" "bit (29 :: u8) 3" "bit (29 :: u8) 4"
    "\<not> bit (29 :: u8) 5" "\<not> bit (29 :: u8) 6" "\<not> bit (29 :: u8) 7" by code_simp+
  have x: "bit (xt8 a) 0 = bit a 7" "bit (xt8 a) 1 = bit a 0" "bit (xt8 a) 2 = (bit a 1 \<noteq> bit a 7)"
    "bit (xt8 a) 3 = (bit a 2 \<noteq> bit a 7)" "bit (xt8 a) 4 = (bit a 3 \<noteq> bit a 7)" "bit (xt8 a) 5 = bit a 4"
    "bit (xt8 a) 6 = bit a 5" "bit (xt8 a) 7 = bit a 6"
    by (subst bit_xt8; simp add: bits)+
  show ?thesis unfolding exp_shift_def reg_of_def x by (simp add: Let_def xor_of_bool)
qed

definition exp_inv :: "nat \<Rightarrow> lfsr8 \<times> galois_tables \<Rightarrow> bool" where
  "exp_inv i = (\<lambda>(p, G). length (gexp G) = 512 \<and> length (glog G) = 256 \<and> glog G ! 0 = 0 \<and>
     (\<exists>a. p = reg_of a \<and> GF a = alpha ^ (i - 1)) \<and>
     (\<forall>j<i. is_byte (gexp G ! j) \<and> gfi (gexp G ! j) = alpha ^ j \<and> gexp G ! (j + 255) = gexp G ! j))"

lemma exp_inv_step:
  assumes i: "1 \<le> i" "i < 256" and inv: "exp_inv i s"
  shows "exp_inv (Suc i) (exp_step i s)"
proof -
  obtain p G where s: "s = (p, G)" by (cases s)
  obtain a where a: "p = reg_of a" "GF a = alpha ^ (i - 1)" using inv by (auto simp: s exp_inv_def)
  have xa: "GF (xt8 a) = alpha ^ i"
  proof -
    have "GF (xt8 a) = xt (GF a)" by (simp add: xt_def)
    also have "\<dots> = alpha * alpha ^ (i - 1)" unfolding a(2) by (simp add: alpha_times)
    finally show ?thesis using i by (simp flip: power_Suc)
  qed
  define G' where "G' = G\<lparr>gexp := (gexp G)[i := uint (xt8 a), i + 255 := uint (xt8 a)]\<rparr>"
  have len: "length (gexp G) = 512" using inv by (simp add: s exp_inv_def)
  have "exp_step i s = (reg_of (xt8 a), G')"
    using len i by (simp add: s exp_step_def a(1) exp_shift_reg exp_value_reg G'_def)
  moreover have "is_byte (gexp G' ! j) \<and> gfi (gexp G' ! j) = alpha ^ j \<and> gexp G' ! (j + 255) = gexp G' ! j" if "j < Suc i" for j
  proof (cases "j = i")
    case True
    then show ?thesis using len i xa by (simp add: G'_def nth_list_update)
  next
    case False
    then have j: "j < i" using that by simp
    then have old: "is_byte (gexp G ! j)" "gfi (gexp G ! j) = alpha ^ j" "gexp G ! (j + 255) = gexp G ! j"
      using inv by (auto simp: s exp_inv_def)
    show ?thesis
    proof (cases "j + 255 = i")
      case True
      then have "i = 255" "j = 0" using i by auto
      then have "GF (xt8 a) = 1" using xa alpha_255 by simp
      then have "uint (xt8 a) = gexp G ! 0"
        using old \<open>j = 0\<close> by (intro gfi_inj) simp_all
      then show ?thesis using old True len \<open>j = 0\<close> i by (simp add: G'_def nth_list_update)
    next
      case F: False
      then show ?thesis using old len j by (simp add: G'_def nth_list_update)
    qed
  qed
  ultimately show ?thesis using inv xa by (auto simp: s exp_inv_def G'_def)
qed

subsection \<open>The loop that inverts it\<close>

definition exps_ok :: "galois_tables \<Rightarrow> bool" where
  "exps_ok G \<longleftrightarrow> length (gexp G) = 512 \<and> length (glog G) = 256 \<and> glog G ! 0 = 0 \<and>
     (\<forall>j<511. is_byte (gexp G ! j) \<and> gfi (gexp G ! j) = alpha ^ j)"

definition galois_ok :: "galois_tables \<Rightarrow> bool" where
  "galois_ok G \<longleftrightarrow> exps_ok G \<and>
     (\<forall>x. is_byte x \<and> x \<noteq> 0 \<longrightarrow> 0 \<le> glog G ! nat x \<and> glog G ! nat x < 255 \<and> alpha ^ nat (glog G ! nat x) = gfi x)"

lemma exp_inv_ok: "exp_inv 256 (p, G) \<Longrightarrow> exps_ok G"
proof -
  assume inv: "exp_inv 256 (p, G)"
  have "is_byte (gexp G ! j) \<and> gfi (gexp G ! j) = alpha ^ j" if "j < 511" for j
  proof (cases "j < 256")
    case True
    then show ?thesis using inv by (simp add: exp_inv_def)
  next
    case False
    define i where "i = j - 255"
    have i: "j = i + 255" "i < 256" using False that by (auto simp: i_def)
    then show ?thesis using inv by (simp add: exp_inv_def power_add alpha_255)
  qed
  then show ?thesis using inv by (simp add: exp_inv_def exps_ok_def)
qed

definition log_inv :: "nat \<Rightarrow> galois_tables \<Rightarrow> bool" where
  "log_inv i G \<longleftrightarrow> exps_ok G \<and>
     (\<forall>x. 0 < x \<and> x < i \<longrightarrow> 0 \<le> glog G ! x \<and> glog G ! x < 255 \<and> alpha ^ nat (glog G ! x) = gfi (int x))"

lemma log_inv_step:
  assumes i: "1 \<le> i" "i < 256" and inv: "log_inv i G"
  shows "log_inv (Suc i) (log_step i G)"
proof -
  have ex: "\<And>j. j < 511 \<Longrightarrow> is_byte (gexp G ! j) \<and> gfi (gexp G ! j) = alpha ^ j"
    using inv by (auto simp: log_inv_def exps_ok_def)
  have bi: "is_byte (int i)" "gfi (int i) \<noteq> 0" using i by (auto simp: is_byte_def)
  have hit: "gexp G ! z = int i \<longleftrightarrow> alpha ^ z = gfi (int i)" if "z < 511" for z
    using ex [OF that] bi(1) gfi_inj by metis
  obtain l where l: "l < 255" "gfi (int i) = alpha ^ l" using bi(2) by (rule nz_is_alpha_power)
  have "find (\<lambda>z. gexp G ! z = int i) [0..<256] = Some l"
    unfolding find_Some_iff
  proof (intro exI conjI allI impI)
    fix j assume "j < l"
    then show "gexp G ! ([0..<256] ! j) \<noteq> int i"
      using hit [of j] l alpha_power_less_inj [of j l] by auto
  qed (use l hit [of l] in auto)
  then have "log_step i G = G\<lparr>glog := (glog G)[i := int l]\<rparr>" by (simp add: log_step_def)
  then show ?thesis
    using inv i l by (auto simp: log_inv_def exps_ok_def nth_list_update less_Suc_eq)
qed

lemma init_galois_ok:
  assumes "length (gexp G) = 512" "length (glog G) = 256"
  shows "galois_ok (init_galois_tables G)"
proof -
  define G1 where "G1 = G\<lparr>gexp := (gexp G)[0 := 1, 255 := 1], glog := (glog G)[0 := 0]\<rparr>"
  define s where "s = fold exp_step [1..<256] ((1, 0, 0, 0, 0, 0, 0, 0), G1)"
  have "(1, 0, 0, 0, 0, 0, 0, 0) = reg_of 1" by (simp add: reg_of_def bit_1_iff)
  then have "exp_inv 1 ((1, 0, 0, 0, 0, 0, 0, 0), G1)"
    using assms by (auto simp: exp_inv_def G1_def intro!: exI [of _ 1])
  then have "exp_inv 256 s"
    unfolding s_def by (intro fold_upt_inv [where P = exp_inv]) (auto intro: exp_inv_step)
  then have "log_inv 1 (snd s)" using exp_inv_ok [of "fst s" "snd s"] by (auto simp: log_inv_def)
  then have "log_inv 256 (fold log_step [1..<256] (snd s))"
    by (intro fold_upt_inv [where P = log_inv]) (auto intro: log_inv_step)
  moreover have "init_galois_tables G = fold log_step [1..<256] (snd s)"
    using assms by (simp add: init_galois_tables_def init_exp_table_def s_def G1_def Let_def)
  ultimately have ok: "log_inv 256 (init_galois_tables G)" by simp
  have "0 \<le> glog (init_galois_tables G) ! nat x \<and> glog (init_galois_tables G) ! nat x < 255 \<and>
      alpha ^ nat (glog (init_galois_tables G) ! nat x) = gfi x" if "is_byte x" "x \<noteq> 0" for x
  proof -
    have "0 < nat x" "nat x < 256" "x = int (nat x)" using that by (auto simp: is_byte_def)
    then show ?thesis using ok unfolding log_inv_def by (metis (no_types, lifting))
  qed
  then show ?thesis using ok by (simp add: galois_ok_def log_inv_def)
qed

subsection \<open>The arithmetic as a provider of the byte field\<close>

locale galois =
  fixes G :: galois_tables
  assumes tabs: "galois_ok G"
begin

lemma gexp_ok: "j < 511 \<Longrightarrow> is_byte (gexp G ! j)" "j < 511 \<Longrightarrow> gfi (gexp G ! j) = alpha ^ j"
  using tabs by (auto simp: galois_ok_def exps_ok_def)

lemma glog_ok:
  assumes "is_byte x" "x \<noteq> 0"
  obtains l where "glog G ! nat x = int l" "l < 255" "gfi x = alpha ^ l"
proof -
  have "0 \<le> glog G ! nat x" "glog G ! nat x < 255" "alpha ^ nat (glog G ! nat x) = gfi x"
    using tabs assms by (auto simp: galois_ok_def)
  then show thesis by (intro that [of "nat (glog G ! nat x)"]) auto
qed

lemma gmult_ok:
  assumes "is_byte a" "is_byte b"
  shows "is_byte (gmult G a b)" and "gfi (gmult G a b) = gfi a * gfi b"
proof -
  have "is_byte (gmult G a b) \<and> gfi (gmult G a b) = gfi a * gfi b"
  proof (cases "a = 0 \<or> b = 0")
    case False
    obtain i j where "glog G ! nat a = int i" "i < 255" "gfi a = alpha ^ i"
      "glog G ! nat b = int j" "j < 255" "gfi b = alpha ^ j"
      using False assms glog_ok by metis
    moreover have "nat (int i + int j) = i + j" by simp
    ultimately show ?thesis using False gexp_ok [of "i + j"] by (simp add: gmult_def power_add)
  qed (auto simp: gmult_def)
  then show "is_byte (gmult G a b)" and "gfi (gmult G a b) = gfi a * gfi b" by simp_all
qed

lemma ginv_ok:
  assumes "is_byte a"
  shows "is_byte (ginv G a)" and "a \<noteq> 0 \<Longrightarrow> gfi (ginv G a) = inverse (gfi a)"
proof -
  have "glog G ! 0 = 0" using tabs by (simp add: galois_ok_def exps_ok_def)
  then have "\<exists>l. glog G ! nat a = int l \<and> l < 255"
    using glog_ok [OF assms] by (cases "a = 0") (auto intro: exI [of _ 0])
  then obtain l where "glog G ! nat a = int l" by blast
  moreover have "nat (255 - int l) < 511" by simp
  ultimately show "is_byte (ginv G a)" using gexp_ok(1) by (simp add: ginv_def)
  assume "a \<noteq> 0"
  then obtain l where l: "glog G ! nat a = int l" "l < 255" "gfi a = alpha ^ l" using glog_ok assms by metis
  have "nat (255 - int l) = 255 - l" using l(2) by simp
  then show "gfi (ginv G a) = inverse (gfi a)"
    using l gexp_ok(2) [of "255 - l"] by (simp add: ginv_def inverse_alpha_power)
qed

end

sublocale galois \<subseteq> byte_field is_byte gfi 0 "(XOR)" "gmult G" "ginv G"
  by unfold_locales (auto simp: gfi_xor gmult_ok ginv_ok intro: gfi_inj)

text \<open>The tables of the running library.\<close>

definition rs_tabs :: galois_tables where
  "rs_tabs = init_galois_tables galois0"

interpretation rs: galois rs_tabs
  by unfold_locales (simp add: rs_tabs_def init_galois_ok galois0_def)

end
