(* ===== verification/Series.thy ===== *)
theory Series
  imports Linear
begin

text \<open>
  Coefficient sequences and their product, for the polynomial arithmetic of the
  Reed-Solomon decoder. A polynomial is the function that gives its coefficients; \<open>conv\<close> is
  the product. \<open>locator xs\<close> is the product of the factors \<open>1 + x z\<close>, the polynomial the
  decoder looks for, and the last section has the two facts its decoding formula rests on: the
  value of the derivative at an inverse root and the quotient by one factor.
\<close>

definition conv :: "(nat \<Rightarrow> 'a::comm_ring_1) \<Rightarrow> (nat \<Rightarrow> 'a) \<Rightarrow> nat \<Rightarrow> 'a" where
  "conv p q n = (\<Sum>i\<le>n. p i * q (n - i))"

definition delta :: "nat \<Rightarrow> 'a::comm_ring_1" where
  "delta i = (if i = 0 then 1 else 0)"

text \<open>Multiplication by \<open>z\<close>.\<close>

definition zshift :: "(nat \<Rightarrow> 'a::comm_ring_1) \<Rightarrow> nat \<Rightarrow> 'a" where
  "zshift p i = (case i of 0 \<Rightarrow> 0 | Suc j \<Rightarrow> p j)"

lemma zshift_simps [simp]: "zshift p 0 = 0" "zshift p (Suc j) = p j"
  by (simp_all add: zshift_def)

lemma conv_commute: "conv p q = conv q p"
proof
  fix n
  show "conv p q n = conv q p n"
    unfolding conv_def by (rule sum.reindex_bij_witness [where i = "\<lambda>i. n - i" and j = "\<lambda>i. n - i"]) (auto simp: mult.commute)
qed

lemma conv_assoc: "conv (conv p q) r n = conv p (conv q r) n"
proof -
  have "conv (conv p q) r n = (\<Sum>m\<le>n. \<Sum>i\<le>m. p i * q (m - i) * r (n - m))"
    by (simp add: conv_def sum_distrib_right)
  also have "\<dots> = (\<Sum>(m, i)\<in>(SIGMA m:{..n}. {..m}). p i * q (m - i) * r (n - m))"
    by (simp add: sum.Sigma)
  also have "\<dots> = (\<Sum>(i, j)\<in>(SIGMA i:{..n}. {..n - i}). p i * q j * r (n - i - j))"
    by (rule sum.reindex_bij_witness [where i = "\<lambda>(i, j). (i + j, i)" and j = "\<lambda>(m, i). (i, m - i)"]) auto
  also have "\<dots> = (\<Sum>i\<le>n. \<Sum>j\<le>n - i. p i * q j * r (n - i - j))"
    by (simp add: sum.Sigma)
  also have "\<dots> = conv p (conv q r) n"
    by (simp add: conv_def sum_distrib_left mult.assoc)
  finally show ?thesis .
qed

lemma conv_delta [simp]: "conv p delta n = p n"
proof -
  have "conv p delta n = (\<Sum>i\<in>{n}. p i * delta (n - i))"
    unfolding conv_def by (rule sum.mono_neutral_right) (auto simp: delta_def)
  then show ?thesis by (simp add: delta_def)
qed

lemma conv_delta_left [simp]: "conv delta p n = p n"
  using conv_delta [of p n] by (simp add: conv_commute)

lemma conv_zshift_right: "conv p (zshift q) = zshift (conv p q)"
proof
  fix n
  show "conv p (zshift q) n = zshift (conv p q) n"
  proof (cases n)
    case 0
    then show ?thesis by (simp add: conv_def)
  next
    case (Suc m)
    have "conv p (zshift q) (Suc m) = (\<Sum>i\<le>m. p i * zshift q (Suc m - i))" by (simp add: conv_def)
    also have "\<dots> = conv p q m" unfolding conv_def by (intro sum.cong) (auto simp: Suc_diff_le)
    finally show ?thesis by (simp add: Suc)
  qed
qed

lemma conv_add_right: "conv p (\<lambda>i. q i + r i) n = conv p q n + conv p r n"
  by (simp add: conv_def distrib_left sum.distrib)

lemma conv_scale_right: "conv p (\<lambda>i. c * q i) n = c * conv p q n"
  by (simp add: conv_def sum_distrib_left ac_simps)

lemma conv_add_left: "conv (\<lambda>i. q i + r i) p n = conv q p n + conv r p n"
  by (simp add: conv_def distrib_right sum.distrib)

lemma conv_scale_left: "conv (\<lambda>i. c * q i) p n = c * conv q p n"
  by (simp add: conv_def sum_distrib_left ac_simps)

lemma conv_sum_right: "finite A \<Longrightarrow> conv p (\<lambda>i. \<Sum>a\<in>A. f a i) n = (\<Sum>a\<in>A. conv p (f a) n)"
  unfolding conv_def by (simp add: sum_distrib_left) (rule sum.swap)

lemma conv_cong: "(\<And>i. i \<le> n \<Longrightarrow> p i = p' i) \<Longrightarrow> (\<And>i. i \<le> n \<Longrightarrow> q i = q' i) \<Longrightarrow> conv p q n = conv p' q' n"
  by (simp add: conv_def)

text \<open>Leaving out the coefficients beyond the degree.\<close>

lemma conv_degree:
  assumes "\<And>i. d < i \<Longrightarrow> p i = 0" "d \<le> n"
  shows "conv p q n = (\<Sum>i\<le>d. p i * q (n - i))"
  unfolding conv_def using assms by (intro sum.mono_neutral_right) auto

subsection \<open>The locator polynomial\<close>

fun locator :: "gf256 list \<Rightarrow> nat \<Rightarrow> gf256" where
  "locator [] = delta"
| "locator (x # xs) = (\<lambda>i. locator xs i + x * zshift (locator xs) i)"

lemma locator_0 [simp]: "locator xs 0 = 1"
  by (induction xs) (simp_all add: delta_def)

lemma locator_degree: "length xs < i \<Longrightarrow> locator xs i = 0"
proof (induction xs arbitrary: i)
  case Nil
  then show ?case by (simp add: delta_def)
next
  case (Cons x xs)
  then obtain j where "i = Suc j" by (cases i) auto
  with Cons show ?case by simp
qed

lemma conv_locator_Cons: "conv (locator (x # xs)) s n = conv (locator xs) (\<lambda>i. s i + x * zshift s i) n"
proof -
  have "conv (locator (x # xs)) s n = conv (locator xs) s n + x * conv (zshift (locator xs)) s n"
    by (simp add: conv_add_left conv_scale_left)
  also have "conv (zshift (locator xs)) s n = conv (locator xs) (zshift s) n"
    unfolding conv_commute [of "zshift (locator xs)"] conv_zshift_right conv_commute [of s] ..
  finally show ?thesis by (simp add: conv_add_right conv_scale_right)
qed

lemma locator_append: "locator (xs @ ys) n = conv (locator xs) (locator ys) n"
proof (induction xs arbitrary: n)
  case Nil
  then show ?case by simp
next
  case (Cons x xs)
  then have eq: "locator (xs @ ys) = conv (locator xs) (locator ys)" by (simp add: fun_eq_iff)
  have "locator ((x # xs) @ ys) n = conv (locator xs) (locator ys) n + x * zshift (conv (locator xs) (locator ys)) n"
    by (simp add: eq)
  also have "\<dots> = conv (locator (x # xs)) (locator ys) n"
    unfolding conv_locator_Cons conv_add_right conv_scale_right conv_zshift_right ..
  finally show ?case .
qed

text \<open>The value at a point, for any bound past the degree.\<close>

lemma peval_zshift: "peval (zshift p) (Suc n) x = x * peval p n x"
  by (simp add: peval_shift)

lemma peval_locator: "length xs < n \<Longrightarrow> peval (locator xs) n y = (\<Prod>x\<leftarrow>xs. 1 + x * y)"
proof (induction xs arbitrary: n)
  case Nil
  then obtain m where n: "n = Suc m" by (cases n) auto
  have "peval delta (Suc m) y = delta 0 + y * peval (\<lambda>i. delta (Suc i)) m y" by (rule peval_shift)
  then show ?case by (simp add: n delta_def peval_def)
next
  case (Cons x xs)
  then obtain m where n: "n = Suc m" "length xs < m" by (cases n) auto
  have "peval (locator (x # xs)) n y = peval (locator xs) n y + x * peval (zshift (locator xs)) n y"
    by (simp add: peval_def sum.distrib sum_distrib_left algebra_simps)
  also have "\<dots> = (\<Prod>x\<leftarrow>xs. 1 + x * y) + x * (y * peval (locator xs) m y)"
    using Cons.IH [of n] Cons.prems unfolding n(1) peval_zshift by simp
  also have "peval (locator xs) m y = (\<Prod>x\<leftarrow>xs. 1 + x * y)" using Cons.IH n by simp
  finally show ?case by (simp add: algebra_simps)
qed

lemma one_plus_eq_0: "1 + (u :: gf256) = 0 \<longleftrightarrow> u = 1"
  using gf_add_eq_0 [of 1 u] by metis

lemma prod_list_zero: "(\<Prod>x\<leftarrow>xs. 1 + x * (y :: gf256)) = 0 \<longleftrightarrow> (\<exists>x\<in>set xs. x * y = 1)"
  by (induction xs) (simp_all add: one_plus_eq_0)

subsection \<open>Derivative and quotient\<close>

text \<open>In characteristic 2 the derivative keeps the odd coefficients.\<close>

definition odd_part :: "(nat \<Rightarrow> gf256) \<Rightarrow> nat \<Rightarrow> gf256 \<Rightarrow> gf256" where
  "odd_part p m y = (\<Sum>i<m. p (2 * i + 1) * y ^ (2 * i))"

definition even_part :: "(nat \<Rightarrow> gf256) \<Rightarrow> nat \<Rightarrow> gf256 \<Rightarrow> gf256" where
  "even_part p m y = (\<Sum>i<m. p (2 * i) * y ^ (2 * i))"

lemma peval_parts: "peval p (2 * m) y = even_part p m y + y * odd_part p m y"
  by (induction m) (simp_all add: peval_def even_part_def odd_part_def algebra_simps)

lemma odd_part_factor:
  "odd_part (\<lambda>i. p i + x * zshift p i) m y = (1 + x * y) * odd_part p m y + x * peval p (2 * m) y"
proof -
  have "odd_part (\<lambda>i. p i + x * zshift p i) m y = odd_part p m y + x * even_part p m y"
    by (simp add: odd_part_def even_part_def sum.distrib sum_distrib_left algebra_simps)
  also have "even_part p m y = peval p (2 * m) y + y * odd_part p m y"
    by (simp add: peval_parts add.assoc)
  finally show ?thesis by (simp add: algebra_simps)
qed

lemma odd_part_locator:
  assumes "x \<in> set xs" "distinct xs" "length xs < 2 * m" "x * y = 1"
  shows "odd_part (locator xs) m y = x * (\<Prod>w\<leftarrow>remove1 x xs. 1 + w * y)"
  using assms(1-3)
proof (induction xs)
  case Nil
  then show ?case by simp
next
  case (Cons h xs)
  have len: "length xs < 2 * m" using Cons.prems by simp
  have "odd_part (locator (h # xs)) m y = (1 + h * y) * odd_part (locator xs) m y + h * (\<Prod>w\<leftarrow>xs. 1 + w * y)"
    by (simp add: odd_part_factor peval_locator [OF len])
  moreover have "(\<Prod>w\<leftarrow>xs. 1 + w * y) = 0" if "h \<noteq> x"
    using that Cons.prems(1) assms(4) by (auto simp: prod_list_zero)
  ultimately show ?case
    using Cons assms(4) by (cases "h = x") (simp_all add: algebra_simps)
qed

text \<open>Dividing by one factor: multiplying by its geometric series.\<close>

lemma conv_locator_power:
  assumes "x \<in> set xs"
  shows "conv (locator xs) (\<lambda>m. x ^ m) n = locator (remove1 x xs) n"
  using assms
proof (induction xs arbitrary: n)
  case Nil
  then show ?case by simp
next
  case (Cons h xs)
  show ?case
  proof (cases "h = x")
    case True
    have "(\<lambda>i. x ^ i + x * zshift (\<lambda>m. x ^ m) i) = delta"
    proof
      fix i show "x ^ i + x * zshift (\<lambda>m. x ^ m) i = delta i" by (cases i) (simp_all add: delta_def)
    qed
    then show ?thesis unfolding conv_locator_Cons True by simp
  next
    case False
    then have IH: "conv (locator xs) (\<lambda>m. x ^ m) = locator (remove1 x xs)" using Cons by (simp add: fun_eq_iff)
    then show ?thesis
      unfolding conv_locator_Cons conv_add_right conv_scale_right conv_zshift_right using False by simp
  qed
qed

lemma peval_cong_low: "(\<And>i. i < n \<Longrightarrow> p i = q i) \<Longrightarrow> peval p n y = peval q n y"
  by (simp add: peval_def)

lemma peval_sum: "finite A \<Longrightarrow> peval (\<lambda>i. \<Sum>a\<in>A. f a i) n y = (\<Sum>a\<in>A. peval (f a) n y)"
  unfolding peval_def by (simp add: sum_distrib_right) (rule sum.swap)

text \<open>
  The syndromes of an error pattern: position values \<open>xs\<close> with magnitudes \<open>e\<close>. Multiplied by the
  locator they give the evaluator, whose value at an inverse position singles out one error.
\<close>

definition synd :: "gf256 list \<Rightarrow> (gf256 \<Rightarrow> gf256) \<Rightarrow> nat \<Rightarrow> gf256" where
  "synd xs e n = (\<Sum>x\<in>set xs. e x * x ^ (n + 1))"

lemma conv_locator_synd:
  "conv (locator xs) (synd xs e) n = (\<Sum>x\<in>set xs. (e x * x) * locator (remove1 x xs) n)"
proof -
  have "synd xs e = (\<lambda>i. \<Sum>x\<in>set xs. (e x * x) * x ^ i)" by (simp add: synd_def fun_eq_iff mult.assoc)
  then have "conv (locator xs) (synd xs e) n = (\<Sum>x\<in>set xs. (e x * x) * conv (locator xs) (\<lambda>m. x ^ m) n)"
    by (simp add: conv_sum_right conv_scale_right)
  then show ?thesis by (simp add: conv_locator_power)
qed

lemma forney:
  assumes "distinct xs" "length xs \<le> n" "x \<in> set xs" "x * y = 1"
  shows "peval (conv (locator xs) (synd xs e)) n y = e x * x * (\<Prod>w\<leftarrow>remove1 x xs. 1 + w * y)"
proof -
  have len: "length (remove1 w xs) < n" if "w \<in> set xs" for w
  proof -
    have "length (remove1 w xs) = length xs - 1" "0 < length xs"
      using that length_pos_if_in_set [OF that] by (simp_all add: length_remove1)
    then show ?thesis using assms(2) by linarith
  qed
  have "conv (locator xs) (synd xs e) = (\<lambda>i. \<Sum>w\<in>set xs. (e w * w) * locator (remove1 w xs) i)"
    by (simp add: conv_locator_synd fun_eq_iff)
  then have "peval (conv (locator xs) (synd xs e)) n y
      = (\<Sum>w\<in>set xs. (e w * w) * peval (locator (remove1 w xs)) n y)"
    by (simp add: peval_sum) (simp add: peval_def sum_distrib_left mult.assoc)
  also have "\<dots> = (\<Sum>w\<in>set xs. (e w * w) * (\<Prod>v\<leftarrow>remove1 w xs. 1 + v * y))"
    using len by (simp add: peval_locator)
  also have "\<dots> = (\<Sum>w\<in>{x}. (e w * w) * (\<Prod>v\<leftarrow>remove1 w xs. 1 + v * y))"
  proof (rule sum.mono_neutral_right)
    show "\<forall>w\<in>set xs - {x}. e w * w * (\<Prod>v\<leftarrow>remove1 w xs. 1 + v * y) = 0"
    proof
      fix w assume "w \<in> set xs - {x}"
      then have "x \<in> set (remove1 w xs)" using assms(1,3) by auto
      then have "(\<Prod>v\<leftarrow>remove1 w xs. 1 + v * y) = 0" using assms(4) by (auto simp: prod_list_zero)
      then show "e w * w * (\<Prod>v\<leftarrow>remove1 w xs. 1 + v * y) = 0" by simp
    qed
  qed (use assms(3) in auto)
  finally show ?thesis by simp
qed

text \<open>The quotient the decoder computes is the magnitude.\<close>

lemma forney_quotient:
  assumes "distinct xs" "length xs \<le> n" "length xs < 2 * m" "x \<in> set xs" "x * y = 1"
  shows "peval (conv (locator xs) (synd xs e)) n y * inverse (odd_part (locator xs) m y) = e x"
    and "odd_part (locator xs) m y \<noteq> 0"
proof -
  have inj: "w = x" if "w * y = 1" for w using that assms(5) by (metis mult.commute mult.assoc mult_1_right)
  have nz: "(\<Prod>w\<leftarrow>remove1 x xs. 1 + w * y) \<noteq> 0" using assms(1) inj by (auto simp: prod_list_zero)
  have x: "x \<noteq> 0" using assms(5) by auto
  note d = odd_part_locator [OF assms(4,1,3,5)]
  show "odd_part (locator xs) m y \<noteq> 0" unfolding d using x nz by simp
  then show "peval (conv (locator xs) (synd xs e)) n y * inverse (odd_part (locator xs) m y) = e x"
    unfolding forney [OF assms(1,2,4,5)] d using x nz by (simp add: field_simps)
qed

end
