(* ===== verification/RsPoly.thy ===== *)
theory RsPoly
  imports RsGalois Series
begin

text \<open>
  The fixed-size polynomial arithmetic of the Reed-Solomon library (\<open>berlekamp.c\<close>). A
  polynomial is an array of \<open>int\<close> whose cells 0 to \<open>MAXDEG - 1\<close> are coefficients; products have
  \<open>2 * MAXDEG\<close> cells. \<open>poly xs\<close> reads an array as a coefficient sequence.
\<close>

definition NPAR :: nat where [simp]: "NPAR = 4"
definition MAXDEG :: nat where [simp]: "MAXDEG = NPAR * 2"

definition add_polys :: "int list \<Rightarrow> int list \<Rightarrow> int list" where
  "add_polys dst src = fold (\<lambda>i dst. dst[i := dst ! i XOR src ! i]) [0..<MAXDEG] dst"

definition copy_poly :: "int list \<Rightarrow> int list \<Rightarrow> int list" where
  "copy_poly dst src = fold (\<lambda>i dst. dst[i := src ! i]) [0..<MAXDEG] dst"

definition scale_poly :: "galois_tables \<Rightarrow> int \<Rightarrow> int list \<Rightarrow> int list" where
  "scale_poly G k poly = fold (\<lambda>i poly. poly[i := gmult G k (poly ! i)]) [0..<MAXDEG] poly"

definition zero_poly :: "int list \<Rightarrow> int list" where
  "zero_poly poly = fold (\<lambda>i poly. poly[i := 0]) [0..<MAXDEG] poly"

definition mul_z_poly :: "int list \<Rightarrow> int list" where
  "mul_z_poly src = (fold (\<lambda>i src. src[i := src ! (i - 1)]) (rev [1..<MAXDEG]) src)[0 := 0]"

text \<open>One row of the product: clear, scale, shift and add in.\<close>

definition mult_row :: "galois_tables \<Rightarrow> int list \<Rightarrow> int list \<Rightarrow> nat \<Rightarrow> int list \<times> int list \<Rightarrow> int list \<times> int list" where
  "mult_row G p1 p2 i = (\<lambda>(dst, tmp1).
     let tmp1 = fold (\<lambda>j tmp1. tmp1[j := 0]) [MAXDEG..<MAXDEG * 2] tmp1;
         tmp1 = fold (\<lambda>j tmp1. tmp1[j := gmult G (p2 ! j) (p1 ! i)]) [0..<MAXDEG] tmp1;
         tmp1 = fold (\<lambda>j tmp1. tmp1[j := tmp1 ! (j - i)]) (rev [i..<MAXDEG * 2]) tmp1;
         tmp1 = fold (\<lambda>j tmp1. tmp1[j := 0]) [0..<i] tmp1
     in (fold (\<lambda>j dst. dst[j := dst ! j XOR tmp1 ! j]) [0..<MAXDEG * 2] dst, tmp1))"

definition mult_polys :: "galois_tables \<Rightarrow> int list \<Rightarrow> int list \<Rightarrow> int list \<Rightarrow> int list" where
  "mult_polys G dst p1 p2 =
     (let dst = fold (\<lambda>i dst. dst[i := 0]) [0..<MAXDEG * 2] dst
      in fst (fold (mult_row G p1 p2) [0..<MAXDEG] (dst, replicate (MAXDEG * 2) 0)))"

subsection \<open>Arrays as coefficient sequences\<close>

definition poly :: "int list \<Rightarrow> nat \<Rightarrow> gf256" where
  "poly xs i = (if i < MAXDEG then gfi (xs ! i) else 0)"

definition poly_ok :: "int list \<Rightarrow> bool" where
  "poly_ok xs \<longleftrightarrow> MAXDEG \<le> length xs \<and> (\<forall>i<MAXDEG. is_byte (xs ! i))"

lemma poly_okD: "poly_ok xs \<Longrightarrow> i < 8 \<Longrightarrow> is_byte (xs ! i)" "poly_ok xs \<Longrightarrow> 8 \<le> length xs"
  by (simp_all add: poly_ok_def)

lemma length_polys [len_simps, simp]:
  "length (add_polys dst src) = length dst" "length (copy_poly dst src) = length dst"
  "length (scale_poly G k src) = length src" "length (zero_poly src) = length src" "length (mul_z_poly src) = length src"
  by (simp_all add: add_polys_def copy_poly_def scale_poly_def zero_poly_def mul_z_poly_def)

lemma add_polys_nth: "i < length dst \<Longrightarrow> add_polys dst src ! i = (if i < 8 then dst ! i XOR src ! i else dst ! i)"
  using fold_modify_nth [of i dst "\<lambda>i x. x XOR src ! i" 0 8] by (simp add: add_polys_def)

lemma copy_poly_nth: "i < length dst \<Longrightarrow> copy_poly dst src ! i = (if i < 8 then src ! i else dst ! i)"
  using fold_store_nth [of i dst "\<lambda>i. src ! i" 0 8] by (simp add: copy_poly_def)

lemma scale_poly_nth: "i < length p \<Longrightarrow> scale_poly G k p ! i = (if i < 8 then gmult G k (p ! i) else p ! i)"
  using fold_modify_nth [of i p "\<lambda>i x. gmult G k x" 0 8] by (simp add: scale_poly_def)

lemma zero_poly_nth: "i < length p \<Longrightarrow> zero_poly p ! i = (if i < 8 then 0 else p ! i)"
  using fold_store_nth [of i p "\<lambda>i. 0" 0 8] by (simp add: zero_poly_def)

lemma mul_z_poly_nth:
  "i < length p \<Longrightarrow> mul_z_poly p ! i = (if i = 0 then 0 else if i < 8 then p ! (i - 1) else p ! i)"
  using fold_move_up_nth [of i p 1 1 8] by (cases "p = []") (auto simp: mul_z_poly_def nth_list_update)

lemmas polys_nth = add_polys_nth copy_poly_nth scale_poly_nth zero_poly_nth mul_z_poly_nth

lemma poly_add: "8 \<le> length dst \<Longrightarrow> poly (add_polys dst src) = (\<lambda>i. poly dst i + poly src i)"
  by (auto simp: poly_def polys_nth gfi_xor fun_eq_iff)

lemma poly_copy: "8 \<le> length dst \<Longrightarrow> poly (copy_poly dst src) = poly src"
  by (auto simp: poly_def polys_nth fun_eq_iff)

lemma poly_zero: "8 \<le> length p \<Longrightarrow> poly (zero_poly p) = (\<lambda>_. 0)"
  by (auto simp: poly_def polys_nth fun_eq_iff)

text \<open>The shift loses the top coefficient.\<close>

lemma poly_mul_z: "8 \<le> length p \<Longrightarrow> poly p 7 = 0 \<Longrightarrow> poly (mul_z_poly p) = zshift (poly p)"
proof
  fix i assume len: "8 \<le> length p" and top: "poly p 7 = 0"
  show "poly (mul_z_poly p) i = zshift (poly p) i"
  proof (cases i)
    case 0
    moreover have "p \<noteq> []" using len by auto
    ultimately show ?thesis by (simp add: poly_def polys_nth)
  next
    case (Suc j)
    have "zshift (poly p) i = poly p j" by (simp add: Suc)
    moreover consider "j < 7" | "j = 7" | "7 < j" by linarith
    then have "poly (mul_z_poly p) i = poly p j" using len top Suc by cases (auto simp: poly_def polys_nth)
    ultimately show ?thesis by simp
  qed
qed

lemma polys_ok [intro]:
  "poly_ok dst \<Longrightarrow> poly_ok src \<Longrightarrow> poly_ok (add_polys dst src)"
  "8 \<le> length dst \<Longrightarrow> poly_ok src \<Longrightarrow> poly_ok (copy_poly dst src)"
  "8 \<le> length p \<Longrightarrow> poly_ok (zero_poly p)"
  "poly_ok p \<Longrightarrow> poly_ok (mul_z_poly p)"
  by (auto simp: poly_ok_def polys_nth)

context galois
begin

lemma poly_scale: "poly_ok p \<Longrightarrow> is_byte k \<Longrightarrow> poly (scale_poly G k p) = (\<lambda>i. gfi k * poly p i)"
  by (auto simp: poly_def polys_nth poly_ok_def gmult_ok fun_eq_iff)

lemma scale_poly_ok [intro]: "poly_ok p \<Longrightarrow> is_byte k \<Longrightarrow> poly_ok (scale_poly G k p)"
  by (auto simp: polys_nth poly_ok_def gmult_ok)

text \<open>The product, row by row.\<close>

definition row_inv :: "int list \<Rightarrow> int list \<Rightarrow> nat \<Rightarrow> nat \<Rightarrow> int list \<times> int list \<Rightarrow> bool" where
  "row_inv p1 p2 n i = (\<lambda>(dst, tmp1). length dst = n \<and> length tmp1 = 16 \<and>
     (\<forall>m<16. is_byte (dst ! m) \<and> gfi (dst ! m) = (\<Sum>l<i. poly p1 l * (if l \<le> m then poly p2 (m - l) else 0))))"

lemma row_inv_step:
  assumes p: "poly_ok p1" "poly_ok p2" and i: "i < 8" and n: "16 \<le> n" and inv: "row_inv p1 p2 n i s"
  shows "row_inv p1 p2 n (Suc i) (mult_row G p1 p2 i s)"
proof -
  obtain dst tmp where s: "s = (dst, tmp)" by (cases s)
  have len: "length dst = n" "length tmp = 16" using inv by (auto simp: s row_inv_def)
  define t1 where "t1 = fold (\<lambda>j tmp1. tmp1[j := 0]) [8..<16] tmp"
  define t2 where "t2 = fold (\<lambda>j tmp1. tmp1[j := gmult G (p2 ! j) (p1 ! i)]) [0..<8] t1"
  define t3 where "t3 = fold (\<lambda>j tmp1. tmp1[j := tmp1 ! (j - i)]) (rev [i..<16]) t2"
  define t4 where "t4 = fold (\<lambda>j tmp1. tmp1[j := 0]) [0..<i] t3"
  have ls: "length t1 = 16" "length t2 = 16" "length t3 = 16" "length t4 = 16"
    by (simp_all add: t1_def t2_def t3_def t4_def len)
  have t2: "t2 ! j = (if j < 8 then gmult G (p2 ! j) (p1 ! i) else 0)" if "j < 16" for j
    using that ls fold_store_nth [of j tmp "\<lambda>_. 0" 8 16] fold_store_nth [of j t1 "\<lambda>j. gmult G (p2 ! j) (p1 ! i)" 0 8]
    unfolding t2_def t1_def [symmetric] by (simp add: len)
  have t4: "t4 ! m = (if i \<le> m then t2 ! (m - i) else 0)" if "m < 16" for m
    using that ls i fold_move_up_nth [of m t2 i i 16] by (simp add: t3_def t4_def fold_store_nth)
  have b: "is_byte (t4 ! m)" "gfi (t4 ! m) = poly p1 i * (if i \<le> m then poly p2 (m - i) else 0)" if "m < 16" for m
    using that t2 t4 gmult_ok p i poly_okD by (auto simp: poly_def)
  have row: "mult_row G p1 p2 i s = (fold (\<lambda>j dst. dst[j := dst ! j XOR t4 ! j]) [0..<16] dst, t4)"
    by (simp add: mult_row_def s t1_def t2_def t3_def t4_def Let_def)
  have "fold (\<lambda>j dst. dst[j := dst ! j XOR t4 ! j]) [0..<16] dst ! m = dst ! m XOR t4 ! m" if "m < 16" for m
    using that n len fold_modify_nth [of m dst "\<lambda>j x. x XOR t4 ! j" 0 16] by simp
  then show ?thesis unfolding row using inv b len ls by (simp add: s row_inv_def gfi_xor)
qed

lemma mult_polys_ok:
  assumes p: "poly_ok p1" "poly_ok p2" and n: "16 \<le> length dst" and m: "m < 16"
  shows "is_byte (mult_polys G dst p1 p2 ! m)" and "gfi (mult_polys G dst p1 p2 ! m) = conv (poly p1) (poly p2) m"
    and "length (mult_polys G dst p1 p2) = length dst"
proof -
  define d0 where "d0 = fold (\<lambda>i dst. dst[i := 0]) [0..<16] dst"
  define s where "s = fold (mult_row G p1 p2) [0..<8] (d0, replicate 16 0)"
  have "row_inv p1 p2 (length dst) 0 (d0, replicate 16 0)"
    using n by (simp add: row_inv_def d0_def fold_store_nth)
  then have "row_inv p1 p2 (length dst) 8 s"
    unfolding s_def by (intro fold_upt_inv [where P = "row_inv p1 p2 (length dst)"]) (auto intro: row_inv_step [OF p] n)
  moreover have "mult_polys G dst p1 p2 = fst s"
    by (simp add: mult_polys_def s_def d0_def)
  ultimately have inv: "row_inv p1 p2 (length dst) 8 (mult_polys G dst p1 p2, snd s)" by simp
  then show "is_byte (mult_polys G dst p1 p2 ! m)" "length (mult_polys G dst p1 p2) = length dst"
    using m by (auto simp: row_inv_def)
  have "(\<Sum>l<8. poly p1 l * (if l \<le> m then poly p2 (m - l) else 0)) = conv (poly p1) (poly p2) m"
  proof -
    have "(\<Sum>l<8. poly p1 l * (if l \<le> m then poly p2 (m - l) else 0)) = (\<Sum>l\<in>{..<8} \<inter> {..m}. poly p1 l * poly p2 (m - l))"
      by (simp add: sum.inter_restrict if_distrib cong: if_cong)
    also have "\<dots> = (\<Sum>l\<le>m. poly p1 l * poly p2 (m - l))"
      by (rule sum.mono_neutral_left) (auto simp: poly_def)
    finally show ?thesis by (simp add: conv_def)
  qed
  then show "gfi (mult_polys G dst p1 p2 ! m) = conv (poly p1) (poly p2) m"
    using inv m by (auto simp: row_inv_def)
qed

end

end
