(* ===== verification/RsEncode.thy ===== *)
theory RsEncode
  imports RsPoly
begin

text \<open>
  The Reed-Solomon encoder and the syndrome computation (\<open>rscode-1.3/rs.c\<close>). The globals of
  the library are the fields of a record. Local arrays that C leaves uninitialised start as
  zeros here: each cell is written before it is read. The last two sections show that a
  codeword has zero syndromes and that up to \<open>NPAR\<close> wrong bytes never go unnoticed.
\<close>

record rs_state =
  rs_gal :: galois_tables
  pBytes :: "int list"
  synBytes :: "int list"
  genPoly :: "int list"
  Lambda :: "int list"
  Omega :: "int list"
  ErrorLocs :: "int list"
  NErrors :: nat
  ErasureLocs :: "int list"
  NErasures :: nat

definition rs_state0 :: rs_state where
  "rs_state0 = \<lparr>rs_gal = galois0, pBytes = replicate MAXDEG 0, synBytes = replicate MAXDEG 0,
     genPoly = replicate (MAXDEG * 2) 0, Lambda = replicate MAXDEG 0, Omega = replicate MAXDEG 0,
     ErrorLocs = replicate 256 0, NErrors = 0, ErasureLocs = replicate 256 0, NErasures = 0\<rparr>"

definition genpoly_step :: "galois_tables \<Rightarrow> nat \<Rightarrow> int list \<times> int list \<times> int list \<Rightarrow> int list \<times> int list \<times> int list" where
  "genpoly_step G i = (\<lambda>(genpoly, tp, tp1).
     let tp = (zero_poly tp)[0 := gexp G ! i, 1 := 1];
         genpoly = mult_polys G genpoly tp tp1
     in (genpoly, tp, copy_poly tp1 genpoly))"

definition compute_genpoly :: "galois_tables \<Rightarrow> nat \<Rightarrow> int list \<Rightarrow> int list" where
  "compute_genpoly G nbytes genpoly =
     fst (fold (genpoly_step G) [1..<nbytes + 1] (genpoly, replicate 256 0, (zero_poly (replicate 256 0))[0 := 1]))"

definition initialize_ecc :: "rs_state \<Rightarrow> rs_state" where
  "initialize_ecc s =
     (let s = s\<lparr>rs_gal := init_galois_tables (rs_gal s)\<rparr>
      in s\<lparr>genPoly := compute_genpoly (rs_gal s) NPAR (genPoly s)\<rparr>)"

definition zero_fill_from :: "u8 list \<Rightarrow> nat \<Rightarrow> nat \<Rightarrow> u8 list" where
  "zero_fill_from buf from to = fold (\<lambda>i buf. buf[i := 0]) [from..<to] buf"

text \<open>Storing an \<open>int\<close> in an \<open>unsigned char\<close> keeps its low byte.\<close>

definition build_codeword :: "rs_state \<Rightarrow> u8 list \<Rightarrow> nat \<Rightarrow> u8 list \<Rightarrow> u8 list" where
  "build_codeword s msg nbytes dst =
     (let dst = fold (\<lambda>i dst. dst[i := msg ! i]) [0..<nbytes] dst
      in fold (\<lambda>i dst. dst[i + nbytes := word_of_int (pBytes s ! (NPAR - 1 - i))]) [0..<NPAR] dst)"

definition decode_data :: "rs_state \<Rightarrow> u8 list \<Rightarrow> nat \<Rightarrow> rs_state" where
  "decode_data s data nbytes =
     fold (\<lambda>j s. s\<lparr>synBytes := (synBytes s)[j :=
         fold (\<lambda>i sum. uint (data ! i) XOR gmult (rs_gal s) (gexp (rs_gal s) ! (j + 1)) sum) [0..<nbytes] 0]\<rparr>)
       [0..<NPAR] s"

definition check_syndrome :: "rs_state \<Rightarrow> int" where
  "check_syndrome s = (if list_ex (\<lambda>i. synBytes s ! i \<noteq> 0) [0..<NPAR] then 1 else 0)"

definition lfsr_step :: "rs_state \<Rightarrow> u8 \<Rightarrow> int list \<Rightarrow> int list" where
  "lfsr_step s b LFSR =
     (let dbyte = uint b XOR LFSR ! (NPAR - 1);
          LFSR = fold (\<lambda>j LFSR. LFSR[j := LFSR ! (j - 1) XOR gmult (rs_gal s) (genPoly s ! j) dbyte]) (rev [1..<NPAR]) LFSR
      in LFSR[0 := gmult (rs_gal s) (genPoly s ! 0) dbyte])"

definition encode_data :: "rs_state \<Rightarrow> u8 list \<Rightarrow> nat \<Rightarrow> u8 list \<Rightarrow> rs_state \<times> u8 list" where
  "encode_data s msg nbytes dst =
     (let LFSR = fold (\<lambda>i LFSR. LFSR[i := 0]) [0..<NPAR + 1] (replicate (NPAR + 1) 0);
          LFSR = fold (\<lambda>i. lfsr_step s (msg ! i)) [0..<nbytes] LFSR;
          s = s\<lparr>pBytes := fold (\<lambda>i pb. pb[i := LFSR ! i]) [0..<NPAR] (pBytes s)\<rparr>
      in (s, build_codeword s msg nbytes dst))"

subsection \<open>The generator polynomial\<close>

text \<open>The product of the factors \<open>z + alpha^j\<close>, and what the encoder needs of it.\<close>

fun gen_prod :: "nat \<Rightarrow> nat \<Rightarrow> gf256" where
  "gen_prod 0 = delta"
| "gen_prod (Suc i) = (\<lambda>m. alpha ^ Suc i * gen_prod i m + zshift (gen_prod i) m)"

lemma gen_prod_degree: "i < m \<Longrightarrow> gen_prod i m = 0" "gen_prod i i = 1"
proof (induction i arbitrary: m)
  case 0
  { case 1 then show ?case by (simp add: delta_def) }
  { case 2 then show ?case by (simp add: delta_def) }
next
  case (Suc i)
  { case 1 then show ?case using Suc.IH(1) by (cases m) simp_all }
  { case 2 then show ?case using Suc.IH by simp }
qed

lemma peval_gen_prod: "i < n \<Longrightarrow> peval (gen_prod i) n y = (\<Prod>j=1..i. y + alpha ^ j)"
proof (induction i arbitrary: n)
  case 0
  then show ?case using peval_locator [of "[]" n y] by simp
next
  case (Suc i)
  then obtain m where n: "n = Suc m" "i < m" by (cases n) auto
  have "peval (gen_prod (Suc i)) n y = alpha ^ Suc i * peval (gen_prod i) n y + peval (zshift (gen_prod i)) n y"
    by (simp add: peval_def sum.distrib sum_distrib_left algebra_simps)
  also have "peval (gen_prod i) n y = (\<Prod>j=1..i. y + alpha ^ j)" using Suc by simp
  also have "peval (zshift (gen_prod i)) n y = y * (\<Prod>j=1..i. y + alpha ^ j)"
    unfolding n(1) peval_zshift using Suc.IH [OF n(2)] by simp
  finally show ?case by (simp add: algebra_simps)
qed

context galois
begin

definition gen_inv :: "nat \<Rightarrow> nat \<Rightarrow> int list \<times> int list \<times> int list \<Rightarrow> bool" where
  "gen_inv n i = (\<lambda>(genpoly, tp, tp1). length genpoly = n \<and> length tp = 256 \<and> length tp1 = 256 \<and>
     poly_ok tp1 \<and> poly tp1 = gen_prod (i - 1) \<and>
     (1 < i \<longrightarrow> poly_ok genpoly \<and> poly genpoly = gen_prod (i - 1)))"

lemma poly_linear:
  assumes "8 \<le> length tp" "is_byte a"
  shows "poly_ok ((zero_poly tp)[0 := a, 1 := 1])"
    and "poly ((zero_poly tp)[0 := a, 1 := 1]) = (\<lambda>m. gfi a * delta m + zshift delta m)"
proof -
  have nth: "((zero_poly tp)[0 := a, 1 := 1]) ! m = (if m = 0 then a else if m = 1 then 1 else 0)" if "m < 8" for m
  proof -
    have "tp \<noteq> []" using assms(1) by auto
    then show ?thesis using that assms(1) by (auto simp: nth_list_update polys_nth)
  qed
  show "poly_ok ((zero_poly tp)[0 := a, 1 := 1])" using assms nth by (auto simp: poly_ok_def)
  show "poly ((zero_poly tp)[0 := a, 1 := 1]) = (\<lambda>m. gfi a * delta m + zshift delta m)"
  proof
    fix m show "poly ((zero_poly tp)[0 := a, 1 := 1]) m = gfi a * delta m + zshift delta m"
      using nth [of m] by (cases m) (auto simp: poly_def delta_def)
  qed
qed

lemma gen_inv_step:
  assumes i: "1 \<le> i" "i \<le> 4" and n: "16 \<le> n" and inv: "gen_inv n i s"
  shows "gen_inv n (Suc i) (genpoly_step G i s)"
proof -
  obtain gp tp tp1 where s: "s = (gp, tp, tp1)" by (cases s)
  have len: "length gp = n" "length tp = 256" "length tp1 = 256" and tp1: "poly_ok tp1" "poly tp1 = gen_prod (i - 1)"
    using inv by (auto simp: s gen_inv_def)
  define t where "t = (zero_poly tp)[0 := gexp G ! i, 1 := 1]"
  have t: "poly_ok t" "poly t = (\<lambda>m. alpha ^ i * delta m + zshift delta m)"
    using poly_linear [of tp "gexp G ! i"] gexp_ok [of i] i len by (simp_all add: t_def)
  define g where "g = mult_polys G gp t tp1"
  have g: "is_byte (g ! m)" "gfi (g ! m) = conv (poly t) (poly tp1) m" "length g = n" if "m < 16" for m
    using mult_polys_ok [OF t(1) tp1(1), of gp m] n len that by (simp_all add: g_def)
  have lg: "length g = n" by (rule g(3) [of 0]) simp
  have c: "conv (poly t) (poly tp1) m = gen_prod i m" for m
  proof -
    have "conv (poly t) (poly tp1) m = alpha ^ i * poly tp1 m + conv (zshift delta) (poly tp1) m"
      unfolding t(2) by (simp add: conv_add_left conv_scale_left)
    also have "conv (zshift delta) (poly tp1) m = zshift (poly tp1) m"
    proof -
      have "conv (poly tp1) delta = poly tp1" by (simp add: fun_eq_iff)
      then show ?thesis unfolding conv_commute [of "zshift delta"] conv_zshift_right by simp
    qed
    finally show ?thesis using i tp1(2) by (cases i) simp_all
  qed
  have pg: "poly_ok g" "poly g = gen_prod i"
    using g c lg n gen_prod_degree(1) [of i] i by (auto simp: poly_ok_def poly_def fun_eq_iff)
  have "genpoly_step G i s = (g, t, copy_poly tp1 g)"
    by (simp add: s genpoly_step_def t_def g_def Let_def)
  then show ?thesis
    using pg lg len by (auto simp: gen_inv_def poly_copy t_def)
qed

lemma genpoly_correct:
  assumes "length gp = 16"
  shows "length (compute_genpoly G NPAR gp) = 16" "poly_ok (compute_genpoly G NPAR gp)"
    "poly (compute_genpoly G NPAR gp) = gen_prod 4"
proof -
  define s where "s = fold (genpoly_step G) [1..<5] (gp, replicate 256 0, (zero_poly (replicate 256 0))[0 := 1])"
  define t0 where "t0 = (zero_poly (replicate 256 0))[0 := 1 :: int]"
  have nth: "t0 ! m = (if m = 0 then 1 else 0)" if "m < 8" for m
    using that by (auto simp: t0_def nth_list_update polys_nth)
  have "length t0 = 256" by (simp add: t0_def)
  then have "gen_inv 16 1 (gp, replicate 256 0, t0)"
    using assms nth by (auto simp: gen_inv_def poly_ok_def poly_def fun_eq_iff delta_def)
  then have "gen_inv 16 5 s"
    unfolding s_def t0_def [symmetric] by (intro fold_upt_inv [where P = "gen_inv 16"]) (auto intro: gen_inv_step)
  moreover have "compute_genpoly G NPAR gp = fst s" by (simp add: compute_genpoly_def s_def)
  ultimately show "length (compute_genpoly G NPAR gp) = 16" "poly_ok (compute_genpoly G NPAR gp)"
    "poly (compute_genpoly G NPAR gp) = gen_prod 4"
    by (auto simp: gen_inv_def split: prod.splits)
qed

end

subsection \<open>Codewords and syndromes\<close>

text \<open>
  The library state after initialisation. A word is a polynomial with its first byte as the
  leading coefficient; the syndromes are its values at the first \<open>NPAR\<close> powers of the
  generator.
\<close>

definition rs_ready :: "rs_state \<Rightarrow> bool" where
  "rs_ready s \<longleftrightarrow> galois_ok (rs_gal s) \<and> length (pBytes s) = 8 \<and> length (synBytes s) = 8 \<and> poly_ok (synBytes s) \<and>
     length (genPoly s) = 16 \<and> poly_ok (genPoly s) \<and> poly (genPoly s) = gen_prod 4 \<and>
     length (Lambda s) = 8 \<and> length (Omega s) = 8 \<and> length (ErrorLocs s) = 256 \<and> length (ErasureLocs s) = 256"

definition rs_sizes :: "rs_state \<Rightarrow> bool" where
  "rs_sizes s \<longleftrightarrow> length (gexp (rs_gal s)) = 512 \<and> length (glog (rs_gal s)) = 256 \<and> length (pBytes s) = 8 \<and>
     length (synBytes s) = 8 \<and> poly_ok (synBytes s) \<and> length (genPoly s) = 16 \<and> length (Lambda s) = 8 \<and> length (Omega s) = 8 \<and>
     length (ErrorLocs s) = 256 \<and> length (ErasureLocs s) = 256"

lemma rs_sizes_state0: "rs_sizes rs_state0"
  by (simp add: rs_sizes_def rs_state0_def galois0_def poly_ok_def)

lemma initialize_ecc_ready:
  assumes "rs_sizes s"
  shows "rs_ready (initialize_ecc s)"
proof -
  have g: "galois (init_galois_tables (rs_gal s))"
    using assms by (simp add: galois_def rs_sizes_def init_galois_ok)
  note gp = galois.genpoly_correct [OF g, of "genPoly s"]
  show ?thesis
    using assms gp g by (simp add: rs_ready_def initialize_ecc_def Let_def rs_sizes_def galois_def)
qed

definition word_eval :: "u8 list \<Rightarrow> gf256 \<Rightarrow> gf256" where
  "word_eval w x = (\<Sum>i<length w. GF (w ! i) * x ^ (length w - 1 - i))"

lemma decode_data_state:
  "decode_data s data n = s\<lparr>synBytes := fold (\<lambda>j xs. xs[j :=
     fold (\<lambda>i sum. uint (data ! i) XOR gmult (rs_gal s) (gexp (rs_gal s) ! (j + 1)) sum) [0..<n] 0]) [0..<4] (synBytes s)\<rparr>"
proof -
  have "fold (\<lambda>j s. s\<lparr>synBytes := (synBytes s)[j :=
         fold (\<lambda>i sum. uint (data ! i) XOR gmult (rs_gal s) (gexp (rs_gal s) ! (j + 1)) sum) [0..<n] 0]\<rparr>) js s
    = s\<lparr>synBytes := fold (\<lambda>j xs. xs[j :=
     fold (\<lambda>i sum. uint (data ! i) XOR gmult (rs_gal s) (gexp (rs_gal s) ! (j + 1)) sum) [0..<n] 0]) js (synBytes s)\<rparr>" for js
    by (induction js arbitrary: s) simp_all
  then show ?thesis by (simp add: decode_data_def)
qed

text \<open>The initialised library, as the context of the encoder and decoder lemmas.\<close>

locale rs_library =
  fixes s :: rs_state
  assumes ready: "rs_ready s"

sublocale rs_library \<subseteq> galois "rs_gal s"
  using ready by unfold_locales (simp add: rs_ready_def)

definition rs_lib :: rs_state where
  "rs_lib = initialize_ecc rs_state0"

lemma rs_lib_ready: "rs_ready rs_lib"
  unfolding rs_lib_def by (rule initialize_ecc_ready [OF rs_sizes_state0])

interpretation lib: rs_library rs_lib
  by unfold_locales (rule rs_lib_ready)

context rs_library
begin

lemma syndrome_nth:
  assumes j: "j < 4"
  shows "is_byte (synBytes (decode_data s data (length data)) ! j)"
    and "gfi (synBytes (decode_data s data (length data)) ! j) = word_eval data (alpha ^ (j + 1))"
proof -
  let ?x = "gexp (rs_gal s) ! (j + 1)"
  have x: "is_byte ?x" "gfi ?x = alpha ^ (j + 1)" using gexp_ok [of "j + 1"] j by simp_all
  have "length (synBytes s) = 8" using ready by (simp add: rs_ready_def)
  then have nth: "synBytes (decode_data s data (length data)) ! j =
      fold (\<lambda>i sum. uint (data ! i) XOR gmult (rs_gal s) ?x sum) [0..<length data] 0"
    using j by (simp add: decode_data_state fold_store_nth)
  note h = horner_loop [of "length data" "\<lambda>i. uint (data ! i)" ?x, OF is_byte_uint x(1)]
  show "is_byte (synBytes (decode_data s data (length data)) ! j)" unfolding nth using h by blast
  show "gfi (synBytes (decode_data s data (length data)) ! j) = word_eval data (alpha ^ (j + 1))"
    unfolding nth using h [unfolded x(2)] by (simp only: word_eval_def gfi_uint)
qed

lemma decode_data_ready: "rs_ready (decode_data s data (length data))"
proof -
  have "is_byte (synBytes (decode_data s data (length data)) ! j)" if "j < 8" for j
  proof (cases "j < 4")
    case True
    then show ?thesis by (rule syndrome_nth(1))
  next
    case False
    then show ?thesis using that ready by (simp add: decode_data_state fold_store_nth rs_ready_def poly_ok_def)
  qed
  then show ?thesis using ready by (simp add: rs_ready_def poly_ok_def decode_data_state)
qed

lemma check_syndrome_iff:
  "check_syndrome (decode_data s data (length data)) = (if \<forall>j<4. word_eval data (alpha ^ (j + 1)) = 0 then 0 else 1)"
proof -
  have "synBytes (decode_data s data (length data)) ! j = 0 \<longleftrightarrow> word_eval data (alpha ^ (j + 1)) = 0" if "j < 4" for j
    using syndrome_nth [OF that, of data] by (metis gfi_eq_0)
  then show ?thesis by (auto simp: check_syndrome_def list_ex_iff)
qed

subsection \<open>The encoder\<close>

text \<open>The register holds the remainder of the message read so far, times \<open>z^4\<close>, at the roots.\<close>

definition lfsr_ok :: "u8 list \<Rightarrow> int list \<Rightarrow> bool" where
  "lfsr_ok msg L \<longleftrightarrow> length L = 5 \<and> (\<forall>j<4. is_byte (L ! j)) \<and>
     (\<forall>r\<in>{1..4}. (\<Sum>j<4. gfi (L ! j) * (alpha ^ r) ^ j) = (alpha ^ r) ^ 4 * word_eval msg (alpha ^ r))"

lemma gen_root:
  assumes "r \<in> {1..4}"
  shows "gen_prod 4 0 + gen_prod 4 1 * (alpha ^ r) + gen_prod 4 2 * (alpha ^ r) ^ 2 + gen_prod 4 3 * (alpha ^ r) ^ 3 = (alpha ^ r) ^ 4"
proof -
  have "peval (gen_prod 4) 5 (alpha ^ r) = 0"
    using assms by (subst peval_gen_prod) (auto intro!: bexI [of _ r])
  moreover have "peval (gen_prod 4) 5 (alpha ^ r) = gen_prod 4 0 + gen_prod 4 1 * (alpha ^ r) + gen_prod 4 2 * (alpha ^ r) ^ 2
      + gen_prod 4 3 * (alpha ^ r) ^ 3 + (alpha ^ r) ^ 4"
    using gen_prod_degree(2) [of 4] by (simp add: peval_def eval_nat_numeral)
  ultimately show ?thesis by simp
qed

lemma word_eval_snoc: "word_eval (w @ [b]) x = word_eval w x * x + GF b"
proof -
  have "(\<Sum>i<length w. GF ((w @ [b]) ! i) * x ^ (length w - i)) = (\<Sum>i<length w. (GF (w ! i) * x ^ (length w - 1 - i)) * x)"
  proof (intro sum.cong refl)
    fix i assume "i \<in> {..<length w}"
    then have "length w - i = Suc (length w - 1 - i)" by simp
    then have "x ^ (length w - i) = x ^ (length w - 1 - i) * x" by (simp only: power_Suc2)
    then show "GF ((w @ [b]) ! i) * x ^ (length w - i) = (GF (w ! i) * x ^ (length w - 1 - i)) * x"
      using \<open>i \<in> {..<length w}\<close> by (simp add: nth_append mult.assoc)
  qed
  then show ?thesis by (simp add: word_eval_def sum_distrib_right)
qed

lemma lfsr_step_ok:
  assumes "lfsr_ok msg L"
  shows "lfsr_ok (msg @ [b]) (lfsr_step s b L)"
proof -
  have L: "length L = 5" "\<And>j. j < 4 \<Longrightarrow> is_byte (L ! j)" using assms by (auto simp: lfsr_ok_def)
  define d where "d = uint b XOR L ! 3"
  have d: "is_byte d" "gfi d = GF b + gfi (L ! 3)" using L(2) [of 3] by (simp_all add: d_def gfi_xor)
  define g where "g j = genPoly s ! j" for j
  have g: "is_byte (g j)" "gfi (g j) = gen_prod 4 j" if "j < 4" for j
  proof -
    have "poly_ok (genPoly s)" "poly (genPoly s) j = gen_prod 4 j" using ready by (auto simp: rs_ready_def)
    then show "is_byte (g j)" "gfi (g j) = gen_prod 4 j" using that by (auto simp: g_def poly_def poly_ok_def)
  qed
  define L' where "L' = lfsr_step s b L"
  have up: "rev [Suc 0..<4] = [3, 2, 1]" by code_simp
  have L': "L' ! 0 = gmult (rs_gal s) (g 0) d" "L' ! 1 = L ! 0 XOR gmult (rs_gal s) (g 1) d"
    "L' ! 2 = L ! 1 XOR gmult (rs_gal s) (g 2) d" "L' ! 3 = L ! 2 XOR gmult (rs_gal s) (g 3) d" "length L' = 5"
    using L(1) by (simp_all add: L'_def lfsr_step_def Let_def up g_def d_def nth_list_update)
  have cases4: "j = 0 \<or> j = 1 \<or> j = 2 \<or> j = 3" if "j < 4" for j :: nat using that by linarith
  have byte: "is_byte (L' ! j)" if "j < 4" for j
    using cases4 [OF that] L' L(2) g(1) d(1) gmult_ok(1) by auto
  have "(\<Sum>j<4. gfi (L' ! j) * x ^ j) = x ^ 4 * word_eval (msg @ [b]) x" if r: "r \<in> {1..4}" and x: "x = alpha ^ r" for r x
  proof -
    define A where "A = gfi (L ! 0) + gfi (L ! 1) * x + gfi (L ! 2) * x ^ 2"
    have old: "A + gfi (L ! 3) * x ^ 3 = x ^ 4 * word_eval msg x"
      using assms r by (simp add: lfsr_ok_def x A_def eval_nat_numeral)
    have "(\<Sum>j<4. gfi (L' ! j) * x ^ j) = x * A + gfi d * (gen_prod 4 0 + gen_prod 4 1 * x + gen_prod 4 2 * x ^ 2 + gen_prod 4 3 * x ^ 3)"
      using L' g d(1) gmult_ok(2) by (simp add: eval_nat_numeral gfi_xor A_def algebra_simps)
    also have "\<dots> = x * A + gfi d * x ^ 4" using gen_root [OF r] by (simp only: x)
    also have "\<dots> = x * (A + gfi (L ! 3) * x ^ 3) + GF b * x ^ 4" by (simp add: d(2) algebra_simps eval_nat_numeral)
    also have "\<dots> = x ^ 4 * word_eval (msg @ [b]) x" unfolding old word_eval_snoc by (simp add: algebra_simps)
    finally show ?thesis .
  qed
  then show ?thesis using byte L'(5) by (simp add: lfsr_ok_def L'_def [symmetric])
qed

lemma lfsr_loop: "lfsr_ok msg (fold (\<lambda>i. lfsr_step s (msg ! i)) [0..<length msg] (replicate 5 0))"
proof -
  have "lfsr_ok (take n msg) (fold (\<lambda>i. lfsr_step s (msg ! i)) [0..<n] (replicate 5 0))" if "n \<le> length msg" for n
    using that
  proof (induction n)
    case 0
    then show ?case by (simp add: lfsr_ok_def word_eval_def)
  next
    case (Suc n)
    then show ?case using lfsr_step_ok [of "take n msg" _ "msg ! n"] by (simp add: take_Suc_conv_app_nth)
  qed
  from this [of "length msg"] show ?thesis by simp
qed

definition parity :: "u8 list \<Rightarrow> u8 list" where
  "parity msg = (let L = fold (\<lambda>i. lfsr_step s (msg ! i)) [0..<length msg] (replicate 5 0)
     in map (\<lambda>i. word_of_int (L ! (3 - i))) [0..<4])"

lemma word_eval_parity:
  assumes "r \<in> {1..4}"
  shows "word_eval (msg @ parity msg) (alpha ^ r) = 0"
proof -
  define L where "L = fold (\<lambda>i. lfsr_step s (msg ! i)) [0..<length msg] (replicate 5 0)"
  have L: "lfsr_ok msg L" unfolding L_def by (rule lfsr_loop)
  define x where "x = alpha ^ r"
  have "parity msg = [word_of_int (L ! 3), word_of_int (L ! 2), word_of_int (L ! 1), word_of_int (L ! 0)]"
  proof -
    have up: "[0..<4] = [0, 1, 2, 3 :: nat]" by code_simp
    show ?thesis unfolding parity_def L_def [symmetric] up by (simp add: eval_nat_numeral)
  qed
  then have "word_eval (msg @ parity msg) x =
      word_eval ((((msg @ [word_of_int (L ! 3)]) @ [word_of_int (L ! 2)]) @ [word_of_int (L ! 1)]) @ [word_of_int (L ! 0)]) x"
    by simp
  also have "\<dots> = (((word_eval msg x * x + gfi (L ! 3)) * x + gfi (L ! 2)) * x + gfi (L ! 1)) * x + gfi (L ! 0)"
    by (simp only: word_eval_snoc gfi_def)
  also have "\<dots> = x ^ 4 * word_eval msg x + (\<Sum>j<4. gfi (L ! j) * x ^ j)"
    by (simp add: eval_nat_numeral algebra_simps)
  also have "\<dots> = 0" using L assms by (simp add: lfsr_ok_def x_def)
  finally show ?thesis by (simp add: x_def)
qed

lemma encode_data_codeword:
  assumes "length msg + 4 \<le> length dst"
  shows "snd (encode_data s msg (length msg) dst) = msg @ parity msg @ drop (length msg + 4) dst"
    and "rs_ready (fst (encode_data s msg (length msg) dst))"
proof -
  define n where "n = length msg"
  define L where "L = fold (\<lambda>i. lfsr_step s (msg ! i)) [0..<length msg] (replicate 5 0)"
  define pb where "pb = fold (\<lambda>i pb. pb[i := L ! i]) [0..<4] (pBytes s)"
  have lpb: "length (pBytes s) = 8" using ready by (simp add: rs_ready_def)
  then have pb: "pb ! i = L ! i" if "i < 4" for i using that by (simp add: pb_def fold_store_nth)
  have z: "fold (\<lambda>i LFSR. LFSR[i := 0]) [0..<5] (replicate 5 0) = replicate 5 (0 :: int)"
    by code_simp
  have enc: "encode_data s msg n dst = (s\<lparr>pBytes := pb\<rparr>, build_codeword (s\<lparr>pBytes := pb\<rparr>) msg n dst)"
    using z by (simp add: encode_data_def Let_def n_def pb_def L_def)
  show "rs_ready (fst (encode_data s msg (length msg) dst))"
    using ready enc lpb by (simp add: rs_ready_def n_def pb_def)
  define d1 where "d1 = fold (\<lambda>i dst. dst[i := msg ! i]) [0..<n] dst"
  have d1: "length d1 = length dst" "\<And>i. i < length dst \<Longrightarrow> d1 ! i = (if i < n then msg ! i else dst ! i)"
    by (simp_all add: d1_def fold_store_nth)
  have cw: "build_codeword (s\<lparr>pBytes := pb\<rparr>) msg n dst = fold (\<lambda>i dst. dst[n + i := word_of_int (pb ! (3 - i))]) [0..<4] d1"
    by (simp add: build_codeword_def Let_def d1_def add.commute)
  have nth: "build_codeword (s\<lparr>pBytes := pb\<rparr>) msg n dst ! i =
      (if n \<le> i \<and> i < n + 4 then word_of_int (pb ! (3 - (i - n))) else d1 ! i)" if "i < length dst" for i
    unfolding cw using that d1(1) fold_store_row_nth [of i d1 1 n "\<lambda>i. word_of_int (pb ! (3 - i))" 4] by simp
  have lp: "length (parity msg) = 4" by (simp add: parity_def)
  have par: "parity msg ! i = word_of_int (L ! (3 - i))" if "i < 4" for i
    using that by (simp add: parity_def L_def)
  have "build_codeword (s\<lparr>pBytes := pb\<rparr>) msg n dst = msg @ parity msg @ drop (n + 4) dst"
  proof (rule nth_equalityI)
    show len: "length (build_codeword (s\<lparr>pBytes := pb\<rparr>) msg n dst) = length (msg @ parity msg @ drop (n + 4) dst)"
      unfolding cw using assms d1(1) lp by (simp add: n_def)
    fix i assume "i < length (build_codeword (s\<lparr>pBytes := pb\<rparr>) msg n dst)"
    then have i: "i < length dst" unfolding cw using d1(1) by simp
    consider "i < n" | "n \<le> i" "i < n + 4" | "n + 4 \<le> i" by linarith
    then show "build_codeword (s\<lparr>pBytes := pb\<rparr>) msg n dst ! i = (msg @ parity msg @ drop (n + 4) dst) ! i"
      using nth [OF i] d1(2) [OF i] lp par [of "i - n"] pb [of "3 - (i - n)"] i
      by cases (auto simp: nth_append n_def)
  qed
  then show "snd (encode_data s msg (length msg) dst) = msg @ parity msg @ drop (length msg + 4) dst"
    using enc by (simp add: n_def)
qed

end

subsection \<open>Errors as an error pattern\<close>

text \<open>
  Position \<open>p\<close> of a word counts from its end, so byte \<open>p\<close> is the coefficient of \<open>z^p\<close>. The
  difference of two words at a position, and the exponent of a position value.
\<close>

definition err_at :: "u8 list \<Rightarrow> u8 list \<Rightarrow> nat \<Rightarrow> gf256" where
  "err_at w c p = GF (w ! (length w - 1 - p)) + GF (c ! (length c - 1 - p))"

definition plog :: "gf256 \<Rightarrow> nat" where
  "plog x = (LEAST p. alpha ^ p = x)"

lemma plog_alpha: "p < 255 \<Longrightarrow> plog (alpha ^ p) = p"
  unfolding plog_def
proof (rule Least_equality)
  fix q assume p: "p < 255" and "alpha ^ q = alpha ^ p"
  then have "q mod 255 = p" by (simp add: alpha_power_eq_iff)
  then show "p \<le> q" by auto
qed simp

lemma word_eval_rev: "word_eval w x = (\<Sum>p<length w. GF (w ! (length w - 1 - p)) * x ^ p)"
  unfolding word_eval_def
  by (rule sum.reindex_bij_witness [where i = "\<lambda>p. length w - 1 - p" and j = "\<lambda>p. length w - 1 - p"]) auto

lemma word_eval_synd:
  assumes len: "length w = length c" "length c \<le> 255"
    and ps: "distinct ps" "set ps \<subseteq> {..<length c}" "\<And>p. p < length c \<Longrightarrow> p \<notin> set ps \<Longrightarrow> err_at w c p = 0"
  shows "word_eval w (alpha ^ (j + 1)) = word_eval c (alpha ^ (j + 1)) + synd (map (\<lambda>p. alpha ^ p) ps) (err_at w c \<circ> plog) j"
proof -
  define x where "x = alpha ^ (j + 1)"
  have w: "GF (w ! (length c - 1 - p)) = GF (c ! (length c - 1 - p)) + err_at w c p" for p
    by (simp add: err_at_def len(1) algebra_simps)
  have "word_eval w x = word_eval c x + (\<Sum>p<length c. err_at w c p * x ^ p)"
    unfolding word_eval_rev len(1) w by (simp add: distrib_right sum.distrib)
  also have "(\<Sum>p<length c. err_at w c p * x ^ p) = (\<Sum>p\<in>set ps. err_at w c p * x ^ p)"
    using ps by (intro sum.mono_neutral_right) auto
  also have "\<dots> = synd (map (\<lambda>p. alpha ^ p) ps) (err_at w c \<circ> plog) j"
  proof -
    have inj: "inj_on (\<lambda>p. alpha ^ p) (set ps)"
      by (rule inj_on_subset [OF alpha_power_inj]) (use ps(2) len(2) in auto)
    have "synd (map (\<lambda>p. alpha ^ p) ps) (err_at w c \<circ> plog) j = (\<Sum>p\<in>set ps. err_at w c (plog (alpha ^ p)) * (alpha ^ p) ^ (j + 1))"
      by (simp only: synd_def set_map sum.reindex [OF inj] comp_def)
    also have "\<dots> = (\<Sum>p\<in>set ps. err_at w c p * x ^ p)"
    proof (intro sum.cong refl)
      fix p assume "p \<in> set ps"
      then have "plog (alpha ^ p) = p" using ps(2) len(2) by (intro plog_alpha) auto
      moreover have "(alpha ^ p) ^ (j + 1) = x ^ p" by (simp only: x_def power_mult [symmetric] mult.commute)
      ultimately show "err_at w c (plog (alpha ^ p)) * (alpha ^ p) ^ (j + 1) = err_at w c p * x ^ p" by simp
    qed
    finally show ?thesis by simp
  qed
  finally show ?thesis by (simp add: x_def)
qed

lemma inverse_position: "x \<in> set (map (\<lambda>p. alpha ^ p) ps) \<Longrightarrow> x * inverse x = 1"
  using alpha_power_nz by auto

lemma distinct_positions: "distinct ps \<Longrightarrow> set ps \<subseteq> {..<255} \<Longrightarrow> distinct (map (\<lambda>p. alpha ^ p) ps)"
  using inj_on_subset [OF alpha_power_inj] by (simp add: distinct_map)

text \<open>Up to four wrong bytes leave some syndrome nonzero.\<close>

lemma synd_zero_no_error:
  assumes "distinct xs" "length xs \<le> 4" "x \<in> set xs" "x \<noteq> 0" "\<And>j. j < 4 \<Longrightarrow> synd xs e j = 0"
  shows "e x = 0"
proof -
  have "conv (locator xs) (synd xs e) n = 0" if "n < 4" for n
    using assms(5) that by (simp add: conv_def)
  then have "peval (conv (locator xs) (synd xs e)) 4 (inverse x) = 0" by (simp add: peval_def)
  then show ?thesis
    using forney_quotient(1) [of xs 4 4 x "inverse x" e] assms by simp
qed

end
