(* ===== verification/RsDecode.thy ===== *)
theory RsDecode
  imports RsEncode
begin

text \<open>
  Error and erasure correction (\<open>rscode-1.3/berlekamp.c\<close>): the erasure locator, the modified
  Berlekamp-Massey iteration, the evaluator, the search for the roots and the correction of
  the codeword. The local arrays \<open>psi2\<close>, \<open>tmp\<close>, \<open>product\<close>, which C leaves uninitialised, start
  as zeros; each cell is written before it is read.
\<close>

definition init_gamma :: "rs_state \<Rightarrow> int list \<Rightarrow> int list" where
  "init_gamma s gamma =
     (let gamma = zero_poly gamma;
          tmp = zero_poly (replicate MAXDEG 0);
          gamma = gamma[0 := 1]
      in fst (fold (\<lambda>e (gamma, tmp).
           let tmp = copy_poly tmp gamma;
               tmp = scale_poly (rs_gal s) (gexp (rs_gal s) ! nat (ErasureLocs s ! e)) tmp;
               tmp = mul_z_poly tmp
           in (add_polys gamma tmp, tmp)) [0..<NErasures s] (gamma, tmp)))"

definition compute_discrepancy :: "rs_state \<Rightarrow> int list \<Rightarrow> int list \<Rightarrow> nat \<Rightarrow> nat \<Rightarrow> int" where
  "compute_discrepancy s lam S L n =
     fold (\<lambda>i sum. sum XOR gmult (rs_gal s) (lam ! i) (S ! (n - i))) [0..<L + 1] 0"

definition compute_next_omega :: "rs_state \<Rightarrow> int \<Rightarrow> int list \<Rightarrow> int list \<Rightarrow> int list \<Rightarrow> int list" where
  "compute_next_omega s d A dst src = fold (\<lambda>i dst. dst[i := src ! i XOR gmult (rs_gal s) d (A ! i)]) [0..<MAXDEG] dst"

record bm_state =
  bm_psi :: "int list"
  bm_psi2 :: "int list"
  bm_D :: "int list"
  bm_L :: nat
  bm_k :: int

definition bm_step :: "rs_state \<Rightarrow> nat \<Rightarrow> bm_state \<Rightarrow> bm_state" where
  "bm_step s n b =
     (let d = compute_discrepancy s (bm_psi b) (synBytes s) (bm_L b) n;
          b = (if d \<noteq> 0 then
                 let b = b\<lparr>bm_psi2 := fold (\<lambda>i psi2. psi2[i := bm_psi b ! i XOR gmult (rs_gal s) d (bm_D b ! i)]) [0..<MAXDEG] (bm_psi2 b)\<rparr>;
                     b = (if int (bm_L b) < int n - bm_k b
                          then let L2 = nat (int n - bm_k b);
                                   b = b\<lparr>bm_k := int n - int (bm_L b)\<rparr>;
                                   b = b\<lparr>bm_D := fold (\<lambda>i D. D[i := gmult (rs_gal s) (bm_psi b ! i) (ginv (rs_gal s) d)]) [0..<MAXDEG] (bm_D b)\<rparr>
                               in b\<lparr>bm_L := L2\<rparr>
                          else b)
                 in b\<lparr>bm_psi := fold (\<lambda>i psi. psi[i := bm_psi2 b ! i]) [0..<MAXDEG] (bm_psi b)\<rparr>
               else b)
      in b\<lparr>bm_D := mul_z_poly (bm_D b)\<rparr>)"

definition compute_modified_omega :: "rs_state \<Rightarrow> rs_state" where
  "compute_modified_omega s =
     (let product = mult_polys (rs_gal s) (replicate (MAXDEG * 2) 0) (Lambda s) (synBytes s);
          s = s\<lparr>Omega := zero_poly (Omega s)\<rparr>
      in s\<lparr>Omega := fold (\<lambda>i om. om[i := product ! i]) [0..<NPAR] (Omega s)\<rparr>)"

definition Modified_Berlekamp_Massey :: "rs_state \<Rightarrow> rs_state" where
  "Modified_Berlekamp_Massey s =
     (let gamma = init_gamma s (replicate MAXDEG 0);
          D = mul_z_poly (copy_poly (replicate MAXDEG 0) gamma);
          psi = copy_poly (replicate MAXDEG 0) gamma;
          b = fold (bm_step s) [NErasures s..<NPAR]
                \<lparr>bm_psi = psi, bm_psi2 = replicate MAXDEG 0, bm_D = D, bm_L = NErasures s, bm_k = - 1\<rparr>;
          s = s\<lparr>Lambda := fold (\<lambda>i lam. lam[i := bm_psi b ! i]) [0..<MAXDEG] (Lambda s)\<rparr>
      in compute_modified_omega s)"

definition find_root :: "nat \<Rightarrow> rs_state \<Rightarrow> rs_state" where
  "find_root r s =
     (if fold (\<lambda>k sum. sum XOR gmult (rs_gal s) (gexp (rs_gal s) ! (k * r mod 255)) (Lambda s ! k)) [0..<NPAR + 1] 0 = 0
      then s\<lparr>ErrorLocs := (ErrorLocs s)[NErrors s := 255 - int r], NErrors := NErrors s + 1\<rparr>
      else s)"

definition Find_Roots :: "rs_state \<Rightarrow> rs_state" where
  "Find_Roots s = fold find_root [1..<256] (s\<lparr>NErrors := 0\<rparr>)"

definition error_magnitude :: "rs_state \<Rightarrow> int \<Rightarrow> int" where
  "error_magnitude s i =
     (let num = fold (\<lambda>j num. num XOR gmult (rs_gal s) (Omega s ! j) (gexp (rs_gal s) ! nat ((255 - i) * int j mod 255))) [0..<MAXDEG] 0;
          denom = fold (\<lambda>j denom. denom XOR gmult (rs_gal s) (Lambda s ! j) (gexp (rs_gal s) ! nat ((255 - i) * int (j - 1) mod 255)))
                    (filter odd [1..<MAXDEG]) 0
      in gmult (rs_gal s) num (ginv (rs_gal s) denom))"

definition correct_errors_erasures ::
  "rs_state \<Rightarrow> u8 list \<Rightarrow> nat \<Rightarrow> nat \<Rightarrow> int list \<Rightarrow> rs_state \<times> u8 list \<times> int" where
  "correct_errors_erasures s codeword csize nerasures erasures =
     (let s = s\<lparr>NErasures := nerasures\<rparr>;
          s = s\<lparr>ErasureLocs := fold (\<lambda>i locs. locs[i := erasures ! i]) [0..<NErasures s] (ErasureLocs s)\<rparr>;
          s = Modified_Berlekamp_Massey s;
          s = Find_Roots s
      in if NErrors s \<le> NPAR \<and> NErrors s > 0
         then if list_ex (\<lambda>r. int csize \<le> ErrorLocs s ! r) [0..<NErrors s] then (s, codeword, 0)
              else (s, fold (\<lambda>r cw. let i = ErrorLocs s ! r; p = nat (int csize - i - 1)
                                     in cw[p := cw ! p XOR word_of_int (error_magnitude s i)]) [0..<NErrors s] codeword, 1)
         else (s, codeword, 0))"

subsection \<open>The iteration on coefficient sequences\<close>

text \<open>
  Berlekamp-Massey without erasures on a sequence \<open>t\<close>: connection polynomial, correction
  polynomial, length, and the place of the last length change.
\<close>

type_synonym bm_abs = "(nat \<Rightarrow> gf256) \<times> (nat \<Rightarrow> gf256) \<times> nat \<times> int"

definition abs_step :: "(nat \<Rightarrow> gf256) \<Rightarrow> nat \<Rightarrow> bm_abs \<Rightarrow> bm_abs" where
  "abs_step t m = (\<lambda>(sg, dl, l, k).
     let d = (\<Sum>i\<le>l. sg i * t (m - i))
     in if d \<noteq> 0
        then if int l < int m - k
             then (\<lambda>i. sg i + d * dl i, zshift (\<lambda>i. sg i * inverse d), nat (int m - k), int m - int l)
             else (\<lambda>i. sg i + d * dl i, zshift dl, l, k)
        else (sg, zshift dl, l, k))"

definition abs_ok :: "nat \<Rightarrow> bm_abs \<Rightarrow> bool" where
  "abs_ok m = (\<lambda>(sg, dl, l, k). l \<le> m \<and> - 1 \<le> k \<and> (\<forall>i>l. sg i = 0) \<and> (\<forall>i. int m - k < int i \<longrightarrow> dl i = 0))"

lemma zshift_degree: "(\<And>i. n < int i \<Longrightarrow> p i = 0) \<Longrightarrow> n + 1 < int j \<Longrightarrow> zshift p j = 0"
  by (cases j) auto

lemma abs_ok_step:
  assumes "abs_ok m a"
  shows "abs_ok (Suc m) (abs_step t m a)"
proof -
  obtain sg dl l k where a: "a = (sg, dl, l, k)" by (cases a)
  have l: "l \<le> m" and k: "- 1 \<le> k" and sg: "\<And>i. l < i \<Longrightarrow> sg i = 0" and dl: "\<And>i. int m - k < int i \<Longrightarrow> dl i = 0"
    using assms by (auto simp: a abs_ok_def)
  have dl': "zshift dl i = 0" if "int (Suc m) - k < int i" for i
    using zshift_degree [of "int m - k" dl i] dl that by simp
  have sg': "zshift (\<lambda>i. sg i * c) i = 0" if "int l + 1 < int i" for i c
    using zshift_degree [of "int l" "\<lambda>i. sg i * c" i] sg that by simp
  show ?thesis using l k sg dl dl' sg' by (auto simp: a abs_step_def abs_ok_def Let_def)
qed

lemma conv_degree_add:
  assumes "\<And>i. a < i \<Longrightarrow> p i = 0" "\<And>i. b < i \<Longrightarrow> q i = 0" "a + b < n"
  shows "conv p q n = 0"
proof -
  have "p i * q (n - i) = 0" if "i \<le> n" for i
  proof (cases "a < i")
    case False
    then have "b < n - i" using assms(3) by linarith
    then show ?thesis using assms(2) by simp
  qed (use assms(1) in simp)
  then show ?thesis by (simp add: conv_def)
qed

text \<open>With erasures, all polynomials of the iteration are multiples of the erasure locator.\<close>

definition bm_rel :: "(nat \<Rightarrow> gf256) \<Rightarrow> nat \<Rightarrow> nat \<Rightarrow> bm_state \<Rightarrow> bm_abs \<Rightarrow> bool" where
  "bm_rel gam f m b = (\<lambda>(sg, dl, l, k). length (bm_psi b) = 8 \<and> length (bm_psi2 b) = 8 \<and> length (bm_D b) = 8 \<and>
     poly_ok (bm_psi b) \<and> poly_ok (bm_D b) \<and> poly (bm_psi b) = conv gam sg \<and> poly (bm_D b) = conv gam dl \<and>
     bm_L b = f + l \<and> bm_k b = k \<and> abs_ok m (sg, dl, l, k))"

lemma conv_scale_inverse: "conv gam (\<lambda>i. sg i * c) n = conv gam sg n * c"
  using conv_scale_right [of gam c sg n] by (simp add: mult.commute)

context rs_library
begin

lemma store_poly:
  assumes "length xs = 8" "\<And>i. i < 8 \<Longrightarrow> is_byte (f i)"
  shows "poly_ok (fold (\<lambda>i xs. xs[i := f i]) [0..<8] xs)"
    and "poly (fold (\<lambda>i xs. xs[i := f i]) [0..<8] xs) = (\<lambda>i. if i < 8 then gfi (f i) else 0)"
    and "length (fold (\<lambda>i xs. xs[i := f i]) [0..<8] xs) = 8"
  using assms by (auto simp: poly_ok_def poly_def fold_store_nth fun_eq_iff)

lemma discrepancy:
  assumes rel: "bm_rel gam f m b (sg, dl, l, k)" and gam: "\<And>i. f < i \<Longrightarrow> gam i = 0" and n: "f + m < 4"
  defines "d \<equiv> compute_discrepancy s (bm_psi b) (synBytes s) (bm_L b) (f + m)"
  shows "is_byte d" and "gfi d = (\<Sum>i\<le>l. sg i * conv gam (poly (synBytes s)) (f + (m - i)))"
proof -
  have L: "bm_L b = f + l" "l \<le> m" and sg: "\<And>i. l < i \<Longrightarrow> sg i = 0" and ok: "poly_ok (bm_psi b)"
    and psi: "poly (bm_psi b) = conv gam sg"
    using rel by (auto simp: bm_rel_def abs_ok_def)
  let ?S = "poly (synBytes s)"
  have Sok: "poly_ok (synBytes s)" using ready by (simp add: rs_ready_def)
  have bts: "is_byte (bm_psi b ! i) \<and> is_byte (synBytes s ! (f + m - i))" if "i < f + l + 1" for i
    using that poly_okD(1) [OF ok, of i] poly_okD(1) [OF Sok, of "f + m - i"] L(2) n by simp
  note dot = dot_loop [of 0 "f + l + 1" "\<lambda>i. bm_psi b ! i" "\<lambda>i. synBytes s ! (f + m - i)" 0]
  show "is_byte d" using dot bts L(1) by (simp add: d_def compute_discrepancy_def)
  have "gfi d = (\<Sum>i=0..<f + l + 1. gfi (bm_psi b ! i) * gfi (synBytes s ! (f + m - i)))"
    using dot bts L(1) by (simp add: d_def compute_discrepancy_def)
  also have "\<dots> = (\<Sum>i\<le>f + l. poly (bm_psi b) i * ?S (f + m - i))"
    using L(2) n by (intro sum.cong) (auto simp: poly_def)
  also have "\<dots> = conv (conv gam sg) ?S (f + m)"
    unfolding psi using conv_degree_add [of f gam l sg] gam sg L(2) by (intro conv_degree [symmetric]) auto
  also have "\<dots> = conv sg (conv gam ?S) (f + m)"
    unfolding conv_commute [of gam sg] by (rule conv_assoc)
  also have "\<dots> = (\<Sum>i\<le>l. sg i * conv gam ?S (f + m - i))"
    using sg L(2) by (intro conv_degree) auto
  also have "\<dots> = (\<Sum>i\<le>l. sg i * conv gam ?S (f + (m - i)))"
    using L(2) by (intro sum.cong) (auto simp: Nat.add_diff_assoc)
  finally show "gfi d = (\<Sum>i\<le>l. sg i * conv gam ?S (f + (m - i)))" .
qed

lemma mul_z_rel:
  assumes "length D = 8" "poly_ok D" "poly D = conv gam dl" "\<And>i. f < i \<Longrightarrow> gam i = 0" "\<And>i. e < i \<Longrightarrow> dl i = 0" "f + e < 7"
  shows "length (mul_z_poly D) = 8" "poly_ok (mul_z_poly D)" "poly (mul_z_poly D) = conv gam (zshift dl)"
proof -
  have "poly D 7 = 0" unfolding assms(3) using assms(4-6) by (rule conv_degree_add)
  then show "poly (mul_z_poly D) = conv gam (zshift dl)"
    using assms(1,3) by (simp add: poly_mul_z conv_zshift_right)
qed (use assms in auto)

lemma bm_step_simulates:
  assumes rel: "bm_rel gam f m b a" and gam: "\<And>i. f < i \<Longrightarrow> gam i = 0" and n: "f + m < 4"
  shows "bm_rel gam f (Suc m) (bm_step s (f + m) b) (abs_step (\<lambda>m. conv gam (poly (synBytes s)) (f + m)) m a)"
proof -
  obtain sg dl l k where a: "a = (sg, dl, l, k)" by (cases a)
  note rel' = rel [unfolded a]
  have r: "length (bm_psi b) = 8" "length (bm_psi2 b) = 8" "length (bm_D b) = 8" "poly_ok (bm_psi b)" "poly_ok (bm_D b)"
    "poly (bm_psi b) = conv gam sg" "poly (bm_D b) = conv gam dl" "bm_L b = f + l" "bm_k b = k" "abs_ok m (sg, dl, l, k)"
    using rel' by (auto simp: bm_rel_def)
  have l: "l \<le> m" "- 1 \<le> k" "\<And>i. l < i \<Longrightarrow> sg i = 0" "\<And>i. int m - k < int i \<Longrightarrow> dl i = 0"
    using r(10) by (auto simp: abs_ok_def)
  have dl: "dl i = 0" if "m + 1 < i" for i using l(2,4) that by simp
  define t where "t m = conv gam (poly (synBytes s)) (f + m)" for m
  define d where "d = compute_discrepancy s (bm_psi b) (synBytes s) (bm_L b) (f + m)"
  define dd where "dd = (\<Sum>i\<le>l. sg i * t (m - i))"
  have ds: "compute_discrepancy s (bm_psi b) (synBytes s) (f + l) (f + m) = d" by (simp add: d_def r(8))
  have d: "is_byte d" "gfi d = dd" using discrepancy [OF rel' gam n] by (simp_all add: d_def dd_def t_def)
  have d0: "d = 0 \<longleftrightarrow> dd = 0" using gfi_eq_0 [OF d(1)] d(2) by simp
  have ok': "abs_ok (Suc m) (abs_step t m a)" unfolding a by (rule abs_ok_step [OF r(10)])
  have deg: "f + (m + 1) < 7" "f + l < 7" using n l(1) by linarith+
  note mzD = mul_z_rel [where f = f and e = "m + 1", OF r(3,5,7) gam dl deg(1)]
  show ?thesis
  proof (cases "d = 0")
    case True
    have st: "abs_step t m a = (sg, zshift dl, l, k)" using True d0 by (simp add: abs_step_def a dd_def Let_def)
    have "bm_step s (f + m) b = b\<lparr>bm_D := mul_z_poly (bm_D b)\<rparr>"
      using True by (simp add: bm_step_def d_def Let_def)
    then show ?thesis
      using st ok' r mzD unfolding t_def [symmetric] by (simp add: bm_rel_def)
  next
    case False
    define psi2 where "psi2 = fold (\<lambda>i psi2. psi2[i := bm_psi b ! i XOR gmult (rs_gal s) d (bm_D b ! i)]) [0..<8] (bm_psi2 b)"
    define psi' where "psi' = fold (\<lambda>i psi. psi[i := psi2 ! i]) [0..<8] (bm_psi b)"
    define D2 where "D2 = fold (\<lambda>i D. D[i := gmult (rs_gal s) (bm_psi b ! i) (ginv (rs_gal s) d)]) [0..<8] (bm_D b)"
    have bp: "is_byte (bm_psi b ! i)" "is_byte (bm_D b ! i)" if "i < 8" for i
      using that r(4,5) poly_okD by auto
    have p2: "poly_ok psi2" "poly psi2 = (\<lambda>i. conv gam sg i + dd * conv gam dl i)" "length psi2 = 8"
    proof -
      have "poly psi2 = (\<lambda>i. poly (bm_psi b) i + dd * poly (bm_D b) i)"
        unfolding psi2_def using store_poly(2) [OF r(2), of "\<lambda>i. bm_psi b ! i XOR gmult (rs_gal s) d (bm_D b ! i)"] bp d
        by (auto simp: gmult_ok poly_def gfi_xor fun_eq_iff)
      then show "poly psi2 = (\<lambda>i. conv gam sg i + dd * conv gam dl i)" by (simp add: r)
    qed (use store_poly(1,3) [OF r(2), of "\<lambda>i. bm_psi b ! i XOR gmult (rs_gal s) d (bm_D b ! i)"] bp d in \<open>auto simp: psi2_def gmult_ok\<close>)
    have p': "poly_ok psi'" "length psi' = 8" "poly psi' = conv gam (\<lambda>i. sg i + dd * dl i)"
    proof -
      note sp = store_poly [OF r(1), of "\<lambda>i. psi2 ! i"]
      show "poly_ok psi'" "length psi' = 8" using sp poly_okD(1) [OF p2(1)] by (simp_all add: psi'_def)
      have "poly psi' = poly psi2" using sp(2) poly_okD(1) [OF p2(1)] by (simp add: psi'_def poly_def fun_eq_iff)
      then show "poly psi' = conv gam (\<lambda>i. sg i + dd * dl i)"
        by (simp add: p2(2) conv_add_right conv_scale_right fun_eq_iff)
    qed
    have D2: "poly_ok D2" "length D2 = 8" "poly D2 = conv gam (\<lambda>i. sg i * inverse dd)"
    proof -
      note sp = store_poly [OF r(3), of "\<lambda>i. gmult (rs_gal s) (bm_psi b ! i) (ginv (rs_gal s) d)"]
      have i: "is_byte (ginv (rs_gal s) d)" "gfi (ginv (rs_gal s) d) = inverse dd" using ginv_ok [OF d(1)] False d(2) by auto
      show "poly_ok D2" "length D2 = 8" using sp bp i by (simp_all add: D2_def gmult_ok)
      have "poly D2 = (\<lambda>i. poly (bm_psi b) i * inverse dd)"
        using sp(2) bp i by (auto simp: D2_def gmult_ok poly_def fun_eq_iff)
      then show "poly D2 = conv gam (\<lambda>i. sg i * inverse dd)" by (simp add: r conv_scale_inverse fun_eq_iff)
    qed
    show ?thesis
    proof (cases "int l < int m - k")
      case upd: True
      have st: "abs_step t m a = (\<lambda>i. sg i + dd * dl i, zshift (\<lambda>i. sg i * inverse dd), nat (int m - k), int m - int l)"
        using upd False d0 unfolding abs_step_def a dd_def Let_def by simp
      have "bm_step s (f + m) b = b\<lparr>bm_psi := psi', bm_psi2 := psi2, bm_D := mul_z_poly D2, bm_L := f + nat (int m - k), bm_k := int m - int l\<rparr>"
      proof -
        have "nat (int (f + m) - k) = f + nat (int m - k)" using upd by linarith
        then show ?thesis
          using False upd ds r(8,9)
          by (intro bm_state.equality) (simp_all add: bm_step_def Let_def psi2_def psi'_def D2_def)
      qed
      then show ?thesis
        using st ok' p' p2(3) mul_z_rel [where f = f and e = l, OF D2(2,1,3) gam _ deg(2)] l(3) unfolding t_def [symmetric] by (simp add: bm_rel_def)
    next
      case keep: False
      have st: "abs_step t m a = (\<lambda>i. sg i + dd * dl i, zshift dl, l, k)"
        using keep False d0 unfolding abs_step_def a dd_def Let_def by simp
      have "bm_step s (f + m) b = b\<lparr>bm_psi := psi', bm_psi2 := psi2, bm_D := mul_z_poly (bm_D b)\<rparr>"
        using False keep ds r(8,9) by (intro bm_state.equality) (simp_all add: bm_step_def Let_def psi2_def psi'_def)
      then show ?thesis
        using st ok' r p' p2(3) mzD unfolding t_def [symmetric] by (simp add: bm_rel_def)
    qed
  qed
qed

end

subsection \<open>What the iteration finds\<close>

definition abs_run :: "(nat \<Rightarrow> gf256) \<Rightarrow> nat \<Rightarrow> bm_abs" where
  "abs_run t n = fold (abs_step t) [0..<n] (delta, zshift delta, 0, - 1)"

lemma abs_run_simps [simp]: "abs_run t 0 = (delta, zshift delta, 0, - 1)" "abs_run t (Suc n) = abs_step t n (abs_run t n)"
  by (simp_all add: abs_run_def)

lemma abs_run_zero: "(\<And>m. m < n \<Longrightarrow> t m = 0) \<Longrightarrow> fst (abs_run t n) = delta \<and> fst (snd (snd (abs_run t n))) = 0"
proof (induction n)
  case 0
  then show ?case by simp
next
  case (Suc n)
  then show ?case by (cases "abs_run t n") (simp add: abs_step_def)
qed

text \<open>Short coefficient lists.\<close>

definition coef :: "gf256 list \<Rightarrow> nat \<Rightarrow> gf256" where
  "coef xs i = (if i < length xs then xs ! i else 0)"

lemma coef_simps [simp]: "coef [] i = 0" "coef (x # xs) 0 = x" "coef (x # xs) (Suc i) = coef xs i"
  by (simp_all add: coef_def)

lemma coef_delta: "delta = coef [1, 0, 0, 0]"
proof
  fix i show "delta i = coef [1, 0, 0, 0] i" by (cases i) (auto simp: delta_def coef_def less_Suc_eq_0_disj)
qed

lemma coef_zshift: "zshift (coef [a, b, c, 0]) = coef [0, a, b, c]"
proof
  fix i
  consider "i = 0" | "i = Suc 0" | "i = Suc (Suc 0)" | "i = Suc (Suc (Suc 0))" | j where "i = Suc (Suc (Suc (Suc j)))"
    by (metis nat.exhaust)
  then show "zshift (coef [a, b, c, 0]) i = coef [0, a, b, c] i"
    by cases (simp_all add: zshift_def coef_def)
qed

lemma coef_add: "(\<lambda>i. coef [a, b, c, d] i + x * coef [a', b', c', d'] i) = coef [a + x * a', b + x * b', c + x * c', d + x * d']"
  by (auto simp: coef_def fun_eq_iff less_Suc_eq_0_disj)

lemma coef_scale: "(\<lambda>i. coef [a, b, c, d] i * x) = coef [a * x, b * x, c * x, d * x]"
  by (auto simp: coef_def fun_eq_iff less_Suc_eq_0_disj)

lemma locator_coef: "locator [] = coef [1, 0, 0, 0]" "locator [x] = coef [1, x, 0, 0]" "locator [x, y] = coef [1, x + y, x * y, 0]"
proof -
  show 0: "locator [] = coef [1, 0, 0, 0]" by (simp add: coef_delta)
  show 1: "locator [x] = coef [1, x, 0, 0]" for x by (simp add: coef_delta coef_zshift coef_add)
  show "locator [x, y] = coef [1, x + y, x * y, 0]"
    using 1 [of y] by (simp add: coef_zshift coef_add add.commute)
qed

lemmas coef_step = abs_step_def Let_def coef_zshift coef_add coef_scale

lemma abs_run_one:
  assumes "\<And>m. m < n \<Longrightarrow> t m = b * x ^ m" "b \<noteq> 0" "2 \<le> n"
  shows "fst (abs_run t n) = locator [x]"
proof -
  have "\<exists>dl k. abs_run t n = (coef [1, x, 0, 0], dl, 1, k)"
    using assms(3,1)
  proof (induction n rule: nat_induct_at_least)
    case base
    have t: "t 0 = b" "t (Suc 0) = b * x" using base [of 0] base [of 1] by simp_all
    have "abs_run t 1 = (coef [1, b, 0, 0], coef [0, inverse b, 0, 0], 1, 0)"
      using assms(2) by (simp add: coef_delta coef_step t)
    moreover have "b + (b * x + b * b) * inverse b = x" using assms(2) by (simp add: field_simps)
    moreover have "b = x" if "b * x + b * b = 0" using that assms(2) by simp
    ultimately show ?case by (auto simp: numeral_2_eq_2 coef_step t)
  next
    case (Suc n)
    then obtain dl k where run: "abs_run t n = (coef [1, x, 0, 0], dl, 1, k)" by auto
    obtain m where "n = Suc m" using Suc.hyps by (cases n) auto
    then have "t n + x * t (n - 1) = 0" using Suc.prems [of n] Suc.prems [of m] by (simp add: algebra_simps)
    then show ?case using run by (simp add: abs_step_def)
  qed
  then show ?thesis unfolding locator_coef by auto
qed

text \<open>The two linear equations that determine the locator of two errors.\<close>

lemma two_errors_unique:
  fixes x y :: gf256
  assumes t: "\<And>m. m < 4 \<Longrightarrow> t m = a * x ^ m + b * y ^ m"
    and nz: "t 0 * t 2 + t 1 * t 1 \<noteq> 0"
    and eqs: "t 2 + s1 * t 1 + s2 * t 0 = 0" "t 3 + s1 * t 2 + s2 * t 1 = 0"
  shows "s1 = x + y" "s2 = x * y"
proof -
  have tv: "t 0 = a + b" "t 1 = a * x + b * y" "t 2 = a * x ^ 2 + b * y ^ 2" "t 3 = a * x ^ 3 + b * y ^ 3"
    using t [of 0] t [of 1] t [of 2] t [of 3] by simp_all
  define u where "u = s1 + (x + y)"
  define v where "v = s2 + x * y"
  have "t 2 + (x + y) * t 1 + x * y * t 0 = 0" "t 3 + (x + y) * t 2 + x * y * t 1 = 0"
    unfolding tv by (simp_all add: algebra_simps power2_eq_square power3_eq_cube)
  with eqs have e: "u * t 1 + v * t 0 = 0" "u * t 2 + v * t 1 = 0"
    by (simp_all add: u_def v_def algebra_simps)
  have "u * (t 0 * t 2 + t 1 * t 1) = t 0 * (u * t 2 + v * t 1) + t 1 * (u * t 1 + v * t 0)"
    by (simp add: algebra_simps)
  then have "u = 0" using e nz by simp
  have "v * (t 0 * t 2 + t 1 * t 1) = t 2 * (u * t 1 + v * t 0) + t 1 * (u * t 2 + v * t 1)"
    by (simp add: algebra_simps)
  then have "v = 0" using e nz by simp
  show "s1 = x + y" "s2 = x * y" using \<open>u = 0\<close> \<open>v = 0\<close> by (simp_all add: u_def v_def)
qed

lemma abs_step_two_keep:
  fixes sg dl :: "nat \<Rightarrow> gf256"
  assumes "(\<Sum>i\<le>l. sg i * t (m - i)) = d" "\<not> int l < int m - k"
  shows "abs_step t m (sg, dl, l, k) = (\<lambda>i. sg i + d * dl i, zshift dl, l, k)"
  using assms by (auto simp: abs_step_def Let_def)

lemma abs_step_two_update:
  assumes "(\<Sum>i\<le>l. sg i * t (m - i)) = d" "d \<noteq> 0" "int l < int m - k"
  shows "abs_step t m (sg, dl, l, k) =
    (\<lambda>i. sg i + d * dl i, zshift (\<lambda>i. sg i * inverse d), nat (int m - k), int m - int l)"
  using assms by (simp add: abs_step_def Let_def)

lemma abs_run_two_first_nonzero:
  assumes t0: "t 0 \<noteq> 0" and nz: "t 0 * t 2 + t 1 * t 1 \<noteq> 0"
  shows "\<exists>s1 s2. fst (abs_run t 4) = coef [1, s1, s2, 0] \<and> t 2 + s1 * t 1 + s2 * t 0 = 0 \<and> t 3 + s1 * t 2 + s2 * t 1 = 0"
proof -
  define u where "u = inverse (t 0)"
  define d where "d = t 2 + t 1 * u * t 1"
  define v where "v = inverse d"
  define e where "e = t 3 + t 1 * u * t 2 + d * u * t 1"
  have u: "t 0 * u = 1" using t0 by (simp add: u_def)
  have "t 0 * d = t 0 * t 2 + (t 0 * u) * (t 1 * t 1)" by (simp add: d_def algebra_simps)
  then have "d \<noteq> 0" using nz by (auto simp: u)
  then have v: "d * v = 1" by (simp add: v_def)
  have r1: "abs_run t 1 = (coef [1, t 0, 0, 0], coef [0, u, 0, 0], 1, 0)"
    using t0 by (simp add: coef_delta coef_step u_def)
  have s1: "t 0 + (t 1 + t 0 * t 0) * u = t 1 * u"
  proof -
    have "t 0 + (t 1 + t 0 * t 0) * u = t 0 + t 1 * u + t 0 * (t 0 * u)" by (simp add: algebra_simps)
    then show ?thesis by (simp add: u)
  qed
  have "abs_run t 2 = abs_step t 1 (abs_run t 1)" by (simp add: numeral_2_eq_2)
  also have "\<dots> = (coef [1, t 1 * u, 0, 0], coef [0, 0, u, 0], 1, 0)"
    unfolding r1 by (subst abs_step_two_keep [where d = "t 1 + t 0 * t 0"]) (simp_all add: coef_add coef_zshift s1 [unfolded One_nat_def])
  finally have r2: "abs_run t 2 = (coef [1, t 1 * u, 0, 0], coef [0, 0, u, 0], 1, 0)" .
  have "abs_run t 3 = abs_step t 2 (abs_run t 2)" by (simp add: eval_nat_numeral)
  also have "\<dots> = (coef [1, t 1 * u, d * u, 0], coef [0, v, t 1 * u * v, 0], 2, 1)"
    unfolding r2 using \<open>d \<noteq> 0\<close>
    by (subst abs_step_two_update [where d = d]) (simp_all add: coef_add coef_scale coef_zshift d_def v_def)
  finally have r3: "abs_run t 3 = (coef [1, t 1 * u, d * u, 0], coef [0, v, t 1 * u * v, 0], 2, 1)" .
  have "abs_run t 4 = abs_step t 3 (abs_run t 3)" by (simp add: eval_nat_numeral)
  also have "fst \<dots> = coef [1, t 1 * u + e * v, d * u + e * (t 1 * u * v), 0]"
    unfolding r3 by (subst abs_step_two_keep [where d = e]) (simp_all add: coef_add e_def eval_nat_numeral)
  finally have r4: "fst (abs_run t 4) = coef [1, t 1 * u + e * v, d * u + e * (t 1 * u * v), 0]" .
  have q1: "t 2 + (t 1 * u + e * v) * t 1 + (d * u + e * (t 1 * u * v)) * t 0
      = d + (e * v * t 1) + (t 0 * u) * (d + e * v * t 1)"
    by (simp add: d_def algebra_simps)
  have q2: "t 3 + (t 1 * u + e * v) * t 2 + (d * u + e * (t 1 * u * v)) * t 1 = e + (d * v) * e"
    by (simp add: e_def d_def algebra_simps)
  show ?thesis
    by (intro exI [of _ "t 1 * u + e * v"] exI [of _ "d * u + e * (t 1 * u * v)"] conjI r4)
      (simp_all only: q1 q2 u v mult_1_left gf_add_self)
qed

lemma abs_run_two_first_zero:
  assumes t0: "t 0 = 0" and t1: "t 1 \<noteq> 0"
  shows "\<exists>s1 s2. fst (abs_run t 4) = coef [1, s1, s2, 0] \<and> t 2 + s1 * t 1 + s2 * t 0 = 0 \<and> t 3 + s1 * t 2 + s2 * t 1 = 0"
proof -
  define u where "u = inverse (t 1)"
  define e where "e = t 3 + t 2 * u * t 2 + t 1 * t 1"
  have u: "t 1 * u = 1" using t1 by (simp add: u_def)
  have r1: "abs_run t 1 = (coef [1, 0, 0, 0], coef [0, 0, 1, 0], 0, - 1)"
    using t0 by (simp add: coef_delta coef_step)
  have "abs_run t 2 = abs_step t 1 (abs_run t 1)" by (simp add: numeral_2_eq_2)
  also have "\<dots> = (coef [1, 0, t 1, 0], coef [0, u, 0, 0], 2, 1)"
    unfolding r1 using t1 by (subst abs_step_two_update [where d = "t 1"]) (simp_all add: coef_add coef_scale coef_zshift u_def)
  finally have r2: "abs_run t 2 = (coef [1, 0, t 1, 0], coef [0, u, 0, 0], 2, 1)" .
  have "abs_run t 3 = abs_step t 2 (abs_run t 2)" by (simp add: eval_nat_numeral)
  also have "\<dots> = (coef [1, t 2 * u, t 1, 0], coef [0, 0, u, 0], 2, 1)"
    unfolding r2 using t0
    by (subst abs_step_two_keep [where d = "t 2"]) (simp_all add: coef_add coef_zshift eval_nat_numeral)
  finally have r3: "abs_run t 3 = (coef [1, t 2 * u, t 1, 0], coef [0, 0, u, 0], 2, 1)" .
  have "abs_run t 4 = abs_step t 3 (abs_run t 3)" by (simp add: eval_nat_numeral)
  also have "fst \<dots> = coef [1, t 2 * u, t 1 + e * u, 0]"
    unfolding r3 by (subst abs_step_two_keep [where d = e]) (simp_all add: coef_add e_def eval_nat_numeral)
  finally have r4: "fst (abs_run t 4) = coef [1, t 2 * u, t 1 + e * u, 0]" .
  have q1: "t 2 + (t 2 * u) * t 1 + (t 1 + e * u) * t 0 = t 2 + (t 1 * u) * t 2"
    by (simp add: t0 algebra_simps)
  have q2: "t 3 + (t 2 * u) * t 2 + (t 1 + e * u) * t 1 = e + (t 1 * u) * e"
    by (simp add: e_def algebra_simps)
  show ?thesis
    by (intro exI [of _ "t 2 * u"] exI [of _ "t 1 + e * u"] conjI r4)
      (simp_all only: q1 q2 u mult_1_left gf_add_self)
qed

lemma abs_run_two:
  assumes t: "\<And>m. m < 4 \<Longrightarrow> t m = a * x ^ m + b * y ^ m" and ab: "a \<noteq> 0" "b \<noteq> 0" "x \<noteq> y"
  shows "fst (abs_run t 4) = locator [x, y]"
proof -
  have tv: "t 0 = a + b" "t 1 = a * x + b * y" "t 2 = a * x ^ 2 + b * y ^ 2"
    using t [of 0] t [of 1] t [of 2] by simp_all
  have "t 0 * t 2 + t 1 * t 1 = a * b * ((x + y) * (x + y))"
    unfolding tv by (simp add: algebra_simps power2_eq_square)
  moreover have "x + y \<noteq> 0" using ab(3) by simp
  ultimately have nz: "t 0 * t 2 + t 1 * t 1 \<noteq> 0" using ab by simp
  then have "t 0 = 0 \<Longrightarrow> t 1 \<noteq> 0" by auto
  then obtain s1 s2 where run: "fst (abs_run t 4) = coef [1, s1, s2, 0]"
    and eqs: "t 2 + s1 * t 1 + s2 * t 0 = 0" "t 3 + s1 * t 2 + s2 * t 1 = 0"
    using abs_run_two_first_nonzero [OF _ nz] abs_run_two_first_zero [of t] by blast
  have "s1 = x + y" "s2 = x * y" using two_errors_unique [OF t nz eqs] by simp_all
  then show ?thesis unfolding run locator_coef by (simp only:)
qed

end
