(* ===== verification/RsCorrect.thy ===== *)
theory RsCorrect
  imports RsDecode
begin

text \<open>
  Correctness of the Reed-Solomon decoder: from the syndromes of an error pattern with \<open>f\<close>
  erasures and \<open>v\<close> further errors, \<open>f + 2 * v \<le> NPAR\<close>, the iteration finds the locator
  polynomial, the search finds the positions, and the correction restores the codeword.
\<close>

subsection \<open>The modified syndromes\<close>

lemma conv_locator_foreign:
  assumes "x \<noteq> 0" "length es \<le> n"
  shows "conv (locator es) (\<lambda>m. x ^ m) n = x ^ n * (\<Prod>w\<leftarrow>es. 1 + w * inverse x)"
proof -
  have "conv (locator es) (\<lambda>m. x ^ m) n = (\<Sum>i\<le>length es. locator es i * x ^ (n - i))"
    using assms(2) by (intro conv_degree) (simp_all add: locator_degree)
  also have "\<dots> = (\<Sum>i\<le>length es. x ^ n * (locator es i * inverse x ^ i))"
  proof (intro sum.cong refl)
    fix i assume "i \<in> {..length es}"
    then have "x ^ n = x ^ (n - i) * x ^ i" using assms(2) by (simp flip: power_add)
    then show "locator es i * x ^ (n - i) = x ^ n * (locator es i * inverse x ^ i)"
      using assms(1) by (simp add: field_simps)
  qed
  also have "\<dots> = x ^ n * peval (locator es) (Suc (length es)) (inverse x)"
    by (simp add: peval_def sum_distrib_left lessThan_Suc_atMost)
  finally show ?thesis by (simp add: peval_locator)
qed

definition residue :: "gf256 list \<Rightarrow> (gf256 \<Rightarrow> gf256) \<Rightarrow> gf256 \<Rightarrow> gf256" where
  "residue es e x = e x * x * (\<Prod>w\<leftarrow>es. 1 + w * inverse x)"

lemma modified_synd:
  assumes xs: "distinct (es @ us)" "0 \<notin> set us" and n: "length es \<le> n"
    and S: "\<And>i. i \<le> n \<Longrightarrow> S i = synd (es @ us) e i"
  shows "conv (locator es) S n = (\<Sum>x\<in>set us. residue es e x * x ^ n)"
proof -
  have "conv (locator es) S n = conv (locator es) (synd (es @ us) e) n" using S by (intro conv_cong) simp_all
  also have "synd (es @ us) e = (\<lambda>i. \<Sum>x\<in>set (es @ us). (e x * x) * x ^ i)" by (simp add: synd_def fun_eq_iff mult.assoc)
  also have "conv (locator es) (\<lambda>i. \<Sum>x\<in>set (es @ us). (e x * x) * x ^ i) n
      = (\<Sum>x\<in>set (es @ us). (e x * x) * conv (locator es) (\<lambda>m. x ^ m) n)"
    by (simp only: conv_sum_right [OF finite_set] conv_scale_right)
  also have "\<dots> = (\<Sum>x\<in>set us. (e x * x) * conv (locator es) (\<lambda>m. x ^ m) n)"
  proof (rule sum.mono_neutral_right)
    show "\<forall>x\<in>set (es @ us) - set us. e x * x * conv (locator es) (\<lambda>m. x ^ m) n = 0"
    proof
      fix x assume "x \<in> set (es @ us) - set us"
      then have x: "x \<in> set es" by auto
      then have "length (remove1 x es) = length es - 1" "0 < length es"
        using length_pos_if_in_set [OF x] by (simp_all add: length_remove1)
      then have "length (remove1 x es) < n" using n by linarith
      then show "e x * x * conv (locator es) (\<lambda>m. x ^ m) n = 0"
        using x by (simp add: conv_locator_power locator_degree)
    qed
  qed auto
  also have "\<dots> = (\<Sum>x\<in>set us. residue es e x * x ^ n)"
  proof (intro sum.cong refl)
    fix x assume "x \<in> set us"
    then have "x \<noteq> 0" using xs(2) by auto
    then show "e x * x * conv (locator es) (\<lambda>m. x ^ m) n = residue es e x * x ^ n"
      using n by (simp add: conv_locator_foreign residue_def)
  qed
  finally show ?thesis .
qed

lemma residue_nonzero:
  assumes "distinct (es @ us)" "x \<in> set us" "x \<noteq> 0" "e x \<noteq> 0"
  shows "residue es e x \<noteq> 0"
proof -
  have "w * inverse x \<noteq> 1" if "w \<in> set es" for w
  proof
    assume "w * inverse x = 1"
    then have "w = x" using assms(3) by (metis mult.assoc mult.commute mult_1_left right_inverse)
    then show False using assms(1,2) that by auto
  qed
  then have "(\<Prod>w\<leftarrow>es. 1 + w * inverse x) \<noteq> 0" by (auto simp: prod_list_zero)
  then show ?thesis using assms by (simp add: residue_def)
qed

text \<open>The iteration on the modified syndromes finds the locator of the further errors.\<close>

lemma abs_run_locator:
  assumes xs: "distinct (es @ us)" "0 \<notin> set us" "\<And>x. x \<in> set us \<Longrightarrow> e x \<noteq> 0"
    and len: "length es + 2 * length us \<le> 4"
    and S: "\<And>i. i < 4 \<Longrightarrow> S i = synd (es @ us) e i"
  shows "fst (abs_run (\<lambda>m. conv (locator es) S (length es + m)) (4 - length es)) = locator us"
proof -
  define f where "f = length es"
  define t where "t m = conv (locator es) S (f + m)" for m
  have t: "t m = (\<Sum>x\<in>set us. residue es e x * x ^ f * x ^ m)" if "f + m < 4" for m
    using modified_synd [OF xs(1,2), of "f + m" S e] S that by (simp add: t_def f_def power_add mult.assoc)
  have nz: "residue es e x * x ^ f \<noteq> 0" if "x \<in> set us" for x
    using residue_nonzero [OF xs(1) that] xs(2,3) that by auto
  have "fst (abs_run t (4 - f)) = locator us"
  proof (cases us)
    case Nil
    then have "fst (abs_run t (4 - f)) = delta" using abs_run_zero [of "4 - f" t] t by auto
    then show ?thesis by (simp add: Nil)
  next
    case (Cons x us1)
    show ?thesis
    proof (cases us1)
      case Nil
      then have us: "us = [x]" using Cons by simp
      have "2 \<le> 4 - f" using len by (simp add: us f_def)
      then show ?thesis
        using abs_run_one [of "4 - f" t "residue es e x * x ^ f" x] t nz [of x] by (simp add: us)
    next
      case (Cons y us2)
      then have us: "us = [x, y]" "f = 0" using \<open>us = x # us1\<close> len by (auto simp: f_def)
      have "x \<noteq> y" using xs(1) us by auto
      moreover have "t m = residue es e x * x ^ m + residue es e y * y ^ m" if "m < 4" for m
        using t [of m] that \<open>x \<noteq> y\<close> by (simp add: us)
      ultimately show ?thesis
        using abs_run_two [of t "residue es e x" x "residue es e y" y] nz [of x] nz [of y] by (simp add: us)
    qed
  qed
  then show ?thesis by (simp add: t_def [abs_def] f_def)
qed

subsection \<open>The iteration in the code\<close>

context rs_library
begin

definition erasure_values :: "gf256 list" where
  "erasure_values = rev (map (\<lambda>e. alpha ^ nat (ErasureLocs s ! e)) [0..<NErasures s])"

lemma init_gamma_locator:
  assumes "length gamma = 8" "NErasures s \<le> 4" "\<And>e. e < NErasures s \<Longrightarrow> nat (ErasureLocs s ! e) < 255"
  shows "length (init_gamma s gamma) = 8 \<and> poly_ok (init_gamma s gamma) \<and> poly (init_gamma s gamma) = locator erasure_values"
proof -
  define step where "step e = (\<lambda>(gamma, tmp).
           let tmp = copy_poly tmp gamma;
               tmp = scale_poly (rs_gal s) (gexp (rs_gal s) ! nat (ErasureLocs s ! e)) tmp;
               tmp = mul_z_poly tmp
           in (add_polys gamma tmp, tmp))" for e
  define P where "P i = (\<lambda>(gamma, tmp :: int list). length gamma = 8 \<and> length tmp = 8 \<and> poly_ok gamma \<and>
     poly gamma = locator (rev (map (\<lambda>e. alpha ^ nat (ErasureLocs s ! e)) [0..<i])))" for i
  define g0 where "g0 = (zero_poly gamma)[0 := 1]"
  have g0: "length g0 = 8" "\<And>i. i < 8 \<Longrightarrow> g0 ! i = (if i = 0 then 1 else 0)"
    using assms(1) by (auto simp: g0_def nth_list_update polys_nth)
  then have "P 0 (g0, zero_poly (replicate 8 0))"
    by (auto simp: P_def poly_ok_def poly_def delta_def fun_eq_iff)
  then have "P (NErasures s) (fold step [0..<NErasures s] (g0, zero_poly (replicate 8 0)))"
  proof (rule fold_upt_inv [rotated])
    fix i st assume i: "i < NErasures s" and inv: "P i st"
    obtain gm tmp where st: "st = (gm, tmp)" by (cases st)
    have r: "length gm = 8" "length tmp = 8" "poly_ok gm"
      "poly gm = locator (rev (map (\<lambda>e. alpha ^ nat (ErasureLocs s ! e)) [0..<i]))"
      using inv by (auto simp: st P_def)
    define a where "a = gexp (rs_gal s) ! nat (ErasureLocs s ! i)"
    have a: "is_byte a" "gfi a = alpha ^ nat (ErasureLocs s ! i)"
      using gexp_ok [of "nat (ErasureLocs s ! i)"] assms(3) [OF i] by (simp_all add: a_def)
    define t where "t = scale_poly (rs_gal s) a (copy_poly tmp gm)"
    have c: "poly_ok (copy_poly tmp gm)" "poly (copy_poly tmp gm) = poly gm" using r by (auto simp: poly_copy)
    have t: "length t = 8" "poly_ok t" "poly t = (\<lambda>j. gfi a * poly gm j)"
      using poly_scale [OF c(1) a(1)] scale_poly_ok [OF c(1) a(1)] r c(2) by (simp_all add: t_def)
    have "poly t 7 = 0" using i assms(2) by (simp add: t(3) r(4) locator_degree)
    then have z: "poly (mul_z_poly t) = zshift (poly t)" using t(1) by (simp add: poly_mul_z)
    have zs: "zshift (\<lambda>j. c * p j) = (\<lambda>j. c * zshift p j)" for c :: gf256 and p
      by (auto simp: zshift_def fun_eq_iff split: nat.splits)
    have "poly (add_polys gm (mul_z_poly t)) = locator (rev (map (\<lambda>e. alpha ^ nat (ErasureLocs s ! e)) [0..<Suc i]))"
      using r a by (simp add: poly_add z t(3) zs)
    moreover have "step i st = (add_polys gm (mul_z_poly t), mul_z_poly t)"
      by (simp add: step_def st t_def a_def Let_def)
    ultimately show "P (Suc i) (step i st)" using r t by (auto simp: P_def)
  qed simp
  moreover have "init_gamma s gamma = fst (fold step [0..<NErasures s] (g0, zero_poly (replicate 8 0)))"
    by (simp add: init_gamma_def step_def [abs_def] g0_def Let_def)
  ultimately show ?thesis by (auto simp: P_def erasure_values_def split: prod.splits)
qed

lemma bm_loop:
  assumes "bm_rel gam f 0 b (delta, zshift delta, 0, - 1)" "\<And>i. f < i \<Longrightarrow> gam i = 0" "f + m \<le> 4"
  shows "bm_rel gam f m (fold (bm_step s) [f..<f + m] b) (abs_run (\<lambda>m. conv gam (poly (synBytes s)) (f + m)) m)"
  using assms(3)
proof (induction m)
  case 0
  then show ?case using assms(1) by simp
next
  case (Suc m)
  then show ?case using bm_step_simulates [where gam = gam and f = f and m = m, OF _ assms(2)] by simp
qed

text \<open>What the iteration leaves in the state: locator and evaluator of all errors and erasures.\<close>

definition located :: "gf256 list \<Rightarrow> (gf256 \<Rightarrow> gf256) \<Rightarrow> rs_state \<Rightarrow> bool" where
  "located xs e s' \<longleftrightarrow> rs_ready s' \<and> rs_gal s' = rs_gal s \<and> poly_ok (Lambda s') \<and> poly (Lambda s') = locator xs \<and>
     poly_ok (Omega s') \<and> (\<forall>i. poly (Omega s') i = (if i < 4 then conv (locator xs) (synd xs e) i else 0))"

lemma compute_modified_omega_located:
  assumes "poly_ok (Lambda s)" "poly (Lambda s) = locator xs" "\<And>i. i < 4 \<Longrightarrow> poly (synBytes s) i = synd xs e i"
  shows "located xs e (compute_modified_omega s)"
proof -
  have syn: "poly_ok (synBytes s)" and lens: "length (Omega s) = 8" using ready by (auto simp: rs_ready_def)
  define pr where "pr = mult_polys (rs_gal s) (replicate 16 0) (Lambda s) (synBytes s)"
  have pr: "is_byte (pr ! i)" "gfi (pr ! i) = conv (locator xs) (synd xs e) i" if "i < 4" for i
  proof -
    note m = mult_polys_ok [OF assms(1) syn, of "replicate 16 0" i]
    show "is_byte (pr ! i)" using m(1) that by (simp add: pr_def)
    have "gfi (pr ! i) = conv (locator xs) (poly (synBytes s)) i" using m(2) that by (simp add: pr_def assms(2))
    also have "\<dots> = conv (locator xs) (synd xs e) i" using assms(3) that by (intro conv_cong) simp_all
    finally show "gfi (pr ! i) = conv (locator xs) (synd xs e) i" .
  qed
  define om where "om = fold (\<lambda>i om. om[i := pr ! i]) [0..<4] (zero_poly (Omega s))"
  have om: "length om = 8" "\<And>i. i < 8 \<Longrightarrow> om ! i = (if i < 4 then pr ! i else 0)"
    using lens fold_store_nth [of _ "zero_poly (Omega s)" "\<lambda>i. pr ! i" 0 4] by (simp_all add: om_def polys_nth)
  have cmo: "compute_modified_omega s = s\<lparr>Omega := om\<rparr>"
    by (simp add: compute_modified_omega_def Let_def pr_def om_def)
  show ?thesis
    unfolding located_def cmo using ready assms(1,2) om pr by (auto simp: rs_ready_def poly_ok_def poly_def)
qed

end

lemma located_state: "rs_library.located s xs e s' \<longleftrightarrow> rs_ready s' \<and> rs_gal s' = rs_gal s \<and> poly_ok (Lambda s') \<and> poly (Lambda s') = locator xs \<and>
     poly_ok (Omega s') \<and> (\<forall>i. poly (Omega s') i = (if i < 4 then conv (locator xs) (synd xs e) i else 0))"
  if "rs_ready s"
  using that by (simp add: rs_library.located_def rs_library_def)

context rs_library
begin

lemma bm_located:
  assumes f: "NErasures s \<le> 4" "\<And>e. e < NErasures s \<Longrightarrow> nat (ErasureLocs s ! e) < 255"
    and xs: "distinct (erasure_values @ us)" "0 \<notin> set us" "\<And>x. x \<in> set us \<Longrightarrow> e x \<noteq> 0"
    and len: "NErasures s + 2 * length us \<le> 4"
    and syn: "\<And>i. i < 4 \<Longrightarrow> poly (synBytes s) i = synd (erasure_values @ us) e i"
  shows "located (erasure_values @ us) e (Modified_Berlekamp_Massey s)"
proof -
  define f where "f = NErasures s"
  define es where "es = erasure_values"
  have le: "length es = f" by (simp add: es_def erasure_values_def f_def)
  define gm where "gm = init_gamma s (replicate 8 0)"
  have gm: "length gm = 8" "poly_ok gm" "poly gm = locator es"
    using init_gamma_locator [of "replicate 8 0"] f by (auto simp: gm_def es_def)
  define c where "c = copy_poly (replicate 8 0) gm"
  have c: "length c = 8" "poly_ok c" "poly c = locator es"
    using gm polys_ok(2) [of "replicate 8 0" gm] by (simp_all add: c_def poly_copy)
  have "poly c 7 = 0" using f(1) le by (simp add: c(3) locator_degree f_def)
  then have D: "poly (mul_z_poly c) = zshift (locator es)" "poly_ok (mul_z_poly c)" "length (mul_z_poly c) = 8"
    using c by (auto simp: poly_mul_z)
  define b0 where "b0 = \<lparr>bm_psi = c, bm_psi2 = replicate 8 0, bm_D = mul_z_poly c, bm_L = f, bm_k = - 1\<rparr>"
  have dz: "zshift delta i = (0 :: gf256)" if "1 < i" for i using that by (cases i) (auto simp: delta_def)
  have cd: "conv (locator es) delta = locator es" by (simp add: fun_eq_iff)
  have "bm_rel (locator es) f 0 b0 (delta, zshift delta, 0, - 1)"
    using c D dz by (auto simp: bm_rel_def b0_def abs_ok_def cd conv_zshift_right delta_def)
  from bm_loop [OF this, of "4 - f"] have rel: "bm_rel (locator es) f (4 - f) (fold (bm_step s) [f..<4] b0)
      (abs_run (\<lambda>m. conv (locator es) (poly (synBytes s)) (f + m)) (4 - f))"
    using f(1) le by (simp add: locator_degree f_def)
  define b where "b = fold (bm_step s) [f..<4] b0"
  have "fst (abs_run (\<lambda>m. conv (locator es) (poly (synBytes s)) (f + m)) (4 - f)) = locator us"
    using abs_run_locator [of es us e "poly (synBytes s)"] xs len syn by (simp add: le es_def [symmetric] f_def [symmetric])
  moreover have "locator (es @ us) = conv (locator es) (locator us)" by (simp add: locator_append fun_eq_iff)
  ultimately have psi: "poly_ok (bm_psi b)" "poly (bm_psi b) = locator (es @ us)"
    using rel by (auto simp: bm_rel_def b_def split: prod.splits)
  define lam where "lam = fold (\<lambda>i lam. lam[i := bm_psi b ! i]) [0..<8] (Lambda s)"
  have "length (Lambda s) = 8" using ready by (simp add: rs_ready_def)
  then have lam: "length lam = 8" "poly_ok lam" "poly lam = locator (es @ us)"
    using psi poly_okD(1) [OF psi(1)] store_poly [of "Lambda s" "\<lambda>i. bm_psi b ! i"]
    by (auto simp: lam_def poly_def fun_eq_iff)
  have mbm: "Modified_Berlekamp_Massey s = compute_modified_omega (s\<lparr>Lambda := lam\<rparr>)"
    by (simp add: Modified_Berlekamp_Massey_def Let_def lam_def b_def b0_def c_def gm_def f_def)
  have r: "rs_ready (s\<lparr>Lambda := lam\<rparr>)" using ready lam by (simp add: rs_ready_def)
  then have "rs_library.located (s\<lparr>Lambda := lam\<rparr>) (es @ us) e (compute_modified_omega (s\<lparr>Lambda := lam\<rparr>))"
    using lam syn by (intro rs_library.compute_modified_omega_located) (simp_all add: rs_library_def es_def)
  then show ?thesis
    unfolding located_state [OF r] located_state [OF ready] mbm es_def by simp
qed

end

subsection \<open>The search for the roots\<close>

lemma position_root:
  assumes "p < 255" "1 \<le> r" "r \<le> 255"
  shows "alpha ^ p * alpha ^ r = 1 \<longleftrightarrow> p = 255 - r"
proof -
  have "alpha ^ p * alpha ^ r = 1 \<longleftrightarrow> (p + r) mod 255 = 0"
    using alpha_power_eq_iff [of "p + r" 0] by (simp add: power_add)
  also have "\<dots> \<longleftrightarrow> p + r = 255"
  proof
    assume "(p + r) mod 255 = 0"
    then obtain q where "p + r = 255 * q" by (auto simp: mod_eq_0_iff_dvd dvd_def)
    moreover have "0 < p + r" "p + r < 510" using assms by linarith+
    ultimately show "p + r = 255" by (cases q) auto
  qed simp
  also have "\<dots> \<longleftrightarrow> p = 255 - r" using assms by linarith
  finally show ?thesis .
qed

definition locs_upto :: "nat list \<Rightarrow> nat \<Rightarrow> nat list" where
  "locs_upto ps n = map (\<lambda>r. 255 - r) (filter (\<lambda>r. 255 - r \<in> set ps) [1..<n])"

lemma locs_upto_Suc: "1 \<le> n \<Longrightarrow> locs_upto ps (Suc n) = locs_upto ps n @ (if 255 - n \<in> set ps then [255 - n] else [])"
  by (simp add: locs_upto_def)

lemma locs_all:
  assumes "set ps \<subseteq> {..<255}" "distinct ps"
  shows "set (locs_upto ps 256) = set ps" "distinct (locs_upto ps 256)" "length (locs_upto ps 256) = length ps"
proof -
  have "p \<in> set (locs_upto ps 256)" if "p \<in> set ps" for p
  proof -
    have "p < 255" using that assms(1) by auto
    then have "p = 255 - (255 - p)" "255 - p \<in> {1..<256}" by auto
    then show ?thesis using that unfolding locs_upto_def by (auto intro!: image_eqI [of _ _ "255 - p"])
  qed
  then show s: "set (locs_upto ps 256) = set ps" by (auto simp: locs_upto_def)
  have "inj_on (\<lambda>r. 255 - r) {r. r < 256 \<and> 1 \<le> (r :: nat)}" by (auto simp: inj_on_def)
  then show d: "distinct (locs_upto ps 256)"
    unfolding locs_upto_def distinct_map by (auto simp: inj_on_def)
  show "length (locs_upto ps 256) = length ps"
    using s d assms(2) by (metis distinct_card)
qed

definition locs_found :: "rs_state \<Rightarrow> nat list \<Rightarrow> nat \<Rightarrow> rs_state \<Rightarrow> bool" where
  "locs_found s0 ps n s \<longleftrightarrow> s\<lparr>ErrorLocs := [], NErrors := 0\<rparr> = s0\<lparr>ErrorLocs := [], NErrors := 0\<rparr> \<and> length (ErrorLocs s) = 256 \<and>
     NErrors s = length (locs_upto ps n) \<and> (\<forall>j<NErrors s. ErrorLocs s ! j = int (locs_upto ps n ! j))"

lemma locs_found_same:
  assumes "locs_found s0 ps n s"
  shows "Lambda s = Lambda s0" "rs_gal s = rs_gal s0" "Omega s = Omega s0"
proof -
  have e: "s\<lparr>ErrorLocs := [], NErrors := 0\<rparr> = s0\<lparr>ErrorLocs := [], NErrors := 0\<rparr>"
    using assms by (simp add: locs_found_def)
  show "Lambda s = Lambda s0" "rs_gal s = rs_gal s0" "Omega s = Omega s0"
    using arg_cong [OF e, of Lambda] arg_cong [OF e, of rs_gal] arg_cong [OF e, of Omega] by simp_all
qed

context rs_library
begin

lemma root_sum:
  assumes "poly_ok (Lambda s)" "poly (Lambda s) = locator (map (\<lambda>p. alpha ^ p) ps)" "length ps \<le> 4"
    "set ps \<subseteq> {..<255}" "1 \<le> r" "r \<le> 255"
  shows "fold (\<lambda>k sum. sum XOR gmult (rs_gal s) (gexp (rs_gal s) ! (k * r mod 255)) (Lambda s ! k)) [0..<5] 0 = 0
     \<longleftrightarrow> 255 - r \<in> set ps" (is "?sum = 0 \<longleftrightarrow> _")
proof -
  have g: "is_byte (gexp (rs_gal s) ! (k * r mod 255))" "gfi (gexp (rs_gal s) ! (k * r mod 255)) = (alpha ^ r) ^ k" for k
  proof -
    have lt: "k * r mod 255 < 511" by (rule less_trans [of _ 255]) simp_all
    show "is_byte (gexp (rs_gal s) ! (k * r mod 255))" using gexp_ok(1) lt by blast
    show "gfi (gexp (rs_gal s) ! (k * r mod 255)) = (alpha ^ r) ^ k"
      using gexp_ok(2) [OF lt] by (simp add: alpha_power_mod power_mult [symmetric] mult.commute)
  qed
  have b: "is_byte (gexp (rs_gal s) ! (k * r mod 255)) \<and> is_byte (Lambda s ! k)" if "k < 5" for k
    using g(1) poly_okD(1) [OF assms(1), of k] that by simp
  note dot = dot_loop [of 0 5 "\<lambda>k. gexp (rs_gal s) ! (k * r mod 255)" "\<lambda>k. Lambda s ! k" 0]
  have "gfi ?sum = (\<Sum>k=0..<5. (alpha ^ r) ^ k * gfi (Lambda s ! k))" using dot b by (simp add: g(2))
  also have "\<dots> = peval (poly (Lambda s)) 5 (alpha ^ r)"
    unfolding peval_def by (intro sum.cong) (auto simp: poly_def mult.commute)
  also have "\<dots> = (\<Prod>x\<leftarrow>map (\<lambda>p. alpha ^ p) ps. 1 + x * alpha ^ r)"
    unfolding assms(2) using assms(3) by (intro peval_locator) simp
  finally have "gfi ?sum = 0 \<longleftrightarrow> (\<exists>x\<in>set (map (\<lambda>p. alpha ^ p) ps). x * alpha ^ r = 1)" by (simp only: prod_list_zero)
  also have "\<dots> \<longleftrightarrow> (\<exists>p\<in>set ps. alpha ^ p * alpha ^ r = 1)" by simp
  also have "\<dots> \<longleftrightarrow> 255 - r \<in> set ps"
    using position_root [of _ r] assms(4,5,6) by (metis lessThan_iff subsetD)
  finally have "gfi ?sum = 0 \<longleftrightarrow> 255 - r \<in> set ps" .
  moreover have "is_byte ?sum" using dot b by simp
  ultimately show ?thesis by simp
qed

lemma find_roots_found:
  assumes "poly_ok (Lambda s)" "poly (Lambda s) = locator (map (\<lambda>p. alpha ^ p) ps)" "length ps \<le> 4" "set ps \<subseteq> {..<255}"
  shows "locs_found s ps 256 (Find_Roots s)"
proof -
  have "locs_found s ps 256 (fold find_root [1..<256] (s\<lparr>NErrors := 0\<rparr>))"
  proof (rule fold_upt_inv [where P = "locs_found s ps"])
    show "locs_found s ps 1 (s\<lparr>NErrors := 0\<rparr>)"
      using ready by (simp add: locs_found_def locs_upto_def rs_ready_def)
    fix r s' assume r: "1 \<le> r" "r < 256" and inv: "locs_found s ps r s'"
    have lam: "Lambda s' = Lambda s" "rs_gal s' = rs_gal s"
      using inv by (auto dest: locs_found_same)
    have "NErrors s' = length (locs_upto ps r)" using inv by (simp add: locs_found_def)
    also have "\<dots> \<le> r - 1" unfolding locs_upto_def using length_filter_le [of _ "[1..<r]"] by simp
    finally have small: "NErrors s' < 256" using r by linarith
    show "locs_found s ps (Suc r) (find_root r s')"
    proof (cases "255 - r \<in> set ps")
      case True
      then have "find_root r s' = s'\<lparr>ErrorLocs := (ErrorLocs s')[NErrors s' := 255 - int r], NErrors := NErrors s' + 1\<rparr>"
        using root_sum [OF assms r(1)] r by (simp add: find_root_def lam)
      then show ?thesis
        using inv small True r unfolding locs_found_def locs_upto_Suc [OF r(1)]
        by (auto simp: nth_append nth_list_update less_Suc_eq of_nat_diff)
    next
      case False
      then have "find_root r s' = s'" using root_sum [OF assms r(1)] r by (simp add: find_root_def lam)
      then show ?thesis using inv False by (simp add: locs_found_def locs_upto_Suc [OF r(1)])
    qed
  qed simp
  then show ?thesis by (simp add: Find_Roots_def)
qed

end

subsection \<open>The magnitudes\<close>

lemma int_exponent: "p \<le> 255 \<Longrightarrow> nat ((255 - int p) * int j mod 255) = (255 - p) * j mod 255"
proof -
  assume "p \<le> 255"
  then have "(255 - int p) * int j mod 255 = int ((255 - p) * j mod 255)" by (simp add: of_nat_diff zmod_int)
  then show ?thesis by simp
qed

lemma inverse_power: "p < 255 \<Longrightarrow> alpha ^ p * alpha ^ (255 - p) = 1"
  by (simp add: alpha_255 flip: power_add)

context rs_library
begin

lemma magnitude:
  assumes lam: "poly_ok (Lambda s)" "poly (Lambda s) = locator xs"
    and om: "poly_ok (Omega s)" "\<And>i. poly (Omega s) i = (if i < 4 then conv (locator xs) (synd xs e) i else 0)"
    and xs: "distinct xs" "length xs \<le> 4" "alpha ^ p \<in> set xs" "p < 255"
  shows "is_byte (error_magnitude s (int p))" "gfi (error_magnitude s (int p)) = e (alpha ^ p)"
proof -
  define y where "y = alpha ^ (255 - p)"
  define ge where "ge j = gexp (rs_gal s) ! nat ((255 - int p) * int j mod 255)" for j
  have ge: "is_byte (ge j)" "gfi (ge j) = y ^ j" for j
  proof -
    have i: "ge j = gexp (rs_gal s) ! ((255 - p) * j mod 255)" unfolding ge_def using xs(4) by (simp add: int_exponent)
    have lt: "(255 - p) * j mod 255 < 511" by (rule less_trans [of _ 255]) simp_all
    show "is_byte (ge j)" unfolding i using gexp_ok(1) [OF lt] .
    show "gfi (ge j) = y ^ j"
      unfolding i y_def using gexp_ok(2) [OF lt] by (simp add: alpha_power_mod power_mult)
  qed
  define num where "num = fold (\<lambda>j num. num XOR gmult (rs_gal s) (Omega s ! j) (ge j)) [0..<8] 0"
  note dn = dot_loop [of 0 8 "\<lambda>j. Omega s ! j" ge 0]
  have bo: "is_byte (Omega s ! j) \<and> is_byte (ge j)" if "j < 8" for j using poly_okD(1) [OF om(1) that] ge(1) by simp
  have num: "is_byte num" "gfi num = peval (conv (locator xs) (synd xs e)) 4 y"
  proof -
    show "is_byte num" using dn bo by (simp add: num_def)
    have "gfi num = (\<Sum>j=0..<8. gfi (Omega s ! j) * y ^ j)" using dn bo by (simp add: num_def ge(2))
    also have "\<dots> = peval (poly (Omega s)) 8 y" unfolding peval_def by (intro sum.cong) (auto simp: poly_def)
    also have "\<dots> = peval (poly (Omega s)) 4 y" by (rule peval_extend) (simp_all add: om(2))
    also have "\<dots> = peval (conv (locator xs) (synd xs e)) 4 y" by (rule peval_cong_low) (simp add: om(2))
    finally show "gfi num = peval (conv (locator xs) (synd xs e)) 4 y" .
  qed
  define den where "den = fold (\<lambda>j den. den XOR gmult (rs_gal s) (Lambda s ! (2 * j + 1)) (ge (2 * j))) [0..<4] 0"
  note dd = dot_loop [of 0 4 "\<lambda>j. Lambda s ! (2 * j + 1)" "\<lambda>j. ge (2 * j)" 0]
  have bl: "is_byte (Lambda s ! (2 * j + 1)) \<and> is_byte (ge (2 * j))" if "j < 4" for j
    using poly_okD(1) [OF lam(1), of "2 * j + 1"] ge(1) that by simp
  have den: "is_byte den" "gfi den = odd_part (locator xs) 4 y"
  proof -
    show "is_byte den" using dd bl by (simp add: den_def)
    have "gfi den = (\<Sum>j=0..<4. gfi (Lambda s ! (2 * j + 1)) * y ^ (2 * j))" using dd bl by (simp add: den_def ge(2))
    also have "\<dots> = odd_part (poly (Lambda s)) 4 y" unfolding odd_part_def by (intro sum.cong) (auto simp: poly_def)
    finally show "gfi den = odd_part (locator xs) 4 y" by (simp add: lam(2))
  qed
  have "filter odd [1..<8] = map (\<lambda>m. 2 * m + 1) [0..<4]" by code_simp
  then have mag: "error_magnitude s (int p) = gmult (rs_gal s) num (ginv (rs_gal s) den)"
    by (simp add: error_magnitude_def Let_def num_def den_def ge_def fold_map comp_def)
  have hyps: "distinct xs" "length xs \<le> 4" "length xs < 2 * 4" "alpha ^ p \<in> set xs" "alpha ^ p * y = 1"
    using xs inverse_power [OF xs(4)] by (simp_all add: y_def)
  note fq = forney_quotient(1) [of xs 4 4 "alpha ^ p" y e, OF hyps]
  have "den \<noteq> 0" using forney_quotient(2) [of xs 4 4 "alpha ^ p" y, OF hyps] den(2) by auto
  then have i: "is_byte (ginv (rs_gal s) den)" "gfi (ginv (rs_gal s) den) = inverse (odd_part (locator xs) 4 y)"
    using ginv_ok [OF den(1)] den(2) by auto
  show "is_byte (error_magnitude s (int p))" "gfi (error_magnitude s (int p)) = e (alpha ^ p)"
    unfolding mag using gmult_ok [OF num(1) i(1)] fq num(2) i(2) by simp_all
qed

end

subsection \<open>The correction\<close>

lemma fold_xor_cells:
  assumes "inj_on q {..<n}"
  shows "length (fold (\<lambda>r cw. cw[q r := cw ! q r XOR v r]) [0..<n] cw) = length cw \<and>
    (\<forall>r<n. q r < length cw \<longrightarrow> fold (\<lambda>r cw. cw[q r := cw ! q r XOR v r]) [0..<n] cw ! q r = cw ! q r XOR v r) \<and>
    (\<forall>j. j < length cw \<and> j \<notin> q ` {..<n} \<longrightarrow> fold (\<lambda>r cw. cw[q r := cw ! q r XOR v r]) [0..<n] cw ! j = cw ! j)"
  using assms
proof (induction n)
  case 0
  then show ?case by simp
next
  case (Suc n)
  have inj: "inj_on q {..<n}" and new: "\<And>r. r < n \<Longrightarrow> q n \<noteq> q r" "q n \<notin> q ` {..<n}"
    using Suc.prems by (fastforce simp: inj_on_def)+
  define cw' where "cw' = fold (\<lambda>r cw. cw[q r := cw ! q r XOR v r]) [0..<n] cw"
  have IH: "length cw' = length cw" "\<And>r. r < n \<Longrightarrow> q r < length cw \<Longrightarrow> cw' ! q r = cw ! q r XOR v r"
    "\<And>j. j < length cw \<Longrightarrow> j \<notin> q ` {..<n} \<Longrightarrow> cw' ! j = cw ! j"
    using Suc.IH [OF inj] by (auto simp: cw'_def)
  have "fold (\<lambda>r cw. cw[q r := cw ! q r XOR v r]) [0..<Suc n] cw = cw'[q n := cw' ! q n XOR v n]"
    by (simp add: cw'_def)
  then show ?case using IH new by (auto simp: less_Suc_eq lessThan_Suc)
qed

lemma err_at_cell:
  assumes "length w = length c" "j < length c" "p = length c - 1 - j"
  shows "GF (c ! j) = GF (w ! j) + err_at w c p"
  using assms by (simp add: err_at_def)

text \<open>
  The received word \<open>w\<close> differs from the codeword \<open>c\<close> only at the positions of the list
  \<open>es @ us\<close>: the declared erasures \<open>es\<close>, and the further errors \<open>us\<close>.
\<close>

definition error_pattern :: "u8 list \<Rightarrow> u8 list \<Rightarrow> nat list \<Rightarrow> nat list \<Rightarrow> bool" where
  "error_pattern w c es us \<longleftrightarrow> length w = length c \<and> length c \<le> 255 \<and> distinct (es @ us) \<and>
     set (es @ us) \<subseteq> {..<length c} \<and> (\<forall>p\<in>set us. err_at w c p \<noteq> 0) \<and>
     (\<forall>p<length c. p \<notin> set (es @ us) \<longrightarrow> err_at w c p = 0) \<and> length es + 2 * length us \<le> 4"

text \<open>The positions in the order of the locator, their values, and the magnitudes.\<close>

definition pat_pos :: "nat list \<Rightarrow> nat list \<Rightarrow> nat list" where
  "pat_pos es us = rev es @ us"

definition pat_val :: "nat list \<Rightarrow> nat list \<Rightarrow> gf256 list" where
  "pat_val es us = map (\<lambda>p. alpha ^ p) (pat_pos es us)"

definition pat_mag :: "u8 list \<Rightarrow> u8 list \<Rightarrow> gf256 \<Rightarrow> gf256" where
  "pat_mag w c = err_at w c \<circ> plog"

lemma error_patternD:
  assumes "error_pattern w c es us"
  shows "length w = length c" "length c \<le> 255" "\<And>p. p \<in> set us \<Longrightarrow> err_at w c p \<noteq> 0"
    "\<And>p. p < length c \<Longrightarrow> p \<notin> set (pat_pos es us) \<Longrightarrow> err_at w c p = 0" "length es + 2 * length us \<le> 4"
    "distinct (pat_pos es us)" "set (pat_pos es us) \<subseteq> {..<length c}" "set (pat_pos es us) \<subseteq> {..<255}"
    "length (pat_pos es us) \<le> 4" "distinct (pat_val es us)"
    "\<And>p. p \<in> set (pat_pos es us) \<Longrightarrow> pat_mag w c (alpha ^ p) = err_at w c p"
proof -
  show p: "length w = length c" "length c \<le> 255" "\<And>p. p \<in> set us \<Longrightarrow> err_at w c p \<noteq> 0"
    "\<And>p. p < length c \<Longrightarrow> p \<notin> set (pat_pos es us) \<Longrightarrow> err_at w c p = 0" "length es + 2 * length us \<le> 4"
    "distinct (pat_pos es us)" "set (pat_pos es us) \<subseteq> {..<length c}" "length (pat_pos es us) \<le> 4"
    using assms by (auto simp: error_pattern_def pat_pos_def)
  then show q: "set (pat_pos es us) \<subseteq> {..<255}" by auto
  then show "distinct (pat_val es us)" unfolding pat_val_def by (rule distinct_positions [OF p(6)])
  show "pat_mag w c (alpha ^ p) = err_at w c p" if "p \<in> set (pat_pos es us)" for p
  proof -
    have "p < 255" using q that by auto
    then show ?thesis by (simp add: pat_mag_def plog_alpha)
  qed
qed

text \<open>The first statements of the routine: the erasures in the state.\<close>

definition with_erasures :: "rs_state \<Rightarrow> nat list \<Rightarrow> rs_state" where
  "with_erasures s es = s\<lparr>NErasures := length es,
     ErasureLocs := fold (\<lambda>i locs. locs[i := map int es ! i]) [0..<length es] (ErasureLocs s)\<rparr>"

lemma with_erasures_ready: "rs_ready s \<Longrightarrow> rs_ready (with_erasures s es)"
  by (simp add: rs_ready_def with_erasures_def)

lemma with_erasures_loc:
  assumes "rs_ready s" "length es \<le> 4" "i < length es"
  shows "ErasureLocs (with_erasures s es) ! i = int (es ! i)"
proof -
  have "length (ErasureLocs s) = 256" using assms(1) by (simp add: rs_ready_def)
  then show ?thesis
    using assms(2,3) fold_store_nth [of i "ErasureLocs s" "\<lambda>i. map int es ! i" 0 "length es"] by (simp add: with_erasures_def)
qed

lemma with_erasures_values:
  assumes "rs_ready s" "length es \<le> 4"
  shows "rs_library.erasure_values (with_erasures s es) = map (\<lambda>p. alpha ^ p) (rev es)"
proof -
  have lib: "rs_library (with_erasures s es)" using with_erasures_ready [OF assms(1)] by (simp add: rs_library_def)
  have "map (\<lambda>e. alpha ^ nat (ErasureLocs (with_erasures s es) ! e)) [0..<length es] = map (\<lambda>p. alpha ^ p) es"
    by (rule nth_equalityI) (simp_all add: with_erasures_loc assms)
  moreover have "NErasures (with_erasures s es) = length es" by (simp add: with_erasures_def)
  ultimately show ?thesis by (simp only: rs_library.erasure_values_def [OF lib] rev_map)
qed

text \<open>The iteration finds the pattern.\<close>

lemma pattern_located:
  assumes s: "rs_ready s" and syn: "\<And>j. j < 4 \<Longrightarrow> gfi (synBytes s ! j) = word_eval w (alpha ^ (j + 1))"
    and cw: "\<And>j. j < 4 \<Longrightarrow> word_eval c (alpha ^ (j + 1)) = 0" and pat: "error_pattern w c es us"
  shows "rs_library.located (with_erasures s es) (pat_val es us) (pat_mag w c) (Modified_Berlekamp_Massey (with_erasures s es))"
proof -
  define s1 where "s1 = with_erasures s es"
  define V where "V = map (\<lambda>p. alpha ^ p) us"
  note pt = error_patternD [OF pat]
  have f: "length es \<le> 4" "NErasures s1 = length es" using pt(5) by (simp_all add: s1_def with_erasures_def)
  have lib: "rs_library s1" using with_erasures_ready [OF s] by (simp add: rs_library_def s1_def)
  have XV: "rs_library.erasure_values s1 @ V = pat_val es us"
    by (simp add: s1_def with_erasures_values [OF s f(1)] V_def pat_val_def pat_pos_def)
  have synX: "poly (synBytes s1) j = synd (pat_val es us) (pat_mag w c) j" if "j < 4" for j
  proof -
    have "word_eval w (alpha ^ (j + 1)) = word_eval c (alpha ^ (j + 1)) + synd (pat_val es us) (pat_mag w c) j"
      unfolding pat_val_def pat_mag_def using pt by (intro word_eval_synd) auto
    then show ?thesis using syn [OF that] cw [OF that] that by (simp add: poly_def s1_def with_erasures_def)
  qed
  have "rs_library.located s1 (rs_library.erasure_values s1 @ V) (pat_mag w c) (Modified_Berlekamp_Massey s1)"
  proof (rule rs_library.bm_located [OF lib])
    show "NErasures s1 \<le> 4" "NErasures s1 + 2 * length V \<le> 4" using pt(5) f by (simp_all add: V_def)
    show "nat (ErasureLocs s1 ! i) < 255" if "i < NErasures s1" for i
    proof -
      have "es ! i \<in> set (pat_pos es us)" using that f(2) by (simp add: pat_pos_def)
      then have "es ! i < 255" using pt(8) by auto
      then show ?thesis using with_erasures_loc [OF s f(1), of i] that f(2) by (simp add: s1_def)
    qed
    show "distinct (rs_library.erasure_values s1 @ V)" using pt(10) by (simp only: XV)
    show "0 \<notin> set V" using alpha_power_nz by (force simp: V_def)
    show "pat_mag w c x \<noteq> 0" if "x \<in> set V" for x using that pt(3,11) by (auto simp: V_def pat_pos_def)
    show "poly (synBytes s1) i = synd (rs_library.erasure_values s1 @ V) (pat_mag w c) i" if "i < 4" for i
      using synX [OF that] by (simp only: XV)
  qed
  then show ?thesis unfolding XV unfolding s1_def .
qed

text \<open>The search finds the positions, and the formula the magnitudes.\<close>

lemma pattern_roots:
  assumes pat: "error_pattern w c es us" and r: "rs_ready s0"
    and loc: "rs_library.located s0 (pat_val es us) (pat_mag w c) s2"
  obtains q where "set q = set (pat_pos es us)" "distinct q" "NErrors (Find_Roots s2) = length q"
    "\<And>r. r < length q \<Longrightarrow> ErrorLocs (Find_Roots s2) ! r = int (q ! r)"
    "\<And>p. p \<in> set q \<Longrightarrow> GF (word_of_int (error_magnitude (Find_Roots s2) (int p))) = err_at w c p"
proof -
  note pt = error_patternD [OF pat]
  have L: "rs_ready s2" "poly_ok (Lambda s2)" "poly (Lambda s2) = locator (pat_val es us)" "poly_ok (Omega s2)"
    "\<And>i. poly (Omega s2) i = (if i < 4 then conv (locator (pat_val es us)) (synd (pat_val es us) (pat_mag w c)) i else 0)"
    using loc by (auto simp: located_state [OF r])
  have lib: "rs_library s2" using L(1) by (simp add: rs_library_def)
  have found: "locs_found s2 (pat_pos es us) 256 (Find_Roots s2)"
    using L(2,3) pt(8,9) by (intro rs_library.find_roots_found [OF lib]) (simp_all add: pat_val_def)
  note same = locs_found_same [OF found]
  define q where "q = locs_upto (pat_pos es us) 256"
  have q: "set q = set (pat_pos es us)" "distinct q" using locs_all [OF pt(8,6)] by (simp_all add: q_def)
  have "GF (word_of_int (error_magnitude (Find_Roots s2) (int p))) = err_at w c p" if "p \<in> set q" for p
  proof -
    have p: "p \<in> set (pat_pos es us)" "p < 255" using that q(1) pt(8) by auto
    have "error_magnitude (Find_Roots s2) (int p) = error_magnitude s2 (int p)" by (simp add: error_magnitude_def same)
    moreover have "gfi (error_magnitude s2 (int p)) = pat_mag w c (alpha ^ p)"
      using L pt(9,10) p by (intro rs_library.magnitude(2) [OF lib]) (auto simp: pat_val_def)
    ultimately show ?thesis using pt(11) [OF p(1)] by (simp add: gfi_def)
  qed
  then show thesis using that [OF q] found by (simp add: locs_found_def q_def)
qed

text \<open>Adding the magnitudes at the positions turns the received word into the codeword.\<close>

lemma pattern_repaired:
  assumes pat: "error_pattern w c es us" and q: "set q = set (pat_pos es us)" "distinct q"
    and mag: "\<And>p. p \<in> set q \<Longrightarrow> GF (mg p) = err_at w c p"
  shows "fold (\<lambda>r cw. cw[length c - 1 - q ! r := cw ! (length c - 1 - q ! r) XOR mg (q ! r)]) [0..<length q] w = c"
proof -
  note pt = error_patternD [OF pat]
  define cell where "cell r = length c - 1 - q ! r" for r
  have qlt: "q ! r < length c" if "r < length q" for r using that q(1) pt(7) nth_mem [OF that] by auto
  have inj: "inj_on cell {..<length q}"
  proof (rule inj_onI)
    fix a b assume ab: "a \<in> {..<length q}" "b \<in> {..<length q}" "cell a = cell b"
    then have "q ! a = q ! b" using qlt [of a] qlt [of b] by (simp add: cell_def)
    then show "a = b" using ab q(2) by (simp add: nth_eq_iff_index_eq)
  qed
  define res where "res = fold (\<lambda>r cw. cw[cell r := cw ! cell r XOR mg (q ! r)]) [0..<length q] w"
  have res: "length res = length w" "\<And>r. r < length q \<Longrightarrow> res ! cell r = w ! cell r XOR mg (q ! r)"
    "\<And>j. j < length w \<Longrightarrow> j \<notin> cell ` {..<length q} \<Longrightarrow> res ! j = w ! j"
  proof -
    have "cell r < length w" if "r < length q" for r using qlt [OF that] pt(1) by (simp add: cell_def)
    then show "length res = length w" "\<And>r. r < length q \<Longrightarrow> res ! cell r = w ! cell r XOR mg (q ! r)"
      "\<And>j. j < length w \<Longrightarrow> j \<notin> cell ` {..<length q} \<Longrightarrow> res ! j = w ! j"
      using fold_xor_cells [OF inj, of "\<lambda>r. mg (q ! r)" w] unfolding res_def [symmetric] by blast+
  qed
  have "GF (res ! j) = GF (c ! j)" if j: "j < length c" for j
  proof (cases "length c - 1 - j \<in> set q")
    case True
    then obtain r where r: "r < length q" "q ! r = length c - 1 - j" by (metis in_set_conv_nth)
    then have "cell r = j" using j by (simp add: cell_def)
    then show ?thesis
      using res(2) [OF r(1)] mag [of "q ! r"] True r(2) err_at_cell [OF pt(1) j r(2)] by (simp add: GF_xor)
  next
    case False
    have "j \<noteq> cell r" if "r < length q" for r
    proof
      assume "j = cell r"
      then have "length c - 1 - j = q ! r" using qlt [OF that] by (simp add: cell_def)
      then show False using False nth_mem [OF that] by simp
    qed
    then have "res ! j = w ! j" using res(3) [of j] j pt(1) by auto
    moreover have "err_at w c (length c - 1 - j) = 0" using pt(4) False q(1) j by simp
    ultimately show ?thesis using err_at_cell [OF pt(1) j refl] by simp
  qed
  then have "res = c" using res(1) pt(1) by (intro nth_equalityI) simp_all
  then show ?thesis by (simp add: res_def cell_def)
qed

lemma correct_errors_erasures_spec:
  assumes s: "rs_ready s" and syn: "\<And>j. j < 4 \<Longrightarrow> gfi (synBytes s ! j) = word_eval w (alpha ^ (j + 1))"
    and cw: "\<And>j. j < 4 \<Longrightarrow> word_eval c (alpha ^ (j + 1)) = 0"
    and pat: "error_pattern w c es us" and some: "es @ us \<noteq> []"
  shows "\<exists>s'. correct_errors_erasures s w (length c) (length es) (map int es) = (s', c, 1)"
proof -
  note pt = error_patternD [OF pat]
  define s3 where "s3 = Find_Roots (Modified_Berlekamp_Massey (with_erasures s es))"
  obtain q where q: "set q = set (pat_pos es us)" "distinct q" "NErrors s3 = length q"
    "\<And>r. r < length q \<Longrightarrow> ErrorLocs s3 ! r = int (q ! r)"
    "\<And>p. p \<in> set q \<Longrightarrow> GF (word_of_int (error_magnitude s3 (int p))) = err_at w c p"
    unfolding s3_def
    using pattern_roots [OF pat with_erasures_ready [OF s] pattern_located [OF s syn cw pat]] by blast
  have len: "length q = length (pat_pos es us)" using q(1,2) pt(6) by (metis distinct_card)
  have qlt: "q ! r < length c" if "r < length q" for r using that q(1) pt(7) nth_mem [OF that] by auto
  have ok: "NErrors s3 \<le> 4 \<and> 0 < NErrors s3" "\<not> list_ex (\<lambda>r. int (length c) \<le> ErrorLocs s3 ! r) [0..<NErrors s3]"
  proof -
    show "NErrors s3 \<le> 4 \<and> 0 < NErrors s3" using q(3) len pt(9) some by (auto simp: pat_pos_def)
    have "\<not> int (length c) \<le> ErrorLocs s3 ! r" if "r < length q" for r using q(4) [OF that] qlt [OF that] by simp
    then show "\<not> list_ex (\<lambda>r. int (length c) \<le> ErrorLocs s3 ! r) [0..<NErrors s3]"
      unfolding q(3) list_ex_iff by auto
  qed
  have cell: "nat (int (length c) - int (q ! r) - 1) = length c - 1 - q ! r" if "r < length q" for r
    using qlt [OF that] by simp
  have "fold (\<lambda>r cw. let i = ErrorLocs s3 ! r; p = nat (int (length c) - i - 1)
      in cw[p := cw ! p XOR word_of_int (error_magnitude s3 i)]) [0..<NErrors s3] w
    = fold (\<lambda>r cw. cw[length c - 1 - q ! r := cw ! (length c - 1 - q ! r) XOR word_of_int (error_magnitude s3 (int (q ! r)))])
        [0..<length q] w"
    unfolding q(3) by (intro fold_cong refl) (auto simp: fun_eq_iff cell q(4) Let_def)
  also have "\<dots> = c" using q(5) by (intro pattern_repaired [OF pat q(1,2)])
  finally show ?thesis
    using ok by (simp add: correct_errors_erasures_def Let_def s3_def with_erasures_def)
qed

end
