(* ===== verification/RsProps.thy ===== *)
theory RsProps
  imports RsCorrect
begin

text \<open>
  The properties of the Reed-Solomon library, and its demonstration program
  (\<open>rscode-1.3/example.c\<close>) as a run of the library.
\<close>

subsection \<open>The demonstration program\<close>

definition byte_err :: "u8 \<Rightarrow> nat \<Rightarrow> u8 list \<Rightarrow> u8 list" where
  "byte_err err loc dst = dst[loc - 1 := dst ! (loc - 1) XOR err]"

definition byte_erasure :: "nat \<Rightarrow> u8 list \<Rightarrow> u8 list" where
  "byte_erasure loc dst = dst[loc - 1 := 0]"

text \<open>The message with its terminating zero: \<open>sizeof(msg)\<close> counts it.\<close>

definition ex_msg :: "u8 list" where
  "ex_msg = map of_char ''Nervously I loaded the twin ducks aboard the revolving platform.'' @ [0]"

text \<open>\<open>main\<close>: the encoded codeword, the received one, and what the buffer holds at the end.\<close>

definition example_main :: "rs_state \<Rightarrow> u8 list \<times> u8 list \<times> u8 list" where
  "example_main s =
     (let s = initialize_ecc s;
          (s, codeword) = encode_data s ex_msg (length ex_msg) (replicate 256 0);
          ML = length ex_msg + NPAR;
          received = byte_err 0x34 19 (byte_err 0x23 17 (byte_err 0x35 3 codeword));
          erasures = [int ML - 17, int ML - 19];
          s = decode_data s received ML
      in if check_syndrome s \<noteq> 0
         then case correct_errors_erasures s received ML 2 erasures of (s, fixed, r) \<Rightarrow> (codeword, received, fixed)
         else (codeword, received, received))"

subsection \<open>Properties\<close>

lemma zero_syndromes:
  assumes "rs_ready s" "\<And>r. r \<in> {1..4} \<Longrightarrow> word_eval c (alpha ^ r) = 0" "j < 4"
  shows "word_eval c (alpha ^ (j + 1)) = 0"
  using assms(2) [of "j + 1"] assms(3) by simp

lemma encode_exact:
  assumes "rs_ready s" "encode_data s msg (length msg) dst = (s', cw)" "length dst = length msg + 4"
  shows "take (length msg) cw = msg" "length cw = length msg + 4" "rs_ready s'" "\<And>r. r \<in> {1..4} \<Longrightarrow> word_eval cw (alpha ^ r) = 0"
proof -
  have lib: "rs_library s" using assms(1) by (simp add: rs_library_def)
  have cw: "cw = msg @ rs_library.parity s msg"
    using rs_library.encode_data_codeword(1) [OF lib, of msg dst] assms(2,3) by simp
  moreover have "length (rs_library.parity s msg) = 4" by (simp add: rs_library.parity_def [OF lib])
  ultimately show "take (length msg) cw = msg" "length cw = length msg + 4" by simp_all
  show "rs_ready s'" using rs_library.encode_data_codeword(2) [OF lib, of msg dst] assms(2,3) by simp
  show "word_eval cw (alpha ^ r) = 0" if "r \<in> {1..4}" for r
    unfolding cw by (rule rs_library.word_eval_parity [OF lib that])
qed

text \<open>C4: any pattern of \<open>f\<close> declared erasures and \<open>v\<close> further byte errors with \<open>f + 2 v \<le> 4\<close> in a
  codeword of at most 255 bytes is corrected: after \<open>decode_data\<close> the routine
  \<open>correct_errors_erasures\<close> returns 1 and leaves the codeword that was sent, which begins with
  the message.\<close>

theorem rs_corrects:
  assumes "rs_ready s" "encode_data s msg (length msg) dst = (s', cw)" "length dst = length msg + 4"
    and "error_pattern w cw es us" "es @ us \<noteq> []"
  shows "\<exists>s''. correct_errors_erasures (decode_data s' w (length w)) w (length w) (length es) (map int es) = (s'', cw, 1)
     \<and> take (length msg) cw = msg"
proof -
  note enc = encode_exact [OF assms(1,2,3)]
  have lib: "rs_library s'" using enc(3) by (simp add: rs_library_def)
  have len: "length w = length cw" using assms(4) by (simp add: error_pattern_def)
  have "\<exists>s''. correct_errors_erasures (decode_data s' w (length w)) w (length cw) (length es) (map int es) = (s'', cw, 1)"
  proof (rule correct_errors_erasures_spec [OF _ _ _ assms(4,5)])
    show "rs_ready (decode_data s' w (length w))" by (rule rs_library.decode_data_ready [OF lib])
    show "gfi (synBytes (decode_data s' w (length w)) ! j) = word_eval w (alpha ^ (j + 1))" if "j < 4" for j
      by (rule rs_library.syndrome_nth(2) [OF lib that])
    show "word_eval cw (alpha ^ (j + 1)) = 0" if "j < 4" for j
      using enc(4) [of "j + 1"] that by simp
  qed
  then show ?thesis using enc(1) len by simp
qed

text \<open>A concrete case: three bytes, the last of the codeword erased, the first wrong.\<close>

definition ex_cw :: "u8 list" where
  "ex_cw = snd (encode_data rs_lib [1, 2, 3] 3 (replicate 7 0))"

definition ex_w :: "u8 list" where
  "ex_w = ex_cw[6 := 0, 0 := ex_cw ! 0 XOR 5]"

lemma ex_encode: "encode_data rs_lib [1, 2, 3] 3 (replicate 7 0) = (fst (encode_data rs_lib [1, 2, 3] 3 (replicate 7 0)), ex_cw)"
  by (simp add: ex_cw_def)

lemma ex_cw_length: "length ex_cw = 7"
  using encode_exact(2) [OF rs_lib_ready, of "[1, 2, 3]" "replicate 7 0"] ex_encode by (simp add: numeral_3_eq_3)

lemma ex_pattern: "error_pattern ex_w ex_cw [0] [6]"
proof -
  have "ex_w ! j = ex_cw ! j" if "j < 7" "j \<noteq> 0" "j \<noteq> 6" for j using that by (simp add: ex_w_def)
  moreover have "ex_w ! 0 = ex_cw ! 0 XOR 5" by (simp add: ex_w_def ex_cw_length)
  moreover have "length ex_w = 7" by (simp add: ex_w_def ex_cw_length)
  ultimately have far: "err_at ex_w ex_cw p = 0" if "p < 7" "p \<noteq> 0" "p \<noteq> 6" for p
    using that by (simp add: err_at_def ex_cw_length)
  have "(5 :: u8) \<noteq> 0" by code_simp
  then have "err_at ex_w ex_cw 6 \<noteq> 0"
    by (simp add: err_at_def ex_cw_length ex_w_def GF_xor add.commute)
  with far show ?thesis by (auto simp: error_pattern_def ex_cw_length ex_w_def)
qed

theorem rs_corrects_witness:
  "\<exists>s'' s'. correct_errors_erasures (decode_data s' ex_w 7) ex_w 7 1 [0] = (s'', ex_cw, 1) \<and> take 3 ex_cw = [1, 2, 3]"
proof -
  have len: "length ex_w = 7" by (simp add: ex_w_def ex_cw_length)
  have "encode_data rs_lib [1, 2, 3] (length [1, 2, 3 :: u8]) (replicate 7 0) = (fst (encode_data rs_lib [1, 2, 3] 3 (replicate 7 0)), ex_cw)"
    using ex_encode by (simp add: numeral_3_eq_3)
  then show ?thesis
    using rs_corrects [OF rs_lib_ready _ _ ex_pattern, of "[1, 2, 3]" "replicate 7 0"] len
    by (simp add: numeral_3_eq_3) blast
qed

text \<open>C9: the check of the syndromes accepts every codeword the encoder makes and rejects every
  word that differs from a codeword of at most 255 bytes in one to four bytes.\<close>

theorem rs_detects:
  assumes "rs_ready s" "encode_data s msg (length msg) dst = (s', cw)" "length dst = length msg + 4" "length cw \<le> 255"
    and "length w = length cw" "card {i. i < length cw \<and> w ! i \<noteq> cw ! i} \<le> 4"
  shows "check_syndrome (decode_data s' w (length w)) = (if w = cw then 0 else 1)"
proof -
  note enc = encode_exact [OF assms(1,2,3)]
  have lib: "rs_library s'" using enc(3) by (simp add: rs_library_def)
  define D where "D = {p. p < length cw \<and> err_at w cw p \<noteq> 0}"
  define ps where "ps = sorted_list_of_set D"
  have fin: "finite D" by (simp add: D_def)
  have "D = (\<lambda>i. length cw - 1 - i) ` {i. i < length cw \<and> w ! i \<noteq> cw ! i}"
  proof (intro set_eqI iffI)
    fix p assume p: "p \<in> D"
    then have "w ! (length cw - 1 - p) \<noteq> cw ! (length cw - 1 - p)" by (auto simp: D_def err_at_def assms(5))
    then show "p \<in> (\<lambda>i. length cw - 1 - i) ` {i. i < length cw \<and> w ! i \<noteq> cw ! i}"
      using p by (intro image_eqI [of _ _ "length cw - 1 - p"]) (auto simp: D_def)
  next
    fix p assume "p \<in> (\<lambda>i. length cw - 1 - i) ` {i. i < length cw \<and> w ! i \<noteq> cw ! i}"
    then obtain i where i: "p = length cw - 1 - i" "i < length cw" "w ! i \<noteq> cw ! i" by blast
    then have "length cw - 1 - p = i" by simp
    then show "p \<in> D" using i by (simp add: D_def err_at_def assms(5))
  qed
  then have "card D \<le> 4" using assms(6) card_image_le [of "{i. i < length cw \<and> w ! i \<noteq> cw ! i}" "\<lambda>i. length cw - 1 - i"] by simp
  then have ps: "distinct ps" "set ps = D" "length ps \<le> 4" using fin by (simp_all add: ps_def)
  have small: "set ps \<subseteq> {..<length cw}" "set ps \<subseteq> {..<255}"
    unfolding ps(2) D_def using assms(4) by (auto intro: less_le_trans)
  define X where "X = map (\<lambda>p. alpha ^ p) ps"
  have X: "distinct X" "length X \<le> 4" using distinct_positions [OF ps(1) small(2)] ps(3) by (simp_all add: X_def)
  have syn: "word_eval w (alpha ^ (j + 1)) = synd X (err_at w cw \<circ> plog) j" if "j < 4" for j
  proof -
    have "word_eval w (alpha ^ (j + 1)) = word_eval cw (alpha ^ (j + 1)) + synd X (err_at w cw \<circ> plog) j"
      unfolding X_def using assms(4,5) ps small by (intro word_eval_synd) (auto simp: D_def)
    then show ?thesis using enc(4) [of "j + 1"] that by simp
  qed
  have "w = cw" if all: "\<forall>j<4. word_eval w (alpha ^ (j + 1)) = 0"
  proof -
    have "ps = []"
    proof (rule ccontr)
      assume "ps \<noteq> []"
      then obtain p where p: "p \<in> set ps" using last_in_set by blast
      then have "(err_at w cw \<circ> plog) (alpha ^ p) = 0"
        using synd_zero_no_error [OF X, of "alpha ^ p" "err_at w cw \<circ> plog"] syn all alpha_power_nz
        by (auto simp: X_def comp_def)
      moreover have "plog (alpha ^ p) = p" using p small(2) by (intro plog_alpha) auto
      ultimately show False using p ps(2) by (simp add: D_def)
    qed
    then have "D = {}" using ps(2) by simp
    then have "GF (cw ! i) = GF (w ! i)" if "i < length cw" for i
      using err_at_cell [OF assms(5) that refl] that by (auto simp: D_def)
    then show "w = cw" using assms(5) by (intro nth_equalityI) simp_all
  qed
  moreover have "\<forall>j<4. word_eval w (alpha ^ (j + 1)) = 0" if "w = cw"
    unfolding that using zero_syndromes [OF assms(1) enc(4)] by blast
  ultimately have iff: "(\<forall>j<4. word_eval w (alpha ^ (j + 1)) = 0) \<longleftrightarrow> w = cw" by (rule iffI)
  show ?thesis using iff by (simp only: rs_library.check_syndrome_iff [OF lib])
qed

theorem rs_detects_witness: "\<exists>s'. check_syndrome (decode_data s' (ex_cw[2 := ex_cw ! 2 XOR 1]) 7) = 1"
proof -
  let ?w = "ex_cw[2 := ex_cw ! 2 XOR 1]"
  have ne: "?w \<noteq> ex_cw"
  proof
    assume "?w = ex_cw"
    then have "?w ! 2 = ex_cw ! 2" by simp
    then have "ex_cw ! 2 XOR (ex_cw ! 2 XOR 1) = 0" by (simp add: ex_cw_length)
    then show False unfolding xor.assoc [symmetric] xor_self_eq by simp
  qed
  have "{i. i < length ex_cw \<and> ?w ! i \<noteq> ex_cw ! i} \<subseteq> {2}" by (auto intro: ccontr)
  then have card: "card {i. i < length ex_cw \<and> ?w ! i \<noteq> ex_cw ! i} \<le> 4"
    by (rule order_trans [OF card_mono [rotated]]) simp_all
  have "encode_data rs_lib [1, 2, 3] (length [1, 2, 3 :: u8]) (replicate 7 0) = (fst (encode_data rs_lib [1, 2, 3] 3 (replicate 7 0)), ex_cw)"
    using ex_encode by (simp add: numeral_3_eq_3)
  from rs_detects [OF rs_lib_ready this _ _ _ card] ne show ?thesis
    by (simp add: ex_cw_length) blast
qed

end
