(* ===== verification/Crc.thy ===== *)
theory Crc
  imports Prelude
begin

text \<open>
  The CRC-CCITT generator (\<open>rscode-1.3/crcgen.c\<close>): \<open>BIT16\<close> is a 16-bit word, so the masks with
  \<open>0xFFFF\<close> are the wrap-around of the shift.
\<close>

definition crc_step :: "u16 \<Rightarrow> u16 \<times> u16 \<Rightarrow> u16 \<times> u16" where
  "crc_step genpoly = (\<lambda>(data, accum).
     ((push_bit 1 data) AND 0xFFFF,
      if (data XOR accum) AND 0x8000 \<noteq> 0 then (push_bit 1 accum XOR genpoly) AND 0xFFFF
      else push_bit 1 accum AND 0xFFFF))"

definition crchware :: "u16 \<Rightarrow> u16 \<Rightarrow> u16 \<Rightarrow> u16" where
  "crchware data genpoly accum = snd ((crc_step genpoly ^^ 8) (push_bit 8 data, accum))"

definition crc_ccitt :: "u8 list \<Rightarrow> nat \<Rightarrow> u16" where
  "crc_ccitt msg len = fold (\<lambda>i acc. crchware (ucast (msg ! i)) 0x1021 acc) [0..<len] 0"

text \<open>One step of polynomial division, with data and accumulator added up.\<close>

definition div_step :: "u16 \<Rightarrow> u16 \<Rightarrow> u16" where
  "div_step g a = push_bit 1 a XOR (if bit a 15 then g else 0)"

lemma u16_mask: "(a :: u16) AND 0xFFFF = a"
proof -
  have "(0xFFFF :: u16) = - 1" by simp
  then show ?thesis by (simp only: and.right_neutral)
qed

lemma u16_top: "(a :: u16) AND 0x8000 \<noteq> 0 \<longleftrightarrow> bit a 15"
proof -
  have e: "(0x8000 :: u16) = push_bit 15 1" by simp
  show ?thesis unfolding e by (simp only: bit_iff_and_push_bit_not_eq_0)
qed

lemma crc_step_sum: "fst (crc_step g (d, a)) XOR snd (crc_step g (d, a)) = div_step g (d XOR a)"
proof (rule bit_word_eqI)
  fix n
  show "bit (fst (crc_step g (d, a)) XOR snd (crc_step g (d, a))) n = bit (div_step g (d XOR a)) n"
    unfolding crc_step_def div_step_def u16_mask u16_top
    by (auto simp: bit_xor_iff bit_push_bit_iff simp del: push_bit_of_1)
qed

lemma crc_steps_data: "fst ((crc_step g ^^ n) (d, a)) = push_bit n d"
proof (induction n)
  case (Suc n)
  then show ?case
    by (cases "(crc_step g ^^ n) (d, a)") (simp add: crc_step_def u16_mask del: push_bit_Suc)
qed simp

lemma crc_steps_sum: "fst ((crc_step g ^^ n) (d, a)) XOR snd ((crc_step g ^^ n) (d, a)) = (div_step g ^^ n) (d XOR a)"
proof (induction n)
  case (Suc n)
  then show ?case using crc_step_sum [of g] by (cases "(crc_step g ^^ n) (d, a)") simp
qed simp

lemma crchware_div: "crchware (ucast (b :: u8)) g a = (div_step g ^^ 8) (push_bit 8 (ucast b) XOR a)"
proof -
  let ?d = "push_bit 8 (ucast b) :: u16"
  have "push_bit 8 ?d = 0" by (rule bit_word_eqI) (auto simp: bit_simps)
  then have "fst ((crc_step g ^^ 8) (?d, a)) = 0" by (simp only: crc_steps_data)
  then show ?thesis using crc_steps_sum [where g = g and n = 8 and d = ?d and a = a] by (simp add: crchware_def)
qed

text \<open>Division is additive, and shifts out a zero top half without feedback.\<close>

lemma div_step_xor: "div_step g (a XOR b) = div_step g a XOR div_step g b"
  by (rule bit_word_eqI) (auto simp: div_step_def bit_xor_iff bit_push_bit_iff)

lemma div_steps_xor: "(div_step g ^^ n) (a XOR b) = (div_step g ^^ n) a XOR (div_step g ^^ n) b"
  by (induction n) (simp_all add: div_step_xor)

lemma div_steps_0 [simp]: "(div_step g ^^ n) 0 = 0"
  by (induction n) (simp_all add: div_step_def)

lemma div_steps_low: "n \<le> 8 \<Longrightarrow> (\<And>i. 8 \<le> i \<Longrightarrow> \<not> bit a i) \<Longrightarrow> (div_step g ^^ n) a = push_bit n a"
proof (induction n)
  case (Suc n)
  then have IH: "(div_step g ^^ n) a = push_bit n a" by simp
  have "\<not> bit (push_bit n a) 15" using Suc.prems by (auto simp: bit_push_bit_iff)
  then have "div_step g (push_bit n a) = push_bit 1 (push_bit n a)" by (simp only: div_step_def if_False xor.right_neutral)
  then show ?case by (simp only: funpow.simps comp_apply IH push_bit_push_bit plus_1_eq_Suc)
qed simp

definition crc_fold :: "u8 list \<Rightarrow> u16 \<Rightarrow> u16" where
  "crc_fold msg = fold (\<lambda>b acc. crchware (ucast b) 0x1021 acc) msg"

lemma crc_ccitt_fold: "crc_ccitt msg (length msg) = crc_fold msg 0"
proof -
  have "fold (\<lambda>i acc. crchware (ucast (msg ! i)) 0x1021 acc) [0..<length msg] a
      = fold (\<lambda>b acc. crchware (ucast b) 0x1021 acc) (map ((!) msg) [0..<length msg]) a" for a
    by (simp add: fold_map comp_def)
  then show ?thesis by (simp add: crc_ccitt_def crc_fold_def map_nth)
qed

lemma crc_fold_append: "crc_fold (xs @ ys) a = crc_fold ys (crc_fold xs a)"
  by (simp add: crc_fold_def)

subsection \<open>Properties of the checksum\<close>

text \<open>C32: a message followed by its own checksum, high byte first, has checksum 0: what the
  receiver of a checksummed message relies on.\<close>

theorem crc_self_check:
  "crc_ccitt (msg @ [ucast (drop_bit 8 (crc_ccitt msg (length msg))), ucast (crc_ccitt msg (length msg))]) (length msg + 2) = 0"
proof -
  define c where "c = crc_ccitt msg (length msg)"
  define hi where "hi = (ucast (drop_bit 8 c) :: u8)"
  define lo where "lo = (ucast c :: u8)"
  have split: "push_bit 8 (ucast hi) XOR c = (ucast lo :: u16)"
    by (rule bit_word_eqI) (auto simp: hi_def lo_def bit_simps)
  have "(div_step 0x1021 ^^ 8) (ucast lo) = push_bit 8 (ucast lo :: u16)"
    by (rule div_steps_low) (auto simp: bit_unsigned_iff dest: bit_imp_le_length)
  then have "crc_fold [hi] c = push_bit 8 (ucast lo)" by (simp add: crc_fold_def crchware_div split)
  then have "crc_fold [hi, lo] c = 0" by (simp add: crc_fold_def crchware_div)
  then show ?thesis
    using crc_ccitt_fold [of "msg @ [hi, lo]"] crc_ccitt_fold [of msg] by (simp add: crc_fold_append c_def hi_def lo_def)
qed

text \<open>The checksum is additive, so whether a disturbance of a message goes unnoticed depends
  on the disturbance alone.\<close>

theorem crc_additive:
  assumes "length xs = length ys"
  shows "crc_ccitt (map2 (XOR) xs ys) (length xs) = crc_ccitt xs (length xs) XOR crc_ccitt ys (length ys)"
proof -
  have "crc_fold (map2 (XOR) xs ys) (a XOR b) = crc_fold xs a XOR crc_fold ys b" for a b
    using assms
  proof (induction xs ys arbitrary: a b rule: list_induct2)
    case (Cons x xs y ys)
    have "push_bit 8 (ucast (x XOR y)) XOR (a XOR b) = (push_bit 8 (ucast x) XOR a) XOR (push_bit 8 (ucast y) XOR b :: u16)"
      by (rule bit_word_eqI) (auto simp: bit_simps)
    then have "crchware (ucast (x XOR y)) 0x1021 (a XOR b) = crchware (ucast x) 0x1021 a XOR crchware (ucast y) 0x1021 b"
      by (simp only: crchware_div div_steps_xor)
    then show ?case using Cons.IH by (simp add: crc_fold_def)
  qed (simp add: crc_fold_def)
  from this [of 0 0] show ?thesis
    using crc_ccitt_fold [of "map2 (XOR) xs ys"] crc_ccitt_fold [of xs] crc_ccitt_fold [of ys] assms by simp
qed

theorem crc_additive_witness:
  "crc_ccitt (map2 (XOR) [1, 2] [3, 4]) 2 = crc_ccitt [1, 2] 2 XOR crc_ccitt [3, 4] 2"
  using crc_additive [of "[1, 2]" "[3, 4]"] by (simp add: numeral_2_eq_2)

end
