(* ===== verification/FecMaskRandom.thy ===== *)
theory FecMaskRandom
  imports Prelude
begin

text \<open>
  The packet masks of \<open>fec_private_tables_random.cc\<close>: the macros \<open>kMaskRandomM_N\<close> (the mask of
  \<open>N\<close> FEC packets that protect \<open>M\<close> media packets, two bytes a row), the macros that collect them
  behind their count, and the table itself, a flat array of bytes.
\<close>

definition kMaskRandom1_1 :: "u8 list" where
  "kMaskRandom1_1 = [0x80, 0x00]"

definition kMaskRandom2_1 :: "u8 list" where
  "kMaskRandom2_1 = [0xc0, 0x00]"

definition kMaskRandom2_2 :: "u8 list" where
  "kMaskRandom2_2 = [0xc0, 0x00, 0x80, 0x00]"

definition kMaskRandom3_1 :: "u8 list" where
  "kMaskRandom3_1 = [0xe0, 0x00]"

definition kMaskRandom3_2 :: "u8 list" where
  "kMaskRandom3_2 = [0xc0, 0x00, 0xa0, 0x00]"

definition kMaskRandom3_3 :: "u8 list" where
  "kMaskRandom3_3 = [0xc0, 0x00, 0xa0, 0x00, 0x60, 0x00]"

definition kMaskRandom4_1 :: "u8 list" where
  "kMaskRandom4_1 = [0xf0, 0x00]"

definition kMaskRandom4_2 :: "u8 list" where
  "kMaskRandom4_2 = [0xc0, 0x00, 0xb0, 0x00]"

definition kMaskRandom4_3 :: "u8 list" where
  "kMaskRandom4_3 = [0xc0, 0x00, 0xb0, 0x00, 0x60, 0x00]"

definition kMaskRandom4_4 :: "u8 list" where
  "kMaskRandom4_4 = [0xc0, 0x00, 0xa0, 0x00, 0x30, 0x00, 0x50, 0x00]"

definition kMaskRandom5_1 :: "u8 list" where
  "kMaskRandom5_1 = [0xf8, 0x00]"

definition kMaskRandom5_2 :: "u8 list" where
  "kMaskRandom5_2 = [0xa8, 0x00, 0xd0, 0x00]"

definition kMaskRandom5_3 :: "u8 list" where
  "kMaskRandom5_3 = [0xb0, 0x00, 0xc8, 0x00, 0x50, 0x00]"

definition kMaskRandom5_4 :: "u8 list" where
  "kMaskRandom5_4 = [0xc8, 0x00, 0xb0, 0x00, 0x50, 0x00, 0x28, 0x00]"

definition kMaskRandom5_5 :: "u8 list" where
  "kMaskRandom5_5 = [0xc0, 0x00, 0x30, 0x00, 0x18, 0x00, 0xa0, 0x00, 0x48, 0x00]"

definition kMaskRandom6_1 :: "u8 list" where
  "kMaskRandom6_1 = [0xfc, 0x00]"

definition kMaskRandom6_2 :: "u8 list" where
  "kMaskRandom6_2 = [0xa8, 0x00, 0xd4, 0x00]"

definition kMaskRandom6_3 :: "u8 list" where
  "kMaskRandom6_3 = [0xd0, 0x00, 0x68, 0x00, 0xa4, 0x00]"

definition kMaskRandom6_4 :: "u8 list" where
  "kMaskRandom6_4 = [0xa8, 0x00, 0x58, 0x00, 0x64, 0x00, 0x94, 0x00]"

definition kMaskRandom6_5 :: "u8 list" where
  "kMaskRandom6_5 = [0xa8, 0x00, 0x84, 0x00, 0x64, 0x00, 0x90, 0x00, 0x58, 0x00]"

definition kMaskRandom6_6 :: "u8 list" where
  "kMaskRandom6_6 = [0x98, 0x00, 0x64, 0x00, 0x50, 0x00, 0x14, 0x00, 0xa8, 0x00, 0xe0, 0x00]"

definition kMaskRandom7_1 :: "u8 list" where
  "kMaskRandom7_1 = [0xfe, 0x00]"

definition kMaskRandom7_2 :: "u8 list" where
  "kMaskRandom7_2 = [0xd4, 0x00, 0xaa, 0x00]"

definition kMaskRandom7_3 :: "u8 list" where
  "kMaskRandom7_3 = [0xd0, 0x00, 0xaa, 0x00, 0x64, 0x00]"

definition kMaskRandom7_4 :: "u8 list" where
  "kMaskRandom7_4 = [0xd0, 0x00, 0xaa, 0x00, 0x64, 0x00, 0x1c, 0x00]"

definition kMaskRandom7_5 :: "u8 list" where
  "kMaskRandom7_5 = [0x0c, 0x00, 0xb0, 0x00, 0x1a, 0x00, 0xc4, 0x00, 0x62, 0x00]"

definition kMaskRandom7_6 :: "u8 list" where
  "kMaskRandom7_6 = [0x8c, 0x00, 0x4a, 0x00, 0x64, 0x00, 0xd0, 0x00, 0xa0, 0x00, 0x32, 0x00]"

definition kMaskRandom7_7 :: "u8 list" where
  "kMaskRandom7_7 = [0x4a, 0x00, 0x94, 0x00, 0x1a, 0x00, 0xc4, 0x00, 0x28, 0x00, 0xc2, 0x00,
     0x34, 0x00]"

definition kMaskRandom8_1 :: "u8 list" where
  "kMaskRandom8_1 = [0xff, 0x00]"

definition kMaskRandom8_2 :: "u8 list" where
  "kMaskRandom8_2 = [0xaa, 0x00, 0xd5, 0x00]"

definition kMaskRandom8_3 :: "u8 list" where
  "kMaskRandom8_3 = [0xc5, 0x00, 0x92, 0x00, 0x6a, 0x00]"

definition kMaskRandom8_4 :: "u8 list" where
  "kMaskRandom8_4 = [0x45, 0x00, 0xb4, 0x00, 0x6a, 0x00, 0x89, 0x00]"

definition kMaskRandom8_5 :: "u8 list" where
  "kMaskRandom8_5 = [0x8c, 0x00, 0x92, 0x00, 0x2b, 0x00, 0x51, 0x00, 0x64, 0x00]"

definition kMaskRandom8_6 :: "u8 list" where
  "kMaskRandom8_6 = [0xa1, 0x00, 0x52, 0x00, 0x91, 0x00, 0x2a, 0x00, 0xc4, 0x00, 0x4c, 0x00]"

definition kMaskRandom8_7 :: "u8 list" where
  "kMaskRandom8_7 = [0x15, 0x00, 0xc2, 0x00, 0x25, 0x00, 0x62, 0x00, 0x58, 0x00, 0x8c, 0x00,
     0xa3, 0x00]"

definition kMaskRandom8_8 :: "u8 list" where
  "kMaskRandom8_8 = [0x25, 0x00, 0x8a, 0x00, 0x91, 0x00, 0x68, 0x00, 0x32, 0x00, 0x43, 0x00,
     0xc4, 0x00, 0x1c, 0x00]"

definition kMaskRandom9_1 :: "u8 list" where
  "kMaskRandom9_1 = [0xff, 0x80]"

definition kMaskRandom9_2 :: "u8 list" where
  "kMaskRandom9_2 = [0xaa, 0x80, 0xd5, 0x00]"

definition kMaskRandom9_3 :: "u8 list" where
  "kMaskRandom9_3 = [0xa5, 0x00, 0xc8, 0x00, 0x52, 0x80]"

definition kMaskRandom9_4 :: "u8 list" where
  "kMaskRandom9_4 = [0xa2, 0x00, 0xc9, 0x00, 0x52, 0x80, 0x24, 0x80]"

definition kMaskRandom9_5 :: "u8 list" where
  "kMaskRandom9_5 = [0x8c, 0x00, 0x25, 0x00, 0x92, 0x80, 0x41, 0x80, 0x58, 0x00]"

definition kMaskRandom9_6 :: "u8 list" where
  "kMaskRandom9_6 = [0x84, 0x80, 0x27, 0x00, 0x51, 0x80, 0x1a, 0x00, 0x68, 0x00, 0x89, 0x00]"

definition kMaskRandom9_7 :: "u8 list" where
  "kMaskRandom9_7 = [0x8c, 0x00, 0x47, 0x00, 0x81, 0x80, 0x12, 0x80, 0x58, 0x00, 0x28, 0x80,
     0xb4, 0x00]"

definition kMaskRandom9_8 :: "u8 list" where
  "kMaskRandom9_8 = [0x2c, 0x00, 0x91, 0x00, 0x40, 0x80, 0x06, 0x80, 0xc8, 0x00, 0x45, 0x00,
     0x30, 0x80, 0xa2, 0x00]"

definition kMaskRandom9_9 :: "u8 list" where
  "kMaskRandom9_9 = [0x4c, 0x00, 0x62, 0x00, 0x91, 0x00, 0x42, 0x80, 0xa4, 0x00, 0x13, 0x00,
     0x30, 0x80, 0x88, 0x80, 0x09, 0x00]"

definition kMaskRandom10_1 :: "u8 list" where
  "kMaskRandom10_1 = [0xff, 0xc0]"

definition kMaskRandom10_10 :: "u8 list" where
  "kMaskRandom10_10 = [0x4c, 0x00, 0x51, 0x00, 0xa0, 0x40, 0x04, 0xc0, 0x03, 0x80, 0x86, 0x00,
     0x29, 0x00, 0x42, 0x40, 0x98, 0x00, 0x30, 0x80]"

definition kMaskRandom10_2 :: "u8 list" where
  "kMaskRandom10_2 = [0xaa, 0x80, 0xd5, 0x40]"

definition kMaskRandom10_3 :: "u8 list" where
  "kMaskRandom10_3 = [0xa4, 0x40, 0xc9, 0x00, 0x52, 0x80]"

definition kMaskRandom10_4 :: "u8 list" where
  "kMaskRandom10_4 = [0xca, 0x00, 0x32, 0x80, 0xa1, 0x40, 0x55, 0x00]"

definition kMaskRandom10_5 :: "u8 list" where
  "kMaskRandom10_5 = [0xca, 0x00, 0x32, 0x80, 0xa1, 0x40, 0x55, 0x00, 0x08, 0xc0]"

definition kMaskRandom10_6 :: "u8 list" where
  "kMaskRandom10_6 = [0x0e, 0x00, 0x33, 0x00, 0x10, 0xc0, 0x45, 0x40, 0x88, 0x80, 0xe0, 0x00]"

definition kMaskRandom10_7 :: "u8 list" where
  "kMaskRandom10_7 = [0x46, 0x00, 0x33, 0x00, 0x80, 0xc0, 0x0c, 0x40, 0x28, 0x80, 0x94, 0x00,
     0xc1, 0x00]"

definition kMaskRandom10_8 :: "u8 list" where
  "kMaskRandom10_8 = [0x2c, 0x00, 0x81, 0x80, 0xa0, 0x40, 0x05, 0x40, 0x18, 0x80, 0xc2, 0x00,
     0x22, 0x80, 0x50, 0x40]"

definition kMaskRandom10_9 :: "u8 list" where
  "kMaskRandom10_9 = [0x4c, 0x00, 0x23, 0x00, 0x88, 0xc0, 0x21, 0x40, 0x52, 0x80, 0x94, 0x00,
     0x26, 0x00, 0x48, 0x40, 0x91, 0x80]"

definition kMaskRandom11_1 :: "u8 list" where
  "kMaskRandom11_1 = [0xff, 0xe0]"

definition kMaskRandom11_10 :: "u8 list" where
  "kMaskRandom11_10 = [0x64, 0x40, 0x51, 0x40, 0xa9, 0x00, 0x04, 0xc0, 0xd0, 0x00, 0x82, 0x40,
     0x21, 0x20, 0x0c, 0x20, 0x4a, 0x00, 0x12, 0xa0]"

definition kMaskRandom11_11 :: "u8 list" where
  "kMaskRandom11_11 = [0x46, 0x40, 0x33, 0x20, 0x99, 0x00, 0x05, 0x80, 0x80, 0xa0, 0x84, 0x40,
     0x40, 0x60, 0x0a, 0x80, 0x68, 0x00, 0x10, 0x20, 0x30, 0x40]"

definition kMaskRandom11_2 :: "u8 list" where
  "kMaskRandom11_2 = [0xec, 0xc0, 0x9b, 0xa0]"

definition kMaskRandom11_3 :: "u8 list" where
  "kMaskRandom11_3 = [0xca, 0xc0, 0xf1, 0x40, 0xb6, 0x20]"

definition kMaskRandom11_4 :: "u8 list" where
  "kMaskRandom11_4 = [0xc4, 0xc0, 0x31, 0x60, 0x4b, 0x20, 0x2c, 0xa0]"

definition kMaskRandom11_5 :: "u8 list" where
  "kMaskRandom11_5 = [0x86, 0x80, 0x23, 0x20, 0x16, 0x20, 0x4c, 0x20, 0x41, 0xc0]"

definition kMaskRandom11_6 :: "u8 list" where
  "kMaskRandom11_6 = [0x64, 0x40, 0x51, 0x40, 0x0c, 0xa0, 0xa1, 0x20, 0x12, 0xa0, 0x8a, 0x40]"

definition kMaskRandom11_7 :: "u8 list" where
  "kMaskRandom11_7 = [0x46, 0x40, 0x33, 0x20, 0x91, 0x80, 0xa4, 0x20, 0x50, 0xa0, 0x84, 0xc0,
     0x09, 0x60]"

definition kMaskRandom11_8 :: "u8 list" where
  "kMaskRandom11_8 = [0x0c, 0x80, 0x80, 0x60, 0xa0, 0x80, 0x05, 0x40, 0x43, 0x00, 0x1a, 0x00,
     0x60, 0x20, 0x14, 0x20]"

definition kMaskRandom11_9 :: "u8 list" where
  "kMaskRandom11_9 = [0x46, 0x40, 0x62, 0x60, 0x8c, 0x00, 0x01, 0x60, 0x07, 0x80, 0xa0, 0x80,
     0x18, 0xa0, 0x91, 0x00, 0x78, 0x00]"

definition kMaskRandom12_1 :: "u8 list" where
  "kMaskRandom12_1 = [0xff, 0xf0]"

definition kMaskRandom12_10 :: "u8 list" where
  "kMaskRandom12_10 = [0x51, 0x40, 0x45, 0x10, 0x80, 0xd0, 0x24, 0x20, 0x0a, 0x20, 0x00, 0xe0,
     0xb8, 0x00, 0x09, 0x10, 0x56, 0x00, 0xa2, 0x80]"

definition kMaskRandom12_11 :: "u8 list" where
  "kMaskRandom12_11 = [0x53, 0x60, 0x21, 0x30, 0x10, 0x90, 0x00, 0x70, 0x0c, 0x10, 0x40, 0xc0,
     0x6a, 0x00, 0x86, 0x00, 0x24, 0x80, 0x89, 0x00, 0xc0, 0x20]"

definition kMaskRandom12_12 :: "u8 list" where
  "kMaskRandom12_12 = [0x10, 0x60, 0x02, 0x30, 0x40, 0x50, 0x21, 0x80, 0x81, 0x10, 0x14, 0x80,
     0x98, 0x00, 0x08, 0x90, 0x62, 0x00, 0x24, 0x20, 0x8a, 0x00, 0x84, 0x40]"

definition kMaskRandom12_2 :: "u8 list" where
  "kMaskRandom12_2 = [0xec, 0xc0, 0x93, 0xb0]"

definition kMaskRandom12_3 :: "u8 list" where
  "kMaskRandom12_3 = [0x9b, 0x80, 0x4f, 0x10, 0x3c, 0x60]"

definition kMaskRandom12_4 :: "u8 list" where
  "kMaskRandom12_4 = [0x8b, 0x20, 0x14, 0xb0, 0x22, 0xd0, 0x45, 0x50]"

definition kMaskRandom12_5 :: "u8 list" where
  "kMaskRandom12_5 = [0x53, 0x60, 0x64, 0x20, 0x0c, 0xc0, 0x82, 0xa0, 0x09, 0x30]"

definition kMaskRandom12_6 :: "u8 list" where
  "kMaskRandom12_6 = [0x51, 0x40, 0xc5, 0x10, 0x21, 0x80, 0x12, 0x30, 0x08, 0xe0, 0x2e, 0x00]"

definition kMaskRandom12_7 :: "u8 list" where
  "kMaskRandom12_7 = [0x53, 0x60, 0x21, 0x30, 0x90, 0x90, 0x02, 0x50, 0x06, 0xa0, 0x2c, 0x00,
     0x88, 0x60]"

definition kMaskRandom12_8 :: "u8 list" where
  "kMaskRandom12_8 = [0x20, 0x60, 0x80, 0x30, 0x42, 0x40, 0x01, 0x90, 0x14, 0x10, 0x0a, 0x80,
     0x38, 0x00, 0xc5, 0x00]"

definition kMaskRandom12_9 :: "u8 list" where
  "kMaskRandom12_9 = [0x53, 0x60, 0xe4, 0x20, 0x24, 0x40, 0xa1, 0x10, 0x18, 0x30, 0x03, 0x90,
     0x8a, 0x10, 0x04, 0x90, 0x00, 0xe0]"

definition kPacketMaskRandom1 :: "u8 list" where
  "kPacketMaskRandom1 = 1 # kMaskRandom1_1"

definition kPacketMaskRandom2 :: "u8 list" where
  "kPacketMaskRandom2 = 2 # kMaskRandom2_1 @ kMaskRandom2_2"

definition kPacketMaskRandom3 :: "u8 list" where
  "kPacketMaskRandom3 = 3 # kMaskRandom3_1 @ kMaskRandom3_2 @ kMaskRandom3_3"

definition kPacketMaskRandom4 :: "u8 list" where
  "kPacketMaskRandom4 = 4 # kMaskRandom4_1 @ kMaskRandom4_2 @ kMaskRandom4_3 @ kMaskRandom4_4"

definition kPacketMaskRandom5 :: "u8 list" where
  "kPacketMaskRandom5 = 5 # kMaskRandom5_1 @ kMaskRandom5_2 @ kMaskRandom5_3 @ kMaskRandom5_4 @
     kMaskRandom5_5"

definition kPacketMaskRandom6 :: "u8 list" where
  "kPacketMaskRandom6 = 6 # kMaskRandom6_1 @ kMaskRandom6_2 @ kMaskRandom6_3 @ kMaskRandom6_4 @
     kMaskRandom6_5 @ kMaskRandom6_6"

definition kPacketMaskRandom7 :: "u8 list" where
  "kPacketMaskRandom7 = 7 # kMaskRandom7_1 @ kMaskRandom7_2 @ kMaskRandom7_3 @ kMaskRandom7_4 @
     kMaskRandom7_5 @ kMaskRandom7_6 @ kMaskRandom7_7"

definition kPacketMaskRandom8 :: "u8 list" where
  "kPacketMaskRandom8 = 8 # kMaskRandom8_1 @ kMaskRandom8_2 @ kMaskRandom8_3 @ kMaskRandom8_4 @
     kMaskRandom8_5 @ kMaskRandom8_6 @ kMaskRandom8_7 @ kMaskRandom8_8"

definition kPacketMaskRandom9 :: "u8 list" where
  "kPacketMaskRandom9 = 9 # kMaskRandom9_1 @ kMaskRandom9_2 @ kMaskRandom9_3 @ kMaskRandom9_4 @
     kMaskRandom9_5 @ kMaskRandom9_6 @ kMaskRandom9_7 @ kMaskRandom9_8 @
     kMaskRandom9_9"

definition kPacketMaskRandom10 :: "u8 list" where
  "kPacketMaskRandom10 = 10 # kMaskRandom10_1 @ kMaskRandom10_2 @ kMaskRandom10_3 @ kMaskRandom10_4 @
     kMaskRandom10_5 @ kMaskRandom10_6 @ kMaskRandom10_7 @ kMaskRandom10_8 @
     kMaskRandom10_9 @ kMaskRandom10_10"

definition kPacketMaskRandom11 :: "u8 list" where
  "kPacketMaskRandom11 = 11 # kMaskRandom11_1 @ kMaskRandom11_2 @ kMaskRandom11_3 @ kMaskRandom11_4 @
     kMaskRandom11_5 @ kMaskRandom11_6 @ kMaskRandom11_7 @ kMaskRandom11_8 @
     kMaskRandom11_9 @ kMaskRandom11_10 @ kMaskRandom11_11"

definition kPacketMaskRandom12 :: "u8 list" where
  "kPacketMaskRandom12 = 12 # kMaskRandom12_1 @ kMaskRandom12_2 @ kMaskRandom12_3 @ kMaskRandom12_4 @
     kMaskRandom12_5 @ kMaskRandom12_6 @ kMaskRandom12_7 @ kMaskRandom12_8 @
     kMaskRandom12_9 @ kMaskRandom12_10 @ kMaskRandom12_11 @ kMaskRandom12_12"

definition kPacketMaskRandomTbl :: "u8 list" where
  "kPacketMaskRandomTbl = 12 # kPacketMaskRandom1 @ kPacketMaskRandom2 @ kPacketMaskRandom3 @ kPacketMaskRandom4 @
     kPacketMaskRandom5 @ kPacketMaskRandom6 @ kPacketMaskRandom7 @ kPacketMaskRandom8 @
     kPacketMaskRandom9 @ kPacketMaskRandom10 @ kPacketMaskRandom11 @ kPacketMaskRandom12"

text \<open>The masks as the macros name them: row \<open>M - 1\<close>, entry \<open>N - 1\<close>.\<close>

definition random_masks :: "u8 list list list" where
  "random_masks = [[kMaskRandom1_1],
     [kMaskRandom2_1, kMaskRandom2_2],
     [kMaskRandom3_1, kMaskRandom3_2, kMaskRandom3_3],
     [kMaskRandom4_1, kMaskRandom4_2, kMaskRandom4_3, kMaskRandom4_4],
     [kMaskRandom5_1, kMaskRandom5_2, kMaskRandom5_3, kMaskRandom5_4, kMaskRandom5_5],
     [kMaskRandom6_1, kMaskRandom6_2, kMaskRandom6_3, kMaskRandom6_4, kMaskRandom6_5, kMaskRandom6_6],
     [kMaskRandom7_1, kMaskRandom7_2, kMaskRandom7_3, kMaskRandom7_4, kMaskRandom7_5, kMaskRandom7_6, kMaskRandom7_7],
     [kMaskRandom8_1, kMaskRandom8_2, kMaskRandom8_3, kMaskRandom8_4, kMaskRandom8_5, kMaskRandom8_6, kMaskRandom8_7, kMaskRandom8_8],
     [kMaskRandom9_1, kMaskRandom9_2, kMaskRandom9_3, kMaskRandom9_4, kMaskRandom9_5, kMaskRandom9_6, kMaskRandom9_7, kMaskRandom9_8, kMaskRandom9_9],
     [kMaskRandom10_1, kMaskRandom10_2, kMaskRandom10_3, kMaskRandom10_4, kMaskRandom10_5, kMaskRandom10_6, kMaskRandom10_7, kMaskRandom10_8, kMaskRandom10_9, kMaskRandom10_10],
     [kMaskRandom11_1, kMaskRandom11_2, kMaskRandom11_3, kMaskRandom11_4, kMaskRandom11_5, kMaskRandom11_6, kMaskRandom11_7, kMaskRandom11_8, kMaskRandom11_9, kMaskRandom11_10, kMaskRandom11_11],
     [kMaskRandom12_1, kMaskRandom12_2, kMaskRandom12_3, kMaskRandom12_4, kMaskRandom12_5, kMaskRandom12_6, kMaskRandom12_7, kMaskRandom12_8, kMaskRandom12_9, kMaskRandom12_10, kMaskRandom12_11, kMaskRandom12_12]]"

lemmas random_mask_defs = kMaskRandom1_1_def kMaskRandom2_1_def kMaskRandom2_2_def kMaskRandom3_1_def kMaskRandom3_2_def
  kMaskRandom3_3_def kMaskRandom4_1_def kMaskRandom4_2_def kMaskRandom4_3_def kMaskRandom4_4_def
  kMaskRandom5_1_def kMaskRandom5_2_def kMaskRandom5_3_def kMaskRandom5_4_def kMaskRandom5_5_def
  kMaskRandom6_1_def kMaskRandom6_2_def kMaskRandom6_3_def kMaskRandom6_4_def kMaskRandom6_5_def
  kMaskRandom6_6_def kMaskRandom7_1_def kMaskRandom7_2_def kMaskRandom7_3_def kMaskRandom7_4_def
  kMaskRandom7_5_def kMaskRandom7_6_def kMaskRandom7_7_def kMaskRandom8_1_def kMaskRandom8_2_def
  kMaskRandom8_3_def kMaskRandom8_4_def kMaskRandom8_5_def kMaskRandom8_6_def kMaskRandom8_7_def
  kMaskRandom8_8_def kMaskRandom9_1_def kMaskRandom9_2_def kMaskRandom9_3_def kMaskRandom9_4_def
  kMaskRandom9_5_def kMaskRandom9_6_def kMaskRandom9_7_def kMaskRandom9_8_def kMaskRandom9_9_def
  kMaskRandom10_1_def kMaskRandom10_10_def kMaskRandom10_2_def kMaskRandom10_3_def kMaskRandom10_4_def
  kMaskRandom10_5_def kMaskRandom10_6_def kMaskRandom10_7_def kMaskRandom10_8_def kMaskRandom10_9_def
  kMaskRandom11_1_def kMaskRandom11_10_def kMaskRandom11_11_def kMaskRandom11_2_def kMaskRandom11_3_def
  kMaskRandom11_4_def kMaskRandom11_5_def kMaskRandom11_6_def kMaskRandom11_7_def kMaskRandom11_8_def
  kMaskRandom11_9_def kMaskRandom12_1_def kMaskRandom12_10_def kMaskRandom12_11_def kMaskRandom12_12_def
  kMaskRandom12_2_def kMaskRandom12_3_def kMaskRandom12_4_def kMaskRandom12_5_def kMaskRandom12_6_def
  kMaskRandom12_7_def kMaskRandom12_8_def kMaskRandom12_9_def

lemmas random_table_defs = kPacketMaskRandom1_def kPacketMaskRandom2_def kPacketMaskRandom3_def kPacketMaskRandom4_def
  kPacketMaskRandom5_def kPacketMaskRandom6_def kPacketMaskRandom7_def kPacketMaskRandom8_def
  kPacketMaskRandom9_def kPacketMaskRandom10_def kPacketMaskRandom11_def kPacketMaskRandom12_def
  kPacketMaskRandomTbl_def

end
