(* ===== verification/FecMaskBursty.thy ===== *)
theory FecMaskBursty
  imports Prelude
begin

text \<open>
  The packet masks of \<open>fec_private_tables_bursty.cc\<close>: the macros \<open>kMaskBurstyM_N\<close> (the mask of
  \<open>N\<close> FEC packets that protect \<open>M\<close> media packets, two bytes a row), the macros that collect them
  behind their count, and the table itself, a flat array of bytes.
\<close>

definition kMaskBursty1_1 :: "u8 list" where
  "kMaskBursty1_1 = [0x80, 0x00]"

definition kMaskBursty2_1 :: "u8 list" where
  "kMaskBursty2_1 = [0xc0, 0x00]"

definition kMaskBursty2_2 :: "u8 list" where
  "kMaskBursty2_2 = [0x80, 0x00, 0xc0, 0x00]"

definition kMaskBursty3_1 :: "u8 list" where
  "kMaskBursty3_1 = [0xe0, 0x00]"

definition kMaskBursty3_2 :: "u8 list" where
  "kMaskBursty3_2 = [0xc0, 0x00, 0xa0, 0x00]"

definition kMaskBursty3_3 :: "u8 list" where
  "kMaskBursty3_3 = [0x80, 0x00, 0xc0, 0x00, 0x60, 0x00]"

definition kMaskBursty4_1 :: "u8 list" where
  "kMaskBursty4_1 = [0xf0, 0x00]"

definition kMaskBursty4_2 :: "u8 list" where
  "kMaskBursty4_2 = [0xa0, 0x00, 0xd0, 0x00]"

definition kMaskBursty4_3 :: "u8 list" where
  "kMaskBursty4_3 = [0xc0, 0x00, 0x60, 0x00, 0x90, 0x00]"

definition kMaskBursty4_4 :: "u8 list" where
  "kMaskBursty4_4 = [0x80, 0x00, 0xc0, 0x00, 0x60, 0x00, 0x30, 0x00]"

definition kMaskBursty5_1 :: "u8 list" where
  "kMaskBursty5_1 = [0xf8, 0x00]"

definition kMaskBursty5_2 :: "u8 list" where
  "kMaskBursty5_2 = [0xd0, 0x00, 0xa8, 0x00]"

definition kMaskBursty5_3 :: "u8 list" where
  "kMaskBursty5_3 = [0x70, 0x00, 0x90, 0x00, 0xc8, 0x00]"

definition kMaskBursty5_4 :: "u8 list" where
  "kMaskBursty5_4 = [0xc0, 0x00, 0x60, 0x00, 0x30, 0x00, 0x88, 0x00]"

definition kMaskBursty5_5 :: "u8 list" where
  "kMaskBursty5_5 = [0x80, 0x00, 0xc0, 0x00, 0x60, 0x00, 0x30, 0x00, 0x18, 0x00]"

definition kMaskBursty6_1 :: "u8 list" where
  "kMaskBursty6_1 = [0xfc, 0x00]"

definition kMaskBursty6_2 :: "u8 list" where
  "kMaskBursty6_2 = [0xa8, 0x00, 0xd4, 0x00]"

definition kMaskBursty6_3 :: "u8 list" where
  "kMaskBursty6_3 = [0x94, 0x00, 0xc8, 0x00, 0x64, 0x00]"

definition kMaskBursty6_4 :: "u8 list" where
  "kMaskBursty6_4 = [0x60, 0x00, 0x38, 0x00, 0x88, 0x00, 0xc4, 0x00]"

definition kMaskBursty6_5 :: "u8 list" where
  "kMaskBursty6_5 = [0xc0, 0x00, 0x60, 0x00, 0x30, 0x00, 0x18, 0x00, 0x84, 0x00]"

definition kMaskBursty6_6 :: "u8 list" where
  "kMaskBursty6_6 = [0x80, 0x00, 0xc0, 0x00, 0x60, 0x00, 0x30, 0x00, 0x18, 0x00, 0x0c, 0x00]"

definition kMaskBursty7_1 :: "u8 list" where
  "kMaskBursty7_1 = [0xfe, 0x00]"

definition kMaskBursty7_2 :: "u8 list" where
  "kMaskBursty7_2 = [0xd4, 0x00, 0xaa, 0x00]"

definition kMaskBursty7_3 :: "u8 list" where
  "kMaskBursty7_3 = [0xc8, 0x00, 0x74, 0x00, 0x92, 0x00]"

definition kMaskBursty7_4 :: "u8 list" where
  "kMaskBursty7_4 = [0x38, 0x00, 0x8a, 0x00, 0xc4, 0x00, 0x62, 0x00]"

definition kMaskBursty7_5 :: "u8 list" where
  "kMaskBursty7_5 = [0x60, 0x00, 0x30, 0x00, 0x1c, 0x00, 0x84, 0x00, 0xc2, 0x00]"

definition kMaskBursty7_6 :: "u8 list" where
  "kMaskBursty7_6 = [0xc0, 0x00, 0x60, 0x00, 0x30, 0x00, 0x18, 0x00, 0x0c, 0x00, 0x82, 0x00]"

definition kMaskBursty7_7 :: "u8 list" where
  "kMaskBursty7_7 = [0x80, 0x00, 0xc0, 0x00, 0x60, 0x00, 0x30, 0x00, 0x18, 0x00, 0x0c, 0x00,
     0x06, 0x00]"

definition kMaskBursty8_1 :: "u8 list" where
  "kMaskBursty8_1 = [0xff, 0x00]"

definition kMaskBursty8_2 :: "u8 list" where
  "kMaskBursty8_2 = [0xaa, 0x00, 0xd5, 0x00]"

definition kMaskBursty8_3 :: "u8 list" where
  "kMaskBursty8_3 = [0x74, 0x00, 0x92, 0x00, 0xc9, 0x00]"

definition kMaskBursty8_4 :: "u8 list" where
  "kMaskBursty8_4 = [0x8a, 0x00, 0xc5, 0x00, 0x62, 0x00, 0x31, 0x00]"

definition kMaskBursty8_5 :: "u8 list" where
  "kMaskBursty8_5 = [0x30, 0x00, 0x1c, 0x00, 0x85, 0x00, 0xc2, 0x00, 0x61, 0x00]"

definition kMaskBursty8_6 :: "u8 list" where
  "kMaskBursty8_6 = [0x60, 0x00, 0x30, 0x00, 0x18, 0x00, 0x0e, 0x00, 0x82, 0x00, 0xc1, 0x00]"

definition kMaskBursty8_7 :: "u8 list" where
  "kMaskBursty8_7 = [0xc0, 0x00, 0x60, 0x00, 0x30, 0x00, 0x18, 0x00, 0x0c, 0x00, 0x06, 0x00,
     0x81, 0x00]"

definition kMaskBursty8_8 :: "u8 list" where
  "kMaskBursty8_8 = [0x80, 0x00, 0xc0, 0x00, 0x60, 0x00, 0x30, 0x00, 0x18, 0x00, 0x0c, 0x00,
     0x06, 0x00, 0x03, 0x00]"

definition kMaskBursty9_1 :: "u8 list" where
  "kMaskBursty9_1 = [0xff, 0x80]"

definition kMaskBursty9_2 :: "u8 list" where
  "kMaskBursty9_2 = [0xd5, 0x00, 0xaa, 0x80]"

definition kMaskBursty9_3 :: "u8 list" where
  "kMaskBursty9_3 = [0x92, 0x00, 0xc9, 0x00, 0x74, 0x80]"

definition kMaskBursty9_4 :: "u8 list" where
  "kMaskBursty9_4 = [0xc5, 0x00, 0x62, 0x00, 0x39, 0x00, 0x8a, 0x80]"

definition kMaskBursty9_5 :: "u8 list" where
  "kMaskBursty9_5 = [0x1c, 0x00, 0x85, 0x00, 0xc2, 0x80, 0x61, 0x00, 0x30, 0x80]"

definition kMaskBursty9_6 :: "u8 list" where
  "kMaskBursty9_6 = [0x30, 0x00, 0x18, 0x00, 0x0e, 0x00, 0x82, 0x80, 0xc1, 0x00, 0x60, 0x80]"

definition kMaskBursty9_7 :: "u8 list" where
  "kMaskBursty9_7 = [0x60, 0x00, 0x30, 0x00, 0x18, 0x00, 0x0c, 0x00, 0x07, 0x00, 0x81, 0x00,
     0xc0, 0x80]"

definition kMaskBursty9_8 :: "u8 list" where
  "kMaskBursty9_8 = [0xc0, 0x00, 0x60, 0x00, 0x30, 0x00, 0x18, 0x00, 0x0c, 0x00, 0x06, 0x00,
     0x03, 0x00, 0x80, 0x80]"

definition kMaskBursty9_9 :: "u8 list" where
  "kMaskBursty9_9 = [0x80, 0x00, 0xc0, 0x00, 0x60, 0x00, 0x30, 0x00, 0x18, 0x00, 0x0c, 0x00,
     0x06, 0x00, 0x03, 0x00, 0x01, 0x80]"

definition kMaskBursty10_1 :: "u8 list" where
  "kMaskBursty10_1 = [0xff, 0xc0]"

definition kMaskBursty10_2 :: "u8 list" where
  "kMaskBursty10_2 = [0xaa, 0x80, 0xd5, 0x40]"

definition kMaskBursty10_3 :: "u8 list" where
  "kMaskBursty10_3 = [0xc9, 0x00, 0x74, 0x80, 0x92, 0x40]"

definition kMaskBursty10_4 :: "u8 list" where
  "kMaskBursty10_4 = [0x62, 0x00, 0x39, 0x00, 0x8a, 0x80, 0xc5, 0x40]"

definition kMaskBursty10_5 :: "u8 list" where
  "kMaskBursty10_5 = [0x85, 0x00, 0xc2, 0x80, 0x61, 0x40, 0x30, 0x80, 0x18, 0x40]"

definition kMaskBursty10_6 :: "u8 list" where
  "kMaskBursty10_6 = [0x18, 0x00, 0x0e, 0x00, 0x82, 0x80, 0xc1, 0x40, 0x60, 0x80, 0x30, 0x40]"

definition kMaskBursty10_7 :: "u8 list" where
  "kMaskBursty10_7 = [0x30, 0x00, 0x18, 0x00, 0x0c, 0x00, 0x07, 0x00, 0x81, 0x40, 0xc0, 0x80,
     0x60, 0x40]"

definition kMaskBursty10_8 :: "u8 list" where
  "kMaskBursty10_8 = [0x60, 0x00, 0x30, 0x00, 0x18, 0x00, 0x0c, 0x00, 0x06, 0x00, 0x03, 0x00,
     0x80, 0x80, 0xc0, 0x40]"

definition kMaskBursty10_9 :: "u8 list" where
  "kMaskBursty10_9 = [0xc0, 0x00, 0x60, 0x00, 0x30, 0x00, 0x18, 0x00, 0x0c, 0x00, 0x06, 0x00,
     0x03, 0x00, 0x01, 0x80, 0x80, 0x40]"

definition kMaskBursty10_10 :: "u8 list" where
  "kMaskBursty10_10 = [0x80, 0x00, 0xc0, 0x00, 0x60, 0x00, 0x30, 0x00, 0x18, 0x00, 0x0c, 0x00,
     0x06, 0x00, 0x03, 0x00, 0x01, 0x80, 0x00, 0xc0]"

definition kMaskBursty11_1 :: "u8 list" where
  "kMaskBursty11_1 = [0xff, 0xe0]"

definition kMaskBursty11_2 :: "u8 list" where
  "kMaskBursty11_2 = [0xd5, 0x40, 0xaa, 0xa0]"

definition kMaskBursty11_3 :: "u8 list" where
  "kMaskBursty11_3 = [0x74, 0x80, 0x92, 0x40, 0xc9, 0x20]"

definition kMaskBursty11_4 :: "u8 list" where
  "kMaskBursty11_4 = [0x39, 0x00, 0x8a, 0x80, 0xc5, 0x40, 0x62, 0x20]"

definition kMaskBursty11_5 :: "u8 list" where
  "kMaskBursty11_5 = [0xc2, 0xc0, 0x61, 0x00, 0x30, 0xa0, 0x1c, 0x40, 0x85, 0x20]"

definition kMaskBursty11_6 :: "u8 list" where
  "kMaskBursty11_6 = [0x0e, 0x00, 0x82, 0x80, 0xc1, 0x40, 0x60, 0xa0, 0x30, 0x40, 0x18, 0x20]"

definition kMaskBursty11_7 :: "u8 list" where
  "kMaskBursty11_7 = [0x18, 0x00, 0x0c, 0x00, 0x07, 0x00, 0x81, 0x40, 0xc0, 0xa0, 0x60, 0x40,
     0x30, 0x20]"

definition kMaskBursty11_8 :: "u8 list" where
  "kMaskBursty11_8 = [0x30, 0x00, 0x18, 0x00, 0x0c, 0x00, 0x06, 0x00, 0x03, 0x40, 0x80, 0xa0,
     0xc0, 0x40, 0x60, 0x20]"

definition kMaskBursty11_9 :: "u8 list" where
  "kMaskBursty11_9 = [0x60, 0x00, 0x30, 0x00, 0x18, 0x00, 0x0c, 0x00, 0x06, 0x00, 0x03, 0x00,
     0x01, 0x80, 0x80, 0x40, 0xc0, 0x20]"

definition kMaskBursty11_10 :: "u8 list" where
  "kMaskBursty11_10 = [0xc0, 0x00, 0x60, 0x00, 0x30, 0x00, 0x18, 0x00, 0x0c, 0x00, 0x06, 0x00,
     0x03, 0x00, 0x01, 0x80, 0x00, 0xc0, 0x80, 0x20]"

definition kMaskBursty11_11 :: "u8 list" where
  "kMaskBursty11_11 = [0x80, 0x00, 0xc0, 0x00, 0x60, 0x00, 0x30, 0x00, 0x18, 0x00, 0x0c, 0x00,
     0x06, 0x00, 0x03, 0x00, 0x01, 0x80, 0x00, 0xc0, 0x00, 0x60]"

definition kMaskBursty12_1 :: "u8 list" where
  "kMaskBursty12_1 = [0xff, 0xf0]"

definition kMaskBursty12_2 :: "u8 list" where
  "kMaskBursty12_2 = [0xaa, 0xa0, 0xd5, 0x50]"

definition kMaskBursty12_3 :: "u8 list" where
  "kMaskBursty12_3 = [0x92, 0x40, 0xc9, 0x20, 0x74, 0x90]"

definition kMaskBursty12_4 :: "u8 list" where
  "kMaskBursty12_4 = [0x8a, 0x80, 0xc5, 0x40, 0x62, 0x20, 0x39, 0x10]"

definition kMaskBursty12_5 :: "u8 list" where
  "kMaskBursty12_5 = [0x61, 0x00, 0x30, 0xa0, 0x1c, 0x50, 0x85, 0x20, 0xc2, 0x90]"

definition kMaskBursty12_6 :: "u8 list" where
  "kMaskBursty12_6 = [0x82, 0x90, 0xc1, 0x40, 0x60, 0xa0, 0x30, 0x50, 0x18, 0x20, 0x0c, 0x10]"

definition kMaskBursty12_7 :: "u8 list" where
  "kMaskBursty12_7 = [0x0c, 0x00, 0x07, 0x00, 0x81, 0x40, 0xc0, 0xa0, 0x60, 0x50, 0x30, 0x20,
     0x18, 0x10]"

definition kMaskBursty12_8 :: "u8 list" where
  "kMaskBursty12_8 = [0x18, 0x00, 0x0c, 0x00, 0x06, 0x00, 0x03, 0x00, 0x80, 0xa0, 0xc0, 0x50,
     0x60, 0x20, 0x30, 0x10]"

definition kMaskBursty12_9 :: "u8 list" where
  "kMaskBursty12_9 = [0x30, 0x00, 0x18, 0x00, 0x0c, 0x00, 0x06, 0x00, 0x03, 0x00, 0x01, 0x80,
     0x80, 0x50, 0xc0, 0x20, 0x60, 0x10]"

definition kMaskBursty12_10 :: "u8 list" where
  "kMaskBursty12_10 = [0x60, 0x00, 0x30, 0x00, 0x18, 0x00, 0x0c, 0x00, 0x06, 0x00, 0x03, 0x00,
     0x01, 0x80, 0x00, 0xc0, 0x80, 0x20, 0xc0, 0x10]"

definition kMaskBursty12_11 :: "u8 list" where
  "kMaskBursty12_11 = [0xc0, 0x00, 0x60, 0x00, 0x30, 0x00, 0x18, 0x00, 0x0c, 0x00, 0x06, 0x00,
     0x03, 0x00, 0x01, 0x80, 0x00, 0xc0, 0x00, 0x60, 0x80, 0x10]"

definition kMaskBursty12_12 :: "u8 list" where
  "kMaskBursty12_12 = [0x80, 0x00, 0xc0, 0x00, 0x60, 0x00, 0x30, 0x00, 0x18, 0x00, 0x0c, 0x00,
     0x06, 0x00, 0x03, 0x00, 0x01, 0x80, 0x00, 0xc0, 0x00, 0x60, 0x00, 0x30]"

definition kPacketMaskBursty1 :: "u8 list" where
  "kPacketMaskBursty1 = 1 # kMaskBursty1_1"

definition kPacketMaskBursty2 :: "u8 list" where
  "kPacketMaskBursty2 = 2 # kMaskBursty2_1 @ kMaskBursty2_2"

definition kPacketMaskBursty3 :: "u8 list" where
  "kPacketMaskBursty3 = 3 # kMaskBursty3_1 @ kMaskBursty3_2 @ kMaskBursty3_3"

definition kPacketMaskBursty4 :: "u8 list" where
  "kPacketMaskBursty4 = 4 # kMaskBursty4_1 @ kMaskBursty4_2 @ kMaskBursty4_3 @ kMaskBursty4_4"

definition kPacketMaskBursty5 :: "u8 list" where
  "kPacketMaskBursty5 = 5 # kMaskBursty5_1 @ kMaskBursty5_2 @ kMaskBursty5_3 @ kMaskBursty5_4 @
     kMaskBursty5_5"

definition kPacketMaskBursty6 :: "u8 list" where
  "kPacketMaskBursty6 = 6 # kMaskBursty6_1 @ kMaskBursty6_2 @ kMaskBursty6_3 @ kMaskBursty6_4 @
     kMaskBursty6_5 @ kMaskBursty6_6"

definition kPacketMaskBursty7 :: "u8 list" where
  "kPacketMaskBursty7 = 7 # kMaskBursty7_1 @ kMaskBursty7_2 @ kMaskBursty7_3 @ kMaskBursty7_4 @
     kMaskBursty7_5 @ kMaskBursty7_6 @ kMaskBursty7_7"

definition kPacketMaskBursty8 :: "u8 list" where
  "kPacketMaskBursty8 = 8 # kMaskBursty8_1 @ kMaskBursty8_2 @ kMaskBursty8_3 @ kMaskBursty8_4 @
     kMaskBursty8_5 @ kMaskBursty8_6 @ kMaskBursty8_7 @ kMaskBursty8_8"

definition kPacketMaskBursty9 :: "u8 list" where
  "kPacketMaskBursty9 = 9 # kMaskBursty9_1 @ kMaskBursty9_2 @ kMaskBursty9_3 @ kMaskBursty9_4 @
     kMaskBursty9_5 @ kMaskBursty9_6 @ kMaskBursty9_7 @ kMaskBursty9_8 @
     kMaskBursty9_9"

definition kPacketMaskBursty10 :: "u8 list" where
  "kPacketMaskBursty10 = 10 # kMaskBursty10_1 @ kMaskBursty10_2 @ kMaskBursty10_3 @ kMaskBursty10_4 @
     kMaskBursty10_5 @ kMaskBursty10_6 @ kMaskBursty10_7 @ kMaskBursty10_8 @
     kMaskBursty10_9 @ kMaskBursty10_10"

definition kPacketMaskBursty11 :: "u8 list" where
  "kPacketMaskBursty11 = 11 # kMaskBursty11_1 @ kMaskBursty11_2 @ kMaskBursty11_3 @ kMaskBursty11_4 @
     kMaskBursty11_5 @ kMaskBursty11_6 @ kMaskBursty11_7 @ kMaskBursty11_8 @
     kMaskBursty11_9 @ kMaskBursty11_10 @ kMaskBursty11_11"

definition kPacketMaskBursty12 :: "u8 list" where
  "kPacketMaskBursty12 = 12 # kMaskBursty12_1 @ kMaskBursty12_2 @ kMaskBursty12_3 @ kMaskBursty12_4 @
     kMaskBursty12_5 @ kMaskBursty12_6 @ kMaskBursty12_7 @ kMaskBursty12_8 @
     kMaskBursty12_9 @ kMaskBursty12_10 @ kMaskBursty12_11 @ kMaskBursty12_12"

definition kPacketMaskBurstyTbl :: "u8 list" where
  "kPacketMaskBurstyTbl = 12 # kPacketMaskBursty1 @ kPacketMaskBursty2 @ kPacketMaskBursty3 @ kPacketMaskBursty4 @
     kPacketMaskBursty5 @ kPacketMaskBursty6 @ kPacketMaskBursty7 @ kPacketMaskBursty8 @
     kPacketMaskBursty9 @ kPacketMaskBursty10 @ kPacketMaskBursty11 @ kPacketMaskBursty12"

text \<open>The masks as the macros name them: row \<open>M - 1\<close>, entry \<open>N - 1\<close>.\<close>

definition bursty_masks :: "u8 list list list" where
  "bursty_masks = [[kMaskBursty1_1],
     [kMaskBursty2_1, kMaskBursty2_2],
     [kMaskBursty3_1, kMaskBursty3_2, kMaskBursty3_3],
     [kMaskBursty4_1, kMaskBursty4_2, kMaskBursty4_3, kMaskBursty4_4],
     [kMaskBursty5_1, kMaskBursty5_2, kMaskBursty5_3, kMaskBursty5_4, kMaskBursty5_5],
     [kMaskBursty6_1, kMaskBursty6_2, kMaskBursty6_3, kMaskBursty6_4, kMaskBursty6_5, kMaskBursty6_6],
     [kMaskBursty7_1, kMaskBursty7_2, kMaskBursty7_3, kMaskBursty7_4, kMaskBursty7_5, kMaskBursty7_6, kMaskBursty7_7],
     [kMaskBursty8_1, kMaskBursty8_2, kMaskBursty8_3, kMaskBursty8_4, kMaskBursty8_5, kMaskBursty8_6, kMaskBursty8_7, kMaskBursty8_8],
     [kMaskBursty9_1, kMaskBursty9_2, kMaskBursty9_3, kMaskBursty9_4, kMaskBursty9_5, kMaskBursty9_6, kMaskBursty9_7, kMaskBursty9_8, kMaskBursty9_9],
     [kMaskBursty10_1, kMaskBursty10_2, kMaskBursty10_3, kMaskBursty10_4, kMaskBursty10_5, kMaskBursty10_6, kMaskBursty10_7, kMaskBursty10_8, kMaskBursty10_9, kMaskBursty10_10],
     [kMaskBursty11_1, kMaskBursty11_2, kMaskBursty11_3, kMaskBursty11_4, kMaskBursty11_5, kMaskBursty11_6, kMaskBursty11_7, kMaskBursty11_8, kMaskBursty11_9, kMaskBursty11_10, kMaskBursty11_11],
     [kMaskBursty12_1, kMaskBursty12_2, kMaskBursty12_3, kMaskBursty12_4, kMaskBursty12_5, kMaskBursty12_6, kMaskBursty12_7, kMaskBursty12_8, kMaskBursty12_9, kMaskBursty12_10, kMaskBursty12_11, kMaskBursty12_12]]"

lemmas bursty_mask_defs = kMaskBursty1_1_def kMaskBursty2_1_def kMaskBursty2_2_def kMaskBursty3_1_def kMaskBursty3_2_def
  kMaskBursty3_3_def kMaskBursty4_1_def kMaskBursty4_2_def kMaskBursty4_3_def kMaskBursty4_4_def
  kMaskBursty5_1_def kMaskBursty5_2_def kMaskBursty5_3_def kMaskBursty5_4_def kMaskBursty5_5_def
  kMaskBursty6_1_def kMaskBursty6_2_def kMaskBursty6_3_def kMaskBursty6_4_def kMaskBursty6_5_def
  kMaskBursty6_6_def kMaskBursty7_1_def kMaskBursty7_2_def kMaskBursty7_3_def kMaskBursty7_4_def
  kMaskBursty7_5_def kMaskBursty7_6_def kMaskBursty7_7_def kMaskBursty8_1_def kMaskBursty8_2_def
  kMaskBursty8_3_def kMaskBursty8_4_def kMaskBursty8_5_def kMaskBursty8_6_def kMaskBursty8_7_def
  kMaskBursty8_8_def kMaskBursty9_1_def kMaskBursty9_2_def kMaskBursty9_3_def kMaskBursty9_4_def
  kMaskBursty9_5_def kMaskBursty9_6_def kMaskBursty9_7_def kMaskBursty9_8_def kMaskBursty9_9_def
  kMaskBursty10_1_def kMaskBursty10_2_def kMaskBursty10_3_def kMaskBursty10_4_def kMaskBursty10_5_def
  kMaskBursty10_6_def kMaskBursty10_7_def kMaskBursty10_8_def kMaskBursty10_9_def kMaskBursty10_10_def
  kMaskBursty11_1_def kMaskBursty11_2_def kMaskBursty11_3_def kMaskBursty11_4_def kMaskBursty11_5_def
  kMaskBursty11_6_def kMaskBursty11_7_def kMaskBursty11_8_def kMaskBursty11_9_def kMaskBursty11_10_def
  kMaskBursty11_11_def kMaskBursty12_1_def kMaskBursty12_2_def kMaskBursty12_3_def kMaskBursty12_4_def
  kMaskBursty12_5_def kMaskBursty12_6_def kMaskBursty12_7_def kMaskBursty12_8_def kMaskBursty12_9_def
  kMaskBursty12_10_def kMaskBursty12_11_def kMaskBursty12_12_def

lemmas bursty_table_defs = kPacketMaskBursty1_def kPacketMaskBursty2_def kPacketMaskBursty3_def kPacketMaskBursty4_def
  kPacketMaskBursty5_def kPacketMaskBursty6_def kPacketMaskBursty7_def kPacketMaskBursty8_def
  kPacketMaskBursty9_def kPacketMaskBursty10_def kPacketMaskBursty11_def kPacketMaskBursty12_def
  kPacketMaskBurstyTbl_def

end
