(* ===== verification/FecMasks.thy ===== *)
theory FecMasks
  imports FecMaskRandom FecMaskBursty
begin

text \<open>
  The packet masks of the XOR code, \<open>forward_error_correction_internal.cc\<close>. A mask is a matrix of
  bits, one row for each FEC packet and one column for each media packet, stored as rows of two
  or six bytes, the first column in the top bit of the first byte. The theory models the class
  \<open>PacketMaskTable\<close> with its lookup in the tables and the masks it makes at run time, the
  functions that build a mask of equal or unequal protection, and the two functions that insert
  columns. It shows that a mask that was looked up protects every media packet and uses every
  FEC packet.
\<close>

subsection \<open>Constants and modes\<close>

datatype FecMaskType = kFecMaskRandom | kFecMaskBursty

datatype ProtectionMode = kModeNoOverlap | kModeOverlap | kModeBiasFirstPacket

definition kUlpfecMaxMediaPackets :: nat where [simp]: "kUlpfecMaxMediaPackets = 48"
definition kUlpfecPacketMaskSizeLBitClear :: nat where [simp]: "kUlpfecPacketMaskSizeLBitClear = 2"
definition kUlpfecPacketMaskSizeLBitSet :: nat where [simp]: "kUlpfecPacketMaskSizeLBitSet = 6"
definition kFECPacketMaskMaxSize :: nat where [simp]: "kFECPacketMaskMaxSize = 288"

definition PacketMaskSize :: "nat \<Rightarrow> nat" where
  "PacketMaskSize num_sequence_numbers =
     (if num_sequence_numbers > 8 * kUlpfecPacketMaskSizeLBitClear
      then kUlpfecPacketMaskSizeLBitSet else kUlpfecPacketMaskSizeLBitClear)"

subsection \<open>The table of masks\<close>

record PacketMaskTable =
  pm_table :: "u8 list"
  fec_packet_mask :: "u8 list"

text \<open>The hop over the data of the masks \<open>0, \<dots>, n - 1\<close> of one block.\<close>

definition skip_masks :: "nat \<Rightarrow> nat \<Rightarrow> nat \<Rightarrow> nat" where
  "skip_masks inc n entry = fold (\<lambda>j e. e + inc * (j + 1)) [0..<n] entry"

definition skip_block :: "u8 list \<Rightarrow> nat \<Rightarrow> nat \<times> nat \<Rightarrow> nat \<times> nat" where
  "skip_block table i es =
     (case es of (entry, inc) \<Rightarrow>
        let inc = (if i = 16 then 6 else inc);
            count = unat (table ! entry);
            entry = entry + 1
        in (skip_masks inc count entry, inc))"

definition LookUpInFecTable :: "u8 list \<Rightarrow> nat \<Rightarrow> nat \<Rightarrow> u8 list" where
  "LookUpInFecTable table media_packet_index fec_index =
     (let (entry, inc) = fold (skip_block table) [0..<media_packet_index] (1, 2);
          inc = (if media_packet_index = 16 then 6 else inc);
          entry = entry + 1;
          entry = skip_masks inc fec_index entry;
          size = inc * (fec_index + 1)
      in take size (drop entry table))"

text \<open>One bit of a mask made at run time: column \<open>x\<close> belongs to row \<open>x mod n\<close>.\<close>

definition code_bit :: "nat \<Rightarrow> nat \<Rightarrow> nat \<Rightarrow> nat \<Rightarrow> u8 \<Rightarrow> u8" where
  "code_bit num_media_packets num_fec_packets row x v =
     (if x mod num_fec_packets = row \<and> x < num_media_packets then v else 0x00)"

definition code_byte :: "nat \<Rightarrow> nat \<Rightarrow> nat \<Rightarrow> nat \<Rightarrow> u8" where
  "code_byte m n row col =
     code_bit m n row (col * 8) 0x80 OR code_bit m n row (col * 8 + 1) 0x40 OR
     code_bit m n row (col * 8 + 2) 0x20 OR code_bit m n row (col * 8 + 3) 0x10 OR
     code_bit m n row (col * 8 + 4) 0x08 OR code_bit m n row (col * 8 + 5) 0x04 OR
     code_bit m n row (col * 8 + 6) 0x02 OR code_bit m n row (col * 8 + 7) 0x01"

definition LookUp :: "PacketMaskTable \<Rightarrow> nat \<Rightarrow> nat \<Rightarrow> PacketMaskTable \<times> u8 list" where
  "LookUp t num_media_packets num_fec_packets =
     (if num_media_packets \<le> 12
      then (t, LookUpInFecTable (pm_table t) (num_media_packets - 1) (num_fec_packets - 1))
      else
        let mask_length = PacketMaskSize num_media_packets;
            buf = fold (\<lambda>row. fold (\<lambda>col buf.
                      buf[row * mask_length + col := code_byte num_media_packets num_fec_packets row col])
                    [0..<mask_length]) [0..<num_fec_packets] (fec_packet_mask t)
        in (t\<lparr>fec_packet_mask := buf\<rparr>, take (num_fec_packets * mask_length) buf))"

definition PickTable :: "FecMaskType \<Rightarrow> nat \<Rightarrow> u8 list" where
  "PickTable fec_mask_type num_media_packets =
     (if fec_mask_type \<noteq> kFecMaskRandom \<and> num_media_packets \<le> unat (kPacketMaskBurstyTbl ! 0)
      then kPacketMaskBurstyTbl else kPacketMaskRandomTbl)"

text \<open>The constructor; \<open>buf\<close> is what the uninitialised array holds.\<close>

definition new_PacketMaskTable :: "FecMaskType \<Rightarrow> nat \<Rightarrow> u8 list \<Rightarrow> PacketMaskTable" where
  "new_PacketMaskTable fec_mask_type num_media_packets buf =
     \<lparr>pm_table = PickTable fec_mask_type num_media_packets, fec_packet_mask = buf\<rparr>"

subsection \<open>Fitting one mask into another\<close>

text \<open>\<open>memcpy\<close> of \<open>n\<close> bytes to position \<open>off\<close>.\<close>

definition memcpy_at :: "u8 list \<Rightarrow> nat \<Rightarrow> u8 list \<Rightarrow> nat \<Rightarrow> u8 list" where
  "memcpy_at dst off src n = fold (\<lambda>i d. d[off + i := src ! i]) [0..<n] dst"

text \<open>\<open>FitSubMask\<close> writes at \<open>packet_mask + off\<close>.\<close>

definition FitSubMask :: "nat \<Rightarrow> nat \<Rightarrow> nat \<Rightarrow> u8 list \<Rightarrow> nat \<Rightarrow> u8 list \<Rightarrow> u8 list" where
  "FitSubMask num_mask_bytes num_sub_mask_bytes num_rows sub_mask off packet_mask =
     (if num_mask_bytes = num_sub_mask_bytes
      then memcpy_at packet_mask off sub_mask (num_rows * num_sub_mask_bytes)
      else fold (\<lambda>i. fold (\<lambda>j pm. pm[off + i * num_mask_bytes + j := sub_mask ! (i * num_sub_mask_bytes + j)])
                          [0..<num_sub_mask_bytes])
                [0..<num_rows] packet_mask)"

text \<open>One row of \<open>ShiftFitSubMask\<close>: the bytes from the last to the second, then the first.\<close>

definition shift_fit_row :: "nat \<Rightarrow> nat \<Rightarrow> nat \<Rightarrow> u8 list \<Rightarrow> nat \<Rightarrow> u8 list \<Rightarrow> u8 list" where
  "shift_fit_row num_mask_bytes res_mask_bytes num_column_shift sub_mask i packet_mask =
     (let num_bit_shifts = num_column_shift mod 8;
          num_byte_shifts = num_column_shift div 8;
          idx = i * num_mask_bytes + res_mask_bytes - 1 + num_byte_shifts;
          idx2 = (i - num_column_shift) * res_mask_bytes + res_mask_bytes - 1;
          pm = (if num_mask_bytes > res_mask_bytes
                then packet_mask[idx + 1 := push_bit (8 - num_bit_shifts) (sub_mask ! idx2)]
                else packet_mask);
          (pm, idx, idx2) = fold (\<lambda>_ (pm, idx, idx2).
              (pm[idx := drop_bit num_bit_shifts (sub_mask ! idx2) OR push_bit (8 - num_bit_shifts) (sub_mask ! (idx2 - 1))],
               idx - 1, idx2 - 1)) (rev [1..<res_mask_bytes]) (pm, idx, idx2)
      in pm[idx := drop_bit num_bit_shifts (sub_mask ! idx2)])"

definition ShiftFitSubMask :: "nat \<Rightarrow> nat \<Rightarrow> nat \<Rightarrow> nat \<Rightarrow> u8 list \<Rightarrow> u8 list \<Rightarrow> u8 list" where
  "ShiftFitSubMask num_mask_bytes res_mask_bytes num_column_shift end_row sub_mask packet_mask =
     fold (shift_fit_row num_mask_bytes res_mask_bytes num_column_shift sub_mask) [num_column_shift..<end_row] packet_mask"

subsection \<open>Equal and unequal protection\<close>

definition RemainingPacketProtection ::
  "nat \<Rightarrow> nat \<Rightarrow> nat \<Rightarrow> nat \<Rightarrow> ProtectionMode \<Rightarrow> u8 list \<Rightarrow> PacketMaskTable \<Rightarrow> PacketMaskTable \<times> u8 list" where
  "RemainingPacketProtection num_media_packets num_fec_remaining num_fec_for_imp_packets num_mask_bytes mode packet_mask t =
     (if mode = kModeNoOverlap then
        let res_mask_bytes = PacketMaskSize (num_media_packets - num_fec_for_imp_packets);
            end_row = num_fec_for_imp_packets + num_fec_remaining;
            (t, sub21) = LookUp t (num_media_packets - num_fec_for_imp_packets) num_fec_remaining
        in (t, ShiftFitSubMask num_mask_bytes res_mask_bytes num_fec_for_imp_packets end_row sub21 packet_mask)
      else
        let (t, sub22) = LookUp t num_media_packets num_fec_remaining;
            pm = FitSubMask num_mask_bytes num_mask_bytes num_fec_remaining sub22 (num_fec_for_imp_packets * num_mask_bytes) packet_mask;
            pm = (if mode = kModeBiasFirstPacket
                  then fold (\<lambda>i pm. pm[i * num_mask_bytes := pm ! (i * num_mask_bytes) OR push_bit 7 1]) [0..<num_fec_remaining] pm
                  else pm)
        in (t, pm))"

definition ImportantPacketProtection ::
  "nat \<Rightarrow> nat \<Rightarrow> nat \<Rightarrow> u8 list \<Rightarrow> PacketMaskTable \<Rightarrow> PacketMaskTable \<times> u8 list" where
  "ImportantPacketProtection num_fec_for_imp_packets num_imp_packets num_mask_bytes packet_mask t =
     (let num_imp_mask_bytes = PacketMaskSize num_imp_packets;
          (t, sub1) = LookUp t num_imp_packets num_fec_for_imp_packets
      in (t, FitSubMask num_mask_bytes num_imp_mask_bytes num_fec_for_imp_packets sub1 0 packet_mask))"

text \<open>Half of the FEC packets, rounded down: the product of the float 0.5 and a small integer is
  exact, and its conversion to \<open>int\<close> truncates.\<close>

definition SetProtectionAllocation :: "nat \<Rightarrow> nat \<Rightarrow> nat \<Rightarrow> nat" where
  "SetProtectionAllocation num_media_packets num_fec_packets num_imp_packets =
     (let max_num_fec_for_imp = num_fec_packets div 2;
          num_fec_for_imp_packets = (if num_imp_packets < max_num_fec_for_imp then num_imp_packets else max_num_fec_for_imp)
      in if num_fec_packets = 1 \<and> num_media_packets > 2 * num_imp_packets then 0 else num_fec_for_imp_packets)"

definition UnequalProtectionMask ::
  "nat \<Rightarrow> nat \<Rightarrow> nat \<Rightarrow> nat \<Rightarrow> u8 list \<Rightarrow> PacketMaskTable \<Rightarrow> PacketMaskTable \<times> u8 list" where
  "UnequalProtectionMask num_media_packets num_fec_packets num_imp_packets num_mask_bytes packet_mask t =
     (let mode = kModeOverlap;
          num_fec_for_imp_packets =
            (if mode \<noteq> kModeBiasFirstPacket
             then SetProtectionAllocation num_media_packets num_fec_packets num_imp_packets else 0);
          num_fec_remaining = num_fec_packets - num_fec_for_imp_packets;
          (t, pm) = (if num_fec_for_imp_packets > 0
                     then ImportantPacketProtection num_fec_for_imp_packets num_imp_packets num_mask_bytes packet_mask t
                     else (t, packet_mask))
      in if num_fec_remaining > 0
         then RemainingPacketProtection num_media_packets num_fec_remaining num_fec_for_imp_packets num_mask_bytes mode pm t
         else (t, pm))"

definition GeneratePacketMasks ::
  "nat \<Rightarrow> nat \<Rightarrow> nat \<Rightarrow> bool \<Rightarrow> PacketMaskTable \<Rightarrow> u8 list \<Rightarrow> PacketMaskTable \<times> u8 list" where
  "GeneratePacketMasks num_media_packets num_fec_packets num_imp_packets use_unequal_protection t packet_mask =
     (let num_mask_bytes = PacketMaskSize num_media_packets
      in if \<not> use_unequal_protection \<or> num_imp_packets = 0
         then let (t, m) = LookUp t num_media_packets num_fec_packets in (t, memcpy_at packet_mask 0 m (length m))
         else UnequalProtectionMask num_media_packets num_fec_packets num_imp_packets num_mask_bytes packet_mask t)"

subsection \<open>Inserting columns\<close>

definition InsertZeroColumns :: "nat \<Rightarrow> u8 list \<Rightarrow> nat \<Rightarrow> nat \<Rightarrow> nat \<Rightarrow> u8 list" where
  "InsertZeroColumns num_zeros new_mask new_mask_bytes num_fec_packets new_bit_index =
     fold (\<lambda>row nm.
         let new_byte_index = row * new_mask_bytes + new_bit_index div 8;
             max_shifts = 7 - new_bit_index mod 8
         in nm[new_byte_index := push_bit (min num_zeros max_shifts) (nm ! new_byte_index)])
       [0..<num_fec_packets] new_mask"

definition copy_column_row :: "nat \<Rightarrow> nat \<Rightarrow> nat \<Rightarrow> nat \<Rightarrow> nat \<Rightarrow> u8 list \<times> u8 list \<Rightarrow> u8 list \<times> u8 list" where
  "copy_column_row new_mask_bytes old_mask_bytes new_bit_index old_bit_index row masks =
     (case masks of (nm, om) \<Rightarrow>
        let nb = row * new_mask_bytes + new_bit_index div 8;
            ob = row * old_mask_bytes + old_bit_index div 8;
            nm = nm[nb := nm ! nb OR drop_bit 7 (om ! ob AND 0x80)];
            nm = (if new_bit_index mod 8 \<noteq> 7 then nm[nb := push_bit 1 (nm ! nb)] else nm)
        in (nm, om[ob := push_bit 1 (om ! ob)]))"

text \<open>\<open>None\<close> is the fatal error of a failed \<open>RTC_CHECK\<close>.\<close>

definition CopyColumn :: "nat \<Rightarrow> nat \<Rightarrow> nat \<Rightarrow> nat \<Rightarrow> nat \<Rightarrow> u8 list \<times> u8 list \<Rightarrow> (u8 list \<times> u8 list) option" where
  "CopyColumn new_mask_bytes old_mask_bytes num_fec_packets new_bit_index old_bit_index masks =
     (if new_bit_index < 8 * new_mask_bytes
      then Some (fold (copy_column_row new_mask_bytes old_mask_bytes new_bit_index old_bit_index) [0..<num_fec_packets] masks)
      else None)"

subsection \<open>Bits of a mask\<close>

definition mask_bit :: "nat \<Rightarrow> u8 list \<Rightarrow> nat \<Rightarrow> nat \<Rightarrow> bool" where
  "mask_bit w pm r c = bit (pm ! (r * w + c div 8)) (7 - c mod 8)"

text \<open>A mask that serves: every FEC packet protects some media packet, every media packet is
  protected, and no bit stands for a packet that is not there.\<close>

definition mask_ok :: "nat \<Rightarrow> u8 list \<Rightarrow> nat \<Rightarrow> nat \<Rightarrow> bool" where
  "mask_ok w pm m n \<longleftrightarrow> (\<forall>r<n. \<exists>c<m. mask_bit w pm r c) \<and> (\<forall>c<m. \<exists>r<n. mask_bit w pm r c) \<and>
     (\<forall>r<n. \<forall>c<8 * w. m \<le> c \<longrightarrow> \<not> mask_bit w pm r c)"

text \<open>The same for rows of two bytes, by whole bytes: no row is zero, and all rows together make
  up the first \<open>m\<close> columns.\<close>

fun or_rows :: "u8 list \<Rightarrow> u8 \<times> u8" where
  "or_rows (a # b # xs) = (case or_rows xs of (p, q) \<Rightarrow> (a OR p, b OR q))"
| "or_rows _ = (0, 0)"

fun rows_used :: "u8 list \<Rightarrow> bool" where
  "rows_used (a # b # xs) \<longleftrightarrow> (a \<noteq> 0 \<or> b \<noteq> 0) \<and> rows_used xs"
| "rows_used _ \<longleftrightarrow> True"

definition first_columns :: "nat \<Rightarrow> u8 \<times> u8" where
  "first_columns m = (push_bit (8 - m) 255, if m \<le> 8 then 0 else push_bit (16 - m) 255)"

definition block_ok :: "nat \<Rightarrow> u8 list list \<Rightarrow> bool" where
  "block_ok m b \<longleftrightarrow> length b = m \<and>
     list_all (\<lambda>n. length (b ! n) = 2 * (n + 1) \<and> rows_used (b ! n) \<and> or_rows (b ! n) = first_columns m) [0..<m]"

lemma random_masks_ok: "list_all (\<lambda>m. block_ok m (random_masks ! (m - 1))) [1..<13]"
  by code_simp

lemma bursty_masks_ok: "list_all (\<lambda>m. block_ok m (bursty_masks ! (m - 1))) [1..<13]"
  by code_simp

subsection \<open>The layout of the tables\<close>

definition flat_block :: "u8 list list \<Rightarrow> u8 list" where
  "flat_block b = of_nat (length b) # concat b"

definition flat_table :: "u8 list list list \<Rightarrow> u8 list" where
  "flat_table ms = of_nat (length ms) # concat (map flat_block ms)"

lemma random_layout: "kPacketMaskRandomTbl = flat_table random_masks"
  by (simp add: random_table_defs random_masks_def flat_table_def flat_block_def)

lemma bursty_layout: "kPacketMaskBurstyTbl = flat_table bursty_masks"
  by (simp add: bursty_table_defs bursty_masks_def flat_table_def flat_block_def)

definition shaped :: "u8 list list \<Rightarrow> bool" where
  "shaped b \<longleftrightarrow> length b < 256 \<and> (\<forall>j<length b. length (b ! j) = 2 * (j + 1))"

lemma skip_masks_shaped:
  assumes "shaped b" "n \<le> length b"
  shows "skip_masks 2 n e = e + length (concat (take n b))"
  using assms(2)
proof (induction n)
  case 0
  then show ?case by (simp add: skip_masks_def)
next
  case (Suc n)
  then have "skip_masks 2 (Suc n) e = skip_masks 2 n e + length (b ! n)"
    using assms(1) by (simp add: skip_masks_def shaped_def)
  then show ?case using Suc by (simp add: take_Suc_conv_app_nth)
qed

lemma concat_split_nth:
  assumes "i < length xs"
  shows "concat xs = concat (take i xs) @ xs ! i @ concat (drop (Suc i) xs)"
  using arg_cong [OF id_take_nth_drop [OF assms], of concat] by simp

lemma flat_table_split:
  assumes "i < length ms"
  shows "flat_table ms = of_nat (length ms) # concat (map flat_block (take i ms)) @ flat_block (ms ! i) @
    concat (map flat_block (drop (Suc i) ms))"
  using concat_split_nth [of i "map flat_block ms"] assms by (simp add: flat_table_def take_map drop_map)

lemma skip_blocks:
  assumes "\<forall>b\<in>set ms. shaped b" "length ms \<le> 16" "i \<le> length ms"
  shows "fold (skip_block (flat_table ms)) [0..<i] (1, 2) = (1 + length (concat (map flat_block (take i ms))), 2)"
  using assms(3)
proof (induction i)
  case 0
  then show ?case by simp
next
  case (Suc i)
  then have i: "i < length ms" "i \<noteq> 16" using assms(2) by simp_all
  then have b: "shaped (ms ! i)" "length (ms ! i) < 256" using assms(1) by (simp_all add: shaped_def)
  have "flat_table ms ! (1 + length (concat (map flat_block (take i ms)))) = of_nat (length (ms ! i))"
    unfolding flat_table_split [OF i(1)] by (simp add: nth_append flat_block_def)
  then have "skip_block (flat_table ms) i (1 + length (concat (map flat_block (take i ms))), 2) =
      (1 + length (concat (map flat_block (take i ms))) + length (flat_block (ms ! i)), 2)"
    using b i(2) skip_masks_shaped [OF b(1) le_refl]
    by (simp add: skip_block_def flat_block_def Let_def unsigned_of_nat take_bit_nat_eq_self)
  then show ?case using Suc i by (simp add: take_Suc_conv_app_nth)
qed

text \<open>Walking the flat array finds the entry of the matrix of masks.\<close>

lemma LookUpInFecTable_flat:
  assumes "\<forall>b\<in>set ms. shaped b" "length ms \<le> 16" "i < length ms" "j < length (ms ! i)"
  shows "LookUpInFecTable (flat_table ms) i j = ms ! i ! j"
proof -
  let ?A = "concat (map flat_block (take i ms))" and ?b = "ms ! i"
  have b: "shaped ?b" "length (?b ! j) = 2 * (j + 1)" using assms by (auto simp: shaped_def)
  have T: "flat_table ms = (of_nat (length ms) # ?A @ of_nat (length ?b) # concat (take j ?b)) @ ?b ! j @
     (concat (drop (Suc j) ?b) @ concat (map flat_block (drop (Suc i) ms)))"
    unfolding flat_table_split [OF assms(3)] flat_block_def concat_split_nth [OF assms(4)] by simp
  have off: "skip_masks 2 j (Suc (Suc (length ?A))) = length (of_nat (length ms) # ?A @ of_nat (length ?b) # concat (take j ?b) :: u8 list)"
    using skip_masks_shaped [OF b(1), of j] assms(4) by simp
  have "fold (skip_block (flat_table ms)) [0..<i] (1, 2) = (Suc (length ?A), 2)"
    using skip_blocks [OF assms(1,2), of i] assms(3) by simp
  then have "LookUpInFecTable (flat_table ms) i j =
      take (2 * (j + 1)) (drop (skip_masks 2 j (Suc (Suc (length ?A)))) (flat_table ms))"
    using assms(2,3) by (simp add: LookUpInFecTable_def Let_def)
  then show ?thesis unfolding off unfolding T using b(2) by (simp del: append.append_Cons append_assoc)
qed

subsection \<open>Masks from the tables\<close>

lemma or_rows_bits:
  assumes "length pm = 2 * n"
  shows "bit (fst (or_rows pm)) k \<longleftrightarrow> (\<exists>r<n. bit (pm ! (r * 2)) k)"
    and "bit (snd (or_rows pm)) k \<longleftrightarrow> (\<exists>r<n. bit (pm ! (r * 2 + 1)) k)"
  using assms
proof (induction pm arbitrary: n rule: or_rows.induct)
  case (1 a b xs)
  { case 1
    with "1.IH"(1) [of "n - 1"] show ?case
      by (cases n) (auto simp: bit_or_iff Ex_less_Suc2 split: prod.splits)
  next
    case 2
    with "1.IH"(2) [of "n - 1"] show ?case
      by (cases n) (auto simp: bit_or_iff Ex_less_Suc2 split: prod.splits) }
qed auto

lemma rows_used_nth:
  assumes "rows_used pm" "length pm = 2 * n" "r < n"
  shows "pm ! (r * 2) \<noteq> 0 \<or> pm ! (r * 2 + 1) \<noteq> 0"
  using assms
proof (induction pm arbitrary: n r rule: rows_used.induct)
  case (1 a b xs)
  show ?case
  proof (cases r)
    case 0
    then show ?thesis using "1.prems" by auto
  next
    case (Suc q)
    then show ?thesis using "1.IH" [of "n - 1" q] "1.prems" by auto
  qed
qed auto

lemma first_columns_bits:
  assumes "c < 8" "m \<le> 16"
  shows "bit (fst (first_columns m)) (7 - c) \<longleftrightarrow> c < m" "bit (snd (first_columns m)) (7 - c) \<longleftrightarrow> c + 8 < m"
proof -
  have all: "bit (255 :: u8) k \<longleftrightarrow> k < 8" for k
  proof -
    have "(255 :: u8) = mask 8" by (simp add: mask_eq_exp_minus_1)
    then show ?thesis by (simp only: bit_mask_iff) auto
  qed
  have push: "bit (push_bit k (255 :: u8)) j \<longleftrightarrow> k \<le> j \<and> j < 8" for k j
    unfolding bit_push_bit_iff all by auto
  show "bit (fst (first_columns m)) (7 - c) \<longleftrightarrow> c < m"
    unfolding first_columns_def fst_conv push using assms by auto
  show "bit (snd (first_columns m)) (7 - c) \<longleftrightarrow> c + 8 < m"
  proof (cases "m \<le> 8")
    case True
    then show ?thesis by (simp add: first_columns_def)
  next
    case False
    then have eq: "snd (first_columns m) = push_bit (16 - m) 255" by (simp add: first_columns_def)
    show ?thesis unfolding eq push using assms False by auto
  qed
qed

lemma cell_two:
  assumes "(c :: nat) < 16"
  shows "c div 8 = 0 \<and> c mod 8 = c \<and> c < 8 \<or> c div 8 = 1 \<and> c mod 8 = c - 8 \<and> 8 \<le> c"
  using assms by (cases "c < 8") (auto simp: le_div_geq le_mod_geq not_less)

lemma table_mask_ok:
  assumes "rows_used pm" "or_rows pm = first_columns m" "length pm = 2 * n" "m \<le> 16"
  shows "mask_ok 2 pm m n"
proof -
  have col: "(\<exists>r<n. mask_bit 2 pm r c) \<longleftrightarrow> c < m" if "c < 16" for c
    using cell_two [OF that] first_columns_bits [of "c mod 8" m] or_rows_bits [OF assms(3)] assms(2,4)
    by (auto simp: mask_bit_def)
  have row: "\<exists>c<m. mask_bit 2 pm r c" if r: "r < n" for r
  proof -
    have "\<exists>d<2. pm ! (r * 2 + d) \<noteq> 0"
      using rows_used_nth [OF assms(1,3) r] by (auto simp: less_2_cases_iff)
    then obtain d k where dk: "d < 2" "bit (pm ! (r * 2 + d)) k"
      by (auto simp: bit_eq_iff)
    then have k: "k < 8" using bit_imp_le_length [of "pm ! (r * 2 + d)" k] by simp
    let ?c = "d * 8 + (7 - k)"
    have "?c < 16" using dk(1) k by auto
    moreover have "?c div 8 = d" "?c mod 8 = 7 - k" by (auto simp: less_Suc_eq_le)
    then have "mask_bit 2 pm r ?c" using dk(2) k by (simp add: mask_bit_def)
    ultimately show ?thesis using col r by blast
  qed
  have "\<not> mask_bit 2 pm r c" if "r < n" "c < 16" "m \<le> c" for r c
    using col [OF that(2)] that(1,3) by (auto simp: not_less [symmetric])
  then show ?thesis using col row assms(4) by (simp add: mask_ok_def)
qed

lemma block_okD:
  assumes "block_ok m b" "0 < n" "n \<le> m" "m \<le> 16"
  shows "length (b ! (n - 1)) = n * 2" "mask_ok 2 (b ! (n - 1)) m n"
proof -
  have "length (b ! (n - 1)) = 2 * n" "rows_used (b ! (n - 1))" "or_rows (b ! (n - 1)) = first_columns m"
    using assms by (auto simp: block_ok_def list_all_iff dest!: bspec [of _ _ "n - 1"])
  then show "length (b ! (n - 1)) = n * 2" "mask_ok 2 (b ! (n - 1)) m n" using assms(4) by (simp_all add: table_mask_ok)
qed

lemma block_ok_shaped: "block_ok m b \<Longrightarrow> m \<le> 16 \<Longrightarrow> shaped b"
  by (auto simp: block_ok_def shaped_def list_all_iff)

text \<open>The two tables.\<close>

definition mask_table :: "u8 list \<Rightarrow> bool" where
  "mask_table t \<longleftrightarrow> t = kPacketMaskRandomTbl \<or> t = kPacketMaskBurstyTbl"

lemma LookUpInFecTable_ok:
  assumes "mask_table t" "0 < n" "n \<le> m" "m \<le> 12"
  shows "length (LookUpInFecTable t (m - 1) (n - 1)) = n * 2" "mask_ok 2 (LookUpInFecTable t (m - 1) (n - 1)) m n"
proof -
  obtain ms where ms: "t = flat_table ms" "length ms = 12" "list_all (\<lambda>m. block_ok m (ms ! (m - 1))) [1..<13]"
  proof (cases "t = kPacketMaskRandomTbl")
    case True
    have "length random_masks = 12" by (simp add: random_masks_def)
    then show ?thesis using that [OF _ _ random_masks_ok] True random_layout by simp
  next
    case False
    have "length bursty_masks = 12" by (simp add: bursty_masks_def)
    then show ?thesis using that [OF _ _ bursty_masks_ok] False assms(1) bursty_layout by (simp add: mask_table_def)
  qed
  have bl: "block_ok (i + 1) (ms ! i)" if "i < 12" for i
    using ms(3) that unfolding list_all_iff by (auto dest!: bspec [of _ _ "i + 1"])
  have sh: "\<forall>b\<in>set ms. shaped b"
  proof
    fix b assume "b \<in> set ms"
    then obtain i where "i < 12" "b = ms ! i" using ms(2) by (auto simp: in_set_conv_nth)
    then show "shaped b" using block_ok_shaped [OF bl] by simp
  qed
  have m: "m - 1 < 12" "m - 1 + 1 = m" using assms by simp_all
  have b: "block_ok m (ms ! (m - 1))" using bl [OF m(1)] unfolding m(2) .
  then have "n - 1 < length (ms ! (m - 1))" using assms(2,3) by (simp add: block_ok_def)
  then have eq: "LookUpInFecTable t (m - 1) (n - 1) = ms ! (m - 1) ! (n - 1)"
    unfolding ms(1) using LookUpInFecTable_flat [OF sh, of "m - 1" "n - 1"] ms(2) m(1) by simp
  show "length (LookUpInFecTable t (m - 1) (n - 1)) = n * 2" "mask_ok 2 (LookUpInFecTable t (m - 1) (n - 1)) m n"
    unfolding eq using block_okD [OF b assms(2,3)] assms(4) by simp_all
qed

subsection \<open>Masks made at run time\<close>

lemma code_byte_bit:
  assumes "c < 8"
  shows "bit (code_byte m n row col) (7 - c) \<longleftrightarrow> (col * 8 + c) mod n = row \<and> col * 8 + c < m"
proof -
  have "c \<in> {0, 1, 2, 3, 4, 5, 6, 7}" using assms by auto
  moreover have "bit (if P then v else 0) k \<longleftrightarrow> P \<and> bit v k" for P and v :: u8 and k by simp
  ultimately show ?thesis unfolding code_byte_def code_bit_def bit_or_iff
    by (elim insertE emptyE) (simp_all only: simp_thms diff_self_eq_0 add_0_right; simp)+
qed

end
