(* ===== verification/FecMaskGen.thy ===== *)
theory FecMaskGen
  imports FecMasks
begin

text \<open>
  What the mask generator promises. The interface of a source of masks is a locale: a lookup in a
  state that stays sound, whose answers have the right size and protect every packet. The class
  \<open>PacketMaskTable\<close> is such a source, and so the masks of equal and of unequal protection serve.
\<close>

lemma mask_ok_row: "mask_ok w pm m n \<Longrightarrow> r < n \<Longrightarrow> \<exists>c<m. mask_bit w pm r c"
  and mask_ok_column: "mask_ok w pm m n \<Longrightarrow> c < m \<Longrightarrow> \<exists>r<n. mask_bit w pm r c"
  and mask_ok_outside: "mask_ok w pm m n \<Longrightarrow> r < n \<Longrightarrow> c < 8 * w \<Longrightarrow> m \<le> c \<Longrightarrow> \<not> mask_bit w pm r c"
  by (simp_all add: mask_ok_def)

lemma mask_ok_cong:
  assumes "\<And>r c. r < n \<Longrightarrow> c < 8 * w \<Longrightarrow> mask_bit w pm r c \<longleftrightarrow> mask_bit w pm' r c" "m \<le> 8 * w"
  shows "mask_ok w pm m n \<longleftrightarrow> mask_ok w pm' m n"
proof -
  have "mask_bit w pm r c \<longleftrightarrow> mask_bit w pm' r c" if "r < n" "c < m" for r c using assms that by simp
  then show ?thesis using assms(1) unfolding mask_ok_def by (simp cong: conj_cong)
qed

subsection \<open>The interface of a source of masks\<close>

locale mask_source =
  fixes ok :: "'t \<Rightarrow> bool" and lookup :: "'t \<Rightarrow> nat \<Rightarrow> nat \<Rightarrow> 't \<times> u8 list"
  assumes lookup_keeps: "ok t \<Longrightarrow> 0 < n \<Longrightarrow> n \<le> m \<Longrightarrow> m \<le> 48 \<Longrightarrow> ok (fst (lookup t m n))"
    and lookup_size: "ok t \<Longrightarrow> 0 < n \<Longrightarrow> n \<le> m \<Longrightarrow> m \<le> 48 \<Longrightarrow> length (snd (lookup t m n)) = n * PacketMaskSize m"
    and lookup_protects: "ok t \<Longrightarrow> 0 < n \<Longrightarrow> n \<le> m \<Longrightarrow> m \<le> 48 \<Longrightarrow> mask_ok (PacketMaskSize m) (snd (lookup t m n)) m n"
begin

text \<open>Two answers stacked on each other, the upper one for the first \<open>i\<close> packets only, protect every
  packet, and the first \<open>i\<close> of them twice.\<close>

lemma stacked_protects:
  assumes "ok t" "0 < k" "k \<le> i" "i \<le> m" "0 < n" "n \<le> m" "m \<le> 48"
    and "lookup t i k = (t1, a)" "lookup t1 m n = (t2, b)"
    and upper: "\<And>r c. r < k \<Longrightarrow> c < 8 * w \<Longrightarrow> mask_bit w pm r c \<longleftrightarrow> c < 8 * PacketMaskSize i \<and> mask_bit (PacketMaskSize i) a r c"
    and lower: "\<And>r c. r < n \<Longrightarrow> c < 8 * w \<Longrightarrow> mask_bit w pm (k + r) c \<longleftrightarrow> mask_bit w b r c"
    and w: "w = PacketMaskSize m" "m \<le> 8 * w"
  shows "mask_ok w pm m (k + n)" "c < i \<Longrightarrow> (\<exists>r<k. mask_bit w pm r c) \<and> (\<exists>r\<ge>k. r < k + n \<and> mask_bit w pm r c)"
proof -
  have i48: "i \<le> 48" using assms by simp
  have "ok t1" using lookup_keeps [OF assms(1,2,3) i48] assms(8) by simp
  then have b: "mask_ok w b m n" using lookup_protects [OF _ assms(5,6,7), of t1] assms(9) w(1) by simp
  have a: "mask_ok (PacketMaskSize i) a i k" using lookup_protects [OF assms(1,2,3) i48] assms(8) by simp
  have i8: "i \<le> 8 * PacketMaskSize i" using i48 by (simp add: PacketMaskSize_def)
  have up: "mask_bit w pm r c \<longleftrightarrow> mask_bit (PacketMaskSize i) a r c" if "r < k" "c < i" for r c
    using upper [OF that(1), of c] that(2) i8 assms(4) w(2) by simp
  have lo: "mask_bit w pm (k + r) c \<longleftrightarrow> mask_bit w b r c" if "r < n" "c < m" for r c
    using lower [OF that(1), of c] that(2) w(2) by simp
  have row: "\<exists>c<m. mask_bit w pm r c" if "r < k + n" for r
  proof (cases "r < k")
    case True
    then obtain c where "c < i" "mask_bit (PacketMaskSize i) a r c" using mask_ok_row [OF a True] by blast
    then show ?thesis using up [OF True, of c] assms(4) by (intro exI [of _ c]) simp
  next
    case False
    then have "r - k < n" using that by simp
    then obtain c where "c < m" "mask_bit w b (r - k) c" using b by (auto simp: mask_ok_def)
    then show ?thesis using lo [of "r - k" c] False \<open>r - k < n\<close> by (intro exI [of _ c]) simp
  qed
  have low: "\<exists>r\<ge>k. r < k + n \<and> mask_bit w pm r c" if c: "c < m" for c
  proof -
    obtain r where "r < n" "mask_bit w b r c" using b c by (auto simp: mask_ok_def)
    then show ?thesis using lo [OF _ c] by (intro exI [of _ "k + r"]) simp
  qed
  have out: "\<not> mask_bit w pm r c" if "r < k + n" "c < 8 * w" "m \<le> c" for r c
  proof (cases "r < k")
    case True
    then show ?thesis using upper [OF True that(2)] a that(3) assms(4) by (auto simp: mask_ok_def)
  next
    case False
    then have "r - k < n" "k + (r - k) = r" using that by simp_all
    then show ?thesis using lower [of "r - k" c] b that by (auto simp: mask_ok_def)
  qed
  show "mask_ok w pm m (k + n)" using row low out unfolding mask_ok_def by blast
  show "(\<exists>r<k. mask_bit w pm r c) \<and> (\<exists>r\<ge>k. r < k + n \<and> mask_bit w pm r c)" if "c < i"
  proof
    obtain r where "r < k" "mask_bit (PacketMaskSize i) a r c" using mask_ok_column [OF a \<open>c < i\<close>] by blast
    then show "\<exists>r<k. mask_bit w pm r c" using up [OF _ that] by auto
    show "\<exists>r\<ge>k. r < k + n \<and> mask_bit w pm r c" using low that assms(4) by simp
  qed
qed

end

subsection \<open>\<open>PacketMaskTable\<close> provides it\<close>

definition table_ok :: "PacketMaskTable \<Rightarrow> bool" where
  "table_ok t \<longleftrightarrow> mask_table (pm_table t) \<and> length (fec_packet_mask t) = kFECPacketMaskMaxSize"

lemma new_table_ok: "length buf = 288 \<Longrightarrow> table_ok (new_PacketMaskTable ty m buf)"
  by (simp add: table_ok_def new_PacketMaskTable_def mask_table_def PickTable_def)

lemma PacketMaskSize_fits: "m \<le> 48 \<Longrightarrow> m \<le> 8 * PacketMaskSize m"
  by (simp add: PacketMaskSize_def)

lemma PacketMaskSize_bound: "n \<le> m \<Longrightarrow> m \<le> 48 \<Longrightarrow> n * PacketMaskSize m \<le> 288"
  by (simp add: PacketMaskSize_def)

lemma made_mask_ok:
  assumes "\<And>r c. r < n \<Longrightarrow> c < w \<Longrightarrow> pm ! (r * w + c) = code_byte m n r c" "0 < n" "n \<le> m" "m \<le> 8 * w"
  shows "mask_ok w pm m n"
proof -
  have b: "mask_bit w pm r c \<longleftrightarrow> c mod n = r \<and> c < m" if "r < n" "c < 8 * w" for r c
  proof -
    have "c div 8 < w" using that(2) by (simp add: less_mult_imp_div_less mult.commute)
    then have "mask_bit w pm r c \<longleftrightarrow> bit (code_byte m n r (c div 8)) (7 - c mod 8)"
      by (simp add: mask_bit_def assms(1) that(1))
    then show ?thesis using code_byte_bit [of "c mod 8" m n r "c div 8"] by simp
  qed
  have "\<exists>c<m. mask_bit w pm r c" if "r < n" for r
    using b [OF that, of r] that assms by (intro exI [of _ r]) simp
  moreover have "\<exists>r<n. mask_bit w pm r c" if "c < m" for c
    using b [of "c mod n" c] that assms by (intro exI [of _ "c mod n"]) simp
  ultimately show ?thesis using b by (auto simp: mask_ok_def)
qed

lemma LookUp_ok:
  assumes "table_ok t" "0 < n" "n \<le> m" "m \<le> 48"
  shows "table_ok (fst (LookUp t m n))" "length (snd (LookUp t m n)) = n * PacketMaskSize m"
    "mask_ok (PacketMaskSize m) (snd (LookUp t m n)) m n"
proof -
  let ?w = "PacketMaskSize m"
  let ?buf = "fold (\<lambda>row. fold (\<lambda>col buf. buf[row * ?w + col := code_byte m n row col]) [0..<?w]) [0..<n] (fec_packet_mask t)"
  have len: "length ?buf = length (fec_packet_mask t)"
    by (rule fold_keeps [where g = length]) (rule fold_store_length)
  have nw: "n * ?w \<le> length (fec_packet_mask t)" using PacketMaskSize_bound [OF assms(3,4)] assms(1) by (simp add: table_ok_def)
  have made: "take (n * ?w) ?buf ! (r * ?w + c) = code_byte m n r c" if "r < n" "c < ?w" for r c
    using fold_store_matrix_nth [OF that nw, where f = "code_byte m n"] cell_bound [OF that] by simp
  show "table_ok (fst (LookUp t m n))" using assms(1) len by (simp add: LookUp_def table_ok_def Let_def)
  have small: "?w = 2" if "m \<le> 12" using that by (simp add: PacketMaskSize_def)
  have T: "mask_table (pm_table t)" using assms(1) by (simp add: table_ok_def)
  show "length (snd (LookUp t m n)) = n * ?w"
    using LookUpInFecTable_ok(1) [OF T assms(2,3)] small nw len by (simp add: LookUp_def Let_def)
  show "mask_ok ?w (snd (LookUp t m n)) m n"
  proof (cases "m \<le> 12")
    case True
    then show ?thesis using LookUpInFecTable_ok(2) [OF T assms(2,3)] small by (simp add: LookUp_def)
  next
    case False
    have "mask_ok ?w (take (n * ?w) ?buf) m n"
      using made assms(2,3) PacketMaskSize_fits [OF assms(4)] by (intro made_mask_ok)
    then show ?thesis using False by (simp add: LookUp_def Let_def)
  qed
qed

interpretation tbl: mask_source table_ok LookUp
  by unfold_locales (rule LookUp_ok; assumption)+

subsection \<open>Copying masks\<close>

lemma memcpy_at_length [len_simps, simp]: "length (memcpy_at dst off src n) = length dst"
  by (simp add: memcpy_at_def)

lemma memcpy_at_nth:
  "j < length dst \<Longrightarrow> memcpy_at dst off src n ! j = (if off \<le> j \<and> j < off + n then src ! (j - off) else dst ! j)"
  unfolding memcpy_at_def by (rule fold_store_at)

text \<open>Row and column of a cell compare like its position.\<close>

lemma row_le: "c < w \<Longrightarrow> q * w \<le> r * w + c \<longleftrightarrow> q \<le> (r :: nat)"
proof
  assume "c < w" "q * w \<le> r * w + c"
  then have "q * w < Suc r * w" by simp
  then show "q \<le> r" by (simp only: mult_less_cancel2 less_Suc_eq_le)
next
  assume "q \<le> r"
  then show "q * w \<le> r * w + c" by (simp add: trans_le_add1)
qed

lemma row_less: "c < w \<Longrightarrow> r * w + c < q * w \<longleftrightarrow> r < (q :: nat)"
  using row_le [of c w q r] by (simp add: not_le [symmetric])

lemma FitSubMask_nth:
  assumes "r * w + c < length pm" "c < w" "sw \<le> w"
  shows "FitSubMask w sw n sub (q * w) pm ! (r * w + c) =
    (if q \<le> r \<and> r < q + n \<and> c < sw then sub ! ((r - q) * sw + c) else pm ! (r * w + c))"
proof (cases "w = sw")
  case True
  have "q * w \<le> r * w + c \<longleftrightarrow> q \<le> r" "r * w + c < q * w + n * w \<longleftrightarrow> r < q + n"
    using assms(2) by (simp_all add: row_le row_less add_mult_distrib [symmetric])
  moreover have "r * w + c - q * w = (r - q) * w + c" if "q \<le> r"
    using that by (simp add: diff_mult_distrib mult_le_mono1)
  ultimately show ?thesis using True assms by (simp add: FitSubMask_def memcpy_at_nth)
next
  case False
  let ?f = "\<lambda>n. fold (\<lambda>i. fold (\<lambda>j pm. pm[(q + i) * w + j := sub ! (i * sw + j)]) [0..<sw]) [0..<n] pm"
  have len: "length (?f n) = length pm" for n by (rule fold_keeps [where g = length]) (rule fold_store_length)
  have "?f n ! (r * w + c) = (if q \<le> r \<and> r < q + n \<and> c < sw then sub ! ((r - q) * sw + c) else pm ! (r * w + c))"
  proof (induction n)
    case 0
    then show ?case by auto
  next
    case (Suc n)
    have "(q + n) * w \<le> r * w + c \<and> r * w + c < (q + n) * w + sw \<longleftrightarrow> r = q + n \<and> c < sw"
      using row_le [OF assms(2), of "q + n" r] row_less [OF assms(2), of r "q + n + 1"] assms(3)
      by (auto simp: less_Suc_eq_le dest: le_antisym)
    moreover have "?f (Suc n) ! (r * w + c) = (if (q + n) * w \<le> r * w + c \<and> r * w + c < (q + n) * w + sw
        then sub ! (n * sw + (r * w + c - (q + n) * w)) else ?f n ! (r * w + c))"
      using fold_store_row_nth [of "r * w + c" "?f n" "q + n" w "\<lambda>j. sub ! (n * sw + j)" sw] len [of n] assms(1) by simp
    ultimately show ?case using Suc by auto
  qed
  then show ?thesis using False by (simp add: FitSubMask_def add_mult_distrib)
qed

lemma FitSubMask_length [len_simps, simp]: "length (FitSubMask w sw n sub off pm) = length pm"
proof -
  have "length (fold (\<lambda>i. fold (\<lambda>j pm. pm[off + i * w + j := sub ! (i * sw + j)]) [0..<sw]) [0..<n] pm) = length pm"
    by (rule fold_keeps [where g = length]) (rule fold_store_length)
  then show ?thesis by (simp add: FitSubMask_def)
qed

lemma FitSubMask_bit:
  assumes "R * w \<le> length pm" "r < R" "c < 8 * w" "sw \<le> w"
  shows "mask_bit w (FitSubMask w sw n sub (q * w) pm) r c \<longleftrightarrow>
    (if q \<le> r \<and> r < q + n \<and> c < 8 * sw then mask_bit sw sub (r - q) c else mask_bit w pm r c)"
proof -
  have c: "c div 8 < w" using assms(3) by (simp add: less_mult_imp_div_less mult.commute)
  then have "r * w + c div 8 < length pm" using cell_bound [OF assms(2) c] assms(1) by simp
  moreover have "c div 8 < sw \<longleftrightarrow> c < 8 * sw" by (simp add: div_less_iff_less_mult mult.commute)
  ultimately show ?thesis using FitSubMask_nth [of r w "c div 8" pm sw n sub q] c assms(4) by (simp add: mask_bit_def)
qed

subsection \<open>Generated masks\<close>

text \<open>The arguments the callers give: between one and all media packets' worth of FEC packets, at
  most 48 media packets, a mask array that is clear where the mask goes.\<close>

definition mask_request :: "nat \<Rightarrow> nat \<Rightarrow> nat \<Rightarrow> u8 list \<Rightarrow> bool" where
  "mask_request m n i pm \<longleftrightarrow> 0 < n \<and> n \<le> m \<and> m \<le> kUlpfecMaxMediaPackets \<and> i \<le> m \<and>
     n * PacketMaskSize m \<le> length pm \<and> (\<forall>j<n * PacketMaskSize m. pm ! j = 0)"

lemma clear_bit: "\<forall>j<n * w. pm ! j = 0 \<Longrightarrow> r < n \<Longrightarrow> c < 8 * w \<Longrightarrow> \<not> mask_bit w pm r c"
  using cell_bound [of r n "c div 8" w] by (simp add: mask_bit_def less_mult_imp_div_less mult.commute)

lemma equal_protection:
  assumes "mask_request m n i pm" "table_ok t" "LookUp t m n = (t', b)"
  shows "mask_ok (PacketMaskSize m) (memcpy_at pm 0 b (length b)) m n"
proof -
  have r: "0 < n" "n \<le> m" "m \<le> 48" "n * PacketMaskSize m \<le> length pm" using assms(1) by (auto simp: mask_request_def)
  note b = tbl.lookup_size [OF assms(2) r(1-3)] tbl.lookup_protects [OF assms(2) r(1-3)]
  let ?w = "PacketMaskSize m"
  have "mask_bit ?w (memcpy_at pm 0 b (length b)) r c \<longleftrightarrow> mask_bit ?w b r c" if "r < n" "c < 8 * ?w" for r c
    using cell_bound [OF that(1), of "c div 8" ?w] that(2) b(1) r(4) assms(3)
    by (simp add: mask_bit_def memcpy_at_nth less_mult_imp_div_less mult.commute)
  from mask_ok_cong [OF this PacketMaskSize_fits [OF r(3)]] show ?thesis using b(2) assms(3) by simp
qed

lemma allocation_bounds:
  assumes "SetProtectionAllocation m n i = k"
  shows "k \<le> i" "k \<le> n div 2"
  using assms by (auto simp: SetProtectionAllocation_def Let_def split: if_splits)

lemma unequal_protection_none:
  assumes "mask_request m n i pm" "table_ok t" "SetProtectionAllocation m n i = 0"
    and "UnequalProtectionMask m n i (PacketMaskSize m) pm t = (t', pm')"
  shows "mask_ok (PacketMaskSize m) pm' m n"
proof -
  have q: "0 < n" "n \<le> m" "m \<le> 48" using assms(1) by (auto simp: mask_request_def)
  obtain t1 b where b: "LookUp t m n = (t1, b)" by fastforce
  have "length b = n * PacketMaskSize m" using tbl.lookup_size [OF assms(2) q] b by simp
  then have "pm' = memcpy_at pm 0 b (length b)"
    using assms(3,4) q(1) b by (simp add: UnequalProtectionMask_def RemainingPacketProtection_def Let_def FitSubMask_def)
  then show ?thesis using equal_protection [OF assms(1,2) b] by simp
qed

lemma unequal_protection_split:
  assumes "mask_request m n i pm" "table_ok t" "SetProtectionAllocation m n i = k" "0 < k"
    and "UnequalProtectionMask m n i (PacketMaskSize m) pm t = (t', pm')"
  shows "mask_ok (PacketMaskSize m) pm' m n"
    and "c < i \<Longrightarrow> (\<exists>r<k. mask_bit (PacketMaskSize m) pm' r c) \<and> (\<exists>r\<ge>k. r < n \<and> mask_bit (PacketMaskSize m) pm' r c)"
proof -
  have q: "0 < n" "n \<le> m" "m \<le> 48" "i \<le> m" "n * PacketMaskSize m \<le> length pm" "\<forall>j<n * PacketMaskSize m. pm ! j = 0"
    using assms(1) by (auto simp: mask_request_def)
  note k = allocation_bounds [OF assms(3)]
  have rest: "0 < n - k" "n - k \<le> m" "k + (n - k) = n" "k < n" using k(2) q(1,2) by simp_all
  let ?w = "PacketMaskSize m" and ?wi = "PacketMaskSize i"
  have wi: "?wi \<le> ?w" using q(4) by (simp add: PacketMaskSize_def)
  obtain t1 a where a: "LookUp t i k = (t1, a)" by fastforce
  obtain t2 b where b: "LookUp t1 m (n - k) = (t2, b)" by fastforce
  let ?pm1 = "FitSubMask ?w ?wi k a (0 * ?w) pm"
  have pm': "pm' = FitSubMask ?w ?w (n - k) b (k * ?w) ?pm1"
    using assms(3-5) rest(1) a b
    by (simp add: UnequalProtectionMask_def ImportantPacketProtection_def RemainingPacketProtection_def Let_def)
  have upper: "mask_bit ?w pm' r c \<longleftrightarrow> c < 8 * ?wi \<and> mask_bit ?wi a r c" if "r < k" "c < 8 * ?w" for r c
  proof -
    have "mask_bit ?w pm' r c \<longleftrightarrow> mask_bit ?w ?pm1 r c"
      unfolding pm' using q(5) rest(4) that by (subst FitSubMask_bit [where R = n]) auto
    also have "\<dots> \<longleftrightarrow> (if c < 8 * ?wi then mask_bit ?wi a r c else mask_bit ?w pm r c)"
      using q(5) rest(4) that wi by (subst FitSubMask_bit [where R = n]) auto
    finally show ?thesis using clear_bit [OF q(6), of r c] that rest(4) by simp
  qed
  have lower: "mask_bit ?w pm' (k + r) c \<longleftrightarrow> mask_bit ?w b r c" if "r < n - k" "c < 8 * ?w" for r c
    unfolding pm' using q(5) that by (subst FitSubMask_bit [where R = n]) auto
  note st = tbl.stacked_protects [OF assms(2,4) k(1) q(4) rest(1,2) q(3) a b upper lower refl PacketMaskSize_fits [OF q(3)]]
  show "mask_ok ?w pm' m n" using st(1) rest(3) by simp
  show "(\<exists>r<k. mask_bit ?w pm' r c) \<and> (\<exists>r\<ge>k. r < n \<and> mask_bit ?w pm' r c)" if "c < i"
    using st(2) [OF _ _ _ _ that] rest(3) by simp
qed

lemma GeneratePacketMasks_ok:
  assumes "mask_request m n i pm" "length buf = kFECPacketMaskMaxSize"
  shows "mask_ok (PacketMaskSize m) (snd (GeneratePacketMasks m n i uep (new_PacketMaskTable ty m buf) pm)) m n"
proof -
  let ?t = "new_PacketMaskTable ty m buf"
  have t: "table_ok ?t" using assms(2) by (simp add: new_table_ok)
  show ?thesis
  proof (cases "\<not> uep \<or> i = 0")
    case True
    obtain t' b where b: "LookUp ?t m n = (t', b)" by fastforce
    then show ?thesis using True equal_protection [OF assms(1) t b] by (simp add: GeneratePacketMasks_def Let_def)
  next
    case False
    obtain t' pm' where u: "UnequalProtectionMask m n i (PacketMaskSize m) pm ?t = (t', pm')" by fastforce
    have "mask_ok (PacketMaskSize m) pm' m n"
      using unequal_protection_none [OF assms(1) t _ u] unequal_protection_split(1) [OF assms(1) t refl _ u] by blast
    then show ?thesis using False u by (simp add: GeneratePacketMasks_def Let_def)
  qed
qed

lemma GeneratePacketMasks_length: "length (snd (GeneratePacketMasks m n i uep t pm)) = length pm"
proof -
  have fold_or: "length (fold (\<lambda>j q. q[j * w := q ! (j * w) OR push_bit 7 1]) is q) = length q" for w "is" and q :: "u8 list"
    by (rule fold_keeps [where g = length]) simp
  show ?thesis
    by (auto simp: GeneratePacketMasks_def UnequalProtectionMask_def ImportantPacketProtection_def RemainingPacketProtection_def
        Let_def fold_or split: prod.splits if_splits)
qed

text \<open>C15: for every table and every admissible request the generated mask serves: every media
  packet is protected by some FEC packet, every FEC packet protects some media packet, and no
  bit stands for a media packet beyond the last one.\<close>

theorem generated_mask_ok:
  assumes "mask_request m n i pm" "length buf = kFECPacketMaskMaxSize"
  shows "mask_ok (PacketMaskSize m) (snd (GeneratePacketMasks m n i uep (new_PacketMaskTable ty m buf) pm)) m n"
  by (rule GeneratePacketMasks_ok [OF assms])

lemma ex_request: "mask_request 20 5 4 (replicate 288 0)"
  by (simp add: mask_request_def PacketMaskSize_def)

theorem generated_mask_ok_witness:
  "mask_ok 6 (snd (GeneratePacketMasks 20 5 4 True (new_PacketMaskTable kFecMaskBursty 20 (replicate 288 0)) (replicate 288 0))) 20 5"
  using generated_mask_ok [OF ex_request, of "replicate 288 0" True kFecMaskBursty] by (simp add: PacketMaskSize_def)

text \<open>C33: unequal protection protects the important packets twice: with at least two FEC packets
  each of the first \<open>i\<close> media packets is protected by one of the FEC packets set aside for them
  and by one of the others.\<close>

theorem important_packets_twice:
  assumes "mask_request m n i pm" "length buf = kFECPacketMaskMaxSize" "2 \<le> n" "c < i"
    and "GeneratePacketMasks m n i True (new_PacketMaskTable ty m buf) pm = (t', pm')"
  shows "\<exists>r s. r < s \<and> s < n \<and> mask_bit (PacketMaskSize m) pm' r c \<and> mask_bit (PacketMaskSize m) pm' s c"
proof -
  let ?t = "new_PacketMaskTable ty m buf" and ?k = "SetProtectionAllocation m n i"
  have t: "table_ok ?t" using assms(2) by (simp add: new_table_ok)
  have k: "0 < ?k" using assms(3,4) by (auto simp: SetProtectionAllocation_def Let_def)
  have u: "UnequalProtectionMask m n i (PacketMaskSize m) pm ?t = (t', pm')"
    using assms(4,5) by (simp add: GeneratePacketMasks_def Let_def)
  show ?thesis using unequal_protection_split(2) [OF assms(1) t refl k u assms(4)] by (metis less_le_trans)
qed

theorem important_packets_twice_witness:
  "\<exists>r s. r < s \<and> s < 5 \<and>
     mask_bit 6 (snd (GeneratePacketMasks 20 5 4 True (new_PacketMaskTable kFecMaskRandom 20 (replicate 288 0)) (replicate 288 0))) r 3 \<and>
     mask_bit 6 (snd (GeneratePacketMasks 20 5 4 True (new_PacketMaskTable kFecMaskRandom 20 (replicate 288 0)) (replicate 288 0))) s 3"
  using important_packets_twice [OF ex_request _ _ _ surjective_pairing, of "replicate 288 0" 3 kFecMaskRandom]
  by (simp add: PacketMaskSize_def)

end
