(* ===== verification/SeqNum.thy ===== *)
theory SeqNum
  imports Prelude
begin

text \<open>
  Numbers that wrap around: \<open>module_common_types_public.h\<close> (which of two numbers is newer, and the
  class \<open>Unwrapper\<close>) and \<open>rtc_base/numerics/mod_ops.h\<close>. The unsigned type of the templates is a
  word type; values of type \<open>int64_t\<close> are unbounded integers, the sums stay far below its range.
\<close>

subsection \<open>Newer\<close>

definition kBreakpoint :: "'a :: len word" where
  "kBreakpoint = drop_bit 1 (- 1) + 1"

definition IsNewer :: "'a :: len word \<Rightarrow> 'a word \<Rightarrow> bool" where
  "IsNewer value prev_value =
     (if value - prev_value = kBreakpoint then value > prev_value
      else value \<noteq> prev_value \<and> value - prev_value < kBreakpoint)"

definition IsNewerSequenceNumber :: "u16 \<Rightarrow> u16 \<Rightarrow> bool" where
  "IsNewerSequenceNumber sequence_number prev_sequence_number = IsNewer sequence_number prev_sequence_number"

definition IsNewerTimestamp :: "u32 \<Rightarrow> u32 \<Rightarrow> bool" where
  "IsNewerTimestamp timestamp prev_timestamp = IsNewer timestamp prev_timestamp"

definition LatestSequenceNumber :: "u16 \<Rightarrow> u16 \<Rightarrow> u16" where
  "LatestSequenceNumber a b = (if IsNewerSequenceNumber a b then a else b)"

definition LatestTimestamp :: "u32 \<Rightarrow> u32 \<Rightarrow> u32" where
  "LatestTimestamp a b = (if IsNewerTimestamp a b then a else b)"

subsection \<open>Unwrapping\<close>

text \<open>The state of an \<open>Unwrapper\<close> is its \<open>last_value_\<close>. Types narrower than \<open>int\<close> are promoted before they are
  subtracted, so that the difference may be negative; for \<open>uint32_t\<close> it wraps around.\<close>

definition UnwrapWithoutUpdate :: "int option \<Rightarrow> 'a :: len word \<Rightarrow> int" where
  "UnwrapWithoutUpdate last_value value =
     (case last_value of None \<Rightarrow> uint value
      | Some l \<Rightarrow>
          let kMaxPlusOne = uint (- 1 :: 'a word) + 1;
              cropped_last = word_of_int l :: 'a word;
              delta = (if LENGTH('a) < 32 then uint value - uint cropped_last else uint (value - cropped_last));
              delta = (if IsNewer value cropped_last
                       then if delta < 0 then delta + kMaxPlusOne else delta
                       else if delta > 0 \<and> l + delta - kMaxPlusOne \<ge> 0 then delta - kMaxPlusOne else delta)
          in l + delta)"

definition UpdateLast :: "int option \<Rightarrow> int \<Rightarrow> int option" where
  "UpdateLast last_value l = Some l"

definition Unwrap :: "int option \<Rightarrow> 'a :: len word \<Rightarrow> int \<times> int option" where
  "Unwrap last_value value =
     (let unwrapped = UnwrapWithoutUpdate last_value value in (unwrapped, UpdateLast last_value unwrapped))"

subsection \<open>Arithmetic modulo \<open>M\<close>\<close>

text \<open>\<open>unsigned long\<close> is a word of 64 bits.\<close>

definition mod_Add :: "u64 \<Rightarrow> u64 \<Rightarrow> u64 \<Rightarrow> u64" where
  "mod_Add M a b = (let t = M - b mod M; res = a - t in if t > a then res + M else res)"

definition mod_Subtract :: "u64 \<Rightarrow> u64 \<Rightarrow> u64 \<Rightarrow> u64" where
  "mod_Subtract M a b = (let sub = b mod M in if a < sub then M - (sub - a) else a - sub)"

definition ForwardDiff :: "'a :: len word \<Rightarrow> 'a word \<Rightarrow> 'a word \<Rightarrow> 'a word" where
  "ForwardDiff M a b = (if M > 0 then if a \<le> b then b - a else M - (a - b) else b - a)"

definition ReverseDiff :: "'a :: len word \<Rightarrow> 'a word \<Rightarrow> 'a word \<Rightarrow> 'a word" where
  "ReverseDiff M a b = (if M > 0 then if b \<le> a then a - b else M - (b - a) else a - b)"

definition MinDiff :: "'a :: len word \<Rightarrow> 'a word \<Rightarrow> 'a word \<Rightarrow> 'a word" where
  "MinDiff M a b = min (ForwardDiff M a b) (ReverseDiff M a b)"

subsection \<open>The order of numbers in a window\<close>

abbreviation half :: "'a :: len itself \<Rightarrow> int" where
  "half _ \<equiv> 2 ^ (LENGTH('a) - 1)"

lemma two_half: "2 ^ LENGTH('a :: len) = 2 * half TYPE('a)"
  by (metis One_nat_def len_gt_0 power_Suc Suc_pred)

lemma uint_kBreakpoint: "uint (kBreakpoint :: 'a :: len word) = half TYPE('a)"
proof -
  have "drop_bit 1 (- 1 :: 'a word) = mask (LENGTH('a) - 1)"
    by (intro bit_word_eqI) (auto simp: bit_drop_bit_eq bit_mask_iff)
  then have "(kBreakpoint :: 'a word) = 2 ^ (LENGTH('a) - 1)"
    by (simp add: kBreakpoint_def mask_eq_exp_minus_1)
  then have eq: "(kBreakpoint :: 'a word) = word_of_int (half TYPE('a))" by simp
  have "uint (kBreakpoint :: 'a word) = half TYPE('a) mod (2 * half TYPE('a))"
    unfolding eq uint_word_of_int take_bit_eq_mod two_half ..
  then show ?thesis by (simp add: mod_pos_pos_trivial)
qed

lemma uint_diff: "uint (a - b :: 'a :: len word) = (uint a - uint b) mod 2 ^ LENGTH('a)"
  by (rule uint_word_arith_bintrs [THEN trans]) (simp add: take_bit_eq_mod)

text \<open>Whatever numbers \<open>x\<close> and \<open>y\<close> stand for, if they are less than half the range apart then newer
  means greater.\<close>

lemma IsNewer_window:
  assumes "\<bar>x - y\<bar> < half TYPE('a)"
  shows "IsNewer (word_of_int x :: 'a :: len word) (word_of_int y) \<longleftrightarrow> y < x"
proof -
  let ?d = "uint (word_of_int x - word_of_int y :: 'a word)"
  have "word_of_int x - word_of_int y = (word_of_int (x - y) :: 'a word)" by simp
  then have d: "?d = (x - y) mod (2 * half TYPE('a))" by (simp only: uint_word_of_int two_half take_bit_eq_mod)
  have pos: "?d = x - y" if "y \<le> x" unfolding d using that assms by (intro mod_pos_pos_trivial) auto
  have neg: "?d = x - y + 2 * half TYPE('a)" if "x < y"
  proof -
    have "(x - y) mod (2 * half TYPE('a)) = (x - y + 2 * half TYPE('a)) mod (2 * half TYPE('a))" by simp
    also have "\<dots> = x - y + 2 * half TYPE('a)" using that assms by (intro mod_pos_pos_trivial) auto
    finally show ?thesis unfolding d .
  qed
  have "?d \<noteq> half TYPE('a)" using pos neg assms by (cases "y \<le> x") auto
  then have "(word_of_int x - word_of_int y :: 'a word) \<noteq> kBreakpoint" using uint_kBreakpoint [where ?'a = 'a] by auto
  moreover have "(word_of_int x :: 'a word) \<noteq> word_of_int y \<longleftrightarrow> ?d \<noteq> 0" by (simp add: unsigned_eq_0_iff)
  moreover have "(word_of_int x - word_of_int y :: 'a word) < kBreakpoint \<longleftrightarrow> ?d < half TYPE('a)"
    by (simp only: word_less_def uint_kBreakpoint)
  ultimately have "IsNewer (word_of_int x :: 'a word) (word_of_int y) \<longleftrightarrow> ?d \<noteq> 0 \<and> ?d < half TYPE('a)"
    by (simp add: IsNewer_def)
  then show ?thesis using pos neg assms by (cases "y \<le> x") auto
qed

lemma IsNewer_irrefl [simp]: "\<not> IsNewer a a"
proof -
  have "(0 :: 'a word) \<noteq> kBreakpoint" using uint_kBreakpoint [where ?'a = 'a] by auto
  then show ?thesis by (simp add: IsNewer_def)
qed

text \<open>Of two different numbers exactly one is newer.\<close>

lemma IsNewer_total:
  assumes "a \<noteq> b"
  shows "IsNewer a b \<longleftrightarrow> \<not> IsNewer b (a :: 'a :: len word)"
proof -
  have rev: "b - a = - (a - b)" by simp
  have pos: "0 < uint (a - b)" using assms by (simp add: less_le unsigned_eq_0_iff)
  have lt: "uint (a - b) < 2 * half TYPE('a)" using uint_lt2p [of "a - b"] by (simp only: two_half)
  have "uint (b - a) = (- uint (a - b)) mod (2 * half TYPE('a))"
    unfolding rev by (simp only: uint_word_ariths two_half)
  also have "\<dots> = 2 * half TYPE('a) - uint (a - b)"
    using pos lt by (simp add: zmod_zminus1_eq_if)
  finally have sum: "uint (b - a) = 2 * half TYPE('a) - uint (a - b)" .
  have k: "x = kBreakpoint \<longleftrightarrow> uint x = half TYPE('a)" "x < kBreakpoint \<longleftrightarrow> uint x < half TYPE('a)" for x :: "'a word"
    using uint_kBreakpoint [where ?'a = 'a] by (auto simp: word_less_def word_uint_eq_iff)
  show ?thesis unfolding IsNewer_def k sum using assms by (auto simp: not_less le_less)
qed

subsection \<open>Unwrapping follows the true numbers\<close>

text \<open>The correction of a difference of residues, on integers.\<close>

lemma wrap_delta:
  assumes "\<bar>x - l\<bar> < h" "0 \<le> (x :: int)" "d = x mod (2 * h) - l mod (2 * h)"
  shows "l + (if l < x then if d < 0 then d + 2 * h else d else if 0 < d \<and> 0 \<le> l + d - 2 * h then d - 2 * h else d) = x"
proof -
  have h: "0 < h" "0 < 2 * h" using assms(1) by simp_all
  have bx: "0 \<le> x mod (2 * h)" "x mod (2 * h) < 2 * h" and bl: "0 \<le> l mod (2 * h)" "l mod (2 * h) < 2 * h"
    using h(2) by (simp_all only: pos_mod_sign pos_mod_bound)
  then have r: "- (2 * h) < d" "d < 2 * h" unfolding assms(3) by linarith+
  have "d mod (2 * h) = (x - l) mod (2 * h)" by (simp add: assms(3) mod_simps)
  then have "2 * h dvd d - (x - l)" by (simp only: mod_eq_dvd_iff)
  then obtain q where "d - (x - l) = 2 * h * q" by (elim dvdE)
  then have q: "d = x - l + 2 * h * q" by simp
  have "2 * h * q < 2 * h * 2" "2 * h * (- 2) < 2 * h * q" using r q assms(1) by linarith+
  then have "q < 2" "- 2 < q" unfolding mult_less_cancel_left_pos [OF h(2)] .
  then have "q = 0 \<or> q = 1 \<or> q = - 1" by auto
  then show ?thesis using q r assms(1,2) by (elim disjE) auto
qed

text \<open>The same for a difference that wraps around.\<close>

lemma wrap_delta_unsigned:
  assumes "\<bar>x - l\<bar> < h" "0 \<le> (x :: int)" "d = (x - l) mod (2 * h)"
  shows "l + (if l < x then if d < 0 then d + 2 * h else d else if 0 < d \<and> 0 \<le> l + d - 2 * h then d - 2 * h else d) = x"
proof (cases "x < l")
  case True
  then have "(x - l + 2 * h) mod (2 * h) = x - l + 2 * h" using assms(1) by (intro mod_pos_pos_trivial) linarith+
  then have "d = x - l + 2 * h" by (simp add: assms(3))
  then show ?thesis using True assms(1,2) by simp
next
  case False
  then have "d = x - l" using assms(1) unfolding assms(3) by (intro mod_pos_pos_trivial) linarith+
  then show ?thesis using False by auto
qed

lemma UnwrapWithoutUpdate_near:
  assumes "0 \<le> x" "\<bar>x - l\<bar> < half TYPE('a)"
  shows "UnwrapWithoutUpdate (Some l) (word_of_int x :: 'a :: len word) = x"
proof -
  have max: "uint (- 1 :: 'a word) + 1 = 2 * half TYPE('a)"
    by (simp add: unsigned_minus_1_eq_mask mask_eq_exp_minus_1 two_half)
  have d: "uint (word_of_int x :: 'a word) - uint (word_of_int l :: 'a word) = x mod (2 * half TYPE('a)) - l mod (2 * half TYPE('a))"
    by (simp only: uint_word_of_int take_bit_eq_mod two_half)
  have "uint (word_of_int x - word_of_int l :: 'a word) = (x - l) mod (2 * half TYPE('a))"
    by (simp only: wi_hom_sub uint_word_of_int take_bit_eq_mod two_half)
  note d' = wrap_delta_unsigned [OF assms(2,1) this]
  show ?thesis
  proof (cases "LENGTH('a) < 32")
    case True
    show ?thesis unfolding UnwrapWithoutUpdate_def option.case Let_def max IsNewer_window [OF assms(2)] if_P [OF True]
      using wrap_delta [OF assms(2,1) d] by (simp split del: if_split)
  next
    case False
    show ?thesis unfolding UnwrapWithoutUpdate_def option.case Let_def max IsNewer_window [OF assms(2)] if_not_P [OF False]
      using d' by (simp split del: if_split)
  qed
qed

text \<open>A run of the unwrapper over a list of numbers.\<close>

fun unwrap_all :: "int option \<Rightarrow> 'a :: len word list \<Rightarrow> int list" where
  "unwrap_all last_value [] = []"
| "unwrap_all last_value (v # vs) = (case Unwrap last_value v of (u, last_value) \<Rightarrow> u # unwrap_all last_value vs)"

text \<open>Neighbours differ by less than half the range.\<close>

fun near :: "int \<Rightarrow> int list \<Rightarrow> bool" where
  "near h (x # y # xs) \<longleftrightarrow> \<bar>y - x\<bar> < h \<and> near h (y # xs)"
| "near h _ \<longleftrightarrow> True"

lemma unwrap_all_from:
  assumes "near (half TYPE('a)) (l # xs)" "\<forall>x\<in>set xs. 0 \<le> x"
  shows "unwrap_all (Some l) (map word_of_int xs :: 'a :: len word list) = xs"
  using assms
  by (induction xs arbitrary: l) (simp_all add: Unwrap_def UpdateLast_def UnwrapWithoutUpdate_near)

text \<open>C35: an unwrapper that is fed the low bits of nonnegative numbers, the first in the range of the
  type and each less than half that range from the one before, returns the numbers themselves.\<close>

theorem unwrap_follows:
  assumes "near (half TYPE('a)) xs" "\<forall>x\<in>set xs. 0 \<le> x" "xs \<noteq> []" "hd xs < 2 ^ LENGTH('a)"
  shows "unwrap_all None (map word_of_int xs :: 'a :: len word list) = xs"
proof -
  obtain x ys where xs: "xs = x # ys" using assms(3) by (cases xs) auto
  have "uint (word_of_int x :: 'a word) = x" using assms(2,4) xs by (simp add: uint_word_of_int take_bit_eq_mod)
  then show ?thesis using unwrap_all_from [of x ys, where ?'a = 'a] assms(1,2) xs
    by (simp add: Unwrap_def UpdateLast_def UnwrapWithoutUpdate_def)
qed

theorem unwrap_follows_witness:
  "unwrap_all None (map word_of_int [65530, 65540, 65533, 70000] :: u16 list) = [65530, 65540, 65533, 70000]"
  by (rule unwrap_follows) simp_all

text \<open>C36: of two different sequence numbers exactly one is newer, and for numbers less than half the
  range apart newer means later.\<close>

theorem newer_is_later:
  assumes "\<bar>x - y\<bar> < half TYPE('a)" "a \<noteq> b"
  shows "(IsNewer (word_of_int x :: 'a :: len word) (word_of_int y) \<longleftrightarrow> y < x) \<and>
    (IsNewer a b \<longleftrightarrow> \<not> IsNewer b (a :: 'a word))"
  using IsNewer_window [OF assms(1)] IsNewer_total [OF assms(2)] by blast

theorem newer_is_later_witness: "IsNewer (word_of_int 65541 :: u16) (word_of_int 65535)"
  using newer_is_later [of 65541 65535 "0 :: u16" 1] by simp

subsection \<open>Differences\<close>

lemma MinDiff_commute: "MinDiff M a b = MinDiff M b a"
  by (auto simp: MinDiff_def ForwardDiff_def ReverseDiff_def min.commute)

lemma uint_diff_word: "uint (word_of_int x - word_of_int y :: 'a :: len word) = (x - y) mod (2 * half TYPE('a))"
proof -
  have "word_of_int x - word_of_int y = (word_of_int (x - y) :: 'a word)" by simp
  then show ?thesis by (simp only: uint_word_of_int take_bit_eq_mod two_half)
qed

lemma min_residue:
  assumes "\<bar>z\<bar> < (h :: int)"
  shows "min (z mod (2 * h)) ((- z) mod (2 * h)) = \<bar>z\<bar>"
proof (cases "z = 0")
  case False
  have "k mod (2 * h) = k" "(- k) mod (2 * h) = 2 * h - k" if "0 < k" "k < h" for k :: int
    using that by (simp_all add: mod_pos_pos_trivial zmod_zminus1_eq_if)
  from this [of "\<bar>z\<bar>"] show ?thesis using False assms by (cases "0 < z") (auto simp: min_def)
qed simp

lemma uint_sub_le: "b \<le> a \<Longrightarrow> uint (a - b :: 'a :: len word) = uint a - uint b"
  by (simp only: uint_sub_lem [THEN iffD1] word_le_def)

lemma mod_Add_value:
  assumes "a < M"
  shows "uint (mod_Add M a b) = (uint a + uint b) mod uint M"
proof -
  have aM: "uint a < uint M" using assms by (simp add: word_less_def)
  define c where "c = uint b mod uint M"
  have M: "0 < uint M" using aM uint_ge_0 [of a] by linarith
  have c: "uint (b mod M) = c" "0 \<le> c" "c < uint M"
    unfolding c_def using M by (simp_all only: uint_mod pos_mod_sign pos_mod_bound)
  have "b mod M \<le> M" using c by (simp add: word_le_def)
  then have t: "uint (M - b mod M) = uint M - c" using c by (simp add: uint_sub_le)
  have sum: "(uint a + uint b) mod uint M = (uint a + c) mod uint M" by (simp add: c_def mod_simps)
  show ?thesis
  proof (cases "M - b mod M > a")
    case True
    have eq: "a - (M - b mod M) + M = a + b mod M" by simp
    have small: "uint a + c < uint M" using True t by (simp add: word_less_def)
    then have "uint a + uint (b mod M) < 2 ^ LENGTH(64)" using c(1) uint_lt2p [of M] by linarith
    then have "uint (a + b mod M) = uint a + c" using c(1) by (simp only: uint_plus_simple_iff uint_add_lem [THEN iffD1])
    moreover have "mod_Add M a b = a + b mod M" using True eq by (simp only: mod_Add_def Let_def if_True)
    ultimately show ?thesis using small c(2) unfolding sum by (simp add: mod_pos_pos_trivial)
  next
    case False
    then have "M - b mod M \<le> a" by simp
    then have "uint (mod_Add M a b) = uint a - (uint M - c)" using t False by (simp add: mod_Add_def uint_sub_le)
    moreover have "uint M \<le> uint a + c" using \<open>M - b mod M \<le> a\<close> t by (simp add: word_le_def)
    then have "(uint a + c) mod uint M = uint a + c - uint M"
      using aM c(3) mod_pos_pos_trivial [of "uint a + c - uint M" "uint M"] minus_mod_self2 [of "uint a + c" "uint M"]
      by simp
    ultimately show ?thesis unfolding sum by simp
  qed
qed

lemma MinDiff_window:
  assumes "\<bar>x - y\<bar> < half TYPE('a)"
  shows "uint (MinDiff 0 (word_of_int x :: 'a :: len word) (word_of_int y)) = \<bar>x - y\<bar>"
proof -
  have "\<bar>y - x\<bar> < half TYPE('a)" using assms by (simp add: abs_minus_commute)
  then have "min ((y - x) mod (2 * half TYPE('a))) ((- (y - x)) mod (2 * half TYPE('a))) = \<bar>y - x\<bar>" by (rule min_residue)
  then have "min (uint (word_of_int y - word_of_int x :: 'a word)) (uint (word_of_int x - word_of_int y :: 'a word)) = \<bar>x - y\<bar>"
    unfolding uint_diff_word by (simp only: minus_diff_eq abs_minus_commute)
  then show ?thesis
    by (auto simp: MinDiff_def ForwardDiff_def ReverseDiff_def min_def word_le_def split: if_splits)
qed

text \<open>C37: the minimal difference of two wrapping numbers is the distance of the numbers they stand
  for, when that is less than half the range; addition modulo \<open>M\<close> is addition modulo \<open>M\<close> although
  the sum may not fit the type.\<close>

theorem mod_ops_correct:
  assumes "\<bar>x - y\<bar> < half TYPE('a)" "a < M"
  shows "uint (MinDiff 0 (word_of_int x :: 'a :: len word) (word_of_int y)) = \<bar>x - y\<bar> \<and>
    uint (mod_Add M a b) = (uint a + uint b) mod uint M"
  by (rule conjI [OF MinDiff_window [OF assms(1)] mod_Add_value [OF assms(2)]])

theorem mod_ops_correct_witness:
  "uint (MinDiff 0 (word_of_int 65534 :: u16) (word_of_int 65541)) = 7 \<and> uint (mod_Add 10 7 15) = 2"
  using mod_ops_correct [of 65534 65541 7 10 15, where ?'a = 16] by simp

end
