(* ===== verification/FecHeader.thy ===== *)
theory FecHeader
  imports FecMaskGen ByteIo SeqNum
begin

text \<open>
  The packets of the XOR code and its two header formats: the data classes of
  \<open>forward_error_correction.h\<close>, \<open>ulpfec_header_reader_writer.cc\<close> and
  \<open>flexfec_header_reader_writer.cc\<close>. The abstract classes \<open>FecHeaderWriter\<close> and \<open>FecHeaderReader\<close>
  are records whose fields are the virtual methods; a format is an instance of each. A packet is a value:
  the reference-counted packets of the code are written only while one object owns them.
\<close>

subsection \<open>Packets\<close>

definition kRtpHeaderSize :: nat where [simp]: "kRtpHeaderSize = 12"
definition IP_PACKET_SIZE :: nat where [simp]: "IP_PACKET_SIZE = 1500"

record Packet =
  pkt_length :: nat
  pkt_data :: "u8 list"

definition new_Packet :: Packet where
  "new_Packet = \<lparr>pkt_length = 0, pkt_data = replicate IP_PACKET_SIZE 0\<rparr>"

record ProtectedPacket =
  pp_ssrc :: u32
  pp_seq_num :: u16
  pp_pkt :: "Packet option"

record ReceivedFecPacket =
  fec_ssrc :: u32
  fec_seq_num :: u16
  fec_pkt :: Packet
  protected_packets :: "ProtectedPacket list"
  fec_header_size :: nat
  protected_ssrc :: u32
  seq_num_base :: u16
  packet_mask_offset :: nat
  packet_mask_size :: nat
  protection_length :: nat

record FecHeaderReader =
  r_max_media_packets :: nat
  r_max_fec_packets :: nat
  ReadFecHeader :: "ReceivedFecPacket \<Rightarrow> ReceivedFecPacket option"

record FecHeaderWriter =
  w_max_media_packets :: nat
  w_max_fec_packets :: nat
  w_max_packet_overhead :: nat
  MinPacketMaskSize :: "u8 list \<Rightarrow> nat \<Rightarrow> nat"
  FecHeaderSize :: "nat \<Rightarrow> nat"
  FinalizeFecHeader :: "u32 \<Rightarrow> u16 \<Rightarrow> u8 list \<Rightarrow> nat \<Rightarrow> Packet \<Rightarrow> Packet"

subsection \<open>ULPFEC\<close>

definition kMaxMediaPackets :: nat where [simp]: "kMaxMediaPackets = 48"
definition kMaxFecPackets :: nat where [simp]: "kMaxFecPackets = kMaxMediaPackets"
definition kFecLevel0HeaderSize :: nat where [simp]: "kFecLevel0HeaderSize = 10"
definition kFecLevel1HeaderSizeLBitSet :: nat where [simp]: "kFecLevel1HeaderSizeLBitSet = 2 + kUlpfecPacketMaskSizeLBitSet"
definition kFecLevel1HeaderSizeLBitClear :: nat where [simp]: "kFecLevel1HeaderSizeLBitClear = 2 + kUlpfecPacketMaskSizeLBitClear"
definition ulpfec_kPacketMaskOffset :: nat where [simp]: "ulpfec_kPacketMaskOffset = kFecLevel0HeaderSize + 2"

definition UlpfecHeaderSize :: "nat \<Rightarrow> nat" where
  "UlpfecHeaderSize msize =
     (if msize \<le> kUlpfecPacketMaskSizeLBitClear then kFecLevel0HeaderSize + kFecLevel1HeaderSizeLBitClear
      else kFecLevel0HeaderSize + kFecLevel1HeaderSizeLBitSet)"

definition ulpfec_ReadFecHeader :: "ReceivedFecPacket \<Rightarrow> ReceivedFecPacket option" where
  "ulpfec_ReadFecHeader f =
     (let d = pkt_data (fec_pkt f);
          l_bit = d ! 0 AND 0x40 \<noteq> 0;
          msize = (if l_bit then kUlpfecPacketMaskSizeLBitSet else kUlpfecPacketMaskSizeLBitClear)
      in Some (f\<lparr>fec_header_size := UlpfecHeaderSize msize,
                 protected_ssrc := fec_ssrc f,
                 seq_num_base := ReadBigEndian2 d 2,
                 packet_mask_offset := ulpfec_kPacketMaskOffset,
                 packet_mask_size := msize,
                 protection_length := unat (ReadBigEndian2 d 10 :: u16),
                 fec_pkt := (fec_pkt f)\<lparr>pkt_data := memcpy_at d 2 (drop 8 d) 2\<rparr>\<rparr>))"

definition ulpfec_MinPacketMaskSize :: "u8 list \<Rightarrow> nat \<Rightarrow> nat" where
  "ulpfec_MinPacketMaskSize packet_mask msize = msize"

definition ulpfec_FecHeaderSize :: "nat \<Rightarrow> nat" where
  "ulpfec_FecHeaderSize msize = UlpfecHeaderSize msize"

definition ulpfec_FinalizeFecHeader :: "u32 \<Rightarrow> u16 \<Rightarrow> u8 list \<Rightarrow> nat \<Rightarrow> Packet \<Rightarrow> Packet" where
  "ulpfec_FinalizeFecHeader media_ssrc base packet_mask msize p =
     (let d = pkt_data p;
          d = d[0 := d ! 0 AND 0x7f];
          l_bit = msize = kUlpfecPacketMaskSizeLBitSet;
          d = (if l_bit then d[0 := d ! 0 OR 0x40] else d[0 := d ! 0 AND 0xbf]);
          d = memcpy_at d 8 (drop 2 d) 2;
          d = WriteBigEndian2 d 2 base;
          header_size = ulpfec_FecHeaderSize msize;
          d = WriteBigEndian2 d 10 (of_nat (pkt_length p) - of_nat header_size :: u16);
          d = memcpy_at d 12 packet_mask msize
      in p\<lparr>pkt_data := d\<rparr>)"

definition UlpfecHeaderReader :: FecHeaderReader where
  "UlpfecHeaderReader = \<lparr>r_max_media_packets = kMaxMediaPackets, r_max_fec_packets = kMaxFecPackets,
     ReadFecHeader = ulpfec_ReadFecHeader\<rparr>"

definition UlpfecHeaderWriter :: FecHeaderWriter where
  "UlpfecHeaderWriter = \<lparr>w_max_media_packets = kMaxMediaPackets, w_max_fec_packets = kMaxFecPackets,
     w_max_packet_overhead = kFecLevel0HeaderSize + kFecLevel1HeaderSizeLBitSet,
     MinPacketMaskSize = ulpfec_MinPacketMaskSize, FecHeaderSize = ulpfec_FecHeaderSize,
     FinalizeFecHeader = ulpfec_FinalizeFecHeader\<rparr>"

subsection \<open>FlexFEC\<close>

definition kFlexfecPacketMaskSizes :: "nat list" where [simp]: "kFlexfecPacketMaskSizes = [2, 6, 14]"
definition kBaseHeaderSize :: nat where [simp]: "kBaseHeaderSize = 12"
definition kStreamSpecificHeaderSize :: nat where [simp]: "kStreamSpecificHeaderSize = 6"
definition kHeaderSizes :: "nat list" where
  [simp]: "kHeaderSizes = map (\<lambda>s. kBaseHeaderSize + kStreamSpecificHeaderSize + s) kFlexfecPacketMaskSizes"
definition kSsrcCount :: u8 where [simp]: "kSsrcCount = 1"
definition kReservedBits :: u32 where [simp]: "kReservedBits = 0"
definition flexfec_kPacketMaskOffset :: nat where [simp]: "flexfec_kPacketMaskOffset = kBaseHeaderSize + kStreamSpecificHeaderSize"

definition FlexfecHeaderSize :: "nat \<Rightarrow> nat" where
  "FlexfecHeaderSize msize =
     (if msize \<le> kFlexfecPacketMaskSizes ! 0 then kHeaderSizes ! 0
      else if msize \<le> kFlexfecPacketMaskSizes ! 1 then kHeaderSizes ! 1
      else kHeaderSizes ! 2)"

text \<open>The part of \<open>ReadFecHeader\<close> that removes the K-bits of the mask at \<open>packet_mask + 18\<close>: the data and
  the size of the packed mask, or nothing when the packet is too short or no K-bit is set.\<close>

definition read_flexfec_mask :: "nat \<Rightarrow> u8 list \<Rightarrow> (u8 list \<times> nat) option" where
  "read_flexfec_mask len d =
     (let o1 = flexfec_kPacketMaskOffset;
          k_bit0 = d ! o1 AND 0x80 \<noteq> 0;
          mask_part0 = push_bit 1 (ReadBigEndian2 d o1 :: u16);
          d = WriteBigEndian2 d o1 mask_part0
      in if k_bit0 then Some (d, kFlexfecPacketMaskSizes ! 0)
         else if len < kHeaderSizes ! 1 then None
         else
           let k_bit1 = d ! (o1 + 2) AND 0x80 \<noteq> 0;
               bit15 = drop_bit 6 (d ! (o1 + 2)) AND 0x01;
               d = d[o1 + 1 := d ! (o1 + 1) OR bit15];
               mask_part1 = push_bit 2 (ReadBigEndian4 d (o1 + 2) :: u32);
               d = WriteBigEndian4 d (o1 + 2) mask_part1
           in if k_bit1 then Some (d, kFlexfecPacketMaskSizes ! 1)
              else if len < kHeaderSizes ! 2 then None
              else
                let k_bit2 = d ! (o1 + 6) AND 0x80 \<noteq> 0
                in if \<not> k_bit2 then None
                   else
                     let tail_bits = drop_bit 5 (d ! (o1 + 6)) AND 0x03;
                         d = d[o1 + 5 := d ! (o1 + 5) OR tail_bits];
                         mask_part2 = push_bit 3 (ReadBigEndian8 d (o1 + 6) :: u64);
                         d = WriteBigEndian8 d (o1 + 6) mask_part2
                     in Some (d, kFlexfecPacketMaskSizes ! 2))"

definition flexfec_ReadFecHeader :: "ReceivedFecPacket \<Rightarrow> ReceivedFecPacket option" where
  "flexfec_ReadFecHeader f =
     (let d = pkt_data (fec_pkt f);
          len = pkt_length (fec_pkt f)
      in if len \<le> kBaseHeaderSize + kStreamSpecificHeaderSize then None
         else if d ! 0 AND 0x80 \<noteq> 0 then None
         else if d ! 0 AND 0x40 \<noteq> 0 then None
         else if ReadBigEndian1 d 8 \<noteq> 1 then None
         else if len < kHeaderSizes ! 0 then None
         else case read_flexfec_mask len d of None \<Rightarrow> None
           | Some (d', msize) \<Rightarrow>
               Some (f\<lparr>fec_header_size := FlexfecHeaderSize msize,
                       protected_ssrc := ReadBigEndian4 d 12,
                       seq_num_base := ReadBigEndian2 d 16,
                       packet_mask_offset := flexfec_kPacketMaskOffset,
                       packet_mask_size := msize,
                       protection_length := len - FlexfecHeaderSize msize,
                       fec_pkt := (fec_pkt f)\<lparr>pkt_data := d'\<rparr>\<rparr>))"

definition flexfec_MinPacketMaskSize :: "u8 list \<Rightarrow> nat \<Rightarrow> nat" where
  "flexfec_MinPacketMaskSize packet_mask msize =
     (if msize = kUlpfecPacketMaskSizeLBitClear \<and> packet_mask ! 1 AND 0x01 = 0 then kFlexfecPacketMaskSizes ! 0
      else if msize = kUlpfecPacketMaskSizeLBitClear then kFlexfecPacketMaskSizes ! 1
      else if msize = kUlpfecPacketMaskSizeLBitSet \<and> packet_mask ! 5 AND 0x03 = 0 then kFlexfecPacketMaskSizes ! 1
      else kFlexfecPacketMaskSizes ! 2)"

definition flexfec_FecHeaderSize :: "nat \<Rightarrow> nat" where
  "flexfec_FecHeaderSize msize = FlexfecHeaderSize msize"

text \<open>\<open>memset\<close> of \<open>n\<close> bytes to zero.\<close>

definition memset0 :: "u8 list \<Rightarrow> nat \<Rightarrow> nat \<Rightarrow> u8 list" where
  "memset0 d off n = fold (\<lambda>i d. d[off + i := 0]) [0..<n] d"

lemma memset0_length [len_simps, simp]: "length (memset0 d off n) = length d"
  by (simp add: memset0_def fold_store_at_length)

lemma memset0_nth: "j < length d \<Longrightarrow> memset0 d off n ! j = (if off \<le> j \<and> j < off + n then 0 else d ! j)"
  unfolding memset0_def by (rule fold_store_at)

text \<open>The part of \<open>FinalizeFecHeader\<close> that writes a mask of 48 or of 16 bits with its K-bits.\<close>

definition write_flexfec_mask6 :: "u8 list \<Rightarrow> u8 list \<Rightarrow> u8 list" where
  "write_flexfec_mask6 m d =
     (let o1 = flexfec_kPacketMaskOffset;
          part0 = drop_bit 1 (ReadBigEndian2 m 0 :: u16);
          part1 = drop_bit 2 (ReadBigEndian4 m 2 :: u32);
          d = WriteBigEndian2 d o1 part0;
          d = WriteBigEndian4 d (o1 + 2) part1;
          d = (if m ! 1 AND 0x01 \<noteq> 0 then d[o1 + 2 := d ! (o1 + 2) OR 0x40] else d);
          bit46 = m ! 5 AND 0x02 \<noteq> 0;
          bit47 = m ! 5 AND 0x01 \<noteq> 0
      in if \<not> bit46 \<and> \<not> bit47 then d[o1 + 2 := d ! (o1 + 2) OR 0x80]
         else
           let d = memset0 d (o1 + 6) 8;
               d = d[o1 + 6 := d ! (o1 + 6) OR 0x80];
               d = (if bit46 then d[o1 + 6 := d ! (o1 + 6) OR 0x40] else d)
           in if bit47 then d[o1 + 6 := d ! (o1 + 6) OR 0x20] else d)"

definition write_flexfec_mask2 :: "u8 list \<Rightarrow> u8 list \<Rightarrow> u8 list" where
  "write_flexfec_mask2 m d =
     (let o1 = flexfec_kPacketMaskOffset;
          part0 = drop_bit 1 (ReadBigEndian2 m 0 :: u16);
          d = WriteBigEndian2 d o1 part0
      in if m ! 1 AND 0x01 = 0 then d[o1 := d ! o1 OR 0x80]
         else
           let d = memset0 d (o1 + 2) 4;
               d = d[o1 + 2 := d ! (o1 + 2) OR 0x80]
           in d[o1 + 2 := d ! (o1 + 2) OR 0x40])"

definition flexfec_FinalizeFecHeader :: "u32 \<Rightarrow> u16 \<Rightarrow> u8 list \<Rightarrow> nat \<Rightarrow> Packet \<Rightarrow> Packet" where
  "flexfec_FinalizeFecHeader media_ssrc base packet_mask msize p =
     (let d = pkt_data p;
          d = d[0 := d ! 0 AND 0x7f];
          d = d[0 := d ! 0 AND 0xbf];
          d = WriteBigEndian1 d 8 kSsrcCount;
          d = WriteBigEndian 3 d 9 kReservedBits;
          d = WriteBigEndian4 d 12 media_ssrc;
          d = WriteBigEndian2 d 16 base;
          d = (if msize = kUlpfecPacketMaskSizeLBitSet then write_flexfec_mask6 packet_mask d
               else if msize = kUlpfecPacketMaskSizeLBitClear then write_flexfec_mask2 packet_mask d
               else d)
      in p\<lparr>pkt_data := d\<rparr>)"

definition FlexfecHeaderReader :: FecHeaderReader where
  "FlexfecHeaderReader = \<lparr>r_max_media_packets = kMaxMediaPackets, r_max_fec_packets = kMaxFecPackets,
     ReadFecHeader = flexfec_ReadFecHeader\<rparr>"

definition FlexfecHeaderWriter :: FecHeaderWriter where
  "FlexfecHeaderWriter = \<lparr>w_max_media_packets = kMaxMediaPackets, w_max_fec_packets = kMaxFecPackets,
     w_max_packet_overhead = kHeaderSizes ! 2,
     MinPacketMaskSize = flexfec_MinPacketMaskSize, FecHeaderSize = flexfec_FecHeaderSize,
     FinalizeFecHeader = flexfec_FinalizeFecHeader\<rparr>"

end
