(* ===== verification/XorFec.thy ===== *)
theory XorFec
  imports FecHeader
begin

text \<open>
  The XOR code itself, the class \<open>ForwardErrorCorrection\<close> of \<open>forward_error_correction.cc\<close>: the
  encoder that makes FEC packets for a list of media packets, and the decoder that keeps the
  received FEC packets with the media packets they protect and recovers a packet as soon as an FEC
  packet misses only one. \<open>None\<close> as a result of the encoder is a fatal error (\<open>RTC_CHECK\<close>). The lists
  of the class are sorted after each insertion with the comparator \<open>LessThan\<close>; sorting is insertion
  sort, which agrees with every stable sort as long as the comparator is a strict weak order on the
  list (sequence numbers less than half the range apart).
\<close>

record ReceivedPacket =
  rcv_ssrc :: u32
  rcv_seq_num :: u16
  is_fec :: bool
  rcv_pkt :: Packet

record RecoveredPacket =
  rec_ssrc :: u32
  rec_seq_num :: u16
  was_recovered :: bool
  returned :: bool
  rec_pkt :: Packet

record ForwardErrorCorrection =
  own_ssrc :: u32
  protected_media_ssrc :: u32
  fec_header_reader :: FecHeaderReader
  fec_header_writer :: FecHeaderWriter
  generated_fec_packets :: "Packet list"
  received_fec_packets :: "ReceivedFecPacket list"
  packet_masks :: "u8 list"
  tmp_packet_masks :: "u8 list"
  cur_mask_size :: nat

text \<open>The constructor and the two factories; the two mask arrays are not initialised.\<close>

definition new_ForwardErrorCorrection :: "FecHeaderReader \<Rightarrow> FecHeaderWriter \<Rightarrow> u32 \<Rightarrow> u32 \<Rightarrow> u8 list \<Rightarrow> u8 list \<Rightarrow> ForwardErrorCorrection" where
  "new_ForwardErrorCorrection reader writer ssrc media_ssrc masks tmp =
     \<lparr>own_ssrc = ssrc, protected_media_ssrc = media_ssrc, fec_header_reader = reader, fec_header_writer = writer,
      generated_fec_packets = replicate (w_max_fec_packets writer) new_Packet, received_fec_packets = [],
      packet_masks = masks, tmp_packet_masks = tmp, cur_mask_size = 0\<rparr>"

definition CreateUlpfec :: "u32 \<Rightarrow> u8 list \<Rightarrow> u8 list \<Rightarrow> ForwardErrorCorrection" where
  "CreateUlpfec ssrc = new_ForwardErrorCorrection UlpfecHeaderReader UlpfecHeaderWriter ssrc ssrc"

definition CreateFlexfec :: "u32 \<Rightarrow> u32 \<Rightarrow> u8 list \<Rightarrow> u8 list \<Rightarrow> ForwardErrorCorrection" where
  "CreateFlexfec ssrc media_ssrc = new_ForwardErrorCorrection FlexfecHeaderReader FlexfecHeaderWriter ssrc media_ssrc"

subsection \<open>Fields of a packet\<close>

definition ParseSequenceNumber :: "u8 list \<Rightarrow> u16" where
  "ParseSequenceNumber d = push_bit 8 (ucast (d ! 2)) + ucast (d ! 3)"

definition ParseSsrc :: "u8 list \<Rightarrow> u32" where
  "ParseSsrc d = push_bit 24 (ucast (d ! 8)) + push_bit 16 (ucast (d ! 9)) + push_bit 8 (ucast (d ! 10)) + ucast (d ! 11)"

abbreviation seq_of :: "Packet \<Rightarrow> u16" where
  "seq_of p \<equiv> ParseSequenceNumber (pkt_data p)"

definition XorHeaders :: "Packet \<Rightarrow> Packet \<Rightarrow> Packet" where
  "XorHeaders src dst =
     (let s = pkt_data src; d = pkt_data dst;
          d = d[0 := d ! 0 XOR s ! 0];
          d = d[1 := d ! 1 XOR s ! 1];
          len = WriteBigEndian2 [0, 0] 0 (of_nat (pkt_length src) - of_nat kRtpHeaderSize :: u16);
          d = d[2 := d ! 2 XOR len ! 0];
          d = d[3 := d ! 3 XOR len ! 1];
          d = d[4 := d ! 4 XOR s ! 4];
          d = d[5 := d ! 5 XOR s ! 5];
          d = d[6 := d ! 6 XOR s ! 6];
          d = d[7 := d ! 7 XOR s ! 7]
      in dst\<lparr>pkt_data := d\<rparr>)"

definition XorPayloads :: "Packet \<Rightarrow> nat \<Rightarrow> nat \<Rightarrow> Packet \<Rightarrow> Packet" where
  "XorPayloads src payload_length dst_offset dst =
     dst\<lparr>pkt_data := fold (\<lambda>i d. d[dst_offset + i := d ! (dst_offset + i) XOR pkt_data src ! (kRtpHeaderSize + i)])
       [0..<payload_length] (pkt_data dst)\<rparr>"

subsection \<open>The encoder\<close>

definition NumFecPackets :: "nat \<Rightarrow> nat \<Rightarrow> nat" where
  "NumFecPackets num_media_packets protection_factor =
     (let n = drop_bit 8 (num_media_packets * protection_factor + push_bit 7 1)
      in if protection_factor > 0 \<and> n = 0 then 1 else n)"

text \<open>What the inner loop does with a media packet that the FEC packet protects.\<close>

definition protect_packet :: "nat \<Rightarrow> Packet \<Rightarrow> Packet \<Rightarrow> Packet" where
  "protect_packet header_size media fec =
     (let media_payload_length = pkt_length media - kRtpHeaderSize;
          first_protected_packet = pkt_length fec = 0;
          fec_packet_length = header_size + media_payload_length;
          fec = (if fec_packet_length > pkt_length fec then fec\<lparr>pkt_length := fec_packet_length\<rparr> else fec)
      in if first_protected_packet
         then let d = pkt_data fec;
                  d = memcpy_at d 0 (pkt_data media) 2;
                  d = WriteBigEndian2 d 2 (of_nat media_payload_length :: u16);
                  d = memcpy_at d 4 (drop 4 (pkt_data media)) 4;
                  d = memcpy_at d header_size (drop kRtpHeaderSize (pkt_data media)) media_payload_length
              in fec\<lparr>pkt_data := d\<rparr>
         else XorPayloads media media_payload_length header_size (XorHeaders media fec))"

text \<open>The loop over the media packets, with the index of the mask byte, the bit in it and the last
  sequence number.\<close>

fun payload_loop :: "u8 list \<Rightarrow> nat \<Rightarrow> nat \<Rightarrow> nat \<Rightarrow> u16 \<Rightarrow> Packet list \<Rightarrow> Packet \<Rightarrow> Packet" where
  "payload_loop masks header_size pkt_mask_idx media_pkt_idx prev_seq_num [] fec = fec"
| "payload_loop masks header_size pkt_mask_idx media_pkt_idx prev_seq_num (p # ps) fec =
     (let fec = (if masks ! pkt_mask_idx AND push_bit (7 - media_pkt_idx) 1 \<noteq> 0 then protect_packet header_size p fec else fec);
          (media_pkt_idx, prev_seq_num) =
            (case ps of [] \<Rightarrow> (media_pkt_idx, prev_seq_num)
             | q # _ \<Rightarrow> (media_pkt_idx + unat (seq_of q - prev_seq_num), seq_of q))
      in payload_loop masks header_size (pkt_mask_idx + media_pkt_idx div 8) (media_pkt_idx mod 8) prev_seq_num ps fec)"

definition generate_payload :: "ForwardErrorCorrection \<Rightarrow> Packet list \<Rightarrow> nat \<Rightarrow> Packet \<Rightarrow> Packet" where
  "generate_payload s media_packets i fec =
     (let pkt_mask_idx = i * cur_mask_size s;
          min_packet_mask_size = MinPacketMaskSize (fec_header_writer s) (drop pkt_mask_idx (packet_masks s)) (cur_mask_size s);
          header_size = FecHeaderSize (fec_header_writer s) min_packet_mask_size
      in payload_loop (packet_masks s) header_size pkt_mask_idx 0 (seq_of (hd media_packets)) media_packets fec)"

definition GenerateFecPayloads :: "Packet list \<Rightarrow> nat \<Rightarrow> ForwardErrorCorrection \<Rightarrow> ForwardErrorCorrection" where
  "GenerateFecPayloads media_packets num_fec_packets s =
     fold (\<lambda>i s. s\<lparr>generated_fec_packets := (generated_fec_packets s)
                     [i := generate_payload s media_packets i (generated_fec_packets s ! i)]\<rparr>)
       [0..<num_fec_packets] s"

text \<open>The loop of \<open>InsertZerosInPacketMasks\<close> over the media packets after the first.\<close>

fun insert_zeros_loop ::
  "nat \<Rightarrow> nat \<Rightarrow> nat \<Rightarrow> nat \<Rightarrow> nat \<Rightarrow> nat \<Rightarrow> u16 \<Rightarrow> Packet list \<Rightarrow> u8 list \<times> u8 list \<Rightarrow> (nat \<times> u8 list \<times> u8 list) option" where
  "insert_zeros_loop max_media new_size old_size n new_bit old_bit prev_seq_num [] masks = Some (new_bit, masks)"
| "insert_zeros_loop max_media new_size old_size n new_bit old_bit prev_seq_num (p # ps) masks =
     (if new_bit = max_media then Some (new_bit, masks)
      else
        let num_zeros = unat (seq_of p - prev_seq_num - 1);
            masks = (if num_zeros > 0 then (InsertZeroColumns num_zeros (fst masks) new_size n new_bit, snd masks) else masks);
            new_bit = new_bit + num_zeros
        in case CopyColumn new_size old_size n new_bit old_bit masks of None \<Rightarrow> None
           | Some masks \<Rightarrow> insert_zeros_loop max_media new_size old_size n (new_bit + 1) (old_bit + 1) (seq_of p) ps masks)"

text \<open>The final shift of the last byte of each row.\<close>

definition align_rows :: "nat \<Rightarrow> nat \<Rightarrow> nat \<Rightarrow> u8 list \<Rightarrow> u8 list" where
  "align_rows new_size n new_bit nm =
     (if new_bit mod 8 \<noteq> 0
      then fold (\<lambda>row nm. nm[row * new_size + new_bit div 8 := push_bit (7 - new_bit mod 8) (nm ! (row * new_size + new_bit div 8))]) [0..<n] nm
      else nm)"

definition InsertZerosInPacketMasks :: "Packet list \<Rightarrow> nat \<Rightarrow> ForwardErrorCorrection \<Rightarrow> (int \<times> ForwardErrorCorrection) option" where
  "InsertZerosInPacketMasks media_packets num_fec_packets s =
     (let num_media_packets = length media_packets
      in if num_media_packets \<le> 1 then Some (int num_media_packets, s)
         else
           let last_seq_num = seq_of (last media_packets);
               first_seq_num = seq_of (hd media_packets);
               total_missing = ucast (last_seq_num - first_seq_num) - of_nat num_media_packets + 1 :: u64;
               max_media_packets = w_max_media_packets (fec_header_writer s)
           in if total_missing = 0 then Some (int num_media_packets, s)
              else if unat (total_missing + of_nat num_media_packets) > max_media_packets then Some (-1, s)
              else
                let tmp_size = PacketMaskSize (unat (total_missing + of_nat num_media_packets));
                    tmp = memset0 (tmp_packet_masks s) 0 (num_fec_packets * tmp_size)
                in case CopyColumn tmp_size (cur_mask_size s) num_fec_packets 0 0 (tmp, packet_masks s) of None \<Rightarrow> None
                   | Some masks \<Rightarrow>
                       (case insert_zeros_loop max_media_packets tmp_size (cur_mask_size s) num_fec_packets 1 1 first_seq_num (tl media_packets) masks of
                          None \<Rightarrow> None
                        | Some (new_bit, nm, om) \<Rightarrow>
                            let nm = align_rows tmp_size num_fec_packets new_bit nm
                            in Some (int new_bit, s\<lparr>tmp_packet_masks := nm, packet_masks := memcpy_at om 0 nm (num_fec_packets * tmp_size)\<rparr>)))"

definition FinalizeFecHeaders :: "nat \<Rightarrow> u32 \<Rightarrow> u16 \<Rightarrow> ForwardErrorCorrection \<Rightarrow> ForwardErrorCorrection" where
  "FinalizeFecHeaders num_fec_packets media_ssrc base s =
     fold (\<lambda>i s. s\<lparr>generated_fec_packets := (generated_fec_packets s)
                     [i := FinalizeFecHeader (fec_header_writer s) media_ssrc base (drop (i * cur_mask_size s) (packet_masks s))
                             (cur_mask_size s) (generated_fec_packets s ! i)]\<rparr>)
       [0..<num_fec_packets] s"

text \<open>The result of \<open>EncodeFec\<close>: the return value, the packets the caller's list then refers to, and
  the state. \<open>buf\<close> is what the uninitialised mask array of the local mask table holds.\<close>

definition EncodeFec ::
  "Packet list \<Rightarrow> u8 \<Rightarrow> nat \<Rightarrow> bool \<Rightarrow> FecMaskType \<Rightarrow> u8 list \<Rightarrow> ForwardErrorCorrection \<Rightarrow> (int \<times> Packet list \<times> ForwardErrorCorrection) option" where
  "EncodeFec media_packets protection_factor num_important_packets use_unequal_protection fec_mask_type buf s =
     (let num_media_packets = length media_packets
      in if num_media_packets > w_max_media_packets (fec_header_writer s) then Some (-1, [], s)
         else if list_ex (\<lambda>p. pkt_length p < kRtpHeaderSize) media_packets then Some (-1, [], s)
         else
           let n = NumFecPackets num_media_packets (unat protection_factor)
           in if n = 0 then Some (0, [], s)
              else
                let gen = fold (\<lambda>i g. g[i := \<lparr>pkt_length = 0, pkt_data = memset0 (pkt_data (g ! i)) 0 IP_PACKET_SIZE\<rparr>]) [0..<n] (generated_fec_packets s);
                    table = new_PacketMaskTable fec_mask_type num_media_packets buf;
                    mask_size = PacketMaskSize num_media_packets;
                    masks = memset0 (packet_masks s) 0 (n * mask_size);
                    masks = snd (GeneratePacketMasks num_media_packets n num_important_packets use_unequal_protection table masks);
                    s = s\<lparr>generated_fec_packets := gen, packet_masks := masks, cur_mask_size := mask_size\<rparr>
                in case InsertZerosInPacketMasks media_packets n s of None \<Rightarrow> None
                   | Some (num_mask_bits, s) \<Rightarrow>
                       if num_mask_bits < 0 then Some (-1, [], s)
                       else
                         let s = s\<lparr>cur_mask_size := PacketMaskSize (nat num_mask_bits)\<rparr>;
                             s = GenerateFecPayloads media_packets n s;
                             media_ssrc = ParseSsrc (pkt_data (hd media_packets));
                             base = seq_of (hd media_packets);
                             s = FinalizeFecHeaders n media_ssrc base s
                         in Some (0, take n (generated_fec_packets s), s))"

end
