(* ===== verification/XorPayload.thy ===== *)
theory XorPayload
  imports XorFec
begin

text \<open>
  What the payload loop of the encoder computes: every byte of an FEC packet outside its header is
  the exclusive or of what the protected media packets contribute to it.
\<close>

subsection \<open>Exclusive or over a list\<close>

primrec xsum :: "('a \<Rightarrow> u8) \<Rightarrow> 'a list \<Rightarrow> u8" where
  "xsum f [] = 0"
| "xsum f (x # xs) = f x XOR xsum f xs"

lemma xsum_append [simp]: "xsum f (xs @ ys) = xsum f xs XOR xsum f ys"
  by (induction xs) (simp_all add: xor.assoc)

lemma xsum_cong: "(\<And>x. x \<in> set xs \<Longrightarrow> f x = g x) \<Longrightarrow> xsum f xs = xsum g xs"
  by (induction xs) simp_all

lemma xsum_0: "(\<And>x. x \<in> set xs \<Longrightarrow> f x = 0) \<Longrightarrow> xsum f xs = 0"
  by (induction xs) simp_all

lemma xor_twice [simp]: "(a :: u8) XOR (a XOR b) = b"
  by (simp add: xor.assoc [symmetric])

text \<open>Adding all members but one to the sum leaves that one.\<close>

lemma xsum_cancel: "xsum f (as @ x # bs) XOR xsum f (as @ bs) = f x"
proof -
  have "xsum f (as @ x # bs) XOR xsum f (as @ bs) = f x XOR ((xsum f as XOR xsum f as) XOR (xsum f bs XOR xsum f bs))"
    by (simp only: xsum_append xsum.simps xor.assoc xor.commute xor.left_commute)
  then show ?thesis by simp
qed

subsection \<open>Media packets\<close>

text \<open>A media packet as the code assumes it: a buffer of 1500 bytes that is clear behind the packet, RTP
  version 2, and short enough that the packet with any FEC header fits the buffer.\<close>

definition media_ok :: "Packet \<Rightarrow> bool" where
  "media_ok p \<longleftrightarrow> 12 \<le> pkt_length p \<and> pkt_length p \<le> 1480 \<and> length (pkt_data p) = 1500 \<and>
     (\<forall>j<1500. pkt_length p \<le> j \<longrightarrow> pkt_data p ! j = 0) \<and> bit (pkt_data p ! 0) 7 \<and> \<not> bit (pkt_data p ! 0) 6"

text \<open>The contribution of a packet to byte \<open>j\<close> when the payload starts at \<open>hs\<close>.\<close>

definition contrib :: "nat \<Rightarrow> nat \<Rightarrow> Packet \<Rightarrow> u8" where
  "contrib hs j p =
     (if j = 2 then ucast (drop_bit 8 (of_nat (pkt_length p - 12) :: u16))
      else if j = 3 then ucast (of_nat (pkt_length p - 12) :: u16)
      else if j < 8 then pkt_data p ! j
      else if hs \<le> j \<and> j < hs + (pkt_length p - 12) then pkt_data p ! (12 + (j - hs)) else 0)"

definition payload_max :: "Packet list \<Rightarrow> nat" where
  "payload_max ps = foldr max (map (\<lambda>p. pkt_length p - 12) ps) 0"

lemma payload_max_ge: "p \<in> set ps \<Longrightarrow> pkt_length p - 12 \<le> payload_max ps"
  by (induction ps) (auto simp: payload_max_def)

lemma payload_max_le: "(\<And>p. p \<in> set ps \<Longrightarrow> pkt_length p - 12 \<le> n) \<Longrightarrow> payload_max ps \<le> n"
  by (induction ps) (auto simp: payload_max_def)

subsection \<open>One packet\<close>

lemma u16_length: "12 \<le> n \<Longrightarrow> of_nat n - of_nat kRtpHeaderSize = (of_nat (n - 12) :: u16)"
  by (simp add: of_nat_diff)

lemma XorHeaders_nth:
  assumes "length (pkt_data dst) = 1500" "12 \<le> pkt_length src" "j < 1500"
  shows "pkt_data (XorHeaders src dst) ! j = pkt_data dst ! j XOR (if j < 8 then contrib 12 j src else 0)"
proof -
  have "j = 0 \<or> j = 1 \<or> j = 2 \<or> j = 3 \<or> j = 4 \<or> j = 5 \<or> j = 6 \<or> j = 7 \<or> 8 \<le> j" by auto
  then show ?thesis using assms(1) unfolding XorHeaders_def Let_def u16_length [OF assms(2)]
    by (elim disjE) (simp_all add: contrib_def WriteBigEndian2_def)
qed

lemma XorHeaders_shape [simp]: "pkt_length (XorHeaders src dst) = pkt_length dst"
  "length (pkt_data (XorHeaders src dst)) = length (pkt_data dst)"
  by (simp_all add: XorHeaders_def Let_def)

lemma fold_modify_at:
  "j < length d \<Longrightarrow> fold (\<lambda>i d. d[off + i := f i (d ! (off + i))]) [0..<n] d ! j =
     (if off \<le> j \<and> j < off + n then f (j - off) (d ! j) else d ! j)"
proof (induction n)
  case 0
  then show ?case by auto
next
  case (Suc n)
  have len: "length (fold (\<lambda>i d. d[off + i := f i (d ! (off + i))]) [0..<n] d) = length d"
    by (rule fold_keeps [where g = length]) simp
  show ?case using Suc len by (cases "j = off + n") auto
qed

lemma XorPayloads_shape [simp]: "pkt_length (XorPayloads src n off dst) = pkt_length dst"
  "length (pkt_data (XorPayloads src n off dst)) = length (pkt_data dst)"
  by (simp_all add: XorPayloads_def fold_keeps [where g = length])

lemma XorPayloads_nth:
  assumes "j < length (pkt_data dst)"
  shows "pkt_data (XorPayloads src n off dst) ! j =
    pkt_data dst ! j XOR (if off \<le> j \<and> j < off + n then pkt_data src ! (12 + (j - off)) else 0)"
  using fold_modify_at [OF assms, of off "\<lambda>i x. x XOR pkt_data src ! (12 + i)" n] by (simp add: XorPayloads_def)

text \<open>An FEC packet under construction: still empty and clear, or longer than its header.\<close>

definition fec_started :: "nat \<Rightarrow> Packet \<Rightarrow> bool" where
  "fec_started hs f \<longleftrightarrow> length (pkt_data f) = 1500 \<and> (pkt_length f = 0 \<longrightarrow> (\<forall>j<1500. pkt_data f ! j = 0))"

lemma protect_packet_nth:
  assumes "fec_started hs f" "media_ok p" "8 \<le> hs" "hs \<le> 32" "j < 1500"
  shows "pkt_data (protect_packet hs p f) ! j = pkt_data f ! j XOR contrib hs j p"
proof (cases "pkt_length f = 0")
  case True
  have p: "12 \<le> pkt_length p" "pkt_length p \<le> 1480" using assms(2) by (simp_all add: media_ok_def)
  have len: "length (pkt_data f) = 1500" and zero: "pkt_data f ! j = 0" using assms(1,5) True by (simp_all add: fec_started_def)
  have "j = 0 \<or> j = 1 \<or> j = 2 \<or> j = 3 \<or> j = 4 \<or> j = 5 \<or> j = 6 \<or> j = 7 \<or> 8 \<le> j" by auto
  then show ?thesis using True len zero p assms(2-5) unfolding protect_packet_def Let_def
    by (elim disjE) (simp_all add: contrib_def WriteBigEndian2_def memcpy_at_nth media_ok_def)
next
  case False
  have p: "12 \<le> pkt_length p" using assms(2) by (simp add: media_ok_def)
  have len: "length (pkt_data f) = 1500" using assms(1) by (simp add: fec_started_def)
  let ?f = "if hs + (pkt_length p - 12) > pkt_length f then f\<lparr>pkt_length := hs + (pkt_length p - 12)\<rparr> else f"
  have "protect_packet hs p f = XorPayloads p (pkt_length p - 12) hs (XorHeaders p ?f)"
    using False by (simp add: protect_packet_def Let_def)
  moreover have "pkt_data ?f = pkt_data f" by simp
  ultimately have "pkt_data (protect_packet hs p f) ! j = (pkt_data f ! j XOR (if j < 8 then contrib 12 j p else 0)) XOR
      (if hs \<le> j \<and> j < hs + (pkt_length p - 12) then pkt_data p ! (12 + (j - hs)) else 0)"
    using XorPayloads_nth [of j "XorHeaders p ?f" p "pkt_length p - 12" hs] XorHeaders_nth [of ?f p j] len p assms(5) by simp
  then show ?thesis using assms(3) by (auto simp: contrib_def xor.assoc)
qed

lemma protect_packet_shape:
  assumes "media_ok p" "0 < hs" "length (pkt_data f) = 1500"
  shows "pkt_length (protect_packet hs p f) = max (pkt_length f) (hs + (pkt_length p - 12))"
    and "fec_started hs (protect_packet hs p f)"
proof -
  show *: "pkt_length (protect_packet hs p f) = max (pkt_length f) (hs + (pkt_length p - 12))"
    by (auto simp: protect_packet_def Let_def)
  have "length (pkt_data (protect_packet hs p f)) = 1500"
    using assms(3) by (simp add: protect_packet_def Let_def WriteBigEndian2_def)
  then show "fec_started hs (protect_packet hs p f)" using * assms(2) by (simp add: fec_started_def)
qed

subsection \<open>The loop\<close>

lemma protect_fold:
  assumes "fec_started hs f" "\<forall>p\<in>set ps. media_ok p" "8 \<le> hs" "hs \<le> 32"
  shows "fec_started hs (fold (protect_packet hs) ps f)"
    and "j < 1500 \<Longrightarrow> pkt_data (fold (protect_packet hs) ps f) ! j = pkt_data f ! j XOR xsum (contrib hs j) ps"
    and "pkt_length (fold (protect_packet hs) ps f) = (if ps = [] then pkt_length f else max (pkt_length f) (hs + payload_max ps))"
  using assms(1,2)
proof (induction ps arbitrary: f)
  case Nil
  { case 1 then show ?case by simp
  next case 2 then show ?case by simp
  next case 3 then show ?case by simp }
next
  case (Cons p ps)
  have st: "fec_started hs (protect_packet hs p f)" if "fec_started hs f" "media_ok p" for f
    using protect_packet_shape(2) [OF that(2), of hs f] that(1) assms(3) by (simp add: fec_started_def)
  { case 1 then show ?case using Cons.IH(1) st by simp
  next
    case 2
    then show ?case using Cons.IH(2) [of "protect_packet hs p f"] st protect_packet_nth [of hs f p j] assms(3,4) by (simp add: xor.assoc)
  next
    case 3
    have "pkt_length (protect_packet hs p f) = max (pkt_length f) (hs + (pkt_length p - 12))"
      using 3 assms(3) by (intro protect_packet_shape(1)) (auto simp: fec_started_def)
    then show ?case using Cons.IH(3) [of "protect_packet hs p f"] 3 st by (auto simp: payload_max_def max_def) }
qed

text \<open>The column of a packet in the masks: its distance from the first sequence number.\<close>

definition column_of :: "u16 \<Rightarrow> Packet \<Rightarrow> nat" where
  "column_of base p = unat (seq_of p - base)"

definition in_order :: "u16 \<Rightarrow> Packet list \<Rightarrow> bool" where
  "in_order base ps \<longleftrightarrow> sorted_wrt (\<lambda>p q. column_of base p < column_of base q) ps"

lemma column_step:
  assumes "column_of base p < column_of base q"
  shows "unat (seq_of q - seq_of p) = column_of base q - column_of base p"
proof -
  have "seq_of q - seq_of p = (seq_of q - base) - (seq_of p - base)" by simp
  moreover have "seq_of p - base \<le> seq_of q - base" using assms by (simp add: column_of_def word_le_nat_alt)
  ultimately show ?thesis by (simp only: unat_sub column_of_def)
qed

lemma and_bit_push: "(a :: u8) AND push_bit k 1 \<noteq> 0 \<longleftrightarrow> bit a k"
  using and_exp_eq_0_iff_not_bit [of a k] by simp

lemma payload_loop_fold:
  assumes "in_order base (p # ps)" "idx = off + column_of base p div 8" "midx = column_of base p mod 8" "prev = seq_of p"
  shows "payload_loop masks hs idx midx prev (p # ps) f =
    fold (protect_packet hs) (filter (\<lambda>q. bit (masks ! (off + column_of base q div 8)) (7 - column_of base q mod 8)) (p # ps)) f"
  using assms
proof (induction ps arbitrary: p idx midx prev f)
  case Nil
  then show ?case by (simp add: and_exp_eq_0_iff_not_bit)
next
  case (Cons q ps)
  have lt: "column_of base p < column_of base q" using Cons.prems(1) by (simp add: in_order_def)
  have "midx + unat (seq_of q - prev) = column_of base p mod 8 + (column_of base q - column_of base p)"
    using column_step [OF lt] Cons.prems(3,4) by simp
  then have m: "idx * 8 + (midx + unat (seq_of q - prev)) = off * 8 + column_of base q"
    using Cons.prems(2) lt by (simp add: algebra_simps)
  have "(midx + unat (seq_of q - prev)) div 8 + idx = (idx * 8 + (midx + unat (seq_of q - prev))) div 8"
    "(midx + unat (seq_of q - prev)) mod 8 = (idx * 8 + (midx + unat (seq_of q - prev))) mod 8" by simp_all
  then have step: "idx + (midx + unat (seq_of q - prev)) div 8 = off + column_of base q div 8"
    "(midx + unat (seq_of q - prev)) mod 8 = column_of base q mod 8"
    unfolding m by simp_all
  have "in_order base (q # ps)" using Cons.prems(1) by (simp add: in_order_def)
  from Cons.IH [OF this step refl] show ?case
    using Cons.prems(2,3) by (simp add: and_exp_eq_0_iff_not_bit Let_def)
qed

end
