(* ===== verification/XorColumns.thy ===== *)
theory XorColumns
  imports XorPayload
begin

text \<open>
  The insertion of columns for sequence numbers that are not in the list of media packets
  (\<open>InsertZerosInPacketMasks\<close>). The loop builds each row of the new mask bit by bit, the current
  byte aligned to the right with one position to spare. The result has the old columns at the distances
  of the packets from the first one, and zeros elsewhere.
\<close>

subsection \<open>One byte of a row under construction\<close>

text \<open>Byte \<open>b\<close> of a row when the columns below \<open>N\<close> were written.\<close>

definition enc :: "(nat \<Rightarrow> bool) \<Rightarrow> nat \<Rightarrow> nat \<Rightarrow> u8 \<Rightarrow> bool" where
  "enc col N b v \<longleftrightarrow> (\<forall>k<8. bit v k \<longleftrightarrow>
     (if b < N div 8 then col (8 * b + (7 - k))
      else b = N div 8 \<and> 1 \<le> k \<and> k \<le> N mod 8 \<and> col (8 * b + (N mod 8 - k))))"

lemma encI: "(\<And>k. k < 8 \<Longrightarrow> bit v k \<longleftrightarrow> (if b < N div 8 then col (8 * b + (7 - k))
      else b = N div 8 \<and> 1 \<le> k \<and> k \<le> N mod 8 \<and> col (8 * b + (N mod 8 - k)))) \<Longrightarrow> enc col N b v"
  by (simp add: enc_def)

lemma encD: "enc col N b v \<Longrightarrow> k < 8 \<Longrightarrow> bit v k \<longleftrightarrow> (if b < N div 8 then col (8 * b + (7 - k))
      else b = N div 8 \<and> 1 \<le> k \<and> k \<le> N mod 8 \<and> col (8 * b + (N mod 8 - k)))"
  by (simp add: enc_def)

text \<open>The position \<open>N\<close> as byte and bit.\<close>

lemma position: obtains s where "N = 8 * (N div 8) + s" "s = N mod 8" "s < (8 :: nat)"
  by (rule that [of "N mod 8"]) simp_all

lemma position_eq: "s < 8 \<Longrightarrow> (8 * B + s) div 8 = B" "s < 8 \<Longrightarrow> (8 * B + s) mod 8 = (s :: nat)"
  by simp_all

lemma enc_zeros:
  assumes e: "enc col N b v" and out: "\<And>c. N \<le> c \<Longrightarrow> \<not> col c"
  shows "enc col (N + z) b (if b = N div 8 then push_bit (min z (7 - N mod 8)) v else v)"
proof -
  obtain s where s: "N = 8 * (N div 8) + s" "s = N mod 8" "s < 8" by (rule position)
  define B where "B = N div 8"
  have N: "N = 8 * B + s" using s(1) by (simp add: B_def)
  consider "b < B" | "b = B" "s + z < 8" | "b = B" "8 \<le> s + z" | "B < b" by fastforce
  then show ?thesis
  proof cases
    case 1
    then have "b < (N + z) div 8" using N by auto
    then show ?thesis using 1 e unfolding enc_def B_def [symmetric] by auto
  next
    case 2
    have "N + z = 8 * B + (s + z)" using N by simp
    then have q: "(N + z) div 8 = B" "(N + z) mod 8 = s + z" using position_eq [OF 2(2), of B] by (simp_all only:)
    have "enc col (N + z) b (push_bit z v)"
    proof (rule encI)
      fix k :: nat assume k: "k < 8"
      have "bit (push_bit z v) k \<longleftrightarrow> z \<le> k \<and> bit v (k - z)" using k by (auto simp: bit_push_bit_iff)
      also have "\<dots> \<longleftrightarrow> z < k \<and> k \<le> s + z \<and> col (8 * b + (s + z - k))"
      proof (cases "z \<le> k \<and> k \<le> s + z")
        case True
        then have "s - (k - z) = s + z - k" by simp
        then have "bit v (k - z) \<longleftrightarrow> 1 \<le> k - z \<and> k - z \<le> s \<and> col (8 * b + (s + z - k))"
          using encD [OF e, of "k - z"] k 2(1) s(2) by (simp add: B_def)
        then show ?thesis using True by auto
      next
        case False
        then have "\<not> bit v (k - z)" if "z \<le> k"
          using encD [OF e, of "k - z"] k 2(1) s(2) that by (simp add: B_def)
        then show ?thesis using False by auto
      qed
      also have "\<dots> \<longleftrightarrow> 1 \<le> k \<and> k \<le> s + z \<and> col (8 * b + (s + z - k))"
        using out [of "8 * b + (s + z - k)"] N 2(1) by (cases "z < k") auto
      finally show "bit (push_bit z v) k \<longleftrightarrow> (if b < (N + z) div 8 then col (8 * b + (7 - k))
          else b = (N + z) div 8 \<and> 1 \<le> k \<and> k \<le> (N + z) mod 8 \<and> col (8 * b + ((N + z) mod 8 - k)))"
        unfolding q using 2(1) by simp
    qed
    moreover have "min z (7 - N mod 8) = z" using 2(2) s(2) by auto
    ultimately show ?thesis using 2(1) by (simp add: B_def)
  next
    case 3
    have q: "b < (N + z) div 8" using 3 N by auto
    have "enc col (N + z) b (push_bit (7 - s) v)"
    proof (rule encI)
      fix k :: nat assume k: "k < 8"
      have "bit (push_bit (7 - s) v) k \<longleftrightarrow> 7 - s \<le> k \<and> bit v (k - (7 - s))" using k by (auto simp: bit_push_bit_iff)
      also have "\<dots> \<longleftrightarrow> 7 - s < k \<and> col (8 * b + (7 - k))"
      proof (cases "7 - s \<le> k")
        case True
        then have a: "s - (k - (7 - s)) = 7 - k" "k - (7 - s) \<le> s" using k s(3) by simp_all
        have "bit v (k - (7 - s)) \<longleftrightarrow> 1 \<le> k - (7 - s) \<and> k - (7 - s) \<le> s \<and> col (8 * b + (s - (k - (7 - s))))"
          using encD [OF e, of "k - (7 - s)"] k 3(1) s(2) by (simp add: B_def)
        then have "bit v (k - (7 - s)) \<longleftrightarrow> 1 \<le> k - (7 - s) \<and> col (8 * b + (7 - k))" unfolding a(1) using a(2) by simp
        moreover have "1 \<le> k - (7 - s) \<longleftrightarrow> 7 - s < k" using True by linarith
        ultimately show ?thesis using True by blast
      qed simp
      also have "\<dots> \<longleftrightarrow> col (8 * b + (7 - k))" 
      proof (cases "7 - s < k")
        case False
        then have "N \<le> 8 * b + (7 - k)" using N 3(1) s(3) by simp
        then show ?thesis using False out by simp
      qed simp
      finally show "bit (push_bit (7 - s) v) k \<longleftrightarrow> (if b < (N + z) div 8 then col (8 * b + (7 - k))
          else b = (N + z) div 8 \<and> 1 \<le> k \<and> k \<le> (N + z) mod 8 \<and> col (8 * b + ((N + z) mod 8 - k)))"
        using q by simp
    qed
    moreover have "min z (7 - N mod 8) = 7 - s" using 3(2) s(2) by auto
    ultimately show ?thesis using 3(1) by (simp add: B_def)
  next
    case 4
    then have "\<not> bit v k" if "k < 8" for k using encD [OF e that] by (simp add: B_def)
    moreover have "\<not> col c" if "8 * b \<le> c" for c using out [of c] that 4 N s(3) by auto
    ultimately show ?thesis using 4 by (auto simp: enc_def B_def)
  qed
qed

lemma enc_copy:
  assumes e: "enc col N b v" and out: "\<And>c. N \<le> c \<Longrightarrow> \<not> col c" and x: "\<And>k. bit X k \<longleftrightarrow> k = 0 \<and> x"
  shows "enc (col(N := x)) (N + 1) b
    (if b = N div 8 then if N mod 8 \<noteq> 7 then push_bit 1 (v OR X) else v OR X else v)"
proof -
  obtain s where s: "N = 8 * (N div 8) + s" "s = N mod 8" "s < 8" by (rule position)
  define B where "B = N div 8"
  have N: "N = 8 * B + s" using s(1) by (simp add: B_def)
  consider "b < B" | "b = B" "s < 7" | "b = B" "s = 7" | "B < b" using s(3) by fastforce
  then show ?thesis
  proof cases
    case 1
    then have lt: "b < (N + 1) div 8" and ne: "8 * b + (7 - k) \<noteq> N" for k using N by auto
    have "bit v k \<longleftrightarrow> (col(N := x)) (8 * b + (7 - k))" if "k < 8" for k
      using encD [OF e that] 1 ne [of k] by (simp only: B_def fun_upd_apply if_True if_False)
    then show ?thesis using 1 lt by (simp add: enc_def B_def)
  next
    case 2
    have "N + 1 = 8 * B + (s + 1)" "s + 1 < 8" using N 2(2) by simp_all
    then have q: "(N + 1) div 8 = B" "(N + 1) mod 8 = s + 1" using position_eq [of "s + 1" B] by (simp_all only:)
    have "enc (col(N := x)) (N + 1) b (push_bit 1 (v OR X))"
    proof (rule encI)
      fix k :: nat assume k: "k < 8"
      have "bit (push_bit 1 (v OR X)) k \<longleftrightarrow> 1 \<le> k \<and> (bit v (k - 1) \<or> k = 1 \<and> x)"
        unfolding bit_push_bit_iff bit_or_iff x using k by auto
      also have "\<dots> \<longleftrightarrow> 1 \<le> k \<and> k \<le> s + 1 \<and> (col(N := x)) (8 * b + (s + 1 - k))"
      proof -
        have bv: "bit v (k - 1) \<longleftrightarrow> 1 \<le> k - 1 \<and> k - 1 \<le> s \<and> col (8 * b + (s - (k - 1)))"
          using encD [OF e, of "k - 1"] k 2(1) s(2) by (simp add: B_def)
        consider "k = 0" | "k = 1" | "2 \<le> k" by linarith
        then show ?thesis
        proof cases
          case 3
          show ?thesis
          proof (cases "k \<le> s + 1")
            case True
            then have "s - (k - 1) = s + 1 - k" "8 * b + (s + 1 - k) \<noteq> N" using N 2(1) 3 by simp_all
            then show ?thesis using bv 3 True by (simp del: One_nat_def) linarith
          next
            case False
            then show ?thesis using bv 3 by simp
          qed
        qed (use bv N 2(1) in simp_all)
      qed
      finally show "bit (push_bit 1 (v OR X)) k \<longleftrightarrow> (if b < (N + 1) div 8 then (col(N := x)) (8 * b + (7 - k))
          else b = (N + 1) div 8 \<and> 1 \<le> k \<and> k \<le> (N + 1) mod 8 \<and> (col(N := x)) (8 * b + ((N + 1) mod 8 - k)))"
        unfolding q using 2(1) by simp
    qed
    then show ?thesis using 2 s(2) by (simp add: B_def)
  next
    case 3
    have q: "b < (N + 1) div 8" using 3 N by auto
    have "enc (col(N := x)) (N + 1) b (v OR X)"
    proof (rule encI)
      fix k :: nat assume k: "k < 8"
      have "bit (v OR X) k \<longleftrightarrow> bit v k \<or> k = 0 \<and> x" unfolding bit_or_iff x ..
      also have "\<dots> \<longleftrightarrow> (col(N := x)) (8 * b + (7 - k))"
      proof -
        have bv: "bit v k \<longleftrightarrow> 1 \<le> k \<and> k \<le> s \<and> col (8 * b + (s - k))"
          using encD [OF e k] 3(1) s(2) by (simp add: B_def)
        have N7: "N = 8 * b + 7" using N 3 by simp
        show ?thesis
        proof (cases "k = 0")
          case True
          then show ?thesis using bv N7 by simp
        next
          case False
          then have "8 * b + (7 - k) \<noteq> N" using N7 k by simp
          then show ?thesis using bv False k 3(2) by simp
        qed
      qed
      finally show "bit (v OR X) k \<longleftrightarrow> (if b < (N + 1) div 8 then (col(N := x)) (8 * b + (7 - k))
          else b = (N + 1) div 8 \<and> 1 \<le> k \<and> k \<le> (N + 1) mod 8 \<and> (col(N := x)) (8 * b + ((N + 1) mod 8 - k)))"
        using q by simp
    qed
    then show ?thesis using 3 s(2) by (simp add: B_def)
  next
    case 4
    then have v: "\<not> bit v k" if "k < 8" for k using encD [OF e that] by (simp add: B_def)
    have "\<not> b < (N + 1) div 8" using 4 N s(3) by auto
    moreover have "(N + 1) mod 8 = 0" if b: "b = (N + 1) div 8"
    proof -
      have "s = 7"
      proof (rule ccontr)
        assume "s \<noteq> 7"
        then have "(N + 1) div 8 = B" using position_eq(1) [of "s + 1" B] N s(3) by simp
        then show False using b 4 by simp
      qed
      then show ?thesis using N by simp
    qed
    ultimately show ?thesis using v 4 by (auto simp: enc_def B_def)
  qed
qed

lemma enc_align:
  assumes e: "enc col N b v" and out: "\<And>c. N \<le> c \<Longrightarrow> \<not> col c" and "k < 8"
  shows "bit (if N mod 8 \<noteq> 0 \<and> b = N div 8 then push_bit (7 - N mod 8) v else v) k \<longleftrightarrow> col (8 * b + (7 - k))"
proof -
  have far: "enc col (N + 16) b (if b = N div 8 then push_bit (7 - N mod 8) v else v)"
  proof -
    have m: "min 16 (7 - N mod 8) = 7 - N mod 8" by simp
    show ?thesis using enc_zeros [where z = 16, OF e out] unfolding m .
  qed
  show ?thesis
  proof (cases "b \<le> N div 8")
    case True
    then have "b < (N + 16) div 8" by auto
    then have *: "bit (if b = N div 8 then push_bit (7 - N mod 8) v else v) k \<longleftrightarrow> col (8 * b + (7 - k))"
      using encD [OF far assms(3)] by simp
    show ?thesis
    proof (cases "N mod 8 = 0 \<and> b = N div 8")
      case True
      then have "\<not> bit v k" using encD [OF e assms(3)] by simp
      moreover have "\<not> col (8 * b + (7 - k))" using True by (intro out) auto
      ultimately show ?thesis using True by simp
    next
      case False
      then show ?thesis using * by auto
    qed
  next
    case False
    have "\<not> bit v k" using encD [OF e assms(3)] False by simp
    moreover have "N \<le> 8 * b + (7 - k)" using False by (simp add: not_le div_less_iff_less_mult)
    ultimately show ?thesis using False out by simp
  qed
qed

subsection \<open>All rows\<close>

lemma fold_modify_column:
  assumes "cl < k" "n * k \<le> length xs" "j < k" "i * k + j < length xs"
  shows "fold (\<lambda>r xs. xs[r * k + cl := f r (xs ! (r * k + cl))]) [0..<n] xs ! (i * k + j) =
    (if i < n \<and> j = cl then f i (xs ! (i * k + j)) else xs ! (i * k + j))"
  using assms(2)
proof (induction n)
  case 0
  then show ?case by simp
next
  case (Suc n)
  let ?g = "\<lambda>n. fold (\<lambda>r xs. xs[r * k + cl := f r (xs ! (r * k + cl))]) [0..<n] xs"
  have len: "length (?g n) = length xs" by (rule fold_keeps [where g = length]) simp
  have IH: "?g n ! (i * k + j) = (if i < n \<and> j = cl then f i (xs ! (i * k + j)) else xs ! (i * k + j))" using Suc by simp
  show ?case
  proof (cases "i = n \<and> j = cl")
    case True
    then show ?thesis using IH len assms(4) by simp
  next
    case False
    then have "i * k + j \<noteq> n * k + cl" using assms(1,3) by simp
    then show ?thesis using IH False by (auto simp: less_Suc_eq)
  qed
qed

lemma fold_modify_column_length: "length (fold (\<lambda>r xs. xs[r * k + cl := f r (xs ! (r * k + cl))]) [0..<n] xs) = length xs"
  by (rule fold_keeps [where g = length]) simp

lemma InsertZeroColumns_nth:
  assumes "N div 8 < w'" "n * w' \<le> length nm" "i < n" "b < w'"
  shows "InsertZeroColumns z nm w' n N ! (i * w' + b) =
    (if b = N div 8 then push_bit (min z (7 - N mod 8)) (nm ! (i * w' + b)) else nm ! (i * w' + b))"
  using fold_modify_column [OF assms(1,2,4), of i "\<lambda>_. push_bit (min z (7 - N mod 8))"] cell_bound [OF assms(3,4)] assms(2,3)
  by (simp add: InsertZeroColumns_def Let_def)

lemma InsertZeroColumns_length [len_simps, simp]: "length (InsertZeroColumns z nm w' n N) = length nm"
  unfolding InsertZeroColumns_def Let_def by (rule fold_modify_column_length)

definition copied :: "nat \<Rightarrow> u8 \<Rightarrow> u8 \<Rightarrow> u8" where
  "copied N v ov = (if N mod 8 \<noteq> 7 then push_bit 1 (v OR drop_bit 7 (ov AND 0x80)) else v OR drop_bit 7 (ov AND 0x80))"

lemma copy_rows:
  assumes "N div 8 < w'" "k div 8 < w" "n * w' \<le> length nm" "n * w \<le> length om"
    and "fold (copy_column_row w' w N k) [0..<n] (nm, om) = (nm', om')"
  shows "length nm' = length nm \<and> length om' = length om \<and>
    (\<forall>i b. i * w' + b < length nm \<longrightarrow> b < w' \<longrightarrow> nm' ! (i * w' + b) =
       (if i < n \<and> b = N div 8 then copied N (nm ! (i * w' + b)) (om ! (i * w + k div 8)) else nm ! (i * w' + b))) \<and>
    (\<forall>i b. i * w + b < length om \<longrightarrow> b < w \<longrightarrow> om' ! (i * w + b) =
       (if i < n \<and> b = k div 8 then push_bit 1 (om ! (i * w + b)) else om ! (i * w + b)))"
  using assms(3-5)
proof (induction n arbitrary: nm' om')
  case 0
  then show ?case by simp
next
  case (Suc n)
  obtain nm1 om1 where s1: "fold (copy_column_row w' w N k) [0..<n] (nm, om) = (nm1, om1)" by fastforce
  have IH: "length nm1 = length nm" "length om1 = length om"
    "\<And>i b. i * w' + b < length nm \<Longrightarrow> b < w' \<Longrightarrow> nm1 ! (i * w' + b) =
       (if i < n \<and> b = N div 8 then copied N (nm ! (i * w' + b)) (om ! (i * w + k div 8)) else nm ! (i * w' + b))"
    "\<And>i b. i * w + b < length om \<Longrightarrow> b < w \<Longrightarrow> om1 ! (i * w + b) =
       (if i < n \<and> b = k div 8 then push_bit 1 (om ! (i * w + b)) else om ! (i * w + b))"
    using Suc.IH [OF _ _ s1] Suc.prems(1,2) by simp_all
  have in1: "n * w' + N div 8 < length nm" using cell_bound [of n "Suc n" "N div 8" w'] assms(1) Suc.prems(1) by simp
  have in2: "n * w + k div 8 < length om" using cell_bound [of n "Suc n" "k div 8" w] assms(2) Suc.prems(2) by simp
  have cells: "nm1 ! (n * w' + N div 8) = nm ! (n * w' + N div 8)" "om1 ! (n * w + k div 8) = om ! (n * w + k div 8)"
    using IH(3) [OF in1 assms(1)] IH(4) [OF in2 assms(2)] by simp_all
  have "(nm', om') = copy_column_row w' w N k n (nm1, om1)" using Suc.prems(3) s1 by simp
  then have new: "nm' = nm1[n * w' + N div 8 := copied N (nm ! (n * w' + N div 8)) (om ! (n * w + k div 8))]"
    "om' = om1[n * w + k div 8 := push_bit 1 (om ! (n * w + k div 8))]"
    using cells in1 IH(1) by (simp_all add: copy_column_row_def Let_def copied_def)
  have A: "nm' ! (i * w' + b) = (if i < Suc n \<and> b = N div 8 then copied N (nm ! (i * w' + b)) (om ! (i * w + k div 8)) else nm ! (i * w' + b))"
    if "i * w' + b < length nm" "b < w'" for i b
  proof (cases "i = n \<and> b = N div 8")
    case True
    then show ?thesis using that IH(1) by (simp add: new(1))
  next
    case False
    then have "i * w' + b \<noteq> n * w' + N div 8" using that(2) assms(1) by simp
    then show ?thesis using IH(3) [OF that] False by (auto simp: new(1) less_Suc_eq)
  qed
  have B: "om' ! (i * w + b) = (if i < Suc n \<and> b = k div 8 then push_bit 1 (om ! (i * w + b)) else om ! (i * w + b))"
    if "i * w + b < length om" "b < w" for i b
  proof (cases "i = n \<and> b = k div 8")
    case True
    then show ?thesis using that IH(2) by (simp add: new(2))
  next
    case False
    then have "i * w + b \<noteq> n * w + k div 8" using that(2) assms(2) by simp
    then show ?thesis using IH(4) [OF that] False by (auto simp: new(2) less_Suc_eq)
  qed
  show ?case using A B IH(1,2) by (auto simp: new)
qed

lemma top_bit_down: "bit (drop_bit 7 ((v :: u8) AND 0x80)) k \<longleftrightarrow> k = 0 \<and> bit v 7"
proof -
  have p7: "(0x80 :: u8) = 2 ^ 7" by simp
  show ?thesis unfolding p7 bit_drop_bit_eq comp_apply bit_and_iff bit_exp_iff by auto
qed

lemma enc_copied:
  assumes "enc col N b v" "\<And>c. N \<le> c \<Longrightarrow> \<not> col c"
  shows "enc (col(N := bit ov 7)) (N + 1) b (if b = N div 8 then copied N v ov else v)"
  using enc_copy [OF assms top_bit_down [of ov]] unfolding copied_def .

subsection \<open>The loop\<close>

text \<open>The columns of the new mask once the packets with the columns \<open>ds\<close> were copied.\<close>

definition placed_bits :: "nat \<Rightarrow> u8 list \<Rightarrow> nat list \<Rightarrow> nat \<Rightarrow> nat \<Rightarrow> bool" where
  "placed_bits w pm ds r c \<longleftrightarrow> (\<exists>i<length ds. ds ! i = c \<and> mask_bit w pm r i)"

lemma placed_bits_snoc:
  assumes "d \<notin> set ds"
  shows "(placed_bits w pm ds r)(d := mask_bit w pm r (length ds)) = placed_bits w pm (ds @ [d]) r"
proof
  fix c
  show "((placed_bits w pm ds r)(d := mask_bit w pm r (length ds))) c = placed_bits w pm (ds @ [d]) r c"
  proof (cases "c = d")
    case True
    have "i = length ds" if "i < Suc (length ds)" "(ds @ [d]) ! i = d" for i
      using that assms by (cases "i = length ds") (auto simp: nth_append)
    then show ?thesis using True by (auto simp: placed_bits_def intro: exI [of _ "length ds"])
  next
    case False
    have "(\<exists>i<Suc (length ds). (ds @ [d]) ! i = c \<and> mask_bit w pm r i) \<longleftrightarrow> (\<exists>i<length ds. ds ! i = c \<and> mask_bit w pm r i)"
      using False unfolding Ex_less_Suc by (simp add: nth_append cong: conj_cong)
    then show ?thesis using False by (simp add: placed_bits_def)
  qed
qed

text \<open>The old mask after \<open>k\<close> columns were shifted out of it.\<close>

definition shifted_out :: "nat \<Rightarrow> nat \<Rightarrow> u8 list \<Rightarrow> nat \<Rightarrow> u8 list \<Rightarrow> bool" where
  "shifted_out w n pm k om \<longleftrightarrow> length om = length pm \<and>
     (\<forall>i<n. \<forall>b<w. k div 8 \<le> b \<longrightarrow> om ! (i * w + b) = (if b = k div 8 then push_bit (k mod 8) (pm ! (i * w + b)) else pm ! (i * w + b)))"

lemma shifted_out_bit:
  assumes "shifted_out w n pm k om" "i < n" "k div 8 < w"
  shows "bit (om ! (i * w + k div 8)) 7 \<longleftrightarrow> mask_bit w pm i k"
proof -
  have "om ! (i * w + k div 8) = push_bit (k mod 8) (pm ! (i * w + k div 8))" using assms by (simp add: shifted_out_def)
  moreover have "k mod 8 < 8" by simp
  then have "k mod 8 \<le> 7" by linarith
  ultimately show ?thesis unfolding mask_bit_def by (simp only: bit_push_bit_iff) simp
qed

lemma shifted_out_Suc:
  assumes "shifted_out w n pm k om" "k div 8 < w" "n * w \<le> length pm" "length om' = length om"
    and om': "\<And>i b. i * w + b < length om \<Longrightarrow> b < w \<Longrightarrow>
      om' ! (i * w + b) = (if i < n \<and> b = k div 8 then push_bit 1 (om ! (i * w + b)) else om ! (i * w + b))"
  shows "shifted_out w n pm (k + 1) om'"
  unfolding shifted_out_def
proof (intro conjI allI impI)
  show "length om' = length pm" using assms(1,4) by (simp add: shifted_out_def)
  fix i b assume i: "i < n" "b < w" "(k + 1) div 8 \<le> b"
  have "i * w + b < length om" using cell_bound [OF i(1,2)] assms(1,3) by (simp add: shifted_out_def)
  then have o1: "om' ! (i * w + b) = (if b = k div 8 then push_bit 1 (om ! (i * w + b)) else om ! (i * w + b))" using om' i by simp
  have o2: "om ! (i * w + b) = (if b = k div 8 then push_bit (k mod 8) (pm ! (i * w + b)) else pm ! (i * w + b))"
    if "k div 8 \<le> b" using assms(1) i that by (simp add: shifted_out_def)
  obtain s where s: "k = 8 * (k div 8) + s" "s = k mod 8" "s < 8" by (rule position)
  show "om' ! (i * w + b) = (if b = (k + 1) div 8 then push_bit ((k + 1) mod 8) (pm ! (i * w + b)) else pm ! (i * w + b))"
  proof (cases "s < 7")
    case True
    then have e: "(k + 1) div 8 = k div 8" "(k + 1) mod 8 = s + 1" using position_eq [of "s + 1" "k div 8"] s by simp_all
    have "push_bit 1 (push_bit (k mod 8) (pm ! (i * w + b))) = push_bit (s + 1) (pm ! (i * w + b))"
      unfolding push_bit_push_bit s(2) by (simp only: add.commute)
    then have "b = k div 8 \<Longrightarrow> om' ! (i * w + b) = push_bit (s + 1) (pm ! (i * w + b))"
      using o1 o2 by (simp only: if_True refl le_refl)
    moreover have "b \<noteq> k div 8 \<Longrightarrow> om' ! (i * w + b) = pm ! (i * w + b)" using o1 o2 i(3) unfolding e by simp
    ultimately show ?thesis unfolding e by presburger
  next
    case False
    then have "s = 7" using s(3) by simp
    then have "k + 1 = 8 * (k div 8 + 1) + 0" using s(1) by simp
    then have e: "(k + 1) div 8 = k div 8 + 1" "(k + 1) mod 8 = 0" using position_eq [of 0 "k div 8 + 1"] by (simp_all only: zero_less_numeral)
    then show ?thesis using o1 o2 i(3) by auto
  qed
qed

text \<open>The state of the loop after the packets with columns \<open>ds\<close>.\<close>

definition loop_state :: "nat \<Rightarrow> nat \<Rightarrow> nat \<Rightarrow> u8 list \<Rightarrow> nat list \<Rightarrow> nat \<Rightarrow> u8 list \<times> u8 list \<Rightarrow> bool" where
  "loop_state w' w n pm ds N masks \<longleftrightarrow> n * w' \<le> length (fst masks) \<and> n * w \<le> length pm \<and>
     shifted_out w n pm (length ds) (snd masks) \<and> (\<forall>d\<in>set ds. d < N) \<and>
     (\<forall>i<n. \<forall>b<w'. enc (placed_bits w pm ds i) N b (fst masks ! (i * w' + b)))"

lemma placed_bits_out: "\<forall>d\<in>set ds. d < N \<Longrightarrow> N \<le> c \<Longrightarrow> \<not> placed_bits w pm ds r c"
  by (auto simp: placed_bits_def) (metis leD nth_mem)

lemma loop_state_zeros:
  assumes "loop_state w' w n pm ds N (nm, om)" "N div 8 < w'"
  shows "loop_state w' w n pm ds (N + z) (if z > 0 then (InsertZeroColumns z nm w' n N, om) else (nm, om))"
proof (cases "z = 0")
  case False
  have out: "\<not> placed_bits w pm ds i c" if "N \<le> c" for i c using assms(1) placed_bits_out [of ds N c w pm i] that by (simp add: loop_state_def)
  have "enc (placed_bits w pm ds i) (N + z) b (InsertZeroColumns z nm w' n N ! (i * w' + b))" if "i < n" "b < w'" for i b
  proof -
    have e: "enc (placed_bits w pm ds i) N b (nm ! (i * w' + b))" using assms(1) that by (simp add: loop_state_def)
    show ?thesis using enc_zeros [OF e out, of z] InsertZeroColumns_nth [OF assms(2) _ that, of nm z] assms(1)
      by (simp add: loop_state_def)
  qed
  then show ?thesis using assms(1) False by (auto simp: loop_state_def)
qed (use assms in simp)

lemma loop_state_copy:
  assumes "loop_state w' w n pm ds N masks" "N div 8 < w'" "length ds div 8 < w"
  shows "\<exists>masks'. CopyColumn w' w n N (length ds) masks = Some masks' \<and> loop_state w' w n pm (ds @ [N]) (N + 1) masks'"
proof -
  obtain nm om where m: "masks = (nm, om)" by fastforce
  obtain nm' om' where c: "fold (copy_column_row w' w N (length ds)) [0..<n] (nm, om) = (nm', om')" by fastforce
  have st: "n * w' \<le> length nm" "n * w \<le> length pm" "shifted_out w n pm (length ds) om" "\<forall>d\<in>set ds. d < N"
    "\<And>i b. i < n \<Longrightarrow> b < w' \<Longrightarrow> enc (placed_bits w pm ds i) N b (nm ! (i * w' + b))"
    using assms(1) by (simp_all add: loop_state_def m)
  have om: "n * w \<le> length om" using st(2,3) by (simp add: shifted_out_def)
  note cp = copy_rows [OF assms(2,3) st(1) om c]
  have sh: "shifted_out w n pm (length ds + 1) om'"
    by (rule shifted_out_Suc [OF st(3) assms(3) st(2)]) (use cp in blast)+
  have new: "enc (placed_bits w pm (ds @ [N]) i) (N + 1) b (nm' ! (i * w' + b))" if "i < n" "b < w'" for i b
  proof -
    have "i * w' + b < length nm" using cell_bound [OF that] st(1) by simp
    then have v: "nm' ! (i * w' + b) = (if b = N div 8 then copied N (nm ! (i * w' + b)) (om ! (i * w + length ds div 8)) else nm ! (i * w' + b))"
      using cp that by simp
    have out: "\<not> placed_bits w pm ds i c" if "N \<le> c" for c using placed_bits_out [OF st(4) that] .
    have "N \<notin> set ds" using st(4) by blast
    then have col: "(placed_bits w pm ds i)(N := bit (om ! (i * w + length ds div 8)) 7) = placed_bits w pm (ds @ [N]) i"
      unfolding shifted_out_bit [OF st(3) that(1) assms(3)] by (rule placed_bits_snoc)
    show ?thesis unfolding v using enc_copied [OF st(5) [OF that] out, of "om ! (i * w + length ds div 8)"] unfolding col .
  qed
  have "N < 8 * w'" using assms(2) by (simp add: div_less_iff_less_mult mult.commute)
  then have "CopyColumn w' w n N (length ds) masks = Some (nm', om')" using c by (simp add: CopyColumn_def m)
  moreover have "loop_state w' w n pm (ds @ [N]) (N + 1) (nm', om')"
    unfolding loop_state_def using st cp sh new by auto
  ultimately show ?thesis by blast
qed

lemma insert_zeros_loop_spec:
  assumes "in_order base (q # ps)" "\<forall>p\<in>set ps. column_of base p < 8 * w'" "w' \<le> 6"
    and "loop_state w' w n pm ds (column_of base q + 1) masks" "length ds + length ps \<le> 8 * w"
  shows "\<exists>N masks'. insert_zeros_loop 48 w' w n (column_of base q + 1) (length ds) (seq_of q) ps masks = Some (N, masks') \<and>
    N = column_of base (last (q # ps)) + 1 \<and> loop_state w' w n pm (ds @ map (column_of base) ps) N masks'"
  using assms
proof (induction ps arbitrary: q ds masks)
  case Nil
  then show ?case by simp
next
  case (Cons p ps)
  have lt: "column_of base q < column_of base p" and ord: "in_order base (p # ps)" using Cons.prems(1) by (auto simp: in_order_def)
  have p: "column_of base p < 8 * w'" using Cons.prems(2) by simp
  define z where "z = unat (seq_of p - seq_of q - 1)"
  have "unat (seq_of p - seq_of q) = column_of base p - column_of base q" by (rule column_step [OF lt])
  then have z: "column_of base q + 1 + z = column_of base p"
    using lt unfolding z_def by (subst unat_minus_one) auto
  have ne: "column_of base q + 1 \<noteq> 48" and small: "(column_of base q + 1) div 8 < w'" "column_of base p div 8 < w'"
    using p lt Cons.prems(3) by (auto simp: div_less_iff_less_mult)
  obtain nm om where m: "masks = (nm, om)" by fastforce
  define masks1 where "masks1 = (if z > 0 then (InsertZeroColumns z (fst masks) w' n (column_of base q + 1), snd masks) else masks)"
  have st1: "loop_state w' w n pm ds (column_of base p) masks1"
    using loop_state_zeros [OF _ small(1), of w n pm ds nm om z] Cons.prems(4)
    unfolding z masks1_def m fst_conv snd_conv by blast
  have "length ds div 8 < w" using Cons.prems(5) by (simp add: div_less_iff_less_mult)
  then obtain masks2 where m2: "CopyColumn w' w n (column_of base p) (length ds) masks1 = Some masks2"
    "loop_state w' w n pm (ds @ [column_of base p]) (column_of base p + 1) masks2"
    using loop_state_copy [OF st1 small(2)] by blast
  have step: "insert_zeros_loop 48 w' w n (column_of base q + 1) (length ds) (seq_of q) (p # ps) masks =
      insert_zeros_loop 48 w' w n (column_of base p + 1) (length (ds @ [column_of base p])) (seq_of p) ps masks2"
    using ne m2(1) unfolding insert_zeros_loop.simps Let_def z_def [symmetric] masks1_def [symmetric] z by simp
  show ?case unfolding step
    using Cons.IH [OF ord _ Cons.prems(3) m2(2)] Cons.prems(2,5) by simp
qed

subsection \<open>The whole function\<close>

text \<open>What the caller may rely on: row \<open>i\<close> of the masks has the bit of packet \<open>p\<close> in the column of \<open>p\<close>.\<close>

definition masks_for :: "nat \<Rightarrow> u8 list \<Rightarrow> (nat \<Rightarrow> nat \<Rightarrow> bool) \<Rightarrow> nat list \<Rightarrow> nat \<Rightarrow> bool" where
  "masks_for w pm bits ds n \<longleftrightarrow>
     (\<forall>i<n. \<forall>c<8 * w. mask_bit w pm i c \<longleftrightarrow> (\<exists>k<length ds. ds ! k = c \<and> bits i k))"

lemma align_rows_nth:
  assumes "N div 8 < w' \<or> N mod 8 = 0" "n * w' \<le> length nm" "i < n" "b < w'"
  shows "align_rows w' n N nm ! (i * w' + b) =
    (if N mod 8 \<noteq> 0 \<and> b = N div 8 then push_bit (7 - N mod 8) (nm ! (i * w' + b)) else nm ! (i * w' + b))"
proof (cases "N mod 8 = 0")
  case False
  have "i * w' + b < length nm" using cell_bound [OF assms(3,4)] assms(2) by simp
  then show ?thesis using False assms fold_modify_column [of "N div 8" w' n nm b i "\<lambda>_. push_bit (7 - N mod 8)"]
    by (simp add: align_rows_def)
qed (simp add: align_rows_def)

lemma align_rows_length [len_simps, simp]: "length (align_rows w' n N nm) = length nm"
  unfolding align_rows_def using fold_modify_column_length [of w' "N div 8" "\<lambda>_. push_bit (7 - N mod 8)" n nm] by simp

lemma loop_state_start:
  assumes "n * w' \<le> length nm" "n * w \<le> length pm" "\<forall>j<n * w'. nm ! j = 0"
  shows "loop_state w' w n pm [] 0 (nm, pm)"
proof -
  have "enc (placed_bits w pm [] i) 0 b (nm ! (i * w' + b))" if "i < n" "b < w'" for i b
    using assms(3) cell_bound [OF that] by (simp add: enc_def)
  then show ?thesis using assms(1,2) by (simp add: loop_state_def shifted_out_def)
qed

lemma loop_state_masks:
  assumes "loop_state w' w n pm ds N (nm, om)" "N \<le> 8 * w'" "n * w' \<le> length om"
  shows "masks_for w' (memcpy_at om 0 (align_rows w' n N nm) (n * w')) (mask_bit w pm) ds n"
proof -
  have st: "n * w' \<le> length nm" "\<forall>d\<in>set ds. d < N" "\<And>i b. i < n \<Longrightarrow> b < w' \<Longrightarrow> enc (placed_bits w pm ds i) N b (nm ! (i * w' + b))"
    using assms(1) by (simp_all add: loop_state_def)
  have ok: "N div 8 < w' \<or> N mod 8 = 0" using assms(2) by (auto simp: div_less_iff_less_mult le_less)
  have "mask_bit w' (memcpy_at om 0 (align_rows w' n N nm) (n * w')) i c \<longleftrightarrow> placed_bits w pm ds i c" if "i < n" "c < 8 * w'" for i c
  proof -
    have b: "c div 8 < w'" using that(2) by (simp add: div_less_iff_less_mult mult.commute)
    have k: "7 - c mod 8 < 8" "8 * (c div 8) + (7 - (7 - c mod 8)) = c"
    proof -
      have "c mod 8 < 8" by simp
      then have "7 - (7 - c mod 8) = c mod 8" by linarith
      then show "8 * (c div 8) + (7 - (7 - c mod 8)) = c" by simp
    qed simp
    have "i * w' + c div 8 < n * w'" using cell_bound [OF that(1) b] .
    then have "memcpy_at om 0 (align_rows w' n N nm) (n * w') ! (i * w' + c div 8) = align_rows w' n N nm ! (i * w' + c div 8)"
      using assms(3) by (simp add: memcpy_at_nth)
    then show ?thesis
      using enc_align [OF st(3) [OF that(1) b] placed_bits_out [OF st(2)] k(1)] align_rows_nth [OF ok st(1) that(1) b]
      unfolding mask_bit_def k(2) by simp
  qed
  then show ?thesis by (simp add: masks_for_def placed_bits_def)
qed

lemma column_of_head [simp]: "column_of (seq_of p) p = 0"
  by (simp add: column_of_def)

lemma in_order_mono:
  assumes "in_order base ps" "i < j" "j < length ps"
  shows "column_of base (ps ! i) < column_of base (ps ! j)"
  using sorted_wrt_nth_less [OF assms(1) [unfolded in_order_def] assms(2,3)] .

lemma in_order_last:
  assumes "in_order (seq_of (hd ps)) ps" "ps \<noteq> []"
  shows "length ps \<le> column_of (seq_of (hd ps)) (last ps) + 1" "p \<in> set ps \<Longrightarrow> column_of (seq_of (hd ps)) p \<le> column_of (seq_of (hd ps)) (last ps)"
proof -
  let ?c = "column_of (seq_of (hd ps))"
  have ge: "i \<le> ?c (ps ! i)" if "i < length ps" for i
    using that
  proof (induction i)
    case (Suc i)
    then show ?case using in_order_mono [OF assms(1), of i "Suc i"] by simp
  qed simp
  show "length ps \<le> ?c (last ps) + 1" using ge [of "length ps - 1"] assms(2) by (simp add: last_conv_nth)
  show "?c p \<le> ?c (last ps)" if p: "p \<in> set ps"
  proof -
    obtain i where i: "i < length ps" "p = ps ! i" using p unfolding in_set_conv_nth by blast
    have last: "last ps = ps ! (length ps - 1)" using assms(2) by (rule last_conv_nth)
    show ?thesis
    proof (cases "i = length ps - 1")
      case False
      then have "i < length ps - 1" using i(1) by simp
      then have "?c (ps ! i) < ?c (ps ! (length ps - 1))" by (intro in_order_mono [OF assms(1)]) simp_all
      then show ?thesis unfolding i(2) last by (rule less_imp_le)
    qed (simp add: i(2) last)
  qed
qed

lemma missing_count:
  assumes "m \<le> L + 1" "L < 48"
  shows "(of_nat L - of_nat m + 1 :: u64) = of_nat (L + 1 - m)"
  using assms by (simp add: of_nat_diff algebra_simps)

lemma word_of_nat_ucast_seq: "ucast (x :: u16) = (of_nat (unat x) :: u64)"
  by (rule bit_word_eqI) (simp add: bit_simps)

lemma small_u64: "n < 1000 \<Longrightarrow> unat (of_nat n :: u64) = n"
  by (simp add: unsigned_of_nat take_bit_nat_eq_self)

lemma small_u64_0: "n < 1000 \<Longrightarrow> (of_nat n :: u64) = 0 \<longleftrightarrow> n = 0"
  by (simp add: unat_eq_0 [symmetric] small_u64)

text \<open>Without gaps column \<open>k\<close> belongs to packet \<open>k\<close>.\<close>

lemma in_order_dense:
  assumes "in_order (seq_of (hd ps)) ps" "column_of (seq_of (hd ps)) (last ps) + 1 = length ps" "k < length ps"
  shows "column_of (seq_of (hd ps)) (ps ! k) = k"
proof -
  let ?c = "column_of (seq_of (hd ps))"
  have lo: "i \<le> ?c (ps ! i)" if "i < length ps" for i
    using that
  proof (induction i)
    case (Suc i)
    then show ?case using in_order_mono [OF assms(1), of i "Suc i"] by simp
  qed simp
  have hi: "?c (ps ! (length ps - 1 - i)) + i \<le> length ps - 1" if "i < length ps" for i
    using that
  proof (induction i)
    case 0
    then show ?case using assms(2) by (simp add: last_conv_nth)
  next
    case (Suc i)
    have "?c (ps ! (length ps - 1 - Suc i)) < ?c (ps ! (length ps - 1 - i))"
      using Suc.prems by (intro in_order_mono [OF assms(1)]) simp_all
    then show ?case using Suc by simp
  qed
  have "length ps - 1 - (length ps - 1 - k) = k" using assms(3) by simp
  moreover have "length ps - 1 - k < length ps" using assms(3) by linarith
  ultimately have "?c (ps ! k) + (length ps - 1 - k) \<le> length ps - 1" using hi [of "length ps - 1 - k"] by (simp only:)
  then show ?thesis using lo [OF assms(3)] assms(3) by linarith
qed

lemma masks_for_dense:
  assumes "\<And>k. k < m \<Longrightarrow> ds ! k = k" "length ds = m" "\<And>i c. i < n \<Longrightarrow> c < 8 * w \<Longrightarrow> m \<le> c \<Longrightarrow> \<not> mask_bit w pm i c"
  shows "masks_for w pm (mask_bit w pm) ds n"
proof -
  have "mask_bit w pm i c \<longleftrightarrow> (\<exists>k<length ds. ds ! k = c \<and> mask_bit w pm i k)" if "i < n" "c < 8 * w" for i c
    using assms(1,2) assms(3) [OF that] by (cases "c < m") auto
  then show ?thesis by (simp add: masks_for_def)
qed

lemma InsertZeros_spec:
  fixes s :: ForwardErrorCorrection and ps :: "Packet list"
  defines "L \<equiv> column_of (seq_of (hd ps)) (last ps)" and "w \<equiv> cur_mask_size s"
  assumes ps: "ps \<noteq> []" "in_order (seq_of (hd ps)) ps" "L < 48"
    and s: "w_max_media_packets (fec_header_writer s) = 48" "w = PacketMaskSize (length ps)" "length (packet_masks s) = 288"
      "length (tmp_packet_masks s) = 288" "n \<le> 48"
    and out: "\<And>i c. i < n \<Longrightarrow> c < 8 * w \<Longrightarrow> length ps \<le> c \<Longrightarrow> \<not> mask_bit w (packet_masks s) i c"
  shows "\<exists>pm tmp. InsertZerosInPacketMasks ps n s = Some (int (L + 1), s\<lparr>packet_masks := pm, tmp_packet_masks := tmp\<rparr>) \<and>
    length pm = 288 \<and> masks_for (PacketMaskSize (L + 1)) pm (mask_bit w (packet_masks s)) (map (column_of (seq_of (hd ps))) ps) n"
proof -
  let ?m = "length ps" and ?c = "column_of (seq_of (hd ps))"
  have m: "?m \<le> L + 1" "0 < ?m" using in_order_last(1) [OF ps(2,1)] ps(1) by (simp_all add: L_def)
  have ucast_L: "ucast (seq_of (last ps) - seq_of (hd ps)) = (of_nat L :: u64)"
    unfolding L_def column_of_def by (rule word_of_nat_ucast_seq)
  have missing: "ucast (seq_of (last ps) - seq_of (hd ps)) - of_nat ?m + 1 = (of_nat (L + 1 - ?m) :: u64)"
    unfolding ucast_L by (rule missing_count [OF m(1) ps(3)])
  have zero: "(of_nat (L + 1 - ?m) :: u64) = 0 \<longleftrightarrow> L + 1 = ?m" using small_u64_0 [of "L + 1 - ?m"] m(1) ps(3) by auto
  have "(of_nat (L + 1 - ?m) + of_nat ?m :: u64) = of_nat (L + 1 - ?m + ?m)" by (rule of_nat_add [symmetric])
  also have "L + 1 - ?m + ?m = L + 1" using m(1) by simp
  finally have total: "unat (of_nat (L + 1 - ?m) + of_nat ?m :: u64) = L + 1" using small_u64 [of "L + 1"] ps(3) by simp
  show ?thesis
  proof (cases "L + 1 = ?m")
    case True
    have "InsertZerosInPacketMasks ps n s = Some (int (L + 1), s)"
      using True missing zero unfolding InsertZerosInPacketMasks_def Let_def missing by simp
    moreover have "masks_for (PacketMaskSize (L + 1)) (packet_masks s) (mask_bit w (packet_masks s)) (map ?c ps) n"
      unfolding True s(2) [symmetric] using in_order_dense [OF ps(2)] True out by (intro masks_for_dense) (auto simp: L_def)
    ultimately show ?thesis using s(3) by (intro exI [of _ "packet_masks s"] exI [of _ "tmp_packet_masks s"]) simp
  next
    case False
    have two: "\<not> ?m \<le> 1"
    proof
      assume "?m \<le> 1"
      then have "last ps = hd ps" using ps(1) by (cases ps) auto
      then show False using False m by (simp add: L_def)
    qed
    let ?w' = "PacketMaskSize (L + 1)" and ?tmp = "memset0 (tmp_packet_masks s) 0 (n * PacketMaskSize (L + 1))"
    have w': "?w' \<le> 6" "L < 8 * ?w'" "n * ?w' \<le> 288" using ps(3) s(5) by (auto simp: PacketMaskSize_def)
    have w: "0 < w" "w \<le> 6" "n * w \<le> 288" "?m \<le> 8 * w" using s(2,5) m(1) ps(3) by (auto simp: PacketMaskSize_def)
    obtain q qs where q: "ps = q # qs" using ps(1) by (cases ps) auto
    have start: "loop_state ?w' w n (packet_masks s) [] 0 (?tmp, packet_masks s)"
      using w'(3) w(3) s(3,4) by (intro loop_state_start) (auto simp: memset0_nth)
    have pos: "0 div 8 < ?w'" "length ([] :: nat list) div 8 < w" using w(1) by (simp_all add: PacketMaskSize_def)
    obtain masks1 where m1: "CopyColumn ?w' w n 0 0 (?tmp, packet_masks s) = Some masks1"
      "loop_state ?w' w n (packet_masks s) [0] 1 masks1"
      using loop_state_copy [OF start pos] by auto
    have ord: "in_order (seq_of q) (q # qs)" using ps(2) q by simp
    have cols: "\<forall>p\<in>set qs. column_of (seq_of q) p < 8 * ?w'"
    proof
      fix p assume "p \<in> set qs"
      then have "column_of (seq_of q) p \<le> L" using in_order_last(2) [OF ps(2,1), of p] q by (simp add: L_def)
      then show "column_of (seq_of q) p < 8 * ?w'" using w'(2) by (rule le_less_trans)
    qed
    have st: "loop_state ?w' w n (packet_masks s) [0] (column_of (seq_of q) q + 1) masks1" using m1(2) by simp
    have "length [0 :: nat] + length qs \<le> 8 * w" using w(4) q by simp
    from insert_zeros_loop_spec [OF ord cols w'(1) st this]
    obtain nm om where lp: "insert_zeros_loop 48 ?w' w n 1 1 (seq_of q) qs masks1 = Some (L + 1, nm, om)"
      "loop_state ?w' w n (packet_masks s) (map ?c ps) (L + 1) (nm, om)"
      using q by (auto simp: L_def)
    let ?nm = "align_rows ?w' n (L + 1) nm"
    have om: "length om = 288" using lp(2) s(3) by (simp add: loop_state_def shifted_out_def)
    have "masks_for ?w' (memcpy_at om 0 ?nm (n * ?w')) (mask_bit w (packet_masks s)) (map ?c ps) n"
      using loop_state_masks [OF lp(2)] w' om by simp
    moreover have "InsertZerosInPacketMasks ps n s =
        Some (int (L + 1), s\<lparr>packet_masks := memcpy_at om 0 ?nm (n * ?w'), tmp_packet_masks := ?nm\<rparr>)"
      using two False zero total ps(3) s(1) m1(1) lp(1) unfolding InsertZerosInPacketMasks_def Let_def missing w_def
      by (simp add: q)
    ultimately show ?thesis using om by auto
  qed
qed

end
