(* ===== verification/XorDecode.thy ===== *)
theory XorDecode
  imports XorFec
begin

text \<open>
  The decoder of the XOR code (\<open>ForwardErrorCorrection::DecodeFec\<close> and what it calls). The state is
  the list of received FEC packets of the class and the caller's list of recovered packets. The loop
  of \<open>AttemptRecovery\<close> starts again after every recovery; it ends because each restart removes an FEC
  packet.
\<close>

subsection \<open>Sorted lists of packets\<close>

text \<open>\<open>SortablePacket::LessThan\<close> on sequence numbers, and the stable sort with it.\<close>

definition LessThan :: "u16 \<Rightarrow> u16 \<Rightarrow> bool" where
  "LessThan first second = IsNewerSequenceNumber second first"

fun insert_by :: "('a \<Rightarrow> u16) \<Rightarrow> 'a \<Rightarrow> 'a list \<Rightarrow> 'a list" where
  "insert_by key x [] = [x]"
| "insert_by key x (y # ys) = (if LessThan (key y) (key x) then y # insert_by key x ys else x # y # ys)"

definition sort_by :: "('a \<Rightarrow> u16) \<Rightarrow> 'a list \<Rightarrow> 'a list" where
  "sort_by key xs = foldr (insert_by key) xs []"

text \<open>\<open>std::lower_bound\<close>: the position of the first element that is not less.\<close>

definition lower_bound :: "('a \<Rightarrow> u16) \<Rightarrow> 'a list \<Rightarrow> u16 \<Rightarrow> nat" where
  "lower_bound key xs v = length (takeWhile (\<lambda>x. LessThan (key x) v) xs)"

subsection \<open>Inserting packets\<close>

definition update_covering :: "RecoveredPacket \<Rightarrow> ReceivedFecPacket \<Rightarrow> ReceivedFecPacket" where
  "update_covering r f =
     (let ps = protected_packets f;
          it = lower_bound pp_seq_num ps (rec_seq_num r)
      in if it < length ps \<and> pp_seq_num (ps ! it) = rec_seq_num r
         then f\<lparr>protected_packets := ps[it := (ps ! it)\<lparr>pp_pkt := Some (rec_pkt r)\<rparr>]\<rparr>
         else f)"

definition UpdateCoveringFecPackets :: "RecoveredPacket \<Rightarrow> ReceivedFecPacket list \<Rightarrow> ReceivedFecPacket list" where
  "UpdateCoveringFecPackets r fs = map (update_covering r) fs"

definition InsertMediaPacket ::
  "ReceivedPacket \<Rightarrow> ReceivedFecPacket list \<times> RecoveredPacket list \<Rightarrow> ReceivedFecPacket list \<times> RecoveredPacket list" where
  "InsertMediaPacket received st =
     (case st of (fs, rs) \<Rightarrow>
        if list_ex (\<lambda>r. rec_seq_num r = rcv_seq_num received) rs then (fs, rs)
        else
          let r = \<lparr>rec_ssrc = rcv_ssrc received, rec_seq_num = rcv_seq_num received, was_recovered = False,
                   returned = True, rec_pkt = rcv_pkt received\<rparr>
          in (UpdateCoveringFecPackets r fs, sort_by rec_seq_num (rs @ [r])))"

fun assign_recovered :: "ProtectedPacket list \<Rightarrow> RecoveredPacket list \<Rightarrow> ProtectedPacket list" where
  "assign_recovered [] rs = []"
| "assign_recovered ps [] = ps"
| "assign_recovered (p # ps) (r # rs) =
     (if LessThan (pp_seq_num p) (rec_seq_num r) then p # assign_recovered ps (r # rs)
      else if LessThan (rec_seq_num r) (pp_seq_num p) then assign_recovered (p # ps) rs
      else p\<lparr>pp_pkt := Some (rec_pkt r)\<rparr> # assign_recovered ps rs)"

definition AssignRecoveredPackets :: "RecoveredPacket list \<Rightarrow> ReceivedFecPacket \<Rightarrow> ReceivedFecPacket" where
  "AssignRecoveredPackets rs f = f\<lparr>protected_packets := assign_recovered (protected_packets f) rs\<rparr>"

text \<open>The packets that a mask says are protected, in the order of its bits.\<close>

definition parse_mask :: "u32 \<Rightarrow> ReceivedFecPacket \<Rightarrow> ProtectedPacket list" where
  "parse_mask media_ssrc f =
     concat (map (\<lambda>byte_idx.
         let packet_mask = pkt_data (fec_pkt f) ! (packet_mask_offset f + byte_idx)
         in concat (map (\<lambda>bit_idx.
              if packet_mask AND push_bit (7 - bit_idx) 1 \<noteq> 0
              then [\<lparr>pp_ssrc = media_ssrc, pp_seq_num = seq_num_base f + of_nat (push_bit 3 byte_idx + bit_idx), pp_pkt = None\<rparr>]
              else []) [0..<8]))
       [0..<packet_mask_size f])"

definition InsertFecPacket :: "RecoveredPacket list \<Rightarrow> ReceivedPacket \<Rightarrow> ForwardErrorCorrection \<Rightarrow> ForwardErrorCorrection" where
  "InsertFecPacket rs received s =
     (if list_ex (\<lambda>f. fec_seq_num f = rcv_seq_num received) (received_fec_packets s) then s
      else
        let f = \<lparr>fec_ssrc = rcv_ssrc received, fec_seq_num = rcv_seq_num received, fec_pkt = rcv_pkt received,
                 protected_packets = [], fec_header_size = 0, protected_ssrc = 0, seq_num_base = 0, packet_mask_offset = 0,
                 packet_mask_size = 0, protection_length = 0\<rparr>
        in case ReadFecHeader (fec_header_reader s) f of None \<Rightarrow> s
           | Some f \<Rightarrow>
               if protected_ssrc f \<noteq> protected_media_ssrc s then s
               else
                 let f = f\<lparr>protected_packets := parse_mask (protected_media_ssrc s) f\<rparr>
                 in if protected_packets f = [] then s
                    else
                      let f = AssignRecoveredPackets rs f;
                          fs = sort_by fec_seq_num (received_fec_packets s @ [f]);
                          fs = (if length fs > r_max_fec_packets (fec_header_reader s) then tl fs else fs)
                      in s\<lparr>received_fec_packets := fs\<rparr>)"

text \<open>\<open>while (size > max) pop_front()\<close>.\<close>

definition DiscardOldRecoveredPackets :: "ForwardErrorCorrection \<Rightarrow> RecoveredPacket list \<Rightarrow> RecoveredPacket list" where
  "DiscardOldRecoveredPackets s rs = drop (length rs - r_max_media_packets (fec_header_reader s)) rs"

definition InsertPacket :: "ReceivedPacket \<Rightarrow> ForwardErrorCorrection \<times> RecoveredPacket list \<Rightarrow> ForwardErrorCorrection \<times> RecoveredPacket list" where
  "InsertPacket received st =
     (case st of (s, rs) \<Rightarrow>
        let fs = received_fec_packets s;
            fs = (if fs \<noteq> [] \<and> rcv_ssrc received = fec_ssrc (hd fs) \<and> is_fec received
                  then dropWhile (\<lambda>f. MinDiff 0 (rcv_seq_num received) (fec_seq_num f) > 0x3fff) fs else fs);
            s = s\<lparr>received_fec_packets := fs\<rparr>;
            (s, rs) = (if is_fec received then (InsertFecPacket rs received s, rs)
                       else case InsertMediaPacket received (received_fec_packets s, rs) of
                              (fs, rs) \<Rightarrow> (s\<lparr>received_fec_packets := fs\<rparr>, rs))
        in (s, DiscardOldRecoveredPackets s rs))"

subsection \<open>Recovering a packet\<close>

definition StartPacketRecovery :: "ReceivedFecPacket \<Rightarrow> Packet option" where
  "StartPacketRecovery f =
     (if pkt_length (fec_pkt f) < fec_header_size f then None
      else
        let d = memset0 (pkt_data new_Packet) 0 IP_PACKET_SIZE;
            d = memcpy_at d 0 (pkt_data (fec_pkt f)) kRtpHeaderSize
        in if protection_length f > min (IP_PACKET_SIZE - kRtpHeaderSize) (IP_PACKET_SIZE - fec_header_size f) then None
           else Some (new_Packet\<lparr>pkt_data := memcpy_at d kRtpHeaderSize (drop (fec_header_size f) (pkt_data (fec_pkt f))) (protection_length f)\<rparr>))"

definition FinishPacketRecovery :: "ReceivedFecPacket \<Rightarrow> u16 \<Rightarrow> Packet \<Rightarrow> Packet option" where
  "FinishPacketRecovery f seq_num p =
     (let d = pkt_data p;
          d = d[0 := d ! 0 OR 0x80];
          d = d[0 := d ! 0 AND 0xbf];
          len = unat (ReadBigEndian2 d 2 :: u16) + kRtpHeaderSize
      in if len > IP_PACKET_SIZE - kRtpHeaderSize then None
         else Some \<lparr>pkt_length = len, pkt_data = WriteBigEndian4 (WriteBigEndian2 d 2 seq_num) 8 (protected_ssrc f)\<rparr>)"

definition recover_step :: "ProtectedPacket \<Rightarrow> Packet \<times> u16 \<Rightarrow> Packet \<times> u16" where
  "recover_step q st =
     (case st of (p, seq_num) \<Rightarrow>
        case pp_pkt q of None \<Rightarrow> (p, pp_seq_num q)
        | Some r \<Rightarrow> (XorPayloads r (pkt_length r) kRtpHeaderSize (XorHeaders r p), seq_num))"

text \<open>The new \<open>RecoveredPacket\<close>; \<open>seq_num\<close> starts from an uninitialised member, 0 here, and is set when
  a packet is missing.\<close>

definition RecoverPacket :: "ReceivedFecPacket \<Rightarrow> RecoveredPacket option" where
  "RecoverPacket f =
     (case StartPacketRecovery f of None \<Rightarrow> None
      | Some p \<Rightarrow>
          case fold recover_step (protected_packets f) (p, 0) of
            (p, seq_num) \<Rightarrow>
              (case FinishPacketRecovery f seq_num p of None \<Rightarrow> None
               | Some p \<Rightarrow> Some \<lparr>rec_ssrc = protected_ssrc f, rec_seq_num = seq_num, was_recovered = True, returned = False, rec_pkt = p\<rparr>))"

text \<open>The count stops at two.\<close>

fun count_missing :: "ProtectedPacket list \<Rightarrow> nat \<Rightarrow> nat" where
  "count_missing [] n = n"
| "count_missing (p # ps) n =
     (if pp_pkt p = None then (if n + 1 > 1 then n + 1 else count_missing ps (n + 1)) else count_missing ps n)"

definition NumCoveredPacketsMissing :: "ReceivedFecPacket \<Rightarrow> nat" where
  "NumCoveredPacketsMissing f = count_missing (protected_packets f) 0"

definition erase_at :: "nat \<Rightarrow> 'a list \<Rightarrow> 'a list" where
  "erase_at i xs = take i xs @ drop (Suc i) xs"

lemma erase_at_length: "i < length xs \<Longrightarrow> length (erase_at i xs) = length xs - 1"
  by (simp add: erase_at_def)

lemma UpdateCoveringFecPackets_length [simp]: "length (UpdateCoveringFecPackets r fs) = length fs"
  by (simp add: UpdateCoveringFecPackets_def)

function attempt_loop :: "ForwardErrorCorrection \<Rightarrow> nat \<Rightarrow> ReceivedFecPacket list \<Rightarrow> RecoveredPacket list \<Rightarrow>
    ReceivedFecPacket list \<times> RecoveredPacket list" where
  "attempt_loop s i fs rs =
     (if i < length fs
      then
        let missing = NumCoveredPacketsMissing (fs ! i)
        in if missing = 1
           then case RecoverPacket (fs ! i) of
                  None \<Rightarrow> attempt_loop s i (erase_at i fs) rs
                | Some r \<Rightarrow>
                    attempt_loop s 0 (erase_at i (UpdateCoveringFecPackets r fs))
                      (DiscardOldRecoveredPackets s (sort_by rec_seq_num (rs @ [r])))
           else if missing = 0 then attempt_loop s i (erase_at i fs) rs
           else attempt_loop s (i + 1) fs rs
      else (fs, rs))"
  by pat_completeness auto
termination
  by (relation "measures [\<lambda>(s, i, fs, rs). length fs, \<lambda>(s, i, fs, rs). length fs - i]") (auto simp: erase_at_length)

declare attempt_loop.simps [simp del]

definition AttemptRecovery :: "ForwardErrorCorrection \<times> RecoveredPacket list \<Rightarrow> ForwardErrorCorrection \<times> RecoveredPacket list" where
  "AttemptRecovery st =
     (case st of (s, rs) \<Rightarrow>
        case attempt_loop s 0 (received_fec_packets s) rs of (fs, rs) \<Rightarrow> (s\<lparr>received_fec_packets := fs\<rparr>, rs))"

definition ResetState :: "ForwardErrorCorrection \<times> RecoveredPacket list \<Rightarrow> ForwardErrorCorrection \<times> RecoveredPacket list" where
  "ResetState st = (case st of (s, rs) \<Rightarrow> (s\<lparr>received_fec_packets := []\<rparr>, []))"

definition DecodeFec :: "ReceivedPacket \<Rightarrow> ForwardErrorCorrection \<times> RecoveredPacket list \<Rightarrow> ForwardErrorCorrection \<times> RecoveredPacket list" where
  "DecodeFec received st =
     (case st of (s, rs) \<Rightarrow>
        let max_media_packets = r_max_media_packets (fec_header_reader s);
            st = (if length rs = max_media_packets
                  then let back = last rs
                       in if rcv_ssrc received = rec_ssrc back \<and> \<not> is_fec received \<and>
                             unat (MinDiff 0 (rcv_seq_num received) (rec_seq_num back)) > max_media_packets
                          then ResetState (s, rs) else (s, rs)
                  else (s, rs))
        in AttemptRecovery (InsertPacket received st))"

end
