(* ===== verification/FecFormat.thy ===== *)
theory FecFormat
  imports FecHeader
begin

text \<open>
  The contract between a header writer and its reader, as a locale: what the encoder put into the
  fields of an FEC packet that recovery needs survives \<open>FinalizeFecHeader\<close> followed by
  \<open>ReadFecHeader\<close>, and the reader finds the base sequence number, the protected stream and the mask.
  ULPFEC and FlexFEC implement it.
\<close>

subsection \<open>The contract\<close>

text \<open>\<open>f'\<close> is what the reader makes of \<open>f\<close>, whose packet is \<open>p\<close> with a finished header of \<open>hs\<close> bytes.\<close>

definition header_read :: "nat \<Rightarrow> u32 \<Rightarrow> u16 \<Rightarrow> u8 list \<Rightarrow> nat \<Rightarrow> Packet \<Rightarrow> ReceivedFecPacket \<Rightarrow> ReceivedFecPacket \<Rightarrow> bool" where
  "header_read hs ms base m w p f f' \<longleftrightarrow>
     fec_seq_num f' = fec_seq_num f \<and> fec_ssrc f' = fec_ssrc f \<and> protected_packets f' = protected_packets f \<and>
     packet_mask_offset f' \<le> IP_PACKET_SIZE \<and> fec_header_size f' = hs \<and> protected_ssrc f' = ms \<and> seq_num_base f' = base \<and>
     protection_length f' = pkt_length p - hs \<and>
     pkt_length (fec_pkt f') = pkt_length p \<and> length (pkt_data (fec_pkt f')) = IP_PACKET_SIZE \<and>
     (\<forall>j\<in>{1..<8}. pkt_data (fec_pkt f') ! j = pkt_data p ! j) \<and>
     (\<forall>k<6. bit (pkt_data (fec_pkt f') ! 0) k \<longleftrightarrow> bit (pkt_data p ! 0) k) \<and>
     (\<forall>j\<in>{hs..<IP_PACKET_SIZE}. pkt_data (fec_pkt f') ! j = pkt_data p ! j) \<and>
     (\<forall>c. c < 8 * packet_mask_size f' \<and> mask_bit (packet_mask_size f') (drop (packet_mask_offset f') (pkt_data (fec_pkt f'))) 0 c \<longleftrightarrow>
          c < 8 * w \<and> mask_bit w m 0 c)"

locale fec_format =
  fixes W :: FecHeaderWriter and R :: FecHeaderReader and ssrc_ok :: "u32 \<Rightarrow> u32 \<Rightarrow> bool"
  assumes limits: "w_max_media_packets W = 48" "r_max_media_packets R = 48" "w_max_fec_packets W = 48" "r_max_fec_packets R = 48"
    and header_bounds: "w \<in> {2, 6} \<Longrightarrow> 14 \<le> FecHeaderSize W (MinPacketMaskSize W m w) \<and> FecHeaderSize W (MinPacketMaskSize W m w) \<le> 32"
    and finalize_shape: "pkt_length (FinalizeFecHeader W ms base m w p) = pkt_length p"
      "length (pkt_data (FinalizeFecHeader W ms base m w p)) = length (pkt_data p)"
    and read_back: "w \<in> {2, 6} \<Longrightarrow> w \<le> length m \<Longrightarrow> hs = FecHeaderSize W (MinPacketMaskSize W m w) \<Longrightarrow>
      length (pkt_data p) = 1500 \<Longrightarrow> hs \<le> pkt_length p \<Longrightarrow> pkt_length p \<le> 1500 \<Longrightarrow>
      fec_pkt f = FinalizeFecHeader W ms base m w p \<Longrightarrow> ssrc_ok (fec_ssrc f) ms \<Longrightarrow>
      \<exists>f'. ReadFecHeader R f = Some f' \<and> header_read hs ms base m w p f f'"

subsection \<open>ULPFEC implements it\<close>

lemmas byte_writes = byte_io_2(3) byte_io_4(3) byte_io_8(3) byte_io_1(3) WriteBigEndian_nth

lemma read2: "off + 2 \<le> length d \<Longrightarrow> ReadBigEndian2 (WriteBigEndian2 d off v) off = (v :: u16)"
  unfolding byte_io_2 by (subst read_write_big) (simp_all add: take_bit_word_eq_self)

lemma ReadBigEndian2_cong:
  assumes "d ! off = e ! off" "d ! (off + 1) = e ! (off + 1)"
  shows "ReadBigEndian2 d off = ReadBigEndian2 e off"
  using assms by (simp add: ReadBigEndian2_def)

lemma and_40: "(a :: u8) AND 0x40 \<noteq> 0 \<longleftrightarrow> bit a 6"
proof -
  have "(0x40 :: u8) = 2 ^ 6" by simp
  then show ?thesis by (simp only: and_exp_eq_0_iff_not_bit not_not)
qed

lemma and_80: "(a :: u8) AND 0x80 \<noteq> 0 \<longleftrightarrow> bit a 7"
proof -
  have "(0x80 :: u8) = 2 ^ 7" by simp
  then show ?thesis by (simp only: and_exp_eq_0_iff_not_bit not_not)
qed

lemma ulpfec_data_nth:
  assumes "length (pkt_data p) = 1500" "w \<in> {2, 6}" "j < 1500"
  shows "pkt_data (ulpfec_FinalizeFecHeader ms base m w p) ! j =
    (if j = 0 then (if w = 6 then (pkt_data p ! 0 AND 0x7f) OR 0x40 else (pkt_data p ! 0 AND 0x7f) AND 0xbf)
     else if j = 2 then ucast (drop_bit 8 base) else if j = 3 then ucast base
     else if j = 8 \<or> j = 9 then pkt_data p ! (j - 6)
     else if j = 10 then ucast (drop_bit 8 (of_nat (pkt_length p) - of_nat (UlpfecHeaderSize w) :: u16))
     else if j = 11 then ucast (of_nat (pkt_length p) - of_nat (UlpfecHeaderSize w) :: u16)
     else if 12 \<le> j \<and> j < 12 + w then m ! (j - 12) else pkt_data p ! j)"
  using assms unfolding ulpfec_FinalizeFecHeader_def Let_def
  by (auto simp: memcpy_at_nth WriteBigEndian2_def nth_list_update ulpfec_FecHeaderSize_def)

lemma ulpfec_first_byte:
  assumes "k < 6"
  shows "bit ((a AND 0x7f) OR 0x40 :: u8) k \<longleftrightarrow> bit a k" "bit ((a AND 0x7f) AND 0xbf :: u8) k \<longleftrightarrow> bit a k"
proof -
  have "k \<in> {0, 1, 2, 3, 4, 5}" using assms by auto
  then show "bit ((a AND 0x7f) OR 0x40) k \<longleftrightarrow> bit a k" "bit ((a AND 0x7f) AND 0xbf) k \<longleftrightarrow> bit a k"
    by (auto simp: bit_or_iff bit_and_iff)
qed

lemma ulpfec_L_bit: "bit ((a AND 0x7f) OR 0x40 :: u8) 6" "\<not> bit ((a AND 0x7f) AND 0xbf :: u8) 6"
  by (simp_all add: bit_or_iff bit_and_iff)

lemma ulpfec_length:
  "pkt_length (ulpfec_FinalizeFecHeader ms base m w p) = pkt_length p"
  "length (pkt_data (ulpfec_FinalizeFecHeader ms base m w p)) = length (pkt_data p)"
  by (simp_all add: ulpfec_FinalizeFecHeader_def Let_def WriteBigEndian2_def)

lemma unat_diff_u16: "b \<le> a \<Longrightarrow> a < 65536 \<Longrightarrow> unat (of_nat a - of_nat b :: u16) = a - b"
  by (simp add: of_nat_diff [symmetric] unsigned_of_nat take_bit_nat_eq_self del: of_nat_diff)

lemma ReadBigEndian2_bytes:
  assumes "d ! off = ucast (drop_bit 8 (v :: u16))" "d ! (off + 1) = ucast v"
  shows "ReadBigEndian2 d off = v"
proof (rule bit_word_eqI)
  fix k assume "k < LENGTH(16)"
  then show "bit (ReadBigEndian2 d off :: u16) k \<longleftrightarrow> bit v k"
    unfolding ReadBigEndian2_def assms by (auto simp: bit_or_iff bit_push_bit_iff bit_unsigned_iff bit_drop_bit_eq)
qed

lemma ulpfec_read_back:
  assumes w: "w \<in> {2, 6}" "w \<le> length m" and hs: "hs = UlpfecHeaderSize w"
    and p: "length (pkt_data p) = 1500" "hs \<le> pkt_length p" "pkt_length p \<le> 1500"
    and f: "fec_pkt f = ulpfec_FinalizeFecHeader ms base m w p" "fec_ssrc f = ms"
  shows "\<exists>f'. ulpfec_ReadFecHeader f = Some f' \<and> header_read hs ms base m w p f f'"
proof -
  let ?d = "pkt_data (fec_pkt f)"
  note nth = ulpfec_data_nth [OF p(1) w(1), where ms = ms and base = base and m = m]
  have len: "length ?d = 1500" using f(1) p(1) by (simp add: ulpfec_length)
  have hs': "hs = 12 + w" using hs w(1) by (auto simp: UlpfecHeaderSize_def)
  have b0: "?d ! 0 = (if w = 6 then (pkt_data p ! 0 AND 0x7f) OR 0x40 else (pkt_data p ! 0 AND 0x7f) AND 0xbf)"
    unfolding f(1) by (subst nth) simp_all
  have L: "?d ! 0 AND 0x40 \<noteq> 0 \<longleftrightarrow> w = 6" unfolding and_40 b0 by (simp add: ulpfec_L_bit)
  have size: "(if ?d ! 0 AND 0x40 \<noteq> 0 then kUlpfecPacketMaskSizeLBitSet else kUlpfecPacketMaskSizeLBitClear) = w"
    using L w(1) by auto
  have base: "ReadBigEndian2 ?d 2 = base" by (rule ReadBigEndian2_bytes; unfold f(1); subst nth) simp_all
  have prot: "unat (ReadBigEndian2 ?d 10 :: u16) = pkt_length p - hs"
  proof -
    have "ReadBigEndian2 ?d 10 = (of_nat (pkt_length p) - of_nat hs :: u16)"
      unfolding hs by (rule ReadBigEndian2_bytes; unfold f(1); subst nth) simp_all
    then show ?thesis using p(2,3) by (simp add: unat_diff_u16)
  qed
  define f' where "f' = f\<lparr>fec_header_size := UlpfecHeaderSize w, protected_ssrc := fec_ssrc f, seq_num_base := base,
    packet_mask_offset := 12, packet_mask_size := w, protection_length := pkt_length p - hs,
    fec_pkt := (fec_pkt f)\<lparr>pkt_data := memcpy_at ?d 2 (drop 8 ?d) 2\<rparr>\<rparr>"
  have read: "ulpfec_ReadFecHeader f = Some f'"
    unfolding ulpfec_ReadFecHeader_def Let_def size base prot f'_def by simp
  have d': "pkt_data (fec_pkt f') ! j = (if j = 2 \<or> j = 3 then ?d ! (j + 6) else ?d ! j)" if "j < 1500" for j
    using that len by (auto simp: f'_def memcpy_at_nth)
  have body: "pkt_data (fec_pkt f') ! j = pkt_data p ! j" if "j \<in> {1..<8} \<union> {hs..<1500}" for j
  proof -
    have "j < 1500" using that by auto
    then show ?thesis using that hs' w(1) unfolding d' [OF \<open>j < 1500\<close>] f(1) by (auto simp: nth)
  qed
  have top: "bit (pkt_data (fec_pkt f') ! 0) k \<longleftrightarrow> bit (pkt_data p ! 0) k" if "k < 6" for k
    using d' [of 0] b0 ulpfec_first_byte [OF that] by simp
  have mask: "pkt_data (fec_pkt f') ! (12 + i) = m ! i" if "i < w" for i
  proof -
    have "12 + i < 1500" using that w(1) by auto
    then show ?thesis using that d' [of "12 + i"] unfolding f(1) by (simp add: nth)
  qed
  have "c < 8 * w \<and> mask_bit w (drop 12 (pkt_data (fec_pkt f'))) 0 c \<longleftrightarrow> c < 8 * w \<and> mask_bit w m 0 c" for c
    using mask [of "c div 8"] len by (auto simp: mask_bit_def f'_def div_less_iff_less_mult mult.commute)
  then have "header_read hs ms base m w p f f'"
    using body top len f hs p(3) unfolding header_read_def by (auto simp: f'_def ulpfec_length)
  with read show ?thesis by blast
qed

interpretation ulpfec: fec_format UlpfecHeaderWriter UlpfecHeaderReader "(=)"
proof
  show "\<exists>f'. ReadFecHeader UlpfecHeaderReader f = Some f' \<and> header_read hs ms base m w p f f'"
    if "w \<in> {2, 6}" "w \<le> length m" "hs = FecHeaderSize UlpfecHeaderWriter (MinPacketMaskSize UlpfecHeaderWriter m w)"
      "length (pkt_data p) = 1500" "hs \<le> pkt_length p" "pkt_length p \<le> 1500"
      "fec_pkt f = FinalizeFecHeader UlpfecHeaderWriter ms base m w p" "fec_ssrc f = ms" for w m hs p f ms base
    using ulpfec_read_back [OF that(1,2) _ that(4-6) _ that(8), of base] that(3,7)
    by (simp add: UlpfecHeaderReader_def UlpfecHeaderWriter_def ulpfec_FecHeaderSize_def ulpfec_MinPacketMaskSize_def)
qed (auto simp: UlpfecHeaderReader_def UlpfecHeaderWriter_def ulpfec_FecHeaderSize_def ulpfec_MinPacketMaskSize_def UlpfecHeaderSize_def ulpfec_length)

end
