(* ===== verification/FlexFormat.thy ===== *)
theory FlexFormat
  imports FecFormat
begin

text \<open>
  FlexFEC implements the contract of a header format: the writer spreads the packed mask over one,
  two or three parts with a K-bit each, the reader packs it again.
\<close>

lemma and_01: "(a :: u8) AND 0x01 = 0 \<longleftrightarrow> \<not> bit a 0"
  using and_exp_eq_0_iff_not_bit [of a 0] by simp

lemma and_02: "(a :: u8) AND 0x02 = 0 \<longleftrightarrow> \<not> bit a 1"
  using and_exp_eq_0_iff_not_bit [of a 1] by simp

lemma and_80_0: "(a :: u8) AND 0x80 = 0 \<longleftrightarrow> \<not> bit a 7"
  using and_80 [of a] by blast

lemma bit_3: "bit (3 :: u8) i \<longleftrightarrow> i < 2"
proof -
  have "(3 :: u8) = mask 2" by (simp add: mask_eq_exp_minus_1)
  then show ?thesis by (simp only: bit_mask_iff) auto
qed

lemma and_03: "(a :: u8) AND 0x03 = 0 \<longleftrightarrow> \<not> bit a 0 \<and> \<not> bit a 1"
proof -
  have "a AND 0x03 = 0 \<longleftrightarrow> (\<forall>i<8. \<not> (bit a i \<and> bit (3 :: u8) i))"
    by (simp add: bit_eq_iff [where ?'a = u8] bit_and_iff)
  then show ?thesis unfolding bit_3 by (auto simp: less_2_cases_iff dest: spec [of _ "0 :: nat"] spec [of _ "1 :: nat"])
qed

lemma u8_bit_bound [dest]: "bit (a :: u8) k \<Longrightarrow> k < 8"
  using bit_imp_le_length [of a k] by simp

subsection \<open>The parts of the mask as words\<close>

definition join2 :: "u8 \<Rightarrow> u8 \<Rightarrow> u16" where
  "join2 a b = push_bit 8 (ucast a) OR ucast b"

definition join4 :: "u8 \<Rightarrow> u8 \<Rightarrow> u8 \<Rightarrow> u8 \<Rightarrow> u32" where
  "join4 a b c d = push_bit 24 (ucast a) OR push_bit 16 (ucast b) OR push_bit 8 (ucast c) OR ucast d"

lemma bit_join2: "bit (join2 a b) n \<longleftrightarrow> (if n < 8 then bit b n else n < 16 \<and> bit a (n - 8))"
  unfolding join2_def bit_or_iff bit_push_bit_iff bit_unsigned_iff by auto

lemma bit_join4: "bit (join4 a b c d) n \<longleftrightarrow>
    (if n < 8 then bit d n else if n < 16 then bit c (n - 8) else if n < 24 then bit b (n - 16) else n < 32 \<and> bit a (n - 24))"
  unfolding join4_def bit_or_iff bit_push_bit_iff bit_unsigned_iff by auto

lemma ReadBigEndian_join: "ReadBigEndian2 d n = join2 (d ! n) (d ! (n + 1))"
  "ReadBigEndian4 d n = join4 (d ! n) (d ! (n + 1)) (d ! (n + 2)) (d ! (n + 3))"
  by (simp_all add: ReadBigEndian2_def ReadBigEndian4_def join2_def join4_def)

lemmas word_bits = bit_or_iff bit_and_iff bit_not_iff bit_push_bit_iff bit_unsigned_iff bit_drop_bit_eq bit_join2 bit_join4

text \<open>The first two bytes: shifted to the right on writing, to the left on reading, with any K-bit on
  top.\<close>

lemma part0_top: "\<not> bit (ucast (drop_bit 8 (drop_bit 1 (join2 a b))) :: u8) 7"
  unfolding word_bits by simp

lemma part0_first:
  assumes "\<And>j. j < 7 \<Longrightarrow> \<not> bit k j"
  shows "ucast (drop_bit 8 (push_bit 1 (join2 (ucast (drop_bit 8 (drop_bit 1 (join2 a b))) OR k) (ucast (drop_bit 1 (join2 a b)))))) = a"
    (is "?r = a")
proof (rule bit_word_eqI)
  fix i assume "i < LENGTH(8)"
  then show "bit ?r i \<longleftrightarrow> bit a i" unfolding word_bits using assms [of "i - 1"] by (cases i) auto
qed

lemma part0_second:
  "ucast (push_bit 1 (join2 x (ucast (drop_bit 1 (join2 a b))))) = b AND NOT 1" (is "?r = _")
proof (rule bit_word_eqI)
  fix i assume "i < LENGTH(8)"
  then show "bit ?r i \<longleftrightarrow> bit (b AND NOT 1) i" unfolding word_bits by (cases i) (auto simp: bit_1_iff)
qed

text \<open>The next four bytes, shifted by two; \<open>k\<close> holds the K-bit and bit 15.\<close>

lemma part1_top: "\<not> bit (ucast (drop_bit 24 (drop_bit 2 (join4 a b c d))) :: u8) 7"
  "\<not> bit (ucast (drop_bit 24 (drop_bit 2 (join4 a b c d))) :: u8) 6"
  unfolding word_bits by simp_all

lemma part1_bytes:
  fixes a b c d k :: u8
  defines "N \<equiv> drop_bit 2 (join4 a b c d)"
  assumes "\<And>j. j < 6 \<Longrightarrow> \<not> bit k j"
  defines "r \<equiv> push_bit 2 (join4 (ucast (drop_bit 24 N) OR k) (ucast (drop_bit 16 N)) (ucast (drop_bit 8 N)) (ucast N))"
  shows "ucast (drop_bit 24 r) = a" "ucast (drop_bit 16 r) = b" "ucast (drop_bit 8 r) = c" "ucast r = d AND NOT 3"
proof -
  show "ucast (drop_bit 24 r) = a"
  proof (rule bit_word_eqI)
    fix i assume "i < LENGTH(8)"
    then show "bit (ucast (drop_bit 24 r) :: u8) i \<longleftrightarrow> bit a i"
      unfolding r_def N_def word_bits using assms(2) [of "i - 2"] by (cases "i < 2") auto
  qed
  show "ucast (drop_bit 16 r) = b"
  proof (rule bit_word_eqI)
    fix i assume "i < LENGTH(8)"
    then show "bit (ucast (drop_bit 16 r) :: u8) i \<longleftrightarrow> bit b i" unfolding r_def N_def word_bits by (cases "i < 2") auto
  qed
  show "ucast (drop_bit 8 r) = c"
  proof (rule bit_word_eqI)
    fix i assume "i < LENGTH(8)"
    then show "bit (ucast (drop_bit 8 r) :: u8) i \<longleftrightarrow> bit c i" unfolding r_def N_def word_bits by (cases "i < 2") auto
  qed
  show "ucast r = d AND NOT 3"
  proof (rule bit_word_eqI)
    fix i assume "i < LENGTH(8)"
    moreover have "2 + (i - 2) = i" if "\<not> i < 2" using that by simp
    ultimately show "bit (ucast r :: u8) i \<longleftrightarrow> bit (d AND NOT 3) i"
      unfolding r_def N_def word_bits bit_3 by (cases "i < 2") (auto simp del: add_2_eq_Suc)
  qed
qed

subsection \<open>Writing and reading the mask\<close>

text \<open>The array after reading back: the mask, padded with zeros to \<open>n\<close> bytes, at its offset.\<close>

definition holds_mask :: "u8 list \<Rightarrow> nat \<Rightarrow> nat \<Rightarrow> u8 list \<Rightarrow> u8 list \<Rightarrow> bool" where
  "holds_mask m w n d d' \<longleftrightarrow> length d' = length d \<and>
     (\<forall>j<length d. d' ! j = (if 18 \<le> j \<and> j < 18 + n then if j - 18 < w then m ! (j - 18) else 0 else d ! j))"

lemma holds_maskI:
  assumes "length d' = length d" "length d = 1500" "n \<le> 14"
    "\<And>i. i < n \<Longrightarrow> d' ! (18 + i) = (if i < w then m ! i else 0)"
    "\<And>j. j < 18 \<or> 18 + n \<le> j \<Longrightarrow> j < 1500 \<Longrightarrow> d' ! j = d ! j"
  shows "holds_mask m w n d d'"
  unfolding holds_mask_def
proof (intro conjI allI impI assms(1))
  fix j assume j: "j < length d"
  show "d' ! j = (if 18 \<le> j \<and> j < 18 + n then if j - 18 < w then m ! (j - 18) else 0 else d ! j)"
  proof (cases "18 \<le> j \<and> j < 18 + n")
    case True
    then have "j - 18 < n" "18 + (j - 18) = j" by auto
    then show ?thesis using assms(4) [OF \<open>j - 18 < n\<close>] True by simp
  next
    case False
    then have "j < 18 \<or> 18 + n \<le> j" by auto
    then have "d' ! j = d ! j" using assms(2,5) j by simp
    then show ?thesis unfolding if_not_P [OF False] .
  qed
qed

lemma clear_or_bit: "(b AND NOT 1) OR (if bit b 0 then 1 else 0) = (b :: u8)"
  by (rule bit_word_eqI) (auto simp: bit_or_iff bit_and_iff bit_not_iff bit_1_iff intro: gr0I)

lemma clear_1: "\<not> bit b 0 \<Longrightarrow> b AND NOT 1 = (b :: u8)"
  using clear_or_bit [of b] by simp

lemma low_80: "j < 7 \<Longrightarrow> \<not> bit (0x80 :: u8) j"
proof -
  have "(0x80 :: u8) = 2 ^ 7" by simp
  then show "j < 7 \<Longrightarrow> \<not> bit (0x80 :: u8) j" by (simp only: bit_exp_iff) simp
qed

lemma low_40: "j < 6 \<Longrightarrow> \<not> bit (0x40 :: u8) j"
proof -
  have "(0x40 :: u8) = 2 ^ 6" by simp
  then show "j < 6 \<Longrightarrow> \<not> bit (0x40 :: u8) j" by (simp only: bit_exp_iff) simp
qed

lemma low_0: "j < 7 \<Longrightarrow> \<not> bit (0 :: u8) j"
  by simp

lemma flexfec_mask_A:
  assumes "length d = 1500" "\<not> bit (m ! 1) 0"
  shows "\<exists>d'. read_flexfec_mask len (write_flexfec_mask2 m d) = Some (d', 2) \<and> holds_mask m 2 2 d d'"
proof -
  let ?M = "join2 (m ! 0) (m ! 1)"
  let ?x = "ucast (drop_bit 8 (drop_bit 1 ?M)) OR 0x80 :: u8" and ?y = "ucast (drop_bit 1 ?M) :: u8"
  define e where "e = write_flexfec_mask2 m d"
  have e: "e = d[18 := ?x, 19 := ?y]"
    using assms by (simp add: e_def write_flexfec_mask2_def Let_def and_01 ReadBigEndian_join WriteBigEndian2_def nth_list_update list_update_swap)
  have e18: "e ! 18 = ?x" "e ! 19 = ?y" "length e = 1500" using assms(1) by (simp_all add: e nth_list_update)
  have k0: "e ! 18 AND 0x80 \<noteq> 0" unfolding and_80 e18 by (simp add: bit_or_iff)
  let ?r = "push_bit 1 (join2 ?x ?y)"
  have "read_flexfec_mask len e = Some (WriteBigEndian2 e 18 ?r, 2)"
    using k0 e18 by (simp add: read_flexfec_mask_def Let_def ReadBigEndian_join)
  moreover have "WriteBigEndian2 e 18 ?r = e[18 := m ! 0, 19 := m ! 1]"
    using part0_first [OF low_80, of "m ! 0" "m ! 1"] part0_second [of ?x "m ! 0" "m ! 1"] clear_1 [OF assms(2)]
    by (simp add: WriteBigEndian2_def)
  moreover have "holds_mask m 2 2 d (e[18 := m ! 0, 19 := m ! 1])"
    by (rule holds_maskI) (use assms(1) in \<open>auto simp: e nth_list_update less_2_cases_iff\<close>)
  ultimately show ?thesis by (auto simp: e_def)
qed

text \<open>The mask of sixteen bits with bit 15 set, and the masks of 48 bits, take two parts or three.
  \<open>x\<close> is the first byte of the second part.\<close>

lemma read_two_parts:
  fixes m d :: "u8 list"
  defines "M \<equiv> join2 (m ! 0) (m ! 1)"
  assumes e: "length e = 1500" "e ! 18 = ucast (drop_bit 8 (drop_bit 1 M))" "e ! 19 = ucast (drop_bit 1 M)"
    and x: "bit (e ! 20) 6 \<longleftrightarrow> bit (m ! 1) 0" and len: "24 \<le> len"
  defines "r \<equiv> push_bit 2 (join4 (e ! 20) (e ! 21) (e ! 22) (e ! 23))"
  defines "e' \<equiv> WriteBigEndian4 (e[18 := m ! 0, 19 := m ! 1]) 20 r"
  shows "bit (e ! 20) 7 \<Longrightarrow> read_flexfec_mask len e = Some (e', 6)"
    and "\<not> bit (e ! 20) 7 \<Longrightarrow> bit (e' ! 24) 7 \<Longrightarrow> 32 \<le> len \<Longrightarrow> read_flexfec_mask len e =
      Some (let t = e'[23 := e' ! 23 OR (drop_bit 5 (e' ! 24) AND 0x03)] in WriteBigEndian8 t 24 (push_bit 3 (ReadBigEndian8 t 24 :: u64)), 14)"
proof -
  let ?b0 = "ucast (drop_bit 8 (push_bit 1 (join2 (e ! 18) (e ! 19)))) :: u8" and ?b1 = "ucast (push_bit 1 (join2 (e ! 18) (e ! 19))) :: u8"
  have b0: "?b0 = m ! 0" using part0_first [OF low_0, of "m ! 0" "m ! 1"] by (simp add: e M_def)
  have b1: "?b1 = m ! 1 AND NOT 1" using part0_second [of "e ! 18" "m ! 0" "m ! 1"] by (simp add: e M_def)
  have k0: "\<not> bit (e ! 18) 7" unfolding e(2) M_def by (rule part0_top)
  have b15: "drop_bit 6 (e ! 20) AND 1 = (if bit (m ! 1) 0 then 1 else 0)"
    unfolding x [symmetric] by (rule bit_word_eqI) (auto simp: bit_and_iff bit_drop_bit_eq bit_1_iff intro: gr0I)
  let ?e1 = "e[18 := m ! 0, 19 := m ! 1 AND NOT 1]"
  have e1: "?e1[19 := ?e1 ! 19 OR (drop_bit 6 (?e1 ! 20) AND 1)] = e[18 := m ! 0, 19 := m ! 1]"
    using e(1) b15 clear_or_bit [of "m ! 1"] by (simp add: nth_list_update)
  have nth: "e[18 := m ! 0, 19 := m ! 1] ! j = e ! j" if "20 \<le> j" for j using that by simp
  have main: "read_flexfec_mask len e =
     (if bit (e ! 20) 7 then Some (e', 6) else if len < 32 then None else if \<not> bit (e' ! 24) 7 then None
      else Some (let t = e'[23 := e' ! 23 OR (drop_bit 5 (e' ! 24) AND 0x03)] in WriteBigEndian8 t 24 (push_bit 3 (ReadBigEndian8 t 24 :: u64)), 14))"
    using k0 len e(1) b0 b1 e1
    by (simp add: read_flexfec_mask_def Let_def ReadBigEndian_join WriteBigEndian2_def and_80_0 e'_def r_def nth)
  show "read_flexfec_mask len e = Some (e', 6)" if "bit (e ! 20) 7" unfolding main using that by simp
  show "read_flexfec_mask len e =
      Some (let t = e'[23 := e' ! 23 OR (drop_bit 5 (e' ! 24) AND 0x03)] in WriteBigEndian8 t 24 (push_bit 3 (ReadBigEndian8 t 24 :: u64)), 14)"
    if "\<not> bit (e ! 20) 7" "bit (e' ! 24) 7" "32 \<le> len"
    unfolding main using that by simp
qed

lemma flexfec_mask_B:
  assumes "length d = 1500" "bit (m ! 1) 0" "24 \<le> len"
  shows "\<exists>d'. read_flexfec_mask len (write_flexfec_mask2 m d) = Some (d', 6) \<and> holds_mask m 2 6 d d'"
proof -
  let ?M = "join2 (m ! 0) (m ! 1)"
  define e where "e = write_flexfec_mask2 m d"
  have e: "length e = 1500" "e ! 18 = ucast (drop_bit 8 (drop_bit 1 ?M))" "e ! 19 = ucast (drop_bit 1 ?M)"
    "e ! 20 = 0xc0" "e ! 21 = 0" "e ! 22 = 0" "e ! 23 = 0" "\<And>j. j < 18 \<or> 24 \<le> j \<Longrightarrow> j < 1500 \<Longrightarrow> e ! j = d ! j"
    using assms by (auto simp: e_def write_flexfec_mask2_def Let_def and_01 ReadBigEndian_join WriteBigEndian2_def nth_list_update memset0_nth)
  have k: "bit (e ! 20) 7" "bit (e ! 20) 6" unfolding e by simp_all
  have r: "push_bit 2 (join4 (e ! 20) (e ! 21) (e ! 22) (e ! 23)) = 0" unfolding e join4_def by simp
  have "read_flexfec_mask len e = Some (WriteBigEndian4 (e[18 := m ! 0, 19 := m ! 1]) 20 (0 :: u32), 6)"
    using read_two_parts(1) [OF e(1-3) _ assms(3) k(1)] k(2) assms(2) r by simp
  moreover have "holds_mask m 2 6 d (WriteBigEndian4 (e[18 := m ! 0, 19 := m ! 1]) 20 (0 :: u32))"
  proof (rule holds_maskI)
    fix i :: nat assume "i < 6"
    then have "i = 0 \<or> i = 1 \<or> i = 2 \<or> i = 3 \<or> i = 4 \<or> i = 5" by auto
    then show "WriteBigEndian4 (e[18 := m ! 0, 19 := m ! 1]) 20 (0 :: u32) ! (18 + i) = (if i < 2 then m ! i else 0)"
      using e(1) by (elim disjE) (simp_all add: WriteBigEndian4_def nth_list_update)
  qed (use assms(1) e in \<open>auto simp: WriteBigEndian4_def nth_list_update\<close>)
  ultimately show ?thesis by (auto simp: e_def)
qed

text \<open>A mask of 48 bits: what the writer leaves, \<open>k\<close> being its two top bits in the second part.\<close>

lemma write_mask6:
  fixes m d :: "u8 list"
  defines "M \<equiv> join2 (m ! 0) (m ! 1)" and "N \<equiv> drop_bit 2 (join4 (m ! 2) (m ! 3) (m ! 4) (m ! 5))"
  defines "short \<equiv> \<not> bit (m ! 5) 1 \<and> \<not> bit (m ! 5) 0"
  assumes "length d = 1500"
  defines "e \<equiv> write_flexfec_mask6 m d"
  shows "length e = 1500" "e ! 18 = ucast (drop_bit 8 (drop_bit 1 M))" "e ! 19 = ucast (drop_bit 1 M)"
    and "e ! 20 = ucast (drop_bit 24 N) OR (if bit (m ! 1) 0 then 0x40 else 0) OR (if short then 0x80 else 0)"
    and "e ! 21 = ucast (drop_bit 16 N)" "e ! 22 = ucast (drop_bit 8 N)" "e ! 23 = ucast N"
    and "short \<Longrightarrow> j < 18 \<or> 24 \<le> j \<Longrightarrow> j < 1500 \<Longrightarrow> e ! j = d ! j"
    and "\<not> short \<Longrightarrow> j < 18 \<or> 32 \<le> j \<Longrightarrow> j < 1500 \<Longrightarrow> e ! j = d ! j"
    and "\<not> short \<Longrightarrow> e ! 24 = 0x80 OR (if bit (m ! 5) 1 then 0x40 else 0) OR (if bit (m ! 5) 0 then 0x20 else 0)"
    and "\<not> short \<Longrightarrow> 24 < j \<Longrightarrow> j < 32 \<Longrightarrow> e ! j = 0"
  using assms(4) unfolding e_def short_def write_flexfec_mask6_def Let_def ReadBigEndian_join WriteBigEndian2_def WriteBigEndian4_def M_def N_def and_01 and_02
  by (auto simp add: nth_list_update memset0_nth or.assoc)

lemma clear_or_tail:
  "(b AND NOT 3) OR (drop_bit 5 (0x80 OR (if bit b 1 then 0x40 else 0) OR (if bit b 0 then 0x20 else 0)) AND 0x03) = (b :: u8)"
proof -
  have t: "drop_bit 5 (0x80 OR (if P then 0x40 else 0) OR (if Q then 0x20 else 0)) AND 0x03 = (if P then 2 else 0) OR (if Q then 1 else 0 :: u8)" for P Q
    by simp
  have two: "bit (2 :: u8) i \<longleftrightarrow> i = 1" for i using bit_exp_iff [of 1 i, where ?'a = u8] by auto
  have if_bit: "bit (if P then x else 0 :: u8) i \<longleftrightarrow> P \<and> bit x i" for P x i by simp
  show ?thesis unfolding t
  proof (rule bit_word_eqI)
    fix i assume "i < LENGTH(8)"
    then show "bit ((b AND NOT 3) OR ((if bit b 1 then 2 else 0) OR (if bit b 0 then 1 else 0))) i \<longleftrightarrow> bit b i"
      unfolding bit_or_iff bit_and_iff bit_not_iff bit_3 if_bit two bit_1_iff
      by (cases "i = 0"; cases "i = 1") auto
  qed
qed

lemma clear_3: "\<not> bit b 1 \<Longrightarrow> \<not> bit b 0 \<Longrightarrow> b AND NOT 3 = (b :: u8)"
  by (rule bit_word_eqI, unfold bit_and_iff bit_not_iff bit_3) (auto simp: less_2_cases_iff intro: gr0I)

lemma top_bits: "bit ((if P then 0x40 else 0) OR (if Q then 0x80 else 0 :: u8)) 6 \<longleftrightarrow> P"
  "bit ((if P then 0x40 else 0) OR (if Q then 0x80 else 0 :: u8)) 7 \<longleftrightarrow> Q"
  "j < 6 \<Longrightarrow> \<not> bit ((if P then 0x40 else 0) OR (if Q then 0x80 else 0 :: u8)) j"
  using low_40 [of j] low_80 [of j] by (auto simp: bit_or_iff)

text \<open>The six bytes after the two parts were shifted back.\<close>

lemma two_parts_back:
  fixes m d :: "u8 list"
  assumes "length d = 1500"
  defines "e \<equiv> write_flexfec_mask6 m d"
  defines "e' \<equiv> WriteBigEndian4 (e[18 := m ! 0, 19 := m ! 1]) 20 (push_bit 2 (join4 (e ! 20) (e ! 21) (e ! 22) (e ! 23)))"
  shows "e' = e[18 := m ! 0, 19 := m ! 1, 20 := m ! 2, 21 := m ! 3, 22 := m ! 4, 23 := m ! 5 AND NOT 3]"
    and "bit (e ! 20) 6 \<longleftrightarrow> bit (m ! 1) 0" "bit (e ! 20) 7 \<longleftrightarrow> \<not> bit (m ! 5) 1 \<and> \<not> bit (m ! 5) 0"
proof -
  note e = write_mask6 [OF assms(1), of m, folded e_def]
  show "e' = e[18 := m ! 0, 19 := m ! 1, 20 := m ! 2, 21 := m ! 3, 22 := m ! 4, 23 := m ! 5 AND NOT 3]"
    unfolding e'_def WriteBigEndian4_def e(4-7) using part1_bytes [OF top_bits(3), of "m ! 2" "m ! 3" "m ! 4" "m ! 5"] by simp
  show "bit (e ! 20) 6 \<longleftrightarrow> bit (m ! 1) 0" "bit (e ! 20) 7 \<longleftrightarrow> \<not> bit (m ! 5) 1 \<and> \<not> bit (m ! 5) 0"
    unfolding e(4) bit_or_iff [of "ucast _"] using part1_top [of "m ! 2" "m ! 3" "m ! 4" "m ! 5"] by (simp_all only: top_bits simp_thms)
qed

lemma flexfec_mask_C:
  assumes "length d = 1500" "\<not> bit (m ! 5) 1" "\<not> bit (m ! 5) 0" "24 \<le> len"
  shows "\<exists>d'. read_flexfec_mask len (write_flexfec_mask6 m d) = Some (d', 6) \<and> holds_mask m 6 6 d d'"
proof -
  define e where "e = write_flexfec_mask6 m d"
  define e' where "e' = e[18 := m ! 0, 19 := m ! 1, 20 := m ! 2, 21 := m ! 3, 22 := m ! 4, 23 := m ! 5]"
  note e = write_mask6 [OF assms(1), of m, folded e_def] and two = two_parts_back [OF assms(1), of m, folded e_def]
  have "read_flexfec_mask len e = Some (e', 6)"
    using read_two_parts(1) [OF e(1-3) two(2) assms(4)] two(1,3) assms(2,3) clear_3 [OF assms(2,3)] by (simp add: e'_def)
  moreover have "holds_mask m 6 6 d e'"
  proof (rule holds_maskI)
    fix i :: nat assume "i < 6"
    then have "i = 0 \<or> i = 1 \<or> i = 2 \<or> i = 3 \<or> i = 4 \<or> i = 5" by auto
    then show "e' ! (18 + i) = (if i < 6 then m ! i else 0)"
      using e(1) by (elim disjE) (simp_all add: e'_def nth_list_update)
  next
    fix j :: nat assume "j < 18 \<or> 18 + 6 \<le> j" "j < 1500"
    then show "e' ! j = d ! j" using e(8) assms(2,3) by (auto simp: e'_def)
  qed (use assms(1) e(1) in \<open>auto simp: e'_def\<close>)
  ultimately show ?thesis by (auto simp: e_def)
qed

lemma flexfec_mask_D:
  assumes "length d = 1500" "bit (m ! 5) 1 \<or> bit (m ! 5) 0" "32 \<le> len"
  shows "\<exists>d'. read_flexfec_mask len (write_flexfec_mask6 m d) = Some (d', 14) \<and> holds_mask m 6 14 d d'"
proof -
  define e where "e = write_flexfec_mask6 m d"
  define z :: u8 where "z = 0x80 OR (if bit (m ! 5) 1 then 0x40 else 0) OR (if bit (m ! 5) 0 then 0x20 else 0)"
  define e2 where "e2 = e[18 := m ! 0, 19 := m ! 1, 20 := m ! 2, 21 := m ! 3, 22 := m ! 4, 23 := m ! 5 AND NOT 3]"
  define t where "t = e2[23 := m ! 5]"
  note e = write_mask6 [OF assms(1), of m, folded e_def] and two = two_parts_back [OF assms(1), of m, folded e_def]
  have long: "\<not> (\<not> bit (m ! 5) 1 \<and> \<not> bit (m ! 5) 0)" using assms(2) by blast
  have e24: "e2 ! 24 = z" "e2 ! 23 = m ! 5 AND NOT 3" using e(1) e(10) [OF long] by (simp_all add: e2_def z_def nth_list_update)
  have zb: "bit z 7" by (simp add: z_def bit_or_iff)
  have t_eq: "e2[23 := e2 ! 23 OR (drop_bit 5 (e2 ! 24) AND 0x03)] = t"
    unfolding e24 z_def clear_or_tail t_def ..
  have t24: "t ! 24 = z" "\<And>j. 24 < j \<Longrightarrow> j < 32 \<Longrightarrow> t ! j = 0" using e24 e(1) e(11) [OF long] by (auto simp: t_def e2_def)
  have zero: "push_bit 3 (ReadBigEndian8 t 24 :: u64) = 0"
    unfolding ReadBigEndian8_def t24(1) using t24(2) by (simp add: z_def)
  have "read_flexfec_mask len e = Some (WriteBigEndian8 t 24 (0 :: u64), 14)"
  proof -
    have "24 \<le> len" "\<not> bit (e ! 20) 7" "bit (e2 ! 24) 7" using assms(3) two(3) long e24 zb by auto
    then show ?thesis
      using read_two_parts(2) [OF e(1-3) two(2), of len, unfolded two(1), folded e2_def] assms(3)
      unfolding Let_def t_eq zero by blast
  qed
  moreover have "holds_mask m 6 14 d (WriteBigEndian8 t 24 (0 :: u64))"
  proof (rule holds_maskI)
    fix i :: nat assume "i < 14"
    then have "i = 0 \<or> i = 1 \<or> i = 2 \<or> i = 3 \<or> i = 4 \<or> i = 5 \<or> i = 6 \<or> i = 7 \<or> i = 8 \<or> i = 9 \<or> i = 10 \<or> i = 11 \<or> i = 12 \<or> i = 13" by presburger
    then show "WriteBigEndian8 t 24 (0 :: u64) ! (18 + i) = (if i < 6 then m ! i else 0)"
      using e(1) by (elim disjE) (simp_all add: t_def e2_def WriteBigEndian8_def nth_list_update)
  next
    fix j :: nat assume "j < 18 \<or> 18 + 14 \<le> j" "j < 1500"
    then show "WriteBigEndian8 t 24 (0 :: u64) ! j = d ! j" using e(9) [OF long] by (auto simp: t_def e2_def WriteBigEndian8_def)
  qed (use assms(1) e(1) in \<open>auto simp: t_def e2_def WriteBigEndian8_def\<close>)
  ultimately show ?thesis by (auto simp: e_def)
qed

subsection \<open>FlexFEC implements the contract\<close>

definition flex_mask_written :: "u8 list \<Rightarrow> nat \<Rightarrow> u8 list \<Rightarrow> u8 list" where
  "flex_mask_written m w d = (if w = 6 then write_flexfec_mask6 m d else write_flexfec_mask2 m d)"

lemma flex_mask_low:
  assumes "j < 18" "length d = 1500"
  shows "flex_mask_written m w d ! j = d ! j" "length (flex_mask_written m w d) = length d"
proof -
  have "write_flexfec_mask6 m d ! j = d ! j" "length (write_flexfec_mask6 m d) = 1500"
    using write_mask6(1) [OF assms(2), of m] write_mask6(8,9) [OF assms(2), where m = m and j = j] assms(1) by auto
  moreover have "write_flexfec_mask2 m d ! j = d ! j" "length (write_flexfec_mask2 m d) = length d"
    using assms(1) by (auto simp: write_flexfec_mask2_def Let_def WriteBigEndian2_def memset0_nth assms(2))
  ultimately show "flex_mask_written m w d ! j = d ! j" "length (flex_mask_written m w d) = length d"
    using assms(2) by (simp_all add: flex_mask_written_def)
qed

lemma flex_mask_read:
  assumes "w \<in> {2, 6}" "length d = 1500" "18 + flexfec_MinPacketMaskSize m w \<le> len"
  shows "\<exists>d'. read_flexfec_mask len (flex_mask_written m w d) = Some (d', flexfec_MinPacketMaskSize m w) \<and>
    holds_mask m w (flexfec_MinPacketMaskSize m w) d d'"
proof (cases "w = 6")
  case True
  then show ?thesis using assms(2,3) flexfec_mask_C [of d m len] flexfec_mask_D [of d m len]
    by (cases "bit (m ! 5) 1 \<or> bit (m ! 5) 0") (auto simp: flexfec_MinPacketMaskSize_def flex_mask_written_def and_03)
next
  case False
  then show ?thesis using assms flexfec_mask_A [of d m len] flexfec_mask_B [of d m len]
    by (cases "bit (m ! 1) 0") (auto simp: flexfec_MinPacketMaskSize_def flex_mask_written_def and_01)
qed

definition flex_head :: "u32 \<Rightarrow> u16 \<Rightarrow> u8 list \<Rightarrow> u8 list" where
  "flex_head ms base d = WriteBigEndian2 (WriteBigEndian4 (WriteBigEndian 3
     (WriteBigEndian1 ((d[0 := d ! 0 AND 0x7f])[0 := (d ! 0 AND 0x7f) AND 0xbf]) 8 1) 9 (0 :: u32)) 12 ms) 16 base"

lemma flexfec_data:
  assumes "w \<in> {2, 6}" "length (pkt_data p) = 1500"
  shows "pkt_data (flexfec_FinalizeFecHeader ms base m w p) = flex_mask_written m w (flex_head ms base (pkt_data p))"
  using assms by (auto simp: flexfec_FinalizeFecHeader_def flex_head_def flex_mask_written_def Let_def)

lemma flex_head_nth:
  assumes "length d = 1500" "j < 1500"
  shows "flex_head ms base d ! j =
    (if j = 0 then (d ! 0 AND 0x7f) AND 0xbf else if j = 8 then 1 else if 9 \<le> j \<and> j < 12 then 0
     else if 12 \<le> j \<and> j < 16 then ucast (drop_bit ((15 - j) * 8) ms)
     else if j = 16 then ucast (drop_bit 8 base) else if j = 17 then ucast base else d ! j)"
    and "length (flex_head ms base d) = 1500"
proof -
  have upt: "[0..<3] = [0, 1, 2 :: nat]" by code_simp
  show "length (flex_head ms base d) = 1500"
    using assms(1) by (simp add: flex_head_def WriteBigEndian1_def WriteBigEndian2_def WriteBigEndian4_def)
  have "j = 12 \<or> j = 13 \<or> j = 14 \<or> j = 15" if "12 \<le> j" "j < 16" using that by auto
  then show "flex_head ms base d ! j =
    (if j = 0 then (d ! 0 AND 0x7f) AND 0xbf else if j = 8 then 1 else if 9 \<le> j \<and> j < 12 then 0
     else if 12 \<le> j \<and> j < 16 then ucast (drop_bit ((15 - j) * 8) ms)
     else if j = 16 then ucast (drop_bit 8 base) else if j = 17 then ucast base else d ! j)"
    using assms by (auto simp: flex_head_def WriteBigEndian1_def WriteBigEndian2_def WriteBigEndian4_def WriteBigEndian_def upt nth_list_update)
qed

lemma ReadBigEndian4_bytes:
  assumes "d ! off = ucast (drop_bit 24 (v :: u32))" "d ! (off + 1) = ucast (drop_bit 16 v)" "d ! (off + 2) = ucast (drop_bit 8 v)"
    "d ! (off + 3) = ucast v"
  shows "ReadBigEndian4 d off = v"
proof (rule bit_word_eqI)
  fix k assume "k < LENGTH(32)"
  then show "bit (ReadBigEndian4 d off :: u32) k \<longleftrightarrow> bit v k"
    unfolding ReadBigEndian_join assms by (auto simp: word_bits)
qed

lemma flexfec_top_bits: "\<not> bit ((a AND 0x7f) AND 0xbf :: u8) 6" "\<not> bit ((a AND 0x7f) AND 0xbf :: u8) 7"
  by (simp_all add: bit_and_iff)

lemma flexfec_read_back:
  assumes w: "w \<in> {2, 6}" and n: "n = flexfec_MinPacketMaskSize m w" "hs = FlexfecHeaderSize n"
    and p: "length (pkt_data p) = 1500" "hs \<le> pkt_length p"
    and f: "fec_pkt f = flexfec_FinalizeFecHeader ms base m w p"
  shows "\<exists>f'. flexfec_ReadFecHeader f = Some f' \<and> header_read hs ms base m w p f f'"
proof -
  let ?d = "pkt_data (fec_pkt f)" and ?h = "flex_head ms base (pkt_data p)"
  note h = flex_head_nth(1) [OF p(1), where ms = ms and base = base] and hlen = flex_head_nth(2) [OF p(1), of 0 ms base, simplified]
  have n': "n \<in> {2, 6, 14}" "w \<le> n" using w n(1) by (auto simp: flexfec_MinPacketMaskSize_def)
  then have hs: "hs = 18 + n" using n(2) by (auto simp: FlexfecHeaderSize_def)
  have d: "?d = flex_mask_written m w ?h" using f flexfec_data [OF w p(1)] by simp
  have low: "?d ! j = ?h ! j" if "j < 18" for j unfolding d by (rule flex_mask_low(1) [OF that hlen])
  have len: "pkt_length (fec_pkt f) = pkt_length p" unfolding f by (simp add: flexfec_FinalizeFecHeader_def Let_def)
  obtain d' where d': "read_flexfec_mask (pkt_length p) ?d = Some (d', n)" "holds_mask m w n ?h d'"
    using flex_mask_read [OF w hlen, of m "pkt_length p"] p(2) hs n(1) unfolding d by auto
  have top: "?d ! 0 = (pkt_data p ! 0 AND 0x7f) AND 0xbf" using low [of 0] h [of 0] by simp
  have c: "ReadBigEndian1 ?d 8 = 1" using low [of 8] h [of 8] by (simp add: ReadBigEndian1_def)
  have ssrc: "ReadBigEndian4 ?d 12 = ms"
    by (rule ReadBigEndian4_bytes) (use low h in simp_all)
  have base: "ReadBigEndian2 ?d 16 = base"
    by (rule ReadBigEndian2_bytes) (use low h in simp_all)
  define f' where "f' = f\<lparr>fec_header_size := hs, protected_ssrc := ms, seq_num_base := base, packet_mask_offset := 18,
    packet_mask_size := n, protection_length := pkt_length p - hs, fec_pkt := (fec_pkt f)\<lparr>pkt_data := d'\<rparr>\<rparr>"
  have "18 < pkt_length p" "20 \<le> pkt_length p" using p(2) hs n'(1) by auto
  moreover have "?d ! 0 AND 0x80 = 0" "?d ! 0 AND 0x40 = 0"
    using and_80 [of "?d ! 0"] and_40 [of "?d ! 0"] top flexfec_top_bits by auto
  ultimately have read: "flexfec_ReadFecHeader f = Some f'"
    unfolding flexfec_ReadFecHeader_def Let_def len d'(1) option.case prod.case c ssrc base n(2) [symmetric] by (simp add: f'_def)
  have nth: "pkt_data (fec_pkt f') ! j = (if 18 \<le> j \<and> j < 18 + n then if j - 18 < w then m ! (j - 18) else 0 else ?h ! j)" "length d' = 1500"
    if "j < 1500" for j using d'(2) hlen that by (simp_all add: holds_mask_def f'_def)
  have body: "pkt_data (fec_pkt f') ! j = pkt_data p ! j" if "j \<in> {1..<8} \<union> {hs..<1500}" for j
  proof -
    have "j < 1500" "\<not> (18 \<le> j \<and> j < 18 + n)" using that hs by auto
    then have "pkt_data (fec_pkt f') ! j = ?h ! j" using nth(1) [OF \<open>j < 1500\<close>] by (simp only: if_False)
    also have "\<dots> = pkt_data p ! j" using that hs by (subst h) auto
    finally show ?thesis .
  qed
  have "pkt_data (fec_pkt f') ! 0 = (pkt_data p ! 0 AND 0x7f) AND 0xbf" using nth(1) [of 0] h [of 0] by simp
  then have first: "bit (pkt_data (fec_pkt f') ! 0) k \<longleftrightarrow> bit (pkt_data p ! 0) k" if "k < 6" for k
    using ulpfec_first_byte(2) [OF that] by simp
  have mask: "c < 8 * n \<and> mask_bit n (drop 18 (pkt_data (fec_pkt f'))) 0 c \<longleftrightarrow> c < 8 * w \<and> mask_bit w m 0 c" for c
  proof (cases "c < 8 * n")
    case True
    then have "c div 8 < n" "18 + c div 8 < 1500" using n'(1) by auto
    then have "pkt_data (fec_pkt f') ! (18 + c div 8) = (if c div 8 < w then m ! (c div 8) else 0)" using nth(1) by simp
    moreover have "c div 8 < w \<longleftrightarrow> c < 8 * w" by (simp add: div_less_iff_less_mult mult.commute)
    moreover have "18 \<le> length (pkt_data (fec_pkt f'))" using nth(2) [of 0] by (simp add: f'_def)
    ultimately show ?thesis using True by (auto simp: mask_bit_def)
  next
    case False
    then show ?thesis using n'(2) by auto
  qed
  have "header_read hs ms base m w p f f'"
    using body first mask nth(2) [of 0] len unfolding header_read_def by (simp add: f'_def)
  with read show ?thesis by blast
qed

interpretation flexfec: fec_format FlexfecHeaderWriter FlexfecHeaderReader "\<lambda>_ _. True"
proof
  show "\<exists>f'. ReadFecHeader FlexfecHeaderReader f = Some f' \<and> header_read hs ms base m w p f f'"
    if "w \<in> {2, 6}" "hs = FecHeaderSize FlexfecHeaderWriter (MinPacketMaskSize FlexfecHeaderWriter m w)"
      "length (pkt_data p) = 1500" "hs \<le> pkt_length p" "fec_pkt f = FinalizeFecHeader FlexfecHeaderWriter ms base m w p" for w m hs p f ms base
    using flexfec_read_back [OF that(1) refl _ that(3,4), of m f ms base] that(2,5)
    by (simp add: FlexfecHeaderReader_def FlexfecHeaderWriter_def flexfec_FecHeaderSize_def)
  show "length (pkt_data (FinalizeFecHeader FlexfecHeaderWriter ms base m w p)) = length (pkt_data p)" for ms base m w p
    by (simp add: FlexfecHeaderWriter_def flexfec_FinalizeFecHeader_def Let_def write_flexfec_mask6_def write_flexfec_mask2_def
        WriteBigEndian1_def WriteBigEndian2_def WriteBigEndian4_def)
qed (auto simp: FlexfecHeaderReader_def FlexfecHeaderWriter_def flexfec_FecHeaderSize_def flexfec_MinPacketMaskSize_def FlexfecHeaderSize_def
    flexfec_FinalizeFecHeader_def Let_def)

end
