(* ===== verification/XorRecover.thy ===== *)
theory XorRecover
  imports XorPayload XorDecode FlexFormat
begin

text \<open>
  Recovery is exact: an FEC packet that carries the exclusive or of the media packets it protects,
  together with all of them but one, gives back the missing packet, byte for byte.
\<close>

subsection \<open>FEC packets at the receiver\<close>

text \<open>What is left of the encoder's work in a received FEC packet whose header was read: the sums of the
  contributions, except for the two top bits of the first byte.\<close>

definition carries :: "nat \<Rightarrow> Packet list \<Rightarrow> ReceivedFecPacket \<Rightarrow> bool" where
  "carries hs qs f \<longleftrightarrow> fec_header_size f = hs \<and> protection_length f = payload_max qs \<and>
     pkt_length (fec_pkt f) = hs + payload_max qs \<and> length (pkt_data (fec_pkt f)) = 1500 \<and>
     (\<forall>j\<in>{1..<8} \<union> {hs..<1500}. pkt_data (fec_pkt f) ! j = xsum (contrib hs j) qs) \<and>
     (\<forall>k<6. bit (pkt_data (fec_pkt f) ! 0) k \<longleftrightarrow> bit (xsum (contrib hs 0) qs) k)"

lemma header_read_carries:
  assumes "header_read hs ms base m w p f f'" "p = fold (protect_packet hs) qs new_Packet"
    and "qs \<noteq> []" "\<forall>q\<in>set qs. media_ok q" "14 \<le> hs" "hs \<le> 32"
  shows "carries hs qs f'"
proof -
  have st: "fec_started hs new_Packet" by (simp add: fec_started_def new_Packet_def)
  have "8 \<le> hs" using assms(5) by simp
  note pf = protect_fold [OF st assms(4) this assms(6)]
  have data: "pkt_data p ! j = xsum (contrib hs j) qs" if "j < 1500" for j
    unfolding assms(2) using pf(2) [OF that] that by (simp add: new_Packet_def)
  have len: "pkt_length p = hs + payload_max qs" unfolding assms(2) using pf(3) assms(3) by (simp add: new_Packet_def)
  show ?thesis using assms(1) data len unfolding header_read_def carries_def by auto
qed

subsection \<open>The exclusive or at the receiver\<close>

text \<open>With the payload at 12, where recovery puts it.\<close>

lemma contrib_shift: "hs \<le> j \<Longrightarrow> 14 \<le> hs \<Longrightarrow> contrib hs j p = contrib 12 (12 + (j - hs)) p"
  by (auto simp: contrib_def)

lemma contrib_head: "j < 8 \<Longrightarrow> contrib hs j p = contrib 12 j p"
  by (simp add: contrib_def)

lemma contrib_none: "8 \<le> j \<Longrightarrow> j < 12 \<Longrightarrow> contrib 12 j p = 0"
  by (simp add: contrib_def)

lemma recover_start:
  assumes "carries hs qs f" "\<forall>q\<in>set qs. media_ok q" "14 \<le> hs" "hs \<le> 32"
  obtains p where "StartPacketRecovery f = Some p" "length (pkt_data p) = 1500"
    "\<And>j. j < 1500 \<Longrightarrow> j \<noteq> 0 \<Longrightarrow> j < 8 \<or> 12 \<le> j \<Longrightarrow> pkt_data p ! j = xsum (contrib 12 j) qs"
    "\<And>k. k < 6 \<Longrightarrow> bit (pkt_data p ! 0) k \<longleftrightarrow> bit (xsum (contrib 12 0) qs) k"
proof
  note c = assms(1) [unfolded carries_def]
  have max: "payload_max qs \<le> 1468"
    by (rule payload_max_le) (use assms(2) in \<open>auto simp: media_ok_def\<close>)
  define p where "p = new_Packet\<lparr>pkt_data := memcpy_at (memcpy_at (memset0 (pkt_data new_Packet) 0 1500) 0 (pkt_data (fec_pkt f)) 12)
     12 (drop hs (pkt_data (fec_pkt f))) (payload_max qs)\<rparr>"
  show "StartPacketRecovery f = Some p"
    using c max assms(4) by (simp add: StartPacketRecovery_def p_def Let_def)
  show "length (pkt_data p) = 1500" by (simp add: p_def new_Packet_def)
  have nth: "pkt_data p ! j = (if 12 \<le> j \<and> j < 12 + payload_max qs then pkt_data (fec_pkt f) ! (hs + (j - 12))
      else if j < 12 then pkt_data (fec_pkt f) ! j else 0)" if "j < 1500" for j
    using that c assms(4) by (simp add: p_def new_Packet_def memcpy_at_nth memset0_nth)
  show "pkt_data p ! j = xsum (contrib 12 j) qs" if "j < 1500" "j \<noteq> 0" "j < 8 \<or> 12 \<le> j" for j
  proof (cases "j < 12")
    case True
    then have "j < 8" using that(3) by simp
    then have "xsum (contrib hs j) qs = xsum (contrib 12 j) qs" by (intro xsum_cong contrib_head)
    then show ?thesis using nth [OF that(1)] True \<open>j < 8\<close> that(2) c by simp
  next
    case False
    show ?thesis
    proof (cases "j < 12 + payload_max qs")
      case True
      then have "hs + (j - 12) \<in> {1..<8} \<union> {hs..<1500}" using max assms(4) by auto
      then have "pkt_data (fec_pkt f) ! (hs + (j - 12)) = xsum (contrib hs (hs + (j - 12))) qs" using c by blast
      then have "pkt_data p ! j = xsum (contrib hs (hs + (j - 12))) qs" using nth [OF that(1)] True False by simp
      also have "\<dots> = xsum (contrib 12 j) qs" using False assms(3) by (intro xsum_cong) (simp add: contrib_shift)
      finally show ?thesis .
    next
      case past: False
      have "contrib 12 j q = 0" if "q \<in> set qs" for q
        using payload_max_ge [OF that] False past by (simp add: contrib_def)
      then have "xsum (contrib 12 j) qs = 0" by (rule xsum_0)
      then show ?thesis using nth [OF that(1)] past False by simp
    qed
  qed
  show "bit (pkt_data p ! 0) k \<longleftrightarrow> bit (xsum (contrib 12 0) qs) k" if "k < 6" for k
  proof -
    have "xsum (contrib hs 0) qs = xsum (contrib 12 0) qs" by (intro xsum_cong contrib_head) simp
    then show ?thesis using nth [of 0] c that by simp
  qed
qed

lemma recover_step_some:
  assumes "media_ok q" "length (pkt_data p) = 1500" "pp_pkt pq = Some q" "recover_step pq (p, sn) = (p', sn')"
  shows "length (pkt_data p') = 1500" "sn' = sn" "j < 1500 \<Longrightarrow> pkt_data p' ! j = pkt_data p ! j XOR contrib 12 j q"
proof -
  have q: "12 \<le> pkt_length q" "\<And>j. j < 1500 \<Longrightarrow> pkt_length q \<le> j \<Longrightarrow> pkt_data q ! j = 0" using assms(1) by (simp_all add: media_ok_def)
  have p': "p' = XorPayloads q (pkt_length q) 12 (XorHeaders q p)" "sn' = sn" using assms(3,4) by (simp_all add: recover_step_def)
  show "sn' = sn" by (rule p'(2))
  show "length (pkt_data p') = 1500" using assms(2) by (simp add: p')
  show "pkt_data p' ! j = pkt_data p ! j XOR contrib 12 j q" if "j < 1500"
    using that assms(2) q XorHeaders_nth [OF assms(2) q(1) that]
    by (auto simp: p' XorPayloads_nth xor.assoc contrib_def)
qed

text \<open>The loop over the protected packets, of which all or all but one are there.\<close>

lemma recover_fold:
  assumes "map pp_pkt ps = map Some qs" "\<forall>q\<in>set qs. media_ok q" "length (pkt_data p) = 1500" "fold recover_step ps (p, sn) = (p', sn')"
  shows "length (pkt_data p') = 1500 \<and> sn' = sn \<and> (\<forall>j<1500. pkt_data p' ! j = pkt_data p ! j XOR xsum (contrib 12 j) qs)"
  using assms
proof (induction ps arbitrary: qs p sn)
  case Nil
  then show ?case by simp
next
  case (Cons pq ps)
  then obtain q qs' where qs: "qs = q # qs'" "pp_pkt pq = Some q" "map pp_pkt ps = map Some qs'" by (cases qs) auto
  obtain p1 sn1 where s1: "recover_step pq (p, sn) = (p1, sn1)" by fastforce
  note step = recover_step_some [OF _ Cons.prems(3) qs(2) s1]
  have q: "media_ok q" using Cons.prems(2) qs by simp
  have "fold recover_step ps (p1, sn1) = (p', sn')" using Cons.prems(4) s1 by simp
  from Cons.IH [OF qs(3) _ step(1) [OF q] this] show ?case
    using Cons.prems(2) step [OF q] qs(1) by (simp add: xor.assoc)
qed

lemma recover_loop:
  assumes "map pp_pkt ps = map Some as @ None # map Some bs" "\<forall>q\<in>set (as @ bs). media_ok q" "length (pkt_data p) = 1500"
    and "fold recover_step ps (p, sn) = (p', sn')"
  shows "length (pkt_data p') = 1500 \<and> sn' = pp_seq_num (ps ! length as) \<and>
    (\<forall>j<1500. pkt_data p' ! j = pkt_data p ! j XOR xsum (contrib 12 j) (as @ bs))"
proof -
  obtain p1 pn p2 where ps: "ps = p1 @ pn # p2" "map pp_pkt p1 = map Some as" "pp_pkt pn = None" "map pp_pkt p2 = map Some bs"
    using assms(1) by (auto simp: map_eq_append_conv map_eq_Cons_conv)
  have l: "length p1 = length as" using ps(2) by (metis length_map)
  obtain q1 s1 where a: "fold recover_step p1 (p, sn) = (q1, s1)" by fastforce
  have b: "fold recover_step p2 (q1, pp_seq_num pn) = (p', sn')"
    using assms(4) a ps(3) by (simp add: ps(1) recover_step_def)
  have A: "length (pkt_data q1) = 1500" "\<forall>j<1500. pkt_data q1 ! j = pkt_data p ! j XOR xsum (contrib 12 j) as"
    using recover_fold [OF ps(2) _ assms(3) a] assms(2) by auto
  have "\<forall>q\<in>set bs. media_ok q" using assms(2) by auto
  from recover_fold [OF ps(4) this A(1) b] show ?thesis
    using A(2) by (simp add: ps(1) xor.assoc l [symmetric])
qed

subsection \<open>Finishing\<close>

lemma u16_bytes: "ucast (drop_bit 8 (push_bit 8 (ucast a) + ucast b :: u16)) = (a :: u8)" "ucast (push_bit 8 (ucast a) + ucast b :: u16) = (b :: u8)"
proof -
  have "(push_bit 8 (ucast a) + ucast b :: u16) = join2 a b" unfolding join2_def
    by (rule disjunctive_add) (auto simp: bit_push_bit_iff bit_unsigned_iff)
  then show "ucast (drop_bit 8 (push_bit 8 (ucast a) + ucast b :: u16)) = a" "ucast (push_bit 8 (ucast a) + ucast b :: u16) = b"
    by (simp_all only:) (rule bit_word_eqI, simp add: bit_unsigned_iff bit_drop_bit_eq bit_join2)+
qed

lemma ParseSsrc_join: "ParseSsrc d = join4 (d ! 8) (d ! 9) (d ! 10) (d ! 11)"
proof -
  have a: "(push_bit 24 (ucast x) + push_bit 16 (ucast y) :: u32) = push_bit 24 (ucast x) OR push_bit 16 (ucast y)" for x y :: u8
    by (rule disjunctive_add) (auto simp: bit_push_bit_iff bit_unsigned_iff)
  have b: "((push_bit 24 (ucast x) OR push_bit 16 (ucast y)) + push_bit 8 (ucast z) :: u32) =
      (push_bit 24 (ucast x) OR push_bit 16 (ucast y)) OR push_bit 8 (ucast z)" for x y z :: u8
    by (rule disjunctive_add) (auto simp: bit_push_bit_iff bit_unsigned_iff bit_or_iff)
  have c: "((push_bit 24 (ucast x) OR push_bit 16 (ucast y)) OR push_bit 8 (ucast z)) + ucast w =
      (((push_bit 24 (ucast x) OR push_bit 16 (ucast y)) OR push_bit 8 (ucast z)) OR ucast w :: u32)" for x y z w :: u8
    by (rule disjunctive_add) (auto simp: bit_push_bit_iff bit_unsigned_iff bit_or_iff)
  show ?thesis unfolding ParseSsrc_def a b c join4_def by (simp add: or.assoc)
qed

lemma ssrc_bytes:
  assumes "ParseSsrc d = s"
  shows "ucast (drop_bit 24 s) = d ! 8" "ucast (drop_bit 16 s) = d ! 9" "ucast (drop_bit 8 s) = d ! 10" "ucast s = d ! 11"
  unfolding assms [symmetric] ParseSsrc_join
  by (rule bit_word_eqI, simp add: bit_unsigned_iff bit_drop_bit_eq bit_join4)+

lemma version_byte:
  assumes "bit (x :: u8) 7" "\<not> bit x 6" "\<And>k. k < 6 \<Longrightarrow> bit a k \<longleftrightarrow> bit x k"
  shows "(a OR 0x80) AND 0xbf = x"
proof (rule bit_word_eqI)
  fix k assume k: "k < LENGTH(8)"
  have bf: "(0xbf :: u8) = NOT 0x40" by simp
  have pw: "(0x80 :: u8) = 2 ^ 7" "(0x40 :: u8) = 2 ^ 6" by simp_all
  have "bit (0x80 :: u8) k \<longleftrightarrow> k = 7" "bit (0x40 :: u8) k \<longleftrightarrow> k = 6" unfolding pw bit_exp_iff using k by auto
  then have "bit ((a OR 0x80) AND 0xbf) k \<longleftrightarrow> (bit a k \<or> k = 7) \<and> k \<noteq> 6"
    unfolding bf bit_and_iff bit_or_iff bit_not_iff using k by auto
  moreover have "k < 6 \<or> k = 6 \<or> k = 7" using k by auto
  ultimately show "bit ((a OR 0x80) AND 0xbf) k \<longleftrightarrow> bit x k" using assms by auto
qed

lemma recover_finish:
  assumes x: "media_ok x" "ParseSsrc (pkt_data x) = protected_ssrc f" and p: "length (pkt_data p) = 1500"
    and nth: "\<And>j. j < 1500 \<Longrightarrow> j \<noteq> 0 \<Longrightarrow> j < 8 \<or> 12 \<le> j \<Longrightarrow> pkt_data p ! j = contrib 12 j x"
    and top: "\<And>k. k < 6 \<Longrightarrow> bit (pkt_data p ! 0) k \<longleftrightarrow> bit (pkt_data x ! 0) k"
  shows "FinishPacketRecovery f (seq_of x) p = Some x"
proof -
  have ok: "12 \<le> pkt_length x" "pkt_length x \<le> 1480" "length (pkt_data x) = 1500" "bit (pkt_data x ! 0) 7" "\<not> bit (pkt_data x ! 0) 6"
    "\<And>j. j < 1500 \<Longrightarrow> pkt_length x \<le> j \<Longrightarrow> pkt_data x ! j = 0"
    using x(1) by (simp_all add: media_ok_def)
  let ?d = "(pkt_data p)[0 := (pkt_data p ! 0 OR 0x80) AND 0xbf]"
  have "ReadBigEndian2 ?d 2 = (of_nat (pkt_length x - 12) :: u16)"
    by (rule ReadBigEndian2_bytes) (use nth [of 2] nth [of 3] p in \<open>simp_all add: contrib_def\<close>)
  then have len: "unat (ReadBigEndian2 ?d 2 :: u16) + 12 = pkt_length x"
    using ok(1,2) by (simp add: unsigned_of_nat take_bit_nat_eq_self del: of_nat_diff)
  let ?e = "WriteBigEndian4 (WriteBigEndian2 ?d 2 (seq_of x)) 8 (protected_ssrc f)"
  have "?e = pkt_data x"
  proof (rule nth_equalityI)
    show "length ?e = length (pkt_data x)" using p ok(3) by (simp add: WriteBigEndian4_def WriteBigEndian2_def)
    fix j assume "j < length ?e"
    then have j: "j < 1500" using p by (simp add: WriteBigEndian4_def WriteBigEndian2_def)
    have "j = 0 \<or> j = 1 \<or> j = 2 \<or> j = 3 \<or> j = 4 \<or> j = 5 \<or> j = 6 \<or> j = 7 \<or> j = 8 \<or> j = 9 \<or> j = 10 \<or> j = 11 \<or> 12 \<le> j" by presburger
    then show "?e ! j = pkt_data x ! j"
      using p nth [OF j] ok(6) [OF j] version_byte [OF ok(4,5) top] ssrc_bytes [OF x(2)] u16_bytes ok(1) j
      by (elim disjE) (auto simp: WriteBigEndian4_def WriteBigEndian2_def ParseSequenceNumber_def contrib_def)
  qed
  then show ?thesis using len ok(2) p unfolding FinishPacketRecovery_def Let_def
    by (simp add: nth_list_update)
qed

text \<open>The missing packet comes back.\<close>

lemma RecoverPacket_exact:
  assumes "carries hs (as @ x # bs) f" "14 \<le> hs" "hs \<le> 32" "\<forall>q\<in>set (as @ x # bs). media_ok q"
    and "map pp_pkt (protected_packets f) = map Some as @ None # map Some bs"
    and "pp_seq_num (protected_packets f ! length as) = seq_of x" "ParseSsrc (pkt_data x) = protected_ssrc f"
  shows "RecoverPacket f = Some \<lparr>rec_ssrc = protected_ssrc f, rec_seq_num = seq_of x, was_recovered = True, returned = False, rec_pkt = x\<rparr>"
proof -
  obtain p where p: "StartPacketRecovery f = Some p" "length (pkt_data p) = 1500"
    "\<And>j. j < 1500 \<Longrightarrow> j \<noteq> 0 \<Longrightarrow> j < 8 \<or> 12 \<le> j \<Longrightarrow> pkt_data p ! j = xsum (contrib 12 j) (as @ x # bs)"
    "\<And>k. k < 6 \<Longrightarrow> bit (pkt_data p ! 0) k \<longleftrightarrow> bit (xsum (contrib 12 0) (as @ x # bs)) k"
    by (rule recover_start [OF assms(1,4,2,3)]) blast
  obtain p' sn' where f: "fold recover_step (protected_packets f) (p, 0) = (p', sn')" by fastforce
  have others: "\<forall>q\<in>set (as @ bs). media_ok q" using assms(4) by auto
  have p': "length (pkt_data p') = 1500" "sn' = seq_of x"
    "\<And>j. j < 1500 \<Longrightarrow> pkt_data p' ! j = pkt_data p ! j XOR xsum (contrib 12 j) (as @ bs)"
    using recover_loop [OF assms(5) others p(2) f] assms(6) by simp_all
  have "FinishPacketRecovery f (seq_of x) p' = Some x"
  proof (rule recover_finish [OF _ assms(7) p'(1)])
    show "media_ok x" using assms(4) by simp
    show "pkt_data p' ! j = contrib 12 j x" if "j < 1500" "j \<noteq> 0" "j < 8 \<or> 12 \<le> j" for j
      unfolding p'(3) [OF that(1)] p(3) [OF that] by (rule xsum_cancel)
    show "bit (pkt_data p' ! 0) k \<longleftrightarrow> bit (pkt_data x ! 0) k" if "k < 6" for k
    proof -
      have "bit (pkt_data p' ! 0) k \<longleftrightarrow> bit (xsum (contrib 12 0) (as @ x # bs) XOR xsum (contrib 12 0) (as @ bs)) k"
        using p'(3) [of 0] p(4) [OF that] by (simp only: bit_xor_iff zero_less_numeral)
      then show ?thesis unfolding xsum_cancel by (simp add: contrib_def)
    qed
  qed
  then show ?thesis using p(1) f p'(2) by (simp add: RecoverPacket_def)
qed

end
