(* ===== verification/XorEncode.thy ===== *)
theory XorEncode
  imports XorColumns XorRecover
begin

text \<open>
  What \<open>EncodeFec\<close> returns: for every list of media packets that fits one block, FEC packet \<open>i\<close> is
  the finished header around the exclusive or of the packets that row \<open>i\<close> of the mask selects,
  and every media packet is selected by some row. Proved once for every header format that satisfies the
  contract of \<open>FecFormat\<close>.
\<close>

subsection \<open>A block of media packets\<close>

abbreviation base_of :: "Packet list \<Rightarrow> u16" where
  "base_of ps \<equiv> seq_of (hd ps)"

abbreviation ssrc_of :: "Packet \<Rightarrow> u32" where
  "ssrc_of p \<equiv> ParseSsrc (pkt_data p)"

text \<open>Media packets of one stream, in the order of their sequence numbers, which span at most 48.\<close>

definition media_block :: "Packet list \<Rightarrow> bool" where
  "media_block ps \<longleftrightarrow> ps \<noteq> [] \<and> (\<forall>p\<in>set ps. media_ok p \<and> ssrc_of p = ssrc_of (hd ps)) \<and>
     in_order (base_of ps) ps \<and> column_of (base_of ps) (last ps) < 48"

text \<open>The packets that the first row of the mask \<open>m\<close> selects.\<close>

definition covered :: "Packet list \<Rightarrow> nat \<Rightarrow> u8 list \<Rightarrow> Packet list" where
  "covered ps w m = filter (\<lambda>p. mask_bit w m 0 (column_of (base_of ps) p)) ps"

text \<open>The FEC packet for that row.\<close>

definition fec_of :: "FecHeaderWriter \<Rightarrow> Packet list \<Rightarrow> nat \<Rightarrow> u8 list \<Rightarrow> Packet \<Rightarrow> bool" where
  "fec_of W ps w m p \<longleftrightarrow> w \<in> {2, 6} \<and> w \<le> length m \<and> column_of (base_of ps) (last ps) < 8 * w \<and> covered ps w m \<noteq> [] \<and>
     (\<forall>c<8 * w. mask_bit w m 0 c \<longrightarrow> c \<in> column_of (base_of ps) ` set ps) \<and>
     p = FinalizeFecHeader W (ssrc_of (hd ps)) (base_of ps) m w
       (fold (protect_packet (FecHeaderSize W (MinPacketMaskSize W m w))) (covered ps w m) new_Packet)"

definition encoder_ok :: "FecHeaderWriter \<Rightarrow> ForwardErrorCorrection \<Rightarrow> bool" where
  "encoder_ok W s \<longleftrightarrow> fec_header_writer s = W \<and> length (generated_fec_packets s) = 48 \<and>
     (\<forall>g\<in>set (generated_fec_packets s). length (pkt_data g) = 1500) \<and>
     length (packet_masks s) = 288 \<and> length (tmp_packet_masks s) = 288"

lemma media_block_le: "media_block ps \<Longrightarrow> length ps \<le> 48"
  using in_order_last(1) [of ps] by (auto simp: media_block_def)

lemma mask_bit_drop: "i * w \<le> length pm \<Longrightarrow> mask_bit w (drop (i * w) pm) 0 c \<longleftrightarrow> mask_bit w pm i c"
  by (simp add: mask_bit_def)

lemma NumFecPackets_le: "pf \<le> 255 \<Longrightarrow> 0 < m \<Longrightarrow> NumFecPackets m pf \<le> m"
proof -
  assume pf: "pf \<le> 255" "0 < m"
  have "m * pf \<le> m * 255" using pf(1) by (rule mult_le_mono2)
  then have "m * pf + 128 \<le> m * 255 + 128" by (rule add_le_mono1)
  also have "\<dots> < (m + 1) * 256" by simp
  finally have "m * pf + 128 < (m + 1) * 256" .
  then have "(m * pf + 128) div 256 < m + 1" by (rule less_mult_imp_div_less)
  then show ?thesis using pf(2) by (auto simp: NumFecPackets_def Let_def drop_bit_eq_div)
qed

subsection \<open>The loops over the FEC packets\<close>

lemma fold_generated:
  assumes "\<And>i s g. F i (s\<lparr>generated_fec_packets := g\<rparr>) = F i s"
  shows "fold (\<lambda>i s. s\<lparr>generated_fec_packets := (generated_fec_packets s)[i := F i s (generated_fec_packets s ! i)]\<rparr>) xs s =
    s\<lparr>generated_fec_packets := fold (\<lambda>i g. g[i := F i s (g ! i)]) xs (generated_fec_packets s)\<rparr>"
  by (induction xs arbitrary: s) (simp_all add: assms)

lemma fold_each:
  assumes "n \<le> length g" "i < n"
  shows "fold (\<lambda>i g. g[i := f i (g ! i)]) [0..<n] g ! i = f i (g ! i)"
  using fold_modify_at [of i g 0 f n] assms by simp

lemma fold_each_length: "length (fold (\<lambda>i g. g[i := f i (g ! i)]) xs g) = length g"
  by (rule fold_keeps [where g = length]) simp

lemma generate_payload_fold:
  assumes "media_block ps" "i * cur_mask_size s \<le> length (packet_masks s)"
    and "m = drop (i * cur_mask_size s) (packet_masks s)"
  shows "generate_payload s ps i f =
    fold (protect_packet (FecHeaderSize (fec_header_writer s) (MinPacketMaskSize (fec_header_writer s) m (cur_mask_size s))))
      (covered ps (cur_mask_size s) m) f"
proof -
  obtain q qs where q: "ps = q # qs" using assms(1) by (cases ps) (auto simp: media_block_def)
  have ord: "in_order (seq_of q) (q # qs)" using assms(1) q by (simp add: media_block_def)
  have "filter (\<lambda>p. bit (packet_masks s ! (i * cur_mask_size s + column_of (seq_of q) p div 8)) (7 - column_of (seq_of q) p mod 8)) ps =
      covered ps (cur_mask_size s) m"
    unfolding covered_def assms(3) mask_bit_drop [OF assms(2)] q by (simp add: mask_bit_def)
  then show ?thesis unfolding generate_payload_def Let_def assms(3) [symmetric] q
    by (subst payload_loop_fold [OF ord, where off = "i * cur_mask_size s"]) simp_all
qed

subsection \<open>The masks with the columns in place\<close>

lemma masks_for_block:
  assumes "media_block ps" "mask_ok w pm (length ps) n"
    and "masks_for w' pm' (mask_bit w pm) (map (column_of (base_of ps)) ps) n" "column_of (base_of ps) (last ps) < 8 * w'"
  shows "i < n \<Longrightarrow> c < 8 * w' \<Longrightarrow> mask_bit w' pm' i c \<Longrightarrow> c \<in> column_of (base_of ps) ` set ps"
    and "i < n \<Longrightarrow> \<exists>p\<in>set ps. mask_bit w' pm' i (column_of (base_of ps) p)"
    and "p \<in> set ps \<Longrightarrow> \<exists>i<n. mask_bit w' pm' i (column_of (base_of ps) p)"
proof -
  let ?c = "column_of (base_of ps)"
  have b: "ps \<noteq> []" "in_order (base_of ps) ps" using assms(1) by (simp_all add: media_block_def)
  have bit: "mask_bit w' pm' i c \<longleftrightarrow> (\<exists>k<length ps. ?c (ps ! k) = c \<and> mask_bit w pm i k)" if "i < n" "c < 8 * w'" for i c
    using assms(3) that by (auto simp: masks_for_def)
  have col: "?c p < 8 * w'" if "p \<in> set ps" for p
    using in_order_last(2) [OF b(2,1) that] assms(4) by (rule le_less_trans)
  show "c \<in> ?c ` set ps" if "i < n" "c < 8 * w'" "mask_bit w' pm' i c"
    using bit [OF that(1,2)] that(3) by auto
  show "\<exists>p\<in>set ps. mask_bit w' pm' i (?c p)" if i: "i < n"
  proof -
    obtain k where k: "k < length ps" "mask_bit w pm i k" using mask_ok_row [OF assms(2) i] by blast
    then have "mask_bit w' pm' i (?c (ps ! k))" using bit [OF i col [OF nth_mem [OF k(1)]]] by blast
    then show ?thesis using k(1) by (intro bexI [of _ "ps ! k"]) simp_all
  qed
  show "\<exists>i<n. mask_bit w' pm' i (?c p)" if p: "p \<in> set ps"
  proof -
    obtain k where k: "k < length ps" "p = ps ! k" using p unfolding in_set_conv_nth by blast
    obtain i where i: "i < n" "mask_bit w pm i k" using mask_ok_column [OF assms(2) k(1)] by blast
    then show ?thesis using bit [OF i(1) col [OF p]] k by blast
  qed
qed

subsection \<open>The encoder\<close>

lemma memset0_all: "length d = n \<Longrightarrow> memset0 d 0 n = replicate n 0"
  by (rule nth_equalityI) (simp_all add: memset0_nth)

lemma cleared_packets:
  assumes "\<forall>g\<in>set gen. length (pkt_data g) = 1500" "length gen = 48" "n \<le> 48" "i < n"
  shows "fold (\<lambda>i g. g[i := \<lparr>pkt_length = 0, pkt_data = memset0 (pkt_data (g ! i)) 0 IP_PACKET_SIZE\<rparr>]) [0..<n] gen ! i = new_Packet"
  using fold_each [of n gen i "\<lambda>_ g. \<lparr>pkt_length = 0, pkt_data = memset0 (pkt_data g) 0 IP_PACKET_SIZE\<rparr>"] assms
  by (simp add: memset0_all new_Packet_def)

lemma made_packets:
  fixes s :: ForwardErrorCorrection
  assumes "n \<le> length (generated_fec_packets s)" "i < n" "generated_fec_packets s ! i = g"
    and "s' = FinalizeFecHeaders n ms base (GenerateFecPayloads ps n s)"
  shows "length (generated_fec_packets s') = length (generated_fec_packets s)"
    "take n (generated_fec_packets s') ! i = FinalizeFecHeader (fec_header_writer s) ms base
      (drop (i * cur_mask_size s) (packet_masks s)) (cur_mask_size s) (generate_payload s ps i g)"
proof -
  let ?P = "\<lambda>i s g. generate_payload s ps i g"
  let ?H = "\<lambda>i s g. FinalizeFecHeader (fec_header_writer s) ms base (drop (i * cur_mask_size s) (packet_masks s)) (cur_mask_size s) g"
  define g1 where "g1 = fold (\<lambda>i g. g[i := ?P i s (g ! i)]) [0..<n] (generated_fec_packets s)"
  have 1: "GenerateFecPayloads ps n s = s\<lparr>generated_fec_packets := g1\<rparr>"
    unfolding GenerateFecPayloads_def g1_def by (subst fold_generated [of ?P]) (simp_all add: generate_payload_def fun_eq_iff)
  define g2 where "g2 = fold (\<lambda>i g. g[i := ?H i s (g ! i)]) [0..<n] g1"
  have 2: "s' = s\<lparr>generated_fec_packets := g2\<rparr>"
    unfolding assms(4) FinalizeFecHeaders_def 1 g2_def by (subst fold_generated [of ?H]) simp_all
  have g1: "length g1 = length (generated_fec_packets s)" "g1 ! i = ?P i s g"
    unfolding g1_def using assms(1-3) by (simp_all add: fold_each_length fold_each)
  then have g2: "length g2 = length (generated_fec_packets s)" "g2 ! i = ?H i s (?P i s g)"
    unfolding g2_def using assms(1,2) fold_each [of n g1 i "\<lambda>i g. ?H i s g"] by (simp_all add: fold_each_length)
  show "length (generated_fec_packets s') = length (generated_fec_packets s)" using g2 2 by simp
  show "take n (generated_fec_packets s') ! i = ?H i s (?P i s g)" using g2 2 assms(2) by simp
qed

context fec_format
begin

lemma EncodeFec_spec:
  assumes s: "encoder_ok W s" and ps: "media_block ps" and n: "n = NumFecPackets (length ps) (unat pf)" "0 < n"
    and imp: "imp \<le> length ps" and buf: "length buf = 288"
  obtains fecs s' w pm where "EncodeFec ps pf imp uep ty buf s = Some (0, fecs, s')" "length fecs = n"
    "\<And>i. i < n \<Longrightarrow> fec_of W ps w (drop (i * w) pm) (fecs ! i)"
    "\<And>p. p \<in> set ps \<Longrightarrow> \<exists>i<n. p \<in> set (covered ps w (drop (i * w) pm))"
proof -
  let ?m = "length ps" and ?c = "column_of (base_of ps)"
  have b: "ps \<noteq> []" "in_order (base_of ps) ps" "?c (last ps) < 48" "\<forall>p\<in>set ps. media_ok p" using ps by (simp_all add: media_block_def)
  have "(2 :: nat) ^ LENGTH(8) = 256" by simp
  then have "unat pf < 256" using unsigned_less [of pf, where 'a = nat] by (simp only:)
  then have "unat pf \<le> 255" by linarith
  then have nm: "n \<le> ?m" unfolding n(1) using b(1) by (intro NumFecPackets_le) simp_all
  have m: "?m \<le> 48" "n \<le> 48" using media_block_le [OF ps] nm by simp_all
  let ?old = "PacketMaskSize ?m" and ?w = "PacketMaskSize (?c (last ps) + 1)"
  define gen where "gen = fold (\<lambda>i g. g[i := \<lparr>pkt_length = 0, pkt_data = memset0 (pkt_data (g ! i)) 0 IP_PACKET_SIZE\<rparr>]) [0..<n] (generated_fec_packets s)"
  have gen: "length gen = 48" "\<And>i. i < n \<Longrightarrow> gen ! i = new_Packet"
    using s m(2) unfolding gen_def encoder_ok_def
    by (simp_all add: fold_keeps [where g = length] cleared_packets del: IP_PACKET_SIZE_def)
  define pm0 where "pm0 = snd (GeneratePacketMasks ?m n imp uep (new_PacketMaskTable ty ?m buf) (memset0 (packet_masks s) 0 (n * ?old)))"
  have nw: "n * ?old \<le> 288" by (rule PacketMaskSize_bound [OF nm m(1)])
  have "mask_request ?m n imp (memset0 (packet_masks s) 0 (n * ?old))"
    using n(2) nm m(1) imp nw s by (auto simp: mask_request_def encoder_ok_def memset0_nth)
  then have ok: "mask_ok ?old pm0 ?m n" unfolding pm0_def using buf by (intro GeneratePacketMasks_ok) simp_all
  have pm0: "length pm0 = 288" using s by (simp add: pm0_def GeneratePacketMasks_length encoder_ok_def)
  let ?sone = "s\<lparr>generated_fec_packets := gen, packet_masks := pm0, cur_mask_size := ?old\<rparr>"
  obtain pm tmp where z: "InsertZerosInPacketMasks ps n ?sone = Some (int (?c (last ps) + 1), ?sone\<lparr>packet_masks := pm, tmp_packet_masks := tmp\<rparr>)"
    "length pm = 288" "masks_for ?w pm (mask_bit ?old pm0) (map ?c ps) n"
    using InsertZeros_spec [OF b(1-3), of ?sone n] s limits m(2) pm0 mask_ok_outside [OF ok] by (auto simp: encoder_ok_def)
  let ?sthree = "?sone\<lparr>packet_masks := pm, tmp_packet_masks := tmp, cur_mask_size := ?w\<rparr>"
  define s' where "s' = FinalizeFecHeaders n (ssrc_of (hd ps)) (base_of ps) (GenerateFecPayloads ps n ?sthree)"
  have fit: "\<not> list_ex (\<lambda>p. pkt_length p < kRtpHeaderSize) ps" using b(4) by (auto simp: list_ex_iff media_ok_def)
  have pos: "\<not> int (?c (last ps) + 1) < 0" "nat (int (?c (last ps) + 1)) = ?c (last ps) + 1" by simp_all
  have max: "\<not> ?m > w_max_media_packets (fec_header_writer s)" using s m(1) limits by (simp add: encoder_ok_def)
  have "EncodeFec ps pf imp uep ty buf s = Some (0, take n (generated_fec_packets s'), s')"
    unfolding EncodeFec_def Let_def if_not_P [OF max] if_not_P [OF fit] n(1) [symmetric] gen_def [symmetric] pm0_def [symmetric] z(1)
      option.case prod.case if_not_P [OF pos(1)] pos(2) using n(2) by (simp add: s'_def)
  moreover have "length (generated_fec_packets s') = 48"
    using made_packets(1) [of n ?sthree 0 new_Packet s', OF _ n(2) _ s'_def] gen m(2) n(2) by simp
  then have "length (take n (generated_fec_packets s')) = n" using m(2) by simp
  moreover have rows: "i * ?w \<le> 288" "?w \<le> length (drop (i * ?w) pm)" if "i < n" for i
  proof -
    have "(i + 1) * ?w \<le> n * ?w" using that by (intro mult_le_mono1) simp
    then show "i * ?w \<le> 288" "?w \<le> length (drop (i * ?w) pm)" using z(2) m(2) by (auto simp: PacketMaskSize_def)
  qed
  have wide: "?c (last ps) < 8 * ?w" using b(3) by (auto simp: PacketMaskSize_def)
  note bl = masks_for_block [OF ps ok z(3) wide]
  have bit: "mask_bit ?w (drop (i * ?w) pm) 0 c \<longleftrightarrow> mask_bit ?w pm i c" if "i < n" for i c
    using rows(1) [OF that] z(2) by (intro mask_bit_drop) simp
  have "fec_of W ps ?w (drop (i * ?w) pm) (take n (generated_fec_packets s') ! i)" if i: "i < n" for i
  proof -
    have "take n (generated_fec_packets s') ! i = FinalizeFecHeader W (ssrc_of (hd ps)) (base_of ps) (drop (i * ?w) pm) ?w
        (generate_payload ?sthree ps i new_Packet)"
      using made_packets(2) [of n ?sthree i new_Packet s', OF _ i _ s'_def] gen m(2) i s by (simp add: encoder_ok_def)
    moreover have "generate_payload ?sthree ps i new_Packet = fold (protect_packet (FecHeaderSize W (MinPacketMaskSize W (drop (i * ?w) pm) ?w)))
        (covered ps ?w (drop (i * ?w) pm)) new_Packet"
      using generate_payload_fold [OF ps, of i ?sthree "drop (i * ?w) pm"] rows(1) [OF i] z(2) s by (simp add: encoder_ok_def)
    moreover have "covered ps ?w (drop (i * ?w) pm) \<noteq> []"
      using bl(2) [OF i] unfolding covered_def bit [OF i] filter_empty_conv by blast
    moreover have "?w \<in> {2, 6}" by (simp add: PacketMaskSize_def)
    ultimately show ?thesis using rows(2) [OF i] bl(1) [OF i] wide unfolding fec_of_def bit [OF i] by simp
  qed
  moreover have "\<exists>i<n. p \<in> set (covered ps ?w (drop (i * ?w) pm))" if p: "p \<in> set ps" for p
    using bl(3) [OF p] bit p unfolding covered_def by auto
  ultimately show ?thesis by (rule that)
qed

end

end
