(* ===== verification/XorSorted.thy ===== *)
theory XorSorted
  imports XorPayload XorDecode "HOL-Library.Multiset"
begin

text \<open>
  The sorted lists of the decoder inside one window of sequence numbers: there \<open>LessThan\<close> is the order
  of the distances from the first number, so sorting sorts, the binary search finds, and the merge of
  \<open>AssignRecoveredPackets\<close> gives each protected packet the recovered one with its number.
\<close>

subsection \<open>The comparator in a window\<close>

lemma window_number: "word_of_int (uint b + int (unat (v - b))) = (v :: u16)"
proof -
  have "word_of_int (uint b + int (unat (v - b))) = word_of_int (uint b) + (of_nat (unat (v - b)) :: u16)" by simp
  also have "\<dots> = v" by (simp only: word_of_int_uint of_nat_unat ucast_id) simp
  finally show ?thesis .
qed

lemma window_apart: "m < 1000 \<Longrightarrow> n < 1000 \<Longrightarrow> \<bar>(b + int m) - (b + int n)\<bar> < half TYPE(16)"
  by simp

lemma LessThan_irrefl [simp]: "\<not> LessThan v v"
  by (simp add: LessThan_def IsNewerSequenceNumber_def)

lemma LessThan_window:
  assumes "unat (u - b) < 1000" "unat (v - b) < 1000"
  shows "LessThan u v \<longleftrightarrow> unat (u - b) < unat (v - b)"
proof -
  from IsNewer_window [OF window_apart [OF assms(2,1), of "uint b"]] show ?thesis
    unfolding window_number LessThan_def IsNewerSequenceNumber_def by (simp only: add_less_cancel_left of_nat_less_iff)
qed

lemma MinDiff_near:
  assumes "unat (u - b :: u16) < d" "unat (v - b) < d" "d \<le> 1000"
  shows "unat (MinDiff 0 u v) < d"
proof -
  have "unat (u - b) < 1000" "unat (v - b) < 1000" using assms by simp_all
  from MinDiff_window [OF window_apart [OF this, of "uint b"]]
  have "uint (MinDiff 0 u v) = \<bar>int (unat (u - b)) - int (unat (v - b))\<bar>"
    unfolding window_number by (simp only: add_diff_cancel_left)
  moreover have "int (unat (MinDiff 0 u v)) = uint (MinDiff 0 u v)" by (rule of_nat_unat)
  ultimately show ?thesis using assms(1,2) by linarith
qed

subsection \<open>Sorting and searching\<close>

definition in_window :: "u16 \<Rightarrow> ('a \<Rightarrow> u16) \<Rightarrow> 'a list \<Rightarrow> bool" where
  "in_window b key xs \<longleftrightarrow> (\<forall>x\<in>set xs. unat (key x - b) < 1000)"

definition ordered :: "u16 \<Rightarrow> ('a \<Rightarrow> u16) \<Rightarrow> 'a list \<Rightarrow> bool" where
  "ordered b key xs \<longleftrightarrow> sorted (map (\<lambda>x. unat (key x - b)) xs)"

lemma mset_sort_by: "mset (sort_by key xs) = mset xs"
proof -
  have "mset (insert_by key x ys) = add_mset x (mset ys)" for x ys by (induction ys) simp_all
  then show ?thesis unfolding sort_by_def by (induction xs) simp_all
qed

lemma set_sort_by [simp]: "set (sort_by key xs) = set xs"
  using mset_sort_by by (rule mset_eq_setD)

lemma length_sort_by [simp]: "length (sort_by key xs) = length xs"
  using mset_sort_by by (rule mset_eq_length)

lemma insert_by_ordered:
  assumes "ordered b key ys" "in_window b key (x # ys)"
  shows "ordered b key (insert_by key x ys) \<and> set (insert_by key x ys) = insert x (set ys)"
  using assms by (induction ys) (auto simp: ordered_def in_window_def LessThan_window)

lemma sort_by_ordered: "in_window b key xs \<Longrightarrow> ordered b key (sort_by key xs)"
proof (induction xs)
  case (Cons x xs)
  have "in_window b key (x # sort_by key xs)" "in_window b key xs" using Cons.prems by (simp_all add: in_window_def)
  then show ?case using insert_by_ordered Cons.IH by (fastforce simp: sort_by_def)
qed (simp add: sort_by_def ordered_def)

text \<open>The position found for a number that occurs is that of its first occurrence.\<close>

lemma lower_bound_found:
  assumes "ordered b key xs" "in_window b key xs" "x \<in> set xs" "key x = v"
  shows "lower_bound key xs v < length xs \<and> key (xs ! lower_bound key xs v) = v"
proof -
  define ys where "ys = dropWhile (\<lambda>x. LessThan (key x) v) xs"
  have split: "xs = takeWhile (\<lambda>x. LessThan (key x) v) xs @ ys" by (simp add: ys_def)
  have self: "\<not> LessThan (key x) v" using assms(4) by simp
  have mem: "x \<in> set ys" using assms(3) self split set_takeWhileD [of x "\<lambda>x. LessThan (key x) v" xs] by (metis Un_iff set_append)
  then obtain y zs where y: "ys = y # zs" by (cases ys) auto
  have hd: "\<not> LessThan (key y) v" using y unfolding ys_def dropWhile_eq_Cons_conv by blast
  have "ordered b key (y # zs)" using assms(1) split y by (metis ordered_def map_append sorted_append)
  then have le: "unat (key y - b) \<le> unat (v - b)" using mem assms(4) y by (auto simp: ordered_def)
  have win: "unat (key y - b) < 1000" "unat (v - b) < 1000"
    using assms split y by (metis in_window_def list.set_intros(1) Un_iff set_append, metis in_window_def)
  then have "unat (key y - b) = unat (v - b)" using hd le LessThan_window [OF win] by simp
  then have "key y - b = v - b" by (rule word_unat_eq_iff [THEN iffD2])
  then have key: "key y = v" by simp
  have pos: "lower_bound key xs v = length (takeWhile (\<lambda>x. LessThan (key x) v) xs)" by (simp add: lower_bound_def)
  have "xs = takeWhile (\<lambda>x. LessThan (key x) v) xs @ y # zs" using split y by simp
  then show ?thesis unfolding pos by (metis key nth_append_length length_append length_Cons less_add_Suc1 add_Suc_right)
qed

end
