(* ===== verification/XorHeld.thy ===== *)
theory XorHeld
  imports XorEncode XorSorted
begin

text \<open>
  One FEC packet in the decoder: after its header was read and while media packets come in, its list of
  protected packets has exactly those media packets that the mask selected, each linked as soon as
  it is among the recovered ones.
\<close>

subsection \<open>The protected packets of an FEC packet\<close>

text \<open>The entry for media packet \<open>q\<close> when the packets in \<open>S\<close> are there.\<close>

definition slot :: "u32 \<Rightarrow> Packet set \<Rightarrow> Packet \<Rightarrow> ProtectedPacket" where
  "slot ms S q = \<lparr>pp_ssrc = ms, pp_seq_num = seq_of q, pp_pkt = if q \<in> S then Some q else None\<rparr>"

definition held :: "u32 \<Rightarrow> nat \<Rightarrow> Packet list \<Rightarrow> Packet set \<Rightarrow> ReceivedFecPacket \<Rightarrow> bool" where
  "held ms hs qs S f \<longleftrightarrow> carries hs qs f \<and> protected_ssrc f = ms \<and> protected_packets f = map (slot ms S) qs"

lemma slot_seq [simp]: "pp_seq_num (slot ms S q) = seq_of q"
  and slot_pkt [simp]: "pp_pkt (slot ms S q) = (if q \<in> S then Some q else None)"
  by (simp_all add: slot_def)

subsection \<open>Blocks of media packets\<close>

lemma in_order_map: "in_order b ps \<longleftrightarrow> sorted_wrt (<) (map (column_of b) ps)"
  by (simp add: in_order_def sorted_wrt_map)

lemma block_column: "media_block ps \<Longrightarrow> p \<in> set ps \<Longrightarrow> column_of (base_of ps) p < 48"
  using in_order_last(2) [of ps p] by (auto simp: media_block_def)

lemma block_inj: "media_block ps \<Longrightarrow> inj_on seq_of (set ps)" "media_block ps \<Longrightarrow> distinct ps"
proof -
  assume ps: "media_block ps"
  then have "sorted_wrt (<) (map (column_of (base_of ps)) ps)" by (simp add: media_block_def in_order_map)
  then have "distinct (map (column_of (base_of ps)) ps)" by (simp add: strict_sorted_iff)
  then show "distinct ps" "inj_on seq_of (set ps)" by (auto simp: distinct_map inj_on_def column_of_def)
qed

lemma column_number: "base + of_nat (column_of base p) = seq_of p"
  by (simp add: column_of_def)

subsection \<open>Parsing the mask\<close>

lemma concat_if: "concat (map (\<lambda>x. if P x then [f x] else []) xs) = map f (filter P xs)"
  by (induction xs) simp_all

lemma upt_bytes: "[0..<8 * n] = concat (map (\<lambda>i. map (\<lambda>k. i * 8 + k) [0..<8]) [0..<n])"
proof (induction n)
  case (Suc n)
  have "[0..<8 * Suc n] = [0..<8 * n] @ map (\<lambda>k. n * 8 + k) [0..<8]"
    using upt_add_eq_append [of 0 "8 * n" 8] map_add_upt [of "n * 8" 8] by (simp add: add.commute mult.commute)
  then show ?case using Suc by simp
qed simp

lemma parse_mask_columns:
  "parse_mask ms f = map (\<lambda>c. \<lparr>pp_ssrc = ms, pp_seq_num = seq_num_base f + of_nat c, pp_pkt = None\<rparr>)
     (filter (mask_bit (packet_mask_size f) (drop (packet_mask_offset f) (pkt_data (fec_pkt f))) 0) [0..<8 * packet_mask_size f])"
  if "packet_mask_offset f \<le> length (pkt_data (fec_pkt f))"
proof -
  let ?P = "mask_bit (packet_mask_size f) (drop (packet_mask_offset f) (pkt_data (fec_pkt f))) 0"
  let ?e = "\<lambda>c. \<lparr>pp_ssrc = ms, pp_seq_num = seq_num_base f + of_nat c, pp_pkt = None\<rparr>"
  have bit: "?P (i * 8 + k) \<longleftrightarrow> bit (pkt_data (fec_pkt f) ! (packet_mask_offset f + i)) (7 - k)" if "k < 8" for i k
    using that \<open>packet_mask_offset f \<le> _\<close> position_eq [OF that, of i] by (simp add: mask_bit_def mult.commute)
  have "parse_mask ms f = concat (map (\<lambda>i. concat (map (\<lambda>k. if ?P (i * 8 + k) then [?e (i * 8 + k)] else []) [0..<8])) [0..<packet_mask_size f])"
    unfolding parse_mask_def Let_def and_bit_push
    by (intro arg_cong [where f = concat] map_cong refl) (simp add: bit push_bit_eq_mult)
  also have "\<dots> = map ?e (filter ?P (concat (map (\<lambda>i. map (\<lambda>k. i * 8 + k) [0..<8]) [0..<packet_mask_size f])))"
    unfolding filter_concat map_concat by (simp add: concat_if o_def filter_map)
  finally show ?thesis unfolding upt_bytes .
qed

text \<open>The columns in the mask are those of the packets it covers.\<close>

lemma covered_columns:
  assumes "media_block ps" "\<forall>c<8 * w. mask_bit w m 0 c \<longrightarrow> c \<in> column_of (base_of ps) ` set ps"
    and "\<And>c. c < 8 * w' \<and> mask_bit w' m' 0 c \<longleftrightarrow> c < 8 * w \<and> mask_bit w m 0 c" "column_of (base_of ps) (last ps) < 8 * w"
  shows "filter (mask_bit w' m' 0) [0..<8 * w'] = map (column_of (base_of ps)) (covered ps w m)"
proof (rule sorted_distinct_set_unique)
  let ?c = "column_of (base_of ps)"
  have "sorted_wrt (<) (map ?c ps)" using assms(1) by (simp add: media_block_def in_order_map)
  then have *: "sorted_wrt (<) (map ?c (covered ps w m))"
    unfolding covered_def sorted_wrt_map by (rule sorted_wrt_filter)
  then show "sorted (map ?c (covered ps w m))" "distinct (map ?c (covered ps w m))" by (simp_all add: strict_sorted_iff)
  have "c < 8 * w \<and> mask_bit w m 0 c \<longleftrightarrow> c \<in> ?c ` set (covered ps w m)" for c
  proof -
    have "?c p < 8 * w" if "p \<in> set ps" for p using in_order_last(2) [OF _ _ that] assms(1,4) by (auto simp: media_block_def intro: le_less_trans)
    then show ?thesis using assms(2) by (fastforce simp: covered_def)
  qed
  then show "set (filter (mask_bit w' m' 0) [0..<8 * w']) = set (map ?c (covered ps w m))" using assms(3) by auto
qed (auto intro: sorted_wrt_filter)

subsection \<open>Linking recovered packets\<close>

text \<open>The recovered list: media packets of the block, in order, each once.\<close>

definition got :: "RecoveredPacket list \<Rightarrow> Packet set" where
  "got rs = rec_pkt ` set rs"

definition recs_ok :: "Packet list \<Rightarrow> RecoveredPacket list \<Rightarrow> bool" where
  "recs_ok ps rs \<longleftrightarrow> sorted_wrt (<) (map (column_of (base_of ps) \<circ> rec_pkt) rs) \<and>
     (\<forall>r\<in>set rs. rec_pkt r \<in> set ps \<and> rec_seq_num r = seq_of (rec_pkt r))"

lemma LessThan_block:
  assumes "media_block ps" "p \<in> set ps" "q \<in> set ps"
  shows "LessThan (seq_of p) (seq_of q) \<longleftrightarrow> column_of (base_of ps) p < column_of (base_of ps) q"
  using LessThan_window [of "seq_of p" "base_of ps" "seq_of q"] block_column [OF assms(1,2)] block_column [OF assms(1,3)]
  by (simp add: column_of_def)

lemma column_eq: "column_of b p = column_of b q \<longleftrightarrow> seq_of p = seq_of q"
  by (simp add: column_of_def word_unat_eq_iff [symmetric])

lemma slot_insert_other: "x \<notin> set qs \<Longrightarrow> map (slot ms (insert x S)) qs = map (slot ms S) qs"
  by (auto simp: slot_def)

lemma assign_slots:
  assumes "media_block ps" "recs_ok ps rs" "sorted_wrt (<) (map (column_of (base_of ps)) qs)" "set qs \<subseteq> set ps"
  shows "assign_recovered (map (slot ms {}) qs) rs = map (slot ms (got rs)) qs"
  using assms(2-4)
proof (induction "length qs + length rs" arbitrary: qs rs rule: less_induct)
  case less
  let ?c = "column_of (base_of ps)"
  show ?case
  proof (cases qs)
    case q: (Cons q qs')
    show ?thesis
    proof (cases rs)
      case Nil
      then show ?thesis using q by (simp add: got_def slot_def)
    next
      case r: (Cons r rs')
      have p: "q \<in> set ps" "rec_pkt r \<in> set ps" "rec_seq_num r = seq_of (rec_pkt r)" using less.prems q r by (simp_all add: recs_ok_def)
      have got: "got rs = insert (rec_pkt r) (got rs')" by (simp add: got_def r)
      have okr: "recs_ok ps rs'" using less.prems(1) r by (simp add: recs_ok_def)
      note IH = less.hyps [OF _ _ _ _]
      note lt = LessThan_block [OF assms(1)]
      consider (below) "?c q < ?c (rec_pkt r)" | (above) "?c (rec_pkt r) < ?c q" | (same) "?c q = ?c (rec_pkt r)" by linarith
      then show ?thesis
      proof cases
        case below
        have "q \<notin> got rs"
        proof
          assume "q \<in> got rs"
          then obtain x where "x \<in> set rs" "q = rec_pkt x" by (auto simp: got_def)
          then show False using below less.prems(1) r by (auto simp: recs_ok_def)
        qed
        moreover have "assign_recovered (map (slot ms {}) qs') rs = map (slot ms (got rs)) qs'"
          using less.prems q by (intro less.hyps) auto
        ultimately show ?thesis using below lt [OF p(1,2)] p(3) q r by (simp add: slot_def)
      next
        case above
        have "rec_pkt r \<notin> set qs" using above less.prems(2) q by auto
        then have "map (slot ms (got rs)) qs = map (slot ms (got rs')) qs" unfolding got by (rule slot_insert_other)
        moreover have "assign_recovered (map (slot ms {}) qs) rs' = map (slot ms (got rs')) qs"
          using less.prems r okr by (intro less.hyps) auto
        ultimately show ?thesis using above lt [OF p(1,2)] lt [OF p(2,1)] p(3) q r by simp
      next
        case same
        then have eq: "rec_pkt r = q" using block_inj(1) [OF assms(1)] p(1,2) by (auto simp: column_eq inj_on_def)
        have "q \<notin> set qs'" using less.prems(2) q by auto
        then have "map (slot ms (got rs)) qs' = map (slot ms (got rs')) qs'" unfolding got eq by (rule slot_insert_other)
        moreover have "assign_recovered (map (slot ms {}) qs') rs' = map (slot ms (got rs')) qs'"
          using less.prems q r okr by (intro less.hyps) auto
        ultimately show ?thesis using p(3) q r eq got by (simp add: slot_def)
      qed
    qed
  qed simp
qed

text \<open>A packet that comes in later is linked by \<open>UpdateCoveringFecPackets\<close>.\<close>

lemma update_held:
  assumes "media_block ps" "held ms hs qs S f" "sorted_wrt (<) (map (column_of (base_of ps)) qs)" "set qs \<subseteq> set ps"
    and "rec_pkt r \<in> set ps" "rec_seq_num r = seq_of (rec_pkt r)"
  shows "held ms hs qs (insert (rec_pkt r) S) (update_covering r f)"
    and "fec_seq_num (update_covering r f) = fec_seq_num f" "fec_ssrc (update_covering r f) = fec_ssrc f"
proof -
  let ?c = "column_of (base_of ps)" and ?x = "rec_pkt r" and ?ps = "map (slot ms S) qs"
  let ?i = "lower_bound pp_seq_num ?ps (rec_seq_num r)"
  have pps: "protected_packets f = ?ps" using assms(2) by (simp add: held_def)
  have ord: "ordered (base_of ps) pp_seq_num ?ps" using assms(3)
    by (simp add: ordered_def o_def column_of_def [abs_def] strict_sorted_iff)
  have win: "in_window (base_of ps) pp_seq_num ?ps"
    using block_column [OF assms(1)] assms(4) by (fastforce simp: in_window_def column_of_def)
  show "held ms hs qs (insert ?x S) (update_covering r f)"
  proof (cases "?x \<in> set qs")
    case True
    then have i: "?i < length ?ps \<and> pp_seq_num (?ps ! ?i) = rec_seq_num r"
      using assms(6) by (intro lower_bound_found [OF ord win, of "slot ms S ?x"]) simp_all
    then have len: "?i < length qs" by simp
    then have "seq_of (qs ! ?i) = seq_of ?x" using i assms(6) by simp
    then have x: "qs ! ?i = ?x"
      using block_inj(1) [OF assms(1)] assms(4,5) nth_mem [OF len] by (auto simp: inj_on_def)
    have d: "distinct qs" using assms(3) by (auto simp: strict_sorted_iff distinct_map)
    have "?ps[?i := (?ps ! ?i)\<lparr>pp_pkt := Some ?x\<rparr>] = map (slot ms (insert ?x S)) qs"
    proof (rule nth_equalityI)
      fix j assume "j < length (?ps[?i := (?ps ! ?i)\<lparr>pp_pkt := Some ?x\<rparr>])"
      then have j: "j < length qs" by simp
      show "?ps[?i := (?ps ! ?i)\<lparr>pp_pkt := Some ?x\<rparr>] ! j = map (slot ms (insert ?x S)) qs ! j"
      proof (cases "j = ?i")
        case True
        then show ?thesis using j x by (simp add: slot_def)
      next
        case False
        then have "qs ! j \<noteq> ?x" using nth_eq_iff_index_eq [OF d j len] x by simp
        then show ?thesis using j False by (simp add: slot_def)
      qed
    qed simp
    moreover have "update_covering r f = f\<lparr>protected_packets := ?ps[?i := (?ps ! ?i)\<lparr>pp_pkt := Some ?x\<rparr>]\<rparr>"
      unfolding update_covering_def Let_def pps by (rule if_P [OF i])
    ultimately show ?thesis using assms(2) by (simp add: held_def carries_def)
  next
    case False
    have "\<not> (?i < length ?ps \<and> pp_seq_num (?ps ! ?i) = rec_seq_num r)"
    proof
      assume a: "?i < length ?ps \<and> pp_seq_num (?ps ! ?i) = rec_seq_num r"
      then have "?i < length qs" by simp
      then have "seq_of (qs ! ?i) = seq_of ?x" "qs ! ?i \<in> set qs" using a assms(6) by simp_all
      then have "qs ! ?i = ?x" using block_inj(1) [OF assms(1)] assms(4,5) by (auto simp: inj_on_def)
      then show False using False \<open>qs ! ?i \<in> set qs\<close> by simp
    qed
    then have "update_covering r f = f" unfolding update_covering_def Let_def pps by (rule if_not_P)
    then show ?thesis using assms(2) slot_insert_other [OF False] by (simp add: held_def)
  qed
  show "fec_seq_num (update_covering r f) = fec_seq_num f" "fec_ssrc (update_covering r f) = fec_ssrc f"
    by (simp_all add: update_covering_def Let_def)
qed

subsection \<open>What is missing\<close>

lemma count_missing_eq: "n \<le> 1 \<Longrightarrow> count_missing ps n = min 2 (n + length (filter (\<lambda>p. pp_pkt p = None) ps))"
proof (induction ps arbitrary: n)
  case (Cons p ps)
  show ?case
  proof (cases "pp_pkt p = None")
    case True
    show ?thesis
    proof (cases "n = 0")
      case True
      then show ?thesis using Cons.IH [of 1] \<open>pp_pkt p = None\<close> by simp
    next
      case False
      then show ?thesis using Cons.prems \<open>pp_pkt p = None\<close> by simp
    qed
  next
    case False
    then obtain y where "pp_pkt p = Some y" by blast
    then show ?thesis using Cons.IH [OF Cons.prems] by simp
  qed
qed simp

lemma missing_held:
  assumes "held ms hs qs S f"
  shows "NumCoveredPacketsMissing f = min 2 (length (filter (\<lambda>q. q \<notin> S) qs))"
proof -
  have "length (filter (\<lambda>p. pp_pkt p = None) (map (slot ms S) qs)) = length (filter (\<lambda>q. q \<notin> S) qs)"
    by (simp add: filter_map o_def)
  then show ?thesis using assms by (simp add: NumCoveredPacketsMissing_def count_missing_eq held_def)
qed

lemma missing_none: "held ms hs qs S f \<Longrightarrow> NumCoveredPacketsMissing f = 0 \<longleftrightarrow> set qs \<subseteq> S"
proof -
  assume h: "held ms hs qs S f"
  have "set qs \<subseteq> S \<longleftrightarrow> filter (\<lambda>q. q \<notin> S) qs = []" by (auto simp: filter_empty_conv)
  then show ?thesis by (auto simp: missing_held [OF h] min_def)
qed

lemma missing_many: "held ms hs qs S f \<Longrightarrow> distinct qs \<Longrightarrow> NumCoveredPacketsMissing f = 1 \<longleftrightarrow> card (set qs - S) = 1"
proof -
  assume h: "held ms hs qs S f" "distinct qs"
  have "set qs - S = set (filter (\<lambda>q. q \<notin> S) qs)" by auto
  then have "card (set qs - S) = length (filter (\<lambda>q. q \<notin> S) qs)" using h(2) by (simp only: distinct_card distinct_filter)
  then show ?thesis using missing_held [OF h(1)] by auto
qed

text \<open>With one packet missing, that packet is recovered.\<close>

lemma recover_held:
  assumes "held ms hs qs S f" "NumCoveredPacketsMissing f = 1" "14 \<le> hs" "hs \<le> 32" "\<forall>q\<in>set qs. media_ok q \<and> ssrc_of q = ms"
  obtains x where "x \<in> set qs" "x \<notin> S" "set qs \<subseteq> insert x S"
    "RecoverPacket f = Some \<lparr>rec_ssrc = ms, rec_seq_num = seq_of x, was_recovered = True, returned = False, rec_pkt = x\<rparr>"
proof -
  have "length (filter (\<lambda>q. q \<notin> S) qs) = 1" using missing_held [OF assms(1)] assms(2) by simp
  then obtain x where "filter (\<lambda>q. q \<notin> S) qs = [x]" by (auto simp: length_Suc_conv)
  then obtain as bs where qs: "qs = as @ x # bs" "\<forall>q\<in>set as. q \<in> S" "x \<notin> S" "filter (\<lambda>q. q \<notin> S) bs = []"
    unfolding filter_eq_Cons_iff by auto
  have there: "\<forall>q\<in>set bs. q \<in> S" using qs(4) by (simp add: filter_empty_conv)
  have pps: "protected_packets f = map (slot ms S) qs" "carries hs qs f" "protected_ssrc f = ms" using assms(1) by (simp_all add: held_def)
  have "map pp_pkt (protected_packets f) = map Some as @ None # map Some bs" using qs there by (simp add: pps)
  moreover have "pp_seq_num (protected_packets f ! length as) = seq_of x" by (simp add: pps(1) qs(1) nth_append)
  ultimately have "RecoverPacket f = Some \<lparr>rec_ssrc = ms, rec_seq_num = seq_of x, was_recovered = True, returned = False, rec_pkt = x\<rparr>"
    using RecoverPacket_exact [of hs as x bs f] pps(2,3) assms(3-5) qs(1) by simp
  then show ?thesis using that [of x] qs there by auto
qed

subsection \<open>Reading an FEC packet\<close>

context fec_format
begin

lemma read_held:
  assumes ps: "media_block ps" and p: "fec_of W ps w m p" and f: "fec_pkt f = p" "ssrc_ok (fec_ssrc f) (ssrc_of (hd ps))"
  obtains f' where "ReadFecHeader R f = Some f'" "fec_seq_num f' = fec_seq_num f" "protected_ssrc f' = ssrc_of (hd ps)"
    "held (ssrc_of (hd ps)) (FecHeaderSize W (MinPacketMaskSize W m w)) (covered ps w m) {} (f'\<lparr>protected_packets := parse_mask (ssrc_of (hd ps)) f'\<rparr>)"
proof -
  let ?hs = "FecHeaderSize W (MinPacketMaskSize W m w)" and ?ms = "ssrc_of (hd ps)" and ?qs = "covered ps w m"
  define body where "body = fold (protect_packet ?hs) ?qs new_Packet"
  have w: "w \<in> {2, 6}" "w \<le> length m" "column_of (base_of ps) (last ps) < 8 * w" "?qs \<noteq> []"
    "\<forall>c<8 * w. mask_bit w m 0 c \<longrightarrow> c \<in> column_of (base_of ps) ` set ps"
    "p = FinalizeFecHeader W ?ms (base_of ps) m w body" using p by (simp_all add: fec_of_def body_def)
  have hs: "14 \<le> ?hs" "?hs \<le> 32" using header_bounds [OF w(1)] by simp_all
  have ok: "\<forall>q\<in>set ?qs. media_ok q" using ps by (auto simp: covered_def media_block_def)
  have st: "fec_started ?hs new_Packet" by (simp add: fec_started_def new_Packet_def)
  have "8 \<le> ?hs" using hs by simp
  note pf = protect_fold [OF st ok this hs(2), folded body_def]
  have max: "payload_max ?qs \<le> 1468" by (rule payload_max_le) (use ok in \<open>auto simp: media_ok_def\<close>)
  have body: "length (pkt_data body) = 1500" "?hs \<le> pkt_length body" "pkt_length body \<le> 1500"
    using pf(1,3) w(4) hs max by (simp_all add: fec_started_def new_Packet_def)
  obtain f' where f': "ReadFecHeader R f = Some f'" "header_read ?hs ?ms (base_of ps) m w body f f'"
    using read_back [OF w(1,2) refl body _ f(2), of "base_of ps"] f(1) w(6) by blast
  have car: "carries ?hs ?qs f'" using f'(2) body_def w(4) ok hs by (rule header_read_carries)
  note hr = f'(2) [unfolded header_read_def]
  show ?thesis
  proof (rule that [OF f'(1)])
    have cols: "filter (mask_bit (packet_mask_size f') (drop (packet_mask_offset f') (pkt_data (fec_pkt f'))) 0) [0..<8 * packet_mask_size f'] =
        map (column_of (base_of ps)) ?qs"
      using hr by (intro covered_columns [OF ps w(5) _ w(3)]) blast
    have "packet_mask_offset f' \<le> length (pkt_data (fec_pkt f'))" using hr by simp
    then have "parse_mask ?ms f' = map (slot ?ms {}) ?qs"
      using hr by (simp add: parse_mask_columns cols slot_def column_number)
    then show "held ?ms ?hs ?qs {} (f'\<lparr>protected_packets := parse_mask ?ms f'\<rparr>)"
      using car hr by (simp add: held_def carries_def)
  qed (use hr in simp_all)
qed

end

end
