(* ===== verification/XorPeel.thy ===== *)
theory XorPeel
  imports XorHeld
begin

text \<open>
  The decoder over a whole sequence of arrivals. Its state keeps an invariant: the recovered packets are
  media packets of the block, and every FEC packet that arrived is either still held, linked with
  exactly the packets that are there, or all packets it protects are there. At the end of \<open>DecodeFec\<close>
  no held FEC packet misses just one packet: the recovered packets are closed under recovery.
\<close>

subsection \<open>The invariant\<close>

text \<open>FEC packet number \<open>i\<close> protects the packets \<open>qs i\<close> behind a header of \<open>hs i\<close> bytes and has the
  sequence number \<open>num i\<close>.\<close>

definition held_as :: "u32 \<Rightarrow> (nat \<Rightarrow> nat) \<Rightarrow> (nat \<Rightarrow> Packet list) \<Rightarrow> (nat \<Rightarrow> u16) \<Rightarrow> Packet set \<Rightarrow> nat \<Rightarrow> ReceivedFecPacket \<Rightarrow> bool" where
  "held_as ms hs qs num S i f \<longleftrightarrow> held ms (hs i) (qs i) S f \<and> fec_seq_num f = num i"

definition peel_inv :: "Packet list \<Rightarrow> u32 \<Rightarrow> (nat \<Rightarrow> nat) \<Rightarrow> (nat \<Rightarrow> Packet list) \<Rightarrow> (nat \<Rightarrow> u16) \<Rightarrow> nat set \<Rightarrow>
    ReceivedFecPacket list \<Rightarrow> RecoveredPacket list \<Rightarrow> bool" where
  "peel_inv ps ms hs qs num A fs rs \<longleftrightarrow> recs_ok ps rs \<and> distinct (map fec_seq_num fs) \<and>
     (\<forall>f\<in>set fs. \<exists>i\<in>A. held_as ms hs qs num (got rs) i f) \<and>
     (\<forall>i\<in>A. (\<exists>f\<in>set fs. held_as ms hs qs num (got rs) i f) \<or> set (qs i) \<subseteq> got rs)"

text \<open>What is known of the FEC packets.\<close>

definition fec_rows :: "Packet list \<Rightarrow> u32 \<Rightarrow> (nat \<Rightarrow> nat) \<Rightarrow> (nat \<Rightarrow> Packet list) \<Rightarrow> nat set \<Rightarrow> bool" where
  "fec_rows ps ms hs qs A \<longleftrightarrow> media_block ps \<and> ms = ssrc_of (hd ps) \<and>
     (\<forall>i\<in>A. 14 \<le> hs i \<and> hs i \<le> 32 \<and> sorted_wrt (<) (map (column_of (base_of ps)) (qs i)) \<and> set (qs i) \<subseteq> set ps)"

lemma got_le:
  assumes "media_block ps" "recs_ok ps rs"
  shows "length rs \<le> length ps"
proof -
  have "distinct (map rec_pkt rs)" using assms(2)
    by (auto simp: recs_ok_def strict_sorted_iff distinct_map inj_on_def comp_def)
  then have "length rs = card (got rs)" by (metis distinct_card got_def length_map set_map)
  also have "\<dots> \<le> card (set ps)" using assms(2) by (intro card_mono) (auto simp: recs_ok_def got_def)
  also have "\<dots> \<le> length ps" by (rule card_length)
  finally show ?thesis .
qed

text \<open>A new packet in the sorted list.\<close>

lemma insert_recovered:
  assumes "media_block ps" "recs_ok ps rs" "rec_pkt r \<in> set ps" "rec_seq_num r = seq_of (rec_pkt r)" "rec_pkt r \<notin> got rs"
  shows "recs_ok ps (sort_by rec_seq_num (rs @ [r]))" "got (sort_by rec_seq_num (rs @ [r])) = insert (rec_pkt r) (got rs)"
proof -
  let ?c = "column_of (base_of ps)" and ?rs = "sort_by rec_seq_num (rs @ [r])"
  have rec: "\<forall>x\<in>set ?rs. rec_pkt x \<in> set ps \<and> rec_seq_num x = seq_of (rec_pkt x)" using assms(2-4) by (auto simp: recs_ok_def)
  have col: "unat (rec_seq_num x - base_of ps) = ?c (rec_pkt x)" if "x \<in> set ?rs" for x
    using bspec [OF rec that] by (simp add: column_of_def)
  have "in_window (base_of ps) rec_seq_num (rs @ [r])"
    using rec col block_column [OF assms(1)] by (fastforce simp: in_window_def)
  then have "sorted (map (\<lambda>x. unat (rec_seq_num x - base_of ps)) ?rs)" using sort_by_ordered by (simp add: ordered_def)
  moreover have "map (\<lambda>x. unat (rec_seq_num x - base_of ps)) ?rs = map (?c \<circ> rec_pkt) ?rs"
    using col by (intro map_cong) auto
  ultimately have "sorted (map (?c \<circ> rec_pkt) ?rs)" by (simp only:)
  moreover have "distinct (map (?c \<circ> rec_pkt) ?rs)"
  proof -
    have d: "distinct (map (?c \<circ> rec_pkt) rs)" using assms(2) by (simp add: recs_ok_def strict_sorted_iff)
    have "?c (rec_pkt r) \<noteq> ?c (rec_pkt x)" if "x \<in> set rs" for x
    proof
      assume "?c (rec_pkt r) = ?c (rec_pkt x)"
      then have "rec_pkt x = rec_pkt r"
        using block_inj(1) [OF assms(1)] assms(2,3) that by (auto simp: column_eq inj_on_def recs_ok_def)
      then show False using assms(5) imageI [OF that, of rec_pkt] by (simp add: got_def)
    qed
    then have "distinct (map (?c \<circ> rec_pkt) (rs @ [r]))" using d by auto
    moreover have "mset (map (?c \<circ> rec_pkt) ?rs) = mset (map (?c \<circ> rec_pkt) (rs @ [r]))" by (simp add: mset_sort_by)
    ultimately show ?thesis by (metis distinct_count_atmost_1 mset_eq_setD)
  qed
  ultimately show "recs_ok ps ?rs" using rec by (simp add: recs_ok_def strict_sorted_iff comp_def)
  show "got ?rs = insert (rec_pkt r) (got rs)" by (auto simp: got_def)
qed

lemma update_all:
  assumes "fec_rows ps ms hs qs A" "\<forall>f\<in>set fs. \<exists>i\<in>A. held_as ms hs qs num S i f" "rec_pkt r \<in> set ps" "rec_seq_num r = seq_of (rec_pkt r)"
  shows "f \<in> set fs \<Longrightarrow> i \<in> A \<Longrightarrow> held_as ms hs qs num S i f \<Longrightarrow> held_as ms hs qs num (insert (rec_pkt r) S) i (update_covering r f)"
  using update_held [of ps ms "hs i" "qs i" S f r] assms by (simp add: held_as_def fec_rows_def)

lemma erase_at_set: "i < length xs \<Longrightarrow> set xs = insert (xs ! i) (set (erase_at i xs))"
  unfolding erase_at_def by (subst id_take_nth_drop [of i xs]) auto

lemma erase_at_map: "erase_at i (map f xs) = map f (erase_at i xs)"
  by (simp add: erase_at_def take_map drop_map)

lemma erase_at_distinct: "distinct xs \<Longrightarrow> distinct (erase_at i xs)"
proof (cases "i < length xs")
  case True
  assume "distinct xs"
  then have "distinct (take i xs @ xs ! i # drop (Suc i) xs)" using id_take_nth_drop [OF True] by simp
  then show ?thesis by (simp add: erase_at_def)
qed (simp add: erase_at_def)

lemma update_seq [simp]: "fec_seq_num (update_covering r f) = fec_seq_num f"
  by (simp add: update_covering_def Let_def)

lemma update_all_seq [simp]: "map fec_seq_num (UpdateCoveringFecPackets r fs) = map fec_seq_num fs"
  by (simp add: UpdateCoveringFecPackets_def o_def)

text \<open>Dropping an FEC packet all of whose packets are there.\<close>

lemma peel_drop:
  assumes "peel_inv ps ms hs qs num A fs rs" "i < length fs" "NumCoveredPacketsMissing (fs ! i) = 0"
  shows "peel_inv ps ms hs qs num A (erase_at i fs) rs"
proof -
  have sub: "set (erase_at i fs) \<subseteq> set fs" and ins: "set fs = insert (fs ! i) (set (erase_at i fs))" using erase_at_set [OF assms(2)] by auto
  have "(\<exists>f\<in>set (erase_at i fs). held_as ms hs qs num (got rs) k f) \<or> set (qs k) \<subseteq> got rs" if k: "k \<in> A" for k
  proof -
    from assms(1) k consider (held) f where "f \<in> set fs" "held_as ms hs qs num (got rs) k f" | (all) "set (qs k) \<subseteq> got rs"
      by (auto simp: peel_inv_def)
    then show ?thesis
    proof cases
      case held
      show ?thesis
      proof (cases "f = fs ! i")
        case True
        then have "set (qs k) \<subseteq> got rs" using missing_none [of ms "hs k" "qs k" "got rs" f] held assms(3) by (simp add: held_as_def)
        then show ?thesis ..
      next
        case False
        then show ?thesis using held ins by auto
      qed
    qed simp
  qed
  moreover have "distinct (map fec_seq_num (erase_at i fs))"
    using assms(1) unfolding erase_at_map [symmetric] by (intro erase_at_distinct) (simp add: peel_inv_def)
  ultimately show ?thesis using assms(1) sub unfolding peel_inv_def by blast
qed

text \<open>Recovering a packet.\<close>

lemma peel_recover:
  assumes inv: "peel_inv ps ms hs qs num A fs rs" and rows: "fec_rows ps ms hs qs A" and i: "i < length fs" "NumCoveredPacketsMissing (fs ! i) = 1"
  obtains x where "RecoverPacket (fs ! i) = Some \<lparr>rec_ssrc = ms, rec_seq_num = seq_of x, was_recovered = True, returned = False, rec_pkt = x\<rparr>"
    "\<And>r. rec_pkt r = x \<Longrightarrow> rec_seq_num r = seq_of x \<Longrightarrow>
      peel_inv ps ms hs qs num A (erase_at i (UpdateCoveringFecPackets r fs)) (sort_by rec_seq_num (rs @ [r]))"
    "\<And>r. rec_pkt r = x \<Longrightarrow> rec_seq_num r = seq_of x \<Longrightarrow> got rs \<subseteq> got (sort_by rec_seq_num (rs @ [r]))"
proof -
  have ps: "media_block ps" "ms = ssrc_of (hd ps)" using rows by (simp_all add: fec_rows_def)
  have inv': "recs_ok ps rs" "\<forall>f\<in>set fs. \<exists>i\<in>A. held_as ms hs qs num (got rs) i f"
    "\<forall>i\<in>A. (\<exists>f\<in>set fs. held_as ms hs qs num (got rs) i f) \<or> set (qs i) \<subseteq> got rs" using inv by (simp_all add: peel_inv_def)
  obtain k where k: "k \<in> A" "held_as ms hs qs num (got rs) k (fs ! i)" using inv'(2) nth_mem [OF i(1)] by blast
  have row: "14 \<le> hs k" "hs k \<le> 32" "set (qs k) \<subseteq> set ps" using rows k(1) by (simp_all add: fec_rows_def)
  have h: "held ms (hs k) (qs k) (got rs) (fs ! i)" using k(2) by (simp add: held_as_def)
  have ok: "\<forall>q\<in>set (qs k). media_ok q \<and> ssrc_of q = ms"
    using row(3) ps(1) unfolding ps(2) media_block_def by blast
  obtain x where x: "x \<in> set (qs k)" "x \<notin> got rs" "set (qs k) \<subseteq> insert x (got rs)"
    "RecoverPacket (fs ! i) = Some \<lparr>rec_ssrc = ms, rec_seq_num = seq_of x, was_recovered = True, returned = False, rec_pkt = x\<rparr>"
    by (rule recover_held [OF h i(2) row(1,2) ok])
  show ?thesis
  proof (rule that [OF x(4)])
    fix r :: RecoveredPacket
    assume r: "rec_pkt r = x" "rec_seq_num r = seq_of x"
    have xr: "rec_pkt r \<in> set ps" "rec_seq_num r = seq_of (rec_pkt r)" "rec_pkt r \<notin> got rs" using r x(1,2) row(3) by auto
    note new = insert_recovered [OF ps(1) inv'(1) xr]
    then show "got rs \<subseteq> got (sort_by rec_seq_num (rs @ [r]))" by auto
    let ?fs = "UpdateCoveringFecPackets r fs" and ?S = "insert x (got rs)"
    have upd: "held_as ms hs qs num ?S j (update_covering r f)" if "f \<in> set fs" "j \<in> A" "held_as ms hs qs num (got rs) j f" for f j
      using update_all [OF rows inv'(2) xr(1,2) that] r(1) by simp
    have i': "i < length ?fs" using i(1) by simp
    have set: "set ?fs = insert (?fs ! i) (set (erase_at i ?fs))" "set ?fs = update_covering r ` set fs"
      using erase_at_set [OF i'] by (simp_all add: UpdateCoveringFecPackets_def)
    have all: "\<exists>j\<in>A. held_as ms hs qs num ?S j f" if f: "f \<in> set (erase_at i ?fs)" for f
    proof -
      have "f \<in> update_covering r ` set fs" using f set by blast
      then obtain g where g: "g \<in> set fs" "f = update_covering r g" by blast
      obtain j where "j \<in> A" "held_as ms hs qs num (got rs) j g" using inv'(2) g(1) by blast
      then show ?thesis using upd g by blast
    qed
    have arrived: "(\<exists>f\<in>set (erase_at i ?fs). held_as ms hs qs num ?S j f) \<or> set (qs j) \<subseteq> ?S" if j: "j \<in> A" for j
    proof -
      from inv'(3) j consider (held) f where "f \<in> set fs" "held_as ms hs qs num (got rs) j f" | (all) "set (qs j) \<subseteq> got rs" by blast
      then show ?thesis
      proof cases
        case held
        show ?thesis
        proof (cases "f = fs ! i")
          case True
          have "map seq_of (qs j) = map seq_of (qs k)"
            using held(2) k(2) True by (auto simp: held_as_def held_def dest: arg_cong [where f = "map pp_seq_num"] simp: o_def)
          moreover have "inj_on seq_of (set (qs j) \<union> set (qs k))"
            using block_inj(1) [OF ps(1)] rows j k(1) by (auto simp: fec_rows_def intro: inj_on_subset)
          ultimately have "qs j = qs k" by (rule map_inj_on)
          then show ?thesis using x(3) by simp
        next
          case False
          then have "f \<in> set (erase_at i fs)" using held(1) erase_at_set [OF i(1)] by auto
          moreover have "erase_at i ?fs = map (update_covering r) (erase_at i fs)"
            by (simp add: erase_at_def UpdateCoveringFecPackets_def take_map drop_map)
          ultimately show ?thesis using upd [OF held(1) j held(2)] by auto
        qed
      next
        case all
        then show ?thesis by auto
      qed
    qed
    have "distinct (map fec_seq_num (erase_at i ?fs))"
      using inv unfolding erase_at_map [symmetric] update_all_seq by (intro erase_at_distinct) (simp add: peel_inv_def)
    then show "peel_inv ps ms hs qs num A (erase_at i ?fs) (sort_by rec_seq_num (rs @ [r]))"
      using new all arrived unfolding peel_inv_def new(2) r(1) by blast
  qed
qed

subsection \<open>The loop of AttemptRecovery\<close>

lemma attempt_peels:
  assumes "peel_inv ps ms hs qs num A fs rs" "fec_rows ps ms hs qs A" "r_max_media_packets (fec_header_reader s) = 48"
    and "\<And>j. j < i \<Longrightarrow> j < length fs \<Longrightarrow> 1 < NumCoveredPacketsMissing (fs ! j)" "attempt_loop s i fs rs = (fs', rs')"
  shows "peel_inv ps ms hs qs num A fs' rs' \<and> got rs \<subseteq> got rs' \<and> (\<forall>f\<in>set fs'. 1 < NumCoveredPacketsMissing f)"
  using assms(1,3,4,5)
proof (induction s i fs rs rule: attempt_loop.induct)
  case (1 s i fs rs)
  let ?n = "NumCoveredPacketsMissing (fs ! i)"
  note inv = "1.prems"(1) and max = "1.prems"(2) and low = "1.prems"(3) and loop = "1.prems"(4)
  show ?case
  proof (cases "i < length fs")
    case False
    then have "fs' = fs" "rs' = rs" using loop by (simp_all add: attempt_loop.simps [of s i fs])
    then show ?thesis using inv low False by (auto simp: in_set_conv_nth)
  next
    case i: True
    consider (one) "?n = 1" | (none) "?n = 0" | (more) "1 < ?n" by linarith
    then show ?thesis
    proof cases
      case one
      obtain x where x: "RecoverPacket (fs ! i) = Some \<lparr>rec_ssrc = ms, rec_seq_num = seq_of x, was_recovered = True, returned = False, rec_pkt = x\<rparr>"
        "\<And>r. rec_pkt r = x \<Longrightarrow> rec_seq_num r = seq_of x \<Longrightarrow>
          peel_inv ps ms hs qs num A (erase_at i (UpdateCoveringFecPackets r fs)) (sort_by rec_seq_num (rs @ [r]))"
        "\<And>r. rec_pkt r = x \<Longrightarrow> rec_seq_num r = seq_of x \<Longrightarrow> got rs \<subseteq> got (sort_by rec_seq_num (rs @ [r]))"
        using peel_recover [OF inv assms(2) i one] by metis
      let ?r = "\<lparr>rec_ssrc = ms, rec_seq_num = seq_of x, was_recovered = True, returned = False, rec_pkt = x\<rparr>"
      let ?fs = "erase_at i (UpdateCoveringFecPackets ?r fs)" and ?rs = "sort_by rec_seq_num (rs @ [?r])"
      have new: "peel_inv ps ms hs qs num A ?fs ?rs" "got rs \<subseteq> got ?rs" using x(2,3) [of ?r] by simp_all
      then have "length ?rs \<le> 48"
        using got_le media_block_le assms(2) unfolding fec_rows_def peel_inv_def by (metis le_trans)
      then have keep: "DiscardOldRecoveredPackets s ?rs = ?rs" using max by (simp add: DiscardOldRecoveredPackets_def)
      have "attempt_loop s 0 ?fs ?rs = (fs', rs')"
        using loop i one x(1) keep by (simp add: attempt_loop.simps [of s i fs] Let_def)
      from "1.IH"(2) [OF i refl one x(1), unfolded keep, OF new(1) max _ this] new(2) show ?thesis by auto
    next
      case none
      have "attempt_loop s i (erase_at i fs) rs = (fs', rs')" using loop i none by (simp add: attempt_loop.simps [of s i fs])
      moreover have "1 < NumCoveredPacketsMissing (erase_at i fs ! j)" if "j < i" for j
        using low [OF that] that i by (simp add: erase_at_def nth_append)
      ultimately show ?thesis using none by (intro "1.IH"(3) [OF i refl _ none peel_drop [OF inv i none] max]) simp_all
    next
      case more
      have "attempt_loop s (i + 1) fs rs = (fs', rs')" using loop i more by (simp add: attempt_loop.simps [of s i fs])
      moreover have "1 < NumCoveredPacketsMissing (fs ! j)" if "j < i + 1" for j
        using low [of j] more that i by (cases "j = i") auto
      moreover have "?n \<noteq> 1" "?n \<noteq> 0" using more by linarith+
      ultimately show ?thesis by (intro "1.IH"(4) [OF i refl _ _ inv max]) simp_all
    qed
  qed
qed

subsection \<open>Arrivals\<close>

lemma peel_media:
  assumes inv: "peel_inv ps ms hs qs num A fs rs" and rows: "fec_rows ps ms hs qs A"
    and r: "rec_pkt (r :: RecoveredPacket) \<in> set ps" "rec_seq_num r = seq_of (rec_pkt r)" "rec_pkt r \<notin> got rs"
  shows "peel_inv ps ms hs qs num A (UpdateCoveringFecPackets r fs) (sort_by rec_seq_num (rs @ [r]))"
    "got (sort_by rec_seq_num (rs @ [r])) = insert (rec_pkt r) (got rs)"
proof -
  have ps: "media_block ps" using rows by (simp add: fec_rows_def)
  have inv': "recs_ok ps rs" "\<forall>f\<in>set fs. \<exists>i\<in>A. held_as ms hs qs num (got rs) i f"
    "\<forall>i\<in>A. (\<exists>f\<in>set fs. held_as ms hs qs num (got rs) i f) \<or> set (qs i) \<subseteq> got rs" "distinct (map fec_seq_num fs)"
    using inv by (simp_all add: peel_inv_def)
  note new = insert_recovered [OF ps inv'(1) r]
  note upd = update_all [OF rows inv'(2) r(1,2)]
  have set: "set (UpdateCoveringFecPackets r fs) = update_covering r ` set fs" by (simp add: UpdateCoveringFecPackets_def)
  have "\<exists>i\<in>A. held_as ms hs qs num (insert (rec_pkt r) (got rs)) i f" if "f \<in> set (UpdateCoveringFecPackets r fs)" for f
    using that inv'(2) upd unfolding set by blast
  moreover have "(\<exists>f\<in>set (UpdateCoveringFecPackets r fs). held_as ms hs qs num (insert (rec_pkt r) (got rs)) i f) \<or>
      set (qs i) \<subseteq> insert (rec_pkt r) (got rs)" if i: "i \<in> A" for i
    using inv'(3) i upd [OF _ i] unfolding set by blast
  ultimately show "peel_inv ps ms hs qs num A (UpdateCoveringFecPackets r fs) (sort_by rec_seq_num (rs @ [r]))"
    using new inv'(4) unfolding peel_inv_def new(2) update_all_seq by blast
  show "got (sort_by rec_seq_num (rs @ [r])) = insert (rec_pkt r) (got rs)" by (rule new(2))
qed

lemma peel_fec:
  assumes inv: "peel_inv ps ms hs qs num A fs rs" and f: "held_as ms hs qs num (got rs) i f" "fec_seq_num f \<notin> fec_seq_num ` set fs"
  shows "peel_inv ps ms hs qs num (insert i A) (sort_by fec_seq_num (fs @ [f])) rs"
proof -
  have "mset (map fec_seq_num (sort_by fec_seq_num (fs @ [f]))) = mset (map fec_seq_num (fs @ [f]))" by (simp add: mset_sort_by)
  moreover have "distinct (map fec_seq_num (fs @ [f]))" using inv f(2) by (auto simp: peel_inv_def)
  ultimately have "distinct (map fec_seq_num (sort_by fec_seq_num (fs @ [f])))" by (metis mset_eq_imp_distinct_iff)
  then show ?thesis using inv f(1) unfolding peel_inv_def by auto
qed

text \<open>A held FEC packet with the number of \<open>i\<close> is the one of \<open>i\<close>.\<close>

lemma peel_duplicate:
  assumes "peel_inv ps ms hs qs num A fs rs" "num i \<in> fec_seq_num ` set fs" "inj_on num (insert i A)"
  shows "i \<in> A"
proof -
  obtain f where f: "f \<in> set fs" "fec_seq_num f = num i" using assms(2) by auto
  then obtain k where k: "k \<in> A" "held_as ms hs qs num (got rs) k f" using assms(1) by (auto simp: peel_inv_def)
  then have "num k = num i" using f(2) by (simp add: held_as_def)
  then show ?thesis using assms(3) k(1) by (auto simp: inj_on_def)
qed

lemma peel_length:
  assumes "peel_inv ps ms hs qs num A fs rs" "finite A"
  shows "length fs \<le> card A"
proof -
  have "length fs = card (fec_seq_num ` set fs)" using assms(1) by (metis distinct_card length_map list.set_map peel_inv_def)
  also have "\<dots> \<le> card (num ` A)" using assms by (intro card_mono) (fastforce simp: peel_inv_def held_as_def)+
  also have "\<dots> \<le> card A" by (rule card_image_le [OF assms(2)])
  finally show ?thesis .
qed

end
