(* ===== verification/XorArrive.thy ===== *)
theory XorArrive
  imports XorPeel
begin

text \<open>
  \<open>DecodeFec\<close> for one arrival and for a sequence of them, for every header format: media packets of one
  block and the FEC packets made for it may come in any order, any number of times, or not at all.
\<close>

definition fec_block :: "FecHeaderWriter \<Rightarrow> Packet list \<Rightarrow> nat \<Rightarrow> (nat \<Rightarrow> u8 list) \<Rightarrow> (nat \<Rightarrow> Packet) \<Rightarrow> (nat \<Rightarrow> u16) \<Rightarrow> nat set \<Rightarrow> bool" where
  "fec_block W ps w m fecs num N \<longleftrightarrow> media_block ps \<and> finite N \<and> card N \<le> 48 \<and>
     (\<forall>i\<in>N. fec_of W ps w (m i) (fecs i)) \<and> inj_on num N \<and> (\<forall>i\<in>N. \<forall>j\<in>N. MinDiff 0 (num i) (num j) \<le> 0x3fff)"

definition media_arrival :: "Packet list \<Rightarrow> ReceivedPacket \<Rightarrow> bool" where
  "media_arrival ps a \<longleftrightarrow> \<not> is_fec a \<and> rcv_pkt a \<in> set ps \<and> rcv_seq_num a = seq_of (rcv_pkt a)"

definition fec_arrival :: "(nat \<Rightarrow> Packet) \<Rightarrow> (nat \<Rightarrow> u16) \<Rightarrow> nat set \<Rightarrow> nat \<Rightarrow> ReceivedPacket \<Rightarrow> bool" where
  "fec_arrival fecs num N i a \<longleftrightarrow> is_fec a \<and> i \<in> N \<and> rcv_pkt a = fecs i \<and> rcv_seq_num a = num i"

text \<open>The invariant for the state of the class.\<close>

definition peel_state :: "FecHeaderWriter \<Rightarrow> FecHeaderReader \<Rightarrow> Packet list \<Rightarrow> nat \<Rightarrow> (nat \<Rightarrow> u8 list) \<Rightarrow> (nat \<Rightarrow> u16) \<Rightarrow> nat set \<Rightarrow>
    ForwardErrorCorrection \<times> RecoveredPacket list \<Rightarrow> bool" where
  "peel_state W R ps w m num A st \<longleftrightarrow> (case st of (s, rs) \<Rightarrow>
     fec_header_reader s = R \<and> protected_media_ssrc s = ssrc_of (hd ps) \<and>
     peel_inv ps (ssrc_of (hd ps)) (\<lambda>i. FecHeaderSize W (MinPacketMaskSize W (m i) w)) (\<lambda>i. covered ps w (m i)) num A
       (received_fec_packets s) rs)"

lemma in_order_filter: "in_order b ps \<Longrightarrow> in_order b (filter P ps)"
  unfolding in_order_def by (rule sorted_wrt_filter)

lemma got_empty [simp]: "got [] = {}"
  by (simp add: got_def)

context fec_format
begin

lemma block_rows:
  assumes "fec_block W ps w m fecs num N" "A \<subseteq> N"
  shows "fec_rows ps (ssrc_of (hd ps)) (\<lambda>i. FecHeaderSize W (MinPacketMaskSize W (m i) w)) (\<lambda>i. covered ps w (m i)) A"
proof -
  have ps: "media_block ps" using assms(1) by (simp add: fec_block_def)
  then have "in_order (base_of ps) ps" by (simp add: media_block_def)
  then have "sorted_wrt (<) (map (column_of (base_of ps)) (covered ps w (m i)))" for i
    unfolding in_order_map [symmetric] covered_def by (rule in_order_filter)
  moreover have "14 \<le> FecHeaderSize W (MinPacketMaskSize W (m i) w) \<and> FecHeaderSize W (MinPacketMaskSize W (m i) w) \<le> 32" if "i \<in> A" for i
    using assms that by (intro header_bounds) (auto simp: fec_block_def fec_of_def)
  ultimately show ?thesis using ps by (simp add: fec_rows_def covered_def)
qed

text \<open>The last step of \<open>DecodeFec\<close>.\<close>

lemma recover_state:
  assumes "fec_block W ps w m fecs num N" "A \<subseteq> N" "peel_state W R ps w m num A (s, rs)" "AttemptRecovery (s, rs) = (s', rs')"
  shows "peel_state W R ps w m num A (s', rs') \<and> got rs \<subseteq> got rs' \<and> (\<forall>f\<in>set (received_fec_packets s'). 1 < NumCoveredPacketsMissing f)"
proof -
  obtain fs' where loop: "attempt_loop s 0 (received_fec_packets s) rs = (fs', rs')" and s': "s' = s\<lparr>received_fec_packets := fs'\<rparr>"
    using assms(4) by (auto simp: AttemptRecovery_def split: prod.splits)
  have st: "fec_header_reader s = R" using assms(3) by (simp add: peel_state_def)
  have "r_max_media_packets (fec_header_reader s) = 48" using st limits by simp
  from attempt_peels [OF _ block_rows [OF assms(1,2)] this _ loop, of num] assms(3) show ?thesis by (simp add: peel_state_def s')
qed

text \<open>No media packet of the block makes the decoder reset.\<close>

lemma no_reset:
  assumes ps: "media_block ps" and rs: "recs_ok ps rs" and a: "media_arrival ps a" and full: "length rs = 48"
  shows "\<not> unat (MinDiff 0 (rcv_seq_num a) (rec_seq_num (last rs))) > 48"
proof -
  have "last rs \<in> set rs" using full by (intro last_in_set) auto
  then have "rec_pkt (last rs) \<in> set ps" "rec_seq_num (last rs) = seq_of (rec_pkt (last rs))" using rs by (simp_all add: recs_ok_def)
  then have "unat (MinDiff 0 (rcv_seq_num a) (rec_seq_num (last rs))) < 48"
    using block_column [OF ps] a by (intro MinDiff_near [where b = "base_of ps"]) (auto simp: media_arrival_def column_of_def)
  then show ?thesis by simp
qed

lemma decode_media:
  assumes blk: "fec_block W ps w m fecs num N" and A: "A \<subseteq> N" and st: "peel_state W R ps w m num A (s, rs)"
    and a: "media_arrival ps a" and d: "DecodeFec a (s, rs) = (s', rs')"
  shows "peel_state W R ps w m num A (s', rs') \<and> insert (rcv_pkt a) (got rs) \<subseteq> got rs' \<and>
    (\<forall>f\<in>set (received_fec_packets s'). 1 < NumCoveredPacketsMissing f)"
proof -
  let ?ms = "ssrc_of (hd ps)" and ?hs = "\<lambda>i. FecHeaderSize W (MinPacketMaskSize W (m i) w)" and ?qs = "\<lambda>i. covered ps w (m i)"
  have ps: "media_block ps" using blk by (simp add: fec_block_def)
  have s: "fec_header_reader s = R" "peel_inv ps ?ms ?hs ?qs num A (received_fec_packets s) rs" using st by (simp_all add: peel_state_def)
  have rs: "recs_ok ps rs" using s(2) by (simp add: peel_inv_def)
  have max: "r_max_media_packets (fec_header_reader s) = 48" using s(1) limits by simp
  have media: "\<not> is_fec a" "rcv_pkt a \<in> set ps" "rcv_seq_num a = seq_of (rcv_pkt a)" using a by (simp_all add: media_arrival_def)
  obtain fs1 rs1 where ins: "InsertMediaPacket a (received_fec_packets s, rs) = (fs1, rs1)" by fastforce
  have one: "peel_inv ps ?ms ?hs ?qs num A fs1 rs1 \<and> got rs1 = insert (rcv_pkt a) (got rs)"
  proof (cases "list_ex (\<lambda>r. rec_seq_num r = rcv_seq_num a) rs")
    case True
    then obtain r where r: "r \<in> set rs" "rec_seq_num r = rcv_seq_num a" by (auto simp: list_ex_iff)
    then have "rec_pkt r = rcv_pkt a" using block_inj(1) [OF ps] rs media by (auto simp: recs_ok_def inj_on_def)
    then have "rcv_pkt a \<in> got rs" using imageI [OF r(1), of rec_pkt] by (simp add: got_def)
    moreover have "fs1 = received_fec_packets s" "rs1 = rs" using ins True by (simp_all add: InsertMediaPacket_def)
    ultimately show ?thesis using s(2) by auto
  next
    case False
    let ?r = "\<lparr>rec_ssrc = rcv_ssrc a, rec_seq_num = rcv_seq_num a, was_recovered = False, returned = True, rec_pkt = rcv_pkt a\<rparr>"
    have r: "rec_pkt ?r \<in> set ps" "rec_seq_num ?r = seq_of (rec_pkt ?r)" using media by simp_all
    have "rec_pkt ?r \<notin> got rs" using False media rs by (auto simp: got_def list_ex_iff recs_ok_def)
    note pm = peel_media [OF s(2) block_rows [OF blk A] r this]
    have "fs1 = UpdateCoveringFecPackets ?r (received_fec_packets s)" "rs1 = sort_by rec_seq_num (rs @ [?r])"
      using ins False by (simp_all add: InsertMediaPacket_def Let_def)
    then show ?thesis using pm by simp
  qed
  let ?s = "s\<lparr>received_fec_packets := fs1\<rparr>"
  have "length rs1 \<le> 48" using got_le [OF ps] one media_block_le [OF ps] by (force simp: peel_inv_def)
  then have keep: "DiscardOldRecoveredPackets ?s rs1 = rs1" using max by (simp add: DiscardOldRecoveredPackets_def)
  have "InsertPacket a (s, rs) = (?s, rs1)" using media(1) ins keep by (simp add: InsertPacket_def Let_def)
  then have "DecodeFec a (s, rs) = AttemptRecovery (?s, rs1)"
    using no_reset [OF ps rs a] max by (auto simp: DecodeFec_def Let_def)
  then have "AttemptRecovery (?s, rs1) = (s', rs')" using d by simp
  from recover_state [OF blk A _ this] one st show ?thesis by (auto simp: peel_state_def)
qed

lemma decode_fec:
  assumes blk: "fec_block W ps w m fecs num N" and A: "A \<subseteq> N" and st: "peel_state W R ps w m num A (s, rs)"
    and a: "fec_arrival fecs num N i a" "ssrc_ok (rcv_ssrc a) (ssrc_of (hd ps))" and d: "DecodeFec a (s, rs) = (s', rs')"
  shows "peel_state W R ps w m num (insert i A) (s', rs') \<and> got rs \<subseteq> got rs' \<and>
    (\<forall>f\<in>set (received_fec_packets s'). 1 < NumCoveredPacketsMissing f)"
proof -
  let ?ms = "ssrc_of (hd ps)" and ?hs = "\<lambda>i. FecHeaderSize W (MinPacketMaskSize W (m i) w)" and ?qs = "\<lambda>i. covered ps w (m i)"
  let ?fs = "received_fec_packets s"
  have ps: "media_block ps" using blk by (simp add: fec_block_def)
  have s: "fec_header_reader s = R" "protected_media_ssrc s = ?ms" "peel_inv ps ?ms ?hs ?qs num A ?fs rs" using st by (simp_all add: peel_state_def)
  have rs: "recs_ok ps rs" using s(3) by (simp add: peel_inv_def)
  have max: "r_max_media_packets (fec_header_reader s) = 48" "r_max_fec_packets (fec_header_reader s) = 48" using s(1) limits by simp_all
  have fec: "is_fec a" "i \<in> N" "rcv_pkt a = fecs i" "rcv_seq_num a = num i" using a(1) by (simp_all add: fec_arrival_def)
  have of_i: "fec_of W ps w (m i) (fecs i)" using blk fec(2) by (simp add: fec_block_def)
  have iA: "insert i A \<subseteq> N" using fec(2) A by simp
  have N: "finite N" "card N \<le> 48" "inj_on num N" using blk by (simp_all add: fec_block_def)
  have near: "\<not> MinDiff 0 (num i) (fec_seq_num f) > 0x3fff" if "f \<in> set ?fs" for f
  proof -
    have "\<forall>f\<in>set ?fs. \<exists>k\<in>A. held_as ?ms ?hs ?qs num (got rs) k f" using s(3) unfolding peel_inv_def by (elim conjE)
    from bspec [OF this that] obtain k where "k \<in> A" "held_as ?ms ?hs ?qs num (got rs) k f" by (elim bexE)
    then have "k \<in> A" "fec_seq_num f = num k" by (simp_all add: held_as_def)
    then show ?thesis using blk fec(2) A by (auto simp: fec_block_def not_less)
  qed
  have keep1: "dropWhile (\<lambda>f. MinDiff 0 (num i) (fec_seq_num f) > 0x3fff) ?fs = ?fs" using near by (cases ?fs) auto
  obtain s1 where s1: "InsertFecPacket rs a s = s1" by blast
  have one: "peel_state W R ps w m num (insert i A) (s1, rs)"
  proof (cases "list_ex (\<lambda>f. fec_seq_num f = rcv_seq_num a) ?fs")
    case True
    then have "num i \<in> fec_seq_num ` set ?fs" unfolding list_ex_iff fec(4) image_iff by metis
    then have "i \<in> A" using peel_duplicate [OF s(3)] inj_on_subset [OF N(3) iA] by blast
    then show ?thesis using s1 True st by (simp add: InsertFecPacket_def insert_absorb)
  next
    case False
    let ?f = "\<lparr>fec_ssrc = rcv_ssrc a, fec_seq_num = rcv_seq_num a, fec_pkt = rcv_pkt a,
       protected_packets = [], fec_header_size = 0, protected_ssrc = 0, seq_num_base = 0, packet_mask_offset = 0,
       packet_mask_size = 0, protection_length = 0\<rparr>"
    have "fec_pkt ?f = fecs i" "ssrc_ok (fec_ssrc ?f) ?ms" using fec(3) a(2) by simp_all
    then obtain f' where f': "ReadFecHeader R ?f = Some f'" "fec_seq_num f' = fec_seq_num ?f" "protected_ssrc f' = ?ms"
      "held ?ms (?hs i) (?qs i) {} (f'\<lparr>protected_packets := parse_mask ?ms f'\<rparr>)"
      by (rule read_held [OF ps of_i]) blast
    let ?g = "AssignRecoveredPackets rs (f'\<lparr>protected_packets := parse_mask ?ms f'\<rparr>)"
    have pm: "parse_mask ?ms f' = map (slot ?ms {}) (?qs i)" using f'(4) by (simp add: held_def)
    have some: "?qs i \<noteq> []" using of_i by (simp add: fec_of_def)
    have rows: "sorted_wrt (<) (map (column_of (base_of ps)) (?qs i))" "set (?qs i) \<subseteq> set ps"
      using block_rows [OF blk iA] by (simp_all add: fec_rows_def)
    have "held_as ?ms ?hs ?qs num (got rs) i ?g"
      using f'(2,4) assign_slots [OF ps rs rows] fec(4) by (simp add: held_as_def held_def carries_def AssignRecoveredPackets_def pm)
    moreover have "fec_seq_num ?g = num i" using f'(2) fec(4) by (simp add: AssignRecoveredPackets_def)
    moreover have "num i \<notin> fec_seq_num ` set ?fs" using False fec(4) by (auto simp: list_ex_iff)
    ultimately have inv: "peel_inv ps ?ms ?hs ?qs num (insert i A) (sort_by fec_seq_num (?fs @ [?g])) rs"
      using peel_fec [OF s(3)] by simp
    have "length (sort_by fec_seq_num (?fs @ [?g])) \<le> card (insert i A)"
      using finite_subset [OF iA N(1)] by (rule peel_length [OF inv])
    also have "\<dots> \<le> 48" using card_mono [OF N(1) iA] N(2) by simp
    finally have "s1 = s\<lparr>received_fec_packets := sort_by fec_seq_num (?fs @ [?g])\<rparr>"
      using s1 False f'(1,3) some max(2) s(1,2) pm by (simp add: InsertFecPacket_def Let_def)
    then show ?thesis using inv s(1,2) by (simp add: peel_state_def)
  qed
  have "length rs \<le> 48" using got_le [OF ps rs] media_block_le [OF ps] by simp
  moreover have "fec_header_reader s1 = R" using one by (simp add: peel_state_def)
  ultimately have keep: "DiscardOldRecoveredPackets s1 rs = rs" using limits by (simp add: DiscardOldRecoveredPackets_def)
  have "InsertPacket a (s, rs) = (s1, rs)" using fec(1,4) keep keep1 s1 by (simp add: InsertPacket_def Let_def)
  then have "DecodeFec a (s, rs) = AttemptRecovery (s1, rs)" using fec(1) by (simp add: DecodeFec_def Let_def)
  then have "AttemptRecovery (s1, rs) = (s', rs')" using d by simp
  from recover_state [OF blk iA one this] show ?thesis .
qed

text \<open>A sequence of arrivals, into a decoder that holds nothing yet.\<close>

lemma decode_sequence:
  assumes blk: "fec_block W ps w m fecs num N"
    and start: "fec_header_reader s = R" "protected_media_ssrc s = ssrc_of (hd ps)" "received_fec_packets s = []"
    and arr: "\<forall>a\<in>set as. media_arrival ps a \<or> (\<exists>i. fec_arrival fecs num N i a) \<and> ssrc_ok (rcv_ssrc a) (ssrc_of (hd ps))"
  shows "peel_state W R ps w m num {i. \<exists>a\<in>set as. fec_arrival fecs num N i a} (fold DecodeFec as (s, [])) \<and>
    (\<forall>a\<in>set as. \<not> is_fec a \<longrightarrow> rcv_pkt a \<in> got (snd (fold DecodeFec as (s, [])))) \<and>
    (\<forall>f\<in>set (received_fec_packets (fst (fold DecodeFec as (s, [])))). 1 < NumCoveredPacketsMissing f)"
  using arr
proof (induction as rule: rev_induct)
  case Nil
  show ?case using start by (simp add: peel_state_def peel_inv_def recs_ok_def)
next
  case (snoc a as)
  let ?A = "{i. \<exists>a\<in>set as. fec_arrival fecs num N i a}" and ?B = "{i. \<exists>b\<in>set (as @ [a]). fec_arrival fecs num N i b}"
  obtain s1 rs1 where st1: "fold DecodeFec as (s, []) = (s1, rs1)" by fastforce
  obtain s' rs' where st': "DecodeFec a (s1, rs1) = (s', rs')" by fastforce
  have all: "fold DecodeFec (as @ [a]) (s, []) = (s', rs')" using st1 st' by simp
  have IH: "peel_state W R ps w m num ?A (s1, rs1)" "\<forall>a\<in>set as. \<not> is_fec a \<longrightarrow> rcv_pkt a \<in> got rs1" using snoc by (simp_all add: st1)
  have A: "?A \<subseteq> N" by (auto simp: fec_arrival_def)
  from snoc.prems consider (media) "media_arrival ps a" | (fec) i where "fec_arrival fecs num N i a" "ssrc_ok (rcv_ssrc a) (ssrc_of (hd ps))" by auto
  then show ?case
  proof cases
    case media
    then have B: "?B = ?A" by (auto simp: media_arrival_def fec_arrival_def)
    show ?thesis unfolding B all fst_conv snd_conv using decode_media [OF blk A IH(1) media st'] IH(2) by auto
  next
    case fec
    have B: "?B = insert i ?A" using fec(1) blk by (auto simp: fec_arrival_def fec_block_def inj_on_def)
    have "is_fec a" using fec(1) by (simp add: fec_arrival_def)
    then show ?thesis unfolding B all fst_conv snd_conv using decode_fec [OF blk A IH(1) fec st'] IH(2) by auto
  qed
qed

text \<open>No FEC packet that arrived could still recover a packet.\<close>

lemma peel_closed:
  assumes blk: "fec_block W ps w m fecs num N" and st: "peel_state W R ps w m num A (s, rs)" "i \<in> A"
    and many: "\<forall>f\<in>set (received_fec_packets s). 1 < NumCoveredPacketsMissing f"
  shows "card (set (covered ps w (m i)) - got rs) \<noteq> 1"
proof -
  let ?ms = "ssrc_of (hd ps)" and ?hs = "\<lambda>i. FecHeaderSize W (MinPacketMaskSize W (m i) w)" and ?qs = "\<lambda>i. covered ps w (m i)"
  have "distinct ps" using blk block_inj(2) by (simp add: fec_block_def)
  then have d: "distinct (?qs i)" by (simp add: covered_def)
  have inv: "peel_inv ps ?ms ?hs ?qs num A (received_fec_packets s) rs" using st(1) by (simp add: peel_state_def)
  have "\<forall>i\<in>A. (\<exists>f\<in>set (received_fec_packets s). held_as ?ms ?hs ?qs num (got rs) i f) \<or> set (?qs i) \<subseteq> got rs"
    using inv unfolding peel_inv_def by (elim conjE)
  from bspec [OF this st(2)] show ?thesis
  proof
    assume "\<exists>f\<in>set (received_fec_packets s). held_as ?ms ?hs ?qs num (got rs) i f"
    then obtain f where f: "f \<in> set (received_fec_packets s)" "held ?ms (?hs i) (?qs i) (got rs) f" by (auto simp: held_as_def)
    have "1 < NumCoveredPacketsMissing f" using many f(1) by blast
    then show ?thesis using missing_many [OF f(2) d] by auto
  next
    assume "set (?qs i) \<subseteq> got rs"
    then have none: "set (?qs i) - got rs = {}" by blast
    show ?thesis unfolding none by simp
  qed
qed

end

end
