(* ===== verification/XorOutput.thy ===== *)
theory XorOutput
  imports XorEncode
begin

text \<open>
  What a finished FEC packet holds, stated on its bytes and without the routines that compute it: the exclusive
  or of the protected packets, in the fields of RFC 5109 and of the FlexFEC draft.
\<close>

subsection \<open>Writing a header leaves the payload alone\<close>

lemma flexfec_tail:
  assumes "w \<in> {2, 6}" "length (pkt_data p) = 1500" "18 + flexfec_MinPacketMaskSize m w \<le> j" "j < 1500"
  shows "pkt_data (flexfec_FinalizeFecHeader ms base m w p) ! j = pkt_data p ! j"
proof -
  let ?d = "flex_head ms base (pkt_data p)"
  have len: "length ?d = 1500" by (rule flex_head_nth(2)) (use assms in auto)
  have ge: "20 \<le> j" using assms(3) by (auto simp: flexfec_MinPacketMaskSize_def split: if_splits)
  then have head: "?d ! j = pkt_data p ! j" using flex_head_nth(1) [OF assms(2,4), of ms base] by simp
  have "flex_mask_written m w ?d ! j = ?d ! j"
  proof (cases "w = 6")
    case True
    then show ?thesis
      using write_mask6(8,9) [OF len, where m = m and j = j] assms(3,4) ge
      by (cases "bit (m ! 5) 1 \<or> bit (m ! 5) 0") (auto simp: flex_mask_written_def flexfec_MinPacketMaskSize_def and_03)
  next
    case False
    then show ?thesis
      using assms(1,3,4) ge len
      by (auto simp: flex_mask_written_def flexfec_MinPacketMaskSize_def write_flexfec_mask2_def Let_def WriteBigEndian2_def memset0_nth nth_list_update split: if_splits)
  qed
  then show ?thesis unfolding flexfec_data [OF assms(1,2)] head .
qed

subsection \<open>A packet that protects others\<close>

text \<open>\<open>f\<close> protects the packets \<open>cs\<close> behind a header of \<open>hs\<close> bytes: its recovery fields are the exclusive or of
  the low six bits of their first bytes, of their second bytes, of their time stamps and of the lengths of their
  payloads, and its payload is the exclusive or of their payloads, a shorter one continued by zeros.\<close>

definition protects :: "FecHeaderWriter \<Rightarrow> nat \<Rightarrow> Packet list \<Rightarrow> Packet \<Rightarrow> bool" where
  "protects W hs cs f \<longleftrightarrow>
     (let len_at = (if W = UlpfecHeaderWriter then 8 else 2)
      in pkt_length f = hs + Max ((\<lambda>p. pkt_length p - 12) ` set cs) \<and>
         take_bit 6 (pkt_data f ! 0) = take_bit 6 (xsum (\<lambda>p. pkt_data p ! 0) cs) \<and>
         pkt_data f ! 1 = xsum (\<lambda>p. pkt_data p ! 1) cs \<and>
         (\<forall>j. 4 \<le> j \<and> j < 8 \<longrightarrow> pkt_data f ! j = xsum (\<lambda>p. pkt_data p ! j) cs) \<and>
         pkt_data f ! len_at = xsum (\<lambda>p. of_nat ((pkt_length p - 12) div 256)) cs \<and>
         pkt_data f ! (len_at + 1) = xsum (\<lambda>p. of_nat (pkt_length p - 12)) cs \<and>
         (\<forall>j. j < pkt_length f - hs \<longrightarrow> pkt_data f ! (hs + j) = xsum (\<lambda>p. if 12 + j < pkt_length p then pkt_data p ! (12 + j) else 0) cs))"

lemma flex_front_kept:
  assumes "w \<in> {2, 6}" "length (pkt_data p) = 1500" "0 < j" "j < 8"
  shows "pkt_data (flexfec_FinalizeFecHeader ms base m w p) ! j = pkt_data p ! j"
    "pkt_data (flexfec_FinalizeFecHeader ms base m w p) ! 0 = (pkt_data p ! 0 AND 0x7f) AND 0xbf"
proof -
  let ?d = "flex_head ms base (pkt_data p)"
  have len: "length ?d = 1500" by (rule flex_head_nth(2) [where j = 0]) (use assms in auto)
  have low: "flex_mask_written m w ?d ! i = ?d ! i" if "i < 8" for i
  proof (cases "w = 6")
    case True
    then show ?thesis
      using write_mask6(8,9) [OF len, where m = m and j = i] that
      by (auto simp: flex_mask_written_def flexfec_MinPacketMaskSize_def)
  next
    case False
    then show ?thesis
      using assms(1) that len
      by (auto simp: flex_mask_written_def flexfec_MinPacketMaskSize_def write_flexfec_mask2_def Let_def WriteBigEndian2_def memset0_nth nth_list_update split: if_splits)
  qed
  show "pkt_data (flexfec_FinalizeFecHeader ms base m w p) ! j = pkt_data p ! j"
    "pkt_data (flexfec_FinalizeFecHeader ms base m w p) ! 0 = (pkt_data p ! 0 AND 0x7f) AND 0xbf"
    unfolding flexfec_data [OF assms(1,2)] using low [of j] low [of 0] assms(2-4) by (simp_all add: flex_head_nth(1) [OF assms(2)])
qed

lemma payload_max_Max: "cs \<noteq> [] \<Longrightarrow> payload_max cs = Max ((\<lambda>p. pkt_length p - 12) ` set cs)"
proof (induction cs)
  case (Cons p cs)
  then show ?case by (cases "cs = []") (simp_all add: payload_max_def)
qed simp

lemma length_bytes: "n < 2 ^ 16 \<Longrightarrow> (ucast (drop_bit 8 (of_nat n :: u16)) :: u8) = of_nat (n div 256)" "(ucast (of_nat n :: u16) :: u8) = of_nat n"
proof -
  show "(ucast (of_nat n :: u16) :: u8) = of_nat n" by (simp add: word_eq_iff_unsigned [where ?'a = nat] unsigned_ucast_eq unsigned_of_nat take_bit_nat_def mod_mod_cancel)
  assume n: "n < 2 ^ 16"
  have "unat (drop_bit 8 (of_nat n :: u16)) = drop_bit 8 (unat (of_nat n :: u16))" by (rule unat_drop_bit_eq)
  also have "\<dots> = n div 256" using n by (simp add: unsigned_of_nat take_bit_nat_def drop_bit_eq_div)
  finally have unat: "unat (drop_bit 8 (of_nat n :: u16)) = n div 256" .
  have "drop_bit 8 (of_nat n :: u16) = of_nat (n div 256)" using arg_cong [OF unat, of "of_nat :: nat \<Rightarrow> u16"] by (simp only: word_unat_eq_iff of_nat_unat ucast_id)
  then show "(ucast (drop_bit 8 (of_nat n :: u16)) :: u8) = of_nat (n div 256)"
    by (simp add: word_eq_iff_unsigned [where ?'a = nat] unsigned_ucast_eq unsigned_of_nat take_bit_nat_def mod_mod_cancel)
qed

lemma low_six: "take_bit 6 ((a AND 0x7f) OR 0x40 :: u8) = take_bit 6 a" "take_bit 6 ((a AND 0x7f) AND 0xbf :: u8) = take_bit 6 a"
  by (rule bit_word_eqI, use ulpfec_first_byte in \<open>auto simp only: bit_take_bit_iff\<close>)+

text \<open>What the encoder makes of the selected packets.\<close>

lemma fec_of_protects:
  assumes "fec_of W ps w m f" "W = UlpfecHeaderWriter \<or> W = FlexfecHeaderWriter" "media_block ps"
  shows "protects W (FecHeaderSize W (MinPacketMaskSize W m w)) (covered ps w m) f"
proof -
  let ?hs = "FecHeaderSize W (MinPacketMaskSize W m w)" and ?c = "covered ps w m"
  define p where "p = fold (protect_packet ?hs) ?c new_Packet"
  have w: "w \<in> {2, 6}" and ne: "?c \<noteq> []" and f: "f = FinalizeFecHeader W (ssrc_of (hd ps)) (base_of ps) m w p"
    using assms(1) by (simp_all add: fec_of_def p_def)
  have hs: "14 \<le> ?hs" "?hs \<le> 32" using assms(2) ulpfec.header_bounds [OF w] flexfec.header_bounds [OF w] by auto
  have ok: "\<forall>p\<in>set ?c. media_ok p" using assms(3) by (auto simp: media_block_def covered_def)
  have st: "fec_started ?hs new_Packet" by (simp add: fec_started_def new_Packet_def)
  have "8 \<le> ?hs" using hs(1) by simp
  note pf = protect_fold [OF st ok this hs(2)]
  have data: "pkt_data p ! j = xsum (contrib ?hs j) ?c" if "j < 1500" for j
    unfolding p_def using pf(2) [OF that] that by (simp add: new_Packet_def)
  have len: "length (pkt_data p) = 1500" "pkt_length p = ?hs + Max ((\<lambda>p. pkt_length p - 12) ` set ?c)"
    using pf(1,3) ne hs(1) by (simp_all add: p_def fec_started_def new_Packet_def payload_max_Max)
  have small: "pkt_length q - 12 < 2 ^ 16" "12 \<le> pkt_length q" if "q \<in> set ?c" for q using ok that by (auto simp: media_ok_def)
  have high: "pkt_data p ! 2 = xsum (\<lambda>p. of_nat ((pkt_length p - 12) div 256)) ?c" "pkt_data p ! 3 = xsum (\<lambda>p. of_nat (pkt_length p - 12)) ?c"
    using length_bytes(1) [OF small(1)] length_bytes(2) by (simp_all add: data) (auto simp only: contrib_def simp_thms if_True if_False num.simps numeral_eq_iff intro!: xsum_cong)
  have mid: "pkt_data p ! j = xsum (\<lambda>q. pkt_data q ! j) ?c" if "j < 8" "j \<noteq> 2" "j \<noteq> 3" for j
    using that by (auto simp: data contrib_def intro!: xsum_cong)
  have "Max ((\<lambda>p. pkt_length p - 12) ` set ?c) \<le> 1468"
    using ne ok by (intro Max.boundedI) (auto simp: media_ok_def)
  then have fits: "pkt_length p \<le> 1500" using len(2) hs(2) by simp
  have pay: "pkt_data p ! (?hs + j) = xsum (\<lambda>q. if 12 + j < pkt_length q then pkt_data q ! (12 + j) else 0) ?c"
    if "j < pkt_length p - ?hs" for j
    using that fits hs(1) small(2) by (auto simp: data contrib_def intro!: xsum_cong)
  have shape: "pkt_length f = pkt_length p" using assms(2) len(1) ulpfec.finalize_shape flexfec.finalize_shape by (auto simp: f)
  show ?thesis
    using assms(2)
  proof
    assume W: "W = UlpfecHeaderWriter"
    have d: "pkt_data f ! j = (if j = 0 then (if w = 6 then (pkt_data p ! 0 AND 0x7f) OR 0x40 else (pkt_data p ! 0 AND 0x7f) AND 0xbf)
       else if j = 8 \<or> j = 9 then pkt_data p ! (j - 6) else pkt_data p ! j)"
      if "j < 1500" "j \<noteq> 2" "j \<noteq> 3" "j < 10 \<or> ?hs \<le> j" for j
    proof -
      have "\<not> (12 \<le> j \<and> j < 12 + w)" "j \<noteq> 10" "j \<noteq> 11"
        using that(4) w by (auto simp: W UlpfecHeaderWriter_def ulpfec_FecHeaderSize_def UlpfecHeaderSize_def ulpfec_MinPacketMaskSize_def)
      then show ?thesis using ulpfec_data_nth [OF len(1) w that(1)] that by (auto simp: f W UlpfecHeaderWriter_def)
    qed
    have low: "take_bit 6 (pkt_data f ! 0) = take_bit 6 (xsum (\<lambda>p. pkt_data p ! 0) ?c)"
      using d [of 0] mid [of 0] by (cases "w = 6") (simp_all only: low_six if_True if_False simp_thms zero_less_numeral zero_neq_numeral)
    show ?thesis
      unfolding protects_def Let_def shape low
      using len d fits high mid pay hs by (auto simp: W)
  next
    assume W: "W = FlexfecHeaderWriter"
    then have "W \<noteq> UlpfecHeaderWriter" by (simp add: UlpfecHeaderWriter_def FlexfecHeaderWriter_def)
    have d: "pkt_data f ! j = pkt_data p ! j" if "j < 1500" "0 < j" "j < 8 \<or> ?hs \<le> j" for j
    proof (cases "j < 8")
      case True
      then show ?thesis using flex_front_kept(1) [OF w len(1) that(2)] by (simp add: f W FlexfecHeaderWriter_def)
    next
      case False
      then have "18 + flexfec_MinPacketMaskSize m w \<le> j" using that(3)
        by (auto simp: W FlexfecHeaderWriter_def flexfec_FecHeaderSize_def FlexfecHeaderSize_def flexfec_MinPacketMaskSize_def split: if_splits)
      then show ?thesis using flexfec_tail [OF w len(1) _ that(1)] by (simp add: f W FlexfecHeaderWriter_def)
    qed
    have d0: "pkt_data f ! 0 = (pkt_data p ! 0 AND 0x7f) AND 0xbf"
      using flex_front_kept(2) [OF w len(1), of 1] by (simp add: f W FlexfecHeaderWriter_def)
    have low: "take_bit 6 (pkt_data f ! 0) = take_bit 6 (xsum (\<lambda>p. pkt_data p ! 0) ?c)"
      using d0 mid [of 0] by (simp only: low_six zero_less_numeral zero_neq_numeral simp_thms)
    show ?thesis
      unfolding protects_def Let_def shape low
      using len d fits high mid pay hs \<open>W \<noteq> UlpfecHeaderWriter\<close> by auto
  qed
qed

end
