(* ===== verification/XorProps.thy ===== *)
theory XorProps
  imports XorArrive XorOutput
begin

text \<open>
  The properties of the XOR code, for both header formats: what the encoder returns, the round trip of the
  headers, what the decoder recovers from any sequence of arrivals, and the bounds it keeps on any
  input at all.
\<close>

subsection \<open>The two formats\<close>

text \<open>Writer, reader, stream of the FEC packets and stream of the media packets: ULPFEC sends both in one
  stream, FlexFEC need not.\<close>

inductive fec_kind :: "FecHeaderWriter \<Rightarrow> FecHeaderReader \<Rightarrow> u32 \<Rightarrow> u32 \<Rightarrow> bool" where
  ulpfec: "fec_kind UlpfecHeaderWriter UlpfecHeaderReader ms ms"
| flexfec: "fec_kind FlexfecHeaderWriter FlexfecHeaderReader fs ms"

inductive_cases fec_kindE: "fec_kind W R fs ms"

text \<open>The packets of a concrete block, for the witnesses.\<close>

definition ex_packet :: "u8 \<Rightarrow> u8 \<Rightarrow> Packet" where
  "ex_packet n b = \<lparr>pkt_length = 13, pkt_data = [0x80, 96, 0, n, 0, 0, 0, 1, 0, 0, 0, 7, b] @ replicate 1487 0\<rparr>"

definition ex_block :: "Packet list" where
  "ex_block = [ex_packet 5 1, ex_packet 6 2, ex_packet 8 3]"

lemma ex_packet_ok: "media_ok (ex_packet n b)"
proof -
  have pw: "(0x80 :: u8) = 2 ^ 7" by simp
  have "bit (0x80 :: u8) 7" "\<not> bit (0x80 :: u8) 6" unfolding pw bit_exp_iff by simp_all
  then show ?thesis by (simp add: media_ok_def ex_packet_def nth_append nth_Cons')
qed

lemma ex_packet_fields: "seq_of (ex_packet n b) = ucast n" "ssrc_of (ex_packet n b) = 7"
  by (simp_all add: ex_packet_def ParseSequenceNumber_def ParseSsrc_def)

lemma ex_block_ok: "media_block ex_block"
  by (simp add: media_block_def ex_block_def ex_packet_ok ex_packet_fields in_order_def column_of_def)

definition ex_encoder :: "FecHeaderWriter \<Rightarrow> FecHeaderReader \<Rightarrow> ForwardErrorCorrection" where
  "ex_encoder W R = new_ForwardErrorCorrection R W 7 7 (replicate 288 0) (replicate 288 0)"

lemma ex_encoder_ok: "fec_kind W R fs ms \<Longrightarrow> encoder_ok W (ex_encoder W R)"
  by (erule fec_kindE) (simp_all add: encoder_ok_def ex_encoder_def new_ForwardErrorCorrection_def ulpfec.limits flexfec.limits new_Packet_def)

subsection \<open>The encoder\<close>

lemma encoder_rows:
  assumes "fec_kind W R fs ms" "encoder_ok W s" "media_block ps" "0 < NumFecPackets (length ps) (unat pf)"
    and "imp \<le> length ps" "length buf = 288"
  shows "\<exists>fecs s' w pm. EncodeFec ps pf imp uep ty buf s = Some (0, fecs, s') \<and> length fecs = NumFecPackets (length ps) (unat pf) \<and>
    (\<forall>i<length fecs. fec_of W ps w (drop (i * w) pm) (fecs ! i)) \<and>
    (\<forall>p\<in>set ps. \<exists>i<length fecs. p \<in> set (covered ps w (drop (i * w) pm)))"
  using assms(1)
proof cases
  case ulpfec
  then show ?thesis
    using ulpfec.EncodeFec_spec [OF _ assms(3) refl assms(4-6), of s uep ty] assms(2) by metis
next
  case flexfec
  then show ?thesis
    using flexfec.EncodeFec_spec [OF _ assms(3) refl assms(4-6), of s uep ty] assms(2) by metis
qed

text \<open>C10: the encoder returns one finished FEC packet for every row of a mask. The row selects at least one
  packet, and the recovery fields and the payload of the FEC packet are, byte by byte, the exclusive or of those
  of the selected packets; every media packet is selected by some row, whatever sequence numbers are missing in
  between, in both formats.\<close>

theorem encoder_output:
  assumes "fec_kind W R fs ms" "encoder_ok W s" "media_block ps" "0 < NumFecPackets (length ps) (unat pf)"
    and "imp \<le> length ps" "length buf = 288"
  shows "\<exists>fecs s' w pm. EncodeFec ps pf imp uep ty buf s = Some (0, fecs, s') \<and> length fecs = NumFecPackets (length ps) (unat pf) \<and>
    (\<forall>i<length fecs. fec_of W ps w (drop (i * w) pm) (fecs ! i) \<and>
       protects W (FecHeaderSize W (MinPacketMaskSize W (drop (i * w) pm) w)) (covered ps w (drop (i * w) pm)) (fecs ! i)) \<and>
    (\<forall>p\<in>set ps. \<exists>i<length fecs. p \<in> set (covered ps w (drop (i * w) pm)))"
proof -
  have W: "W = UlpfecHeaderWriter \<or> W = FlexfecHeaderWriter" using assms(1) by cases simp_all
  show ?thesis using encoder_rows [OF assms, of uep ty] fec_of_protects [OF _ W assms(3)] by blast
qed

lemma ex_count: "NumFecPackets (length ex_block) (unat (255 :: u8)) = 3"
  by (simp add: ex_block_def NumFecPackets_def Let_def drop_bit_eq_div)

theorem encoder_output_witness:
  "\<exists>fecs s' w pm. EncodeFec ex_block 255 0 False kFecMaskRandom (replicate 288 0) (ex_encoder FlexfecHeaderWriter FlexfecHeaderReader) =
      Some (0, fecs, s') \<and> length fecs = 3 \<and>
    (\<forall>i<length fecs. fec_of FlexfecHeaderWriter ex_block w (drop (i * w) pm) (fecs ! i) \<and>
       protects FlexfecHeaderWriter (FecHeaderSize FlexfecHeaderWriter (MinPacketMaskSize FlexfecHeaderWriter (drop (i * w) pm) w))
         (covered ex_block w (drop (i * w) pm)) (fecs ! i)) \<and>
    (\<forall>p\<in>set ex_block. \<exists>i<length fecs. p \<in> set (covered ex_block w (drop (i * w) pm)))"
  using encoder_output [OF fec_kind.flexfec [of 9 7] ex_encoder_ok [OF fec_kind.flexfec [of 9 7]] ex_block_ok, of 255 0 "replicate 288 0" False kFecMaskRandom]
  unfolding ex_count by simp

subsection \<open>Headers\<close>

text \<open>C14: what the writer puts into a header the reader finds again, in both formats: the first sequence
  number, the protected stream, the length of the protected part, every bit of the mask, and outside the
  header every byte of the packet.\<close>

theorem header_roundtrip:
  assumes "fec_kind W R fs ms" "w \<in> {2, 6}" "w \<le> length m" "hs = FecHeaderSize W (MinPacketMaskSize W m w)"
    and "length (pkt_data p) = 1500" "hs \<le> pkt_length p" "pkt_length p \<le> 1500"
    and "fec_pkt f = FinalizeFecHeader W ms base m w p" "fec_ssrc f = fs"
  shows "\<exists>f'. ReadFecHeader R f = Some f' \<and> header_read hs ms base m w p f f'"
  using assms(1)
proof cases
  case ulpfec
  then show ?thesis using ulpfec.read_back [OF assms(2,3) _ assms(5-7), of f ms base] assms(4,8,9) by blast
next
  case flexfec
  then show ?thesis using flexfec.read_back [OF assms(2,3) _ assms(5-7), of f ms base] assms(4,8,9) by blast
qed

theorem header_roundtrip_witness:
  "\<exists>f'. ReadFecHeader FlexfecHeaderReader \<lparr>fec_ssrc = 9, fec_seq_num = 1,
      fec_pkt = FinalizeFecHeader FlexfecHeaderWriter 7 5 [0x80, 0x01] 2 \<lparr>pkt_length = 40, pkt_data = replicate 1500 1\<rparr>,
      protected_packets = [], fec_header_size = 0, protected_ssrc = 0, seq_num_base = 0, packet_mask_offset = 0, packet_mask_size = 0, protection_length = 0\<rparr> = Some f' \<and>
    header_read 24 7 5 [0x80, 0x01] 2 \<lparr>pkt_length = 40, pkt_data = replicate 1500 1\<rparr> \<lparr>fec_ssrc = 9, fec_seq_num = 1,
      fec_pkt = FinalizeFecHeader FlexfecHeaderWriter 7 5 [0x80, 0x01] 2 \<lparr>pkt_length = 40, pkt_data = replicate 1500 1\<rparr>,
      protected_packets = [], fec_header_size = 0, protected_ssrc = 0, seq_num_base = 0, packet_mask_offset = 0, packet_mask_size = 0, protection_length = 0\<rparr> f'"
proof -
  have "FecHeaderSize FlexfecHeaderWriter (MinPacketMaskSize FlexfecHeaderWriter [0x80, 0x01] 2) = 24"
    by (simp add: FlexfecHeaderWriter_def flexfec_FecHeaderSize_def FlexfecHeaderSize_def flexfec_MinPacketMaskSize_def)
  then show ?thesis by (intro header_roundtrip [OF fec_kind.flexfec [of 9 7]]) simp_all
qed

subsection \<open>The decoder\<close>

text \<open>What arrives: media packets of the block and FEC packets with numbers in \<open>N\<close>, in any order, with losses
  and duplicates.\<close>

definition arrivals_ok :: "Packet list \<Rightarrow> u32 \<Rightarrow> (nat \<Rightarrow> Packet) \<Rightarrow> (nat \<Rightarrow> u16) \<Rightarrow> nat set \<Rightarrow> ReceivedPacket list \<Rightarrow> bool" where
  "arrivals_ok ps fs fecs num N as \<longleftrightarrow>
     (\<forall>a\<in>set as. media_arrival ps a \<or> (\<exists>i. fec_arrival fecs num N i a) \<and> rcv_ssrc a = fs)"

definition decoder_start :: "FecHeaderReader \<Rightarrow> u32 \<Rightarrow> ForwardErrorCorrection \<Rightarrow> bool" where
  "decoder_start R ms s \<longleftrightarrow> fec_header_reader s = R \<and> protected_media_ssrc s = ms \<and> received_fec_packets s = []"

lemma decode_closed:
  assumes "fec_kind W R fs ms" "fec_block W ps w m fecs num N" "ms = ssrc_of (hd ps)" "decoder_start R ms s" "arrivals_ok ps fs fecs num N as"
    and "fold DecodeFec as (s, []) = (s', rs)"
  shows "recs_ok ps rs" "a \<in> set as \<Longrightarrow> \<not> is_fec a \<Longrightarrow> rcv_pkt a \<in> got rs"
    and "a \<in> set as \<Longrightarrow> fec_arrival fecs num N i a \<Longrightarrow> card (set (covered ps w (m i)) - got rs) \<noteq> 1"
proof -
  let ?A = "{i. \<exists>a\<in>set as. fec_arrival fecs num N i a}"
  have s: "fec_header_reader s = R" "protected_media_ssrc s = ssrc_of (hd ps)" "received_fec_packets s = []"
    using assms(3,4) by (simp_all add: decoder_start_def)
  have "peel_state W R ps w m num ?A (s', rs) \<and> (\<forall>a\<in>set as. \<not> is_fec a \<longrightarrow> rcv_pkt a \<in> got rs) \<and>
      (\<forall>i\<in>?A. card (set (covered ps w (m i)) - got rs) \<noteq> 1)"
    using assms(1)
  proof cases
    case ulpfec
    have arr: "\<forall>a\<in>set as. media_arrival ps a \<or> (\<exists>i. fec_arrival fecs num N i a) \<and> rcv_ssrc a = ssrc_of (hd ps)"
      using assms(3,5) ulpfec by (simp add: arrivals_ok_def)
    note all = ulpfec.decode_sequence [OF assms(2) [unfolded ulpfec(1)] s [unfolded ulpfec(2)] arr, unfolded assms(6) fst_conv snd_conv]
    then show ?thesis using ulpfec.peel_closed [OF assms(2) [unfolded ulpfec(1)]] ulpfec by blast
  next
    case flexfec
    have arr: "\<forall>a\<in>set as. media_arrival ps a \<or> (\<exists>i. fec_arrival fecs num N i a) \<and> True"
      using assms(5) by (auto simp: arrivals_ok_def)
    note all = flexfec.decode_sequence [OF assms(2) [unfolded flexfec(1)] s [unfolded flexfec(2)] arr, unfolded assms(6) fst_conv snd_conv]
    then show ?thesis using flexfec.peel_closed [OF assms(2) [unfolded flexfec(1)]] flexfec by blast
  qed
  then show "recs_ok ps rs" "a \<in> set as \<Longrightarrow> \<not> is_fec a \<Longrightarrow> rcv_pkt a \<in> got rs"
    "a \<in> set as \<Longrightarrow> fec_arrival fecs num N i a \<Longrightarrow> card (set (covered ps w (m i)) - got rs) \<noteq> 1"
    by (auto simp: peel_state_def peel_inv_def)
qed

text \<open>C5: whatever media and FEC packets of a block arrive, in whatever order and how often: the recovered
  list is sorted, holds each packet once, and holds nothing but packets that were sent, byte for
  byte; it holds every media packet that arrived; and no FEC packet that arrived protects exactly
  one packet that is not there, so nothing more could be recovered.\<close>

theorem decoder_recovers:
  assumes "fec_kind W R fs (ssrc_of (hd ps))" "fec_block W ps w m fecs num N" "decoder_start R (ssrc_of (hd ps)) s"
    and "arrivals_ok ps fs fecs num N as" "fold DecodeFec as (s, []) = (s', rs)"
  shows "recs_ok ps rs \<and> (\<forall>a\<in>set as. \<not> is_fec a \<longrightarrow> rcv_pkt a \<in> got rs) \<and>
    (\<forall>a\<in>set as. \<forall>i. fec_arrival fecs num N i a \<longrightarrow> card (set (covered ps w (m i)) - got rs) \<noteq> 1)"
  using decode_closed [OF assms(1,2) refl assms(3-5)] by blast

text \<open>The concrete FEC packet for all three packets of the block, which are in columns 0, 1 and 3.\<close>

definition ex_fec :: Packet where
  "ex_fec = FinalizeFecHeader UlpfecHeaderWriter 7 5 [0xd0, 0] 2 (fold (protect_packet 14) ex_block new_Packet)"

lemma ex_mask: "mask_bit 2 [0xd0, 0] 0 c \<longleftrightarrow> c \<in> {0, 1, 3}" if "c < 16"
proof -
  have "(0xd0 :: u8) = 2 ^ 7 OR (2 ^ 6 OR 2 ^ 4)" by simp
  then have b: "bit (0xd0 :: u8) k \<longleftrightarrow> k \<in> {4, 6, 7}" for k by (auto simp only: bit_or_iff bit_exp_iff) simp_all
  show ?thesis
  proof (cases "c < 8")
    case True
    then have "c \<in> {0, 1, 2, 3, 4, 5, 6, 7}" by auto
    then show ?thesis by (auto simp: mask_bit_def b)
  next
    case False
    then have "c div 8 = 1" using that by auto
    then show ?thesis using False by (auto simp: mask_bit_def)
  qed
qed

lemma ex_column: "column_of (base_of ex_block) (ex_packet n b) = unat (ucast n - 5 :: u16)"
  by (simp add: column_of_def ex_packet_fields ex_block_def)

lemma ex_covered: "covered ex_block 2 [0xd0, 0] = ex_block"
  unfolding covered_def by (rule filter_True) (auto simp: ex_block_def ex_packet_fields column_of_def ex_mask)

lemma ex_fec_of: "fec_of UlpfecHeaderWriter ex_block 2 [0xd0, 0] ex_fec"
proof -
  have hs: "FecHeaderSize UlpfecHeaderWriter (MinPacketMaskSize UlpfecHeaderWriter [0xd0, 0] 2) = 14"
    by (simp add: UlpfecHeaderWriter_def ulpfec_FecHeaderSize_def UlpfecHeaderSize_def ulpfec_MinPacketMaskSize_def)
  have "c \<in> column_of (base_of ex_block) ` set ex_block" if "c < 16" "mask_bit 2 [0xd0, 0] 0 c" for c
    using ex_mask [OF that(1)] that(2) unfolding ex_block_def by (auto simp: ex_packet_fields column_of_def)
  then show ?thesis unfolding fec_of_def ex_covered hs
    by (simp add: ex_fec_def ex_block_def ex_packet_fields column_of_def)
qed

definition ex_media :: "u8 \<Rightarrow> u8 \<Rightarrow> ReceivedPacket" where
  "ex_media n b = \<lparr>rcv_ssrc = 7, rcv_seq_num = ucast n, is_fec = False, rcv_pkt = ex_packet n b\<rparr>"

definition ex_arrivals :: "ReceivedPacket list" where
  "ex_arrivals = [ex_media 6 2, \<lparr>rcv_ssrc = 7, rcv_seq_num = 9, is_fec = True, rcv_pkt = ex_fec\<rparr>, ex_media 5 1]"

theorem decoder_recovers_witness:
  "ex_packet 8 3 \<in> got (snd (fold DecodeFec ex_arrivals (ex_encoder UlpfecHeaderWriter UlpfecHeaderReader, [])))"
proof -
  let ?num = "\<lambda>_ :: nat. 9 :: u16"
  obtain s' rs where run: "fold DecodeFec ex_arrivals (ex_encoder UlpfecHeaderWriter UlpfecHeaderReader, []) = (s', rs)" by fastforce
  have ms: "ssrc_of (hd ex_block) = 7" by (simp add: ex_block_def ex_packet_fields)
  have blk: "fec_block UlpfecHeaderWriter ex_block 2 (\<lambda>_. [0xd0, 0]) (\<lambda>_. ex_fec) ?num {0}"
    using ex_block_ok ex_fec_of by (simp add: fec_block_def MinDiff_def ForwardDiff_def)
  have start: "decoder_start UlpfecHeaderReader (ssrc_of (hd ex_block)) (ex_encoder UlpfecHeaderWriter UlpfecHeaderReader)"
    unfolding ms by (simp add: decoder_start_def ex_encoder_def new_ForwardErrorCorrection_def)
  have arr: "arrivals_ok ex_block 7 (\<lambda>_. ex_fec) ?num {0} ex_arrivals"
    by (simp add: arrivals_ok_def ex_arrivals_def ex_media_def ex_block_def media_arrival_def fec_arrival_def ex_packet_fields)
  note all = decoder_recovers [OF fec_kind.ulpfec [of 7, folded ms] blk start _ run, unfolded ms, OF arr]
  then have there: "ex_packet 6 2 \<in> got rs" "ex_packet 5 1 \<in> got rs" and one: "card (set ex_block - got rs) \<noteq> 1"
    by (simp_all add: ex_arrivals_def ex_media_def ex_covered fec_arrival_def)
  show ?thesis
  proof (rule ccontr)
    assume "\<not> ?thesis"
    then have "set ex_block - got rs = {ex_packet 8 3}" using there run by (auto simp: ex_block_def)
    then show False using one by simp
  qed
qed

text \<open>Consecutive numbers of the FEC packets of one call of \<open>EncodeFec\<close>.\<close>

lemma consecutive_numbers:
  assumes "n \<le> 48"
  shows "inj_on (\<lambda>i. n0 + of_nat i :: u16) {..<n}"
    and "i < n \<Longrightarrow> j < n \<Longrightarrow> MinDiff 0 (n0 + of_nat i :: u16) (n0 + of_nat j) \<le> 0x3fff"
proof -
  have small: "unat (n0 + of_nat i - n0 :: u16) = i" if "i < n" for i
    using that assms by (simp add: unsigned_of_nat take_bit_nat_eq_self)
  then show "inj_on (\<lambda>i. n0 + of_nat i :: u16) {..<n}" by (intro inj_onI) (metis lessThan_iff)
  show "MinDiff 0 (n0 + of_nat i :: u16) (n0 + of_nat j) \<le> 0x3fff" if "i < n" "j < n"
  proof -
    have "unat (MinDiff 0 (n0 + of_nat i :: u16) (n0 + of_nat j)) < 48"
      using small that assms by (intro MinDiff_near [where b = n0]) auto
    then show ?thesis by (simp add: word_le_nat_alt)
  qed
qed

lemma NumFecPackets_bound: "media_block ps \<Longrightarrow> NumFecPackets (length ps) (unat (pf :: u8)) \<le> 48"
proof -
  assume ps: "media_block ps"
  have "(2 :: nat) ^ LENGTH(8) = 256" by simp
  then have "unat pf < 256" using unsigned_less [of pf, where 'a = nat] by (simp only:)
  then have "unat pf \<le> 255" by linarith
  then have "NumFecPackets (length ps) (unat pf) \<le> length ps" using ps by (intro NumFecPackets_le) (auto simp: media_block_def)
  also have "\<dots> \<le> 48" by (rule media_block_le [OF ps])
  finally show ?thesis .
qed

lemma block_of_rows:
  assumes "media_block ps" "n \<le> 48" "\<forall>i<n. fec_of W ps w (m i) (fecs ! i)"
  shows "fec_block W ps w m ((!) fecs) (\<lambda>i. n0 + of_nat i) {..<n}"
  using assms consecutive_numbers [OF assms(2)] by (simp add: fec_block_def)

lemma block_repaired:
  assumes "fec_kind W R fs (ssrc_of (hd ps))" "encoder_ok W s" "media_block ps" "0 < NumFecPackets (length ps) (unat pf)"
    and "imp \<le> length ps" "length buf = 288"
  shows "\<exists>fecs s1 w pm. EncodeFec ps pf imp uep ty buf s = Some (0, fecs, s1) \<and> length fecs = NumFecPackets (length ps) (unat pf) \<and>
    (\<forall>i<length fecs. fec_of W ps w (drop (i * w) pm) (fecs ! i)) \<and>
    (\<forall>d as n0 d' rs. decoder_start R (ssrc_of (hd ps)) d \<and>
       arrivals_ok ps fs ((!) fecs) (\<lambda>i. n0 + of_nat i) {..<length fecs} as \<and> fold DecodeFec as (d, []) = (d', rs) \<longrightarrow>
       recs_ok ps rs \<and> (\<forall>x. set ps - {x} \<subseteq> rcv_pkt ` {a \<in> set as. \<not> is_fec a} \<and>
         (\<forall>i<length fecs. \<exists>a\<in>set as. fec_arrival ((!) fecs) (\<lambda>i. n0 + of_nat i) {..<length fecs} i a) \<longrightarrow> got rs = set ps))"
proof -
  obtain fecs s1 w pm where enc: "EncodeFec ps pf imp uep ty buf s = Some (0, fecs, s1)" "length fecs = NumFecPackets (length ps) (unat pf)"
    "\<forall>i<length fecs. fec_of W ps w (drop (i * w) pm) (fecs ! i)" "\<forall>p\<in>set ps. \<exists>i<length fecs. p \<in> set (covered ps w (drop (i * w) pm))"
    using encoder_rows [OF assms] by blast
  have "length fecs \<le> 48"
    unfolding enc(2) by (rule NumFecPackets_bound [OF assms(3)])
  note blk = block_of_rows [OF assms(3) this enc(3)]
  have "recs_ok ps rs \<and> (\<forall>x. set ps - {x} \<subseteq> rcv_pkt ` {a \<in> set as. \<not> is_fec a} \<and>
         (\<forall>i<length fecs. \<exists>a\<in>set as. fec_arrival ((!) fecs) (\<lambda>i. n0 + of_nat i) {..<length fecs} i a) \<longrightarrow> got rs = set ps)"
    if d: "decoder_start R (ssrc_of (hd ps)) d" and arr: "arrivals_ok ps fs ((!) fecs) (\<lambda>i. n0 + of_nat i) {..<length fecs} as"
      and run: "fold DecodeFec as (d, []) = (d', rs)" for d as n0 d' rs
  proof -
    note all = decode_closed [OF assms(1) blk refl d arr run]
    have sub: "got rs \<subseteq> set ps" using all(1) by (auto simp: recs_ok_def got_def)
    have "p \<in> got rs" if p: "p \<in> set ps" and media: "set ps - {x} \<subseteq> rcv_pkt ` {a \<in> set as. \<not> is_fec a}"
      and fec: "\<forall>i<length fecs. \<exists>a\<in>set as. fec_arrival ((!) fecs) (\<lambda>i. n0 + of_nat i) {..<length fecs} i a" for p x
    proof (rule ccontr)
      assume "p \<notin> got rs"
      moreover have others: "set ps - {x} \<subseteq> got rs" using media all(2) by auto
      ultimately have px: "p = x" using p by blast
      obtain i where i: "i < length fecs" "p \<in> set (covered ps w (drop (i * w) pm))" using enc(4) p by blast
      have "set (covered ps w (drop (i * w) pm)) \<subseteq> set ps" by (auto simp: covered_def)
      then have one: "set (covered ps w (drop (i * w) pm)) - got rs = {p}" using i(2) others px \<open>p \<notin> got rs\<close> by blast
      obtain a where "a \<in> set as" "fec_arrival ((!) fecs) (\<lambda>i. n0 + of_nat i) {..<length fecs} i a" using fec i(1) by blast
      from all(3) [OF this] show False unfolding one by simp
    qed
    then show ?thesis using all(1) sub by blast
  qed
  then show ?thesis using enc(1-3) by blast
qed

text \<open>C1: end to end, one loss never matters: from the FEC packets of any successful call of \<open>EncodeFec\<close> with
  a protection factor above 0, and all media packets but one, the decoder has in the end exactly the
  media packets that were sent, in order, whatever the order of arrival.\<close>

theorem single_loss_repaired:
  assumes "fec_kind W R fs (ssrc_of (hd ps))" "encoder_ok W s" "media_block ps" "0 < NumFecPackets (length ps) (unat pf)"
    and "imp \<le> length ps" "length buf = 288"
  shows "\<exists>fecs s1. EncodeFec ps pf imp uep ty buf s = Some (0, fecs, s1) \<and>
    (\<forall>d as n0 x d' rs. decoder_start R (ssrc_of (hd ps)) d \<and>
       arrivals_ok ps fs ((!) fecs) (\<lambda>i. n0 + of_nat i) {..<length fecs} as \<and>
       set ps - {x} \<subseteq> rcv_pkt ` {a \<in> set as. \<not> is_fec a} \<and>
       (\<forall>i<length fecs. \<exists>a\<in>set as. fec_arrival ((!) fecs) (\<lambda>i. n0 + of_nat i) {..<length fecs} i a) \<and>
       fold DecodeFec as (d, []) = (d', rs) \<longrightarrow> recs_ok ps rs \<and> got rs = set ps)"
proof -
  obtain fecs s1 where "EncodeFec ps pf imp uep ty buf s = Some (0, fecs, s1)"
    and "\<forall>d as n0 d' rs. decoder_start R (ssrc_of (hd ps)) d \<and>
       arrivals_ok ps fs ((!) fecs) (\<lambda>i. n0 + of_nat i) {..<length fecs} as \<and> fold DecodeFec as (d, []) = (d', rs) \<longrightarrow>
       recs_ok ps rs \<and> (\<forall>x. set ps - {x} \<subseteq> rcv_pkt ` {a \<in> set as. \<not> is_fec a} \<and>
         (\<forall>i<length fecs. \<exists>a\<in>set as. fec_arrival ((!) fecs) (\<lambda>i. n0 + of_nat i) {..<length fecs} i a) \<longrightarrow> got rs = set ps)"
    using block_repaired [OF assms, of uep ty] by blast
  then show ?thesis by blast
qed

definition ex_fec_arrivals :: "Packet list \<Rightarrow> ReceivedPacket list" where
  "ex_fec_arrivals fecs = map (\<lambda>i. \<lparr>rcv_ssrc = 9, rcv_seq_num = 100 + of_nat i, is_fec = True, rcv_pkt = fecs ! i\<rparr>) [0..<length fecs]"

theorem single_loss_repaired_witness:
  "\<exists>fecs s1. EncodeFec ex_block 255 0 False kFecMaskRandom (replicate 288 0) (ex_encoder FlexfecHeaderWriter FlexfecHeaderReader) = Some (0, fecs, s1) \<and>
    got (snd (fold DecodeFec ([ex_media 8 3, ex_media 5 1] @ ex_fec_arrivals fecs) (ex_encoder FlexfecHeaderWriter FlexfecHeaderReader, []))) = set ex_block"
proof -
  let ?d = "ex_encoder FlexfecHeaderWriter FlexfecHeaderReader"
  have ms: "ssrc_of (hd ex_block) = 7" by (simp add: ex_block_def ex_packet_fields)
  have kind: "fec_kind FlexfecHeaderWriter FlexfecHeaderReader 9 (ssrc_of (hd ex_block))" by (rule fec_kind.flexfec)
  obtain fecs s1 where enc: "EncodeFec ex_block 255 0 False kFecMaskRandom (replicate 288 0) ?d = Some (0, fecs, s1)"
    and rep: "\<forall>d as n0 x d' rs. decoder_start FlexfecHeaderReader (ssrc_of (hd ex_block)) d \<and>
       arrivals_ok ex_block 9 ((!) fecs) (\<lambda>i. n0 + of_nat i) {..<length fecs} as \<and>
       set ex_block - {x} \<subseteq> rcv_pkt ` {a \<in> set as. \<not> is_fec a} \<and>
       (\<forall>i<length fecs. \<exists>a\<in>set as. fec_arrival ((!) fecs) (\<lambda>i. n0 + of_nat i) {..<length fecs} i a) \<and>
       fold DecodeFec as (d, []) = (d', rs) \<longrightarrow> recs_ok ex_block rs \<and> got rs = set ex_block"
    using single_loss_repaired [OF kind ex_encoder_ok [OF kind] ex_block_ok, of 255 0 "replicate 288 0" False kFecMaskRandom]
    unfolding ex_count by auto
  let ?as = "[ex_media 8 3, ex_media 5 1] @ ex_fec_arrivals fecs"
  obtain d' rs where run: "fold DecodeFec ?as (?d, []) = (d', rs)" by fastforce
  have start: "decoder_start FlexfecHeaderReader (ssrc_of (hd ex_block)) ?d"
    unfolding ms by (simp add: decoder_start_def ex_encoder_def new_ForwardErrorCorrection_def)
  have arr: "arrivals_ok ex_block 9 ((!) fecs) (\<lambda>i. 100 + of_nat i) {..<length fecs} ?as"
    by (auto simp: arrivals_ok_def ex_fec_arrivals_def ex_media_def ex_block_def media_arrival_def fec_arrival_def ex_packet_fields)
  have media: "set ex_block - {ex_packet 6 2} \<subseteq> rcv_pkt ` {a \<in> set ?as. \<not> is_fec a}"
  proof -
    have "ex_media 8 3 \<in> {a \<in> set ?as. \<not> is_fec a}" "ex_media 5 1 \<in> {a \<in> set ?as. \<not> is_fec a}" by (simp_all add: ex_media_def)
    from imageI [OF this(1), of rcv_pkt] imageI [OF this(2), of rcv_pkt]
    have "{ex_packet 5 1, ex_packet 8 3} \<subseteq> rcv_pkt ` {a \<in> set ?as. \<not> is_fec a}"
      unfolding insert_subset by (simp only: ex_media_def ReceivedPacket.simps empty_subsetI simp_thms)
    moreover have "set ex_block - {ex_packet 6 2} \<subseteq> {ex_packet 5 1, ex_packet 8 3}" by (auto simp: ex_block_def)
    ultimately show ?thesis by blast
  qed
  have "\<forall>i<length fecs. \<exists>a\<in>set ?as. fec_arrival ((!) fecs) (\<lambda>i. 100 + of_nat i) {..<length fecs} i a"
    by (auto simp: ex_fec_arrivals_def fec_arrival_def)
  with rep start arr media run have "got rs = set ex_block" by blast
  then show ?thesis using enc run by simp
qed

subsection \<open>Bounds on any input\<close>

lemma attempt_bounded:
  assumes "\<And>j. j < i \<Longrightarrow> j < length fs \<Longrightarrow> 1 < NumCoveredPacketsMissing (fs ! j)" "length rs \<le> r_max_media_packets (fec_header_reader s)"
    and "attempt_loop s i fs rs = (fs', rs')"
  shows "length fs' \<le> length fs \<and> length rs' \<le> r_max_media_packets (fec_header_reader s) \<and> (\<forall>f\<in>set fs'. 1 < NumCoveredPacketsMissing f)"
  using assms
proof (induction s i fs rs rule: attempt_loop.induct)
  case (1 s i fs rs)
  let ?n = "NumCoveredPacketsMissing (fs ! i)"
  note low = "1.prems"(1) and max = "1.prems"(2) and loop = "1.prems"(3)
  show ?case
  proof (cases "i < length fs")
    case False
    then have "fs' = fs" "rs' = rs" using loop by (simp_all add: attempt_loop.simps [of s i fs])
    then show ?thesis using low max False by (auto simp: in_set_conv_nth)
  next
    case i: True
    have erased: "1 < NumCoveredPacketsMissing (erase_at i fs ! j)" if "j < i" for j
      using low [OF that] that i by (simp add: erase_at_def nth_append)
    have len: "length (erase_at i fs) \<le> length fs" using i by (simp add: erase_at_length)
    consider (one) "?n = 1" | (none) "?n = 0" | (more) "1 < ?n" by linarith
    then show ?thesis
    proof cases
      case one
      show ?thesis
      proof (cases "RecoverPacket (fs ! i)")
        case None
        then have "attempt_loop s i (erase_at i fs) rs = (fs', rs')" using loop i one by (simp add: attempt_loop.simps [of s i fs])
        from "1.IH"(1) [OF i refl one None erased max this] len show ?thesis by auto
      next
        case (Some r)
        let ?fs = "erase_at i (UpdateCoveringFecPackets r fs)" and ?rs = "DiscardOldRecoveredPackets s (sort_by rec_seq_num (rs @ [r]))"
        have "attempt_loop s 0 ?fs ?rs = (fs', rs')" using loop i one Some by (simp add: attempt_loop.simps [of s i fs])
        moreover have "length ?rs \<le> r_max_media_packets (fec_header_reader s)" by (simp add: DiscardOldRecoveredPackets_def)
        moreover have "length ?fs \<le> length fs" using i by (simp add: erase_at_length)
        ultimately show ?thesis using "1.IH"(2) [OF i refl one Some] by (meson le_trans not_less_zero)
      qed
    next
      case none
      have "attempt_loop s i (erase_at i fs) rs = (fs', rs')" using loop i none by (simp add: attempt_loop.simps [of s i fs])
      moreover have "?n \<noteq> 1" using none by simp
      ultimately show ?thesis using "1.IH"(3) [OF i refl _ none erased max] len by auto
    next
      case more
      have "attempt_loop s (i + 1) fs rs = (fs', rs')" using loop i more by (simp add: attempt_loop.simps [of s i fs])
      moreover have "1 < NumCoveredPacketsMissing (fs ! j)" if "j < i + 1" for j
        using low [of j] more that i by (cases "j = i") auto
      moreover have "?n \<noteq> 1" "?n \<noteq> 0" using more by linarith+
      ultimately show ?thesis by (intro "1.IH"(4) [OF i refl _ _ _ max]) simp_all
    qed
  qed
qed

lemma insert_fec_bounded:
  assumes "length (received_fec_packets s) \<le> r_max_fec_packets (fec_header_reader s)"
  shows "length (received_fec_packets (InsertFecPacket rs a s)) \<le> r_max_fec_packets (fec_header_reader s)"
    "fec_header_reader (InsertFecPacket rs a s) = fec_header_reader s"
  using assms by (auto simp: InsertFecPacket_def Let_def split: option.split)

lemma insert_bounded:
  assumes "length (received_fec_packets s) \<le> r_max_fec_packets (fec_header_reader s)" "InsertPacket a (s, rs) = (s', rs')"
  shows "length (received_fec_packets s') \<le> r_max_fec_packets (fec_header_reader s) \<and> fec_header_reader s' = fec_header_reader s \<and>
    length rs' \<le> r_max_media_packets (fec_header_reader s)"
proof -
  let ?fs = "if received_fec_packets s \<noteq> [] \<and> rcv_ssrc a = fec_ssrc (hd (received_fec_packets s)) \<and> is_fec a
      then dropWhile (\<lambda>f. MinDiff 0 (rcv_seq_num a) (fec_seq_num f) > 0x3fff) (received_fec_packets s) else received_fec_packets s"
  let ?s = "s\<lparr>received_fec_packets := ?fs\<rparr>"
  have "length ?fs \<le> length (received_fec_packets s)" by (simp add: length_dropWhile_le)
  then have fs: "length (received_fec_packets ?s) \<le> r_max_fec_packets (fec_header_reader ?s)" using assms(1) by simp
  show ?thesis
  proof (cases "is_fec a")
    case True
    then have "s' = InsertFecPacket rs a ?s" "rs' = DiscardOldRecoveredPackets s' rs"
      using assms(2) by (auto simp: InsertPacket_def Let_def)
    then show ?thesis using insert_fec_bounded [OF fs] by (simp add: DiscardOldRecoveredPackets_def)
  next
    case False
    obtain fs1 rs1 where i: "InsertMediaPacket a (received_fec_packets s, rs) = (fs1, rs1)" by fastforce
    then have "length fs1 = length (received_fec_packets s)" by (auto simp: InsertMediaPacket_def Let_def split: if_splits)
    moreover have "s' = s\<lparr>received_fec_packets := fs1\<rparr>" "rs' = DiscardOldRecoveredPackets s' rs1"
      using assms(2) i False by (auto simp: InsertPacket_def Let_def)
    ultimately show ?thesis using assms(1) by (simp add: DiscardOldRecoveredPackets_def)
  qed
qed

subsection \<open>The number of FEC packets, gaps and errors\<close>

text \<open>C39: the number of FEC packets is the number of media packets times the protection factor over 256,
  rounded to the nearest and a half upwards, except that a product below a half counts as one when there is any
  protection; it never exceeds the number of media packets.\<close>

theorem num_fec_bounds:
  assumes "pf \<le> 255" "0 < m"
  shows "NumFecPackets m pf \<le> m \<and> (0 < pf \<longleftrightarrow> 0 < NumFecPackets m pf) \<and>
    (0 < pf \<and> m * pf < 128 \<longrightarrow> NumFecPackets m pf = 1) \<and>
    (128 \<le> m * pf \<longrightarrow> 256 * NumFecPackets m pf \<le> m * pf + 128 \<and> m * pf + 128 < 256 * (NumFecPackets m pf + 1))"
proof (intro conjI impI)
  show "NumFecPackets m pf \<le> m" by (rule NumFecPackets_le [OF assms])
  show "0 < pf \<longleftrightarrow> 0 < NumFecPackets m pf"
    by (cases "pf = 0") (auto simp: NumFecPackets_def Let_def drop_bit_eq_div)
  show "0 < pf \<and> m * pf < 128 \<Longrightarrow> NumFecPackets m pf = 1"
    by (simp add: NumFecPackets_def Let_def drop_bit_eq_div)
  assume big: "128 \<le> m * pf"
  then have "0 < (m * pf + 128) div 256" by (simp add: div_greater_zero_iff)
  then have n: "NumFecPackets m pf = (m * pf + 128) div 256" by (simp add: NumFecPackets_def Let_def drop_bit_eq_div)
  show "256 * NumFecPackets m pf \<le> m * pf + 128" unfolding n by simp
  show "m * pf + 128 < 256 * (NumFecPackets m pf + 1)" unfolding n using dividend_less_times_div [of 256 "m * pf + 128"] by (simp add: algebra_simps)
qed

theorem num_fec_bounds_witness: "NumFecPackets 10 77 = 3 \<and> NumFecPackets 3 40 = 1"
proof -
  have "256 * NumFecPackets 10 77 \<le> 898" "898 < 256 * (NumFecPackets 10 77 + 1)" using num_fec_bounds [of 77 10] by simp_all
  then show ?thesis using num_fec_bounds [of 40 3] by simp
qed

text \<open>C38: when sequence numbers are missing between the media packets, the mask is spread: afterwards row
  \<open>i\<close> has the bit of packet \<open>k\<close> in the column of its distance from the first sequence number, and no
  other bits.\<close>

theorem columns_inserted:
  fixes s :: ForwardErrorCorrection and ps :: "Packet list"
  assumes "media_block ps" "w_max_media_packets (fec_header_writer s) = 48" "cur_mask_size s = PacketMaskSize (length ps)"
    and "length (packet_masks s) = 288" "length (tmp_packet_masks s) = 288" "n \<le> 48"
    and "\<forall>i<n. \<forall>c<8 * cur_mask_size s. length ps \<le> c \<longrightarrow> \<not> mask_bit (cur_mask_size s) (packet_masks s) i c"
  shows "\<exists>bits s'. InsertZerosInPacketMasks ps n s = Some (int bits, s') \<and> bits = column_of (base_of ps) (last ps) + 1 \<and>
    (\<forall>i<n. \<forall>c<8 * PacketMaskSize bits. mask_bit (PacketMaskSize bits) (packet_masks s') i c \<longleftrightarrow>
       (\<exists>k<length ps. column_of (base_of ps) (ps ! k) = c \<and> mask_bit (cur_mask_size s) (packet_masks s) i k))"
proof -
  have b: "ps \<noteq> []" "in_order (base_of ps) ps" "column_of (base_of ps) (last ps) < 48" using assms(1) by (simp_all add: media_block_def)
  obtain pm tmp where z: "InsertZerosInPacketMasks ps n s = Some (int (column_of (base_of ps) (last ps) + 1), s\<lparr>packet_masks := pm, tmp_packet_masks := tmp\<rparr>)"
    "masks_for (PacketMaskSize (column_of (base_of ps) (last ps) + 1)) pm (mask_bit (cur_mask_size s) (packet_masks s)) (map (column_of (base_of ps)) ps) n"
    using InsertZeros_spec [OF b assms(2-6)] assms(7) by blast
  then show ?thesis unfolding masks_for_def by auto
qed

theorem columns_inserted_witness:
  "\<exists>bits s'. InsertZerosInPacketMasks ex_block 1 ((ex_encoder UlpfecHeaderWriter UlpfecHeaderReader)\<lparr>cur_mask_size := 2, packet_masks := [0xe0, 0] @ replicate 286 0\<rparr>) =
      Some (int bits, s') \<and> bits = 4"
proof -
  let ?s = "(ex_encoder UlpfecHeaderWriter UlpfecHeaderReader)\<lparr>cur_mask_size := 2, packet_masks := [0xe0, 0] @ replicate 286 0\<rparr>"
  have "(0xe0 :: u8) = 2 ^ 7 OR (2 ^ 6 OR 2 ^ 5)" by simp
  then have b: "bit (0xe0 :: u8) k \<longleftrightarrow> k \<in> {5, 6, 7}" for k by (auto simp only: bit_or_iff bit_exp_iff) simp_all
  have "\<not> mask_bit 2 ([0xe0, 0] @ replicate 286 0) 0 c" if "c < 16" "3 \<le> c" for c
  proof (cases "c < 8")
    case True
    then have "c \<in> {3, 4, 5, 6, 7}" using that by auto
    then show ?thesis by (auto simp: mask_bit_def b)
  next
    case False
    then have "c div 8 = 1" using that by auto
    then show ?thesis by (simp add: mask_bit_def)
  qed
  then have out: "\<forall>i<1. \<forall>c<8 * cur_mask_size ?s. length ex_block \<le> c \<longrightarrow> \<not> mask_bit (cur_mask_size ?s) (packet_masks ?s) i c"
    by (simp add: ex_block_def)
  have "column_of (base_of ex_block) (last ex_block) = 3" by (simp add: ex_block_def ex_packet_fields column_of_def)
  moreover have "w_max_media_packets (fec_header_writer ?s) = 48" "cur_mask_size ?s = PacketMaskSize (length ex_block)" "length (packet_masks ?s) = 288"
    "length (tmp_packet_masks ?s) = 288"
    by (simp_all add: ex_encoder_def new_ForwardErrorCorrection_def ulpfec.limits PacketMaskSize_def ex_block_def)
  ultimately show ?thesis using columns_inserted [OF ex_block_ok _ _ _ _ _ out] by auto
qed

lemma wide_gap:
  assumes "ps \<noteq> []" "length ps \<le> 48" "in_order (base_of ps) ps" "48 \<le> column_of (base_of ps) (last ps)" "w_max_media_packets (fec_header_writer s) = 48"
  shows "InsertZerosInPacketMasks ps n s = Some (- 1, s)"
proof -
  let ?L = "column_of (base_of ps) (last ps)" and ?m = "length ps"
  have m: "?m \<le> ?L + 1" by (rule in_order_last(1) [OF assms(3,1)])
  have two: "\<not> ?m \<le> 1"
  proof
    assume "?m \<le> 1"
    then have "last ps = hd ps" using assms(1) by (cases ps) auto
    then show False using assms(4) by simp
  qed
  have L: "?L < 65536" using unsigned_less [of "seq_of (last ps) - base_of ps", where 'a = nat] by (simp add: column_of_def del: unsigned_less)
  have small: "unat (of_nat n :: u64) = n" if "n \<le> 65536" for n using that by (simp add: unsigned_of_nat take_bit_nat_eq_self)
  have ucast_L: "ucast (seq_of (last ps) - base_of ps) = (of_nat ?L :: u64)" unfolding column_of_def by (rule word_of_nat_ucast_seq)
  have missing: "ucast (seq_of (last ps) - base_of ps) - of_nat ?m + 1 = (of_nat (?L + 1 - ?m) :: u64)"
    unfolding ucast_L using m by (simp add: of_nat_diff)
  have zero: "(of_nat (?L + 1 - ?m) :: u64) \<noteq> 0"
    using small [of "?L + 1 - ?m"] assms(2,4) L by (auto simp: unat_eq_0 [symmetric] simp del: of_nat_diff)
  have "(of_nat (?L + 1 - ?m) + of_nat ?m :: u64) = of_nat (?L + 1 - ?m + ?m)" by (rule of_nat_add [symmetric])
  also have "?L + 1 - ?m + ?m = ?L + 1" using m by simp
  finally have total: "unat (of_nat (?L + 1 - ?m) + of_nat ?m :: u64) > 48" using small [of "?L + 1"] L assms(4) by simp
  show ?thesis using two zero total assms(5) unfolding InsertZerosInPacketMasks_def Let_def missing by simp
qed

text \<open>C40: the error results of the encoder: -1 with no FEC packet and nothing changed for more than 48 media
  packets or one shorter than an RTP header; 0 with no FEC packet for protection factor 0; -1 with no FEC
  packet when the sequence numbers span more than 48.\<close>

theorem encoder_errors:
  assumes "fec_kind W R fs ms" "fec_header_writer s = W" "ps \<noteq> []"
  shows "(48 < length ps \<or> (\<exists>p\<in>set ps. pkt_length p < 12) \<longrightarrow> EncodeFec ps pf imp uep ty buf s = Some (- 1, [], s)) \<and>
    (length ps \<le> 48 \<and> (\<forall>p\<in>set ps. 12 \<le> pkt_length p) \<longrightarrow>
       (pf = 0 \<longrightarrow> EncodeFec ps pf imp uep ty buf s = Some (0, [], s)) \<and>
       (0 < pf \<and> in_order (base_of ps) ps \<and> 48 \<le> column_of (base_of ps) (last ps) \<longrightarrow>
          (\<exists>s'. EncodeFec ps pf imp uep ty buf s = Some (- 1, [], s'))))"
proof -
  have W: "w_max_media_packets (fec_header_writer s) = 48"
    using assms(1,2) by cases (simp_all add: ulpfec.limits flexfec.limits)
  have early: "EncodeFec ps pf imp uep ty buf s = Some (- 1, [], s)" if "48 < length ps \<or> (\<exists>p\<in>set ps. pkt_length p < 12)"
    using that W by (auto simp: EncodeFec_def Let_def list_ex_iff)
  have go: "\<not> length ps > 48" "\<not> list_ex (\<lambda>p. pkt_length p < kRtpHeaderSize) ps"
    if "length ps \<le> 48" "\<forall>p\<in>set ps. 12 \<le> pkt_length p" using that by (auto simp: list_ex_iff not_less)
  have none: "EncodeFec ps 0 imp uep ty buf s = Some (0, [], s)" if "length ps \<le> 48" "\<forall>p\<in>set ps. 12 \<le> pkt_length p"
    using go [OF that] W by (simp add: EncodeFec_def Let_def NumFecPackets_def drop_bit_eq_div)
  have gap: "\<exists>s'. EncodeFec ps pf imp uep ty buf s = Some (- 1, [], s')"
    if h: "length ps \<le> 48" "\<forall>p\<in>set ps. 12 \<le> pkt_length p" "0 < pf" "in_order (base_of ps) ps" "48 \<le> column_of (base_of ps) (last ps)"
  proof -
    have "0 < unat pf" using h(3) by (simp add: word_less_nat_alt)
    then have n: "NumFecPackets (length ps) (unat pf) \<noteq> 0" by (simp add: NumFecPackets_def Let_def)
    have z: "InsertZerosInPacketMasks ps n t = Some (- 1, t)" if "fec_header_writer t = fec_header_writer s" for n t
      using that W by (intro wide_gap [OF assms(3) h(1,4,5)]) simp
    show ?thesis using go [OF h(1,2)] W n by (simp add: EncodeFec_def Let_def z)
  qed
  show ?thesis using early none gap by blast
qed

theorem encoder_errors_witness:
  "EncodeFec [ex_packet 5 1] 0 0 False kFecMaskRandom [] (ex_encoder UlpfecHeaderWriter UlpfecHeaderReader) =
     Some (0, [], ex_encoder UlpfecHeaderWriter UlpfecHeaderReader)"
proof -
  have "fec_header_writer (ex_encoder UlpfecHeaderWriter UlpfecHeaderReader) = UlpfecHeaderWriter"
    by (simp add: ex_encoder_def new_ForwardErrorCorrection_def)
  then show ?thesis using encoder_errors [OF fec_kind.ulpfec [of 7], of _ "[ex_packet 5 1]" 0 0 False kFecMaskRandom "[]"]
    by (auto simp: ex_packet_def)
qed

end
