(* ===== verification/UlpfecGen.thy ===== *)
theory UlpfecGen
  imports XorProps
begin

text \<open>
  The generator that collects media packets until it is worth making FEC packets for them,
  \<open>ulpfec_generator.cc\<close>: the class \<open>UlpfecGenerator\<close> is a record with the encoder in it, and every operation
  takes and returns it. The list of generated packets is a list of values: the code points into the encoder,
  which does not touch the packets before the list is cleared. \<open>buf\<close> is what the uninitialised memory of
  the encoder holds (see \<open>EncodeFec\<close>); \<open>None\<close> is a fatal error of the encoder.
\<close>

subsection \<open>RED packets\<close>

definition kRedForFecHeaderLength :: nat where [simp]: "kRedForFecHeaderLength = 1"

record RedPacket =
  red_data :: "u8 list"
  red_length :: nat
  red_header_length :: nat

text \<open>\<open>data\<close> is what the new storage holds, of the given length.\<close>

definition new_RedPacket :: "(nat \<Rightarrow> u8) \<Rightarrow> nat \<Rightarrow> RedPacket" where
  "new_RedPacket fresh len = \<lparr>red_data = map fresh [0..<len], red_length = len, red_header_length = 0\<rparr>"

definition CreateHeader :: "u8 list \<Rightarrow> nat \<Rightarrow> int \<Rightarrow> int \<Rightarrow> RedPacket \<Rightarrow> RedPacket" where
  "CreateHeader rtp_header header_length red_payload_type payload_type r =
     (let d = memcpy_at (red_data r) 0 rtp_header header_length;
          d = d[1 := d ! 1 AND 0x80];
          d = d[1 := d ! 1 + word_of_int red_payload_type];
          d = d[header_length := word_of_int payload_type]
      in r\<lparr>red_data := d, red_header_length := header_length + kRedForFecHeaderLength\<rparr>)"

definition SetSeqNum :: "u16 \<Rightarrow> RedPacket \<Rightarrow> RedPacket" where
  "SetSeqNum seq_num r = r\<lparr>red_data := WriteBigEndian2 (red_data r) 2 seq_num\<rparr>"

definition AssignPayload :: "u8 list \<Rightarrow> nat \<Rightarrow> RedPacket \<Rightarrow> RedPacket" where
  "AssignPayload payload len r = r\<lparr>red_data := memcpy_at (red_data r) (red_header_length r) payload len\<rparr>"

definition ClearMarkerBit :: "RedPacket \<Rightarrow> RedPacket" where
  "ClearMarkerBit r = r\<lparr>red_data := (red_data r)[1 := red_data r ! 1 AND 0x7F]\<rparr>"

subsection \<open>The generator\<close>

definition kMaxExcessOverhead :: int where [simp]: "kMaxExcessOverhead = 50"
definition kMinMediaPackets :: nat where [simp]: "kMinMediaPackets = 4"
definition kHighProtectionThreshold :: int where [simp]: "kHighProtectionThreshold = 80"
definition kUnknownSsrc :: u32 where [simp]: "kUnknownSsrc = 0"
definition kUlpfecMaxMediaPackets :: nat where [simp]: "kUlpfecMaxMediaPackets = 48"
definition kRtpMarkerBitMask :: u8 where [simp]: "kRtpMarkerBitMask = 0x80"

record FecProtectionParams =
  fec_rate :: int
  max_fec_frames :: int
  fec_mask_type :: FecMaskType

record UlpfecGenerator =
  gen_fec :: ForwardErrorCorrection
  media_packets :: "Packet list"
  last_media_packet_rtp_header_length :: nat
  generated_packets :: "Packet list"
  num_protected_frames :: int
  min_num_media_packets :: int
  gen_params :: FecProtectionParams
  new_params :: FecProtectionParams

text \<open>\<open>memset\<close> clears the parameters; 0 is the random mask.\<close>

definition zero_params :: FecProtectionParams where
  "zero_params = \<lparr>fec_rate = 0, max_fec_frames = 0, fec_mask_type = kFecMaskRandom\<rparr>"

definition new_UlpfecGenerator :: "ForwardErrorCorrection \<Rightarrow> UlpfecGenerator" where
  "new_UlpfecGenerator fec =
     \<lparr>gen_fec = fec, media_packets = [], last_media_packet_rtp_header_length = 0, generated_packets = [],
      num_protected_frames = 0, min_num_media_packets = 1, gen_params = zero_params, new_params = zero_params\<rparr>"

definition new_UlpfecGenerator_ulpfec :: "u8 list \<Rightarrow> u8 list \<Rightarrow> UlpfecGenerator" where
  "new_UlpfecGenerator_ulpfec masks tmp = new_UlpfecGenerator (CreateUlpfec kUnknownSsrc masks tmp)"

definition SetFecParameters :: "FecProtectionParams \<Rightarrow> UlpfecGenerator \<Rightarrow> UlpfecGenerator" where
  "SetFecParameters ps g =
     g\<lparr>new_params := ps,
       min_num_media_packets := (if fec_rate ps > kHighProtectionThreshold then int kMinMediaPackets else 1)\<rparr>"

definition ResetGenerator :: "UlpfecGenerator \<Rightarrow> UlpfecGenerator" where
  "ResetGenerator g =
     g\<lparr>media_packets := [], last_media_packet_rtp_header_length := 0, generated_packets := [], num_protected_frames := 0\<rparr>"

definition Overhead :: "UlpfecGenerator \<Rightarrow> int" where
  "Overhead g =
     (let num_fec_packets = NumFecPackets (length (media_packets g)) (nat (fec_rate (gen_params g)))
      in int (push_bit 8 num_fec_packets div length (media_packets g)))"

definition ExcessOverheadBelowMax :: "UlpfecGenerator \<Rightarrow> bool" where
  "ExcessOverheadBelowMax g \<longleftrightarrow> Overhead g - fec_rate (gen_params g) < kMaxExcessOverhead"

text \<open>The average number of packets per frame is a single-precision quotient that is compared with 2. With at
  most 48 packets the quotient rounds to a number below 2 exactly when it is below 2.\<close>

definition MinimumMediaPacketsReached :: "UlpfecGenerator \<Rightarrow> bool" where
  "MinimumMediaPacketsReached g \<longleftrightarrow>
     (let num_media_packets = int (length (media_packets g))
      in if num_media_packets < 2 * num_protected_frames g then num_media_packets \<ge> min_num_media_packets g
         else num_media_packets \<ge> min_num_media_packets g + 1)"

definition FecAvailable :: "UlpfecGenerator \<Rightarrow> bool" where
  "FecAvailable g \<longleftrightarrow> generated_packets g \<noteq> []"

definition NumAvailableFecPackets :: "UlpfecGenerator \<Rightarrow> nat" where
  "NumAvailableFecPackets g = length (generated_packets g)"

definition gen_MaxPacketOverhead :: "UlpfecGenerator \<Rightarrow> nat" where
  "gen_MaxPacketOverhead g = w_max_packet_overhead (fec_header_writer (gen_fec g))"

text \<open>The part of \<open>AddRtpPacketAndGenerateFec\<close> that stores the packet.\<close>

definition store_media :: "u8 list \<Rightarrow> nat \<Rightarrow> nat \<Rightarrow> UlpfecGenerator \<Rightarrow> UlpfecGenerator" where
  "store_media data_buffer payload_length rtp_header_length g =
     (let g = (if media_packets g = [] then g\<lparr>gen_params := new_params g\<rparr> else g)
      in if length (media_packets g) < kUlpfecMaxMediaPackets
         then
           let n = payload_length + rtp_header_length;
               packet = \<lparr>pkt_length = n, pkt_data = memcpy_at (pkt_data new_Packet) 0 data_buffer n\<rparr>
           in g\<lparr>media_packets := media_packets g @ [packet], last_media_packet_rtp_header_length := rtp_header_length\<rparr>
         else g)"

definition AddRtpPacketAndGenerateFec :: "u8 list \<Rightarrow> nat \<Rightarrow> nat \<Rightarrow> u8 list \<Rightarrow> UlpfecGenerator \<Rightarrow> (int \<times> UlpfecGenerator) option" where
  "AddRtpPacketAndGenerateFec data_buffer payload_length rtp_header_length buf g =
     (let marker_bit = data_buffer ! 1 AND kRtpMarkerBitMask \<noteq> 0;
          g = store_media data_buffer payload_length rtp_header_length g;
          g = (if marker_bit then g\<lparr>num_protected_frames := num_protected_frames g + 1\<rparr> else g)
      in if marker_bit \<and> (num_protected_frames g = max_fec_frames (gen_params g) \<or> ExcessOverheadBelowMax g \<and> MinimumMediaPacketsReached g)
         then case EncodeFec (media_packets g) (word_of_int (fec_rate (gen_params g))) 0 False (fec_mask_type (gen_params g)) buf (gen_fec g) of
                None \<Rightarrow> None
              | Some (ret, generated, fec) \<Rightarrow>
                  let g = g\<lparr>gen_fec := fec, generated_packets := generated\<rparr>
                  in Some (ret, if generated = [] then ResetGenerator g else g)
         else Some (0, g))"

definition red_packet_of :: "(nat \<Rightarrow> u8) \<Rightarrow> int \<Rightarrow> int \<Rightarrow> UlpfecGenerator \<Rightarrow> Packet \<Rightarrow> u16 \<Rightarrow> RedPacket" where
  "red_packet_of fresh red_payload_type ulpfec_payload_type g fec_packet seq_num =
     (let header_length = last_media_packet_rtp_header_length g;
          r = new_RedPacket fresh (header_length + kRedForFecHeaderLength + pkt_length fec_packet);
          r = CreateHeader (pkt_data (last (media_packets g))) header_length red_payload_type ulpfec_payload_type r;
          r = SetSeqNum seq_num r;
          r = ClearMarkerBit r
      in AssignPayload (pkt_data fec_packet) (pkt_length fec_packet) r)"

definition GetUlpfecPacketsAsRed :: "(nat \<Rightarrow> u8) \<Rightarrow> int \<Rightarrow> int \<Rightarrow> u16 \<Rightarrow> UlpfecGenerator \<Rightarrow> RedPacket list \<times> UlpfecGenerator" where
  "GetUlpfecPacketsAsRed fresh red_payload_type ulpfec_payload_type first_seq_num g =
     (map (\<lambda>(i, p). red_packet_of fresh red_payload_type ulpfec_payload_type g p (first_seq_num + of_nat i)) (enumerate 0 (generated_packets g)),
      ResetGenerator g)"

end
