(* ===== verification/XorSession.thy ===== *)
theory XorSession
  imports UlpfecGen
begin

text \<open>
  What both receivers do around the decoder: after each packet they pass the newly recovered packets to the
  caller and mark them as returned. The theory shows that the decoder does not look at the marks, so that
  the theorems on the decoder carry over, and that every packet the decoder holds was received or passed on.
\<close>

subsection \<open>The decoder does not look at the marks\<close>

definition marked :: "RecoveredPacket \<Rightarrow> RecoveredPacket" where
  "marked r = r\<lparr>returned := True\<rparr>"

lemma marked_simps [simp]: "rec_ssrc (marked r) = rec_ssrc r" "rec_seq_num (marked r) = rec_seq_num r" "rec_pkt (marked r) = rec_pkt r"
  "was_recovered (marked r) = was_recovered r" "returned (marked r)" "marked (marked r) = marked r"
  by (simp_all add: marked_def)

lemma insert_by_map: "(\<And>x. key (f x) = key x) \<Longrightarrow> map f (insert_by key x ys) = insert_by key (f x) (map f ys)"
  by (induction ys) auto

lemma sort_by_map: "(\<And>x. key (f x) = key x) \<Longrightarrow> map f (sort_by key xs) = sort_by key (map f xs)"
  by (induction xs) (simp_all add: sort_by_def insert_by_map)

lemma insert_by_set: "set (insert_by key x ys) = insert x (set ys)"
  by (induction ys) auto

lemma sort_by_set: "set (sort_by key xs) = set xs"
  by (induction xs) (simp_all add: sort_by_def insert_by_set)

lemma sort_marked: "map marked (sort_by rec_seq_num rs) = sort_by rec_seq_num (map marked rs)"
  by (rule sort_by_map) simp

lemma assign_marked: "assign_recovered ps (map marked rs) = assign_recovered ps rs"
  by (induction ps rs rule: assign_recovered.induct) simp_all

lemma list_ex_marked: "list_ex (\<lambda>r. rec_seq_num r = n) (map marked rs) = list_ex (\<lambda>r. rec_seq_num r = n) rs"
  by (induction rs) simp_all

lemma update_marked: "UpdateCoveringFecPackets (marked r) fs = UpdateCoveringFecPackets r fs"
  by (simp add: UpdateCoveringFecPackets_def update_covering_def Let_def)

lemma discard_marked: "map marked (DiscardOldRecoveredPackets s rs) = DiscardOldRecoveredPackets s (map marked rs)"
  by (simp add: DiscardOldRecoveredPackets_def drop_map)

text \<open>An operation on the two lists commutes with forgetting the marks.\<close>

definition blind :: "('a \<times> RecoveredPacket list \<Rightarrow> 'b \<times> RecoveredPacket list) \<Rightarrow> bool" where
  "blind f \<longleftrightarrow> (\<forall>x rs y rs'. f (x, rs) = (y, rs') \<longrightarrow> (\<exists>rs''. f (x, map marked rs) = (y, rs'') \<and> map marked rs'' = map marked rs'))"

lemma blindD: "blind f \<Longrightarrow> f (x, rs) = (y, rs') \<Longrightarrow> \<exists>rs''. f (x, map marked rs) = (y, rs'') \<and> map marked rs'' = map marked rs'"
  unfolding blind_def by blast

lemma blind_eq:
  assumes "blind f" "map marked rs1 = map marked rs2" "f (x, rs1) = (y1, rs1')" "f (x, rs2) = (y2, rs2')"
  shows "y1 = y2 \<and> map marked rs1' = map marked rs2'"
  using blindD [OF assms(1,3)] blindD [OF assms(1,4)] assms(2) by auto

lemma blindI:
  assumes "\<And>x rs. fst (f (x, map marked rs)) = fst (f (x, rs))" "\<And>x rs. map marked (snd (f (x, map marked rs))) = map marked (snd (f (x, rs)))"
  shows "blind f"
  unfolding blind_def using assms by (metis fst_conv snd_conv prod.collapse)

lemma marked_twice [simp]: "marked \<circ> marked = marked"
  by (simp add: fun_eq_iff)

lemma insert_media_blind: "blind (InsertMediaPacket a)"
  by (rule blindI) (simp_all add: InsertMediaPacket_def list_ex_marked Let_def sort_marked)

lemma insert_fec_marked: "InsertFecPacket (map marked rs) a s = InsertFecPacket rs a s"
proof -
  have "AssignRecoveredPackets (map marked rs) = AssignRecoveredPackets rs"
    by (simp add: fun_eq_iff AssignRecoveredPackets_def assign_marked)
  then show ?thesis by (simp only: InsertFecPacket_def)
qed

lemma insert_blind: "blind (InsertPacket a)"
proof (rule blindI)
  fix s :: ForwardErrorCorrection and rs :: "RecoveredPacket list"
  let ?fs = "received_fec_packets s"
  let ?fs' = "if ?fs \<noteq> [] \<and> rcv_ssrc a = fec_ssrc (hd ?fs) \<and> is_fec a
     then dropWhile (\<lambda>f. MinDiff 0 (rcv_seq_num a) (fec_seq_num f) > 0x3fff) ?fs else ?fs"
  obtain g rs1 where m1: "InsertMediaPacket a (?fs', rs) = (g, rs1)" by fastforce
  obtain rs2 where m2: "InsertMediaPacket a (?fs', map marked rs) = (g, rs2)" "map marked rs2 = map marked rs1"
    using blindD [OF insert_media_blind m1] by blast
  show "fst (InsertPacket a (s, map marked rs)) = fst (InsertPacket a (s, rs))"
    unfolding InsertPacket_def prod.case Let_def received_fec_packets_def [symmetric]
    using m1 m2 by (cases "is_fec a") (simp_all add: insert_fec_marked split del: if_split)
  show "map marked (snd (InsertPacket a (s, map marked rs))) = map marked (snd (InsertPacket a (s, rs)))"
    unfolding InsertPacket_def prod.case Let_def
    using m1 m2 by (cases "is_fec a") (simp_all add: insert_fec_marked discard_marked split del: if_split)
qed

lemma attempt_loop_marked:
  "map marked rs1 = map marked rs2 \<Longrightarrow> fst (attempt_loop s i fs rs1) = fst (attempt_loop s i fs rs2) \<and>
     map marked (snd (attempt_loop s i fs rs1)) = map marked (snd (attempt_loop s i fs rs2))"
proof (induction s i fs rs1 arbitrary: rs2 rule: attempt_loop.induct)
  case (1 s i fs rs1)
  show ?case
  proof (cases "i < length fs")
    case False
    then show ?thesis using 1 by (simp add: attempt_loop.simps [of s i fs])
  next
    case True
    let ?n = "NumCoveredPacketsMissing (fs ! i)"
    consider (none) "?n = 1" "RecoverPacket (fs ! i) = None" | (some) r where "?n = 1" "RecoverPacket (fs ! i) = Some r"
      | (zero) "?n = 0" | (many) "?n \<noteq> 1" "?n \<noteq> 0" by fastforce
    then show ?thesis
    proof cases
      case none
      then show ?thesis
        using "1.IH"(1) [OF True refl none "1.prems"] True by (simp add: attempt_loop.simps [of s i fs])
    next
      case (some r)
      let ?d = "\<lambda>rs. DiscardOldRecoveredPackets s (sort_by rec_seq_num (rs @ [r]))"
      have "map marked (?d rs1) = map marked (?d rs2)"
        using "1.prems" by (simp add: discard_marked sort_marked)
      from "1.IH"(2) [OF True refl some this] show ?thesis
        using True some by (simp add: attempt_loop.simps [of s i fs])
    next
      case zero
      then show ?thesis
        using "1.IH"(3) [OF True refl _ zero "1.prems"] True by (simp add: attempt_loop.simps [of s i fs])
    next
      case many
      then show ?thesis
        using "1.IH"(4) [OF True refl many "1.prems"] True by (simp add: attempt_loop.simps [of s i fs])
    qed
  qed
qed

lemma attempt_blind: "blind AttemptRecovery"
proof (rule blindI)
  fix s :: ForwardErrorCorrection and rs :: "RecoveredPacket list"
  have "map marked (map marked rs) = map marked rs" by simp
  note same = attempt_loop_marked [OF this, of s 0 "received_fec_packets s"]
  show "fst (AttemptRecovery (s, map marked rs)) = fst (AttemptRecovery (s, rs))"
    "map marked (snd (AttemptRecovery (s, map marked rs))) = map marked (snd (AttemptRecovery (s, rs)))"
    using same by (simp_all add: AttemptRecovery_def case_prod_beta)
qed

text \<open>The condition under which \<open>DecodeFec\<close> starts again.\<close>

definition reset_due :: "ReceivedPacket \<Rightarrow> ForwardErrorCorrection \<Rightarrow> RecoveredPacket list \<Rightarrow> bool" where
  "reset_due a s rs \<longleftrightarrow> length rs = r_max_media_packets (fec_header_reader s) \<and> rcv_ssrc a = rec_ssrc (last rs) \<and> \<not> is_fec a \<and>
     unat (MinDiff 0 (rcv_seq_num a) (rec_seq_num (last rs))) > r_max_media_packets (fec_header_reader s)"

lemma DecodeFec_unfold:
  "DecodeFec a (s, rs) = AttemptRecovery (InsertPacket a (if reset_due a s rs then ResetState (s, rs) else (s, rs)))"
  by (auto simp: DecodeFec_def Let_def reset_due_def)

lemma reset_due_marked: "reset_due a s (map marked rs) = reset_due a s rs"
  by (cases "rs = []") (simp_all add: reset_due_def last_map)

lemma decode_blind: "blind (DecodeFec a)"
  unfolding blind_def
proof (intro allI impI)
  fix s :: ForwardErrorCorrection and rs s' rs'
  assume run: "DecodeFec a (s, rs) = (s', rs')"
  show "\<exists>rs''. DecodeFec a (s, map marked rs) = (s', rs'') \<and> map marked rs'' = map marked rs'"
  proof (cases "reset_due a s rs")
    case True
    then have "DecodeFec a (s, map marked rs) = (s', rs')"
      using run by (simp add: DecodeFec_unfold reset_due_marked ResetState_def)
    then show ?thesis by blast
  next
    case False
    obtain s1 rs1 where i: "InsertPacket a (s, rs) = (s1, rs1)" by fastforce
    obtain rs2 where i2: "InsertPacket a (s, map marked rs) = (s1, rs2)" "map marked rs2 = map marked rs1"
      using blindD [OF insert_blind i] by blast
    obtain s3 rs3 where a2: "AttemptRecovery (s1, rs2) = (s3, rs3)" by fastforce
    have "AttemptRecovery (s1, rs1) = (s', rs')" using run False i by (simp add: DecodeFec_unfold)
    from blind_eq [OF attempt_blind i2(2) a2 this] have "s3 = s'" "map marked rs3 = map marked rs'" by simp_all
    then show ?thesis using a2 i2(1) False by (simp add: DecodeFec_unfold reset_due_marked)
  qed
qed

subsection \<open>Where the packets come from\<close>

lemma insert_media_source:
  "InsertMediaPacket a (fs, rs) = (fs', rs') \<Longrightarrow> r \<in> set rs' \<Longrightarrow> r \<in> set rs \<or> rec_pkt r = rcv_pkt a"
  by (auto simp: InsertMediaPacket_def Let_def sort_by_set split: if_splits)

lemma discard_subset: "set (DiscardOldRecoveredPackets s rs) \<subseteq> set rs"
  by (simp add: DiscardOldRecoveredPackets_def set_drop_subset)

lemma insert_source:
  "InsertPacket a (s, rs) = (s', rs') \<Longrightarrow> r \<in> set rs' \<Longrightarrow> r \<in> set rs \<or> \<not> is_fec a \<and> rec_pkt r = rcv_pkt a"
  using discard_subset
  by (cases "is_fec a") (fastforce simp: InsertPacket_def Let_def dest: insert_media_source split: prod.splits)+

lemma recovered_unmarked: "RecoverPacket f = Some r \<Longrightarrow> \<not> returned r"
  by (auto simp: RecoverPacket_def split: option.splits prod.splits)

lemma attempt_loop_source: "r \<in> set (snd (attempt_loop s i fs rs)) \<Longrightarrow> r \<in> set rs \<or> \<not> returned r"
proof (induction s i fs rs rule: attempt_loop.induct)
  case (1 s i fs rs)
  show ?case
  proof (cases "i < length fs")
    case False
    then show ?thesis using "1.prems" by (simp add: attempt_loop.simps [of s i fs])
  next
    case True
    let ?n = "NumCoveredPacketsMissing (fs ! i)"
    consider (none) "?n = 1" "RecoverPacket (fs ! i) = None" | (some) r' where "?n = 1" "RecoverPacket (fs ! i) = Some r'"
      | (zero) "?n = 0" | (many) "?n \<noteq> 1" "?n \<noteq> 0" by fastforce
    then show ?thesis
    proof cases
      case none
      then show ?thesis using "1.IH"(1) [OF True refl none] "1.prems" True by (simp add: attempt_loop.simps [of s i fs])
    next
      case (some r')
      then have "r \<in> set (DiscardOldRecoveredPackets s (sort_by rec_seq_num (rs @ [r']))) \<or> \<not> returned r"
        using "1.IH"(2) [OF True refl some] "1.prems" True by (simp add: attempt_loop.simps [of s i fs])
      then show ?thesis using recovered_unmarked [OF some(2)] discard_subset [of s "sort_by rec_seq_num (rs @ [r'])"] by (auto simp: sort_by_set)
    next
      case zero
      then show ?thesis using "1.IH"(3) [OF True refl _ zero] "1.prems" True by (simp add: attempt_loop.simps [of s i fs])
    next
      case many
      then show ?thesis using "1.IH"(4) [OF True refl many] "1.prems" True by (simp add: attempt_loop.simps [of s i fs])
    qed
  qed
qed

lemma decode_source:
  assumes "DecodeFec a (s, rs) = (s', rs')" "r \<in> set rs'"
  shows "r \<in> set rs \<or> \<not> is_fec a \<and> rec_pkt r = rcv_pkt a \<or> \<not> returned r"
proof -
  define x where "x = (if reset_due a s rs then ResetState (s, rs) else (s, rs))"
  have x: "set (snd x) \<subseteq> set rs" "DecodeFec a (s, rs) = AttemptRecovery (InsertPacket a x)"
    by (simp_all add: x_def DecodeFec_unfold ResetState_def)
  obtain s1 rs1 where i: "InsertPacket a x = (s1, rs1)" by fastforce
  have "r \<in> set rs1 \<or> \<not> returned r"
    using assms attempt_loop_source [of r s1 0 "received_fec_packets s1" rs1] by (simp add: x(2) i AttemptRecovery_def split: prod.splits)
  then show ?thesis using insert_source [of a "fst x" "snd x" s1 rs1 r] i x(1) by auto
qed

subsection \<open>Passing on what was recovered\<close>

text \<open>The loop of the receivers over the recovered packets: the packets passed to the caller, in order, and the
  list with all marks set.\<close>

definition return_recovered :: "RecoveredPacket list \<Rightarrow> Packet list \<times> RecoveredPacket list" where
  "return_recovered rs = (map rec_pkt (filter (\<lambda>r. \<not> returned r) rs), map marked rs)"

text \<open>A run of a receiver: the decoder and this loop for every packet.\<close>

fun deliver_all :: "ReceivedPacket list \<Rightarrow> ForwardErrorCorrection \<times> RecoveredPacket list \<Rightarrow> Packet list \<times> ForwardErrorCorrection \<times> RecoveredPacket list" where
  "deliver_all [] st = ([], st)"
| "deliver_all (a # as) st =
     (case DecodeFec a st of (s, rs) \<Rightarrow>
        case return_recovered rs of (out, rs) \<Rightarrow>
          case deliver_all as (s, rs) of (outs, st) \<Rightarrow> (out @ outs, st))"

lemma deliver_append:
  "deliver_all (as @ bs) st = (case deliver_all as st of (o1, st1) \<Rightarrow> case deliver_all bs st1 of (o2, st2) \<Rightarrow> (o1 @ o2, st2))"
  by (induction as arbitrary: st) (auto split: prod.splits)

lemma got_marked: "got (map marked rs) = got rs"
  by (simp add: got_def image_image)

lemma got_eq: "map marked rs = map marked rs' \<Longrightarrow> got rs = got rs'"
  by (metis got_marked)

lemma deliver_inv:
  assumes "deliver_all as (s, []) = (outs, s', rs)"
  shows "\<exists>rs0. fold DecodeFec as (s, []) = (s', rs0) \<and> rs = map marked rs0 \<and>
    got rs0 \<subseteq> rcv_pkt ` {a \<in> set as. \<not> is_fec a} \<union> set outs \<and>
    (\<forall>p\<in>set outs. \<exists>n\<le>length as. p \<in> got (snd (fold DecodeFec (take n as) (s, []))))"
  using assms
proof (induction as arbitrary: outs s' rs rule: rev_induct)
  case Nil
  then show ?case by (simp add: got_def)
next
  case (snoc a as)
  obtain outs1 s1 rs1 where run1: "deliver_all as (s, []) = (outs1, s1, rs1)" by (metis prod_cases3)
  obtain rs0 where ih: "fold DecodeFec as (s, []) = (s1, rs0)" "rs1 = map marked rs0"
      "got rs0 \<subseteq> rcv_pkt ` {a \<in> set as. \<not> is_fec a} \<union> set outs1"
      "\<forall>p\<in>set outs1. \<exists>n\<le>length as. p \<in> got (snd (fold DecodeFec (take n as) (s, [])))"
    using snoc.IH [OF run1] by blast
  obtain s2 rs2 where d: "DecodeFec a (s1, rs0) = (s2, rs2)" by fastforce
  obtain rs3 where d3: "DecodeFec a (s1, rs1) = (s2, rs3)" "map marked rs3 = map marked rs2"
    using blindD [OF decode_blind d] ih(2) by blast
  have res: "outs = outs1 @ map rec_pkt (filter (\<lambda>r. \<not> returned r) rs3)" "s' = s2" "rs = map marked rs3"
    using snoc.prems by (simp_all add: deliver_append run1 d3(1) return_recovered_def)
  have final: "fold DecodeFec (as @ [a]) (s, []) = (s2, rs2)" using ih(1) d by simp
  have same: "got rs3 = got rs2" by (rule got_eq [OF d3(2)])
  have "p \<in> rcv_pkt ` {b \<in> set (as @ [a]). \<not> is_fec b} \<union> set outs" if pp: "p \<in> got rs3" for p
  proof -
    obtain r where r: "r \<in> set rs3" "p = rec_pkt r" using pp by (auto simp: got_def)
    consider "r \<in> set rs1" | "\<not> is_fec a" "rec_pkt r = rcv_pkt a" | "\<not> returned r" using decode_source [OF d3(1) r(1)] by blast
    then show ?thesis
    proof cases
      case 1
      then have "p \<in> got rs0" using r(2) by (auto simp: ih(2) got_def)
      then show ?thesis using ih(3) by (auto simp: res(1))
    next
      case 2
      then show ?thesis using r(2) by auto
    next
      case 3
      then have "rec_pkt r \<in> set outs" using r(1) by (auto simp: res(1))
      then show ?thesis using r(2) by simp
    qed
  qed
  moreover have "\<exists>n\<le>length (as @ [a]). p \<in> got (snd (fold DecodeFec (take n (as @ [a])) (s, [])))" if p: "p \<in> set outs" for p
  proof (cases "p \<in> set outs1")
    case True
    then obtain n where "n \<le> length as" "p \<in> got (snd (fold DecodeFec (take n as) (s, [])))" using ih(4) by blast
    then show ?thesis by (intro exI [of _ n]) simp
  next
    case False
    then have "p \<in> got rs3" using p by (auto simp: res(1) got_def)
    then show ?thesis unfolding same using final by (intro exI [of _ "length (as @ [a])"]) simp
  qed
  ultimately show ?case using final same res d3(2) by auto
qed

text \<open>One loss in a block is repaired, seen from the caller of the receiver: every packet of the block arrives or
  is passed on, and nothing else is passed on.\<close>

lemma deliver_block:
  assumes "\<forall>as n0 d' rs. arrivals_ok ps fs fecs (\<lambda>i. n0 + of_nat i) N as \<and> fold DecodeFec as (d, []) = (d', rs) \<longrightarrow>
       recs_ok ps rs \<and> (\<forall>x. set ps - {x} \<subseteq> rcv_pkt ` {a \<in> set as. \<not> is_fec a} \<and>
         (\<forall>i\<in>N. \<exists>a\<in>set as. fec_arrival fecs (\<lambda>i. n0 + of_nat i) N i a) \<longrightarrow> got rs = set ps)"
    and "arrivals_ok ps fs fecs (\<lambda>i. n0 + of_nat i) N as" "deliver_all as (d, []) = (outs, st)"
  shows "set outs \<subseteq> set ps"
    and "set ps - {x} \<subseteq> rcv_pkt ` {a \<in> set as. \<not> is_fec a} \<Longrightarrow> \<forall>i\<in>N. \<exists>a\<in>set as. fec_arrival fecs (\<lambda>i. n0 + of_nat i) N i a \<Longrightarrow>
      p \<in> set ps \<Longrightarrow> p \<in> rcv_pkt ` {a \<in> set as. \<not> is_fec a} \<union> set outs"
proof -
  obtain s' rs where st: "st = (s', rs)" by fastforce
  obtain rs0 where inv: "fold DecodeFec as (d, []) = (s', rs0)" "got rs0 \<subseteq> rcv_pkt ` {a \<in> set as. \<not> is_fec a} \<union> set outs"
      "\<forall>p\<in>set outs. \<exists>n\<le>length as. p \<in> got (snd (fold DecodeFec (take n as) (d, [])))"
    using deliver_inv [OF assms(3) [unfolded st]] by blast
  have "got (snd (fold DecodeFec (take n as) (d, []))) \<subseteq> set ps" for n
  proof -
    have "arrivals_ok ps fs fecs (\<lambda>i. n0 + of_nat i) N (take n as)" using assms(2) by (auto simp: arrivals_ok_def dest: in_set_takeD)
    moreover obtain d2 rs2 where f: "fold DecodeFec (take n as) (d, []) = (d2, rs2)" by fastforce
    ultimately have "recs_ok ps rs2" using assms(1) by blast
    then show ?thesis by (auto simp: f recs_ok_def got_def)
  qed
  then show "set outs \<subseteq> set ps" using inv(3) by blast
  show "p \<in> rcv_pkt ` {a \<in> set as. \<not> is_fec a} \<union> set outs"
    if "set ps - {x} \<subseteq> rcv_pkt ` {a \<in> set as. \<not> is_fec a}" "\<forall>i\<in>N. \<exists>a\<in>set as. fec_arrival fecs (\<lambda>i. n0 + of_nat i) N i a" "p \<in> set ps"
    using assms(1,2) inv(1,2) that by blast
qed

end
