(* ===== verification/XorSafe.thy ===== *)
theory XorSafe
  imports XorSession
begin

text \<open>
  The decoder is safe on packets that nobody sent: its lists stay within their limits and the exclusive or of
  payloads stays inside the arrays, whose ends the code guards by debug assertions only.
\<close>

subsection \<open>The assertions of XorPayloads\<close>

text \<open>The debug assertions of \<open>XorPayloads\<close> in the calls that \<open>RecoverPacket\<close> makes: the other packets are
  added at the length of the header, with their whole length, and must fit both arrays.\<close>

definition payloads_fit :: "ReceivedFecPacket \<Rightarrow> bool" where
  "payloads_fit f \<longleftrightarrow>
     list_all (\<lambda>q. case pp_pkt q of None \<Rightarrow> True | Some r \<Rightarrow> kRtpHeaderSize + pkt_length r \<le> IP_PACKET_SIZE) (protected_packets f)"

text \<open>The FEC packets that the loop passes to \<open>RecoverPacket\<close>, in order.\<close>

function recover_calls :: "ForwardErrorCorrection \<Rightarrow> nat \<Rightarrow> ReceivedFecPacket list \<Rightarrow> RecoveredPacket list \<Rightarrow> ReceivedFecPacket list" where
  "recover_calls s i fs rs =
     (if i < length fs
      then
        let missing = NumCoveredPacketsMissing (fs ! i)
        in if missing = 1
           then fs ! i #
                (case RecoverPacket (fs ! i) of
                   None \<Rightarrow> recover_calls s i (erase_at i fs) rs
                 | Some r \<Rightarrow>
                     recover_calls s 0 (erase_at i (UpdateCoveringFecPackets r fs))
                       (DiscardOldRecoveredPackets s (sort_by rec_seq_num (rs @ [r]))))
           else if missing = 0 then recover_calls s i (erase_at i fs) rs
           else recover_calls s (i + 1) fs rs
      else [])"
  by pat_completeness auto
termination
  by (relation "measures [\<lambda>(s, i, fs, rs). length fs, \<lambda>(s, i, fs, rs). length fs - i]") (auto simp: erase_at_length UpdateCoveringFecPackets_def)

declare recover_calls.simps [simp del]

definition decode_calls :: "ReceivedPacket \<Rightarrow> ForwardErrorCorrection \<times> RecoveredPacket list \<Rightarrow> ReceivedFecPacket list" where
  "decode_calls a st =
     (case InsertPacket a (if reset_due a (fst st) (snd st) then ResetState st else st) of
        (s, rs) \<Rightarrow> recover_calls s 0 (received_fec_packets s) rs)"

text \<open>All packets that the decoder holds fit.\<close>

definition held_fit :: "ReceivedFecPacket list \<Rightarrow> RecoveredPacket list \<Rightarrow> bool" where
  "held_fit fs rs \<longleftrightarrow> (\<forall>f\<in>set fs. payloads_fit f) \<and> (\<forall>r\<in>set rs. pkt_length (rec_pkt r) \<le> 1488)"

lemma recovered_fits: "RecoverPacket f = Some r \<Longrightarrow> pkt_length (rec_pkt r) \<le> 1488"
  by (auto simp: RecoverPacket_def FinishPacketRecovery_def Let_def split: option.splits prod.splits if_splits)

lemma update_fits: "payloads_fit f \<Longrightarrow> pkt_length (rec_pkt r) \<le> 1488 \<Longrightarrow> payloads_fit (update_covering r f)"
  unfolding payloads_fit_def update_covering_def Let_def list_all_iff
  by (auto dest!: set_update_subset_insert [THEN subsetD])

lemma update_all_fit: "\<forall>f\<in>set fs. payloads_fit f \<Longrightarrow> pkt_length (rec_pkt r) \<le> 1488 \<Longrightarrow> \<forall>f\<in>set (UpdateCoveringFecPackets r fs). payloads_fit f"
  using update_fits by (auto simp: UpdateCoveringFecPackets_def)

lemma erase_at_subset: "set (erase_at i fs) \<subseteq> set fs"
  by (auto simp: erase_at_def dest: in_set_takeD in_set_dropD)

lemma attempt_fits:
  assumes "held_fit fs rs" "attempt_loop s i fs rs = (fs', rs')"
  shows "held_fit fs' rs' \<and> (\<forall>f\<in>set (recover_calls s i fs rs). payloads_fit f)"
  using assms
proof (induction s i fs rs rule: attempt_loop.induct)
  case (1 s i fs rs)
  let ?n = "NumCoveredPacketsMissing (fs ! i)"
  note fit = "1.prems"(1) and loop = "1.prems"(2)
  show ?case
  proof (cases "i < length fs")
    case False
    then have "recover_calls s i fs rs = []" "fs' = fs \<and> rs' = rs"
      using loop by (simp add: recover_calls.simps [of s i fs], auto simp: attempt_loop.simps [of s i fs])
    then show ?thesis using fit by simp
  next
    case i: True
    have f: "payloads_fit (fs ! i)" using fit i by (simp add: held_fit_def)
    have erased: "held_fit (erase_at i fs) rs" using fit erase_at_subset [of i fs] by (auto simp: held_fit_def)
    consider (one) "?n = 1" | (none) "?n = 0" | (more) "1 < ?n" by linarith
    then show ?thesis
    proof cases
      case one
      show ?thesis
      proof (cases "RecoverPacket (fs ! i)")
        case None
        then have "attempt_loop s i (erase_at i fs) rs = (fs', rs')" using loop i one by (simp add: attempt_loop.simps [of s i fs])
        from "1.IH"(1) [OF i refl one None erased this] f i one None show ?thesis by (simp add: recover_calls.simps [of s i fs])
      next
        case (Some r)
        let ?fs = "erase_at i (UpdateCoveringFecPackets r fs)" and ?rs = "DiscardOldRecoveredPackets s (sort_by rec_seq_num (rs @ [r]))"
        have run: "attempt_loop s 0 ?fs ?rs = (fs', rs')" using loop i one Some by (simp add: attempt_loop.simps [of s i fs])
        have r: "pkt_length (rec_pkt r) \<le> 1488" by (rule recovered_fits [OF Some])
        have "held_fit ?fs ?rs"
          unfolding held_fit_def
        proof
          show "\<forall>f\<in>set ?fs. payloads_fit f"
            using update_all_fit [OF _ r, of fs] fit erase_at_subset by (fastforce simp: held_fit_def)
          show "\<forall>r\<in>set ?rs. pkt_length (rec_pkt r) \<le> 1488"
            using discard_subset [of s "sort_by rec_seq_num (rs @ [r])"] fit r by (auto simp: sort_by_set held_fit_def)
        qed
        from "1.IH"(2) [OF i refl one Some this run] f i one Some show ?thesis by (simp add: recover_calls.simps [of s i fs])
      qed
    next
      case none
      have n1: "?n \<noteq> 1" using none by simp
      have "attempt_loop s i (erase_at i fs) rs = (fs', rs')" using loop i none by (simp add: attempt_loop.simps [of s i fs])
      from "1.IH"(3) [OF i refl n1 none erased this] i none show ?thesis by (simp add: recover_calls.simps [of s i fs])
    next
      case more
      have n: "?n \<noteq> 1" "?n \<noteq> 0" using more by linarith+
      have "attempt_loop s (i + 1) fs rs = (fs', rs')" using loop i more by (simp add: attempt_loop.simps [of s i fs])
      from "1.IH"(4) [OF i refl n fit this] i n show ?thesis by (simp add: recover_calls.simps [of s i fs])
    qed
  qed
qed

lemma assign_fits: "\<forall>q\<in>set ps. pp_pkt q = None \<Longrightarrow> \<forall>r\<in>set rs. pkt_length (rec_pkt r) \<le> 1488 \<Longrightarrow>
    \<forall>q\<in>set (assign_recovered ps rs). case pp_pkt q of None \<Rightarrow> True | Some r \<Rightarrow> kRtpHeaderSize + pkt_length r \<le> IP_PACKET_SIZE"
  by (induction ps rs rule: assign_recovered.induct) auto

lemma parse_mask_none: "\<forall>q\<in>set (parse_mask ms f). pp_pkt q = None"
  by (auto simp: parse_mask_def Let_def)

lemma in_set_tl: "x \<in> set (tl xs) \<Longrightarrow> x \<in> set xs"
  by (cases xs) auto

lemma insert_fec_fits:
  assumes "held_fit (received_fec_packets s) rs"
  shows "\<forall>f\<in>set (received_fec_packets (InsertFecPacket rs a s)). payloads_fit f"
proof -
  have "payloads_fit (AssignRecoveredPackets rs (f\<lparr>protected_packets := parse_mask ms f\<rparr>))" for f ms
    using assign_fits [OF parse_mask_none, of rs] assms by (simp add: payloads_fit_def list_all_iff AssignRecoveredPackets_def held_fit_def)
  then show ?thesis
    using assms by (auto simp: InsertFecPacket_def Let_def held_fit_def sort_by_set dest!: in_set_tl split: option.split)
qed

lemma insert_fits:
  assumes "held_fit (received_fec_packets s) rs" "is_fec a \<or> pkt_length (rcv_pkt a) \<le> 1488" "InsertPacket a (s, rs) = (s', rs')"
  shows "held_fit (received_fec_packets s') rs'"
proof -
  let ?fs = "if received_fec_packets s \<noteq> [] \<and> rcv_ssrc a = fec_ssrc (hd (received_fec_packets s)) \<and> is_fec a
      then dropWhile (\<lambda>f. MinDiff 0 (rcv_seq_num a) (fec_seq_num f) > 0x3fff) (received_fec_packets s) else received_fec_packets s"
  let ?s = "s\<lparr>received_fec_packets := ?fs\<rparr>"
  have fs: "held_fit (received_fec_packets ?s) rs" using assms(1) by (auto simp: held_fit_def dest: set_dropWhileD)
  show ?thesis
  proof (cases "is_fec a")
    case True
    then have "s' = InsertFecPacket rs a ?s" "rs' = DiscardOldRecoveredPackets s' rs"
      using assms(3) by (auto simp: InsertPacket_def Let_def)
    then show ?thesis using insert_fec_fits [OF fs, of a] assms(1) discard_subset by (fastforce simp: held_fit_def)
  next
    case False
    obtain fs1 rs1 where i: "InsertMediaPacket a (received_fec_packets s, rs) = (fs1, rs1)" by fastforce
    let ?r = "\<lparr>rec_ssrc = rcv_ssrc a, rec_seq_num = rcv_seq_num a, was_recovered = False, returned = True, rec_pkt = rcv_pkt a\<rparr>"
    have r: "pkt_length (rec_pkt ?r) \<le> 1488" using assms(2) False by simp
    have "\<forall>f\<in>set (UpdateCoveringFecPackets ?r (received_fec_packets s)). payloads_fit f"
      by (rule update_all_fit [OF _ r]) (use assms(1) in \<open>simp add: held_fit_def\<close>)
    then have "held_fit (UpdateCoveringFecPackets ?r (received_fec_packets s)) (sort_by rec_seq_num (rs @ [?r]))"
      using assms(1) r by (auto simp: held_fit_def sort_by_set)
    then have "held_fit fs1 rs1"
      using i assms(1) by (auto simp: InsertMediaPacket_def Let_def split: if_splits)
    moreover have "s' = s\<lparr>received_fec_packets := fs1\<rparr>" "rs' = DiscardOldRecoveredPackets s' rs1"
      using assms(3) i False by (auto simp: InsertPacket_def Let_def)
    ultimately show ?thesis using discard_subset [of s' rs1] by (auto simp: held_fit_def)
  qed
qed

lemma decode_fits:
  assumes "held_fit (received_fec_packets s) rs" "is_fec a \<or> pkt_length (rcv_pkt a) \<le> 1488" "DecodeFec a (s, rs) = (s', rs')"
  shows "held_fit (received_fec_packets s') rs' \<and> (\<forall>f\<in>set (decode_calls a (s, rs)). payloads_fit f)"
proof -
  let ?st = "if reset_due a s rs then ResetState (s, rs) else (s, rs)"
  obtain s0 rs0 where st: "?st = (s0, rs0)" by fastforce
  have f0: "held_fit (received_fec_packets s0) rs0" using assms(1) st by (auto simp: ResetState_def held_fit_def split: if_splits)
  obtain s1 rs1 where i: "InsertPacket a (s0, rs0) = (s1, rs1)" by fastforce
  have f1: "held_fit (received_fec_packets s1) rs1" by (rule insert_fits [OF f0 assms(2) i])
  obtain fs' where loop: "attempt_loop s1 0 (received_fec_packets s1) rs1 = (fs', rs')" "s' = s1\<lparr>received_fec_packets := fs'\<rparr>"
    using assms(3) unfolding DecodeFec_unfold st i by (auto simp: AttemptRecovery_def split: prod.splits)
  have "decode_calls a (s, rs) = recover_calls s1 0 (received_fec_packets s1) rs1"
    unfolding decode_calls_def fst_conv snd_conv st i by simp
  then show ?thesis using attempt_fits [OF f1 loop(1)] loop(2) by simp
qed

subsection \<open>Safety of the decoder\<close>

text \<open>C18: on any FEC packet, forged ones included, and on any media packet of at most 1488 bytes, \<open>DecodeFec\<close>
  ends, keeps at most as many recovered and FEC packets as the format allows and leaves no FEC packet that misses
  fewer than two packets. Nothing it holds is then too long: the debug assertions of \<open>XorPayloads\<close> hold in every
  call on the way, and the exclusive or stays inside the arrays of 1500 bytes.\<close>

theorem decoder_bounded:
  assumes "length (received_fec_packets s) \<le> r_max_fec_packets (fec_header_reader s)"
    and "held_fit (received_fec_packets s) rs" "is_fec a \<or> pkt_length (rcv_pkt a) \<le> 1488" "DecodeFec a (s, rs) = (s', rs')"
  shows "length rs' \<le> r_max_media_packets (fec_header_reader s) \<and>
    length (received_fec_packets s') \<le> r_max_fec_packets (fec_header_reader s) \<and>
    fec_header_reader s' = fec_header_reader s \<and> (\<forall>f\<in>set (received_fec_packets s'). 1 < NumCoveredPacketsMissing f) \<and>
    held_fit (received_fec_packets s') rs' \<and> (\<forall>f\<in>set (decode_calls a (s, rs)). payloads_fit f)"
proof -
  obtain st where st: "DecodeFec a (s, rs) = AttemptRecovery (InsertPacket a st)" "st = (s, rs) \<or> st = ResetState (s, rs)"
    unfolding DecodeFec_def Let_def by auto
  obtain s0 rs0 where st0: "st = (s0, rs0)" by fastforce
  have s0: "fec_header_reader s0 = fec_header_reader s" "length (received_fec_packets s0) \<le> r_max_fec_packets (fec_header_reader s0)"
    using st(2) assms(1) st0 by (auto simp: ResetState_def)
  obtain s1 rs1 where ins: "InsertPacket a (s0, rs0) = (s1, rs1)" by fastforce
  note b = insert_bounded [OF s0(2) ins]
  obtain fs' where loop: "attempt_loop s1 0 (received_fec_packets s1) rs1 = (fs', rs')" "s' = s1\<lparr>received_fec_packets := fs'\<rparr>"
    using assms(4) st(1) ins st0 by (auto simp: AttemptRecovery_def split: prod.splits)
  from attempt_bounded [OF _ _ loop(1)] b s0(1) loop(2) decode_fits [OF assms(2,3,4)] show ?thesis by auto
qed

theorem decoder_bounded_witness:
  "length (received_fec_packets (fst (DecodeFec (ex_media 5 1) (ex_encoder FlexfecHeaderWriter FlexfecHeaderReader, [])))) \<le> 48"
proof -
  let ?s = "ex_encoder FlexfecHeaderWriter FlexfecHeaderReader"
  obtain s' rs' where d: "DecodeFec (ex_media 5 1) (?s, []) = (s', rs')" by fastforce
  have s: "length (received_fec_packets ?s) \<le> r_max_fec_packets (fec_header_reader ?s)" "held_fit (received_fec_packets ?s) []"
    "fec_header_reader ?s = FlexfecHeaderReader"
    by (simp_all add: ex_encoder_def new_ForwardErrorCorrection_def held_fit_def)
  have "is_fec (ex_media 5 1) \<or> pkt_length (rcv_pkt (ex_media 5 1)) \<le> 1488" by (simp add: ex_media_def ex_packet_def)
  from decoder_bounded [OF s(1,2) this d] show ?thesis using s(3) d flexfec.limits by simp
qed

end
