(* ===== verification/RtpPacket.thy ===== *)
theory RtpPacket
  imports FecHeader
begin

text \<open>
  RTP packets: \<open>rtp_packet.cc\<close> with the buffers of \<open>copy_on_write_buffer.h\<close> and \<open>buffer.h\<close> under it and the
  registry of header extensions, \<open>rtp_header_extension_map.cc\<close>. A buffer is the whole storage, whose length is
  the capacity, with the number of bytes in use; buffers that share their storage until one of them is written
  are values. New storage is not initialised: \<open>fresh i\<close> is what its byte \<open>i\<close> holds. A fatal check
  (\<open>RTC_CHECK\<close>) that fails is \<open>None\<close>.
\<close>

subsection \<open>Buffers\<close>

record CopyOnWriteBuffer =
  buf_data :: "u8 list"
  buf_size :: nat

definition new_Buffer :: "(nat \<Rightarrow> u8) \<Rightarrow> nat \<Rightarrow> CopyOnWriteBuffer" where
  "new_Buffer fresh n = \<lparr>buf_data = map fresh [0..<n], buf_size = n\<rparr>"

definition buf_capacity :: "CopyOnWriteBuffer \<Rightarrow> nat" where
  "buf_capacity b = length (buf_data b)"

definition EnsureCapacityWithHeadroom :: "(nat \<Rightarrow> u8) \<Rightarrow> nat \<Rightarrow> bool \<Rightarrow> CopyOnWriteBuffer \<Rightarrow> CopyOnWriteBuffer" where
  "EnsureCapacityWithHeadroom fresh n extra_headroom b =
     (if n \<le> buf_capacity b then b
      else let new_capacity = (if extra_headroom then max n (buf_capacity b + buf_capacity b div 2) else n)
           in b\<lparr>buf_data := memcpy_at (map fresh [0..<new_capacity]) 0 (buf_data b) (buf_size b)\<rparr>)"

definition buf_SetSize :: "(nat \<Rightarrow> u8) \<Rightarrow> nat \<Rightarrow> CopyOnWriteBuffer \<Rightarrow> CopyOnWriteBuffer" where
  "buf_SetSize fresh n b = (EnsureCapacityWithHeadroom fresh n True b)\<lparr>buf_size := n\<rparr>"

definition buf_AppendData :: "(nat \<Rightarrow> u8) \<Rightarrow> u8 list \<Rightarrow> CopyOnWriteBuffer \<Rightarrow> CopyOnWriteBuffer" where
  "buf_AppendData fresh xs b =
     (let n = buf_size b + length xs;
          b = EnsureCapacityWithHeadroom fresh n True b
      in b\<lparr>buf_data := memcpy_at (buf_data b) (buf_size b) xs (length xs), buf_size := n\<rparr>)"

definition buf_SetData :: "(nat \<Rightarrow> u8) \<Rightarrow> u8 list \<Rightarrow> CopyOnWriteBuffer \<Rightarrow> CopyOnWriteBuffer" where
  "buf_SetData fresh xs b = buf_AppendData fresh xs (b\<lparr>buf_size := 0\<rparr>)"

subsection \<open>The registry of header extensions\<close>

datatype RTPExtensionType =
    kRtpExtensionNone
  | kRtpExtensionTransmissionTimeOffset
  | kRtpExtensionAudioLevel
  | kRtpExtensionInbandComfortNoise
  | kRtpExtensionAbsoluteSendTime
  | kRtpExtensionAbsoluteCaptureTime
  | kRtpExtensionVideoRotation
  | kRtpExtensionTransportSequenceNumber
  | kRtpExtensionTransportSequenceNumber02
  | kRtpExtensionPlayoutDelay
  | kRtpExtensionVideoContentType
  | kRtpExtensionVideoTiming
  | kRtpExtensionFrameMarking
  | kRtpExtensionRtpStreamId
  | kRtpExtensionRepairedRtpStreamId
  | kRtpExtensionMid
  | kRtpExtensionGenericFrameDescriptor00
  | kRtpExtensionGenericFrameDescriptor01
  | kRtpExtensionGenericFrameDescriptor02
  | kRtpExtensionColorSpace

text \<open>The values between \<open>kRtpExtensionNone\<close> and \<open>kRtpExtensionNumberOfExtensions\<close>, in the order of the enum.\<close>

definition extension_types :: "RTPExtensionType list" where
  "extension_types = [kRtpExtensionTransmissionTimeOffset, kRtpExtensionAudioLevel, kRtpExtensionInbandComfortNoise,
     kRtpExtensionAbsoluteSendTime, kRtpExtensionAbsoluteCaptureTime, kRtpExtensionVideoRotation,
     kRtpExtensionTransportSequenceNumber, kRtpExtensionTransportSequenceNumber02, kRtpExtensionPlayoutDelay,
     kRtpExtensionVideoContentType, kRtpExtensionVideoTiming, kRtpExtensionFrameMarking, kRtpExtensionRtpStreamId,
     kRtpExtensionRepairedRtpStreamId, kRtpExtensionMid, kRtpExtensionGenericFrameDescriptor00,
     kRtpExtensionGenericFrameDescriptor01, kRtpExtensionGenericFrameDescriptor02, kRtpExtensionColorSpace]"

text \<open>The constants \<open>kUri\<close> of the extension classes, as far as they are compared with.\<close>

definition AbsoluteSendTime_kUri :: string where
  "AbsoluteSendTime_kUri = ''http://www.webrtc.org/experiments/rtp-hdrext/abs-send-time''"
definition TransmissionOffset_kUri :: string where
  "TransmissionOffset_kUri = ''urn:ietf:params:rtp-hdrext:toffset''"
definition TransportSequenceNumber_kUri :: string where
  "TransportSequenceNumber_kUri = ''http://www.ietf.org/id/draft-holmer-rmcat-transport-wide-cc-extensions-01''"
definition RtpMid_kUri :: string where
  "RtpMid_kUri = ''urn:ietf:params:rtp-hdrext:sdes:mid''"

definition kExtensions :: "(RTPExtensionType \<times> string) list" where
  "kExtensions =
     [(kRtpExtensionTransmissionTimeOffset, TransmissionOffset_kUri),
      (kRtpExtensionAudioLevel, ''urn:ietf:params:rtp-hdrext:ssrc-audio-level''),
      (kRtpExtensionAbsoluteSendTime, AbsoluteSendTime_kUri),
      (kRtpExtensionAbsoluteCaptureTime, ''http://www.webrtc.org/experiments/rtp-hdrext/abs-capture-time''),
      (kRtpExtensionVideoRotation, ''urn:3gpp:video-orientation''),
      (kRtpExtensionTransportSequenceNumber, TransportSequenceNumber_kUri),
      (kRtpExtensionTransportSequenceNumber02, ''http://www.webrtc.org/experiments/rtp-hdrext/transport-wide-cc-02''),
      (kRtpExtensionPlayoutDelay, ''http://www.webrtc.org/experiments/rtp-hdrext/playout-delay''),
      (kRtpExtensionVideoContentType, ''http://www.webrtc.org/experiments/rtp-hdrext/video-content-type''),
      (kRtpExtensionVideoTiming, ''http://www.webrtc.org/experiments/rtp-hdrext/video-timing''),
      (kRtpExtensionFrameMarking, ''http://tools.ietf.org/html/draft-ietf-avtext-framemarking-07''),
      (kRtpExtensionRtpStreamId, ''urn:ietf:params:rtp-hdrext:sdes:rtp-stream-id''),
      (kRtpExtensionRepairedRtpStreamId, ''urn:ietf:params:rtp-hdrext:sdes:repaired-rtp-stream-id''),
      (kRtpExtensionMid, RtpMid_kUri),
      (kRtpExtensionGenericFrameDescriptor00, ''http://www.webrtc.org/experiments/rtp-hdrext/generic-frame-descriptor-00''),
      (kRtpExtensionGenericFrameDescriptor01, ''http://www.webrtc.org/experiments/rtp-hdrext/generic-frame-descriptor-01''),
      (kRtpExtensionGenericFrameDescriptor02, ''http://www.webrtc.org/experiments/rtp-hdrext/generic-frame-descriptor-02''),
      (kRtpExtensionColorSpace, ''http://www.webrtc.org/experiments/rtp-hdrext/color-space'')]"

definition kMinId :: int where [simp]: "kMinId = 1"
definition kMaxId :: int where [simp]: "kMaxId = 255"
definition kMaxValueSize :: nat where [simp]: "kMaxValueSize = 255"
definition kOneByteHeaderExtensionMaxId :: nat where [simp]: "kOneByteHeaderExtensionMaxId = 14"
definition kOneByteHeaderExtensionMaxValueSize :: nat where [simp]: "kOneByteHeaderExtensionMaxValueSize = 16"
definition kInvalidId :: u8 where [simp]: "kInvalidId = 0"

text \<open>The identifier of every type, 0 where there is none.\<close>

record RtpHeaderExtensionMap =
  ext_ids :: "RTPExtensionType \<Rightarrow> u8"
  extmap_allow_mixed :: bool

record RtpExtension =
  ext_uri :: string
  ext_param_id :: int

definition new_RtpHeaderExtensionMap :: "bool \<Rightarrow> RtpHeaderExtensionMap" where
  "new_RtpHeaderExtensionMap allow_mixed = \<lparr>ext_ids = (\<lambda>t. kInvalidId), extmap_allow_mixed = allow_mixed\<rparr>"

definition GetId :: "RtpHeaderExtensionMap \<Rightarrow> RTPExtensionType \<Rightarrow> u8" where
  "GetId m t = ext_ids m t"

definition GetType :: "RtpHeaderExtensionMap \<Rightarrow> int \<Rightarrow> RTPExtensionType" where
  "GetType m i = (case find (\<lambda>t. uint (ext_ids m t) = i) extension_types of None \<Rightarrow> kRtpExtensionNone | Some t \<Rightarrow> t)"

definition IsRegistered :: "RtpHeaderExtensionMap \<Rightarrow> RTPExtensionType \<Rightarrow> bool" where
  "IsRegistered m t \<longleftrightarrow> GetId m t \<noteq> kInvalidId"

definition Register :: "int \<Rightarrow> RTPExtensionType \<Rightarrow> RtpHeaderExtensionMap \<Rightarrow> bool \<times> RtpHeaderExtensionMap" where
  "Register i t m =
     (if i < kMinId \<or> i > kMaxId then (False, m)
      else
        let registered_type = GetType m i
        in if registered_type = t then (True, m)
           else if registered_type \<noteq> kRtpExtensionNone then (False, m)
           else (True, m\<lparr>ext_ids := (ext_ids m)(t := word_of_int i)\<rparr>))"

definition RegisterByType :: "int \<Rightarrow> RTPExtensionType \<Rightarrow> RtpHeaderExtensionMap \<Rightarrow> bool \<times> RtpHeaderExtensionMap" where
  "RegisterByType i t m =
     (case find (\<lambda>(t', uri). t = t') kExtensions of None \<Rightarrow> (False, m) | Some (t', uri) \<Rightarrow> Register i t' m)"

definition RegisterByUri :: "int \<Rightarrow> string \<Rightarrow> RtpHeaderExtensionMap \<Rightarrow> bool \<times> RtpHeaderExtensionMap" where
  "RegisterByUri i u m =
     (case find (\<lambda>(t, uri). u = uri) kExtensions of None \<Rightarrow> (False, m) | Some (t, uri) \<Rightarrow> Register i t m)"

definition Deregister :: "RTPExtensionType \<Rightarrow> RtpHeaderExtensionMap \<Rightarrow> RtpHeaderExtensionMap" where
  "Deregister t m = (if IsRegistered m t then m\<lparr>ext_ids := (ext_ids m)(t := kInvalidId)\<rparr> else m)"

text \<open>The constructor from a list of extensions.\<close>

definition extension_map_of :: "RtpExtension list \<Rightarrow> RtpHeaderExtensionMap" where
  "extension_map_of es = fold (\<lambda>e m. snd (RegisterByUri (ext_param_id e) (ext_uri e) m)) es (new_RtpHeaderExtensionMap False)"

subsection \<open>Packets\<close>

definition kFixedHeaderSize :: nat where [simp]: "kFixedHeaderSize = 12"
definition kRtpVersion :: u8 where [simp]: "kRtpVersion = 2"
definition kOneByteExtensionProfileId :: u16 where [simp]: "kOneByteExtensionProfileId = 0xBEDE"
definition kTwoByteExtensionProfileId :: u16 where [simp]: "kTwoByteExtensionProfileId = 0x1000"
definition kOneByteExtensionHeaderLength :: nat where [simp]: "kOneByteExtensionHeaderLength = 1"
definition kTwoByteExtensionHeaderLength :: nat where [simp]: "kTwoByteExtensionHeaderLength = 2"
definition kDefaultPacketSize :: nat where [simp]: "kDefaultPacketSize = 1500"

record ExtensionInfo =
  ext_id :: u8
  ext_length :: u8
  ext_offset :: u16

record RtpPacket =
  rtp_marker :: bool
  rtp_payload_type :: u8
  rtp_padding_size :: u8
  rtp_sequence_number :: u16
  rtp_timestamp :: u32
  rtp_ssrc :: u32
  payload_offset :: nat
  payload_size :: nat
  rtp_extensions :: RtpHeaderExtensionMap
  extension_entries :: "ExtensionInfo list"
  extensions_size :: nat
  rtp_buffer :: CopyOnWriteBuffer

abbreviation rtp_data :: "RtpPacket \<Rightarrow> u8 list" where
  "rtp_data p \<equiv> buf_data (rtp_buffer p)"

definition rtp_capacity :: "RtpPacket \<Rightarrow> nat" where
  "rtp_capacity p = buf_capacity (rtp_buffer p)"

definition rtp_size :: "RtpPacket \<Rightarrow> nat" where
  "rtp_size p = payload_offset p + payload_size p + unat (rtp_padding_size p)"

definition headers_size :: "RtpPacket \<Rightarrow> nat" where
  "headers_size p = payload_offset p"

definition rtp_payload :: "RtpPacket \<Rightarrow> u8 list" where
  "rtp_payload p = slice (payload_offset p) (payload_size p) (rtp_data p)"

text \<open>\<open>WriteAt\<close> gives a pointer into the storage; here it is applied to what is done there.\<close>

definition WriteAt :: "(u8 list \<Rightarrow> u8 list) \<Rightarrow> RtpPacket \<Rightarrow> RtpPacket" where
  "WriteAt f p = p\<lparr>rtp_buffer := (rtp_buffer p)\<lparr>buf_data := f (rtp_data p)\<rparr>\<rparr>"

definition write_byte :: "nat \<Rightarrow> u8 \<Rightarrow> RtpPacket \<Rightarrow> RtpPacket" where
  "write_byte off b = WriteAt (\<lambda>d. d[off := b])"

definition rtp_SetSize :: "(nat \<Rightarrow> u8) \<Rightarrow> nat \<Rightarrow> RtpPacket \<Rightarrow> RtpPacket" where
  "rtp_SetSize fresh n p = p\<lparr>rtp_buffer := buf_SetSize fresh n (rtp_buffer p)\<rparr>"

definition Clear :: "(nat \<Rightarrow> u8) \<Rightarrow> RtpPacket \<Rightarrow> RtpPacket" where
  "Clear fresh p =
     (let p = p\<lparr>rtp_marker := False, rtp_payload_type := 0, rtp_sequence_number := 0, rtp_timestamp := 0, rtp_ssrc := 0,
                payload_offset := kFixedHeaderSize, payload_size := 0, rtp_padding_size := 0, extensions_size := 0,
                extension_entries := []\<rparr>;
          p = WriteAt (\<lambda>d. memset0 d 0 kFixedHeaderSize) p;
          p = rtp_SetSize fresh kFixedHeaderSize p
      in write_byte 0 (push_bit 6 kRtpVersion) p)"

text \<open>The constructor; the members that \<open>Clear\<close> sets are not initialised before.\<close>

definition new_RtpPacket :: "(nat \<Rightarrow> u8) \<Rightarrow> RtpHeaderExtensionMap option \<Rightarrow> nat \<Rightarrow> RtpPacket" where
  "new_RtpPacket fresh extensions capacity =
     Clear fresh \<lparr>rtp_marker = False, rtp_payload_type = 0, rtp_padding_size = 0, rtp_sequence_number = 0,
       rtp_timestamp = 0, rtp_ssrc = 0, payload_offset = 0, payload_size = 0,
       rtp_extensions = (case extensions of None \<Rightarrow> new_RtpHeaderExtensionMap False | Some m \<Rightarrow> m),
       extension_entries = [], extensions_size = 0, rtp_buffer = new_Buffer fresh capacity\<rparr>"

definition IdentifyExtensions :: "RtpHeaderExtensionMap \<Rightarrow> RtpPacket \<Rightarrow> RtpPacket" where
  "IdentifyExtensions m p = p\<lparr>rtp_extensions := m\<rparr>"

definition Csrcs :: "RtpPacket \<Rightarrow> u32 list" where
  "Csrcs p = map (\<lambda>i. ReadBigEndian4 (rtp_data p) (kFixedHeaderSize + i * 4)) [0..<unat (rtp_data p ! 0 AND 0x0F)]"

definition SetMarker :: "bool \<Rightarrow> RtpPacket \<Rightarrow> RtpPacket" where
  "SetMarker m p =
     write_byte 1 (if m then rtp_data p ! 1 OR 0x80 else rtp_data p ! 1 AND 0x7F) (p\<lparr>rtp_marker := m\<rparr>)"

definition SetPayloadType :: "u8 \<Rightarrow> RtpPacket \<Rightarrow> RtpPacket" where
  "SetPayloadType t p = write_byte 1 ((rtp_data p ! 1 AND 0x80) OR t) (p\<lparr>rtp_payload_type := t\<rparr>)"

definition SetSequenceNumber :: "u16 \<Rightarrow> RtpPacket \<Rightarrow> RtpPacket" where
  "SetSequenceNumber n p = WriteAt (\<lambda>d. WriteBigEndian2 d 2 n) (p\<lparr>rtp_sequence_number := n\<rparr>)"

definition SetTimestamp :: "u32 \<Rightarrow> RtpPacket \<Rightarrow> RtpPacket" where
  "SetTimestamp t p = WriteAt (\<lambda>d. WriteBigEndian4 d 4 t) (p\<lparr>rtp_timestamp := t\<rparr>)"

definition SetSsrc :: "u32 \<Rightarrow> RtpPacket \<Rightarrow> RtpPacket" where
  "SetSsrc s p = WriteAt (\<lambda>d. WriteBigEndian4 d 8 s) (p\<lparr>rtp_ssrc := s\<rparr>)"

definition CopyHeaderFrom :: "(nat \<Rightarrow> u8) \<Rightarrow> RtpPacket \<Rightarrow> RtpPacket \<Rightarrow> RtpPacket" where
  "CopyHeaderFrom fresh q p =
     p\<lparr>rtp_marker := rtp_marker q, rtp_payload_type := rtp_payload_type q, rtp_sequence_number := rtp_sequence_number q,
       rtp_timestamp := rtp_timestamp q, rtp_ssrc := rtp_ssrc q, payload_offset := payload_offset q,
       rtp_extensions := rtp_extensions q, extension_entries := extension_entries q, extensions_size := extensions_size q,
       rtp_buffer := buf_SetData fresh (take (headers_size q) (rtp_data q)) (rtp_buffer p),
       payload_size := 0, rtp_padding_size := 0\<rparr>"

definition SetCsrcs :: "(nat \<Rightarrow> u8) \<Rightarrow> u32 list \<Rightarrow> RtpPacket \<Rightarrow> RtpPacket" where
  "SetCsrcs fresh csrcs p =
     (let p = p\<lparr>payload_offset := kFixedHeaderSize + 4 * length csrcs\<rparr>;
          p = write_byte 0 ((rtp_data p ! 0 AND 0xF0) OR of_nat (length csrcs)) p;
          p = fold (\<lambda>(i, c). WriteAt (\<lambda>d. WriteBigEndian4 d (kFixedHeaderSize + 4 * i) c)) (enumerate 0 csrcs) p
      in rtp_SetSize fresh (payload_offset p) p)"

subsection \<open>Parsing\<close>

definition FindExtensionInfo :: "u8 \<Rightarrow> ExtensionInfo list \<Rightarrow> ExtensionInfo option" where
  "FindExtensionInfo i es = find (\<lambda>e. ext_id e = i) es"

definition FindOrCreateExtensionInfo :: "u8 \<Rightarrow> ExtensionInfo list \<Rightarrow> ExtensionInfo list" where
  "FindOrCreateExtensionInfo i es =
     (case FindExtensionInfo i es of None \<Rightarrow> es @ [\<lparr>ext_id = i, ext_length = 0, ext_offset = 0\<rparr>] | Some e \<Rightarrow> es)"

text \<open>The assignments through the reference that \<open>FindOrCreateExtensionInfo\<close> returns.\<close>

fun set_info :: "u8 \<Rightarrow> u8 \<Rightarrow> u16 \<Rightarrow> ExtensionInfo list \<Rightarrow> ExtensionInfo list" where
  "set_info i len off [] = []"
| "set_info i len off (e # es) =
     (if ext_id e = i then e\<lparr>ext_offset := off, ext_length := len\<rparr> # es else e # set_info i len off es)"

text \<open>The loop over the extensions of the block at \<open>off\<close>; \<open>one_byte\<close> tells the two profiles apart.\<close>

function parse_extensions :: "u8 list \<Rightarrow> nat \<Rightarrow> nat \<Rightarrow> bool \<Rightarrow> nat \<Rightarrow> ExtensionInfo list \<Rightarrow> nat \<times> ExtensionInfo list" where
  "parse_extensions b off capacity one_byte es entries =
     (let header_length = (if one_byte then kOneByteExtensionHeaderLength else kTwoByteExtensionHeaderLength)
      in if es + header_length < capacity
         then if b ! (off + es) = 0 then parse_extensions b off capacity one_byte (es + 1) entries
              else
                let i = (if one_byte then drop_bit 4 (b ! (off + es)) else b ! (off + es));
                    len = (if one_byte then 1 + (b ! (off + es) AND 0xf) else b ! (off + es + 1))
                in if one_byte \<and> (i = 15 \<or> i = 0 \<and> len \<noteq> 1) then (es, entries)
                   else if es + header_length + unat len > capacity then (es, entries)
                   else
                     let entries = FindOrCreateExtensionInfo i entries;
                         offset = off + es + header_length
                     in if offset \<ge> 2 ^ 16 then (es, entries)
                        else parse_extensions b off capacity one_byte (es + header_length + unat len)
                               (set_info i len (of_nat offset) entries)
         else (es, entries))"
  by pat_completeness auto
termination
  by (relation "measure (\<lambda>(b, off, capacity, one_byte, es, entries). capacity - es)") (auto split: if_splits)

declare parse_extensions.simps [simp del]

definition parse_extension_block :: "u8 list \<Rightarrow> RtpPacket \<Rightarrow> bool \<times> RtpPacket" where
  "parse_extension_block b p =
     (let extension_offset = payload_offset p + 4
      in if extension_offset > length b then (False, p)
         else
           let profile = ReadBigEndian2 b (payload_offset p);
               extensions_capacity = unat (ReadBigEndian2 b (payload_offset p + 2) :: u16) * 4
           in if extension_offset + extensions_capacity > length b then (False, p)
              else
                let p = (if profile \<noteq> kOneByteExtensionProfileId \<and> profile \<noteq> kTwoByteExtensionProfileId then p
                         else case parse_extensions b extension_offset extensions_capacity (profile = kOneByteExtensionProfileId) 0 [] of
                                (es, entries) \<Rightarrow> p\<lparr>extensions_size := es, extension_entries := entries\<rparr>)
                in (True, p\<lparr>payload_offset := extension_offset + extensions_capacity\<rparr>))"

definition ParseBuffer :: "u8 list \<Rightarrow> RtpPacket \<Rightarrow> bool \<times> RtpPacket" where
  "ParseBuffer b p =
     (if length b < kFixedHeaderSize then (False, p)
      else if drop_bit 6 (b ! 0) \<noteq> kRtpVersion then (False, p)
      else
        let has_padding = b ! 0 AND 0x20 \<noteq> 0;
            has_extension = b ! 0 AND 0x10 \<noteq> 0;
            number_of_crcs = unat (b ! 0 AND 0x0f);
            p = p\<lparr>rtp_marker := (b ! 1 AND 0x80 \<noteq> 0), rtp_payload_type := b ! 1 AND 0x7f,
                  rtp_sequence_number := ReadBigEndian2 b 2, rtp_timestamp := ReadBigEndian4 b 4, rtp_ssrc := ReadBigEndian4 b 8\<rparr>
        in if length b < kFixedHeaderSize + number_of_crcs * 4 then (False, p)
           else
             let p = p\<lparr>payload_offset := kFixedHeaderSize + number_of_crcs * 4,
                       rtp_padding_size := (if has_padding then b ! (length b - 1) else 0)\<rparr>
             in if has_padding \<and> rtp_padding_size p = 0 then (False, p)
                else
                  let p = p\<lparr>extensions_size := 0, extension_entries := []\<rparr>
                  in case (if has_extension then parse_extension_block b p else (True, p)) of (ok, p) \<Rightarrow>
                       if \<not> ok then (False, p)
                       else if payload_offset p + unat (rtp_padding_size p) > length b then (False, p)
                       else (True, p\<lparr>payload_size := length b - payload_offset p - unat (rtp_padding_size p)\<rparr>))"

definition Parse :: "(nat \<Rightarrow> u8) \<Rightarrow> u8 list \<Rightarrow> RtpPacket \<Rightarrow> bool \<times> RtpPacket" where
  "Parse fresh b p =
     (case ParseBuffer b p of (ok, p) \<Rightarrow>
        if \<not> ok then (False, Clear fresh p) else (True, p\<lparr>rtp_buffer := buf_SetData fresh b (rtp_buffer p)\<rparr>))"

subsection \<open>Extensions that are changed after protection\<close>

definition kPacerExitDeltaOffset :: nat where [simp]: "kPacerExitDeltaOffset = 7"

definition zero_extension :: "RtpHeaderExtensionMap \<Rightarrow> ExtensionInfo \<Rightarrow> u8 list \<Rightarrow> u8 list" where
  "zero_extension m e d =
     (case GetType m (uint (ext_id e)) of
        kRtpExtensionVideoTiming \<Rightarrow> memset0 d (unat (ext_offset e) + kPacerExitDeltaOffset) 6
      | kRtpExtensionTransportSequenceNumber \<Rightarrow> memset0 d (unat (ext_offset e)) (unat (ext_length e))
      | kRtpExtensionTransportSequenceNumber02 \<Rightarrow> memset0 d (unat (ext_offset e)) (unat (ext_length e))
      | kRtpExtensionTransmissionTimeOffset \<Rightarrow> memset0 d (unat (ext_offset e)) (unat (ext_length e))
      | kRtpExtensionAbsoluteSendTime \<Rightarrow> memset0 d (unat (ext_offset e)) (unat (ext_length e))
      | _ \<Rightarrow> d)"

text \<open>The argument is a view of \<open>n\<close> bytes; \<open>buffer\<close> is the memory it begins in, since the code writes to
  the offsets of the packet without regard to the view.\<close>

definition CopyAndZeroMutableExtensions :: "RtpPacket \<Rightarrow> nat \<Rightarrow> u8 list \<Rightarrow> u8 list option" where
  "CopyAndZeroMutableExtensions p n buffer =
     (if n < buf_size (rtp_buffer p) then None
      else Some (fold (zero_extension (rtp_extensions p)) (extension_entries p)
             (memcpy_at buffer 0 (rtp_data p) (buf_size (rtp_buffer p)))))"

subsection \<open>Adding extensions\<close>

text \<open>\<open>None\<close> is a fatal error; the first component of a result is the view that is returned, as the offset
  and length in the storage, or nothing for the empty view.\<close>

type_synonym view = "(nat \<times> nat) option"

definition num_csrc :: "RtpPacket \<Rightarrow> nat" where
  "num_csrc p = unat (rtp_data p ! 0 AND 0x0F)"

definition extensions_offset :: "RtpPacket \<Rightarrow> nat" where
  "extensions_offset p = kFixedHeaderSize + num_csrc p * 4 + 4"

definition SetExtensionLengthMaybeAddZeroPadding :: "nat \<Rightarrow> RtpPacket \<Rightarrow> nat \<times> RtpPacket" where
  "SetExtensionLengthMaybeAddZeroPadding off p =
     (let extensions_words = of_nat ((extensions_size p + 3) div 4) :: u16;
          p = WriteAt (\<lambda>d. WriteBigEndian2 d (off - 2) extensions_words) p;
          extension_padding_size = 4 * unat extensions_words - extensions_size p;
          p = WriteAt (\<lambda>d. memset0 d (off + extensions_size p) extension_padding_size) p
      in (unat (4 * extensions_words), p))"

definition memmove_at :: "u8 list \<Rightarrow> nat \<Rightarrow> nat \<Rightarrow> nat \<Rightarrow> u8 list" where
  "memmove_at d dst src n = memcpy_at d dst (drop src d) n"

text \<open>The body of the loop of \<open>PromoteToTwoByteHeaderExtension\<close> for the entry \<open>k\<close>, when
  \<open>write_read_delta\<close> is \<open>k + 1\<close>.\<close>

definition promote_entry :: "nat \<Rightarrow> RtpPacket \<Rightarrow> RtpPacket" where
  "promote_entry k p =
     (let e = extension_entries p ! k;
          read_index = unat (ext_offset e);
          write_index = read_index + (k + 1);
          p = p\<lparr>extension_entries := (extension_entries p)[k := e\<lparr>ext_offset := of_nat write_index\<rparr>]\<rparr>;
          p = WriteAt (\<lambda>d. memmove_at d write_index read_index (unat (ext_length e))) p;
          p = write_byte (write_index - 1) (ext_length e) p
      in write_byte (write_index - 2) (ext_id e) p)"

definition PromoteToTwoByteHeaderExtension :: "(nat \<Rightarrow> u8) \<Rightarrow> RtpPacket \<Rightarrow> RtpPacket option" where
  "PromoteToTwoByteHeaderExtension fresh p =
     (let off = extensions_offset p;
          n = length (extension_entries p)
      in if n = 0 \<or> payload_size p \<noteq> 0 \<or> ReadBigEndian2 (rtp_data p) (off - 4) \<noteq> kOneByteExtensionProfileId then None
         else
           let p = foldr promote_entry [0..<n] p;
               p = WriteAt (\<lambda>d. WriteBigEndian2 d (off - 4) kTwoByteExtensionProfileId) p;
               p = p\<lparr>extensions_size := extensions_size p + n\<rparr>
           in case SetExtensionLengthMaybeAddZeroPadding off p of (padded, p) \<Rightarrow>
                let p = p\<lparr>payload_offset := off + padded\<rparr>
                in Some (rtp_SetSize fresh (payload_offset p) p))"

text \<open>The profile for a new extension, after the promotion that may be needed; no profile if there is no room
  for the promotion.\<close>

definition extension_profile :: "(nat \<Rightarrow> u8) \<Rightarrow> bool \<Rightarrow> nat \<Rightarrow> RtpPacket \<Rightarrow> (u16 option \<times> RtpPacket) option" where
  "extension_profile fresh two_byte_header_required len p =
     (let off = extensions_offset p
      in if extensions_size p > 0
         then
           let profile_id = ReadBigEndian2 (rtp_data p) (off - 4)
           in if profile_id = kOneByteExtensionProfileId \<and> two_byte_header_required
              then if off + (extensions_size p + length (extension_entries p) + kTwoByteExtensionHeaderLength + len) > rtp_capacity p
                   then Some (None, p)
                   else map_option (\<lambda>p. (Some kTwoByteExtensionProfileId, p)) (PromoteToTwoByteHeaderExtension fresh p)
              else Some (Some profile_id, p)
         else Some (Some (if two_byte_header_required then kTwoByteExtensionProfileId else kOneByteExtensionProfileId), p))"

text \<open>The header of the new extension, its entry, and the new size of the block.\<close>

definition add_extension :: "(nat \<Rightarrow> u8) \<Rightarrow> u16 \<Rightarrow> u8 \<Rightarrow> nat \<Rightarrow> RtpPacket \<Rightarrow> view \<times> RtpPacket" where
  "add_extension fresh profile_id i len p =
     (let off = extensions_offset p;
          extension_header_size = (if profile_id = kOneByteExtensionProfileId then kOneByteExtensionHeaderLength else kTwoByteExtensionHeaderLength);
          new_extensions_size = extensions_size p + extension_header_size + len
      in if off + new_extensions_size > rtp_capacity p then (None, p)
         else
           let p = (if extensions_size p = 0
                    then WriteAt (\<lambda>d. WriteBigEndian2 d (off - 4) profile_id) (write_byte 0 (rtp_data p ! 0 OR 0x10) p)
                    else p);
               p = (if profile_id = kOneByteExtensionProfileId
                    then write_byte (off + extensions_size p) (push_bit 4 i OR of_nat (len - 1)) p
                    else write_byte (off + extensions_size p + 1) (of_nat len) (write_byte (off + extensions_size p) i p));
               extension_info_offset = of_nat (off + extensions_size p + extension_header_size) :: u16;
               extension_info_length = of_nat len :: u8;
               p = p\<lparr>extension_entries := extension_entries p @
                       [\<lparr>ext_id = i, ext_length = extension_info_length, ext_offset = extension_info_offset\<rparr>],
                     extensions_size := new_extensions_size\<rparr>
           in case SetExtensionLengthMaybeAddZeroPadding off p of (padded, p) \<Rightarrow>
                let p = p\<lparr>payload_offset := off + padded\<rparr>
                in (Some (unat extension_info_offset, unat extension_info_length), rtp_SetSize fresh (payload_offset p) p))"

definition AllocateRawExtension :: "(nat \<Rightarrow> u8) \<Rightarrow> u8 \<Rightarrow> nat \<Rightarrow> RtpPacket \<Rightarrow> (view \<times> RtpPacket) option" where
  "AllocateRawExtension fresh i len p =
     (case FindExtensionInfo i (extension_entries p) of
        Some e \<Rightarrow> Some (if unat (ext_length e) = len then Some (unat (ext_offset e), len) else None, p)
      | None \<Rightarrow>
          if payload_size p > 0 \<or> rtp_padding_size p \<noteq> 0 then Some (None, p)
          else
            let two_byte_header_required = unat i > kOneByteHeaderExtensionMaxId \<or> len > kOneByteHeaderExtensionMaxValueSize \<or> len = 0
            in if two_byte_header_required \<and> \<not> extmap_allow_mixed (rtp_extensions p) then None
               else case extension_profile fresh two_byte_header_required len p of
                      None \<Rightarrow> None
                    | Some (None, p) \<Rightarrow> Some (None, p)
                    | Some (Some profile_id, p) \<Rightarrow> Some (add_extension fresh profile_id i len p))"

definition AllocateExtension :: "(nat \<Rightarrow> u8) \<Rightarrow> RTPExtensionType \<Rightarrow> nat \<Rightarrow> RtpPacket \<Rightarrow> (view \<times> RtpPacket) option" where
  "AllocateExtension fresh t len p =
     (if len = 0 \<or> len > kMaxValueSize \<or>
         \<not> extmap_allow_mixed (rtp_extensions p) \<and> len > kOneByteHeaderExtensionMaxValueSize then Some (None, p)
      else
        let i = GetId (rtp_extensions p) t
        in if i = kInvalidId then Some (None, p)
           else if \<not> extmap_allow_mixed (rtp_extensions p) \<and> unat i > kOneByteHeaderExtensionMaxId then Some (None, p)
           else AllocateRawExtension fresh i len p)"

text \<open>\<open>FindExtension\<close>, \<open>HasExtension\<close> and \<open>IsExtensionReserved\<close>.\<close>

definition FindExtension :: "RTPExtensionType \<Rightarrow> RtpPacket \<Rightarrow> u8 list" where
  "FindExtension t p =
     (let i = GetId (rtp_extensions p) t
      in if i = kInvalidId then []
         else case FindExtensionInfo i (extension_entries p) of None \<Rightarrow> []
              | Some e \<Rightarrow> slice (unat (ext_offset e)) (unat (ext_length e)) (rtp_data p))"

definition HasExtension :: "RTPExtensionType \<Rightarrow> RtpPacket \<Rightarrow> bool" where
  "HasExtension t p \<longleftrightarrow> FindExtension t p \<noteq> []"

definition IsExtensionReserved :: "RTPExtensionType \<Rightarrow> RtpPacket \<Rightarrow> bool" where
  "IsExtensionReserved t p \<longleftrightarrow>
     (let i = GetId (rtp_extensions p) t in i \<noteq> kInvalidId \<and> FindExtensionInfo i (extension_entries p) \<noteq> None)"

text \<open>The template \<open>ReserveExtension\<close> with the type and size of its argument.\<close>

definition ReserveExtension :: "(nat \<Rightarrow> u8) \<Rightarrow> RTPExtensionType \<Rightarrow> nat \<Rightarrow> RtpPacket \<Rightarrow> (bool \<times> RtpPacket) option" where
  "ReserveExtension fresh t kValueSizeBytes p =
     (case AllocateExtension fresh t kValueSizeBytes p of
        None \<Rightarrow> None
      | Some (None, p) \<Rightarrow> Some (False, p)
      | Some (Some (off, len), p) \<Rightarrow> Some (True, WriteAt (\<lambda>d. memset0 d off kValueSizeBytes) p))"

definition kMaxValueSizeBytes :: nat where [simp]: "kMaxValueSizeBytes = 16"

text \<open>\<open>SetExtension\<close> for an extension that is a string (\<open>BaseRtpStringExtension\<close>).\<close>

definition SetExtension_string :: "(nat \<Rightarrow> u8) \<Rightarrow> RTPExtensionType \<Rightarrow> u8 list \<Rightarrow> RtpPacket \<Rightarrow> (bool \<times> RtpPacket) option" where
  "SetExtension_string fresh t str p =
     (case AllocateExtension fresh t (length str) p of
        None \<Rightarrow> None
      | Some (None, p) \<Rightarrow> Some (False, p)
      | Some (Some (off, len), p) \<Rightarrow>
          Some (if length str > kMaxValueSizeBytes then (False, p)
                else (True, WriteAt (\<lambda>d. memcpy_at d off str (length str)) p)))"

subsection \<open>Payload and padding\<close>

text \<open>The offset of the payload, or nothing for the null pointer.\<close>

definition SetPayloadSize :: "(nat \<Rightarrow> u8) \<Rightarrow> nat \<Rightarrow> RtpPacket \<Rightarrow> nat option \<times> RtpPacket" where
  "SetPayloadSize fresh size_bytes p =
     (if payload_offset p + size_bytes > rtp_capacity p then (None, p)
      else (Some (payload_offset p), rtp_SetSize fresh (payload_offset p + size_bytes) (p\<lparr>payload_size := size_bytes\<rparr>)))"

definition AllocatePayload :: "(nat \<Rightarrow> u8) \<Rightarrow> nat \<Rightarrow> RtpPacket \<Rightarrow> nat option \<times> RtpPacket" where
  "AllocatePayload fresh size_bytes p = SetPayloadSize fresh size_bytes (snd (SetPayloadSize fresh 0 p))"

definition SetPadding :: "(nat \<Rightarrow> u8) \<Rightarrow> nat \<Rightarrow> RtpPacket \<Rightarrow> bool \<times> RtpPacket" where
  "SetPadding fresh padding_bytes p =
     (if payload_offset p + payload_size p + padding_bytes > rtp_capacity p then (False, p)
      else
        let p = p\<lparr>rtp_padding_size := of_nat padding_bytes\<rparr>;
            p = rtp_SetSize fresh (rtp_size p) p
        in (True,
            if rtp_padding_size p \<noteq> 0
            then
              let padding_offset = payload_offset p + payload_size p;
                  padding_end = padding_offset + unat (rtp_padding_size p);
                  p = WriteAt (\<lambda>d. memset0 d padding_offset (unat (rtp_padding_size p) - 1)) p;
                  p = write_byte (padding_end - 1) (rtp_padding_size p) p
              in write_byte 0 (rtp_data p ! 0 OR 0x20) p
            else write_byte 0 (rtp_data p ! 0 AND NOT 0x20) p))"

text \<open>The loop of \<open>RemoveExtension\<close> that copies the extensions to the new packet: whether the extension was
  found, and the new packet, or nothing if an extension could not be allocated.\<close>

fun copy_extensions :: "(nat \<Rightarrow> u8) \<Rightarrow> u8 \<Rightarrow> u8 list \<Rightarrow> ExtensionInfo list \<Rightarrow> bool \<Rightarrow> RtpPacket \<Rightarrow> (bool \<times> RtpPacket) option option" where
  "copy_extensions fresh id_to_remove d [] found q = Some (Some (found, q))"
| "copy_extensions fresh id_to_remove d (e # es) found q =
     (if ext_id e = id_to_remove then copy_extensions fresh id_to_remove d es True q
      else case AllocateRawExtension fresh (ext_id e) (unat (ext_length e)) q of
             None \<Rightarrow> None
           | Some (v, q) \<Rightarrow>
               if (case v of None \<Rightarrow> 0 | Some (off, len) \<Rightarrow> len) \<noteq> unat (ext_length e) then Some None
               else copy_extensions fresh id_to_remove d es found
                      (case v of None \<Rightarrow> q
                       | Some (off, len) \<Rightarrow> WriteAt (\<lambda>x. memcpy_at x off (drop (unat (ext_offset e)) d) (unat (ext_length e))) q))"

text \<open>Copying a payload for which there is no room would write through a null pointer, also \<open>None\<close>.\<close>

definition RemoveExtension :: "(nat \<Rightarrow> u8) \<Rightarrow> RTPExtensionType \<Rightarrow> RtpPacket \<Rightarrow> (bool \<times> RtpPacket) option" where
  "RemoveExtension fresh t p =
     (let id_to_remove = GetId (rtp_extensions p) t
      in if id_to_remove = kInvalidId then Some (False, p)
         else
           let q = new_RtpPacket fresh None kDefaultPacketSize;
               q = SetMarker (rtp_marker p) q;
               q = SetPayloadType (rtp_payload_type p) q;
               q = SetSequenceNumber (rtp_sequence_number p) q;
               q = SetTimestamp (rtp_timestamp p) q;
               q = SetSsrc (rtp_ssrc p) q;
               q = IdentifyExtensions (rtp_extensions p) q
           in case copy_extensions fresh id_to_remove (rtp_data p) (extension_entries p) False q of
                None \<Rightarrow> None
              | Some None \<Rightarrow> Some (False, p)
              | Some (Some (found_extension, q)) \<Rightarrow>
                  if \<not> found_extension then Some (False, p)
                  else case AllocatePayload fresh (payload_size p) q of
                         (None, q) \<Rightarrow> if payload_size p = 0 then Some (True, snd (SetPadding fresh (unat (rtp_padding_size p)) q)) else None
                       | (Some off, q) \<Rightarrow>
                           let q = WriteAt (\<lambda>d. memcpy_at d off (rtp_payload p) (payload_size p)) q
                           in Some (True, snd (SetPadding fresh (unat (rtp_padding_size p)) q)))"

end
