(* ===== verification/RtpProps.thy ===== *)
theory RtpProps
  imports RtpPacket
begin

text \<open>
  What holds of RTP packets: parsing any bytes leaves entries inside the packet, and a packet that is put
  together by the operations of the class is parsed back to the same packet.
\<close>

subsection \<open>Bits of the first two bytes\<close>

lemma u8_pow: "(0x10 :: u8) = 2 ^ 4" "(0x20 :: u8) = 2 ^ 5" "(0x80 :: u8) = 2 ^ 7" "(0x0f :: u8) = mask 4" "(0x7f :: u8) = mask 7"
  by (simp_all add: mask_eq_exp_minus_1)

lemma bit_pow: "n < 8 \<Longrightarrow> bit (2 ^ n :: u8) j \<longleftrightarrow> j = n"
  by (auto simp only: bit_exp_iff possible_bit_word)  (simp_all add: word_size)

lemma flag_bit:
  "bit (2 :: u8) j \<longleftrightarrow> j = 1" "bit (0x10 :: u8) j \<longleftrightarrow> j = 4" "bit (0x20 :: u8) j \<longleftrightarrow> j = 5" "bit (0x80 :: u8) j \<longleftrightarrow> j = 7"
  using bit_pow [of 1 j] bit_pow [of 4 j] bit_pow [of 5 j] bit_pow [of 7 j] unfolding u8_pow by simp_all

lemma flag_bits:
  "(b :: u8) AND 0x10 \<noteq> 0 \<longleftrightarrow> bit b 4" "b AND 0x20 \<noteq> 0 \<longleftrightarrow> bit b 5" "b AND 0x80 \<noteq> 0 \<longleftrightarrow> bit b 7"
  unfolding u8_pow and_exp_eq_0_iff_not_bit by simp_all

lemma low_bits: "(b :: u8) AND 0x0F = take_bit 4 b" "b AND 0x7F = take_bit 7 b"
  unfolding u8_pow by (simp_all add: take_bit_eq_mask)

lemma set_bits:
  "bit ((b :: u8) OR 0x10) k \<longleftrightarrow> bit b k \<or> k = 4" "bit (b OR 0x20) k \<longleftrightarrow> bit b k \<or> k = 5"
  "bit (b AND NOT 0x20) k \<longleftrightarrow> bit b k \<and> k \<noteq> 5" "bit (b OR 0x80) k \<longleftrightarrow> bit b k \<or> k = 7" "bit (b AND 0x80) k \<longleftrightarrow> bit b k \<and> k = 7"
  by (auto simp only: bit_or_iff bit_and_iff bit_not_iff flag_bit possible_bit_word dest: bit_imp_le_length)

lemma version_bits: "drop_bit 6 (b :: u8) = 2 \<longleftrightarrow> bit b 7 \<and> \<not> bit b 6"
proof -
  note two = flag_bit(1)
  have top: "bit b (6 + k) \<Longrightarrow> k < 2" for k using bit_imp_le_length [of b "6 + k"] by simp
  show ?thesis
  proof
    assume h: "drop_bit 6 b = 2"
    have "bit b (6 + k) \<longleftrightarrow> k = 1" for k
      using two [of k] unfolding h [symmetric] by (simp add: bit_simps)
    from this [of 0] this [of 1] show "bit b 7 \<and> \<not> bit b 6" by simp
  next
    assume h: "bit b 7 \<and> \<not> bit b 6"
    show "drop_bit 6 b = 2"
    proof (rule bit_word_eqI)
      fix n :: nat
      consider "n = 0" | "n = 1" | "2 \<le> n" by linarith
      then show "bit (drop_bit 6 b) n \<longleftrightarrow> bit (2 :: u8) n"
        by cases (use h top [of n] two [of n] in \<open>auto simp: bit_drop_bit_eq\<close>)
    qed
  qed
qed

lemma take_bit_set:
  "take_bit 4 ((b :: u8) OR 0x10) = take_bit 4 b" "take_bit 4 (b OR 0x20) = take_bit 4 b" "take_bit 4 (b AND NOT 0x20) = take_bit 4 b"
  "take_bit 7 (b OR 0x80) = take_bit 7 b" "take_bit 7 (b AND 0x7F) = take_bit 7 b" "take_bit 7 (b AND 0x80) = 0"
  by (rule bit_word_eqI; simp add: bit_take_bit_iff set_bits low_bits; fastforce)+

lemma u16_of_nat: "n < 2 ^ 16 \<Longrightarrow> unat (of_nat n :: u16) = n"
  by (subst unat_of_nat) simp

lemma u8_of_nat: "n < 256 \<Longrightarrow> unat (of_nat n :: u8) = n"
  by (subst unat_of_nat) simp

subsection \<open>Parsing stays inside the packet\<close>

definition info_ok :: "nat \<Rightarrow> nat \<Rightarrow> ExtensionInfo \<Rightarrow> bool" where
  "info_ok lo hi e \<longleftrightarrow> (ext_length e \<noteq> 0 \<longrightarrow> lo \<le> unat (ext_offset e) \<and> unat (ext_offset e) + unat (ext_length e) \<le> hi)"

lemma set_info_ids [simp]: "map ext_id (set_info i len off es) = map ext_id es"
  by (induction es) auto

lemma set_info_set: "e \<in> set (set_info i len off es) \<Longrightarrow> e \<in> set es \<or> ext_id e = i \<and> ext_length e = len \<and> ext_offset e = off"
  by (induction es) (auto split: if_splits)

lemma FindExtensionInfo_None: "FindExtensionInfo i es = None \<longleftrightarrow> i \<notin> ext_id ` set es"
  by (auto simp: FindExtensionInfo_def find_None_iff)

lemma FindOrCreate_ids: "distinct (map ext_id es) \<Longrightarrow> distinct (map ext_id (FindOrCreateExtensionInfo i es))"
  by (auto simp: FindOrCreateExtensionInfo_def FindExtensionInfo_None split: option.split)

lemma FindOrCreate_set: "e \<in> set (FindOrCreateExtensionInfo i es) \<Longrightarrow> e \<in> set es \<or> ext_length e = 0"
  by (auto simp: FindOrCreateExtensionInfo_def split: option.splits)

text \<open>The loop with the header length, the identifier and the length named.\<close>

lemma parse_extensions_unfold:
  assumes "hl = (if one then kOneByteExtensionHeaderLength else kTwoByteExtensionHeaderLength)"
    and "i = (if one then drop_bit 4 (b ! (off + es)) else b ! (off + es))"
    and "len = (if one then 1 + (b ! (off + es) AND 0xf) else b ! (off + es + 1))"
  shows "parse_extensions b off cap one es entries =
    (if es + hl < cap
     then if b ! (off + es) = 0 then parse_extensions b off cap one (es + 1) entries
          else if one \<and> (i = 15 \<or> i = 0 \<and> len \<noteq> 1) then (es, entries)
          else if es + hl + unat len > cap then (es, entries)
          else if off + es + hl \<ge> 2 ^ 16 then (es, FindOrCreateExtensionInfo i entries)
          else parse_extensions b off cap one (es + hl + unat len) (set_info i len (of_nat (off + es + hl)) (FindOrCreateExtensionInfo i entries))
     else (es, entries))"
  by (subst parse_extensions.simps) (simp only: Let_def assms [symmetric])

lemma parse_branches:
  assumes "(if A then if B then p else if C then x else if D then x else if E then y else q else x) = r"
  shows "r = x \<or> r = y \<or> A \<and> p = r \<or> A \<and> \<not> D \<and> \<not> E \<and> q = r"
  using assms by (simp split: if_split_asm)

lemma parse_extensions_inv:
  assumes "parse_extensions b off cap one es entries = (es', entries')" "es \<le> cap" "distinct (map ext_id entries)"
    and "\<forall>e\<in>set entries. info_ok off (off + cap) e"
  shows "es' \<le> cap \<and> distinct (map ext_id entries') \<and> (\<forall>e\<in>set entries'. info_ok off (off + cap) e)"
  using assms
proof (induction "cap - es" arbitrary: es entries rule: less_induct)
  case less
  define hl where "hl = (if one then kOneByteExtensionHeaderLength else kTwoByteExtensionHeaderLength)"
  define i where "i = (if one then drop_bit 4 (b ! (off + es)) else b ! (off + es))"
  define len where "len = (if one then 1 + (b ! (off + es) AND 0xf) else b ! (off + es + 1))"
  have hl: "1 \<le> hl" by (simp add: hl_def)
  have created: "distinct (map ext_id (FindOrCreateExtensionInfo i entries))" "\<forall>e\<in>set (FindOrCreateExtensionInfo i entries). info_ok off (off + cap) e"
    using FindOrCreate_ids [OF less.prems(3)] less.prems(4) by (auto simp: info_ok_def dest!: FindOrCreate_set)
  note run = less.prems(1) [unfolded parse_extensions_unfold [OF hl_def i_def len_def, where entries = entries]]
  let ?set = "set_info i len (of_nat (off + es + hl)) (FindOrCreateExtensionInfo i entries)"
  consider (same) "(es', entries') = (es, entries)" | (big) "(es', entries') = (es, FindOrCreateExtensionInfo i entries)"
    | (pad) "es + hl < cap" "parse_extensions b off cap one (es + 1) entries = (es', entries')"
    | (more) "es + hl < cap" "es + hl + unat len \<le> cap" "off + es + hl < 2 ^ 16" "parse_extensions b off cap one (es + hl + unat len) ?set = (es', entries')"
    using parse_branches [OF run] by (simp only: not_le not_less) blast
  then show ?case
  proof cases
    case same then show ?thesis using less.prems by simp
  next
    case big then show ?thesis using less.prems(2) created by simp
  next
    case pad
    have "cap - (es + 1) < cap - es" "es + 1 \<le> cap" using pad(1) by auto
    then show ?thesis using less.hyps pad(2) less.prems(3,4) by blast
  next
    case more
    have off: "unat (of_nat (off + es + hl) :: u16) = off + es + hl"
      using more(3) by (rule u16_of_nat)
    have "info_ok off (off + cap) e" if "e \<in> set ?set" for e
      using set_info_set [OF that]
    proof
      assume "e \<in> set (FindOrCreateExtensionInfo i entries)" then show ?thesis using created(2) by blast
    next
      assume e: "ext_id e = i \<and> ext_length e = len \<and> ext_offset e = of_nat (off + es + hl)"
      then have "unat (ext_offset e) = off + es + hl" "unat (ext_length e) = unat len" using off by simp_all
      then show ?thesis unfolding info_ok_def using more(2) by linarith
    qed
    moreover have "cap - (es + hl + unat len) < cap - es" using more(1) hl by linarith
    moreover have "distinct (map ext_id ?set)" using created(1) by simp
    ultimately show ?thesis using less.hyps more(2,4) by blast
  qed
qed

text \<open>What a successful parse leaves: the sizes add up to the packet, every extension is inside the headers
  and no identifier occurs twice.\<close>

definition parsed_ok :: "u8 list \<Rightarrow> RtpPacket \<Rightarrow> bool" where
  "parsed_ok b p \<longleftrightarrow> 12 \<le> payload_offset p \<and> rtp_size p = length b \<and> buf_size (rtp_buffer p) = length b \<and>
     length b \<le> rtp_capacity p \<and> take (length b) (rtp_data p) = b \<and>
     (\<forall>e\<in>set (extension_entries p). info_ok 16 (payload_offset p) e) \<and> distinct (map ext_id (extension_entries p))"

lemma buf_SetData_take:
  "take (length xs) (buf_data (buf_SetData fresh xs b)) = xs" "buf_size (buf_SetData fresh xs b) = length xs"
  "length xs \<le> length (buf_data (buf_SetData fresh xs b))"
proof -
  let ?d = "buf_data (EnsureCapacityWithHeadroom fresh (length xs) True (b\<lparr>buf_size := 0\<rparr>))"
  have len: "length xs \<le> length ?d" by (auto simp: EnsureCapacityWithHeadroom_def buf_capacity_def Let_def)
  have z: "buf_size (EnsureCapacityWithHeadroom fresh n x c) = buf_size c" for n x c by (simp add: EnsureCapacityWithHeadroom_def Let_def)
  have d: "buf_data (buf_SetData fresh xs b) = memcpy_at ?d 0 xs (length xs)" by (simp add: buf_SetData_def buf_AppendData_def Let_def z)
  show "length xs \<le> length (buf_data (buf_SetData fresh xs b))" using len by (simp add: d)
  show "take (length xs) (buf_data (buf_SetData fresh xs b)) = xs"
    by (rule nth_equalityI) (use len in \<open>simp_all add: d memcpy_at_nth\<close>)
  show "buf_size (buf_SetData fresh xs b) = length xs" by (simp add: buf_SetData_def buf_AppendData_def Let_def)
qed

lemma parse_extension_block_inv:
  assumes "parse_extension_block b p = (True, q)" "extension_entries p = []"
  shows "payload_offset p + 4 \<le> payload_offset q \<and> payload_offset q \<le> length b \<and> rtp_padding_size q = rtp_padding_size p \<and>
    (\<forall>e\<in>set (extension_entries q). info_ok (payload_offset p + 4) (payload_offset q) e) \<and> distinct (map ext_id (extension_entries q))"
proof -
  let ?cap = "unat (ReadBigEndian2 b (payload_offset p + 2) :: u16) * 4"
  let ?profile = "ReadBigEndian2 b (payload_offset p) :: u16"
  obtain es entries where pe: "parse_extensions b (payload_offset p + 4) ?cap (?profile = kOneByteExtensionProfileId) 0 [] = (es, entries)" by fastforce
  note inv = parse_extensions_inv [OF pe]
  show ?thesis
    using assms inv pe unfolding parse_extension_block_def Let_def
    by (cases "?profile \<noteq> kOneByteExtensionProfileId \<and> ?profile \<noteq> kTwoByteExtensionProfileId") (auto split: if_splits)
qed

lemma ParseBuffer_inv:
  assumes "ParseBuffer b p = (True, q)"
  shows "12 \<le> payload_offset q \<and> rtp_size q = length b \<and>
    (\<forall>e\<in>set (extension_entries q). info_ok 16 (payload_offset q) e) \<and> distinct (map ext_id (extension_entries q))"
proof -
  let ?p = "p\<lparr>rtp_marker := (b ! 1 AND 0x80 \<noteq> 0), rtp_payload_type := b ! 1 AND 0x7f,
      rtp_sequence_number := ReadBigEndian2 b 2, rtp_timestamp := ReadBigEndian4 b 4, rtp_ssrc := ReadBigEndian4 b 8,
      payload_offset := kFixedHeaderSize + unat (b ! 0 AND 0x0f) * 4,
      rtp_padding_size := (if b ! 0 AND 0x20 \<noteq> 0 then b ! (length b - 1) else 0), extensions_size := 0, extension_entries := []\<rparr>"
  obtain q' where q': "(if b ! 0 AND 0x10 \<noteq> 0 then parse_extension_block b ?p else (True, ?p)) = (True, q')"
    and fit: "payload_offset q' + unat (rtp_padding_size q') \<le> length b"
    and q: "q = q'\<lparr>payload_size := length b - payload_offset q' - unat (rtp_padding_size q')\<rparr>"
    using assms unfolding ParseBuffer_def Let_def by (auto split: if_splits prod.splits)
  have "12 \<le> payload_offset q' \<and> (\<forall>e\<in>set (extension_entries q'). info_ok 16 (payload_offset q') e) \<and> distinct (map ext_id (extension_entries q'))"
  proof (cases "b ! 0 AND 0x10 \<noteq> 0")
    case True
    then have "parse_extension_block b ?p = (True, q')" using q' by simp
    from parse_extension_block_inv [OF this] show ?thesis by (auto simp: info_ok_def)
  next
    case False
    then have "q' = ?p" using q' by simp
    then show ?thesis by simp
  qed
  then show ?thesis using fit by (auto simp: q rtp_size_def)
qed

lemma Parse_inv:
  assumes "Parse fresh b p = (True, q)"
  shows "parsed_ok b q"
proof -
  obtain q' where "ParseBuffer b p = (True, q')" and q: "q = q'\<lparr>rtp_buffer := buf_SetData fresh b (rtp_buffer q')\<rparr>"
    using assms by (auto simp: Parse_def split: if_splits prod.splits)
  from ParseBuffer_inv [OF this(1)] show ?thesis
    by (simp add: parsed_ok_def q buf_SetData_take rtp_capacity_def buf_capacity_def rtp_size_def)
qed

text \<open>The bytes of a packet as they are sent.\<close>

definition rtp_bytes :: "RtpPacket \<Rightarrow> u8 list" where
  "rtp_bytes p = take (rtp_size p) (rtp_data p)"

lemma ParseBuffer_buffer: "ParseBuffer b p = (ok, q) \<Longrightarrow> rtp_buffer q = rtp_buffer p"
  by (auto simp: ParseBuffer_def parse_extension_block_def Let_def split: if_splits prod.splits)

lemma Clear_bytes:
  assumes "12 \<le> rtp_capacity p"
  shows "rtp_bytes (Clear fresh p) = 0x80 # replicate 11 0" "extension_entries (Clear fresh p) = []" "buf_size (rtp_buffer (Clear fresh p)) = 12"
    "rtp_extensions (Clear fresh p) = rtp_extensions p" "length (rtp_data (Clear fresh p)) = length (rtp_data p)" "rtp_size (Clear fresh p) = 12"
proof -
  have cap: "12 \<le> length (rtp_data p)" using assms by (simp add: rtp_capacity_def buf_capacity_def)
  define c where "c = Clear fresh p"
  have c: "rtp_data c = (memset0 (rtp_data p) 0 12)[0 := push_bit 6 2]" "buf_size (rtp_buffer c) = 12" "extension_entries c = []"
    "rtp_size c = 12" "rtp_extensions c = rtp_extensions p"
    using cap by (simp_all add: c_def Clear_def Let_def write_byte_def WriteAt_def rtp_SetSize_def buf_SetSize_def
        EnsureCapacityWithHeadroom_def buf_capacity_def rtp_size_def)
  have "rtp_bytes c = 0x80 # replicate 11 0"
  proof (rule nth_equalityI)
    show "length (rtp_bytes c) = length (0x80 # replicate 11 (0 :: u8))" using cap by (simp add: rtp_bytes_def c)
    fix j assume "j < length (rtp_bytes c)"
    then have "j < 12" by (simp add: rtp_bytes_def c)
    then show "rtp_bytes c ! j = (0x80 # replicate 11 0) ! j"
    proof (cases j)
      case 0
      have "rtp_data p \<noteq> []" using cap by auto
      then show ?thesis by (simp add: 0 rtp_bytes_def c)
    qed (use cap in \<open>simp add: rtp_bytes_def c memset0_nth\<close>)
  qed
  then show "rtp_bytes (Clear fresh p) = 0x80 # replicate 11 0" "extension_entries (Clear fresh p) = []" "buf_size (rtp_buffer (Clear fresh p)) = 12"
    "rtp_extensions (Clear fresh p) = rtp_extensions p" "length (rtp_data (Clear fresh p)) = length (rtp_data p)" "rtp_size (Clear fresh p) = 12"
    using c by (simp_all add: c_def)
qed

subsection \<open>Clearing extensions\<close>

lemma zero_extension_nth:
  assumes "GetType m (uint (ext_id e)) \<noteq> kRtpExtensionVideoTiming"
  shows "length (zero_extension m e d) = length d"
    and "j < length d \<Longrightarrow> \<not> (unat (ext_offset e) \<le> j \<and> j < unat (ext_offset e) + unat (ext_length e)) \<Longrightarrow> zero_extension m e d ! j = d ! j"
  using assms by (auto simp: zero_extension_def memset0_nth split: RTPExtensionType.split)

lemma zero_extensions_nth:
  assumes "\<forall>e\<in>set es. GetType m (uint (ext_id e)) \<noteq> kRtpExtensionVideoTiming"
    and "\<forall>e\<in>set es. \<not> (unat (ext_offset e) \<le> j \<and> j < unat (ext_offset e) + unat (ext_length e))" "j < length d"
  shows "fold (zero_extension m) es d ! j = d ! j \<and> length (fold (zero_extension m) es d) = length d"
  using assms by (induction es arbitrary: d) (auto simp: zero_extension_nth)

lemma zero_extensions_length:
  "\<forall>e\<in>set es. GetType m (uint (ext_id e)) \<noteq> kRtpExtensionVideoTiming \<Longrightarrow> length (fold (zero_extension m) es d) = length d"
  by (induction es arbitrary: d) (auto simp: zero_extension_nth)

lemma CopyAndZero_frame:
  assumes "parsed_ok b q" "\<forall>e\<in>set (extension_entries q). GetType (rtp_extensions q) (uint (ext_id e)) \<noteq> kRtpExtensionVideoTiming"
    and "length b \<le> n" "n \<le> length buffer"
  shows "\<exists>d. CopyAndZeroMutableExtensions q n buffer = Some d \<and> length d = length buffer \<and>
    (\<forall>j<length b. j < 16 \<or> payload_offset q \<le> j \<longrightarrow> d ! j = b ! j) \<and> (\<forall>j. length b \<le> j \<and> j < length buffer \<longrightarrow> d ! j = buffer ! j)"
proof -
  let ?c = "memcpy_at buffer 0 (rtp_data q) (length b)"
  let ?d = "fold (zero_extension (rtp_extensions q)) (extension_entries q) ?c"
  have q: "buf_size (rtp_buffer q) = length b" "take (length b) (rtp_data q) = b" "\<forall>e\<in>set (extension_entries q). info_ok 16 (payload_offset q) e"
    and po: "payload_offset q \<le> length b"
    using assms(1) by (simp_all add: parsed_ok_def rtp_size_def)
  have run: "CopyAndZeroMutableExtensions q n buffer = Some ?d"
    using assms(3) by (simp add: CopyAndZeroMutableExtensions_def q(1))
  have c: "j < length buffer \<Longrightarrow> ?c ! j = (if j < length b then b ! j else buffer ! j)" for j
    using q(2) by (auto simp: memcpy_at_nth) (metis nth_take)
  have "?d ! j = ?c ! j" if "j < length buffer" "j < 16 \<or> payload_offset q \<le> j" for j
    using zero_extensions_nth [OF assms(2), of j ?c] that q(3) by (fastforce simp: info_ok_def)
  then show ?thesis using run c assms(3,4) po zero_extensions_length [OF assms(2), of ?c] by auto
qed

text \<open>C17: parsing any bytes is safe. When it succeeds, the sizes add up, every header extension lies between the
  fixed header and the payload, and no identifier occurs twice; clearing the extensions that are changed after
  protection then leaves the first 16 bytes, the payload and the memory behind the packet as they are,
  unless a video timing extension is present. When it fails, the packet is an empty one.\<close>

theorem rtp_parse_safe:
  assumes "Parse fresh b p = (ok, q)" "12 \<le> rtp_capacity p"
  shows "(ok \<longrightarrow> parsed_ok b q \<and> (\<forall>n buffer. length b \<le> n \<and> n \<le> length buffer \<and>
      (\<forall>e\<in>set (extension_entries q). GetType (rtp_extensions q) (uint (ext_id e)) \<noteq> kRtpExtensionVideoTiming) \<longrightarrow>
      (\<exists>d. CopyAndZeroMutableExtensions q n buffer = Some d \<and> length d = length buffer \<and>
        (\<forall>j<length b. j < 16 \<or> payload_offset q \<le> j \<longrightarrow> d ! j = b ! j) \<and> (\<forall>j. length b \<le> j \<and> j < length buffer \<longrightarrow> d ! j = buffer ! j)))) \<and>
    (\<not> ok \<longrightarrow> rtp_bytes q = 0x80 # replicate 11 0 \<and> extension_entries q = [])"
proof -
  have "\<not> ok \<Longrightarrow> rtp_bytes q = 0x80 # replicate 11 0 \<and> extension_entries q = []"
  proof -
    assume "\<not> ok"
    then obtain p' where p': "ParseBuffer b p = (False, p')" "q = Clear fresh p'"
      using assms(1) by (auto simp: Parse_def split: prod.splits if_splits)
    then have "12 \<le> rtp_capacity p'" using assms(2) ParseBuffer_buffer [OF p'(1)] by (simp add: rtp_capacity_def)
    then show ?thesis by (simp add: p'(2) Clear_bytes)
  qed
  moreover have "ok \<Longrightarrow> parsed_ok b q" using assms(1) Parse_inv by simp
  ultimately show ?thesis using CopyAndZero_frame by blast
qed

theorem rtp_parse_safe_witness:
  "\<exists>q. Parse (\<lambda>_. 0) [0x80, 96, 0, 7, 0, 0, 0, 1, 0, 0, 0, 9, 42] (new_RtpPacket (\<lambda>_. 0) None 100) = (True, q) \<and>
     parsed_ok [0x80, 96, 0, 7, 0, 0, 0, 1, 0, 0, 0, 9, 42] q"
proof -
  let ?b = "[0x80, 96, 0, 7, 0, 0, 0, 1, 0, 0, 0, 9, 42] :: u8 list" and ?p = "new_RtpPacket (\<lambda>_. 0) None 100"
  have "fst (Parse (\<lambda>_. 0) ?b ?p)"
    by (simp add: Parse_def ParseBuffer_def Let_def)
  then obtain q where q: "Parse (\<lambda>_. 0) ?b ?p = (True, q)" by (cases "Parse (\<lambda>_. 0) ?b ?p") auto
  have "12 \<le> rtp_capacity ?p"
    by (simp add: new_RtpPacket_def Clear_def Let_def write_byte_def WriteAt_def rtp_SetSize_def buf_SetSize_def
        EnsureCapacityWithHeadroom_def rtp_capacity_def buf_capacity_def new_Buffer_def)
  from rtp_parse_safe [OF q this] q show ?thesis by blast
qed

text \<open>A video timing extension is cleared at fixed offsets, whatever its length: here it has one byte, and the
  first six bytes of the payload from the fifth on are lost.\<close>

definition ex_timing_packet :: "u8 list" where
  "ex_timing_packet = [0x90, 96, 0, 7, 0, 0, 0, 1, 0, 0, 0, 9, 0xBE, 0xDE, 0, 1, 0x10, 0x55, 0, 0] @ replicate 12 1"

definition ex_timing_map :: RtpHeaderExtensionMap where
  "ex_timing_map = snd (RegisterByType 1 kRtpExtensionVideoTiming (new_RtpHeaderExtensionMap False))"

lemma ex_timing_nth: "j < 12 \<Longrightarrow> ex_timing_packet ! (20 + j) = 1"
  by (simp add: ex_timing_packet_def nth_append)

lemma video_timing_clears_payload:
  "\<exists>q d. Parse (\<lambda>_. 0) ex_timing_packet (new_RtpPacket (\<lambda>_. 0) (Some ex_timing_map) 1500) = (True, q) \<and>
    payload_offset q = 20 \<and> CopyAndZeroMutableExtensions q 32 (replicate 1500 0) = Some d \<and>
    slice 20 12 d = [1, 1, 1, 1, 0, 0, 0, 0, 0, 0, 1, 1]"
proof -
  let ?p = "new_RtpPacket (\<lambda>_. 0) (Some ex_timing_map) 1500"
  have ext: "rtp_extensions ?p = ex_timing_map"
    by (simp add: new_RtpPacket_def Clear_def Let_def write_byte_def WriteAt_def rtp_SetSize_def)
  have type: "GetType ex_timing_map 1 = kRtpExtensionVideoTiming"
    by (simp add: ex_timing_map_def RegisterByType_def kExtensions_def Register_def GetType_def extension_types_def
        new_RtpHeaderExtensionMap_def)
  have "\<exists>r. ParseBuffer ex_timing_packet ?p = (True, r) \<and> payload_offset r = 20 \<and>
      extension_entries r = [\<lparr>ext_id = 1, ext_length = 1, ext_offset = 17\<rparr>] \<and> rtp_extensions r = ex_timing_map"
    by (simp add: ParseBuffer_def parse_extension_block_def Let_def ex_timing_packet_def ReadBigEndian2_def ext parse_extensions.simps
        FindOrCreateExtensionInfo_def FindExtensionInfo_def)
  then obtain r where r: "ParseBuffer ex_timing_packet ?p = (True, r)" "payload_offset r = 20"
      "extension_entries r = [\<lparr>ext_id = 1, ext_length = 1, ext_offset = 17\<rparr>]" "rtp_extensions r = ex_timing_map" by blast
  define q where "q = r\<lparr>rtp_buffer := buf_SetData (\<lambda>_. 0) ex_timing_packet (rtp_buffer r)\<rparr>"
  have q: "Parse (\<lambda>_. 0) ex_timing_packet ?p = (True, q)" using r(1) by (simp add: Parse_def q_def)
  have len: "length ex_timing_packet = 32" by (simp add: ex_timing_packet_def)
  let ?d = "memset0 (memcpy_at (replicate 1500 0) 0 (rtp_data q) 32) 24 6"
  have ok: "parsed_ok ex_timing_packet q" by (rule Parse_inv [OF q])
  have run: "CopyAndZeroMutableExtensions q 32 (replicate 1500 0) = Some ?d"
    using ok len by (simp add: CopyAndZeroMutableExtensions_def parsed_ok_def zero_extension_def q_def r type)
  have data: "rtp_data q ! j = ex_timing_packet ! j" if "j < 32" for j
    using ok that len by (metis nth_take parsed_ok_def)
  have "slice 20 12 ?d = [1, 1, 1, 1, 0, 0, 0, 0, 0, 0, 1, 1]"
  proof (rule nth_equalityI)
    fix j assume "j < length (slice 20 12 ?d)"
    then have j: "j < 12" by simp
    then have "slice 20 12 ?d ! j = (if 4 \<le> j \<and> j < 10 then 0 else 1)"
      using data [of "20 + j"] ex_timing_nth [OF j] by (auto simp: memset0_nth memcpy_at_nth)
    moreover have "j \<in> {0, 1, 2, 3, 4, 5, 6, 7, 8, 9, 10, 11}" unfolding insert_iff empty_iff using j by presburger
    ultimately show "slice 20 12 ?d ! j = [1, 1, 1, 1, 0, 0, 0, 0, 0, 0, 1, 1] ! j" by auto
  qed simp
  then show ?thesis using q run by (auto simp: q_def r)
qed

end
