(* ===== verification/RtpBuild.thy ===== *)
theory RtpBuild
  imports RtpProps FecFormat
begin

text \<open>
  Packets that are put together by the operations of \<open>RtpPacket\<close>: an invariant that relates the members of the
  class to the bytes of the buffer, kept by every operation as long as only one-byte extensions are added
  (the default of the registry), and the round trip through \<open>Parse\<close> that follows from it.
\<close>

subsection \<open>The block of extensions\<close>

definition header_of :: "ExtensionInfo \<Rightarrow> u8" where
  "header_of e = push_bit 4 (ext_id e) OR (ext_length e - 1)"

definition info_wf :: "ExtensionInfo \<Rightarrow> bool" where
  "info_wf e \<longleftrightarrow> 1 \<le> unat (ext_id e) \<and> unat (ext_id e) \<le> 14 \<and> 1 \<le> unat (ext_length e) \<and> unat (ext_length e) \<le> 16"

fun laid_out :: "nat \<Rightarrow> ExtensionInfo list \<Rightarrow> bool" where
  "laid_out pos [] = True"
| "laid_out pos (e # es) = (unat (ext_offset e) = pos + 1 \<and> laid_out (pos + 1 + unat (ext_length e)) es)"

definition block_size :: "ExtensionInfo list \<Rightarrow> nat" where
  "block_size es = (\<Sum>e\<leftarrow>es. 1 + unat (ext_length e))"

definition headers_written :: "u8 list \<Rightarrow> ExtensionInfo list \<Rightarrow> bool" where
  "headers_written d es \<longleftrightarrow> (\<forall>e\<in>set es. d ! (unat (ext_offset e) - 1) = header_of e)"

lemma block_size_simps [simp]: "block_size [] = 0" "block_size (e # es) = 1 + unat (ext_length e) + block_size es"
  "block_size (es @ fs) = block_size es + block_size fs"
  by (simp_all add: block_size_def)

lemma laid_out_append: "laid_out pos (es @ fs) \<longleftrightarrow> laid_out pos es \<and> laid_out (pos + block_size es) fs"
  by (induction es arbitrary: pos) (auto simp: add.assoc)

lemma laid_out_range:
  "laid_out pos es \<Longrightarrow> e \<in> set es \<Longrightarrow> pos < unat (ext_offset e) \<and> unat (ext_offset e) + unat (ext_length e) \<le> pos + block_size es"
  by (induction es arbitrary: pos) fastforce+

lemma u8_minus_1: "1 \<le> unat (l :: u8) \<Longrightarrow> unat (l - 1) = unat l - 1"
proof -
  assume "1 \<le> unat l"
  then have "1 \<le> l" by (simp add: word_le_nat_alt)
  from unat_sub [OF this] show ?thesis by simp
qed

lemma bit_small: "unat (x :: u8) < 16 \<Longrightarrow> bit x n \<Longrightarrow> n < 4"
proof -
  assume x: "unat x < 16" "bit x n"
  have "x = take_bit 4 x" using x(1) by (simp add: word_eq_iff_unsigned [where ?'a = nat] unsigned_take_bit_eq take_bit_nat_eq_self)
  with x(2) show "n < 4" by (metis bit_take_bit_iff)
qed

lemma header_decode:
  assumes "info_wf e"
  shows "drop_bit 4 (header_of e) = ext_id e" "1 + (header_of e AND 0xf) = ext_length e" "header_of e \<noteq> 0"
proof -
  have i: "unat (ext_id e) < 16" and l: "unat (ext_length e - 1) < 16" using assms by (auto simp: info_wf_def u8_minus_1)
  have "drop_bit 4 (header_of e) = ext_id e"
    by (rule bit_word_eqI) (use bit_small [OF l] bit_small [OF i] in \<open>fastforce simp: header_of_def bit_simps\<close>)
  then show "drop_bit 4 (header_of e) = ext_id e" .
  moreover have "ext_id e \<noteq> 0" using assms by (auto simp: info_wf_def)
  ultimately show "header_of e \<noteq> 0" by auto
  have "header_of e AND 0xf = ext_length e - 1"
    unfolding low_bits by (rule bit_word_eqI) (use bit_small [OF l] in \<open>fastforce simp: header_of_def bit_simps\<close>)
  then show "1 + (header_of e AND 0xf) = ext_length e" by simp
qed

lemma set_info_new: "i \<notin> ext_id ` set es \<Longrightarrow>
    set_info i len off (FindOrCreateExtensionInfo i es) = es @ [\<lparr>ext_id = i, ext_length = len, ext_offset = off\<rparr>]"
proof -
  assume i: "i \<notin> ext_id ` set es"
  have "set_info i len off (es @ [\<lparr>ext_id = i, ext_length = 0, ext_offset = 0\<rparr>]) = es @ [\<lparr>ext_id = i, ext_length = len, ext_offset = off\<rparr>]"
    using i by (induction es) auto
  then show ?thesis using i by (simp add: FindOrCreateExtensionInfo_def FindExtensionInfo_None [THEN iffD2])
qed

lemma parse_zeros:
  assumes "\<forall>j. es \<le> j \<and> j < cap \<longrightarrow> b ! (off + j) = 0"
  shows "snd (parse_extensions b off cap one es entries) = entries"
  using assms
proof (induction "cap - es" arbitrary: es rule: less_induct)
  case less
  define hl where "hl = (if one then kOneByteExtensionHeaderLength else kTwoByteExtensionHeaderLength)"
  note unf = parse_extensions_unfold [OF hl_def refl refl, where b = b and off = off and cap = cap and es = es and entries = entries]
  show ?case
  proof (cases "es + hl < cap")
    case True
    then have "b ! (off + es) = 0" "cap - (es + 1) < cap - es" "\<forall>j. es + 1 \<le> j \<and> j < cap \<longrightarrow> b ! (off + j) = 0" using less.prems by auto
    with less.hyps [OF this(2,3)] True show ?thesis by (simp only: unf if_True simp_thms)
  next
    case False
    then show ?thesis by (simp only: unf if_False snd_conv)
  qed
qed

lemma parse_laid_out:
  assumes "laid_out (off + n) es" "headers_written b es" "\<forall>e\<in>set es. info_wf e" "distinct (map ext_id (acc @ es))"
    and "n + block_size es \<le> cap" "off + cap < 2 ^ 16" "\<forall>j. n + block_size es \<le> j \<and> j < cap \<longrightarrow> b ! (off + j) = 0"
  shows "snd (parse_extensions b off cap True n acc) = acc @ es"
  using assms
proof (induction es arbitrary: n acc)
  case Nil
  then show ?case by (simp add: parse_zeros)
next
  case (Cons e es)
  have wf: "info_wf e" using Cons.prems(3) by simp
  have off: "unat (ext_offset e) = off + n + 1" and len: "1 \<le> unat (ext_length e)" "n + 1 + unat (ext_length e) \<le> cap"
    using Cons.prems(1,5) wf by (auto simp: info_wf_def)
  have b: "b ! (off + n) = header_of e" using Cons.prems(2) off by (simp add: headers_written_def)
  note dec = header_decode [OF wf]
  define hl where "hl = (if True then kOneByteExtensionHeaderLength else kTwoByteExtensionHeaderLength)"
  have hl: "hl = 1" by (simp add: hl_def)
  have i: "ext_id e = (if True then drop_bit 4 (b ! (off + n)) else b ! (off + n))" using dec(1) by (simp add: b)
  have l: "ext_length e = (if True then 1 + (b ! (off + n) AND 0xf) else b ! (off + n + 1))" using dec(2) by (simp add: b)
  have ids: "ext_id e \<noteq> 15" "ext_id e \<noteq> 0" using wf by (auto simp: info_wf_def)
  have entry: "\<lparr>ext_id = ext_id e, ext_length = ext_length e, ext_offset = of_nat (off + n + hl)\<rparr> = e"
  proof -
    have "of_nat (off + n + hl) = ext_offset e"
      unfolding word_eq_iff_unsigned [where ?'a = nat] hl by (subst u16_of_nat) (use off len Cons.prems(6) in auto)
    then show ?thesis by simp
  qed
  have new: "ext_id e \<notin> ext_id ` set acc" using Cons.prems(4) by auto
  have "parse_extensions b off cap True n acc = parse_extensions b off cap True (n + hl + unat (ext_length e)) (acc @ [e])"
    using len ids b dec(3) Cons.prems(6)
    unfolding parse_extensions_unfold [OF hl_def i l] set_info_new [OF new] entry by (simp add: hl)
  moreover have "snd (parse_extensions b off cap True (n + hl + unat (ext_length e)) (acc @ [e])) = (acc @ [e]) @ es"
    by (rule Cons.IH) (use Cons.prems in \<open>auto simp: hl headers_written_def add.assoc\<close>)
  ultimately show ?case by simp
qed

subsection \<open>The invariant\<close>

definition fixed_header :: "RtpPacket \<Rightarrow> bool" where
  "fixed_header p \<longleftrightarrow> (let d = rtp_data p in
     bit (d ! 0) 7 \<and> \<not> bit (d ! 0) 6 \<and> (bit (d ! 0) 5 \<longleftrightarrow> rtp_padding_size p \<noteq> 0) \<and> (bit (d ! 0) 4 \<longleftrightarrow> extension_entries p \<noteq> []) \<and>
     (bit (d ! 1) 7 \<longleftrightarrow> rtp_marker p) \<and> take_bit 7 (d ! 1) = rtp_payload_type p \<and>
     ReadBigEndian2 d 2 = rtp_sequence_number p \<and> ReadBigEndian4 d 4 = rtp_timestamp p \<and> ReadBigEndian4 d 8 = rtp_ssrc p)"

definition ext_block :: "RtpPacket \<Rightarrow> bool" where
  "ext_block p \<longleftrightarrow> (let d = rtp_data p; off = extensions_offset p; es = extensions_size p in
     distinct (map ext_id (extension_entries p)) \<and> (\<forall>e\<in>set (extension_entries p). info_wf e) \<and>
     es = block_size (extension_entries p) \<and> laid_out off (extension_entries p) \<and>
     (if extension_entries p = [] then payload_offset p = off - 4
      else payload_offset p = off + 4 * ((es + 3) div 4) \<and> ReadBigEndian2 d (off - 4) = kOneByteExtensionProfileId \<and>
           ReadBigEndian2 d (off - 2) = (of_nat ((es + 3) div 4) :: u16) \<and> headers_written d (extension_entries p) \<and>
           (\<forall>j. off + es \<le> j \<and> j < payload_offset p \<longrightarrow> d ! j = 0)))"

definition sizes_ok :: "RtpPacket \<Rightarrow> bool" where
  "sizes_ok p \<longleftrightarrow> buf_size (rtp_buffer p) = rtp_size p \<and> rtp_size p \<le> length (rtp_data p) \<and> 12 \<le> length (rtp_data p) \<and>
     4 dvd length (rtp_data p) \<and> length (rtp_data p) < 2 ^ 16 \<and> \<not> extmap_allow_mixed (rtp_extensions p)"

definition rtp_wf :: "RtpPacket \<Rightarrow> bool" where
  "rtp_wf p \<longleftrightarrow> sizes_ok p \<and> fixed_header p \<and> ext_block p \<and>
     (rtp_padding_size p \<noteq> 0 \<longrightarrow> rtp_data p ! (rtp_size p - 1) = rtp_padding_size p)"

definition same_packet :: "RtpPacket \<Rightarrow> RtpPacket \<Rightarrow> bool" where
  "same_packet p q \<longleftrightarrow> rtp_marker q = rtp_marker p \<and> rtp_payload_type q = rtp_payload_type p \<and>
     rtp_sequence_number q = rtp_sequence_number p \<and> rtp_timestamp q = rtp_timestamp p \<and> rtp_ssrc q = rtp_ssrc p \<and>
     Csrcs q = Csrcs p \<and> extension_entries q = extension_entries p \<and> payload_offset q = payload_offset p \<and>
     payload_size q = payload_size p \<and> rtp_padding_size q = rtp_padding_size p \<and> rtp_bytes q = rtp_bytes p"

lemma offset_ge: "16 \<le> extensions_offset p"
  by (simp add: extensions_offset_def)

lemma payload_offset_ge: "ext_block p \<Longrightarrow> 12 + 4 * num_csrc p \<le> payload_offset p"
  by (auto simp: ext_block_def Let_def extensions_offset_def split: if_splits)

lemma ParseBuffer_start:
  assumes "12 \<le> length b" "drop_bit 6 (b ! 0) = 2" "12 + unat (b ! 0 AND 0x0f) * 4 \<le> length b"
    and "b ! 0 AND 0x20 \<noteq> 0 \<Longrightarrow> b ! (length b - 1) \<noteq> 0"
    and "p1 = q\<lparr>rtp_marker := (b ! 1 AND 0x80 \<noteq> 0), rtp_payload_type := b ! 1 AND 0x7f,
      rtp_sequence_number := ReadBigEndian2 b 2, rtp_timestamp := ReadBigEndian4 b 4, rtp_ssrc := ReadBigEndian4 b 8,
      payload_offset := 12 + unat (b ! 0 AND 0x0f) * 4,
      rtp_padding_size := (if b ! 0 AND 0x20 \<noteq> 0 then b ! (length b - 1) else 0), extensions_size := 0, extension_entries := []\<rparr>"
    and "(if b ! 0 AND 0x10 \<noteq> 0 then parse_extension_block b p1 else (True, p1)) = (True, p2)"
    and "payload_offset p2 + unat (rtp_padding_size p2) \<le> length b"
  shows "ParseBuffer b q = (True, p2\<lparr>payload_size := length b - payload_offset p2 - unat (rtp_padding_size p2)\<rparr>)"
proof -
  have nz: "\<not> (b ! 0 AND 0x20 \<noteq> 0 \<and> (if b ! 0 AND 0x20 \<noteq> 0 then b ! (length b - 1) else 0) = 0)" using assms(4) by auto
  show ?thesis
    unfolding ParseBuffer_def Let_def
    using assms(1-3,6,7) nz by (simp only: assms(5) RtpPacket.simps kFixedHeaderSize_def kRtpVersion_def not_less [symmetric] if_False prod.case not_not simp_thms) auto
qed

lemma rtp_parse_back:
  assumes "rtp_wf p"
  shows "\<exists>q'. ParseBuffer (rtp_bytes p) q = (True, q') \<and> rtp_marker q' = rtp_marker p \<and> rtp_payload_type q' = rtp_payload_type p \<and>
     rtp_sequence_number q' = rtp_sequence_number p \<and> rtp_timestamp q' = rtp_timestamp p \<and> rtp_ssrc q' = rtp_ssrc p \<and>
     extension_entries q' = extension_entries p \<and> payload_offset q' = payload_offset p \<and>
     payload_size q' = payload_size p \<and> rtp_padding_size q' = rtp_padding_size p \<and> rtp_extensions q' = rtp_extensions q"
proof -
  let ?b = "rtp_bytes p" and ?d = "rtp_data p" and ?off = "extensions_offset p" and ?es = "extensions_size p"
  have sz: "rtp_size p \<le> length ?d" "length ?d < 65536" and hd: "fixed_header p" and ext: "ext_block p"
    and pad: "rtp_padding_size p \<noteq> 0 \<longrightarrow> ?d ! (rtp_size p - 1) = rtp_padding_size p"
    using assms by (simp_all add: rtp_wf_def sizes_ok_def)
  have po: "12 + 4 * num_csrc p \<le> payload_offset p" by (rule payload_offset_ge [OF ext])
  have le: "payload_offset p \<le> rtp_size p" by (simp add: rtp_size_def)
  have len: "length ?b = rtp_size p" using sz by (simp add: rtp_bytes_def)
  have nth: "j < rtp_size p \<Longrightarrow> ?b ! j = ?d ! j" for j by (simp add: rtp_bytes_def)
  have ge: "12 \<le> rtp_size p" using po le by linarith
  have b01: "?b ! 0 = ?d ! 0" "?b ! Suc 0 = ?d ! Suc 0" using nth [of 0] nth [of 1] ge by simp_all
  have words: "ReadBigEndian2 ?b 2 = (ReadBigEndian2 ?d 2 :: u16)" "ReadBigEndian4 ?b 4 = (ReadBigEndian4 ?d 4 :: u32)"
    "ReadBigEndian4 ?b 8 = (ReadBigEndian4 ?d 8 :: u32)"
    using ge by (simp_all add: ReadBigEndian2_def ReadBigEndian4_def nth)
  have last: "rtp_padding_size p \<noteq> 0 \<Longrightarrow> ?b ! (rtp_size p - 1) = rtp_padding_size p" using nth [of "rtp_size p - 1"] ge pad by simp
  have version: "drop_bit 6 (?d ! 0) = 2" using hd by (simp add: version_bits fixed_header_def Let_def)
  define p1 where "p1 = q\<lparr>rtp_marker := rtp_marker p, rtp_payload_type := rtp_payload_type p, rtp_sequence_number := rtp_sequence_number p,
    rtp_timestamp := rtp_timestamp p, rtp_ssrc := rtp_ssrc p, payload_offset := 12 + num_csrc p * 4, rtp_padding_size := rtp_padding_size p,
    extensions_size := 0, extension_entries := []\<rparr>"
  have flags: "(?b ! 1 AND 0x80 \<noteq> 0) = rtp_marker p" "?b ! 1 AND 0x7f = rtp_payload_type p"
      "(?b ! 0 AND 0x20 \<noteq> 0) = (rtp_padding_size p \<noteq> 0)" "unat (?b ! 0 AND 0x0f) = num_csrc p" "?b ! 0 AND 0x10 = ?d ! 0 AND 0x10"
    using hd b01 by (simp_all add: flag_bits low_bits fixed_header_def Let_def num_csrc_def)
  have reads: "ReadBigEndian2 ?b 2 = rtp_sequence_number p" "ReadBigEndian4 ?b 4 = rtp_timestamp p" "ReadBigEndian4 ?b 8 = rtp_ssrc p"
    using hd words by (simp_all add: fixed_header_def Let_def)
  have p1: "p1 = q\<lparr>rtp_marker := (?b ! 1 AND 0x80 \<noteq> 0), rtp_payload_type := ?b ! 1 AND 0x7f,
      rtp_sequence_number := ReadBigEndian2 ?b 2, rtp_timestamp := ReadBigEndian4 ?b 4, rtp_ssrc := ReadBigEndian4 ?b 8,
      payload_offset := 12 + unat (?b ! 0 AND 0x0f) * 4,
      rtp_padding_size := (if ?b ! 0 AND 0x20 \<noteq> 0 then ?b ! (length ?b - 1) else 0), extensions_size := 0, extension_entries := []\<rparr>"
    unfolding flags reads len p1_def using last by simp
  have start: "ParseBuffer ?b q = (True, p2\<lparr>payload_size := rtp_size p - payload_offset p2 - unat (rtp_padding_size p2)\<rparr>)"
    if "(if ?d ! 0 AND 0x10 \<noteq> 0 then parse_extension_block ?b p1 else (True, p1)) = (True, p2)"
      "payload_offset p2 + unat (rtp_padding_size p2) \<le> rtp_size p" for p2
    unfolding len [symmetric]
    by (rule ParseBuffer_start [OF _ _ _ _ p1]) (use ge po le version last that len b01 flags in auto)
  show ?thesis
  proof (cases "extension_entries p = []")
    case True
    then have "\<not> ?d ! 0 AND 0x10 \<noteq> 0" "payload_offset p = 12 + num_csrc p * 4"
      using hd ext by (simp_all add: flag_bits fixed_header_def ext_block_def Let_def extensions_offset_def)
    then show ?thesis
      using True start [of p1] by (simp add: p1_def rtp_size_def)
  next
    case False
    have flag: "?d ! 0 AND 0x10 \<noteq> 0" using False hd by (simp add: flag_bits fixed_header_def Let_def)
    have eo: "payload_offset p = ?off + 4 * ((?es + 3) div 4)" "ReadBigEndian2 ?d (?off - 4) = kOneByteExtensionProfileId"
      "ReadBigEndian2 ?d (?off - 2) = (of_nat ((?es + 3) div 4) :: u16)" "headers_written ?d (extension_entries p)"
      "\<forall>j. ?off + ?es \<le> j \<and> j < payload_offset p \<longrightarrow> ?d ! j = 0" "laid_out ?off (extension_entries p)"
      "distinct (map ext_id (extension_entries p))" "\<forall>e\<in>set (extension_entries p). info_wf e" "?es = block_size (extension_entries p)"
      using ext False by (simp_all add: ext_block_def Let_def)
    let ?cap = "4 * ((?es + 3) div 4)"
    have capge: "?es \<le> ?cap" by presburger
    have off: "?off = 12 + num_csrc p * 4 + 4" by (simp add: extensions_offset_def)
    have profile: "ReadBigEndian2 ?b (12 + num_csrc p * 4) = kOneByteExtensionProfileId"
      using eo(1,2) le off by (simp add: ReadBigEndian2_def nth)
    have words2: "unat (ReadBigEndian2 ?b (12 + num_csrc p * 4 + 2) :: u16) = (?es + 3) div 4"
    proof -
      have "ReadBigEndian2 ?b (12 + num_csrc p * 4 + 2) = (ReadBigEndian2 ?d (?off - 2) :: u16)"
        using eo(1) le off by (simp add: ReadBigEndian2_def nth)
      moreover have "(?es + 3) div 4 < 2 ^ 16" using eo(1) le sz by simp
      ultimately show ?thesis unfolding eo(3) by (simp only: u16_of_nat)
    qed
    have written: "headers_written ?b (extension_entries p)"
      unfolding headers_written_def
    proof
      fix e assume e: "e \<in> set (extension_entries p)"
      from laid_out_range [OF eo(6) e] have "unat (ext_offset e) \<le> ?off + ?es" unfolding eo(9) by simp
      then have "unat (ext_offset e) - 1 < rtp_size p" using eo(1) capge le ge by linarith
      then show "?b ! (unat (ext_offset e) - 1) = header_of e" using eo(4) e by (simp add: nth headers_written_def)
    qed
    have "snd (parse_extensions ?b ?off ?cap True 0 []) = [] @ extension_entries p"
      by (rule parse_laid_out) (use eo capge written le sz nth in auto)
    then obtain es' where pe: "parse_extensions ?b ?off ?cap True 0 [] = (es', extension_entries p)"
      by (cases "parse_extensions ?b ?off ?cap True 0 []") simp
    define p2 where "p2 = p1\<lparr>extensions_size := es', extension_entries := extension_entries p, payload_offset := payload_offset p\<rparr>"
    have block: "parse_extension_block ?b p1 = (True, p2)"
    proof -
      have po1: "payload_offset p1 = 12 + num_csrc p * 4" by (simp add: p1_def)
      have pe': "parse_extensions ?b (12 + num_csrc p * 4 + 4) ((?es + 3) div 4 * 4) True 0 [] = (es', extension_entries p)"
        using pe off by (simp add: mult.commute)
      show ?thesis
        unfolding parse_extension_block_def Let_def po1 words2 profile len
        using eo(1) le off pe' by (simp add: p2_def p1_def mult.commute)
    qed
    have "payload_offset p2 + unat (rtp_padding_size p2) \<le> rtp_size p" "rtp_size p - payload_offset p2 - unat (rtp_padding_size p2) = payload_size p"
      by (simp_all add: p2_def p1_def rtp_size_def)
    then show ?thesis
      using flag block start [of p2] by (simp add: p2_def p1_def)
  qed
qed

subsection \<open>The operations keep the invariant\<close>

text \<open>The bytes behind the fixed header on which the block of extensions rests.\<close>

definition ext_framed :: "RtpPacket \<Rightarrow> nat \<Rightarrow> bool" where
  "ext_framed p j \<longleftrightarrow> extension_entries p \<noteq> [] \<and> (extensions_offset p - 4 \<le> j \<and> j < extensions_offset p \<or>
     (\<exists>e\<in>set (extension_entries p). j = unat (ext_offset e) - 1) \<or> extensions_offset p + extensions_size p \<le> j \<and> j < payload_offset p)"

lemma ext_framed_range: "ext_block p \<Longrightarrow> ext_framed p j \<Longrightarrow> 12 \<le> j \<and> j < payload_offset p"
proof -
  assume p: "ext_block p" "ext_framed p j"
  have po: "payload_offset p = extensions_offset p + 4 * ((extensions_size p + 3) div 4)" "laid_out (extensions_offset p) (extension_entries p)"
    "extensions_size p = block_size (extension_entries p)"
    using p by (simp_all add: ext_block_def ext_framed_def Let_def)
  have le: "extensions_size p \<le> 4 * ((extensions_size p + 3) div 4)" by presburger
  have wf: "\<forall>e\<in>set (extension_entries p). info_wf e" using p(1) by (simp add: ext_block_def Let_def)
  show ?thesis
    using p(2) unfolding ext_framed_def
  proof (elim conjE disjE bexE)
    fix e assume e: "e \<in> set (extension_entries p)" "j = unat (ext_offset e) - 1"
    have "1 \<le> unat (ext_length e)" using wf e(1) by (simp add: info_wf_def)
    with laid_out_range [OF po(2) e(1)] show ?thesis using e(2) po le offset_ge [of p] by linarith
  qed (use po le offset_ge [of p] in auto)
qed

lemma ext_block_cong:
  assumes "ext_block p" "extension_entries q = extension_entries p" "extensions_size q = extensions_size p"
    and "payload_offset q = payload_offset p" "num_csrc q = num_csrc p" "\<And>j. ext_framed p j \<Longrightarrow> rtp_data q ! j = rtp_data p ! j"
  shows "ext_block q"
proof (cases "extension_entries p = []")
  case True
  then show ?thesis using assms by (simp add: ext_block_def Let_def extensions_offset_def)
next
  case False
  have off: "extensions_offset q = extensions_offset p" using assms(5) by (simp add: extensions_offset_def)
  have same: "extensions_offset p - 4 \<le> j \<Longrightarrow> j < extensions_offset p \<Longrightarrow> rtp_data q ! j = rtp_data p ! j"
    "e \<in> set (extension_entries p) \<Longrightarrow> rtp_data q ! (unat (ext_offset e) - Suc 0) = rtp_data p ! (unat (ext_offset e) - Suc 0)"
    "extensions_offset p + extensions_size p \<le> j \<Longrightarrow> j < payload_offset p \<Longrightarrow> rtp_data q ! j = rtp_data p ! j" for j e
    using assms(6) False by (auto simp: ext_framed_def)
  have reads: "ReadBigEndian2 (rtp_data q) (extensions_offset p - 4) = (ReadBigEndian2 (rtp_data p) (extensions_offset p - 4) :: u16)"
    "ReadBigEndian2 (rtp_data q) (extensions_offset p - 2) = (ReadBigEndian2 (rtp_data p) (extensions_offset p - 2) :: u16)"
    using offset_ge [of p] by (auto intro!: ReadBigEndian2_cong same(1))
  show ?thesis
    using assms(1) False unfolding ext_block_def Let_def assms(2,3,4) off reads headers_written_def
    by (auto simp: same)
qed

lemma num_csrc_cong: "take_bit 4 (rtp_data q ! 0) = take_bit 4 (rtp_data p ! 0) \<Longrightarrow> num_csrc q = num_csrc p"
  by (simp add: num_csrc_def low_bits)

lemma rtp_wf_cong:
  assumes "rtp_wf p" "fixed_header q" "length (rtp_data q) = length (rtp_data p)" "buf_size (rtp_buffer q) = buf_size (rtp_buffer p)"
    and "extension_entries q = extension_entries p" "extensions_size q = extensions_size p" "payload_offset q = payload_offset p"
    and "payload_size q = payload_size p" "rtp_padding_size q = rtp_padding_size p"
    and "extmap_allow_mixed (rtp_extensions q) = extmap_allow_mixed (rtp_extensions p)"
    and "take_bit 4 (rtp_data q ! 0) = take_bit 4 (rtp_data p ! 0)" "\<And>j. ext_framed p j \<Longrightarrow> rtp_data q ! j = rtp_data p ! j"
    and "rtp_padding_size p \<noteq> 0 \<Longrightarrow> rtp_data q ! (rtp_size p - 1) = rtp_data p ! (rtp_size p - 1)"
  shows "rtp_wf q"
proof -
  have "ext_block q"
    by (rule ext_block_cong [OF _ assms(5,6,7) num_csrc_cong [OF assms(11)] assms(12)]) (use assms(1) in \<open>simp_all add: rtp_wf_def\<close>)
  then show ?thesis
    using assms(1,2,3,4,13) by (simp add: rtp_wf_def sizes_ok_def rtp_size_def assms(7-10))
qed

lemma rtp_wf_facts:
  assumes "rtp_wf p"
  shows "12 \<le> payload_offset p" "payload_offset p \<le> rtp_size p" "rtp_size p \<le> length (rtp_data p)" "12 \<le> length (rtp_data p)"
    and "ext_framed p j \<Longrightarrow> 12 \<le> j \<and> j < payload_offset p"
    and "rtp_padding_size p \<noteq> 0 \<Longrightarrow> payload_offset p \<le> rtp_size p - 1 \<and> 12 \<le> rtp_size p - 1"
proof -
  have ext: "ext_block p" and sz: "sizes_ok p" using assms by (simp_all add: rtp_wf_def)
  show "12 \<le> payload_offset p" using payload_offset_ge [OF ext] by simp
  moreover show "payload_offset p \<le> rtp_size p" by (simp add: rtp_size_def)
  moreover show "ext_framed p j \<Longrightarrow> 12 \<le> j \<and> j < payload_offset p" by (rule ext_framed_range [OF ext])
  moreover have "rtp_padding_size p \<noteq> 0 \<Longrightarrow> payload_offset p < rtp_size p"
    unfolding rtp_size_def by (metis add_gr_0 less_add_same_cancel1 add.assoc unat_u8_0 neq0_conv)
  ultimately show "rtp_padding_size p \<noteq> 0 \<Longrightarrow> payload_offset p \<le> rtp_size p - 1 \<and> 12 \<le> rtp_size p - 1" by fastforce
qed (use assms in \<open>simp_all add: rtp_wf_def sizes_ok_def\<close>)

lemma read4: "off + 4 \<le> length d \<Longrightarrow> ReadBigEndian4 (WriteBigEndian4 d off v) off = (v :: u32)"
  unfolding byte_io_4 by (subst read_write_big) (simp_all add: take_bit_word_eq_self)

lemma ReadBigEndian4_cong:
  assumes "\<And>i. i < 4 \<Longrightarrow> d ! (off + i) = e ! (off + i)"
  shows "ReadBigEndian4 d off = ReadBigEndian4 e off"
  using assms [of 0] assms [of 1] assms [of 2] assms [of 3] by (simp add: ReadBigEndian4_def)

lemma WriteBigEndian2_other: "j < off \<or> off + 2 \<le> j \<Longrightarrow> WriteBigEndian2 d off v ! j = d ! j"
  by (auto simp: WriteBigEndian2_def)

lemma WriteBigEndian4_other: "j < off \<or> off + 4 \<le> j \<Longrightarrow> WriteBigEndian4 d off v ! j = d ! j"
  by (auto simp: WriteBigEndian4_def)

lemma Write_length [simp]: "length (WriteBigEndian2 d off v) = length d" "length (WriteBigEndian4 d off w) = length d"
  by (simp_all add: WriteBigEndian2_def WriteBigEndian4_def)

lemma WriteAt_simps [simp]:
  "rtp_data (WriteAt f p) = f (rtp_data p)" "buf_size (rtp_buffer (WriteAt f p)) = buf_size (rtp_buffer p)"
  "rtp_marker (WriteAt f p) = rtp_marker p" "rtp_payload_type (WriteAt f p) = rtp_payload_type p" "rtp_padding_size (WriteAt f p) = rtp_padding_size p"
  "rtp_sequence_number (WriteAt f p) = rtp_sequence_number p" "rtp_timestamp (WriteAt f p) = rtp_timestamp p" "rtp_ssrc (WriteAt f p) = rtp_ssrc p"
  "payload_offset (WriteAt f p) = payload_offset p" "payload_size (WriteAt f p) = payload_size p" "rtp_extensions (WriteAt f p) = rtp_extensions p"
  "extension_entries (WriteAt f p) = extension_entries p" "extensions_size (WriteAt f p) = extensions_size p"
  by (simp_all add: WriteAt_def)

text \<open>A change of the bytes 1 to 11 only.\<close>

lemma header_write_wf:
  assumes "rtp_wf p" "q = WriteAt f (p\<lparr>rtp_marker := m, rtp_payload_type := pt, rtp_sequence_number := sn, rtp_timestamp := ts, rtp_ssrc := ss\<rparr>)"
    and "fixed_header q" "\<And>d. length (f d) = length d" "\<And>d j. j = 0 \<or> 12 \<le> j \<Longrightarrow> f d ! j = d ! j"
  shows "rtp_wf q"
proof (rule rtp_wf_cong [OF assms(1,3)])
  show "length (rtp_data q) = length (rtp_data p)" "take_bit 4 (rtp_data q ! 0) = take_bit 4 (rtp_data p ! 0)"
    using assms(4) [of "rtp_data p"] assms(5) [of 0 "rtp_data p"] by (simp_all add: assms(2))
  show "rtp_data q ! j = rtp_data p ! j" if "ext_framed p j" for j
    using assms(5) [of j "rtp_data p"] rtp_wf_facts(5) [OF assms(1) that] by (simp add: assms(2))
  show "rtp_data q ! (rtp_size p - 1) = rtp_data p ! (rtp_size p - 1)" if "rtp_padding_size p \<noteq> 0"
    using assms(5) [of "rtp_size p - 1" "rtp_data p"] rtp_wf_facts(6) [OF assms(1) that] by (simp add: assms(2))
qed (simp_all add: assms(2))

lemma and_7F: "\<not> bit ((b :: u8) AND 0x7F) 7" "take_bit 7 (b AND 0x7F) = take_bit 7 b"
  by (simp_all add: low_bits bit_take_bit_iff)

lemma fixed_reads:
  "ReadBigEndian2 (d[Suc 0 := x]) 2 = (ReadBigEndian2 d 2 :: u16)" "ReadBigEndian4 (d[Suc 0 := x]) 4 = (ReadBigEndian4 d 4 :: u32)"
  "ReadBigEndian4 (d[Suc 0 := x]) 8 = (ReadBigEndian4 d 8 :: u32)"
  "ReadBigEndian4 (WriteBigEndian2 d 2 v) 4 = (ReadBigEndian4 d 4 :: u32)" "ReadBigEndian4 (WriteBigEndian2 d 2 v) 8 = (ReadBigEndian4 d 8 :: u32)"
  "ReadBigEndian2 (WriteBigEndian4 d 4 w) 2 = (ReadBigEndian2 d 2 :: u16)" "ReadBigEndian4 (WriteBigEndian4 d 4 w) 8 = (ReadBigEndian4 d 8 :: u32)"
  "ReadBigEndian2 (WriteBigEndian4 d 8 w) 2 = (ReadBigEndian2 d 2 :: u16)" "ReadBigEndian4 (WriteBigEndian4 d 8 w) 4 = (ReadBigEndian4 d 4 :: u32)"
  by (simp_all add: ReadBigEndian2_def ReadBigEndian4_def WriteBigEndian2_other WriteBigEndian4_other)

lemma rtp_wf_header: "rtp_wf p \<Longrightarrow> fixed_header p \<and> 12 \<le> length (rtp_data p)"
  by (simp add: rtp_wf_def sizes_ok_def)

lemma SetMarker_wf:
  assumes "rtp_wf p"
  shows "rtp_wf (SetMarker m p)"
proof (rule header_write_wf [OF assms, where m = m])
  show "SetMarker m p = WriteAt (\<lambda>d. d[1 := if m then rtp_data p ! 1 OR 0x80 else rtp_data p ! 1 AND 0x7F])
      (p\<lparr>rtp_marker := m, rtp_payload_type := rtp_payload_type p, rtp_sequence_number := rtp_sequence_number p,
         rtp_timestamp := rtp_timestamp p, rtp_ssrc := rtp_ssrc p\<rparr>)"
    by (simp add: SetMarker_def write_byte_def)
  show "fixed_header (SetMarker m p)"
    using rtp_wf_header [OF assms]
    by (cases m) (simp_all add: SetMarker_def write_byte_def fixed_header_def Let_def fixed_reads set_bits and_7F take_bit_set del: take_bit_and)
qed auto

lemma SetPayloadType_wf:
  assumes "rtp_wf p" "t < 0x80"
  shows "rtp_wf (SetPayloadType t p)"
proof (rule header_write_wf [OF assms(1), where pt = t])
  show "SetPayloadType t p = WriteAt (\<lambda>d. d[1 := (rtp_data p ! 1 AND 0x80) OR t])
      (p\<lparr>rtp_marker := rtp_marker p, rtp_payload_type := t, rtp_sequence_number := rtp_sequence_number p,
         rtp_timestamp := rtp_timestamp p, rtp_ssrc := rtp_ssrc p\<rparr>)"
    by (simp add: SetPayloadType_def write_byte_def)
  have "take_bit 7 t = t"
    using assms(2) by (simp add: word_eq_iff_unsigned [where ?'a = nat] unsigned_take_bit_eq take_bit_nat_eq_self word_less_nat_alt)
  moreover from this have "\<not> bit t 7" by (metis bit_take_bit_iff less_irrefl)
  ultimately show "fixed_header (SetPayloadType t p)"
    using rtp_wf_header [OF assms(1)]
    by (simp add: SetPayloadType_def write_byte_def fixed_header_def Let_def fixed_reads set_bits bit_or_iff take_bit_or take_bit_set)
qed auto

lemma SetSequenceNumber_wf:
  assumes "rtp_wf p"
  shows "rtp_wf (SetSequenceNumber n p)"
proof (rule header_write_wf [OF assms, where sn = n])
  show "SetSequenceNumber n p = WriteAt (\<lambda>d. WriteBigEndian2 d 2 n)
      (p\<lparr>rtp_marker := rtp_marker p, rtp_payload_type := rtp_payload_type p, rtp_sequence_number := n,
         rtp_timestamp := rtp_timestamp p, rtp_ssrc := rtp_ssrc p\<rparr>)"
    by (simp add: SetSequenceNumber_def)
  show "fixed_header (SetSequenceNumber n p)"
    using rtp_wf_header [OF assms]
    by (simp add: SetSequenceNumber_def fixed_header_def Let_def fixed_reads read2 WriteBigEndian2_other)
qed (auto simp: WriteBigEndian2_other)

lemma SetTimestamp_wf:
  assumes "rtp_wf p"
  shows "rtp_wf (SetTimestamp t p)"
proof (rule header_write_wf [OF assms, where ts = t])
  show "SetTimestamp t p = WriteAt (\<lambda>d. WriteBigEndian4 d 4 t)
      (p\<lparr>rtp_marker := rtp_marker p, rtp_payload_type := rtp_payload_type p, rtp_sequence_number := rtp_sequence_number p,
         rtp_timestamp := t, rtp_ssrc := rtp_ssrc p\<rparr>)"
    by (simp add: SetTimestamp_def)
  show "fixed_header (SetTimestamp t p)"
    using rtp_wf_header [OF assms]
    by (simp add: SetTimestamp_def fixed_header_def Let_def fixed_reads read4 WriteBigEndian4_other)
qed (auto simp: WriteBigEndian4_other)

lemma SetSsrc_wf:
  assumes "rtp_wf p"
  shows "rtp_wf (SetSsrc n p)"
proof (rule header_write_wf [OF assms, where ss = n])
  show "SetSsrc n p = WriteAt (\<lambda>d. WriteBigEndian4 d 8 n)
      (p\<lparr>rtp_marker := rtp_marker p, rtp_payload_type := rtp_payload_type p, rtp_sequence_number := rtp_sequence_number p,
         rtp_timestamp := rtp_timestamp p, rtp_ssrc := n\<rparr>)"
    by (simp add: SetSsrc_def)
  show "fixed_header (SetSsrc n p)"
    using rtp_wf_header [OF assms]
    by (simp add: SetSsrc_def fixed_header_def Let_def fixed_reads read4 WriteBigEndian4_other)
qed (auto simp: WriteBigEndian4_other)

text \<open>Writing into the payload or into the data of an extension.\<close>

definition view_byte :: "RtpPacket \<Rightarrow> nat \<Rightarrow> bool" where
  "view_byte p j \<longleftrightarrow> payload_offset p \<le> j \<and> j < payload_offset p + payload_size p \<or>
     (\<exists>e\<in>set (extension_entries p). unat (ext_offset e) \<le> j \<and> j < unat (ext_offset e) + unat (ext_length e))"

lemma laid_out_view:
  "laid_out pos es \<Longrightarrow> e \<in> set es \<Longrightarrow> e' \<in> set es \<Longrightarrow> unat (ext_offset e) \<le> j \<Longrightarrow>
     j < unat (ext_offset e) + unat (ext_length e) \<Longrightarrow> j \<noteq> unat (ext_offset e') - 1"
proof (induction es arbitrary: pos)
  case (Cons a es)
  have "e' \<in> set es \<Longrightarrow> pos + 1 + unat (ext_length a) < unat (ext_offset e')"
    "e \<in> set es \<Longrightarrow> pos + 1 + unat (ext_length a) < unat (ext_offset e)"
    using laid_out_range Cons.prems(1) by fastforce+
  then show ?case using Cons by fastforce
qed simp

lemma write_view_wf:
  assumes "rtp_wf p" "\<And>j. j < length (rtp_data p) \<Longrightarrow> rtp_data q ! j \<noteq> rtp_data p ! j \<Longrightarrow> view_byte p j" "length (rtp_data q) = length (rtp_data p)"
    and "q = WriteAt f p"
  shows "rtp_wf q"
proof -
  note facts = rtp_wf_facts [OF assms(1)]
  have ext: "ext_block p" and hd: "fixed_header p" using assms(1) by (simp_all add: rtp_wf_def)
  have bounds: "extensions_offset p < unat (ext_offset e) \<and> unat (ext_offset e) + unat (ext_length e) \<le> extensions_offset p + extensions_size p \<and>
      extensions_offset p + extensions_size p \<le> payload_offset p"
    if "e \<in> set (extension_entries p)" for e
  proof -
    have b: "laid_out (extensions_offset p) (extension_entries p)" "extensions_size p = block_size (extension_entries p)"
      "payload_offset p = extensions_offset p + 4 * ((extensions_size p + 3) div 4)"
      using ext that by (auto simp: ext_block_def Let_def split: if_splits)
    have "extensions_size p \<le> 4 * ((extensions_size p + 3) div 4)" by presburger
    then show ?thesis using laid_out_range [OF b(1) that] b(2,3) by linarith
  qed
  have low: "\<not> view_byte p j" if "j < 12" for j
    using that facts(1) bounds offset_ge [of p] by (fastforce simp: view_byte_def)
  have framed: "\<not> view_byte p j" if j: "ext_framed p j" for j
  proof
    assume "view_byte p j"
    then obtain e where e: "e \<in> set (extension_entries p)" "unat (ext_offset e) \<le> j" "j < unat (ext_offset e) + unat (ext_length e)"
      using ext_framed_range [OF ext j] by (auto simp: view_byte_def)
    have "j \<noteq> unat (ext_offset e') - 1" if "e' \<in> set (extension_entries p)" for e'
      using laid_out_view [OF _ e(1) that e(2,3)] ext by (auto simp: ext_block_def Let_def)
    moreover have "extensions_offset p \<le> j" "j < extensions_offset p + extensions_size p" using bounds [OF e(1)] e(2,3) by auto
    ultimately show False using j by (auto simp: ext_framed_def)
  qed
  have last: "\<not> view_byte p (rtp_size p - 1)" if "rtp_padding_size p \<noteq> 0"
  proof
    assume "view_byte p (rtp_size p - 1)"
    moreover have "0 < unat (rtp_padding_size p)" using that by (simp add: unat_gt_0)
    ultimately show False using bounds facts(6) [OF that] by (fastforce simp: view_byte_def rtp_size_def)
  qed
  have same: "j < 12 \<Longrightarrow> rtp_data q ! j = rtp_data p ! j" for j using assms(2) [of j] low facts(4) by fastforce
  have hq: "fixed_header q"
    using hd same [of 0] same [of 1]
    by (simp add: fixed_header_def Let_def assms(4) [symmetric] ReadBigEndian2_def ReadBigEndian4_def same) (simp add: assms(4))
  show ?thesis
  proof (rule rtp_wf_cong [OF assms(1) hq assms(3)])
    show "rtp_data q ! j = rtp_data p ! j" if "ext_framed p j" for j
      using assms(2) [of j] framed [OF that] facts(2,3) ext_framed_range [OF ext that] by fastforce
    show "rtp_data q ! (rtp_size p - 1) = rtp_data p ! (rtp_size p - 1)" if "rtp_padding_size p \<noteq> 0"
      using assms(2) [of "rtp_size p - 1"] last [OF that] facts(3) facts(6) [OF that] by fastforce
    show "take_bit 4 (rtp_data q ! 0) = take_bit 4 (rtp_data p ! 0)" using same [of 0] by simp
  qed (simp_all add: assms(4))
qed

lemma buf_SetSize_fits: "n \<le> length (buf_data b) \<Longrightarrow> buf_SetSize fresh n b = b\<lparr>buf_size := n\<rparr>"
  by (simp add: buf_SetSize_def EnsureCapacityWithHeadroom_def buf_capacity_def)

lemma rtp_SetSize_fits: "n \<le> length (rtp_data p) \<Longrightarrow> rtp_SetSize fresh n p = p\<lparr>rtp_buffer := (rtp_buffer p)\<lparr>buf_size := n\<rparr>\<rparr>"
  by (simp add: rtp_SetSize_def buf_SetSize_fits)

lemma ext_block_simps:
  "fixed_header (p\<lparr>payload_size := n, rtp_buffer := (rtp_buffer p)\<lparr>buf_size := k\<rparr>\<rparr>) = fixed_header p"
  "ext_block (p\<lparr>payload_size := n, rtp_buffer := (rtp_buffer p)\<lparr>buf_size := k\<rparr>\<rparr>) = ext_block p"
  by (simp_all add: fixed_header_def ext_block_def Let_def extensions_offset_def num_csrc_def)

lemma SetPayloadSize_eq:
  "SetPayloadSize fresh n p =
     (if payload_offset p + n > length (rtp_data p) then (None, p)
      else (Some (payload_offset p), p\<lparr>payload_size := n, rtp_buffer := (rtp_buffer p)\<lparr>buf_size := payload_offset p + n\<rparr>\<rparr>))"
  by (simp add: SetPayloadSize_def rtp_capacity_def buf_capacity_def rtp_SetSize_fits)

lemma SetPayloadSize_wf:
  assumes "rtp_wf p" "rtp_padding_size p = 0"
  shows "rtp_wf (snd (SetPayloadSize fresh n p))"
  using assms by (simp add: SetPayloadSize_eq rtp_wf_def ext_block_simps sizes_ok_def rtp_size_def)

lemma AllocatePayload_wf:
  assumes "rtp_wf p" "rtp_padding_size p = 0"
  shows "rtp_wf (snd (AllocatePayload fresh n p))"
proof -
  have "rtp_padding_size (snd (SetPayloadSize fresh 0 p)) = 0" using assms(2) by (simp add: SetPayloadSize_eq)
  then show ?thesis unfolding AllocatePayload_def using assms SetPayloadSize_wf by blast
qed

lemma IdentifyExtensions_wf:
  assumes "rtp_wf p" "\<not> extmap_allow_mixed m"
  shows "rtp_wf (IdentifyExtensions m p)"
proof (rule rtp_wf_cong [OF assms(1)])
  show "fixed_header (IdentifyExtensions m p)"
    using rtp_wf_header [OF assms(1)] by (simp add: fixed_header_def IdentifyExtensions_def Let_def)
qed (use assms in \<open>simp_all add: IdentifyExtensions_def rtp_wf_def sizes_ok_def\<close>)

definition cleared :: "RtpHeaderExtensionMap \<Rightarrow> u8 list \<Rightarrow> RtpPacket" where
  "cleared m d = \<lparr>rtp_marker = False, rtp_payload_type = 0, rtp_padding_size = 0, rtp_sequence_number = 0, rtp_timestamp = 0,
     rtp_ssrc = 0, payload_offset = 12, payload_size = 0, rtp_extensions = m, extension_entries = [], extensions_size = 0,
     rtp_buffer = \<lparr>buf_data = d, buf_size = 12\<rparr>\<rparr>"

lemma new_RtpPacket_cleared:
  "12 \<le> capacity \<Longrightarrow> new_RtpPacket fresh extensions capacity =
     cleared (case extensions of None \<Rightarrow> new_RtpHeaderExtensionMap False | Some m \<Rightarrow> m)
       ((memset0 (map fresh [0..<capacity]) 0 12)[0 := push_bit 6 2])"
  by (simp add: new_RtpPacket_def Clear_def Let_def write_byte_def rtp_SetSize_fits new_Buffer_def WriteAt_def cleared_def)

lemma cleared_wf:
  assumes "\<not> extmap_allow_mixed m" "12 \<le> length d" "4 dvd length d" "length d < 2 ^ 16" "d ! 0 = 0x80" "\<And>j. 0 < j \<Longrightarrow> j < 12 \<Longrightarrow> d ! j = 0"
  shows "rtp_wf (cleared m d)"
proof -
  have low: "take_bit 4 (0x80 :: u8) = 0" by simp
  have "fixed_header (cleared m d)"
    unfolding fixed_header_def Let_def by (simp add: cleared_def assms(5,6) flag_bit(4) ReadBigEndian2_def ReadBigEndian4_def)
  moreover have "ext_block (cleared m d)"
    by (simp add: ext_block_def Let_def extensions_offset_def num_csrc_def low_bits cleared_def assms(5) low)
  ultimately show ?thesis using assms(1-4) by (simp add: rtp_wf_def sizes_ok_def cleared_def rtp_size_def)
qed

lemma new_RtpPacket_wf:
  assumes "12 \<le> capacity" "4 dvd capacity" "capacity < 2 ^ 16" "\<And>m. extensions = Some m \<Longrightarrow> \<not> extmap_allow_mixed m"
  shows "rtp_wf (new_RtpPacket fresh extensions capacity)"
  unfolding new_RtpPacket_cleared [OF assms(1)]
  by (rule cleared_wf) (use assms in \<open>auto simp: memset0_nth new_RtpHeaderExtensionMap_def split: option.split\<close>)

subsection \<open>Adding an extension\<close>

lemma memset0_other: "length d = k \<Longrightarrow> j < k \<Longrightarrow> j < off \<or> off + n \<le> j \<Longrightarrow> memset0 d off n ! j = d ! j"
  by (auto simp: memset0_nth)

definition ext_data :: "u8 list \<Rightarrow> nat \<Rightarrow> nat \<Rightarrow> u8 \<Rightarrow> nat \<Rightarrow> u8 list" where
  "ext_data d off es i len =
     memset0 (WriteBigEndian2 ((if es = 0 then WriteBigEndian2 (d[0 := d ! 0 OR 0x10]) (off - 4) kOneByteExtensionProfileId else d)
                [off + es := push_bit 4 i OR of_nat (len - 1)]) (off - 2) (of_nat ((es + 1 + len + 3) div 4) :: u16))
       (off + (es + 1 + len)) (4 * ((es + 1 + len + 3) div 4) - (es + 1 + len))"

lemma ext_data_nth:
  assumes "16 \<le> off" "off + 4 * ((es + 1 + len + 3) div 4) \<le> length d"
  shows "length (ext_data d off es i len) = length d"
    and "ext_data d off es i len ! 0 = (if es = 0 then d ! 0 OR 0x10 else d ! 0)"
    and "0 < j \<Longrightarrow> j < off - 4 \<Longrightarrow> ext_data d off es i len ! j = d ! j"
    and "off \<le> j \<Longrightarrow> j < off + es \<Longrightarrow> ext_data d off es i len ! j = d ! j"
    and "ext_data d off es i len ! (off + es) = push_bit 4 i OR of_nat (len - 1)"
    and "off + (es + 1 + len) \<le> j \<Longrightarrow> j < off + 4 * ((es + 1 + len + 3) div 4) \<Longrightarrow> ext_data d off es i len ! j = 0"
    and "ReadBigEndian2 (ext_data d off es i len) (off - 2) = (of_nat ((es + 1 + len + 3) div 4) :: u16)"
    and "es = 0 \<Longrightarrow> ReadBigEndian2 (ext_data d off es i len) (off - 4) = kOneByteExtensionProfileId"
    and "es \<noteq> 0 \<Longrightarrow> ReadBigEndian2 (ext_data d off es i len) (off - 4) = (ReadBigEndian2 d (off - 4) :: u16)"
proof -
  let ?new = "es + 1 + len" and ?x = "push_bit 4 i OR of_nat (len - 1)"
  let ?w = "(?new + 3) div 4"
  define d1 where "d1 = (if es = 0 then WriteBigEndian2 (d[0 := d ! 0 OR 0x10]) (off - 4) kOneByteExtensionProfileId else d)"
  define d3 where "d3 = WriteBigEndian2 (d1[off + es := ?x]) (off - 2) (of_nat ?w :: u16)"
  have e: "ext_data d off es i len = memset0 d3 (off + ?new) (4 * ?w - ?new)" by (simp only: ext_data_def d3_def d1_def)
  have new: "?new \<le> 4 * ?w" by presburger
  have l1: "length d1 = length d" by (simp add: d1_def)
  have l3: "length d3 = length d" by (simp add: d3_def l1)
  show "length (ext_data d off es i len) = length d" by (simp add: e l3)
  have low: "ext_data d off es i len ! j = d3 ! j" if "j < off + ?new" for j
    unfolding e by (rule memset0_other [OF l3]) (use that assms(2) new in auto)
  have d3: "d3 ! j = (if j = off + es then ?x else d1 ! j)" if "j < off - 2 \<or> off \<le> j" "j < length d" for j
    unfolding d3_def by (subst WriteBigEndian2_other) (use that assms(1) in \<open>auto simp: l1 nth_list_update\<close>)
  have in_range: "off + es < length d" using assms(2) new by linarith
  show "ext_data d off es i len ! 0 = (if es = 0 then d ! 0 OR 0x10 else d ! 0)"
  proof -
    have "0 < length d" using in_range by linarith
    then show ?thesis using assms low [of 0] d3 [of 0] by (auto simp: d1_def WriteBigEndian2_other)
  qed
  show "0 < j \<Longrightarrow> j < off - 4 \<Longrightarrow> ext_data d off es i len ! j = d ! j"
  proof -
    assume j: "0 < j" "j < off - 4"
    then have "j < length d" "j < off - 2" "j < off + ?new" "j \<noteq> off + es" using in_range by linarith+
    then show ?thesis using j assms(1) low [of j] d3 [of j] by (simp add: d1_def WriteBigEndian2_other)
  qed
  show "off \<le> j \<Longrightarrow> j < off + es \<Longrightarrow> ext_data d off es i len ! j = d ! j"
    using assms in_range low [of j] d3 [of j] by (auto simp: d1_def)
  show "ext_data d off es i len ! (off + es) = ?x"
    using in_range low [of "off + es"] d3 [of "off + es"] by simp
  show "off + ?new \<le> j \<Longrightarrow> j < off + 4 * ?w \<Longrightarrow> ext_data d off es i len ! j = 0"
    unfolding e by (subst memset0_nth) (use assms(2) l3 new in auto)
  have "ReadBigEndian2 (ext_data d off es i len) (off - 2) = (ReadBigEndian2 d3 (off - 2) :: u16)"
    by (rule ReadBigEndian2_cong) (use assms(1) low in auto)
  also have "\<dots> = of_nat ?w" unfolding d3_def by (rule read2) (use in_range l1 assms(1) in simp)
  finally show "ReadBigEndian2 (ext_data d off es i len) (off - 2) = (of_nat ?w :: u16)" .
  have prof: "ReadBigEndian2 (ext_data d off es i len) (off - 4) = (ReadBigEndian2 d1 (off - 4) :: u16)"
  proof (rule ReadBigEndian2_cong)
    have "off - 4 < length d" "off - 4 + 1 < length d" "off - 4 \<noteq> off + es" "off - 4 + 1 \<noteq> off + es"
      "off - 4 < off - 2" "off - 4 + 1 < off - 2" "off - 4 < off + ?new" "off - 4 + 1 < off + ?new" using assms(1) in_range by linarith+
    then show "ext_data d off es i len ! (off - 4) = d1 ! (off - 4)" "ext_data d off es i len ! (off - 4 + 1) = d1 ! (off - 4 + 1)"
      using low [of "off - 4"] d3 [of "off - 4"] low [of "off - 4 + 1"] d3 [of "off - 4 + 1"] by simp_all
  qed
  show "es = 0 \<Longrightarrow> ReadBigEndian2 (ext_data d off es i len) (off - 4) = kOneByteExtensionProfileId"
    unfolding prof d1_def using read2 [of "off - 4" "d[0 := d ! 0 OR 0x10]" kOneByteExtensionProfileId] in_range assms(1) by simp
  show "es \<noteq> 0 \<Longrightarrow> ReadBigEndian2 (ext_data d off es i len) (off - 4) = (ReadBigEndian2 d (off - 4) :: u16)"
    unfolding prof by (simp add: d1_def)
qed

text \<open>What \<open>add_extension\<close> does for the one-byte profile when the extension fits.\<close>

lemma add_extension_eq:
  assumes "off = extensions_offset p" "es = extensions_size p" "off + (es + 1 + len) \<le> length (rtp_data p)"
    and "off + 4 * ((es + 1 + len + 3) div 4) \<le> length (rtp_data p)" "length (rtp_data p) < 2 ^ 16" "len \<le> 16"
  shows "add_extension fresh kOneByteExtensionProfileId i len p =
    (Some (off + es + 1, len),
     p\<lparr>extension_entries := extension_entries p @ [\<lparr>ext_id = i, ext_length = of_nat len, ext_offset = of_nat (off + es + 1)\<rparr>],
       extensions_size := es + 1 + len, payload_offset := off + 4 * ((es + 1 + len + 3) div 4),
       rtp_buffer := \<lparr>buf_data = ext_data (rtp_data p) off es i len, buf_size = off + 4 * ((es + 1 + len + 3) div 4)\<rparr>\<rparr>)"
proof -
  let ?new = "es + 1 + len" and ?d = "rtp_data p"
  let ?w = "(?new + 3) div 4"
  have w: "4 * ?w < 2 ^ 16" using assms(4,5) by linarith
  have w1: "unat (of_nat ?w :: u16) = ?w" by (rule u16_of_nat) (use w in linarith)
  have w4: "unat (4 * of_nat ?w :: u16) = 4 * ?w"
    using u16_of_nat [OF w] by (simp only: of_nat_mult of_nat_numeral)
  have eo: "unat (of_nat (off + es + 1) :: u16) = off + es + 1" by (rule u16_of_nat) (use assms(3,5) in linarith)
  have el: "unat (of_nat len :: u8) = len" by (rule u8_of_nat) (use assms(6) in simp)
  define d1 where "d1 = (if es = 0 then WriteBigEndian2 (?d[0 := ?d ! 0 OR 0x10]) (off - 4) kOneByteExtensionProfileId else ?d)"
  define p1 where "p1 = p\<lparr>rtp_buffer := (rtp_buffer p)\<lparr>buf_data := d1\<rparr>\<rparr>"
  have p1: "(if extensions_size p = 0 then WriteAt (\<lambda>d. WriteBigEndian2 d (off - 4) kOneByteExtensionProfileId) (write_byte 0 (?d ! 0 OR 0x10) p) else p) = p1"
    by (simp add: p1_def d1_def write_byte_def WriteAt_def assms(2))
  have len: "length (ext_data ?d off es i len) = length ?d"
    by (rule ext_data_nth(1)) (use assms offset_ge [of p] in simp_all)
  define p2 where "p2 = p1\<lparr>rtp_buffer := (rtp_buffer p)\<lparr>buf_data := d1[off + es := push_bit 4 i OR of_nat (len - 1)]\<rparr>,
    extension_entries := extension_entries p @ [\<lparr>ext_id = i, ext_length = of_nat len, ext_offset = of_nat (off + es + 1)\<rparr>], extensions_size := ?new\<rparr>"
  have p2: "(write_byte (off + es) (push_bit 4 i OR of_nat (len - 1)) p1)\<lparr>extension_entries := extension_entries p @
      [\<lparr>ext_id = i, ext_length = of_nat len, ext_offset = of_nat (off + es + 1)\<rparr>], extensions_size := ?new\<rparr> = p2"
    by (simp add: p2_def p1_def write_byte_def WriteAt_def)
  have pad: "SetExtensionLengthMaybeAddZeroPadding off p2 = (4 * ?w, p2\<lparr>rtp_buffer := (rtp_buffer p)\<lparr>buf_data := ext_data ?d off es i len\<rparr>\<rparr>)"
  proof -
    have s: "extensions_size p2 = ?new" by (simp add: p2_def)
    show ?thesis
      unfolding SetExtensionLengthMaybeAddZeroPadding_def Let_def s w1 w4
      by (simp add: WriteAt_def p2_def p1_def ext_data_def d1_def)
  qed
  have entries: "extension_entries (write_byte (off + es) x p1) = extension_entries p" for x
    by (simp add: write_byte_def p1_def)
  have fits: "\<not> off + ?new > rtp_capacity p" using assms(3) by (simp add: rtp_capacity_def buf_capacity_def)
  have size1: "extensions_size p1 = es" "extensions_size (write_byte j x p1) = es" for j x by (simp_all add: p1_def assms(2) write_byte_def)
  show ?thesis
    unfolding add_extension_def Let_def assms(1) [symmetric] if_True refl kOneByteExtensionHeaderLength_def
    unfolding assms(2) [symmetric] simp_thms if_True
    using fits p1 p2 pad len
    apply (simp only: if_False assms(2) [symmetric] p1 size1 entries p2 pad prod.case eo el)
    by (simp add: rtp_SetSize_fits assms(4)) (use assms(4) in \<open>simp add: p2_def p1_def rtp_SetSize_fits\<close>)
qed

lemma add_extension_wf:
  assumes "rtp_wf p" "payload_size p = 0" "rtp_padding_size p = 0" "i \<notin> ext_id ` set (extension_entries p)"
    and "1 \<le> unat i" "unat i \<le> 14" "1 \<le> len" "len \<le> 16" "add_extension fresh kOneByteExtensionProfileId i len p = (v, q)"
  shows "rtp_wf q \<and> (\<forall>off n. v = Some (off, n) \<longrightarrow> n = len \<and>
    extension_entries q = extension_entries p @ [\<lparr>ext_id = i, ext_length = of_nat len, ext_offset = of_nat off\<rparr>] \<and> unat (of_nat off :: u16) = off)"
proof (cases "extensions_offset p + (extensions_size p + 1 + len) > rtp_capacity p")
  case True
  then have "(v, q) = (None, p)" using assms(9) unfolding add_extension_def Let_def by simp
  then show ?thesis using assms(1) by simp
next
  case False
  let ?off = "extensions_offset p" and ?es = "extensions_size p" and ?d = "rtp_data p"
  let ?w = "(?es + 1 + len + 3) div 4" and ?e = "\<lparr>ext_id = i, ext_length = of_nat len, ext_offset = of_nat (extensions_offset p + extensions_size p + 1)\<rparr>"
  have p: "fixed_header p" "ext_block p" "sizes_ok p" using assms(1) by (simp_all add: rtp_wf_def)
  have cap: "?off + (?es + 1 + len) \<le> length ?d" "length ?d < 2 ^ 16" "4 dvd length ?d"
    using False p(3) by (simp_all add: rtp_capacity_def buf_capacity_def sizes_ok_def)
  have "4 dvd ?off" by (simp add: extensions_offset_def)
  then have fit: "?off + 4 * ?w \<le> length ?d" using cap(1,3) by (elim dvdE) presburger
  have q: "v = Some (?off + ?es + 1, len)" "q = p\<lparr>extension_entries := extension_entries p @ [?e],
       extensions_size := ?es + 1 + len, payload_offset := ?off + 4 * ?w,
       rtp_buffer := \<lparr>buf_data = ext_data ?d ?off ?es i len, buf_size = ?off + 4 * ?w\<rparr>\<rparr>"
    using assms(9) unfolding add_extension_eq [OF refl refl cap(1) fit cap(2) assms(8)] by simp_all
  note nth = ext_data_nth [OF offset_ge fit, where i = i]
  have blk: "distinct (map ext_id (extension_entries p))" "\<forall>e\<in>set (extension_entries p). info_wf e" "?es = block_size (extension_entries p)"
    "laid_out ?off (extension_entries p)"
    using p(2) by (simp_all add: ext_block_def Let_def)
  have empty: "?es = 0 \<longleftrightarrow> extension_entries p = []" using blk(3) by (cases "extension_entries p") simp_all
  have el: "unat (of_nat len :: u8) = len" by (rule u8_of_nat) (use assms(8) in simp)
  have eo: "unat (of_nat (?off + ?es + 1) :: u16) = ?off + ?es + 1" by (rule u16_of_nat) (use cap in linarith)
  have low: "take_bit 4 (rtp_data q ! 0) = take_bit 4 (?d ! 0)" by (simp add: q(2) nth(2) take_bit_set)
  have qoff: "extensions_offset q = ?off" using num_csrc_cong [OF low] by (simp add: extensions_offset_def)
  have small: "j < 12 \<Longrightarrow> 0 < j \<Longrightarrow> rtp_data q ! j = ?d ! j" for j using offset_ge [of p] by (simp add: q(2) nth(3))
  have reads: "ReadBigEndian2 (rtp_data q) 2 = (ReadBigEndian2 ?d 2 :: u16)" "ReadBigEndian4 (rtp_data q) 4 = (ReadBigEndian4 ?d 4 :: u32)"
    "ReadBigEndian4 (rtp_data q) 8 = (ReadBigEndian4 ?d 8 :: u32)" "rtp_data q ! 1 = ?d ! 1"
    by (simp_all add: ReadBigEndian2_def ReadBigEndian4_def small)
  have hdr: "fixed_header q"
    using p(1) unfolding fixed_header_def Let_def reads by (simp add: q(2) nth(2) set_bits empty)
  have profile: "ReadBigEndian2 (rtp_data q) (?off - 4) = kOneByteExtensionProfileId"
    using nth(8,9) p(2) empty by (cases "?es = 0") (auto simp: q(2) ext_block_def Let_def)
  have written: "headers_written (rtp_data q) (extension_entries q)"
    unfolding headers_written_def
  proof
    fix e assume "e \<in> set (extension_entries q)"
    then consider "e = ?e" | "e \<in> set (extension_entries p)" by (auto simp: q(2))
    then show "rtp_data q ! (unat (ext_offset e) - 1) = header_of e"
    proof cases
      case 1
      have "of_nat (len - 1) = (of_nat len - 1 :: u8)" using assms(7) by (simp add: of_nat_diff)
      then show ?thesis using nth(5) by (simp only: 1 q(2) header_of_def ExtensionInfo.simps eo) simp
    next
      case 2
      have ne: "extension_entries p \<noteq> []" using 2 by auto
      have "?off < unat (ext_offset e) \<and> unat (ext_offset e) + unat (ext_length e) \<le> ?off + ?es"
        using laid_out_range [OF blk(4) 2] blk(3) by simp
      moreover have "1 \<le> unat (ext_length e)" using blk(2) 2 by (simp add: info_wf_def)
      ultimately have "?off \<le> unat (ext_offset e) - 1" "unat (ext_offset e) - 1 < ?off + ?es" by linarith+
      from nth(4) [OF this] have "rtp_data q ! (unat (ext_offset e) - 1) = ?d ! (unat (ext_offset e) - 1)" by (simp add: q(2))
      then show ?thesis using p(2) 2 ne by (simp add: ext_block_def Let_def headers_written_def)
    qed
  qed
  have new: "info_wf ?e" using assms(5-8) el by (simp add: info_wf_def)
  have "laid_out ?off (extension_entries q)"
    using blk(3,4) eo by (simp add: q(2) laid_out_append)
  moreover have "extensions_size q = block_size (extension_entries q)" using blk(3) el by (simp add: q(2))
  moreover have "ReadBigEndian2 (rtp_data q) (?off - 2) = (of_nat ?w :: u16)" using nth(7) by (simp add: q(2))
  moreover have "\<forall>j. ?off + extensions_size q \<le> j \<and> j < payload_offset q \<longrightarrow> rtp_data q ! j = 0" using nth(6) by (simp add: q(2))
  ultimately have "ext_block q"
    using profile written new blk(1,2) assms(4) unfolding ext_block_def Let_def qoff by (auto simp: q(2))
  moreover have "sizes_ok q" using p(3) fit nth(1) assms(2,3) by (simp add: sizes_ok_def q(2) rtp_size_def)
  ultimately have "rtp_wf q" using hdr assms(3) by (simp add: rtp_wf_def q(2))
  then show ?thesis using q eo by simp
qed

text \<open>The members that adding an extension leaves alone.\<close>

definition kept :: "RtpPacket \<Rightarrow> RtpPacket \<Rightarrow> bool" where
  "kept p q \<longleftrightarrow> rtp_marker q = rtp_marker p \<and> rtp_payload_type q = rtp_payload_type p \<and> rtp_padding_size q = rtp_padding_size p \<and>
     rtp_sequence_number q = rtp_sequence_number p \<and> rtp_timestamp q = rtp_timestamp p \<and> rtp_ssrc q = rtp_ssrc p \<and>
     payload_size q = payload_size p \<and> rtp_extensions q = rtp_extensions p \<and> length (rtp_data q) = length (rtp_data p)"

lemma kept_refl [simp]: "kept p p"
  by (simp add: kept_def)

lemma kept_trans: "kept p q \<Longrightarrow> kept q r \<Longrightarrow> kept p r"
  by (simp add: kept_def)

lemma kept_WriteAt: "(\<And>d. length (f d) = length d) \<Longrightarrow> kept p (WriteAt f p)"
  by (simp add: kept_def)

text \<open>How much the block of extensions can grow.\<close>

definition grown :: "RtpPacket \<Rightarrow> nat \<Rightarrow> RtpPacket \<Rightarrow> bool" where
  "grown p k q \<longleftrightarrow> num_csrc q = num_csrc p \<and> extensions_size q \<le> extensions_size p + k"

lemma grown_refl [simp]: "grown p k p"
  by (simp add: grown_def)

lemma grown_17: "grown p (1 + min n 16) q \<Longrightarrow> grown p 17 q"
  by (auto simp: grown_def min_def split: if_splits)

lemma grown_trans: "grown p k q \<Longrightarrow> grown q l r \<Longrightarrow> grown p (k + l) r"
  by (simp add: grown_def)

definition allocated :: "RtpPacket \<Rightarrow> nat \<Rightarrow> view \<times> RtpPacket \<Rightarrow> bool" where
  "allocated p len r \<longleftrightarrow> (case r of (v, q) \<Rightarrow> rtp_wf q \<and> kept p q \<and> grown p (1 + min len 16) q \<and>
     (\<forall>off n. v = Some (off, n) \<longrightarrow> n = len \<and> (\<exists>e\<in>set (extension_entries q). unat (ext_offset e) = off \<and> unat (ext_length e) = len)))"

lemma add_extension_kept:
  assumes "add_extension fresh profile i len p = (v, q)" "rtp_wf p" "len \<le> 16" "profile = kOneByteExtensionProfileId"
  shows "kept p q \<and> grown p (1 + min len 16) q"
proof (cases "extensions_offset p + (extensions_size p + 1 + len) > rtp_capacity p")
  case True
  then have "q = p" using assms(1,4) unfolding add_extension_def Let_def by simp
  then show ?thesis by simp
next
  case False
  let ?w = "(extensions_size p + 1 + len + 3) div 4"
  have cap: "extensions_offset p + (extensions_size p + 1 + len) \<le> length (rtp_data p)" "length (rtp_data p) < 2 ^ 16" "4 dvd length (rtp_data p)"
    using False assms(2) by (simp_all add: rtp_capacity_def buf_capacity_def sizes_ok_def rtp_wf_def)
  have "4 dvd extensions_offset p" by (simp add: extensions_offset_def)
  then have fit: "extensions_offset p + 4 * ?w \<le> length (rtp_data p)" using cap(1,3) by (elim dvdE) presburger
  show ?thesis
    using assms(1) unfolding assms(4) add_extension_eq [OF refl refl cap(1) fit cap(2) assms(3)]
    by (auto simp: kept_def grown_def num_csrc_def low_bits take_bit_set assms(3) ext_data_nth(1,2) [OF offset_ge fit])
qed

lemma AllocateRawExtension_wf:
  assumes "rtp_wf p" "1 \<le> unat i" "unat i \<le> 14" "1 \<le> len" "len \<le> 16"
  shows "\<exists>r. AllocateRawExtension fresh i len p = Some r \<and> allocated p len r"
proof (cases "FindExtensionInfo i (extension_entries p)")
  case (Some e)
  have "e \<in> set (extension_entries p)"
    using Some by (auto simp: FindExtensionInfo_def find_Some_iff)
  then show ?thesis using Some assms(1) by (auto simp: AllocateRawExtension_def allocated_def)
next
  case None
  show ?thesis
  proof (cases "payload_size p > 0 \<or> rtp_padding_size p \<noteq> 0")
    case True
    then show ?thesis using None assms(1) by (simp add: AllocateRawExtension_def allocated_def)
  next
    case False
    have blk: "ext_block p" using assms(1) by (simp add: rtp_wf_def)
    have "extensions_size p > 0 \<Longrightarrow> ReadBigEndian2 (rtp_data p) (extensions_offset p - 4) = kOneByteExtensionProfileId"
      using blk by (auto simp: ext_block_def Let_def split: if_splits)
    then have prof: "extension_profile fresh False len p = Some (Some kOneByteExtensionProfileId, p)"
      by (simp add: extension_profile_def Let_def)
    have two: "\<not> (unat i > kOneByteHeaderExtensionMaxId \<or> len > kOneByteHeaderExtensionMaxValueSize \<or> len = 0)" using assms(3-5) by simp
    obtain v q where add: "add_extension fresh kOneByteExtensionProfileId i len p = (v, q)" by fastforce
    have run: "AllocateRawExtension fresh i len p = Some (v, q)"
      using False two unfolding AllocateRawExtension_def None Let_def by (simp add: prof [simplified] add [simplified])
    have wf: "rtp_wf q \<and> (\<forall>off n. v = Some (off, n) \<longrightarrow> n = len \<and>
        extension_entries q = extension_entries p @ [\<lparr>ext_id = i, ext_length = of_nat len, ext_offset = of_nat off\<rparr>] \<and> unat (of_nat off :: u16) = off)"
      by (rule add_extension_wf [OF assms(1) _ _ _ assms(2-5) add]) (use False None in \<open>simp_all add: FindExtensionInfo_None\<close>)
    moreover have "kept p q \<and> grown p (1 + min len 16) q" by (rule add_extension_kept [OF add assms(1,5) refl])
    moreover have "unat (of_nat len :: u8) = len" by (rule u8_of_nat) (use assms(5) in simp)
    ultimately show ?thesis using run by (auto simp: allocated_def)
  qed
qed

lemma AllocateExtension_wf:
  assumes "rtp_wf p"
  shows "\<exists>r. AllocateExtension fresh t len p = Some r \<and> allocated p len r"
proof -
  have mix: "\<not> extmap_allow_mixed (rtp_extensions p)" using assms by (simp add: rtp_wf_def sizes_ok_def)
  let ?i = "GetId (rtp_extensions p) t"
  show ?thesis
  proof (cases "len = 0 \<or> len > 16 \<or> ?i = 0 \<or> unat ?i > 14")
    case True
    then show ?thesis using mix assms by (auto simp: AllocateExtension_def Let_def allocated_def)
  next
    case False
    then have "\<exists>r. AllocateRawExtension fresh ?i len p = Some r \<and> allocated p len r"
      by (intro AllocateRawExtension_wf assms) (auto simp: Suc_le_eq unat_gt_0)
    then show ?thesis using mix False by (simp add: AllocateExtension_def Let_def)
  qed
qed

lemma allocated_write:
  assumes "allocated p len (Some (off, n), q)" "\<And>d. length (f d) = length d" "\<And>d j. j < off \<or> off + len \<le> j \<Longrightarrow> j < length d \<Longrightarrow> f d ! j = d ! j"
  shows "rtp_wf (WriteAt f q) \<and> kept p (WriteAt f q) \<and> grown p (1 + min len 16) (WriteAt f q)"
proof -
  obtain e where e: "e \<in> set (extension_entries q)" "unat (ext_offset e) = off" "unat (ext_length e) = len" and q: "rtp_wf q" "kept p q"
      and g: "grown p (1 + min len 16) q"
    using assms(1) by (auto simp: allocated_def)
  have view: "view_byte q j" if "j < length (rtp_data q)" "rtp_data (WriteAt f q) ! j \<noteq> rtp_data q ! j" for j
  proof -
    have "off \<le> j \<and> j < off + len" using that assms(3) [of j "rtp_data q"] by fastforce
    then show ?thesis using e by (auto simp: view_byte_def)
  qed
  have "rtp_wf (WriteAt f q)" 
  proof (rule write_view_wf [OF q(1) _ _ refl])
    show "length (rtp_data (WriteAt f q)) = length (rtp_data q)" by (simp only: WriteAt_simps assms(2))
  qed (rule view)
  moreover have "f (rtp_data q) ! 0 = rtp_data q ! 0"
  proof (rule assms(3))
    have "laid_out (extensions_offset q) (extension_entries q)" using q(1) by (simp add: rtp_wf_def ext_block_def Let_def)
    from laid_out_range [OF this e(1)] show "0 < off \<or> off + len \<le> 0" using e(2) by simp
    show "0 < length (rtp_data q)" using rtp_wf_facts(4) [OF q(1)] by auto
  qed
  then have "grown p (1 + min len 16) (WriteAt f q)" using g by (simp add: grown_def num_csrc_def)
  ultimately show ?thesis using kept_trans [OF q(2) kept_WriteAt [of f q]] assms(2) by simp
qed

lemma ReserveExtension_wf:
  assumes "rtp_wf p"
  shows "\<exists>b q. ReserveExtension fresh t len p = Some (b, q) \<and> rtp_wf q \<and> kept p q \<and> grown p (1 + min len 16) q"
proof -
  obtain v q where r: "AllocateExtension fresh t len p = Some (v, q)" "allocated p len (v, q)"
    using AllocateExtension_wf [OF assms] by fastforce
  show ?thesis
  proof (cases v)
    case None
    then show ?thesis using r by (intro exI [of _ False] exI [of _ q]) (simp add: ReserveExtension_def allocated_def)
  next
    case (Some a)
    obtain off n where a: "a = (off, n)" by fastforce
    have "rtp_wf (WriteAt (\<lambda>d. memset0 d off len) q) \<and> kept p (WriteAt (\<lambda>d. memset0 d off len) q) \<and>
        grown p (1 + min len 16) (WriteAt (\<lambda>d. memset0 d off len) q)"
      by (rule allocated_write [of p len off n]) (use r(2) Some a in \<open>simp_all add: memset0_other\<close>)
    then show ?thesis using r(1) Some a by (simp add: ReserveExtension_def ex_bool_eq)
  qed
qed

lemma SetExtension_string_wf:
  assumes "rtp_wf p"
  shows "\<exists>b q. SetExtension_string fresh t str p = Some (b, q) \<and> rtp_wf q \<and> kept p q \<and> grown p 17 q"
proof -
  obtain v q where r: "AllocateExtension fresh t (length str) p = Some (v, q)" "allocated p (length str) (v, q)"
    using AllocateExtension_wf [OF assms] by fastforce
  show ?thesis
  proof (cases v)
    case None
    then show ?thesis using r by (intro exI [of _ False] exI [of _ q]) (auto simp: SetExtension_string_def allocated_def grown_def min_def split: if_splits)
  next
    case (Some a)
    obtain off n where a: "a = (off, n)" by fastforce
    let ?q = "WriteAt (\<lambda>d. memcpy_at d off str (length str)) q"
    have "rtp_wf ?q \<and> kept p ?q \<and> grown p (1 + min (length str) 16) ?q"
      by (rule allocated_write [of p "length str" off n]) (use r(2) Some a in \<open>auto simp: memcpy_at_nth\<close>)
    then have "rtp_wf ?q \<and> kept p ?q \<and> grown p 17 ?q" using grown_17 by blast
    moreover have "rtp_wf q \<and> kept p q \<and> grown p 17 q" using r(2) grown_17 by (auto simp: allocated_def)
    ultimately show ?thesis using r(1) Some a by (simp add: SetExtension_string_def ex_bool_eq)
  qed
qed

subsection \<open>Padding and contributing sources\<close>

lemma SetPadding_wf:
  assumes "rtp_wf p" "n < 256"
  shows "rtp_wf (snd (SetPadding fresh n p))"
proof (cases "payload_offset p + payload_size p + n > length (rtp_data p)")
  case True
  then show ?thesis using assms(1) by (simp add: SetPadding_def rtp_capacity_def buf_capacity_def)
next
  case False
  note facts = rtp_wf_facts [OF assms(1)]
  let ?q = "snd (SetPadding fresh n p)" and ?pos = "payload_offset p + payload_size p"
  have n: "unat (of_nat n :: u8) = n" by (rule u8_of_nat [OF assms(2)])
  have wf: "fixed_header p" "ext_block p" "sizes_ok p" using assms(1) by (simp_all add: rtp_wf_def)
  define p1 where "p1 = p\<lparr>rtp_padding_size := of_nat n, rtp_buffer := (rtp_buffer p)\<lparr>buf_size := ?pos + n\<rparr>\<rparr>"
  have p1: "rtp_SetSize fresh (rtp_size (p\<lparr>rtp_padding_size := of_nat n\<rparr>)) (p\<lparr>rtp_padding_size := of_nat n\<rparr>) = p1"
    using False by (simp add: rtp_SetSize_fits rtp_size_def n p1_def)
  define d where "d = (if n = 0 then (rtp_data p)[0 := rtp_data p ! 0 AND NOT 0x20]
    else (memset0 (rtp_data p) ?pos (n - 1))[?pos + n - 1 := of_nat n, 0 := rtp_data p ! 0 OR 0x20])"
  have z: "of_nat n = (0 :: u8) \<longleftrightarrow> n = 0" using n by (metis unat_u8_0)
  have "(memset0 (rtp_data p) ?pos (n - 1))[?pos + n - 1 := of_nat n] ! 0 = rtp_data p ! 0" if "n \<noteq> 0"
  proof -
    have "?pos + n - 1 \<noteq> 0" "0 < length (rtp_data p)" "0 < ?pos" using facts by linarith+
    then show ?thesis using memset0_other [OF refl, of 0 "rtp_data p" ?pos "n - 1"] by simp
  qed
  then have q: "?q = p1\<lparr>rtp_buffer := (rtp_buffer p1)\<lparr>buf_data := d\<rparr>\<rparr>"
    using False unfolding SetPadding_def Let_def p1
    by (auto simp: rtp_capacity_def buf_capacity_def d_def p1_def z n write_byte_def WriteAt_def)
  have len: "length d = length (rtp_data p)" by (simp add: d_def)
  have low: "d ! j = rtp_data p ! j" if "0 < j" "j < ?pos" for j
    using that facts False by (auto simp: d_def memset0_nth nth_list_update)
  have first: "d ! 0 = (if n = 0 then rtp_data p ! 0 AND NOT 0x20 else rtp_data p ! 0 OR 0x20)"
  proof -
    have "rtp_data p \<noteq> []" using facts(4) by auto
    then show ?thesis by (simp add: d_def)
  qed
  have reads: "ReadBigEndian2 d 2 = (ReadBigEndian2 (rtp_data p) 2 :: u16)" "ReadBigEndian4 d 4 = (ReadBigEndian4 (rtp_data p) 4 :: u32)"
    "ReadBigEndian4 d 8 = (ReadBigEndian4 (rtp_data p) 8 :: u32)" "d ! Suc 0 = rtp_data p ! Suc 0"
    using low facts(1) by (simp_all add: ReadBigEndian2_def ReadBigEndian4_def)
  have nibble: "take_bit 4 (d ! 0) = take_bit 4 (rtp_data p ! 0)"
    unfolding first by (split if_split) (simp only: take_bit_set simp_thms)
  have "fixed_header ?q"
    using wf(1) unfolding fixed_header_def Let_def by (simp add: q p1_def first reads set_bits set_bits [simplified] z)
  moreover have "ext_block ?q"
  proof (rule ext_block_cong [OF wf(2)])
    show "num_csrc ?q = num_csrc p" by (rule num_csrc_cong) (simp add: q nibble)
    show "rtp_data ?q ! j = rtp_data p ! j" if "ext_framed p j" for j
      using low [of j] facts(5) [OF that] by (simp add: q)
  qed (simp_all add: q p1_def)
  moreover have "sizes_ok ?q" using wf(3) False by (simp add: sizes_ok_def q p1_def rtp_size_def n len)
  moreover have "rtp_data ?q ! (rtp_size ?q - 1) = rtp_padding_size ?q" if "rtp_padding_size ?q \<noteq> 0"
    using that facts False by (auto simp: q p1_def rtp_size_def n z d_def)
  ultimately show ?thesis by (simp add: rtp_wf_def)
qed

lemma csrc_byte:
  assumes "n \<le> 15"
  shows "take_bit 4 (((b :: u8) AND 0xF0) OR of_nat n) = of_nat n" "4 \<le> k \<Longrightarrow> bit ((b AND 0xF0) OR of_nat n) k \<longleftrightarrow> bit b k"
proof -
  have f0: "bit (0xF0 :: u8) j \<longleftrightarrow> 4 \<le> j \<and> j < 8" for j
  proof -
    have "(0xF0 :: u8) = NOT (mask 4)" by (simp add: mask_eq_exp_minus_1)
    then show ?thesis by (auto simp only: bit_not_iff bit_mask_iff possible_bit_word) (simp_all add: word_size)
  qed
  have n: "bit (of_nat n :: u8) j \<Longrightarrow> j < 4" for j
    by (rule bit_small) (use assms in \<open>simp_all add: u8_of_nat\<close>)
  show "take_bit 4 ((b AND 0xF0) OR of_nat n) = of_nat n"
    by (rule bit_word_eqI) (use n in \<open>auto simp: bit_take_bit_iff bit_or_iff bit_and_iff f0\<close>)
  show "4 \<le> k \<Longrightarrow> bit ((b AND 0xF0) OR of_nat n) k \<longleftrightarrow> bit b k"
    using n [of k] bit_imp_le_length [of b k] f0 [of k] by (auto simp: bit_or_iff bit_and_iff)
qed

lemma SetCsrcs_wf:
  assumes "rtp_wf p" "extension_entries p = []" "payload_size p = 0" "rtp_padding_size p = 0"
    and "length csrcs \<le> 15" "12 + 4 * length csrcs \<le> length (rtp_data p)"
  shows "rtp_wf (SetCsrcs fresh csrcs p)"
proof -
  let ?n = "length csrcs" and ?x = "(rtp_data p ! 0 AND 0xF0) OR of_nat (length csrcs)"
  note facts = rtp_wf_facts [OF assms(1)]
  have wf: "fixed_header p" "ext_block p" "sizes_ok p" using assms(1) by (simp_all add: rtp_wf_def)
  define p1 where "p1 = (p\<lparr>payload_offset := 12 + 4 * ?n, rtp_buffer := (rtp_buffer p)\<lparr>buf_data := (rtp_data p)[0 := ?x]\<rparr>\<rparr>)"
  let ?put = "\<lambda>(i, c). WriteAt (\<lambda>d. WriteBigEndian4 d (kFixedHeaderSize + 4 * i) c)"
  have keep: "\<exists>d. fold ?put xs q = q\<lparr>rtp_buffer := (rtp_buffer q)\<lparr>buf_data := d\<rparr>\<rparr> \<and> length d = length (rtp_data q) \<and> (\<forall>j<12. d ! j = rtp_data q ! j)" for xs q
  proof (induction xs arbitrary: q)
    case Nil
    have "q = q\<lparr>rtp_buffer := (rtp_buffer q)\<lparr>buf_data := rtp_data q\<rparr>\<rparr>" by simp
    then show ?case by (intro exI [of _ "rtp_data q"]) simp
  next
    case (Cons x xs)
    obtain i c where x: "x = (i, c)" by fastforce
    from Cons.IH [of "?put x q"] obtain d where d: "fold ?put xs (?put x q) = (?put x q)\<lparr>rtp_buffer := (rtp_buffer (?put x q))\<lparr>buf_data := d\<rparr>\<rparr>"
      "length d = length (rtp_data (?put x q))" "\<forall>j<12. d ! j = rtp_data (?put x q) ! j" by blast
    have "fold ?put (x # xs) q = q\<lparr>rtp_buffer := (rtp_buffer q)\<lparr>buf_data := d\<rparr>\<rparr>"
      unfolding fold_Cons o_apply d(1) by (simp add: x WriteAt_def)
    moreover have "length d = length (rtp_data q)" "\<forall>j<12. d ! j = rtp_data q ! j"
      using d(2,3) by (simp_all add: x WriteBigEndian4_other)
    ultimately show ?case by blast
  qed
  obtain d where run: "fold ?put (enumerate 0 csrcs) p1 = p1\<lparr>rtp_buffer := (rtp_buffer p1)\<lparr>buf_data := d\<rparr>\<rparr>"
    and d: "length d = length (rtp_data p)" "\<forall>j<12. d ! j = (rtp_data p)[0 := ?x] ! j"
    using keep [of "enumerate 0 csrcs" p1] by (auto simp: p1_def)
  let ?q = "p\<lparr>payload_offset := 12 + 4 * ?n, rtp_buffer := \<lparr>buf_data = d, buf_size = 12 + 4 * ?n\<rparr>\<rparr>"
  have start: "write_byte 0 ?x (p\<lparr>payload_offset := 12 + 4 * ?n\<rparr>) = p1" by (simp add: p1_def write_byte_def WriteAt_def)
  have "SetCsrcs fresh csrcs p = rtp_SetSize fresh (payload_offset (p1\<lparr>rtp_buffer := (rtp_buffer p1)\<lparr>buf_data := d\<rparr>\<rparr>)) (p1\<lparr>rtp_buffer := (rtp_buffer p1)\<lparr>buf_data := d\<rparr>\<rparr>)"
    using run start unfolding SetCsrcs_def Let_def kFixedHeaderSize_def by simp
  also have "\<dots> = ?q" using assms(6) d(1) by (simp add: rtp_SetSize_fits p1_def)
  finally have q: "SetCsrcs fresh csrcs p = ?q" .
  have "rtp_data p \<noteq> []" using facts(4) by auto
  then have d0: "d ! 0 = ?x" using d(2) by simp
  have dj: "0 < j \<Longrightarrow> j < 12 \<Longrightarrow> d ! j = rtp_data p ! j" for j using d(2) by simp
  have reads: "ReadBigEndian2 d 2 = (ReadBigEndian2 (rtp_data p) 2 :: u16)" "ReadBigEndian4 d 4 = (ReadBigEndian4 (rtp_data p) 4 :: u32)"
    "ReadBigEndian4 d 8 = (ReadBigEndian4 (rtp_data p) 8 :: u32)" "d ! Suc 0 = rtp_data p ! Suc 0"
    by (simp_all add: ReadBigEndian2_def ReadBigEndian4_def dj)
  have num: "num_csrc ?q = ?n" using csrc_byte(1) [OF assms(5)] assms(5) by (simp add: num_csrc_def low_bits d0 u8_of_nat)
  have "fixed_header ?q"
    using wf(1) unfolding fixed_header_def Let_def by (simp add: d0 reads csrc_byte(2) [OF assms(5)])
  moreover have "ext_block ?q" using wf(2) assms(2) num by (simp add: ext_block_def Let_def extensions_offset_def)
  moreover have "sizes_ok ?q" using wf(3) assms(3,4,6) d(1) by (simp add: sizes_ok_def rtp_size_def)
  ultimately show ?thesis using assms(4) by (simp add: q rtp_wf_def)
qed

subsection \<open>Every packet that the class can build\<close>

text \<open>Packets made by the operations of the class, under the assertions of the code (\<open>RTC_DCHECK\<close>); writes
  through the pointers that the operations return are single bytes of the payload or of an extension.\<close>

inductive rtp_built :: "(nat \<Rightarrow> u8) \<Rightarrow> RtpPacket \<Rightarrow> bool" for fresh where
  built_new: "12 \<le> capacity \<Longrightarrow> 4 dvd capacity \<Longrightarrow> capacity < 2 ^ 16 \<Longrightarrow>
    (case extensions of None \<Rightarrow> True | Some m \<Rightarrow> \<not> extmap_allow_mixed m) \<Longrightarrow> rtp_built fresh (new_RtpPacket fresh extensions capacity)"
| built_identify: "rtp_built fresh p \<Longrightarrow> \<not> extmap_allow_mixed m \<Longrightarrow> rtp_built fresh (IdentifyExtensions m p)"
| built_marker: "rtp_built fresh p \<Longrightarrow> rtp_built fresh (SetMarker mk p)"
| built_payload_type: "rtp_built fresh p \<Longrightarrow> t \<le> 0x7F \<Longrightarrow> rtp_built fresh (SetPayloadType t p)"
| built_sequence_number: "rtp_built fresh p \<Longrightarrow> rtp_built fresh (SetSequenceNumber n p)"
| built_timestamp: "rtp_built fresh p \<Longrightarrow> rtp_built fresh (SetTimestamp ts p)"
| built_ssrc: "rtp_built fresh p \<Longrightarrow> rtp_built fresh (SetSsrc ss p)"
| built_csrcs: "rtp_built fresh p \<Longrightarrow> extension_entries p = [] \<Longrightarrow> payload_size p = 0 \<Longrightarrow> rtp_padding_size p = 0 \<Longrightarrow>
    length csrcs \<le> 15 \<Longrightarrow> 12 + 4 * length csrcs \<le> rtp_capacity p \<Longrightarrow> rtp_built fresh (SetCsrcs fresh csrcs p)"
| built_allocate: "rtp_built fresh p \<Longrightarrow> AllocateExtension fresh et len p = Some (v, q) \<Longrightarrow> rtp_built fresh q"
| built_reserve: "rtp_built fresh p \<Longrightarrow> ReserveExtension fresh et len p = Some (b, q) \<Longrightarrow> rtp_built fresh q"
| built_string: "rtp_built fresh p \<Longrightarrow> SetExtension_string fresh et str p = Some (b, q) \<Longrightarrow> rtp_built fresh q"
| built_payload: "rtp_built fresh p \<Longrightarrow> rtp_padding_size p = 0 \<Longrightarrow> rtp_built fresh (snd (SetPayloadSize fresh n p))"
| built_padding: "rtp_built fresh p \<Longrightarrow> n < 256 \<Longrightarrow> rtp_built fresh (snd (SetPadding fresh n p))"
| built_write: "rtp_built fresh p \<Longrightarrow> view_byte p j \<Longrightarrow> rtp_built fresh (write_byte j x p)"

lemma rtp_built_wf: "rtp_built fresh p \<Longrightarrow> rtp_wf p"
proof (induction rule: rtp_built.induct)
  case (built_new capacity extensions)
  then show ?case by (intro new_RtpPacket_wf) (auto split: option.splits)
next
  case (built_payload_type p t)
  then have "t < 0x80" by (simp add: word_le_nat_alt word_less_nat_alt)
  then show ?case using built_payload_type SetPayloadType_wf by blast
next
  case (built_csrcs p csrcs)
  then show ?case by (intro SetCsrcs_wf) (simp_all add: rtp_capacity_def buf_capacity_def)
next
  case (built_allocate p et len v q)
  then show ?case using AllocateExtension_wf [of p fresh et len] by (auto simp: allocated_def)
next
  case (built_reserve p et len b q)
  then show ?case using ReserveExtension_wf [of p fresh et len] by auto
next
  case (built_string p et str b q)
  then show ?case using SetExtension_string_wf [of p fresh et str] by auto
next
  case (built_write p j x)
  show ?case
  proof (rule write_view_wf [OF built_write.IH])
    show "view_byte p k" if "rtp_data (write_byte j x p) ! k \<noteq> rtp_data p ! k" for k
      using that built_write.hyps(2) by (cases "k = j") (simp_all add: write_byte_def)
  qed (simp_all add: write_byte_def)
qed (simp_all add: IdentifyExtensions_wf SetMarker_wf SetSequenceNumber_wf SetTimestamp_wf SetSsrc_wf SetPayloadSize_wf SetPadding_wf)

lemma rtp_parse_same:
  assumes "rtp_wf p"
  shows "\<exists>q'. Parse fresh (rtp_bytes p) q = (True, q') \<and> same_packet p q' \<and> rtp_extensions q' = rtp_extensions q"
proof -
  let ?b = "rtp_bytes p"
  obtain r where r: "ParseBuffer ?b q = (True, r)" "rtp_marker r = rtp_marker p" "rtp_payload_type r = rtp_payload_type p"
     "rtp_sequence_number r = rtp_sequence_number p" "rtp_timestamp r = rtp_timestamp p" "rtp_ssrc r = rtp_ssrc p"
     "extension_entries r = extension_entries p" "payload_offset r = payload_offset p"
     "payload_size r = payload_size p" "rtp_padding_size r = rtp_padding_size p" "rtp_extensions r = rtp_extensions q"
    using rtp_parse_back [OF assms, of q] by auto
  define q' where "q' = r\<lparr>rtp_buffer := buf_SetData fresh ?b (rtp_buffer r)\<rparr>"
  note facts = rtp_wf_facts [OF assms]
  have size: "rtp_size q' = rtp_size p" using r by (simp add: rtp_size_def q'_def)
  have len: "length ?b = rtp_size p" using facts(3) by (simp add: rtp_bytes_def)
  have bytes: "rtp_bytes q' = ?b"
    using buf_SetData_take(1) [of ?b fresh "rtp_buffer r"] unfolding rtp_bytes_def [of q'] size len by (simp add: q'_def)
  have nth: "rtp_data q' ! j = rtp_data p ! j" if "j < rtp_size p" for j
    using that bytes by (metis nth_take rtp_bytes_def size)
  have ge: "12 + 4 * num_csrc p \<le> rtp_size p" using payload_offset_ge facts(2) assms by (fastforce simp: rtp_wf_def)
  have first: "rtp_data q' ! 0 = rtp_data p ! 0" by (rule nth) (use ge in linarith)
  have "ReadBigEndian4 (rtp_data q') (12 + i * 4) = (ReadBigEndian4 (rtp_data p) (12 + i * 4) :: u32)" if "i < num_csrc p" for i
    by (rule ReadBigEndian4_cong, rule nth) (use that ge in linarith)
  then have "Csrcs q' = Csrcs p" using first by (simp add: Csrcs_def num_csrc_def)
  moreover have "Parse fresh ?b q = (True, q')" using r(1) by (simp add: Parse_def q'_def)
  ultimately show ?thesis using r bytes by (intro exI [of _ q']) (simp add: same_packet_def q'_def)
qed

subsection \<open>Properties\<close>

text \<open>C16: a packet that is put together by the operations of \<open>RtpPacket\<close>, in any order, with contributing
  sources, one-byte header extensions, payload and padding, is parsed back from its bytes to the same header
  fields, sources, extensions, payload and padding.\<close>

theorem rtp_roundtrip:
  assumes "rtp_built fresh p"
  shows "\<exists>q'. Parse fresh' (rtp_bytes p) q = (True, q') \<and> same_packet p q'"
  using rtp_parse_same [OF rtp_built_wf [OF assms]] by blast

definition ex_map :: RtpHeaderExtensionMap where
  "ex_map = snd (RegisterByUri 3 AbsoluteSendTime_kUri (new_RtpHeaderExtensionMap False))"

lemma ex_map_mixed: "\<not> extmap_allow_mixed ex_map"
  by (simp add: ex_map_def RegisterByUri_def Register_def new_RtpHeaderExtensionMap_def Let_def split: option.split)

theorem rtp_roundtrip_witness:
  "\<exists>b p q'. ReserveExtension (\<lambda>_. 0) kRtpExtensionAbsoluteSendTime 3
       (SetSequenceNumber 7 (SetCsrcs (\<lambda>_. 0) [5] (new_RtpPacket (\<lambda>_. 0) (Some ex_map) 100))) = Some (b, p) \<and>
     Parse (\<lambda>_. 1) (rtp_bytes p) p = (True, q') \<and> same_packet p q'"
proof -
  let ?n = "new_RtpPacket (\<lambda>_. 0) (Some ex_map) 100"
  have n: "rtp_built (\<lambda>_. 0) ?n" by (rule built_new) (simp_all add: ex_map_mixed)
  have c: "?n = cleared ex_map ((memset0 (map (\<lambda>_. 0) [0..<100]) 0 12)[0 := push_bit 6 2])" by (simp add: new_RtpPacket_cleared)
  have s: "rtp_built (\<lambda>_. 0) (SetSequenceNumber 7 (SetCsrcs (\<lambda>_. 0) [5] ?n))"
    by (intro built_sequence_number built_csrcs n) (simp_all add: c cleared_def rtp_capacity_def buf_capacity_def)
  obtain b p where r: "ReserveExtension (\<lambda>_. 0) kRtpExtensionAbsoluteSendTime 3 (SetSequenceNumber 7 (SetCsrcs (\<lambda>_. 0) [5] ?n)) = Some (b, p)"
    using ReserveExtension_wf [OF rtp_built_wf [OF s]] by blast
  from rtp_roundtrip [OF built_reserve [OF s r], of "\<lambda>_. 1" p] r show ?thesis by blast
qed

end
