(* ===== verification/XorTail.thy ===== *)
theory XorTail
  imports XorSession XorOutput
begin

text \<open>
  The FEC packets of the encoder are clear behind their ends, in both formats: a receiver that copies only the
  bytes in use into a new packet has the packet of the encoder.
\<close>

subsection \<open>Behind the payload\<close>

text \<open>What holds of a packet of the encoder: its length, and that it is clear behind its end.\<close>

definition fec_clear :: "Packet list \<Rightarrow> Packet \<Rightarrow> bool" where
  "fec_clear ps p \<longleftrightarrow> length (pkt_data p) = 1500 \<and> 14 \<le> pkt_length p \<and> pkt_length p \<le> 20 + Max (pkt_length ` set ps) \<and>
     (\<forall>j<1500. pkt_length p \<le> j \<longrightarrow> pkt_data p ! j = 0)"

lemma protected_clear:
  assumes "\<forall>p\<in>set ps. media_ok p" "ps \<noteq> []" "14 \<le> hs" "hs \<le> 32" "f = fold (protect_packet hs) ps new_Packet"
  shows "length (pkt_data f) = 1500" "hs \<le> pkt_length f" "pkt_length f \<le> hs - 12 + Max (pkt_length ` set ps)"
    and "j < 1500 \<Longrightarrow> pkt_length f \<le> j \<Longrightarrow> pkt_data f ! j = 0"
proof -
  have st: "fec_started hs new_Packet" by (simp add: fec_started_def new_Packet_def)
  note fold = protect_fold [OF st assms(1) _ assms(4)]
  show "length (pkt_data f) = 1500" using fold(1) assms(3) by (simp add: assms(5) fec_started_def)
  have len: "pkt_length f = hs + payload_max ps" using fold(3) assms(2,3) by (simp add: assms(5) new_Packet_def)
  then show "hs \<le> pkt_length f" by simp
  have "payload_max ps \<le> Max (pkt_length ` set ps) - 12"
    by (rule payload_max_le) (auto intro!: diff_le_mono Max_ge)
  moreover have "12 \<le> Max (pkt_length ` set ps)"
    using assms(1,2) by (cases ps) (auto simp: media_ok_def Max_ge_iff)
  ultimately show "pkt_length f \<le> hs - 12 + Max (pkt_length ` set ps)" unfolding len using assms(3) by linarith
  show "pkt_data f ! j = 0" if j: "j < 1500" "pkt_length f \<le> j"
  proof -
    have "xsum (contrib hs j) ps = 0"
    proof (rule xsum_0)
      fix p assume "p \<in> set ps"
      from payload_max_ge [OF this] show "contrib hs j p = 0"
        using j(2) assms(3) unfolding len contrib_def by simp
    qed
    then show ?thesis using fold(2) [OF _ j(1)] assms(3) j(1) by (simp add: assms(5) new_Packet_def)
  qed
qed

lemma fec_of_clear:
  assumes "fec_of W ps w m p" "W = UlpfecHeaderWriter \<or> W = FlexfecHeaderWriter" "media_block ps"
  shows "fec_clear ps p" "W = FlexfecHeaderWriter \<Longrightarrow> 20 \<le> pkt_length p"
proof -
  let ?hs = "FecHeaderSize W (MinPacketMaskSize W m w)" and ?c = "covered ps w m"
  define f where "f = fold (protect_packet ?hs) ?c new_Packet"
  have w: "w \<in> {2, 6}" and ne: "?c \<noteq> []" and p: "p = FinalizeFecHeader W (ssrc_of (hd ps)) (base_of ps) m w f"
    using assms(1) by (simp_all add: fec_of_def f_def)
  have hs: "14 \<le> ?hs" "?hs \<le> 32" using assms(2) ulpfec.header_bounds [OF w] flexfec.header_bounds [OF w] by auto
  have sub: "set ?c \<subseteq> set ps" by (auto simp: covered_def)
  then have ok: "\<forall>p\<in>set ?c. media_ok p" using assms(3) by (auto simp: media_block_def)
  note f = protected_clear [OF ok ne hs f_def]
  have max: "Max (pkt_length ` set ?c) \<le> Max (pkt_length ` set ps)" using sub ne by (intro Max_mono) auto
  have shape: "pkt_length p = pkt_length f" "length (pkt_data p) = 1500"
    using assms(2) f(1) ulpfec.finalize_shape flexfec.finalize_shape by (auto simp: p)
  have tail: "pkt_data p ! j = pkt_data f ! j" if j: "j < 1500" "?hs \<le> j" for j
    using assms(2)
  proof
    assume W: "W = UlpfecHeaderWriter"
    then have "12 + w \<le> j" using j(2) w
      by (auto simp: UlpfecHeaderWriter_def ulpfec_FecHeaderSize_def UlpfecHeaderSize_def ulpfec_MinPacketMaskSize_def)
    then show ?thesis using ulpfec_data_nth [OF f(1) w j(1)] by (simp add: p W UlpfecHeaderWriter_def)
  next
    assume W: "W = FlexfecHeaderWriter"
    then have "18 + flexfec_MinPacketMaskSize m w \<le> j" using j(2)
      by (auto simp: FlexfecHeaderWriter_def flexfec_FecHeaderSize_def FlexfecHeaderSize_def flexfec_MinPacketMaskSize_def split: if_splits)
    from flexfec_tail [OF w f(1) this j(1)] show ?thesis by (simp add: p W FlexfecHeaderWriter_def)
  qed
  show "fec_clear ps p"
    unfolding fec_clear_def using shape f tail hs max by (auto simp: shape(1))
  show "20 \<le> pkt_length p" if W: "W = FlexfecHeaderWriter"
  proof -
    have "20 \<le> ?hs" by (auto simp: W FlexfecHeaderWriter_def flexfec_FecHeaderSize_def FlexfecHeaderSize_def)
    then show ?thesis using f(2) shape(1) by linarith
  qed
qed

text \<open>Copying the bytes in use into a new packet.\<close>

definition fresh_copy :: "u8 list \<Rightarrow> Packet" where
  "fresh_copy b = \<lparr>pkt_length = length b, pkt_data = memcpy_at (pkt_data new_Packet) 0 b (length b)\<rparr>"

lemma fresh_copy_clear:
  assumes "length (pkt_data p) = 1500" "pkt_length p \<le> 1500" "\<forall>j<1500. pkt_length p \<le> j \<longrightarrow> pkt_data p ! j = 0"
  shows "fresh_copy (take (pkt_length p) (pkt_data p)) = p"
proof -
  let ?b = "take (pkt_length p) (pkt_data p)"
  have "memcpy_at (pkt_data new_Packet) 0 ?b (length ?b) = pkt_data p"
  proof (rule nth_equalityI)
    show "length (memcpy_at (pkt_data new_Packet) 0 ?b (length ?b)) = length (pkt_data p)" using assms(1) by (simp add: new_Packet_def)
    fix j assume "j < length (memcpy_at (pkt_data new_Packet) 0 ?b (length ?b))"
    then have j: "j < 1500" by (simp add: new_Packet_def)
    then show "memcpy_at (pkt_data new_Packet) 0 ?b (length ?b) ! j = pkt_data p ! j"
      using assms by (subst memcpy_at_nth) (simp_all add: new_Packet_def)
  qed
  then show ?thesis using assms(1,2) by (simp add: fresh_copy_def)
qed

end
