(* ===== verification/FlexfecStream.thy ===== *)
theory FlexfecStream
  imports RtpBuild XorTail
begin

text \<open>
  The sender and the receiver of FlexFEC: \<open>flexfec_sender.cc\<close>, which wraps the packets of the generator into RTP
  packets of their own stream, and \<open>flexfec_receiver.cc\<close>, which unwraps them, gives them with the media packets
  to the decoder and passes on what is recovered. The clock is an argument, the times that the
  successive calls read; the memory that is not initialised is \<open>fresh\<close>, \<open>masks\<close>, \<open>tmp\<close> and \<open>buf\<close>. \<open>None\<close> is a
  fatal check that fails or a copy outside a buffer. The calls of the callback are the list of packets
  passed to it; a packet that the callback returns to the receiver is marked as recovered and ignored.
\<close>

subsection \<open>Random numbers\<close>

definition NextOutput :: "u64 \<Rightarrow> u64 \<times> u64" where
  "NextOutput s =
     (let s = s XOR drop_bit 12 s;
          s = s XOR push_bit 25 s;
          s = s XOR drop_bit 27 s
      in (s * 2685821657736338717, s))"

definition Rand_any :: "u64 \<Rightarrow> u32 \<times> u64" where
  "Rand_any s = (case NextOutput s of (x, s) \<Rightarrow> (ucast x, s))"

definition Rand_upto :: "u32 \<Rightarrow> u64 \<Rightarrow> u32 \<times> u64" where
  "Rand_upto t s =
     (case NextOutput s of (out, s) \<Rightarrow>
        let x = ucast out :: u32;
            r = ucast x * (ucast t + 1) :: u64
        in (ucast (drop_bit 32 r), s))"

definition Rand_between :: "int \<Rightarrow> int \<Rightarrow> u64 \<Rightarrow> int \<times> u64" where
  "Rand_between low high s = (case Rand_upto (word_of_int (high - low)) s of (x, s) \<Rightarrow> (uint x + low, s))"

subsection \<open>The sender\<close>

record RtpExtensionSize =
  size_type :: RTPExtensionType
  value_size :: nat

text \<open>The loop keeps the size of the values, their number and the size of their headers.\<close>

definition count_extension :: "RtpHeaderExtensionMap \<Rightarrow> RtpExtensionSize \<Rightarrow> nat \<times> nat \<times> nat \<Rightarrow> nat \<times> nat \<times> nat" where
  "count_extension m e st =
     (case st of (values_size, num_extensions, each_header) \<Rightarrow>
        let i = GetId m (size_type e)
        in if i = kInvalidId then (values_size, num_extensions, each_header)
           else
             let each_header = (if unat i > kOneByteHeaderExtensionMaxId \<or> value_size e > kOneByteHeaderExtensionMaxValueSize then 2 else each_header)
             in (values_size + value_size e, num_extensions + 1, each_header))"

definition RtpHeaderExtensionSize :: "RtpExtensionSize list \<Rightarrow> RtpHeaderExtensionMap \<Rightarrow> nat" where
  "RtpHeaderExtensionSize es m =
     (case fold (count_extension m) es (0, 0, 1) of (values_size, num_extensions, each_header) \<Rightarrow>
        if values_size = 0 then 0
        else let n = 4 + each_header * num_extensions + values_size in n + 3 - (n + 3) mod 4)"

record RtpState =
  state_sequence_number :: u16
  state_start_timestamp :: u32
  state_timestamp :: u32
  state_capture_time_ms :: int
  state_last_timestamp_time_ms :: int
  media_has_been_sent :: bool
  ssrc_has_acked :: bool

definition new_RtpState :: RtpState where
  "new_RtpState = \<lparr>state_sequence_number = 0, state_start_timestamp = 0, state_timestamp = 0, state_capture_time_ms = -1,
     state_last_timestamp_time_ms = -1, media_has_been_sent = False, ssrc_has_acked = False\<rparr>"

definition kMaxInitRtpSeqNumber :: int where [simp]: "kMaxInitRtpSeqNumber = 0x7fff"
definition kFlexfecMaxHeaderSize :: nat where [simp]: "kFlexfecMaxHeaderSize = 32"
definition kVideoPayloadTypeFrequency :: int where [simp]: "kVideoPayloadTypeFrequency = 90000"
definition kMsToRtpTimestamp :: int where [simp]: "kMsToRtpTimestamp = kVideoPayloadTypeFrequency div 1000"
definition kPacketLogIntervalMs :: int where [simp]: "kPacketLogIntervalMs = 10000"

text \<open>The registration of one extension, in the order of the comparisons.\<close>

definition register_supported :: "RtpExtension \<Rightarrow> RtpHeaderExtensionMap \<Rightarrow> RtpHeaderExtensionMap" where
  "register_supported e m =
     (if ext_uri e = TransportSequenceNumber_kUri then snd (Register (ext_param_id e) kRtpExtensionTransportSequenceNumber m)
      else if ext_uri e = AbsoluteSendTime_kUri then snd (Register (ext_param_id e) kRtpExtensionAbsoluteSendTime m)
      else if ext_uri e = TransmissionOffset_kUri then snd (Register (ext_param_id e) kRtpExtensionTransmissionTimeOffset m)
      else if ext_uri e = RtpMid_kUri then snd (Register (ext_param_id e) kRtpExtensionMid m)
      else m)"

definition RegisterSupportedExtensions :: "RtpExtension list \<Rightarrow> RtpHeaderExtensionMap" where
  "RegisterSupportedExtensions es = fold register_supported es (new_RtpHeaderExtensionMap False)"

record FlexfecSender =
  random_state :: u64
  last_generated_packet_ms :: int
  fs_payload_type :: int
  timestamp_offset :: u32
  fs_ssrc :: u32
  fs_protected_media_ssrc :: u32
  fs_mid :: "u8 list"
  fs_seq_num :: u16
  ulpfec_generator :: UlpfecGenerator
  rtp_header_extension_map :: RtpHeaderExtensionMap
  header_extensions_size :: nat

text \<open>The members are initialised in the order of their declaration: the timestamp before the sequence number.\<close>

definition new_FlexfecSender ::
  "int \<Rightarrow> u32 \<Rightarrow> u32 \<Rightarrow> u8 list \<Rightarrow> RtpExtension list \<Rightarrow> RtpExtensionSize list \<Rightarrow> RtpState option \<Rightarrow> int \<Rightarrow> u8 list \<Rightarrow> u8 list \<Rightarrow> FlexfecSender" where
  "new_FlexfecSender payload_type ssrc media_ssrc mid exts sizes rtp_state now_us masks tmp =
     (let random = word_of_int now_us;
          (offset, random) = (case rtp_state of Some s \<Rightarrow> (state_start_timestamp s, random) | None \<Rightarrow> Rand_any random);
          (seq, random) = (case rtp_state of Some s \<Rightarrow> (state_sequence_number s, random)
                           | None \<Rightarrow> (case Rand_between 1 kMaxInitRtpSeqNumber random of (x, random) \<Rightarrow> (word_of_int x, random)));
          m = RegisterSupportedExtensions exts
      in \<lparr>random_state = random, last_generated_packet_ms = -1, fs_payload_type = payload_type, timestamp_offset = offset,
          fs_ssrc = ssrc, fs_protected_media_ssrc = media_ssrc, fs_mid = mid, fs_seq_num = seq,
          ulpfec_generator = new_UlpfecGenerator (CreateFlexfec ssrc media_ssrc masks tmp),
          rtp_header_extension_map = m, header_extensions_size = RtpHeaderExtensionSize sizes m\<rparr>)"

definition fs_SetFecParameters :: "FecProtectionParams \<Rightarrow> FlexfecSender \<Rightarrow> FlexfecSender" where
  "fs_SetFecParameters ps s = s\<lparr>ulpfec_generator := SetFecParameters ps (ulpfec_generator s)\<rparr>"

definition fs_AddRtpPacketAndGenerateFec :: "RtpPacket \<Rightarrow> u8 list \<Rightarrow> FlexfecSender \<Rightarrow> (bool \<times> FlexfecSender) option" where
  "fs_AddRtpPacketAndGenerateFec p buf s =
     (case AddRtpPacketAndGenerateFec (rtp_data p) (payload_size p) (headers_size p) buf (ulpfec_generator s) of
        None \<Rightarrow> None
      | Some (ret, g) \<Rightarrow> Some (ret = 0, s\<lparr>ulpfec_generator := g\<rparr>))"

definition fs_FecAvailable :: "FlexfecSender \<Rightarrow> bool" where
  "fs_FecAvailable s \<longleftrightarrow> FecAvailable (ulpfec_generator s)"

datatype PacketType = kAudio | kVideo | kRetransmission | kForwardErrorCorrection | kPadding

record RtpPacketToSend =
  send_rtp :: RtpPacket
  capture_time_ms :: int
  packet_type :: "PacketType option"

text \<open>The sizes of the values of the extensions that are reserved: the classes' \<open>kValueSizeBytes\<close>.\<close>

definition AbsoluteSendTime_kValueSizeBytes :: nat where [simp]: "AbsoluteSendTime_kValueSizeBytes = 3"
definition TransmissionOffset_kValueSizeBytes :: nat where [simp]: "TransmissionOffset_kValueSizeBytes = 3"
definition TransportSequenceNumber_kValueSizeBytes :: nat where [simp]: "TransportSequenceNumber_kValueSizeBytes = 2"

text \<open>The header of the RTP packet and its extensions.\<close>

definition fec_packet_header :: "(nat \<Rightarrow> u8) \<Rightarrow> int \<Rightarrow> FlexfecSender \<Rightarrow> RtpPacket" where
  "fec_packet_header fresh now_ms s =
     (let p = new_RtpPacket fresh (Some (rtp_header_extension_map s)) kDefaultPacketSize;
          p = SetMarker False p;
          p = SetPayloadType (word_of_int (fs_payload_type s)) p;
          p = SetSequenceNumber (fs_seq_num s) p;
          p = SetTimestamp (timestamp_offset s + word_of_int (kMsToRtpTimestamp * now_ms)) p
      in SetSsrc (fs_ssrc s) p)"

definition fec_packet_extensions :: "(nat \<Rightarrow> u8) \<Rightarrow> u8 list \<Rightarrow> RtpPacket \<Rightarrow> RtpPacket option" where
  "fec_packet_extensions fresh mid p =
     (case ReserveExtension fresh kRtpExtensionAbsoluteSendTime AbsoluteSendTime_kValueSizeBytes p of None \<Rightarrow> None
      | Some (_, p) \<Rightarrow>
          (case ReserveExtension fresh kRtpExtensionTransmissionTimeOffset TransmissionOffset_kValueSizeBytes p of None \<Rightarrow> None
           | Some (_, p) \<Rightarrow>
               (case ReserveExtension fresh kRtpExtensionTransportSequenceNumber TransportSequenceNumber_kValueSizeBytes p of None \<Rightarrow> None
                | Some (_, p) \<Rightarrow>
                    if mid \<noteq> [] then map_option snd (SetExtension_string fresh kRtpExtensionMid mid p) else Some p)))"

text \<open>The result of \<open>AllocatePayload\<close> is not checked before the payload is copied to it.\<close>

definition fec_packet_to_send :: "(nat \<Rightarrow> u8) \<Rightarrow> (nat \<Rightarrow> int) \<Rightarrow> FlexfecSender \<Rightarrow> Packet \<Rightarrow> RtpPacketToSend option" where
  "fec_packet_to_send fresh clock s fec =
     (case fec_packet_extensions fresh (fs_mid s) (fec_packet_header fresh (clock 0) s) of None \<Rightarrow> None
      | Some p \<Rightarrow>
          (case AllocatePayload fresh (pkt_length fec) p of
             (None, p) \<Rightarrow> None
           | (Some payload, p) \<Rightarrow>
               Some \<lparr>send_rtp = WriteAt (\<lambda>d. memcpy_at d payload (pkt_data fec) (pkt_length fec)) p,
                     capture_time_ms = clock 1, packet_type = Some kForwardErrorCorrection\<rparr>))"

fun fec_packets_loop :: "(nat \<Rightarrow> u8) \<Rightarrow> (nat \<Rightarrow> int) \<Rightarrow> FlexfecSender \<Rightarrow> Packet list \<Rightarrow> (RtpPacketToSend list \<times> FlexfecSender) option" where
  "fec_packets_loop fresh clock s [] = Some ([], s)"
| "fec_packets_loop fresh clock s (fec # fecs) =
     (case fec_packet_to_send fresh clock s fec of None \<Rightarrow> None
      | Some p \<Rightarrow>
          (case fec_packets_loop fresh (\<lambda>i. clock (i + 2)) (s\<lparr>fs_seq_num := fs_seq_num s + 1\<rparr>) fecs of None \<Rightarrow> None
           | Some (ps, s) \<Rightarrow> Some (p # ps, s)))"

definition GetFecPackets :: "(nat \<Rightarrow> u8) \<Rightarrow> (nat \<Rightarrow> int) \<Rightarrow> FlexfecSender \<Rightarrow> (RtpPacketToSend list \<times> FlexfecSender) option" where
  "GetFecPackets fresh clock s =
     (case fec_packets_loop fresh clock s (generated_packets (ulpfec_generator s)) of None \<Rightarrow> None
      | Some (fec_packets_to_send, s) \<Rightarrow>
          let s = s\<lparr>ulpfec_generator := ResetGenerator (ulpfec_generator s)\<rparr>;
              now_ms = clock (2 * length fec_packets_to_send);
              s = (if fec_packets_to_send \<noteq> [] \<and> now_ms - last_generated_packet_ms s > kPacketLogIntervalMs
                   then s\<lparr>last_generated_packet_ms := now_ms\<rparr> else s)
          in Some (fec_packets_to_send, s))"

definition fs_MaxPacketOverhead :: "FlexfecSender \<Rightarrow> nat" where
  "fs_MaxPacketOverhead s = header_extensions_size s + kFlexfecMaxHeaderSize"

definition GetRtpState :: "FlexfecSender \<Rightarrow> RtpState" where
  "GetRtpState s = new_RtpState\<lparr>state_sequence_number := fs_seq_num s, state_start_timestamp := timestamp_offset s\<rparr>"

subsection \<open>The receiver\<close>

record RtpPacketReceived =
  received_rtp :: RtpPacket
  recovered :: bool

record FecPacketCounter =
  num_packets :: nat
  num_fec_packets :: nat
  num_recovered_packets :: nat
  first_packet_time_ms :: int

definition new_FecPacketCounter :: FecPacketCounter where
  "new_FecPacketCounter = \<lparr>num_packets = 0, num_fec_packets = 0, num_recovered_packets = 0, first_packet_time_ms = -1\<rparr>"

record FlexfecReceiver =
  fr_ssrc :: u32
  fr_protected_media_ssrc :: u32
  erasure_code :: ForwardErrorCorrection
  recovered_packets :: "RecoveredPacket list"
  last_recovered_packet_ms :: int
  packet_counter :: FecPacketCounter

definition kMinFlexfecHeaderSize :: nat where [simp]: "kMinFlexfecHeaderSize = 20"

definition new_FlexfecReceiver :: "u32 \<Rightarrow> u32 \<Rightarrow> u8 list \<Rightarrow> u8 list \<Rightarrow> FlexfecReceiver" where
  "new_FlexfecReceiver ssrc media_ssrc masks tmp =
     \<lparr>fr_ssrc = ssrc, fr_protected_media_ssrc = media_ssrc, erasure_code = CreateFlexfec ssrc media_ssrc masks tmp,
      recovered_packets = [], last_recovered_packet_ms = -1, packet_counter = new_FecPacketCounter\<rparr>"

text \<open>No packet as the first component of the result means that the received one is dropped.\<close>

definition AddReceivedPacket :: "RtpPacketReceived \<Rightarrow> FlexfecReceiver \<Rightarrow> (ReceivedPacket option \<times> FlexfecReceiver) option" where
  "AddReceivedPacket packet r =
     (let p = received_rtp packet;
          n = payload_size p
      in if rtp_ssrc p = fr_ssrc r \<and> rtp_payload_type p = 113
         then if n < kMinFlexfecHeaderSize then Some (None, r)
              else if n > IP_PACKET_SIZE then None
              else
                let c = packet_counter r;
                    c = c\<lparr>num_fec_packets := num_fec_packets c + 1\<rparr>;
                    pkt = \<lparr>pkt_length = n, pkt_data = memcpy_at (pkt_data new_Packet) 0 (rtp_payload p) n\<rparr>;
                    c = c\<lparr>num_packets := num_packets c + 1\<rparr>
                in Some (Some \<lparr>rcv_ssrc = rtp_ssrc p, rcv_seq_num = rtp_sequence_number p, is_fec = True, rcv_pkt = pkt\<rparr>,
                         r\<lparr>packet_counter := c\<rparr>)
         else if rtp_ssrc p \<noteq> fr_protected_media_ssrc r then Some (None, r)
         else
           case CopyAndZeroMutableExtensions p IP_PACKET_SIZE (pkt_data new_Packet) of None \<Rightarrow> None
           | Some d \<Rightarrow>
               let c = packet_counter r;
                   c = c\<lparr>num_packets := num_packets c + 1\<rparr>
               in Some (Some \<lparr>rcv_ssrc = rtp_ssrc p, rcv_seq_num = rtp_sequence_number p, is_fec = False,
                              rcv_pkt = \<lparr>pkt_length = rtp_size p, pkt_data = d\<rparr>\<rparr>,
                        r\<lparr>packet_counter := c\<rparr>))"

text \<open>The time of the last log line, after \<open>n\<close> packets were passed on.\<close>

definition log_time :: "(nat \<Rightarrow> int) \<Rightarrow> nat \<Rightarrow> int \<Rightarrow> int" where
  "log_time clock n t = fold (\<lambda>i t. if clock i - t > kPacketLogIntervalMs then clock i else t) [0..<n] t"

definition ProcessReceivedPacket :: "(nat \<Rightarrow> int) \<Rightarrow> ReceivedPacket \<Rightarrow> FlexfecReceiver \<Rightarrow> Packet list \<times> FlexfecReceiver" where
  "ProcessReceivedPacket clock received r =
     (case DecodeFec received (erasure_code r, recovered_packets r) of (code, rs) \<Rightarrow>
        case return_recovered rs of (outs, rs) \<Rightarrow>
          let c = packet_counter r
          in (outs, r\<lparr>erasure_code := code, recovered_packets := rs,
                      packet_counter := c\<lparr>num_recovered_packets := num_recovered_packets c + length outs\<rparr>,
                      last_recovered_packet_ms := log_time clock (length outs) (last_recovered_packet_ms r)\<rparr>))"

definition OnRtpPacket :: "(nat \<Rightarrow> int) \<Rightarrow> RtpPacketReceived \<Rightarrow> FlexfecReceiver \<Rightarrow> (Packet list \<times> FlexfecReceiver) option" where
  "OnRtpPacket clock packet r =
     (if recovered packet then Some ([], r)
      else case AddReceivedPacket packet r of
             None \<Rightarrow> None
           | Some (None, r) \<Rightarrow> Some ([], r)
           | Some (Some received, r) \<Rightarrow> Some (ProcessReceivedPacket clock received r))"

definition GetPacketCounter :: "FlexfecReceiver \<Rightarrow> FecPacketCounter" where
  "GetPacketCounter r = packet_counter r"

end
