(* ===== verification/FrameGen.thy ===== *)
theory FrameGen
  imports RtpBuild XorTail
begin

text \<open>
  A frame of RTP packets as a block of the encoder, and the generator's run over it: when every frame is
  protected on its own, the FEC packets that are ready after its last packet are those of the encoder for the
  copies of its packets. Both senders use the generator, with the two formats.
\<close>

lemma memcpy_at_take: "memcpy_at d off (take n b) n = memcpy_at d off b n"
  unfolding memcpy_at_def by (rule fold_cong) simp_all

text \<open>The decoder's packet for a media packet of the sender.\<close>

definition media_packet :: "RtpPacket \<Rightarrow> Packet" where
  "media_packet p = fresh_copy (rtp_bytes p)"

lemma media_packet_data:
  assumes "length (rtp_bytes p) = rtp_size p" "rtp_size p \<le> 1500"
  shows "pkt_data (media_packet p) = rtp_bytes p @ replicate (1500 - rtp_size p) 0" "pkt_length (media_packet p) = rtp_size p"
proof -
  show "pkt_data (media_packet p) = rtp_bytes p @ replicate (1500 - rtp_size p) 0"
    by (rule nth_equalityI) (use assms in \<open>auto simp: media_packet_def fresh_copy_def new_Packet_def memcpy_at_nth nth_append\<close>)
qed (simp add: media_packet_def fresh_copy_def assms(1))

subsection \<open>The frame as a block of the encoder\<close>

definition frame_ok :: "u32 \<Rightarrow> RtpPacket list \<Rightarrow> bool" where
  "frame_ok ms ps \<longleftrightarrow> ps \<noteq> [] \<and>
     (\<forall>p\<in>set ps. rtp_wf p \<and> rtp_padding_size p = 0 \<and> rtp_size p \<le> 1436 \<and> rtp_ssrc p = ms) \<and>
     (let base = rtp_sequence_number (hd ps) in
        sorted_wrt (\<lambda>p q. unat (rtp_sequence_number p - base) < unat (rtp_sequence_number q - base)) ps \<and>
        unat (rtp_sequence_number (last ps) - base) < 48) \<and>
     (\<forall>p\<in>set (butlast ps). \<not> rtp_marker p) \<and> rtp_marker (last ps)"

lemma media_packet_fields:
  assumes "rtp_wf p" "rtp_size p \<le> 1500"
  shows "seq_of (media_packet p) = rtp_sequence_number p" "ssrc_of (media_packet p) = rtp_ssrc p"
    and "rtp_size p \<le> 1480 \<Longrightarrow> media_ok (media_packet p)"
    and "take (pkt_length (media_packet p)) (pkt_data (media_packet p)) = rtp_bytes p"
proof -
  note f = rtp_wf_facts [OF assms(1)]
  have len: "length (rtp_bytes p) = rtp_size p" using f(3) by (simp add: rtp_bytes_def)
  note d = media_packet_data [OF len assms(2)]
  have ge: "12 \<le> rtp_size p" using f(1,2) by linarith
  have nth: "pkt_data (media_packet p) ! j = rtp_data p ! j" if "j < 12" for j
    using that ge len by (simp add: d(1) nth_append rtp_bytes_def)
  have hd: "fixed_header p" using assms(1) by (simp add: rtp_wf_def)
  have "seq_of (media_packet p) = join2 (rtp_data p ! 2) (rtp_data p ! 3)"
    unfolding ParseSequenceNumber_def join2_def by (subst disjunctive_add) (auto simp: nth bit_push_bit_iff bit_unsigned_iff)
  then show "seq_of (media_packet p) = rtp_sequence_number p" using hd by (simp add: fixed_header_def Let_def ReadBigEndian_join)
  show "ssrc_of (media_packet p) = rtp_ssrc p" using hd by (simp add: ParseSsrc_join nth fixed_header_def Let_def ReadBigEndian_join)
  show "media_ok (media_packet p)" if "rtp_size p \<le> 1480"
    using that ge hd nth [of 0] len by (simp add: media_ok_def d(2) fixed_header_def Let_def) (simp add: d(1) nth_append)
  show "take (pkt_length (media_packet p)) (pkt_data (media_packet p)) = rtp_bytes p" by (simp add: d len)
qed

lemma frame_block:
  assumes "frame_ok ms ps"
  shows "media_block (map media_packet ps)" "ssrc_of (hd (map media_packet ps)) = ms"
    and "Max (pkt_length ` set (map media_packet ps)) \<le> 1436"
proof -
  have ne: "ps \<noteq> []" and ok: "\<forall>p\<in>set ps. rtp_wf p \<and> rtp_size p \<le> 1436 \<and> rtp_ssrc p = ms" using assms by (simp_all add: frame_ok_def)
  have seq: "seq_of (media_packet p) = rtp_sequence_number p" if "p \<in> set ps" for p using media_packet_fields(1) ok that by fastforce
  have ss: "ssrc_of (media_packet p) = ms" if "p \<in> set ps" for p using media_packet_fields(2) ok that by fastforce
  have mok: "media_ok (media_packet p)" if "p \<in> set ps" for p using media_packet_fields(3) ok that by fastforce
  have base: "base_of (map media_packet ps) = rtp_sequence_number (hd ps)" using ne seq by (simp add: hd_map)
  have col: "column_of (rtp_sequence_number (hd ps)) (media_packet p) = unat (rtp_sequence_number p - rtp_sequence_number (hd ps))"
    if "p \<in> set ps" for p using seq [OF that] by (simp add: column_of_def)
  show hd: "ssrc_of (hd (map media_packet ps)) = ms" using ne ss by (simp add: hd_map)
  have "in_order (rtp_sequence_number (hd ps)) (map media_packet ps)"
    using assms unfolding in_order_def sorted_wrt_map frame_ok_def Let_def
    by (auto simp: col intro: sorted_wrt_mono_rel [rotated])
  moreover have "column_of (rtp_sequence_number (hd ps)) (last (map media_packet ps)) < 48"
    using assms ne by (simp add: last_map col frame_ok_def Let_def)
  ultimately show "media_block (map media_packet ps)"
    using ne ss mok hd by (simp add: media_block_def base)
  have "pkt_length (media_packet p) \<le> 1436" if "p \<in> set ps" for p
  proof -
    have "length (rtp_bytes p) = rtp_size p" using rtp_wf_facts(3) ok that by (simp add: rtp_bytes_def)
    then show ?thesis using ok that media_packet_data(2) by fastforce
  qed
  then show "Max (pkt_length ` set (map media_packet ps)) \<le> 1436" using ne by simp
qed

lemma all_taken: "(\<forall>x\<in>set qs. \<exists>a. P x a) \<Longrightarrow> \<exists>as. list_all2 P qs as"
  by (induction qs) (auto simp: list_all2_Cons1)

lemma all2_left: "list_all2 P xs ys \<Longrightarrow> x \<in> set xs \<Longrightarrow> \<exists>y\<in>set ys. P x y"
  by (induction rule: list_all2_induct) auto

lemma all2_right: "list_all2 P xs ys \<Longrightarrow> y \<in> set ys \<Longrightarrow> \<exists>x\<in>set xs. P x y"
  by (induction rule: list_all2_induct) auto

lemma frame_numbers:
  assumes "frame_ok ms ps" "p \<in> set ps" "p' \<in> set ps" "rtp_sequence_number p = rtp_sequence_number p'"
  shows "p = p'"
proof -
  have s: "sorted_wrt (\<lambda>p q. unat (rtp_sequence_number p - rtp_sequence_number (hd ps)) < unat (rtp_sequence_number q - rtp_sequence_number (hd ps))) ps"
    using assms(1) by (simp add: frame_ok_def Let_def)
  obtain i j where ij: "i < length ps" "j < length ps" "p = ps ! i" "p' = ps ! j" using assms(2,3) by (auto simp: in_set_conv_nth)
  then have "\<not> i < j" "\<not> j < i" using sorted_wrt_nth_less [OF s, of i j] sorted_wrt_nth_less [OF s, of j i] assms(4) by auto
  then show ?thesis using ij by (metis linorder_neqE_nat)
qed

definition packet_bytes :: "Packet \<Rightarrow> u8 list" where
  "packet_bytes p = take (pkt_length p) (pkt_data p)"

text \<open>What the decoder gets for the packets of the frame.\<close>

abbreviation media_received :: "u32 \<Rightarrow> RtpPacket \<Rightarrow> ReceivedPacket" where
  "media_received ms p \<equiv> \<lparr>rcv_ssrc = ms, rcv_seq_num = rtp_sequence_number p, is_fec = False, rcv_pkt = media_packet p\<rparr>"

abbreviation fec_received :: "u32 \<Rightarrow> u16 \<Rightarrow> Packet list \<Rightarrow> nat \<Rightarrow> ReceivedPacket" where
  "fec_received fs n0 fecs i \<equiv> \<lparr>rcv_ssrc = fs, rcv_seq_num = n0 + of_nat i, is_fec = True, rcv_pkt = fecs ! i\<rparr>"

lemma frame_media:
  assumes "frame_ok ms ps" "p \<in> set ps"
  shows "rtp_wf p" "rtp_size p \<le> 1500" "rtp_ssrc p = ms" "length (rtp_bytes p) = rtp_size p"
    and "packet_bytes (media_packet p) = rtp_bytes p"
proof -
  show p: "rtp_wf p" "rtp_size p \<le> 1500" "rtp_ssrc p = ms" "length (rtp_bytes p) = rtp_size p"
    using assms rtp_wf_facts(3) [of p] by (auto simp: frame_ok_def rtp_bytes_def)
  show "packet_bytes (media_packet p) = rtp_bytes p" using media_packet_fields(4) [OF p(1,2)] by (simp add: packet_bytes_def)
qed

subsection \<open>The generator\<close>

text \<open>A run of the generator over RTP packets, with the result of each call.\<close>

fun add_all :: "u8 list \<Rightarrow> RtpPacket list \<Rightarrow> UlpfecGenerator \<Rightarrow> (int list \<times> UlpfecGenerator) option" where
  "add_all buf [] g = Some ([], g)"
| "add_all buf (p # ps) g =
     (case AddRtpPacketAndGenerateFec (rtp_data p) (payload_size p) (headers_size p) buf g of None \<Rightarrow> None
      | Some (ret, g) \<Rightarrow> (case add_all buf ps g of None \<Rightarrow> None | Some (rets, g) \<Rightarrow> Some (ret # rets, g)))"

lemma add_append:
  "add_all buf (ps @ qs) g =
     (case add_all buf ps g of None \<Rightarrow> None
      | Some (rets, g) \<Rightarrow> (case add_all buf qs g of None \<Rightarrow> None | Some (rets', g) \<Rightarrow> Some (rets @ rets', g)))"
  by (induction ps arbitrary: g) (auto split: option.splits prod.splits)

definition stored :: "RtpPacket \<Rightarrow> UlpfecGenerator \<Rightarrow> UlpfecGenerator" where
  "stored p g = store_media (rtp_data p) (payload_size p) (headers_size p) g"

lemma stored_facts:
  assumes "rtp_padding_size p = 0" "length (media_packets g) < 48" "rtp_wf p"
  shows "media_packets (stored p g) = media_packets g @ [media_packet p]" "num_protected_frames (stored p g) = num_protected_frames g"
    and "gen_params (stored p g) = (if media_packets g = [] then new_params g else gen_params g)" "new_params (stored p g) = new_params g"
    and "gen_fec (stored p g) = gen_fec g" "generated_packets (stored p g) = generated_packets g"
    and "last_media_packet_rtp_header_length (stored p g) = headers_size p"
proof -
  let ?n = "payload_size p + headers_size p"
  have n: "?n = rtp_size p" using assms(1) by (simp add: rtp_size_def headers_size_def)
  have len: "length (rtp_bytes p) = rtp_size p" using rtp_wf_facts(3) [OF assms(3)] by (simp add: rtp_bytes_def)
  have "memcpy_at d 0 (rtp_data p) ?n = memcpy_at d 0 (rtp_bytes p) (rtp_size p)" for d
    unfolding n using memcpy_at_take [of d 0 "rtp_size p" "rtp_data p"] by (simp add: rtp_bytes_def)
  then have "\<lparr>pkt_length = ?n, pkt_data = memcpy_at (pkt_data new_Packet) 0 (rtp_data p) ?n\<rparr> = media_packet p"
    using n by (simp add: media_packet_def fresh_copy_def len)
  then show "media_packets (stored p g) = media_packets g @ [media_packet p]"
    using assms(2) by (simp add: stored_def store_media_def Let_def)
qed (use assms(2) in \<open>simp_all add: stored_def store_media_def Let_def\<close>)

lemma marker_bit: "rtp_wf p \<Longrightarrow> rtp_data p ! 1 AND kRtpMarkerBitMask \<noteq> 0 \<longleftrightarrow> rtp_marker p"
  unfolding kRtpMarkerBitMask_def and_80 by (simp add: rtp_wf_def fixed_header_def Let_def)

lemma add_unmarked:
  assumes "rtp_wf p" "\<not> rtp_marker p"
  shows "AddRtpPacketAndGenerateFec (rtp_data p) (payload_size p) (headers_size p) buf g = Some (0, stored p g)"
  using marker_bit [OF assms(1)] assms(2) by (simp add: AddRtpPacketAndGenerateFec_def stored_def Let_def)

lemma add_all_unmarked:
  assumes "\<forall>p\<in>set ps. rtp_wf p \<and> rtp_padding_size p = 0 \<and> \<not> rtp_marker p" "length (media_packets g) + length ps \<le> 48"
  shows "\<exists>g'. add_all buf ps g = Some (replicate (length ps) 0, g') \<and>
    media_packets g' = media_packets g @ map media_packet ps \<and> num_protected_frames g' = num_protected_frames g \<and>
    gen_params g' = (if media_packets g = [] \<and> ps \<noteq> [] then new_params g else gen_params g) \<and>
    new_params g' = new_params g \<and> gen_fec g' = gen_fec g"
  using assms
proof (induction ps arbitrary: g)
  case (Cons p ps)
  have p: "rtp_wf p" "rtp_padding_size p = 0" "\<not> rtp_marker p" "length (media_packets g) < 48" using Cons.prems by simp_all
  note st = stored_facts [OF p(2,4,1)]
  obtain g' where g': "add_all buf ps (stored p g) = Some (replicate (length ps) 0, g')"
    "media_packets g' = media_packets (stored p g) @ map media_packet ps" "num_protected_frames g' = num_protected_frames (stored p g)"
    "gen_params g' = gen_params (stored p g)" "new_params g' = new_params (stored p g)" "gen_fec g' = gen_fec (stored p g)"
    using Cons.IH [of "stored p g"] Cons.prems by (auto simp: st)
  show ?case by (intro exI [of _ g']) (use g' in \<open>simp add: add_unmarked [OF p(1,3)] st\<close>)
qed simp

text \<open>The generator between two frames when every frame is protected on its own.\<close>

definition generator_ready :: "FecHeaderWriter \<Rightarrow> FecProtectionParams \<Rightarrow> UlpfecGenerator \<Rightarrow> bool" where
  "generator_ready W prm g \<longleftrightarrow> media_packets g = [] \<and> num_protected_frames g = 0 \<and> new_params g = prm \<and> encoder_ok W (gen_fec g)"

text \<open>The packets \<open>fecs\<close> are FEC packets of the frame, and enough to repair one loss of it in a decoder.\<close>

definition frame_protected :: "FecHeaderWriter \<Rightarrow> FecHeaderReader \<Rightarrow> u32 \<Rightarrow> u32 \<Rightarrow> RtpPacket list \<Rightarrow> Packet list \<Rightarrow> bool" where
  "frame_protected W R fs ms ps fecs \<longleftrightarrow>
     (\<forall>i<length fecs. \<exists>w m. fec_of W (map media_packet ps) w m (fecs ! i)) \<and>
     (\<forall>d as n0 d' rs. decoder_start R ms d \<and>
        arrivals_ok (map media_packet ps) fs ((!) fecs) (\<lambda>i. n0 + of_nat i) {..<length fecs} as \<and> fold DecodeFec as (d, []) = (d', rs) \<longrightarrow>
        recs_ok (map media_packet ps) rs \<and> (\<forall>x. set (map media_packet ps) - {x} \<subseteq> rcv_pkt ` {a \<in> set as. \<not> is_fec a} \<and>
          (\<forall>i<length fecs. \<exists>a\<in>set as. fec_arrival ((!) fecs) (\<lambda>i. n0 + of_nat i) {..<length fecs} i a) \<longrightarrow> got rs = set (map media_packet ps)))"

lemma frame_encoded:
  assumes "frame_ok ms ps" "fec_kind W R fs ms" "encoder_ok W s" "0 < rate" "rate \<le> 255" "length buf = 288"
  shows "\<exists>fecs s1. EncodeFec (map media_packet ps) (word_of_int rate) 0 False ty buf s = Some (0, fecs, s1) \<and>
    length fecs = NumFecPackets (length ps) (nat rate) \<and> fecs \<noteq> [] \<and> frame_protected W R fs ms ps fecs"
proof -
  note blk = frame_block [OF assms(1)]
  let ?b = "map media_packet ps"
  have ne: "ps \<noteq> []" using assms(1) by (simp add: frame_ok_def)
  have u: "uint (word_of_int rate :: u8) = rate" using assms(4,5) by (simp add: unsigned_of_int take_bit_int_eq_self)
  then have rate: "unat (word_of_int rate :: u8) = nat rate" by (simp only: nat_uint_eq [symmetric] u)
  have pos: "0 < NumFecPackets (length ?b) (unat (word_of_int rate :: u8))"
    using assms(4) ne by (auto simp: rate NumFecPackets_def Let_def)
  have kind: "fec_kind W R fs (ssrc_of (hd ?b))" using assms(2) by (simp only: blk(2))
  obtain fecs s1 w pm where enc: "EncodeFec ?b (word_of_int rate) 0 False ty buf s = Some (0, fecs, s1)"
      "length fecs = NumFecPackets (length ?b) (unat (word_of_int rate :: u8))"
      "\<forall>i<length fecs. fec_of W ?b w (drop (i * w) pm) (fecs ! i)"
      "\<forall>d as n0 d' rs. decoder_start R (ssrc_of (hd ?b)) d \<and>
         arrivals_ok ?b fs ((!) fecs) (\<lambda>i. n0 + of_nat i) {..<length fecs} as \<and> fold DecodeFec as (d, []) = (d', rs) \<longrightarrow>
         recs_ok ?b rs \<and> (\<forall>x. set ?b - {x} \<subseteq> rcv_pkt ` {a \<in> set as. \<not> is_fec a} \<and>
           (\<forall>i<length fecs. \<exists>a\<in>set as. fec_arrival ((!) fecs) (\<lambda>i. n0 + of_nat i) {..<length fecs} i a) \<longrightarrow> got rs = set ?b)"
    using block_repaired [OF kind assms(3) blk(1) pos _ assms(6), of 0 False ty] by auto
  have "frame_protected W R fs ms ps fecs"
    unfolding frame_protected_def using enc(3,4) unfolding blk(2) by blast
  then show ?thesis using enc(1,2) pos by (intro exI [of _ fecs] exI [of _ s1]) (auto simp: rate)
qed

lemma generate_frame:
  assumes "frame_ok ms ps" "fec_kind W R fs ms" "generator_ready W prm g"
    and "0 < fec_rate prm" "fec_rate prm \<le> 255" "max_fec_frames prm = 1" "length buf = 288"
  shows "\<exists>g'. add_all buf ps g = Some (replicate (length ps) 0, g') \<and> media_packets g' = map media_packet ps \<and>
    last_media_packet_rtp_header_length g' = headers_size (last ps) \<and>
    length (generated_packets g') = NumFecPackets (length ps) (nat (fec_rate prm)) \<and> frame_protected W R fs ms ps (generated_packets g')"
proof -
  let ?b = "map media_packet ps"
  have ne: "ps \<noteq> []" and mark: "rtp_marker (last ps)" "\<forall>p\<in>set (butlast ps). \<not> rtp_marker p"
    and ok: "\<forall>p\<in>set ps. rtp_wf p \<and> rtp_padding_size p = 0" using assms(1) by (simp_all add: frame_ok_def)
  have len: "length ps \<le> 48" using media_block_le [OF frame_block(1) [OF assms(1)]] by simp
  have g: "media_packets g = []" "num_protected_frames g = 0" "new_params g = prm" "encoder_ok W (gen_fec g)"
    using assms(3) by (simp_all add: generator_ready_def)
  have ok': "\<forall>p\<in>set (butlast ps). rtp_wf p \<and> rtp_padding_size p = 0 \<and> \<not> rtp_marker p" using ok mark(2) by (auto dest: in_set_butlastD)
  have l': "length (media_packets g) + length (butlast ps) \<le> 48" using len g(1) by simp
  obtain g1 where g1: "add_all buf (butlast ps) g = Some (replicate (length (butlast ps)) 0, g1)"
    "media_packets g1 = map media_packet (butlast ps)" "num_protected_frames g1 = 0"
    "butlast ps \<noteq> [] \<Longrightarrow> gen_params g1 = prm" "new_params g1 = prm" "gen_fec g1 = gen_fec g"
    using add_all_unmarked [OF ok' l', of buf] g by auto
  have last: "rtp_wf (last ps)" "rtp_padding_size (last ps) = 0" using ok ne by simp_all
  have room: "length (media_packets g1) < 48" using len ne by (cases ps) (auto simp: g1(2))
  note st = stored_facts [OF last(2) room last(1)]
  have full: "media_packets (stored (last ps) g1) = ?b"
    unfolding st(1) g1(2) using arg_cong [OF append_butlast_last_id [OF ne], of "map media_packet"] by simp
  have prm: "gen_params (stored (last ps) g1) = prm" using g1(2,4,5) by (auto simp: st)
  obtain fecs s1 where enc: "EncodeFec ?b (word_of_int (fec_rate prm)) 0 False (fec_mask_type prm) buf (gen_fec g) = Some (0, fecs, s1)"
      "length fecs = NumFecPackets (length ps) (nat (fec_rate prm))" "fecs \<noteq> []" "frame_protected W R fs ms ps fecs"
    using frame_encoded [OF assms(1,2) g(4) assms(4,5,7), of "fec_mask_type prm"] by blast
  define g2 where "g2 = (stored (last ps) g1)\<lparr>num_protected_frames := 1, gen_fec := s1, generated_packets := fecs\<rparr>"
  have add: "AddRtpPacketAndGenerateFec (rtp_data (last ps)) (payload_size (last ps)) (headers_size (last ps)) buf g1 = Some (0, g2)"
    using marker_bit [OF last(1)] mark(1) st full prm enc(1,3) assms(6) g1(3,6)
    unfolding AddRtpPacketAndGenerateFec_def Let_def stored_def [symmetric] by (simp add: g2_def)
  have rep: "replicate (length (butlast ps)) (0 :: int) @ [0] = replicate (length ps) 0"
    using ne by (cases ps) (simp_all add: replicate_append_same)
  have "add_all buf (butlast ps @ [last ps]) g = Some (replicate (length ps) 0, g2)"
    unfolding add_append by (simp add: g1(1) add rep del: length_butlast)
  then show ?thesis using enc(2,4) full st(7) ne by (intro exI [of _ g2]) (simp add: g2_def)
qed

lemma frame_protected_clear:
  assumes "frame_protected W R fs ms ps fecs" "fec_kind W R fs ms" "frame_ok ms ps" "i < length fecs"
  shows "fec_clear (map media_packet ps) (fecs ! i)" "W = FlexfecHeaderWriter \<Longrightarrow> 20 \<le> pkt_length (fecs ! i)"
    and "pkt_length (fecs ! i) \<le> 1456" "length (pkt_data (fecs ! i)) = 1500"
proof -
  note blk = frame_block [OF assms(3)]
  have W: "W = UlpfecHeaderWriter \<or> W = FlexfecHeaderWriter" using assms(2) by (auto elim: fec_kindE)
  obtain w m where "fec_of W (map media_packet ps) w m (fecs ! i)" using assms(1,4) unfolding frame_protected_def by blast
  note clear = fec_of_clear [OF this W blk(1)]
  show "fec_clear (map media_packet ps) (fecs ! i)" "W = FlexfecHeaderWriter \<Longrightarrow> 20 \<le> pkt_length (fecs ! i)" by (fact clear)+
  then show "pkt_length (fecs ! i) \<le> 1456" "length (pkt_data (fecs ! i)) = 1500" using blk(3) by (auto simp: fec_clear_def)
qed

lemma frame_protected_repairs:
  assumes "frame_protected W R fs ms ps fecs" "decoder_start R ms d"
  shows "\<forall>as n0 d' rs. arrivals_ok (map media_packet ps) fs ((!) fecs) (\<lambda>i. n0 + of_nat i) {..<length fecs} as \<and> fold DecodeFec as (d, []) = (d', rs) \<longrightarrow>
    recs_ok (map media_packet ps) rs \<and> (\<forall>x. set (map media_packet ps) - {x} \<subseteq> rcv_pkt ` {a \<in> set as. \<not> is_fec a} \<and>
      (\<forall>i\<in>{..<length fecs}. \<exists>a\<in>set as. fec_arrival ((!) fecs) (\<lambda>i. n0 + of_nat i) {..<length fecs} i a) \<longrightarrow> got rs = set (map media_packet ps))"
  using assms unfolding frame_protected_def by (simp only: lessThan_iff Ball_def) blast

end
