(* ===== verification/FlexfecSession.thy ===== *)
theory FlexfecSession
  imports FlexfecStream FrameGen
begin

text \<open>
  A FlexFEC stream from the sender to the receiver: what the sender puts into its RTP packets, what the
  receiver takes out of them, and that one loss in a frame is repaired.
\<close>

subsection \<open>The RTP packets of the sender\<close>

lemma Register_mixed [simp]: "extmap_allow_mixed (snd (Register i t m)) = extmap_allow_mixed m"
  by (simp add: Register_def Let_def)

lemma register_supported_mixed: "extmap_allow_mixed (register_supported e m) = extmap_allow_mixed m"
  by (simp add: register_supported_def)

lemma RegisterSupported_mixed [simp]: "\<not> extmap_allow_mixed (RegisterSupportedExtensions es)"
proof -
  have "extmap_allow_mixed (fold register_supported es m) = extmap_allow_mixed m" for m
    by (induction es arbitrary: m) (simp_all add: register_supported_mixed)
  then show ?thesis by (simp add: RegisterSupportedExtensions_def new_RtpHeaderExtensionMap_def)
qed

text \<open>A header without contributing sources and extensions.\<close>

definition bare :: "RtpPacket \<Rightarrow> bool" where
  "bare p \<longleftrightarrow> rtp_wf p \<and> num_csrc p = 0 \<and> extensions_size p = 0 \<and> payload_size p = 0 \<and> rtp_padding_size p = 0 \<and>
     length (rtp_data p) = 1500"

lemma bare_new: "\<not> extmap_allow_mixed m \<Longrightarrow> bare (new_RtpPacket fresh (Some m) 1500)"
proof -
  assume m: "\<not> extmap_allow_mixed m"
  have low: "(0x80 :: u8) AND 0x0F = 0" by simp
  have "rtp_wf (new_RtpPacket fresh (Some m) 1500)" by (rule new_RtpPacket_wf) (use m in auto)
  then show ?thesis by (simp add: bare_def new_RtpPacket_cleared num_csrc_def low) (simp add: cleared_def low)
qed

lemma bare_setters:
  assumes "bare p"
  shows "bare (SetMarker mk p)" "t < 0x80 \<Longrightarrow> bare (SetPayloadType t p)" "bare (SetSequenceNumber n p)" "bare (SetTimestamp ts p)" "bare (SetSsrc s p)"
  using assms unfolding bare_def
  by (simp_all add: SetMarker_wf SetPayloadType_wf SetSequenceNumber_wf SetTimestamp_wf SetSsrc_wf)
    (simp_all add: SetMarker_def SetPayloadType_def SetSequenceNumber_def SetTimestamp_def SetSsrc_def write_byte_def num_csrc_def
      WriteBigEndian2_other WriteBigEndian4_other)

lemma fec_packet_header_facts:
  assumes "\<not> extmap_allow_mixed (rtp_header_extension_map s)" "0 \<le> fs_payload_type s" "fs_payload_type s \<le> 127"
  shows "bare (fec_packet_header fresh now s)"
    and "rtp_ssrc (fec_packet_header fresh now s) = fs_ssrc s" "rtp_sequence_number (fec_packet_header fresh now s) = fs_seq_num s"
    and "rtp_payload_type (fec_packet_header fresh now s) = word_of_int (fs_payload_type s)" "\<not> rtp_marker (fec_packet_header fresh now s)"
    and "rtp_timestamp (fec_packet_header fresh now s) = timestamp_offset s + word_of_int (90 * now)"
proof -
  have "uint (word_of_int (fs_payload_type s) :: u8) = fs_payload_type s" using assms(2,3) by (simp add: unsigned_of_int take_bit_int_eq_self)
  then have "(word_of_int (fs_payload_type s) :: u8) < 0x80" using assms(3) by (simp add: word_less_def)
  then show "bare (fec_packet_header fresh now s)"
    unfolding fec_packet_header_def Let_def kDefaultPacketSize_def by (intro bare_setters bare_new assms(1))
qed (simp_all add: fec_packet_header_def Let_def SetMarker_def SetPayloadType_def SetSequenceNumber_def SetTimestamp_def SetSsrc_def write_byte_def)

lemma fec_packet_extensions_facts:
  assumes "rtp_wf p"
  shows "\<exists>q. fec_packet_extensions fresh mid p = Some q \<and> rtp_wf q \<and> kept p q \<and> grown p 28 q"
proof -
  let ?R = "ReserveExtension fresh"
  obtain b1 q1 where 1: "?R kRtpExtensionAbsoluteSendTime 3 p = Some (b1, q1)" "rtp_wf q1" "kept p q1" "grown p 4 q1"
    using ReserveExtension_wf [OF assms, of fresh kRtpExtensionAbsoluteSendTime 3] by auto
  obtain b2 q2 where 2: "?R kRtpExtensionTransmissionTimeOffset 3 q1 = Some (b2, q2)" "rtp_wf q2" "kept q1 q2" "grown q1 4 q2"
    using ReserveExtension_wf [OF 1(2), of fresh kRtpExtensionTransmissionTimeOffset 3] by auto
  obtain b3 q3 where 3: "?R kRtpExtensionTransportSequenceNumber 2 q2 = Some (b3, q3)" "rtp_wf q3" "kept q2 q3" "grown q2 3 q3"
    using ReserveExtension_wf [OF 2(2), of fresh kRtpExtensionTransportSequenceNumber 2] by (auto simp: numeral_3_eq_3)
  obtain b4 q4 where 4: "SetExtension_string fresh kRtpExtensionMid mid q3 = Some (b4, q4)" "rtp_wf q4" "kept q3 q4" "grown q3 17 q4"
    using SetExtension_string_wf [OF 3(2)] by blast
  have k: "kept p q3" "grown p 11 q3"
    using kept_trans [OF kept_trans [OF 1(3) 2(3)] 3(3)] grown_trans [OF grown_trans [OF 1(4) 2(4)] 3(4)] by simp_all
  have "kept p q4" "grown p 28 q4" using kept_trans [OF k(1) 4(3)] grown_trans [OF k(2) 4(4)] by simp_all
  moreover have "grown p 28 q3" using k(2) by (simp add: grown_def)
  moreover have "fec_packet_extensions fresh mid p = (if mid \<noteq> [] then Some q4 else Some q3)"
    by (simp add: fec_packet_extensions_def 1(1) 2(1) 3(1) 4(1))
  ultimately show ?thesis using 3(2) 4(2) k(1) by auto
qed

text \<open>The RTP packet \<open>p\<close> carries the FEC packet \<open>f\<close> with the number \<open>n\<close>.\<close>

definition carries_fec :: "u32 \<Rightarrow> u16 \<Rightarrow> u8 \<Rightarrow> Packet \<Rightarrow> RtpPacket \<Rightarrow> bool" where
  "carries_fec ssrc n t f p \<longleftrightarrow> rtp_wf p \<and> rtp_ssrc p = ssrc \<and> rtp_sequence_number p = n \<and> rtp_payload_type p = t \<and>
     rtp_padding_size p = 0 \<and> rtp_payload p = take (pkt_length f) (pkt_data f) \<and> payload_size p = pkt_length f"

lemma payload_offset_bound:
  assumes "rtp_wf q" "grown p 28 q" "bare p"
  shows "payload_offset q \<le> 44"
proof -
  have ext: "ext_block q" using assms(1) by (simp add: rtp_wf_def)
  have csrc: "extensions_offset q = 16" "extensions_size q \<le> 28" using assms(2,3) by (simp_all add: grown_def bare_def extensions_offset_def)
  then have "4 * ((extensions_size q + 3) div 4) \<le> 28" by presburger
  then show ?thesis using ext csrc by (auto simp: ext_block_def Let_def split: if_splits)
qed

lemma payload_written_wf:
  assumes "rtp_wf p" "payload_offset p + payload_size p \<le> length (rtp_data p)" "n = payload_size p"
  shows "rtp_wf (WriteAt (\<lambda>d. memcpy_at d (payload_offset p) b n) p)"
proof (rule write_view_wf [OF assms(1) _ _ refl])
  show "view_byte p j" if "j < length (rtp_data p)" "rtp_data (WriteAt (\<lambda>d. memcpy_at d (payload_offset p) b n) p) ! j \<noteq> rtp_data p ! j" for j
    using that assms(3) by (auto simp: view_byte_def memcpy_at_nth split: if_splits)
qed simp

lemma fec_packet_to_send_facts:
  assumes "\<not> extmap_allow_mixed (rtp_header_extension_map s)" "0 \<le> fs_payload_type s" "fs_payload_type s \<le> 127"
    and "pkt_length f \<le> 1456" "length (pkt_data f) = 1500"
  shows "\<exists>p. fec_packet_to_send fresh clock s f = Some p \<and> carries_fec (fs_ssrc s) (fs_seq_num s) (word_of_int (fs_payload_type s)) f (send_rtp p)"
proof -
  let ?h = "fec_packet_header fresh (clock 0) s"
  note h = fec_packet_header_facts [OF assms(1-3), of fresh "clock 0"]
  have wf: "rtp_wf ?h" "payload_size ?h = 0" "rtp_padding_size ?h = 0" "length (rtp_data ?h) = 1500" using h(1) by (simp_all add: bare_def)
  obtain q where q: "fec_packet_extensions fresh (fs_mid s) ?h = Some q" "rtp_wf q" "kept ?h q" "grown ?h 28 q"
    using fec_packet_extensions_facts [OF wf(1)] by blast
  have pad: "rtp_padding_size q = 0" and len: "length (rtp_data q) = 1500" using q(3) wf by (simp_all add: kept_def)
  have off: "payload_offset q \<le> 44" by (rule payload_offset_bound [OF q(2,4) h(1)])
  let ?n = "pkt_length f"
  define a where "a = q\<lparr>payload_size := ?n, rtp_buffer := (rtp_buffer q)\<lparr>buf_size := payload_offset q + ?n\<rparr>\<rparr>"
  have alloc: "AllocatePayload fresh ?n q = (Some (payload_offset q), a)"
    using off len assms(4) by (simp add: AllocatePayload_def SetPayloadSize_eq a_def)
  have a: "rtp_wf a" using AllocatePayload_wf [OF q(2) pad, of fresh ?n] by (simp add: alloc)
  let ?p = "WriteAt (\<lambda>d. memcpy_at d (payload_offset q) (pkt_data f) ?n) a"
  have "rtp_wf (WriteAt (\<lambda>d. memcpy_at d (payload_offset a) (pkt_data f) ?n) a)"
    by (rule payload_written_wf [OF a]) (use off len assms(4) in \<open>simp_all add: a_def\<close>)
  then have "rtp_wf ?p" by (simp add: a_def)
  moreover have "rtp_payload ?p = take ?n (pkt_data f)"
    by (rule nth_equalityI) (use off len assms(4,5) in \<open>simp_all add: rtp_payload_def slice_def a_def memcpy_at_nth\<close>)
  ultimately have "carries_fec (fs_ssrc s) (fs_seq_num s) (word_of_int (fs_payload_type s)) f ?p"
    using q(3) h(2-4) pad by (simp add: carries_fec_def a_def kept_def)
  then show ?thesis by (simp add: fec_packet_to_send_def q(1) alloc)
qed

lemma fec_packets_loop_facts:
  assumes "\<not> extmap_allow_mixed (rtp_header_extension_map s)" "0 \<le> fs_payload_type s" "fs_payload_type s \<le> 127"
    and "\<forall>f\<in>set fecs. pkt_length f \<le> 1456 \<and> length (pkt_data f) = 1500"
  shows "\<exists>ps. fec_packets_loop fresh clock s fecs = Some (ps, s\<lparr>fs_seq_num := fs_seq_num s + of_nat (length fecs)\<rparr>) \<and> length ps = length fecs \<and>
    (\<forall>i<length fecs. carries_fec (fs_ssrc s) (fs_seq_num s + of_nat i) (word_of_int (fs_payload_type s)) (fecs ! i) (send_rtp (ps ! i)))"
  using assms
proof (induction fecs arbitrary: s clock)
  case (Cons f fecs)
  obtain p where p: "fec_packet_to_send fresh clock s f = Some p"
      "carries_fec (fs_ssrc s) (fs_seq_num s) (word_of_int (fs_payload_type s)) f (send_rtp p)"
    using fec_packet_to_send_facts Cons.prems by fastforce
  let ?s = "s\<lparr>fs_seq_num := fs_seq_num s + 1\<rparr>"
  obtain ps where ps: "fec_packets_loop fresh (\<lambda>i. clock (i + 2)) ?s fecs = Some (ps, ?s\<lparr>fs_seq_num := fs_seq_num ?s + of_nat (length fecs)\<rparr>)"
      "length ps = length fecs"
      "\<forall>i<length fecs. carries_fec (fs_ssrc s) (fs_seq_num ?s + of_nat i) (word_of_int (fs_payload_type s)) (fecs ! i) (send_rtp (ps ! i))"
    using Cons.IH [of ?s "\<lambda>i. clock (i + 2)"] Cons.prems by auto
  have "carries_fec (fs_ssrc s) (fs_seq_num s + of_nat i) (word_of_int (fs_payload_type s)) ((f # fecs) ! i) (send_rtp ((p # ps) ! i))"
    if "i < length (f # fecs)" for i
    using that p(2) ps(3) by (cases i) (simp_all add: add.assoc)
  then show ?case using p(1) ps(1,2) by (intro exI [of _ "p # ps"]) (simp add: add.assoc)
qed simp

subsection \<open>What the receiver makes of a packet\<close>

lemma payload_of_bytes: "rtp_payload p = take (payload_size p) (drop (payload_offset p) (rtp_bytes p))"
  by (simp add: rtp_payload_def slice_def rtp_bytes_def rtp_size_def drop_take)

lemma same_packet_payload: "same_packet p q \<Longrightarrow> rtp_payload q = rtp_payload p"
  by (simp add: payload_of_bytes same_packet_def)

text \<open>The decoder's packet \<open>a\<close> for the RTP packet \<open>q\<close>; only the counters of the receiver change.\<close>

definition taken_as :: "u32 \<Rightarrow> u32 \<Rightarrow> RtpPacketReceived \<Rightarrow> ReceivedPacket \<Rightarrow> bool" where
  "taken_as fs ms q a \<longleftrightarrow> \<not> recovered q \<and>
     (\<forall>r. fr_ssrc r = fs \<and> fr_protected_media_ssrc r = ms \<longrightarrow>
        (\<exists>c. AddReceivedPacket q r = Some (Some a, r\<lparr>packet_counter := c\<rparr>)))"

text \<open>An FEC packet that arrives as it was sent.\<close>

definition arrives_fec :: "RtpPacketToSend \<Rightarrow> RtpPacketReceived \<Rightarrow> bool" where
  "arrives_fec p q \<longleftrightarrow> \<not> recovered q \<and> (\<exists>fresh q0. Parse fresh (rtp_bytes (send_rtp p)) q0 = (True, received_rtp q))"

lemma fec_taken:
  assumes "carries_fec fs n 113 f (send_rtp p)" "arrives_fec p q" "fec_clear ps f" "pkt_length f \<le> 1456" "20 \<le> pkt_length f"
  shows "taken_as fs ms q \<lparr>rcv_ssrc = fs, rcv_seq_num = n, is_fec = True, rcv_pkt = f\<rparr>"
proof -
  let ?q = "received_rtp q" and ?n = "pkt_length f"
  have wf: "rtp_wf (send_rtp p)" using assms(1) by (simp add: carries_fec_def)
  obtain fresh q0 where parse: "Parse fresh (rtp_bytes (send_rtp p)) q0 = (True, ?q)" using assms(2) by (auto simp: arrives_fec_def)
  have same: "same_packet (send_rtp p) ?q" using rtp_parse_same [OF wf, of fresh q0] parse by auto
  have q: "rtp_ssrc ?q = fs" "rtp_sequence_number ?q = n" "rtp_payload_type ?q = 113" "payload_size ?q = ?n"
    "rtp_payload ?q = take ?n (pkt_data f)"
    using same same_packet_payload [OF same] assms(1) by (simp_all add: same_packet_def carries_fec_def)
  have "\<lparr>pkt_length = ?n, pkt_data = memcpy_at (pkt_data new_Packet) 0 (rtp_payload ?q) ?n\<rparr> = f"
    using fresh_copy_clear [of f] assms(3,4) by (simp add: fec_clear_def fresh_copy_def q(5))
  then show ?thesis
    using assms(2,4,5) q by (simp add: taken_as_def AddReceivedPacket_def Let_def arrives_fec_def) blast
qed

text \<open>A media packet arrives: once the extensions are cleared that may change on the way, the bytes are those the
  sender protected. In a stream shared with the FEC packets it has another payload type.\<close>

definition arrives_media :: "u32 \<Rightarrow> RtpPacket \<Rightarrow> RtpPacketReceived \<Rightarrow> bool" where
  "arrives_media fs p q \<longleftrightarrow> (let r = received_rtp q in \<not> recovered q \<and> rtp_ssrc r = rtp_ssrc p \<and>
     rtp_sequence_number r = rtp_sequence_number p \<and> rtp_size r = rtp_size p \<and> (rtp_ssrc r = fs \<longrightarrow> rtp_payload_type r \<noteq> 113) \<and>
     CopyAndZeroMutableExtensions r 1500 (replicate 1500 0) = Some (rtp_bytes p @ replicate (1500 - rtp_size p) 0))"

lemma media_taken:
  assumes "arrives_media fs p q" "rtp_ssrc p = ms" "length (rtp_bytes p) = rtp_size p" "rtp_size p \<le> 1500"
  shows "taken_as fs ms q \<lparr>rcv_ssrc = ms, rcv_seq_num = rtp_sequence_number p, is_fec = False, rcv_pkt = media_packet p\<rparr>"
proof -
  have "\<lparr>pkt_length = rtp_size p, pkt_data = rtp_bytes p @ replicate (1500 - rtp_size p) 0\<rparr> = media_packet p"
    using media_packet_data [OF assms(3,4)] by (metis Packet.surjective old.unit.exhaust)
  then show ?thesis
    using assms(1,2) by (auto simp: taken_as_def AddReceivedPacket_def Let_def arrives_media_def new_Packet_def)
qed

text \<open>A run of the receiver, with the times that the calls read.\<close>

fun receive_all :: "((nat \<Rightarrow> int) \<times> RtpPacketReceived) list \<Rightarrow> FlexfecReceiver \<Rightarrow> (Packet list \<times> FlexfecReceiver) option" where
  "receive_all [] r = Some ([], r)"
| "receive_all ((clock, q) # qs) r =
     (case OnRtpPacket clock q r of None \<Rightarrow> None
      | Some (out, r) \<Rightarrow>
          (case receive_all qs r of None \<Rightarrow> None
           | Some (outs, r) \<Rightarrow> Some (out @ outs, r)))"

lemma receive_all_decodes:
  assumes "list_all2 (\<lambda>(clock, q) a. taken_as fs ms q a) qs as" "fr_ssrc r = fs" "fr_protected_media_ssrc r = ms"
    and "deliver_all as (erasure_code r, recovered_packets r) = (outs, code, rs)"
  shows "\<exists>r'. receive_all qs r = Some (outs, r') \<and> erasure_code r' = code \<and> recovered_packets r' = rs"
  using assms
proof (induction qs as arbitrary: r outs rule: list_all2_induct)
  case (Cons x qs a as)
  obtain clock q where x: "x = (clock, q)" by fastforce
  have t: "taken_as fs ms q a" using Cons.hyps(1) by (simp add: x)
  then obtain c where add: "AddReceivedPacket q r = Some (Some a, r\<lparr>packet_counter := c\<rparr>)" "\<not> recovered q"
    using Cons.prems(1,2) by (auto simp: taken_as_def)
  obtain s1 rs1 where d: "DecodeFec a (erasure_code r, recovered_packets r) = (s1, rs1)" by fastforce
  obtain o1 rs2 where ret: "return_recovered rs1 = (o1, rs2)" by fastforce
  obtain o2 where rest: "deliver_all as (s1, rs2) = (o2, code, rs)" "outs = o1 @ o2"
    using Cons.prems(3) by (auto simp: d ret split: prod.splits)
  define r1 where "r1 = snd (ProcessReceivedPacket clock a (r\<lparr>packet_counter := c\<rparr>))"
  have r1: "ProcessReceivedPacket clock a (r\<lparr>packet_counter := c\<rparr>) = (o1, r1)" "erasure_code r1 = s1" "recovered_packets r1 = rs2"
    "fr_ssrc r1 = fs" "fr_protected_media_ssrc r1 = ms"
    using Cons.prems(1,2) by (simp_all add: r1_def ProcessReceivedPacket_def d ret Let_def)
  have "deliver_all as (erasure_code r1, recovered_packets r1) = (o2, code, rs)" using rest(1) r1(2,3) by simp
  from Cons.IH [OF r1(4,5) this] show ?case
    using add r1(1) rest(2) by (auto simp: x OnRtpPacket_def)
qed simp

end
