(* ===== verification/FrameStream.thy ===== *)
theory FrameStream
  imports FrameGen
begin

text \<open>
  The contract between the stream of a code and its decoder, shared by FlexFEC and ULPFEC: what the receiver
  takes for a packet that arrives is unique, a media packet is taken as the packet the encoder protected, and a
  packet that carries an FEC packet as that FEC packet. Under this contract a frame is repaired, seen
  from the decoder. \<open>'c\<close> is what the format depends on, \<open>'s\<close> a packet sent and \<open>'q\<close> one that arrives.
\<close>

locale frame_stream =
  fixes sent_ok :: "'c \<Rightarrow> u32 \<Rightarrow> u32 \<Rightarrow> RtpPacket list \<Rightarrow> u16 \<Rightarrow> Packet list \<Rightarrow> 's list \<Rightarrow> bool"
    and taken :: "'c \<Rightarrow> u32 \<Rightarrow> u32 \<Rightarrow> 'q \<Rightarrow> ReceivedPacket \<Rightarrow> bool"
    and media_arrives :: "'c \<Rightarrow> u32 \<Rightarrow> RtpPacket \<Rightarrow> 'q \<Rightarrow> bool"
    and fec_arrives :: "'c \<Rightarrow> 's \<Rightarrow> 'q \<Rightarrow> bool"
  assumes sent_frame: "sent_ok c fs ms ps n0 fecs sent \<Longrightarrow> frame_ok ms ps \<and> length sent = length fecs"
    and taken_unique: "taken c fs ms q a \<Longrightarrow> taken c fs ms q b \<Longrightarrow> a = b"
    and media_law: "sent_ok c fs ms ps n0 fecs sent \<Longrightarrow> p \<in> set ps \<Longrightarrow> media_arrives c fs p q \<Longrightarrow> taken c fs ms q (media_received ms p)"
    and fec_law: "sent_ok c fs ms ps n0 fecs sent \<Longrightarrow> i < length fecs \<Longrightarrow> fec_arrives c (sent ! i) q \<Longrightarrow> taken c fs ms q (fec_received fs n0 fecs i)"
begin

lemma taken_kind:
  assumes "sent_ok c fs ms ps n0 fecs sent" "(\<exists>p\<in>set ps. media_arrives c fs p q) \<or> (\<exists>f\<in>set sent. fec_arrives c f q)"
  shows "\<exists>a. taken c fs ms q a \<and> ((\<exists>p\<in>set ps. media_arrives c fs p q \<and> a = media_received ms p) \<or> (\<exists>i<length fecs. a = fec_received fs n0 fecs i))"
  using assms(2)
proof
  assume "\<exists>p\<in>set ps. media_arrives c fs p q"
  then show ?thesis using media_law [OF assms(1)] by blast
next
  assume "\<exists>f\<in>set sent. fec_arrives c f q"
  then obtain i where "i < length fecs" "fec_arrives c (sent ! i) q" using sent_frame [OF assms(1)] by (auto simp: in_set_conv_nth)
  then show ?thesis using fec_law [OF assms(1)] by blast
qed

lemma all_kinds:
  assumes "sent_ok c fs ms ps n0 fecs sent" "\<forall>q\<in>set qs. (\<exists>p\<in>set ps. media_arrives c fs p q) \<or> (\<exists>f\<in>set sent. fec_arrives c f q)"
    and "list_all2 (taken c fs ms) qs as" "a \<in> set as"
  shows "(\<exists>p\<in>set ps. (\<exists>q\<in>set qs. media_arrives c fs p q) \<and> a = media_received ms p) \<or> (\<exists>i<length fecs. a = fec_received fs n0 fecs i)"
proof -
  obtain q where q: "q \<in> set qs" "taken c fs ms q a" using all2_right [OF assms(3,4)] by blast
  obtain b where b: "taken c fs ms q b"
    "(\<exists>p\<in>set ps. media_arrives c fs p q \<and> b = media_received ms p) \<or> (\<exists>i<length fecs. b = fec_received fs n0 fecs i)"
    using taken_kind [OF assms(1)] assms(2) q(1) by blast
  have "a = b" by (rule taken_unique [OF q(2) b(1)])
  then show ?thesis using b(2) q(1) by blast
qed

lemma taken_in:
  assumes "list_all2 (taken c fs ms) qs as" "q \<in> set qs" "taken c fs ms q a"
  shows "a \<in> set as"
  using all2_left [OF assms(1,2)] taken_unique [OF assms(3)] by blast

lemma complete_block:
  assumes sent: "sent_ok c fs ms ps n0 fecs sent" and as: "list_all2 (taken c fs ms) qs as"
    and most: "\<forall>p\<in>set ps - {x}. \<exists>q\<in>set qs. media_arrives c fs p q" and all: "\<forall>f\<in>set sent. \<exists>q\<in>set qs. fec_arrives c f q"
  shows "set (map media_packet ps) - {media_packet x} \<subseteq> rcv_pkt ` {a \<in> set as. \<not> is_fec a}"
    and "\<forall>i\<in>{..<length fecs}. \<exists>a\<in>set as. fec_arrival ((!) fecs) (\<lambda>i. n0 + of_nat i) {..<length fecs} i a"
proof -
  show "set (map media_packet ps) - {media_packet x} \<subseteq> rcv_pkt ` {a \<in> set as. \<not> is_fec a}"
  proof
    fix y assume "y \<in> set (map media_packet ps) - {media_packet x}"
    then obtain p where p: "p \<in> set ps" "y = media_packet p" "p \<noteq> x" by auto
    then obtain q where q: "q \<in> set qs" "media_arrives c fs p q" using most by blast
    have "media_received ms p \<in> set as" by (rule taken_in [OF as q(1) media_law [OF sent p(1) q(2)]])
    then show "y \<in> rcv_pkt ` {a \<in> set as. \<not> is_fec a}" using p(2) by (intro image_eqI [of _ _ "media_received ms p"]) simp_all
  qed
  show "\<forall>i\<in>{..<length fecs}. \<exists>a\<in>set as. fec_arrival ((!) fecs) (\<lambda>i. n0 + of_nat i) {..<length fecs} i a"
  proof
    fix i assume "i \<in> {..<length fecs}"
    then have i: "i < length fecs" "sent ! i \<in> set sent" using sent_frame [OF sent] by simp_all
    then obtain q where q: "q \<in> set qs" "fec_arrives c (sent ! i) q" using all by blast
    have "fec_received fs n0 fecs i \<in> set as" by (rule taken_in [OF as q(1) fec_law [OF sent i(1) q(2)]])
    then show "\<exists>a\<in>set as. fec_arrival ((!) fecs) (\<lambda>i. n0 + of_nat i) {..<length fecs} i a"
      using i(1) by (intro bexI [of _ "fec_received fs n0 fecs i"]) (simp_all add: fec_arrival_def)
  qed
qed

lemma arrived_media:
  assumes sent: "sent_ok c fs ms ps n0 fecs sent" and p: "p \<in> set ps"
    and kinds: "\<And>a. a \<in> set as \<Longrightarrow> (\<exists>p\<in>set ps. P p \<and> a = media_received ms p) \<or> (\<exists>i<length fecs. a = fec_received fs n0 fecs i)"
    and m: "media_packet p \<in> rcv_pkt ` {a \<in> set as. \<not> is_fec a}"
  shows "P p"
proof -
  note frame = conjunct1 [OF sent_frame [OF sent]]
  obtain a where am: "media_packet p = rcv_pkt a" "a \<in> {a \<in> set as. \<not> is_fec a}" using m by (rule imageE)
  then have a: "a \<in> set as" "\<not> is_fec a" "rcv_pkt a = media_packet p" by simp_all
  obtain p' where p': "p' \<in> set ps" "P p'" "a = media_received ms p'" using kinds [OF a(1)] a(2) by auto
  have "rtp_sequence_number p = rtp_sequence_number p'"
    using media_packet_fields(1) [OF frame_media(1,2) [OF frame], OF p p]
      media_packet_fields(1) [OF frame_media(1,2) [OF frame], OF p'(1) p'(1)] a(3) p'(3) by simp
  from frame_numbers [OF frame p p'(1) this] show "P p" using p'(2) by blast
qed

text \<open>The decoder of the receiver: what arrives is taken as \<open>as\<close>, the decoder repairs \<open>outs\<close>, and if all FEC packets
  and all media packets but one arrive, every media packet arrives or is repaired.\<close>

lemma stream_repaired:
  assumes sent: "sent_ok c fs ms ps n0 fecs sent" and rep: "frame_protected W R fs ms ps fecs" and start: "decoder_start R ms d"
    and arrive: "\<forall>q\<in>set qs. (\<exists>p\<in>set ps. media_arrives c fs p q) \<or> (\<exists>f\<in>set sent. fec_arrives c f q)"
  shows "\<exists>as outs st. list_all2 (taken c fs ms) qs as \<and> deliver_all as (d, []) = (outs, st) \<and>
    set outs \<subseteq> media_packet ` set ps \<and> rcv_pkt ` {a \<in> set as. \<not> is_fec a} \<subseteq> media_packet ` set ps \<and>
    (\<forall>p\<in>set ps. (\<exists>q\<in>set qs. media_arrives c fs p q) \<longleftrightarrow> media_packet p \<in> rcv_pkt ` {a \<in> set as. \<not> is_fec a}) \<and>
    (\<forall>x. (\<forall>p\<in>set ps - {x}. \<exists>q\<in>set qs. media_arrives c fs p q) \<and> (\<forall>f\<in>set sent. \<exists>q\<in>set qs. fec_arrives c f q) \<longrightarrow>
       (\<forall>p\<in>set ps. media_packet p \<in> rcv_pkt ` {a \<in> set as. \<not> is_fec a} \<union> set outs))"
proof -
  let ?b = "map media_packet ps"
  note frame = conjunct1 [OF sent_frame [OF sent]]
  have "\<forall>q\<in>set qs. \<exists>a. taken c fs ms q a" using taken_kind [OF sent] arrive by blast
  then obtain as where as: "list_all2 (taken c fs ms) qs as" using all_taken [of qs "taken c fs ms"] by blast
  note kinds = all_kinds [OF sent arrive as]
  have arr: "arrivals_ok ?b fs ((!) fecs) (\<lambda>i. n0 + of_nat i) {..<length fecs} as"
    unfolding arrivals_ok_def
  proof
    fix a assume "a \<in> set as"
    from kinds [OF this] show "media_arrival ?b a \<or> (\<exists>i. fec_arrival ((!) fecs) (\<lambda>i. n0 + of_nat i) {..<length fecs} i a) \<and> rcv_ssrc a = fs"
      using media_packet_fields(1) [OF frame_media(1,2) [OF frame]] by (auto simp: media_arrival_def fec_arrival_def)
  qed
  obtain outs st where run: "deliver_all as (d, []) = (outs, st)" by (rule prod.exhaust)
  note del = deliver_block [OF frame_protected_repairs [OF rep start] arr run]
  have media: "rcv_pkt ` {a \<in> set as. \<not> is_fec a} \<subseteq> media_packet ` set ps" using arr by (auto simp: arrivals_ok_def media_arrival_def fec_arrival_def)
  have came: "(\<exists>q\<in>set qs. media_arrives c fs p q) \<longleftrightarrow> media_packet p \<in> rcv_pkt ` {a \<in> set as. \<not> is_fec a}" if p: "p \<in> set ps" for p
  proof
    assume "\<exists>q\<in>set qs. media_arrives c fs p q"
    then have "media_received ms p \<in> set as" using taken_in [OF as] media_law [OF sent p] by blast
    then show "media_packet p \<in> rcv_pkt ` {a \<in> set as. \<not> is_fec a}" by (intro image_eqI [of _ _ "media_received ms p"]) simp_all
  qed (rule arrived_media [OF sent p kinds])
  have "media_packet p \<in> rcv_pkt ` {a \<in> set as. \<not> is_fec a} \<union> set outs"
    if "\<forall>p\<in>set ps - {x}. \<exists>q\<in>set qs. media_arrives c fs p q" "\<forall>f\<in>set sent. \<exists>q\<in>set qs. fec_arrives c f q" "p \<in> set ps" for x p
    by (rule del(2) [OF complete_block [OF sent as that(1,2)]]) (use that(3) in simp)
  moreover have "set outs \<subseteq> media_packet ` set ps" using del(1) by simp
  ultimately show ?thesis using as run media came by (intro exI [of _ as] exI [of _ outs] exI [of _ st]) blast
qed

end

end
