(* ===== verification/FlexfecRepair.thy ===== *)
theory FlexfecRepair
  imports FlexfecSession FrameStream
begin

text \<open>
  A frame of media packets through the sender and the receiver of FlexFEC, from the RTP packets given to the
  one to the packets passed on by the other.
\<close>

subsection \<open>Sending a frame\<close>

text \<open>A run of the sender; the results tell whether each call succeeded.\<close>

fun send_all :: "u8 list \<Rightarrow> RtpPacket list \<Rightarrow> FlexfecSender \<Rightarrow> (bool list \<times> FlexfecSender) option" where
  "send_all buf [] s = Some ([], s)"
| "send_all buf (p # ps) s =
     (case fs_AddRtpPacketAndGenerateFec p buf s of None \<Rightarrow> None
      | Some (ok, s) \<Rightarrow> (case send_all buf ps s of None \<Rightarrow> None | Some (oks, s) \<Rightarrow> Some (ok # oks, s)))"

lemma send_generates:
  "add_all buf ps (ulpfec_generator s) = Some (rets, g) \<Longrightarrow> send_all buf ps s = Some (map (\<lambda>r. r = 0) rets, s\<lparr>ulpfec_generator := g\<rparr>)"
proof (induction ps arbitrary: s rets)
  case (Cons p ps)
  then obtain r g1 rs where p: "AddRtpPacketAndGenerateFec (rtp_data p) (payload_size p) (headers_size p) buf (ulpfec_generator s) = Some (r, g1)"
    "add_all buf ps g1 = Some (rs, g)" "rets = r # rs"
    by (auto split: option.splits)
  from Cons.IH [of "s\<lparr>ulpfec_generator := g1\<rparr>" rs] p show ?case by (simp add: fs_AddRtpPacketAndGenerateFec_def)
qed simp

subsection \<open>Receiving it\<close>

lemma taken_unique: "taken_as fs ms q a \<Longrightarrow> taken_as fs ms q b \<Longrightarrow> a = b"
  unfolding taken_as_def by (drule conjunct2, drule spec [of _ "new_FlexfecReceiver fs ms [] []"], drule conjunct2,
    drule spec [of _ "new_FlexfecReceiver fs ms [] []"]) (auto simp: new_FlexfecReceiver_def)

text \<open>What arrives of a frame and of its FEC packets.\<close>

definition from_session :: "u32 \<Rightarrow> RtpPacket list \<Rightarrow> RtpPacketToSend list \<Rightarrow> RtpPacketReceived \<Rightarrow> bool" where
  "from_session fs ps fecs q \<longleftrightarrow> (\<exists>p\<in>set ps. arrives_media fs p q) \<or> (\<exists>f\<in>set fecs. arrives_fec f q)"

text \<open>The packets \<open>sent\<close> carry the FEC packets \<open>fecs\<close> of a frame, numbered from \<open>n0\<close>.\<close>

definition frame_sent :: "u32 \<Rightarrow> u32 \<Rightarrow> RtpPacket list \<Rightarrow> u16 \<Rightarrow> Packet list \<Rightarrow> RtpPacketToSend list \<Rightarrow> bool" where
  "frame_sent fs ms ps n0 fecs sent \<longleftrightarrow> frame_ok ms ps \<and> length sent = length fecs \<and>
     (\<forall>i<length fecs. carries_fec fs (n0 + of_nat i) 113 (fecs ! i) (send_rtp (sent ! i))) \<and>
     (\<forall>i<length fecs. fec_clear (map media_packet ps) (fecs ! i) \<and> pkt_length (fecs ! i) \<le> 1456 \<and> 20 \<le> pkt_length (fecs ! i))"

text \<open>FlexFEC keeps the contract of \<open>frame_stream\<close>.\<close>

interpretation flexfec_stream: frame_stream "\<lambda>_ :: unit. frame_sent" "\<lambda>_. taken_as" "\<lambda>_. arrives_media" "\<lambda>_. arrives_fec"
proof
  fix fs ms ps n0 fecs sent p q i and a b :: ReceivedPacket
  show "frame_sent fs ms ps n0 fecs sent \<Longrightarrow> frame_ok ms ps \<and> length sent = length fecs" by (simp add: frame_sent_def)
  show "taken_as fs ms q a \<Longrightarrow> taken_as fs ms q b \<Longrightarrow> a = b" by (rule taken_unique)
  assume sent: "frame_sent fs ms ps n0 fecs sent"
  then have frame: "frame_ok ms ps" by (simp add: frame_sent_def)
  show "taken_as fs ms q (media_received ms p)" if "p \<in> set ps" "arrives_media fs p q"
    using media_taken [OF that(2) frame_media(3,4,2) [OF frame that(1)]] .
  show "taken_as fs ms q (fec_received fs n0 fecs i)" if "i < length fecs" "arrives_fec (sent ! i) q"
    using fec_taken sent that unfolding frame_sent_def by blast
qed

lemma session_received:
  assumes sent: "frame_sent fs ms ps n0 fecs sent"
    and rep: "frame_protected FlexfecHeaderWriter FlexfecHeaderReader fs ms ps fecs"
    and arrive: "\<forall>q\<in>snd ` set qs. from_session fs ps sent q"
  shows "\<exists>outs r. receive_all qs (new_FlexfecReceiver fs ms masks tmp) = Some (outs, r) \<and> packet_bytes ` set outs \<subseteq> rtp_bytes ` set ps \<and>
     (\<forall>x. (\<forall>p\<in>set ps - {x}. \<exists>q\<in>snd ` set qs. arrives_media fs p q) \<and> (\<forall>f\<in>set sent. \<exists>q\<in>snd ` set qs. arrives_fec f q) \<longrightarrow>
        (\<forall>p\<in>set ps. (\<exists>q\<in>snd ` set qs. arrives_media fs p q) \<or> rtp_bytes p \<in> packet_bytes ` set outs))"
proof -
  let ?r = "new_FlexfecReceiver fs ms masks tmp"
  have start: "decoder_start FlexfecHeaderReader ms (erasure_code ?r)" "recovered_packets ?r = []" "fr_ssrc ?r = fs" "fr_protected_media_ssrc ?r = ms"
    by (simp_all add: decoder_start_def new_FlexfecReceiver_def CreateFlexfec_def new_ForwardErrorCorrection_def)
  have bytes: "packet_bytes (media_packet p) = rtp_bytes p" if "p \<in> set ps" for p
    using frame_media(5) [OF _ that, of ms] sent by (simp add: frame_sent_def)
  have "\<forall>q\<in>set (map snd qs). (\<exists>p\<in>set ps. arrives_media fs p q) \<or> (\<exists>f\<in>set sent. arrives_fec f q)"
    using arrive by (simp add: from_session_def)
  from flexfec_stream.stream_repaired [OF sent rep start(1) this] obtain as outs st where
    as: "list_all2 (taken_as fs ms) (map snd qs) as" and run: "deliver_all as (erasure_code ?r, []) = (outs, st)"
    and outs: "set outs \<subseteq> media_packet ` set ps"
    and came: "\<forall>p\<in>set ps. (\<exists>q\<in>snd ` set qs. arrives_media fs p q) \<longleftrightarrow> media_packet p \<in> rcv_pkt ` {a \<in> set as. \<not> is_fec a}"
    and rest: "\<forall>x. (\<forall>p\<in>set ps - {x}. \<exists>q\<in>snd ` set qs. arrives_media fs p q) \<and> (\<forall>f\<in>set sent. \<exists>q\<in>snd ` set qs. arrives_fec f q) \<longrightarrow>
       (\<forall>p\<in>set ps. media_packet p \<in> rcv_pkt ` {a \<in> set as. \<not> is_fec a} \<union> set outs)"
    unfolding set_map by (elim exE conjE) (rule that)
  have taken: "list_all2 (\<lambda>(clock, q) a. taken_as fs ms q a) qs as" using as by (simp add: list_all2_map1 case_prod_beta')
  obtain r' where r': "receive_all qs ?r = Some (outs, r')"
    using receive_all_decodes [OF taken start(3,4), of outs "fst st" "snd st"] run start(2) by auto
  have here: "(\<exists>q\<in>snd ` set qs. arrives_media fs p q) \<or> rtp_bytes p \<in> packet_bytes ` set outs"
    if "p \<in> set ps" "media_packet p \<in> rcv_pkt ` {a \<in> set as. \<not> is_fec a} \<union> set outs" for p
  proof (cases "media_packet p \<in> set outs")
    case True
    then show ?thesis using bytes [OF that(1)] by (metis image_eqI)
  next
    case False
    then have "media_packet p \<in> rcv_pkt ` {a \<in> set as. \<not> is_fec a}" using that(2) by (simp only: Un_iff simp_thms)
    then show ?thesis using bspec [OF came that(1)] by (simp only: simp_thms)
  qed
  have "packet_bytes ` set outs \<subseteq> rtp_bytes ` set ps" using outs bytes by fastforce
  moreover have "\<forall>x. (\<forall>p\<in>set ps - {x}. \<exists>q\<in>snd ` set qs. arrives_media fs p q) \<and> (\<forall>f\<in>set sent. \<exists>q\<in>snd ` set qs. arrives_fec f q) \<longrightarrow>
        (\<forall>p\<in>set ps. (\<exists>q\<in>snd ` set qs. arrives_media fs p q) \<or> rtp_bytes p \<in> packet_bytes ` set outs)"
    by (intro allI impI ballI here) (simp_all only: rest [rule_format])
  ultimately show ?thesis using r' by (intro exI [of _ outs] exI [of _ r'] conjI)
qed

subsection \<open>The property\<close>

lemma fec_parses:
  "carries_fec fs n t f p \<Longrightarrow> \<exists>q. Parse fresh (rtp_bytes p) q0 = (True, q) \<and> rtp_ssrc q = fs \<and> rtp_payload_type q = t"
  using rtp_parse_same [of p fresh q0] by (auto simp: carries_fec_def same_packet_def)

lemma session_repaired:
  assumes "frame_ok ms ps" "0 < fec_rate prm" "fec_rate prm \<le> 255" "max_fec_frames prm = 1"
    and "length masks = 288" "length tmp = 288" "length buf = 288"
  shows "\<exists>s1 sent s2. send_all buf ps (fs_SetFecParameters prm (new_FlexfecSender 113 fs ms mid exts sizes st now masks tmp)) =
      Some (replicate (length ps) True, s1) \<and>
    GetFecPackets fresh clock s1 = Some (sent, s2) \<and> length sent = NumFecPackets (length ps) (nat (fec_rate prm)) \<and> \<not> fs_FecAvailable s2 \<and>
    (\<forall>f\<in>set sent. \<forall>fresh' q0. \<exists>q. Parse fresh' (rtp_bytes (send_rtp f)) q0 = (True, q) \<and> rtp_ssrc q = fs \<and> rtp_payload_type q = 113) \<and>
    (\<forall>qs masks' tmp'. (\<forall>q\<in>snd ` set qs. from_session fs ps sent q) \<longrightarrow>
       (\<exists>outs r. receive_all qs (new_FlexfecReceiver fs ms masks' tmp') = Some (outs, r) \<and> packet_bytes ` set outs \<subseteq> rtp_bytes ` set ps \<and>
         (\<forall>x. (\<forall>p\<in>set ps - {x}. \<exists>q\<in>snd ` set qs. arrives_media fs p q) \<and> (\<forall>f\<in>set sent. \<exists>q\<in>snd ` set qs. arrives_fec f q) \<longrightarrow>
            (\<forall>p\<in>set ps. (\<exists>q\<in>snd ` set qs. arrives_media fs p q) \<or> rtp_bytes p \<in> packet_bytes ` set outs))))"
proof -
  let ?s0 = "fs_SetFecParameters prm (new_FlexfecSender 113 fs ms mid exts sizes st now masks tmp)"
  have ready: "generator_ready FlexfecHeaderWriter prm (ulpfec_generator ?s0)"
    using assms(5,6) flexfec.limits(3)
    by (simp add: generator_ready_def fs_SetFecParameters_def new_FlexfecSender_def Let_def case_prod_beta SetFecParameters_def
        new_UlpfecGenerator_def CreateFlexfec_def new_ForwardErrorCorrection_def encoder_ok_def new_Packet_def)
  have fields: "rtp_header_extension_map ?s0 = RegisterSupportedExtensions exts" "fs_payload_type ?s0 = 113" "fs_ssrc ?s0 = fs"
    by (simp_all add: fs_SetFecParameters_def new_FlexfecSender_def Let_def case_prod_beta)
  obtain g where g: "add_all buf ps (ulpfec_generator ?s0) = Some (replicate (length ps) 0, g)"
      "length (generated_packets g) = NumFecPackets (length ps) (nat (fec_rate prm))"
    and rep: "frame_protected FlexfecHeaderWriter FlexfecHeaderReader fs ms ps (generated_packets g)"
    using generate_frame [OF assms(1) fec_kind.flexfec ready assms(2,3,4,7), of fs] by blast
  let ?f = "generated_packets g" and ?s1 = "?s0\<lparr>ulpfec_generator := g\<rparr>"
  have run: "send_all buf ps ?s0 = Some (replicate (length ps) True, ?s1)" using send_generates [OF g(1)] by simp
  note clear = frame_protected_clear [OF rep fec_kind.flexfec assms(1)]
  have fecs: "\<forall>f\<in>set ?f. pkt_length f \<le> 1456 \<and> length (pkt_data f) = 1500" using clear(3,4) by (auto simp: in_set_conv_nth)
  have mixed: "\<not> extmap_allow_mixed (rtp_header_extension_map ?s1)" and pt: "0 \<le> fs_payload_type ?s1" "fs_payload_type ?s1 \<le> 127" by (simp_all add: fields)
  obtain sent where sent: "fec_packets_loop fresh clock ?s1 ?f = Some (sent, ?s1\<lparr>fs_seq_num := fs_seq_num ?s1 + of_nat (length ?f)\<rparr>)"
      "length sent = length ?f" "\<forall>i<length ?f. carries_fec fs (fs_seq_num ?s1 + of_nat i) 113 (?f ! i) (send_rtp (sent ! i))"
    using fec_packets_loop_facts [OF mixed pt fecs, of fresh clock] by (auto simp: fields)
  define s2 where "s2 = snd (the (GetFecPackets fresh clock ?s1))"
  have get: "GetFecPackets fresh clock ?s1 = Some (sent, s2)" "\<not> fs_FecAvailable s2"
    using sent(1) by (simp_all add: s2_def GetFecPackets_def Let_def fs_FecAvailable_def FecAvailable_def ResetGenerator_def)
  have frame: "frame_sent fs ms ps (fs_seq_num ?s1) ?f sent"
    unfolding frame_sent_def using assms(1) sent(2,3) clear(1,2,3) by blast
  show ?thesis
  proof (intro exI conjI)
    show "send_all buf ps ?s0 = Some (replicate (length ps) True, ?s1)" by (rule run)
    show "GetFecPackets fresh clock ?s1 = Some (sent, s2)" "\<not> fs_FecAvailable s2" by (fact get)+
    show "length sent = NumFecPackets (length ps) (nat (fec_rate prm))" using sent(2) g(2) by simp
    show "\<forall>f\<in>set sent. \<forall>fresh' q0. \<exists>q. Parse fresh' (rtp_bytes (send_rtp f)) q0 = (True, q) \<and> rtp_ssrc q = fs \<and> rtp_payload_type q = 113"
      using fec_parses sent(2,3) by (metis in_set_conv_nth)
  qed (intro allI impI, rule session_received [OF frame rep], assumption)
qed

text \<open>C2: a frame of at most 48 numbers, sent by a new \<open>FlexfecSender\<close> that protects every frame on its own,
  whatever its extensions and its state. The FEC packets are RTP packets that can be parsed. If all of them arrive at
  a new \<open>FlexfecReceiver\<close>, in any order among the media packets, and all media packets but one, then the
  receiver passes on the bytes of the one that is missing, and at no time anything that was not sent.\<close>

theorem flexfec_session:
  assumes "frame_ok ms ps" "0 < fec_rate prm" "fec_rate prm \<le> 255" "max_fec_frames prm = 1"
    and "length masks = 288" "length tmp = 288" "length buf = 288"
  shows "\<exists>s1 sent s2. send_all buf ps (fs_SetFecParameters prm (new_FlexfecSender 113 fs ms mid exts sizes st now masks tmp)) =
      Some (replicate (length ps) True, s1) \<and>
    GetFecPackets fresh clock s1 = Some (sent, s2) \<and> length sent = NumFecPackets (length ps) (nat (fec_rate prm)) \<and> \<not> fs_FecAvailable s2 \<and>
    (\<forall>f\<in>set sent. \<forall>fresh' q0. \<exists>q. Parse fresh' (rtp_bytes (send_rtp f)) q0 = (True, q) \<and> rtp_ssrc q = fs \<and> rtp_payload_type q = 113) \<and>
    (\<forall>qs masks' tmp'. (\<forall>q\<in>snd ` set qs. from_session fs ps sent q) \<longrightarrow>
       (\<exists>outs r. receive_all qs (new_FlexfecReceiver fs ms masks' tmp') = Some (outs, r) \<and> packet_bytes ` set outs \<subseteq> rtp_bytes ` set ps \<and>
         (\<forall>x. (\<forall>p\<in>set ps - {x}. \<exists>q\<in>snd ` set qs. arrives_media fs p q) \<and> (\<forall>f\<in>set sent. \<exists>q\<in>snd ` set qs. arrives_fec f q) \<longrightarrow>
            (\<forall>p\<in>set ps. (\<exists>q\<in>snd ` set qs. arrives_media fs p q) \<or> rtp_bytes p \<in> packet_bytes ` set outs))))"
  using assms by (rule session_repaired)

lemma fold_same: "(\<And>x d. x \<in> set xs \<Longrightarrow> f x d = d) \<Longrightarrow> fold f xs d = d"
  by (induction xs) auto

text \<open>Packets whose extensions are not registered with the receiver arrive as they were sent.\<close>

lemma parsed_arrives:
  assumes "rtp_wf p" "rtp_size p \<le> 1500" "Parse fresh (rtp_bytes p) q0 = (True, q)" "\<And>t. ext_ids (rtp_extensions q0) t = 0"
    and "rtp_ssrc p = fs \<Longrightarrow> rtp_payload_type p \<noteq> 113"
  shows "arrives_media fs p \<lparr>received_rtp = q, recovered = False\<rparr>"
proof -
  have same: "same_packet p q" and ext: "rtp_extensions q = rtp_extensions q0" using rtp_parse_same [OF assms(1), of fresh q0] assms(3) by auto
  have ok: "parsed_ok (rtp_bytes p) q" by (rule Parse_inv [OF assms(3)])
  have len: "length (rtp_bytes p) = rtp_size p" using rtp_wf_facts(3) [OF assms(1)] by (simp add: rtp_bytes_def)
  have "zero_extension (rtp_extensions q) e d = d" if "e \<in> set (extension_entries q)" for e d
  proof -
    have "info_wf e" using that same assms(1) by (simp add: same_packet_def rtp_wf_def ext_block_def Let_def)
    then have "ext_id e \<noteq> 0" by (auto simp: info_wf_def)
    then have "uint (ext_id e) \<noteq> 0" by (simp add: uint_0_iff)
    then have "GetType (rtp_extensions q) (uint (ext_id e)) = kRtpExtensionNone"
      by (simp add: GetType_def ext assms(4) find_None_iff2 extension_types_def)
    then show ?thesis by (simp add: zero_extension_def)
  qed
  then have "fold (zero_extension (rtp_extensions q)) (extension_entries q) d = d" for d by (rule fold_same)
  moreover have "memcpy_at (replicate 1500 0) 0 (rtp_data q) (rtp_size p) = rtp_bytes p @ replicate (1500 - rtp_size p) 0"
  proof (rule nth_equalityI)
    fix j assume "j < length (memcpy_at (replicate 1500 0) 0 (rtp_data q) (rtp_size p))"
    then have j: "j < 1500" by simp
    have "rtp_data q ! j = rtp_bytes p ! j" if "j < rtp_size p" using ok len that by (metis nth_take parsed_ok_def)
    then show "memcpy_at (replicate 1500 0) 0 (rtp_data q) (rtp_size p) ! j = (rtp_bytes p @ replicate (1500 - rtp_size p) 0) ! j"
      using j len by (simp add: memcpy_at_nth nth_append)
  qed (use len assms(2) in simp)
  ultimately show ?thesis
    using same ok len assms(2,5) unfolding arrives_media_def Let_def
    by (simp add: same_packet_def parsed_ok_def CopyAndZeroMutableExtensions_def rtp_size_def)
qed

definition ex_rtp :: "u16 \<Rightarrow> bool \<Rightarrow> RtpPacket" where
  "ex_rtp n mk = snd (SetPayloadSize (\<lambda>_. 42) 1 (SetMarker mk (SetSsrc 7 (SetPayloadType 96 (SetSequenceNumber n
     (new_RtpPacket (\<lambda>_. 42) (Some (new_RtpHeaderExtensionMap False)) 1500))))))"

lemma ex_rtp_facts: "rtp_wf (ex_rtp n mk)" "rtp_padding_size (ex_rtp n mk) = 0" "rtp_size (ex_rtp n mk) = 13" "rtp_ssrc (ex_rtp n mk) = 7"
  "rtp_sequence_number (ex_rtp n mk) = n" "rtp_marker (ex_rtp n mk) = mk"
proof -
  let ?p = "SetMarker mk (SetSsrc 7 (SetPayloadType 96 (SetSequenceNumber n (new_RtpPacket (\<lambda>_. 42) (Some (new_RtpHeaderExtensionMap False)) 1500))))"
  have b: "bare ?p" by (intro bare_setters bare_new) (simp_all add: new_RtpHeaderExtensionMap_def)
  have f: "payload_offset ?p = 12" "rtp_ssrc ?p = 7" "rtp_sequence_number ?p = n" "rtp_marker ?p = mk"
    by (simp_all add: SetMarker_def SetSsrc_def SetPayloadType_def SetSequenceNumber_def write_byte_def new_RtpPacket_cleared) (simp add: cleared_def)
  show "rtp_wf (ex_rtp n mk)" unfolding ex_rtp_def by (rule SetPayloadSize_wf) (use b in \<open>simp_all add: bare_def\<close>)
  show "rtp_padding_size (ex_rtp n mk) = 0" "rtp_size (ex_rtp n mk) = 13" "rtp_ssrc (ex_rtp n mk) = 7"
    "rtp_sequence_number (ex_rtp n mk) = n" "rtp_marker (ex_rtp n mk) = mk"
    using b f by (simp_all add: ex_rtp_def SetPayloadSize_eq bare_def rtp_size_def)
qed

definition ex_parsed :: "RtpPacket \<Rightarrow> (nat \<Rightarrow> int) \<times> RtpPacketReceived" where
  "ex_parsed p = ((\<lambda>_. 0), \<lparr>received_rtp = snd (Parse (\<lambda>_. 0) (rtp_bytes p) (new_RtpPacket (\<lambda>_. 0) None 1500)), recovered = False\<rparr>)"

definition ex_params :: FecProtectionParams where
  "ex_params = \<lparr>fec_rate = 255, max_fec_frames = 1, fec_mask_type = kFecMaskRandom\<rparr>"

theorem flexfec_session_witness:
  "\<exists>s1 sent s2 outs r. send_all (replicate 288 0) [ex_rtp 5 False, ex_rtp 6 True] (fs_SetFecParameters ex_params
       (new_FlexfecSender 113 9 7 [109] [] [] None 1 (replicate 288 0) (replicate 288 0))) = Some ([True, True], s1) \<and>
     GetFecPackets (\<lambda>_. 0) (\<lambda>_. 1) s1 = Some (sent, s2) \<and>
     receive_all (ex_parsed (ex_rtp 6 True) # map (ex_parsed \<circ> send_rtp) sent) (new_FlexfecReceiver 9 7 [] []) = Some (outs, r) \<and>
     rtp_bytes (ex_rtp 5 False) \<in> packet_bytes ` set outs"
proof -
  let ?ps = "[ex_rtp 5 False, ex_rtp 6 True]" and ?b = "replicate 288 0 :: u8 list"
  have len: "length ?b = 288" by simp
  have frame: "frame_ok 7 ?ps" by (simp add: frame_ok_def ex_rtp_facts)
  have prm: "0 < fec_rate ex_params" "fec_rate ex_params \<le> 255" "max_fec_frames ex_params = 1" by (simp_all add: ex_params_def)
  obtain s1 sent s2 where run: "send_all ?b ?ps (fs_SetFecParameters ex_params (new_FlexfecSender 113 9 7 [109] [] [] None 1 ?b ?b)) =
        Some (replicate (length ?ps) True, s1)" "GetFecPackets (\<lambda>_. 0) (\<lambda>_. 1) s1 = Some (sent, s2)"
    and parse: "\<forall>f\<in>set sent. \<forall>fresh' q0. \<exists>q. Parse fresh' (rtp_bytes (send_rtp f)) q0 = (True, q) \<and> rtp_ssrc q = 9 \<and> rtp_payload_type q = 113"
    and all: "\<forall>qs masks' tmp'. (\<forall>q\<in>snd ` set qs. from_session 9 ?ps sent q) \<longrightarrow>
       (\<exists>outs r. receive_all qs (new_FlexfecReceiver 9 7 masks' tmp') = Some (outs, r) \<and> packet_bytes ` set outs \<subseteq> rtp_bytes ` set ?ps \<and>
         (\<forall>x. (\<forall>p\<in>set ?ps - {x}. \<exists>q\<in>snd ` set qs. arrives_media 9 p q) \<and> (\<forall>f\<in>set sent. \<exists>q\<in>snd ` set qs. arrives_fec f q) \<longrightarrow>
            (\<forall>p\<in>set ?ps. (\<exists>q\<in>snd ` set qs. arrives_media 9 p q) \<or> rtp_bytes p \<in> packet_bytes ` set outs)))"
    using flexfec_session [OF frame prm len len len, where fs = 9 and mid = "[109]" and exts = "[]" and sizes = "[]" and st = None
        and now = 1 and fresh = "\<lambda>_. 0" and clock = "\<lambda>_. 1"]
    by (elim exE conjE) (rule that)
  let ?qs = "ex_parsed (ex_rtp 6 True) # map (ex_parsed \<circ> send_rtp) sent"
  have fec: "arrives_fec f (snd (ex_parsed (send_rtp f)))" "rtp_ssrc (received_rtp (snd (ex_parsed (send_rtp f)))) = 9" if "f \<in> set sent" for f
  proof -
    obtain q where q: "Parse (\<lambda>_. 0) (rtp_bytes (send_rtp f)) (new_RtpPacket (\<lambda>_. 0) None 1500) = (True, q)" "rtp_ssrc q = 9"
      using parse \<open>f \<in> set sent\<close> by blast
    then show "arrives_fec f (snd (ex_parsed (send_rtp f)))" "rtp_ssrc (received_rtp (snd (ex_parsed (send_rtp f)))) = 9"
      by (auto simp: arrives_fec_def ex_parsed_def)
  qed
  obtain q where q: "Parse (\<lambda>_. 0) (rtp_bytes (ex_rtp 6 True)) (new_RtpPacket (\<lambda>_. 0) None 1500) = (True, q)" "same_packet (ex_rtp 6 True) q"
    using rtp_parse_same [OF ex_rtp_facts(1) [of 6 True], of "\<lambda>_. 0" "new_RtpPacket (\<lambda>_. 0) None 1500"] by blast
  have none: "ext_ids (rtp_extensions (new_RtpPacket (\<lambda>_. 0) None 1500)) t = 0" for t
    by (simp add: new_RtpPacket_cleared) (simp add: cleared_def new_RtpHeaderExtensionMap_def)
  have "arrives_media 9 (ex_rtp 6 True) \<lparr>received_rtp = q, recovered = False\<rparr>"
    by (rule parsed_arrives [OF ex_rtp_facts(1) _ q(1) none]) (simp_all add: ex_rtp_facts)
  then have media: "arrives_media 9 (ex_rtp 6 True) (snd (ex_parsed (ex_rtp 6 True)))" by (simp add: ex_parsed_def q(1))
  have sess: "\<forall>q\<in>snd ` set ?qs. from_session 9 ?ps sent q" using fec(1) media by (auto simp: from_session_def)
  have lost: "\<not> (\<exists>q\<in>snd ` set ?qs. arrives_media 9 (ex_rtp 5 False) q)"
  proof
    assume "\<exists>q\<in>snd ` set ?qs. arrives_media 9 (ex_rtp 5 False) q"
    then obtain r where r: "r \<in> snd ` set ?qs" "rtp_ssrc (received_rtp r) = 7" "rtp_sequence_number (received_rtp r) = 5"
      by (auto simp: arrives_media_def Let_def ex_rtp_facts)
    then consider "r = snd (ex_parsed (ex_rtp 6 True))" | f where "f \<in> set sent" "r = snd (ex_parsed (send_rtp f))" by auto
    then show False using r fec(2) media by cases (auto simp: arrives_media_def Let_def ex_rtp_facts)
  qed
  obtain outs r where rec: "receive_all ?qs (new_FlexfecReceiver 9 7 [] []) = Some (outs, r)"
    and rest: "\<forall>x. (\<forall>p\<in>set ?ps - {x}. \<exists>q\<in>snd ` set ?qs. arrives_media 9 p q) \<and> (\<forall>f\<in>set sent. \<exists>q\<in>snd ` set ?qs. arrives_fec f q) \<longrightarrow>
            (\<forall>p\<in>set ?ps. (\<exists>q\<in>snd ` set ?qs. arrives_media 9 p q) \<or> rtp_bytes p \<in> packet_bytes ` set outs)"
    using mp [OF spec [OF spec [OF spec [OF all]]] sess, of "[]" "[]"] by (elim exE conjE) (rule that)
  have "\<forall>p\<in>set ?ps - {ex_rtp 5 False}. \<exists>q\<in>snd ` set ?qs. arrives_media 9 p q" using media by auto
  moreover have "\<forall>f\<in>set sent. \<exists>q\<in>snd ` set ?qs. arrives_fec f q" using fec(1) by auto
  ultimately have "rtp_bytes (ex_rtp 5 False) \<in> packet_bytes ` set outs" using rest lost by (meson list.set_intros(1))
  moreover have "send_all ?b ?ps (fs_SetFecParameters ex_params (new_FlexfecSender 113 9 7 [109] [] [] None 1 ?b ?b)) = Some ([True, True], s1)"
    using run(1) by (simp only: list.size replicate.simps add_0 plus_nat.simps One_nat_def)
  ultimately show ?thesis using run(2) rec by (intro exI conjI)
qed

subsection \<open>A sender that is polled\<close>

text \<open>Each packet is followed by a call of \<open>GetFecPackets\<close>, as in the program \<open>mytest\<close>.\<close>

fun poll_all ::
  "(nat \<Rightarrow> u8) \<Rightarrow> u8 list \<Rightarrow> ((nat \<Rightarrow> int) \<times> RtpPacket) list \<Rightarrow> FlexfecSender \<Rightarrow> ((bool \<times> RtpPacketToSend list) list \<times> FlexfecSender) option"
where
  "poll_all fresh buf [] s = Some ([], s)"
| "poll_all fresh buf ((clock, p) # xs) s =
     (case fs_AddRtpPacketAndGenerateFec p buf s of None \<Rightarrow> None
      | Some (ok, s) \<Rightarrow>
          (case GetFecPackets fresh clock s of None \<Rightarrow> None
           | Some (sent, s) \<Rightarrow> (case poll_all fresh buf xs s of None \<Rightarrow> None | Some (rs, s) \<Rightarrow> Some ((ok, sent) # rs, s))))"

definition generator_idle :: "FecProtectionParams \<Rightarrow> UlpfecGenerator \<Rightarrow> bool" where
  "generator_idle prm g \<longleftrightarrow> media_packets g = [] \<and> num_protected_frames g = 0 \<and> generated_packets g = [] \<and> new_params g = prm \<and>
     min_num_media_packets g = 4"

lemma add_to_idle:
  assumes "generator_idle prm g" "max_fec_frames prm \<noteq> 1"
  shows "\<exists>g'. AddRtpPacketAndGenerateFec d n h buf g = Some (0, g') \<and> generated_packets g' = [] \<and> generator_idle prm (ResetGenerator g')"
  using assms
  by (auto simp: AddRtpPacketAndGenerateFec_def store_media_def generator_idle_def ResetGenerator_def MinimumMediaPacketsReached_def Let_def)

lemma poll_idle:
  assumes "generator_idle prm (ulpfec_generator s)" "max_fec_frames prm \<noteq> 1"
  shows "\<exists>s'. poll_all fresh buf xs s = Some (replicate (length xs) (True, []), s') \<and> generator_idle prm (ulpfec_generator s')"
  using assms(1)
proof (induction xs arbitrary: s)
  case (Cons x xs)
  obtain clock p where x: "x = (clock, p)" by (cases x)
  obtain g' where g': "AddRtpPacketAndGenerateFec (rtp_data p) (payload_size p) (headers_size p) buf (ulpfec_generator s) = Some (0, g')"
    "generated_packets g' = []" "generator_idle prm (ResetGenerator g')"
    using add_to_idle [OF Cons.prems assms(2)] by blast
  have "\<exists>s'. poll_all fresh buf xs (s\<lparr>ulpfec_generator := ResetGenerator g'\<rparr>) = Some (replicate (length xs) (True, []), s') \<and>
      generator_idle prm (ulpfec_generator s')"
    by (rule Cons.IH) (simp add: g'(3))
  then show ?case
    by (auto simp: x fs_AddRtpPacketAndGenerateFec_def g'(1,2) GetFecPackets_def Let_def)
qed simp

text \<open>C23: a new sender with a rate above 80 that may protect more than one frame at a time, asked for FEC packets
  after every packet, accepts all packets and never returns an FEC packet, whatever the packets are: the
  generator is reset before it holds the four packets that such a rate needs.\<close>

theorem polled_never_protects:
  assumes "80 < fec_rate prm" "max_fec_frames prm \<noteq> 1"
  shows "\<exists>s'. poll_all fresh buf xs (fs_SetFecParameters prm (new_FlexfecSender pt fs ms mid exts sizes st now masks tmp)) =
    Some (replicate (length xs) (True, []), s')"
proof -
  have "generator_idle prm (ulpfec_generator (fs_SetFecParameters prm (new_FlexfecSender pt fs ms mid exts sizes st now masks tmp)))"
    using assms(1)
    by (simp add: generator_idle_def fs_SetFecParameters_def SetFecParameters_def new_FlexfecSender_def new_UlpfecGenerator_def Let_def split: prod.splits option.splits)
  then show ?thesis using poll_idle [OF _ assms(2)] by blast
qed

text \<open>The parameters of the program \<open>mytest\<close>.\<close>

theorem polled_never_protects_witness:
  "\<exists>s'. poll_all (\<lambda>_. 0) [] [(\<lambda>_. 1, ex_rtp 5 True), (\<lambda>_. 2, ex_rtp 6 True)]
     (fs_SetFecParameters \<lparr>fec_rate = 255, max_fec_frames = 10, fec_mask_type = kFecMaskRandom\<rparr>
       (new_FlexfecSender 113 123123 123123 [109, 121, 116, 101, 115, 116] [] [] None 1 [] [])) =
     Some ([(True, []), (True, [])], s')"
  using polled_never_protects [of "\<lparr>fec_rate = 255, max_fec_frames = 10, fec_mask_type = kFecMaskRandom\<rparr>" "\<lambda>_. 0" "[]"
    "[(\<lambda>_. 1, ex_rtp 5 True), (\<lambda>_. 2, ex_rtp 6 True)]" 113 123123 123123 "[109, 121, 116, 101, 115, 116]" "[]" "[]" None 1 "[]" "[]"]
  by (simp add: numeral_2_eq_2)

end
