(* ===== verification/UlpfecRecv.thy ===== *)
theory UlpfecRecv
  imports FlexfecStream
begin

text \<open>
  The receiver of ULPFEC, \<open>ulpfec_receiver_impl.cc\<close>: it takes RED packets apart, keeps what is in them until
  \<open>ProcessReceivedFec\<close> is called, and passes on the media packets and what the decoder recovers. The calls of
  the callback are the list of packets passed to it; it does not call the receiver. The clock is an argument,
  and \<open>None\<close> is an access outside the received packet or a fatal check that fails. The lock is left out.
\<close>

subsection \<open>The header of a received packet\<close>

text \<open>The members of \<open>RTPHeader\<close> without the values of the header extensions and the frequency.\<close>

record RTPHeader =
  markerBit :: bool
  payloadType :: u8
  sequenceNumber :: u16
  hdr_timestamp :: u32
  hdr_ssrc :: u32
  numCSRCs :: u8
  arrOfCSRCs :: "u32 list"
  paddingLength :: nat
  headerLength :: nat

definition GetHeader :: "RtpPacket \<Rightarrow> RTPHeader \<Rightarrow> RTPHeader" where
  "GetHeader p h =
     h\<lparr>markerBit := rtp_marker p, payloadType := rtp_payload_type p, sequenceNumber := rtp_sequence_number p,
       hdr_timestamp := rtp_timestamp p, hdr_ssrc := rtp_ssrc p, numCSRCs := of_nat (length (Csrcs p)),
       arrOfCSRCs := Csrcs p @ drop (length (Csrcs p)) (arrOfCSRCs h), paddingLength := unat (rtp_padding_size p),
       headerLength := headers_size p\<rparr>"

subsection \<open>The receiver\<close>

record UlpfecReceiver =
  ur_ssrc :: u32
  ur_extensions :: RtpHeaderExtensionMap
  ur_fec :: ForwardErrorCorrection
  received_packets :: "ReceivedPacket list"
  ur_recovered_packets :: "RecoveredPacket list"
  ur_packet_counter :: FecPacketCounter

definition CreateUlpfecReceiver :: "u32 \<Rightarrow> RtpExtension list \<Rightarrow> u8 list \<Rightarrow> u8 list \<Rightarrow> UlpfecReceiver" where
  "CreateUlpfecReceiver ssrc extensions masks tmp =
     \<lparr>ur_ssrc = ssrc, ur_extensions = extension_map_of extensions, ur_fec = CreateUlpfec ssrc masks tmp, received_packets = [],
      ur_recovered_packets = [], ur_packet_counter = new_FecPacketCounter\<rparr>"

text \<open>The packet without its RED header, which is one byte.\<close>

definition red_received :: "RTPHeader \<Rightarrow> u8 list \<Rightarrow> u8 \<Rightarrow> ReceivedPacket" where
  "red_received header incoming ulpfec_payload_type =
     (let hl = headerLength header;
          n = length incoming - hl - 1;
          payload_type = incoming ! hl AND 0x7f
      in if payload_type = ulpfec_payload_type
         then \<lparr>rcv_ssrc = ReadBigEndian4 incoming 8, rcv_seq_num = sequenceNumber header, is_fec = True,
               rcv_pkt = \<lparr>pkt_length = n, pkt_data = memcpy_at (pkt_data new_Packet) 0 (drop (hl + 1) incoming) n\<rparr>\<rparr>
         else
           let d = memcpy_at (pkt_data new_Packet) 0 incoming hl;
               d = d[1 := d ! 1 AND 0x80];
               d = d[1 := d ! 1 + payload_type];
               d = memcpy_at d hl (drop (hl + 1) incoming) n
           in \<lparr>rcv_ssrc = hdr_ssrc header, rcv_seq_num = sequenceNumber header, is_fec = False,
               rcv_pkt = \<lparr>pkt_length = hl + n, pkt_data = d\<rparr>\<rparr>)"

definition AddReceivedRedPacket ::
  "int \<Rightarrow> RTPHeader \<Rightarrow> u8 list \<Rightarrow> u8 \<Rightarrow> UlpfecReceiver \<Rightarrow> (int \<times> UlpfecReceiver) option" where
  "AddReceivedRedPacket now_ms header incoming ulpfec_payload_type u =
     (if hdr_ssrc header \<noteq> ur_ssrc u then Some (-1, u)
      else if length incoming > IP_PACKET_SIZE then Some (-1, u)
      else if length incoming < headerLength header then None
      else if length incoming = headerLength header then Some (-1, u)
      else if incoming ! headerLength header AND 0x80 \<noteq> 0 then Some (-1, u)
      else
        let c = ur_packet_counter u;
            c = c\<lparr>num_packets := num_packets c + 1\<rparr>;
            c = (if first_packet_time_ms c = -1 then c\<lparr>first_packet_time_ms := now_ms\<rparr> else c);
            received = red_received header incoming ulpfec_payload_type;
            c = (if is_fec received then c\<lparr>num_fec_packets := num_fec_packets c + 1\<rparr> else c);
            u = u\<lparr>ur_packet_counter := c\<rparr>
        in if is_fec received \<and> length incoming < 12 then None
           else if pkt_length (rcv_pkt received) = 0 then Some (0, u)
           else Some (0, u\<lparr>received_packets := received_packets u @ [received]\<rparr>))"

text \<open>One packet of \<open>ProcessReceivedFec\<close>: what is passed on, and the packet that the decoder gets. The result of
  \<open>Parse\<close> is not looked at.\<close>

definition red_media :: "(nat \<Rightarrow> u8) \<Rightarrow> RtpHeaderExtensionMap \<Rightarrow> ReceivedPacket \<Rightarrow> (Packet list \<times> ReceivedPacket) option" where
  "red_media fresh extensions received =
     (if is_fec received then Some ([], received)
      else
        let packet = rcv_pkt received;
            p = snd (Parse fresh (take (pkt_length packet) (pkt_data packet)) (new_RtpPacket fresh None kDefaultPacketSize));
            p = IdentifyExtensions extensions p
        in case CopyAndZeroMutableExtensions p (pkt_length packet) (pkt_data packet) of None \<Rightarrow> None
           | Some d \<Rightarrow> Some ([packet], received\<lparr>rcv_pkt := packet\<lparr>pkt_data := d\<rparr>\<rparr>))"

fun process_loop ::
  "(nat \<Rightarrow> u8) \<Rightarrow> RtpHeaderExtensionMap \<Rightarrow> ReceivedPacket list \<Rightarrow> ForwardErrorCorrection \<times> RecoveredPacket list \<Rightarrow>
   (Packet list \<times> ForwardErrorCorrection \<times> RecoveredPacket list) option" where
  "process_loop fresh extensions [] st = Some ([], st)"
| "process_loop fresh extensions (a # as) st =
     (case red_media fresh extensions a of None \<Rightarrow> None
      | Some (out, a) \<Rightarrow>
          (case process_loop fresh extensions as (DecodeFec a st) of None \<Rightarrow> None
           | Some (outs, st) \<Rightarrow> Some (out @ outs, st)))"

definition ProcessReceivedFec :: "(nat \<Rightarrow> u8) \<Rightarrow> UlpfecReceiver \<Rightarrow> (Packet list \<times> int \<times> UlpfecReceiver) option" where
  "ProcessReceivedFec fresh u =
     (case process_loop fresh (ur_extensions u) (received_packets u) (ur_fec u, ur_recovered_packets u) of None \<Rightarrow> None
      | Some (outs, fec, rs) \<Rightarrow>
          (case return_recovered rs of (repaired, rs) \<Rightarrow>
             let c = ur_packet_counter u
             in Some (outs @ repaired, 0, u\<lparr>received_packets := [], ur_fec := fec, ur_recovered_packets := rs,
                        ur_packet_counter := c\<lparr>num_recovered_packets := num_recovered_packets c + length repaired\<rparr>\<rparr>)))"

definition ulpfec_GetPacketCounter :: "UlpfecReceiver \<Rightarrow> FecPacketCounter" where
  "ulpfec_GetPacketCounter u = ur_packet_counter u"

text \<open>The destructor resets the decoder with the recovered packets.\<close>

definition DestroyUlpfecReceiver :: "UlpfecReceiver \<Rightarrow> UlpfecReceiver" where
  "DestroyUlpfecReceiver u =
     (case ResetState (ur_fec u, ur_recovered_packets u) of (fec, rs) \<Rightarrow>
        u\<lparr>received_packets := [], ur_fec := fec, ur_recovered_packets := rs\<rparr>)"

end
