(* ===== verification/UlpfecSession.thy ===== *)
theory UlpfecSession
  imports UlpfecRecv FrameGen
begin

text \<open>
  A ULPFEC stream from the generator to the receiver: FEC packets and media packets travel in RED packets of the
  media stream, the receiver takes them apart, and one loss in a frame is repaired.
\<close>

subsection \<open>RED packets as RTP packets\<close>

text \<open>The packet with another payload.\<close>

definition with_payload :: "u8 list \<Rightarrow> RtpPacket \<Rightarrow> RtpPacket" where
  "with_payload b p =
     (let d = take (payload_offset p) (rtp_data p) @ b
      in p\<lparr>payload_size := length b, rtp_buffer := \<lparr>buf_data = d @ replicate (3 - (length d + 3) mod 4) 0, buf_size = length d\<rparr>\<rparr>)"

lemma with_payload_fields [simp]:
  "rtp_marker (with_payload b p) = rtp_marker p" "rtp_payload_type (with_payload b p) = rtp_payload_type p"
  "rtp_sequence_number (with_payload b p) = rtp_sequence_number p" "rtp_timestamp (with_payload b p) = rtp_timestamp p"
  "rtp_ssrc (with_payload b p) = rtp_ssrc p" "rtp_padding_size (with_payload b p) = rtp_padding_size p"
  "payload_offset (with_payload b p) = payload_offset p" "payload_size (with_payload b p) = length b"
  "extension_entries (with_payload b p) = extension_entries p" "extensions_size (with_payload b p) = extensions_size p"
  "rtp_extensions (with_payload b p) = rtp_extensions p"
  by (simp_all add: with_payload_def Let_def)

lemma with_payload_data:
  assumes "payload_offset p \<le> length (rtp_data p)" "rtp_padding_size p = 0"
  shows "j < payload_offset p \<Longrightarrow> rtp_data (with_payload b p) ! j = rtp_data p ! j"
    and "rtp_bytes (with_payload b p) = take (payload_offset p) (rtp_data p) @ b"
    and "buf_size (rtp_buffer (with_payload b p)) = payload_offset p + length b"
    and "rtp_size (with_payload b p) = payload_offset p + length b"
  using assms by (simp_all add: with_payload_def Let_def nth_append rtp_bytes_def rtp_size_def)

lemma with_payload_length:
  assumes "payload_offset p \<le> length (rtp_data p)"
  shows "4 dvd length (rtp_data (with_payload b p))" "payload_offset p + length b \<le> length (rtp_data (with_payload b p))"
    and "length (rtp_data (with_payload b p)) \<le> payload_offset p + length b + 3"
proof -
  have len: "length (rtp_data (with_payload b p)) = payload_offset p + length b + (3 - (payload_offset p + length b + 3) mod 4)"
    using assms by (simp add: with_payload_def Let_def)
  show "4 dvd length (rtp_data (with_payload b p))" unfolding len by presburger
qed (use assms in \<open>simp_all add: with_payload_def Let_def\<close>)

lemma with_payload_wf:
  assumes "rtp_wf p" "rtp_padding_size p = 0" "payload_offset p + length b \<le> 1500"
  shows "rtp_wf (with_payload b p)"
proof -
  let ?q = "with_payload b p"
  note f = rtp_wf_facts [OF assms(1)]
  have off: "payload_offset p \<le> length (rtp_data p)" using f(2,3) by simp
  note d = with_payload_data [OF off assms(2)] and l = with_payload_length [OF off, of b]
  have nth: "rtp_data ?q ! j = rtp_data p ! j" if "j < 12" for j using d(1) f(1) that by simp
  have "fixed_header ?q"
    using assms(1) nth unfolding rtp_wf_def fixed_header_def Let_def by (simp add: ReadBigEndian2_def ReadBigEndian4_def)
  moreover have "ext_block ?q"
    by (rule ext_block_cong [of p]) (use assms(1) f(5) d(1) nth [of 0] in \<open>auto simp: rtp_wf_def num_csrc_def\<close>)
  moreover have "sizes_ok ?q" using assms(1,3) d(3,4) l f(1) by (simp add: rtp_wf_def sizes_ok_def)
  ultimately show ?thesis by (simp add: rtp_wf_def assms(2))
qed

lemma setters_fields:
  "payload_offset (SetPayloadType t p) = payload_offset p" "payload_size (SetPayloadType t p) = payload_size p"
  "rtp_padding_size (SetPayloadType t p) = rtp_padding_size p" "rtp_ssrc (SetPayloadType t p) = rtp_ssrc p"
  "rtp_sequence_number (SetPayloadType t p) = rtp_sequence_number p"
  "payload_offset (SetMarker m p) = payload_offset p" "payload_size (SetMarker m p) = payload_size p"
  "rtp_padding_size (SetMarker m p) = rtp_padding_size p" "rtp_ssrc (SetMarker m p) = rtp_ssrc p"
  "payload_offset (SetSequenceNumber n p) = payload_offset p" "payload_size (SetSequenceNumber n p) = payload_size p"
  "rtp_padding_size (SetSequenceNumber n p) = rtp_padding_size p" "rtp_ssrc (SetSequenceNumber n p) = rtp_ssrc p"
  "rtp_sequence_number (SetSequenceNumber n p) = n"
  by (simp_all add: SetPayloadType_def SetMarker_def SetSequenceNumber_def write_byte_def)

lemma setters_bytes:
  "rtp_bytes (SetPayloadType t p) = take (rtp_size p) ((rtp_data p)[1 := (rtp_data p ! 1 AND 0x80) OR t])"
  "rtp_bytes (SetSequenceNumber n (SetMarker False q)) = take (rtp_size q) (WriteBigEndian2 ((rtp_data q)[1 := rtp_data q ! 1 AND 0x7F]) 2 n)"
  by (simp_all add: rtp_bytes_def rtp_size_def setters_fields) (simp_all add: SetPayloadType_def SetMarker_def SetSequenceNumber_def write_byte_def)

text \<open>An FEC packet in a RED packet with the header of the media packet \<open>p\<close>.\<close>

definition red_fec_view :: "u8 \<Rightarrow> u8 \<Rightarrow> u16 \<Rightarrow> Packet \<Rightarrow> RtpPacket \<Rightarrow> RtpPacket" where
  "red_fec_view red ulp n f p =
     SetSequenceNumber n (SetMarker False (SetPayloadType red (with_payload (ulp # take (pkt_length f) (pkt_data f)) p)))"

lemma small_type:
  assumes "t < (0x80 :: u8)"
  shows "take_bit 7 t = t" "t AND 0x7F = t" "t AND 0x80 = 0"
proof -
  show t: "take_bit 7 t = t"
    using assms by (simp add: word_eq_iff_unsigned [where ?'a = nat] unsigned_take_bit_eq take_bit_nat_eq_self word_less_nat_alt)
  then show "t AND 0x7F = t" by (simp add: low_bits)
  have "\<not> bit t 7" using t by (metis bit_take_bit_iff less_irrefl)
  then show "t AND 0x80 = 0" by (simp add: and_80_0)
qed

lemma type_replaced:
  assumes "red < 0x80" "take_bit 7 x = (t :: u8)"
  shows "((x AND 0x80) OR red) AND 0x80 = x AND 0x80" "(x AND 0x80) + t = x"
proof -
  have "bit red n \<Longrightarrow> n < 7" for n using small_type(1) [OF assms(1)] by (metis bit_take_bit_iff)
  then show "((x AND 0x80) OR red) AND 0x80 = x AND 0x80" by (intro bit_word_eqI) (auto simp: set_bits bit_or_iff)
  have "(x AND 0x80) + t = (x AND 0x80) OR t"
    unfolding assms(2) [symmetric] by (rule disjunctive_add) (auto simp: set_bits bit_take_bit_iff)
  also have "\<dots> = x" unfolding assms(2) [symmetric]
  proof (rule bit_word_eqI)
    fix n assume "n < LENGTH(8)"
    then have "n < 7 \<or> n = 7" by auto
    then show "bit ((x AND 0x80) OR take_bit 7 x) n = bit x n" by (auto simp: bit_or_iff set_bits bit_take_bit_iff)
  qed
  finally show "(x AND 0x80) + t = x" .
qed

lemma marker_and_type: "red < 0x80 \<Longrightarrow> ((x AND 0x80) + red) AND 0x7F = (red :: u8)" "red < 0x80 \<Longrightarrow> ((x AND 0x80) OR red) AND 0x7F = red"
proof -
  assume "red < 0x80"
  then have red: "take_bit 7 red = red" by (rule small_type)
  have low: "bit red n \<Longrightarrow> n < 7" for n using red by (metis bit_take_bit_iff)
  have "(x AND 0x80) + red = (x AND 0x80) OR red"
    by (rule disjunctive_add) (use low set_bits(5) in fastforce)
  moreover show "((x AND 0x80) OR red) AND 0x7F = red"
    unfolding low_bits by (subst take_bit_or, subst red) (rule bit_word_eqI, auto simp: bit_or_iff bit_take_bit_iff set_bits)
  ultimately show "((x AND 0x80) + red) AND 0x7F = red" by simp
qed

lemma red_packet_data:
  assumes "rtp_wf p" "rtp_padding_size p = 0" "rtp_size p \<le> 1500" "length (pkt_data f) = 1500" "pkt_length f \<le> 1500"
    and "last (media_packets g) = media_packet p" "last_media_packet_rtp_header_length g = headers_size p" "0 \<le> red" "red < 128"
  shows "red_data (red_packet_of fresh red ulp g f n) = rtp_bytes (red_fec_view (word_of_int red) (word_of_int ulp) n f p)"
proof (rule nth_equalityI)
  note w = rtp_wf_facts [OF assms(1)]
  let ?r = "word_of_int red :: u8" and ?hl = "payload_offset p" and ?m = "pkt_length f" and ?b = "word_of_int ulp # take (pkt_length f) (pkt_data f)"
  let ?q = "SetPayloadType ?r (with_payload ?b p)"
  have off: "?hl \<le> length (rtp_data p)" using w(2,3) by simp
  note wp = with_payload_data [OF off assms(2)]
  have len: "length (rtp_bytes p) = rtp_size p" using w(3) by (simp add: rtp_bytes_def)
  have hd: "pkt_data (media_packet p) ! j = rtp_data p ! j" if "j < ?hl" for j
    using that w(2) len by (simp add: media_packet_data(1) [OF len assms(3)] nth_append) (simp add: rtp_bytes_def)
  have cl: "length (red_data (red_packet_of fresh red ulp g f n)) = ?hl + 1 + ?m"
    by (simp add: red_packet_of_def Let_def AssignPayload_def ClearMarkerBit_def SetSeqNum_def CreateHeader_def new_RedPacket_def assms(7) headers_size_def)
  have hl: "12 \<le> ?hl" by (rule w(1))
  have d: "rtp_data (with_payload ?b p) ! j = (if j < ?hl then rtp_data p ! j else ?b ! (j - ?hl))" if "j < ?hl + 1 + ?m" for j
    using that off assms(4,5) by (auto simp: with_payload_def Let_def nth_append nth_Cons' )
  have dl: "?hl + 1 + ?m \<le> length (rtp_data (with_payload ?b p))"
    using with_payload_length(2) [OF off, of ?b] assms(4,5) by simp
  have red: "?r < 0x80" using assms(8,9) by (simp add: word_less_def unsigned_of_int take_bit_int_eq_self)
  have bytes: "rtp_bytes (red_fec_view ?r (word_of_int ulp) n f p) =
      take (?hl + 1 + ?m) (WriteBigEndian2 ((rtp_data ?q)[1 := rtp_data ?q ! 1 AND 0x7F]) 2 n)"
    using assms(2,4,5) by (simp add: red_fec_view_def setters_bytes rtp_size_def setters_fields)
  show "length (red_data (red_packet_of fresh red ulp g f n)) = length (rtp_bytes (red_fec_view ?r (word_of_int ulp) n f p))"
    unfolding bytes cl using dl by (simp add: SetPayloadType_def write_byte_def)
  fix j assume "j < length (red_data (red_packet_of fresh red ulp g f n))"
  then have j: "j < ?hl + 1 + ?m" by (simp add: cl)
  have rq: "rtp_data ?q = (rtp_data (with_payload ?b p))[1 := (rtp_data (with_payload ?b p) ! 1 AND 0x80) OR ?r]"
    by (simp add: SetPayloadType_def write_byte_def)
  let ?L = "red_data (red_packet_of fresh red ulp g f n)" and ?R = "rtp_bytes (red_fec_view ?r (word_of_int ulp) n f p)"
  have R: "?R ! j = (if j = 1 then ?r else if j = 2 then WriteBigEndian2 (replicate 4 0) 2 n ! 2 else if j = 3 then WriteBigEndian2 (replicate 4 0) 2 n ! 3
     else if j < ?hl then rtp_data p ! j else ?b ! (j - ?hl))"
    unfolding bytes rq using j hl dl d marker_and_type(2) [OF red] by (simp add: WriteBigEndian2_def nth_list_update)
  have L: "?L ! j = (if j = 1 then ?r else if j = 2 then WriteBigEndian2 (replicate 4 0) 2 n ! 2 else if j = 3 then WriteBigEndian2 (replicate 4 0) 2 n ! 3
     else if j < ?hl then rtp_data p ! j else ?b ! (j - ?hl))"
    using j hl marker_and_type(1) [OF red] hd assms(4,5)
    by (simp add: red_packet_of_def Let_def AssignPayload_def ClearMarkerBit_def SetSeqNum_def CreateHeader_def new_RedPacket_def assms(6,7) headers_size_def
        memcpy_at_nth WriteBigEndian2_def nth_list_update nth_Cons')
  show "?L ! j = ?R ! j" unfolding L R ..
qed

lemma bytes_split:
  assumes "rtp_padding_size p = 0" "rtp_size p \<le> length (rtp_data p)"
  shows "rtp_bytes p = take (payload_offset p) (rtp_data p) @ rtp_payload p"
  using assms by (simp add: rtp_bytes_def rtp_payload_def slice_def rtp_size_def take_add)

lemma with_payload_payload:
  assumes "payload_offset p \<le> length (rtp_data p)" "12 \<le> payload_offset p"
  shows "rtp_payload (SetPayloadType t (with_payload b p)) = b"
    and "rtp_payload (SetSequenceNumber n (SetMarker m (SetPayloadType t (with_payload b p)))) = b"
proof -
  have "rtp_data (with_payload b p) ! (payload_offset p + j) = b ! j" if "j < length b" for j
    using that assms by (simp add: with_payload_def Let_def nth_append)
  moreover note with_payload_length(2) [OF assms(1), of b]
  ultimately show "rtp_payload (SetPayloadType t (with_payload b p)) = b"
    "rtp_payload (SetSequenceNumber n (SetMarker m (SetPayloadType t (with_payload b p)))) = b"
    using assms(2) unfolding rtp_payload_def slice_def setters_fields with_payload_fields
    by (auto simp: list_eq_iff_nth_eq SetPayloadType_def SetMarker_def SetSequenceNumber_def write_byte_def WriteBigEndian2_other)
qed

lemma red_fec_view_facts:
  assumes "rtp_wf p" "rtp_padding_size p = 0" "length (pkt_data f) = 1500" "payload_offset p + 1 + pkt_length f \<le> 1500" "red < 0x80"
  shows "rtp_wf (red_fec_view red ulp n f p)" "payload_offset (red_fec_view red ulp n f p) = payload_offset p"
    and "rtp_ssrc (red_fec_view red ulp n f p) = rtp_ssrc p" "rtp_sequence_number (red_fec_view red ulp n f p) = n"
    and "rtp_payload (red_fec_view red ulp n f p) = ulp # take (pkt_length f) (pkt_data f)"
    and "rtp_padding_size (red_fec_view red ulp n f p) = 0"
proof -
  note w = rtp_wf_facts [OF assms(1)]
  show "rtp_wf (red_fec_view red ulp n f p)"
    unfolding red_fec_view_def using assms
    by (intro SetSequenceNumber_wf SetMarker_wf SetPayloadType_wf with_payload_wf) simp_all
  show "rtp_payload (red_fec_view red ulp n f p) = ulp # take (pkt_length f) (pkt_data f)"
    unfolding red_fec_view_def by (rule with_payload_payload(2)) (use w in simp_all)
qed (use assms(2) in \<open>simp_all add: red_fec_view_def setters_fields\<close>)

text \<open>A media packet in a RED packet, as RFC 2198 has it: the payload type moves in front of the payload.\<close>

definition red_media_view :: "u8 \<Rightarrow> RtpPacket \<Rightarrow> RtpPacket" where
  "red_media_view red p = SetPayloadType red (with_payload (rtp_payload_type p # rtp_payload p) p)"

lemma red_media_view_facts:
  assumes "rtp_wf p" "rtp_padding_size p = 0" "rtp_size p < 1500" "red < 0x80"
  shows "rtp_wf (red_media_view red p)" "payload_offset (red_media_view red p) = payload_offset p"
    and "rtp_ssrc (red_media_view red p) = rtp_ssrc p" "rtp_sequence_number (red_media_view red p) = rtp_sequence_number p"
    and "rtp_payload (red_media_view red p) = rtp_payload_type p # rtp_payload p" "rtp_padding_size (red_media_view red p) = 0"
    and "j < payload_offset p \<Longrightarrow> rtp_data (red_media_view red p) ! j = (if j = 1 then (rtp_data p ! 1 AND 0x80) OR red else rtp_data p ! j)"
proof -
  note w = rtp_wf_facts [OF assms(1)]
  have off: "payload_offset p \<le> length (rtp_data p)" using w(2,3) by simp
  have n: "length (rtp_payload p) = payload_size p" using w(3) assms(2) by (simp add: rtp_payload_def slice_def rtp_size_def)
  show "rtp_wf (red_media_view red p)"
    unfolding red_media_view_def using assms n by (intro SetPayloadType_wf with_payload_wf) (simp_all add: rtp_size_def)
  show "rtp_payload (red_media_view red p) = rtp_payload_type p # rtp_payload p"
    unfolding red_media_view_def by (rule with_payload_payload(1)) (use w in simp_all)
  show "rtp_data (red_media_view red p) ! j = (if j = 1 then (rtp_data p ! 1 AND 0x80) OR red else rtp_data p ! j)" if "j < payload_offset p"
    using that w(1) off with_payload_data(1) [OF off assms(2), of _ "rtp_payload_type p # rtp_payload p"]
      with_payload_length(2) [OF off, of "rtp_payload_type p # rtp_payload p"]
    by (simp add: red_media_view_def SetPayloadType_def write_byte_def nth_list_update)
qed (use assms(2) in \<open>simp_all add: red_media_view_def setters_fields\<close>)

subsection \<open>What the receiver makes of them\<close>

text \<open>What \<open>AddReceivedRedPacket\<close> queues for the packet \<open>q\<close>; only the counters change besides.\<close>

definition queued_as :: "u8 \<Rightarrow> u32 \<Rightarrow> RtpPacket \<Rightarrow> ReceivedPacket \<Rightarrow> bool" where
  "queued_as ulp ms q a \<longleftrightarrow> (\<forall>now h u. ur_ssrc u = ms \<longrightarrow>
     (\<exists>c. AddReceivedRedPacket now (GetHeader q h) (rtp_bytes q) ulp u =
        Some (0, u\<lparr>ur_packet_counter := c, received_packets := received_packets u @ [a]\<rparr>)))"

text \<open>An RTP packet with the bytes of the RED packet \<open>P\<close>.\<close>

definition arrives_red :: "RtpPacket \<Rightarrow> RtpPacket \<Rightarrow> bool" where
  "arrives_red P q \<longleftrightarrow> (\<exists>fresh q0. Parse fresh (rtp_bytes P) q0 = (True, q))"

lemma arrives_red_same: "rtp_wf P \<Longrightarrow> arrives_red P q \<Longrightarrow> same_packet P q"
proof -
  assume "rtp_wf P" "arrives_red P q"
  then obtain fresh q0 where "Parse fresh (rtp_bytes P) q0 = (True, q)" by (auto simp: arrives_red_def)
  then show "same_packet P q" using rtp_parse_same [OF \<open>rtp_wf P\<close>, of fresh q0] by auto
qed

lemma queued_red:
  assumes "rtp_wf P" "rtp_padding_size P = 0" "rtp_size P \<le> 1500" "arrives_red P q" "rtp_ssrc P = ms" "rtp_payload P = t # x" "t < 0x80"
    and "\<And>h. red_received (GetHeader q h) (rtp_bytes P) ulp = a" "0 < pkt_length (rcv_pkt a)"
  shows "queued_as ulp ms q a"
proof -
  note same = arrives_red_same [OF assms(1,4)]
  note w = rtp_wf_facts [OF assms(1)]
  have len: "length (rtp_bytes P) = rtp_size P" using w(3) by (simp add: rtp_bytes_def)
  have q: "rtp_bytes q = rtp_bytes P" "rtp_ssrc q = ms" "payload_offset q = payload_offset P" using same assms(5) by (simp_all add: same_packet_def)
  have size: "payload_offset P < rtp_size P"
    using arg_cong [OF assms(6), of length] w(3) assms(2) by (simp add: rtp_payload_def slice_def rtp_size_def)
  have "rtp_bytes P ! payload_offset P = t"
    using assms(6) w(1-3) assms(2) by (simp add: bytes_split nth_append)
  moreover have "t AND 0x80 = 0" by (rule small_type) (rule assms(7))
  ultimately show ?thesis
    using assms(3,8,9) size w(1) unfolding queued_as_def AddReceivedRedPacket_def q
    by (auto simp: GetHeader_def Let_def headers_size_def len q)
qed

lemma fec_queued:
  assumes "rtp_wf p" "rtp_padding_size p = 0" "rtp_ssrc p = ms" "payload_offset p + 1 + pkt_length f \<le> 1500" "red < 0x80" "ulp < 0x80"
    and "fec_clear ps f" "arrives_red (red_fec_view red ulp n f p) q"
  shows "queued_as ulp ms q \<lparr>rcv_ssrc = ms, rcv_seq_num = n, is_fec = True, rcv_pkt = f\<rparr>"
proof -
  let ?P = "red_fec_view red ulp n f p" and ?x = "take (pkt_length f) (pkt_data f)"
  have f: "length (pkt_data f) = 1500" "0 < pkt_length f" "pkt_length f \<le> 1500" "\<forall>j<1500. pkt_length f \<le> j \<longrightarrow> pkt_data f ! j = 0"
    using assms(4,7) by (auto simp: fec_clear_def)
  note P = red_fec_view_facts [OF assms(1,2) f(1) assms(4,5), of ulp n]
  note w = rtp_wf_facts [OF P(1)]
  note same = arrives_red_same [OF P(1) assms(8)]
  have x: "length ?x = pkt_length f" using f(1,3) by simp
  have ps: "payload_size ?P = pkt_length f + 1"
    using arg_cong [OF P(5), of length] w(3) P(6) x by (simp add: rtp_payload_def slice_def rtp_size_def)
  have size: "rtp_size ?P \<le> 1500" using assms(4) P(2,6) ps by (simp add: rtp_size_def)
  let ?h = "take (payload_offset ?P) (rtp_data ?P)"
  have b: "rtp_bytes ?P = ?h @ ulp # ?x" using bytes_split [OF P(6) w(3)] by (simp add: P(5))
  have h: "length ?h = payload_offset ?P" using w(2,3) by simp
  have ssrc: "ReadBigEndian4 (rtp_bytes ?P) 8 = rtp_ssrc ?P"
  proof -
    have "ReadBigEndian4 (rtp_bytes ?P) 8 = (ReadBigEndian4 (rtp_data ?P) 8 :: u32)"
      by (rule ReadBigEndian4_cong) (use w(1,2) in \<open>simp add: rtp_bytes_def\<close>)
    then show ?thesis using P(1) by (simp add: rtp_wf_def fixed_header_def Let_def)
  qed
  show ?thesis
  proof (rule queued_red [OF P(1,6) size assms(8) _ P(5) assms(6)])
    show "rtp_ssrc ?P = ms" by (simp add: P(3) assms(3))
    show "red_received (GetHeader q h) (rtp_bytes ?P) ulp = \<lparr>rcv_ssrc = ms, rcv_seq_num = n, is_fec = True, rcv_pkt = f\<rparr>" for h
    proof -
      have hl: "headerLength (GetHeader q h) = payload_offset ?P" "sequenceNumber (GetHeader q h) = n"
        using same P(4) by (simp_all add: GetHeader_def headers_size_def same_packet_def)
      have "rtp_bytes ?P ! payload_offset ?P = ulp" "drop (payload_offset ?P + 1) (rtp_bytes ?P) = ?x"
        "length (rtp_bytes ?P) - payload_offset ?P - 1 = length ?x"
        using h unfolding b by (simp_all add: nth_append)
      moreover have "\<lparr>pkt_length = length ?x, pkt_data = memcpy_at (pkt_data new_Packet) 0 ?x (length ?x)\<rparr> = f"
        using fresh_copy_clear [OF f(1,3,4)] by (simp add: fresh_copy_def)
      ultimately show ?thesis
        by (simp add: red_received_def Let_def hl small_type(2) [OF assms(6)] ssrc P(3) assms(3))
    qed
  qed (use f in simp)
qed

lemma media_queued:
  assumes "rtp_wf p" "rtp_padding_size p = 0" "rtp_ssrc p = ms" "rtp_size p < 1500" "red < 0x80" "rtp_payload_type p \<noteq> ulp"
    and "arrives_red (red_media_view red p) q"
  shows "queued_as ulp ms q \<lparr>rcv_ssrc = ms, rcv_seq_num = rtp_sequence_number p, is_fec = False, rcv_pkt = media_packet p\<rparr>"
proof -
  let ?P = "red_media_view red p" and ?x = "rtp_payload p" and ?t = "rtp_payload_type p"
  note P = red_media_view_facts [OF assms(1,2,4,5)]
  note w = rtp_wf_facts [OF P(1)] and wp = rtp_wf_facts [OF assms(1)]
  note same = arrives_red_same [OF P(1) assms(7)]
  have t: "take_bit 7 (rtp_data p ! 1) = ?t" using assms(1) by (simp add: rtp_wf_def fixed_header_def Let_def)
  have small: "?t < 0x80"
    unfolding t [symmetric] by (simp add: word_less_nat_alt unsigned_take_bit_eq take_bit_nat_def)
  have x: "length ?x = payload_size p" using wp(3) assms(2) by (simp add: rtp_payload_def slice_def rtp_size_def)
  have ps: "payload_size ?P = payload_size p + 1"
    using arg_cong [OF P(5), of length] w(3) P(6) x by (simp add: rtp_payload_def slice_def rtp_size_def)
  have size: "rtp_size ?P = rtp_size p + 1" using P(2,6) ps assms(2) by (simp add: rtp_size_def)
  let ?h = "take (payload_offset p) (rtp_data ?P)"
  have b: "rtp_bytes ?P = ?h @ ?t # ?x" using bytes_split [OF P(6) w(3)] by (simp add: P(2,5))
  have h: "length ?h = payload_offset p" using w(2,3) P(2) by simp
  have len: "length (rtp_bytes p) = rtp_size p" using wp(3) by (simp add: rtp_bytes_def)
  note m = media_packet_data [OF len less_imp_le [OF assms(4)]]
  define d where "d = memcpy_at (pkt_data new_Packet) 0 (rtp_bytes ?P) (payload_offset p)"
  define d1 where "d1 = d[1 := d ! 1 AND 0x80]"
  have d: "length d = 1500" "j < payload_offset p \<Longrightarrow> d ! j = rtp_data ?P ! j" for j
    using wp(1,2) assms(4) h by (simp_all add: d_def new_Packet_def memcpy_at_nth b nth_append)
  have byte1: "(d ! 1 AND 0x80) + ?t = rtp_data p ! 1"
    using d(2) [of 1] P(7) [of 1] wp(1) type_replaced(1) [OF assms(5) refl, of "rtp_data p ! 1"] type_replaced(2) [OF assms(5) t] by simp
  have copy: "memcpy_at (d1[1 := d1 ! 1 + ?t]) (payload_offset p) ?x (length ?x) = pkt_data (media_packet p)"
  proof (rule nth_equalityI)
    fix j assume "j < length (memcpy_at (d1[1 := d1 ! 1 + ?t]) (payload_offset p) ?x (length ?x))"
    then have j: "j < 1500" by (simp add: d1_def d(1))
    have pay: "?x ! (j - payload_offset p) = rtp_data p ! j" if "payload_offset p \<le> j" "j < payload_offset p + payload_size p"
      using that wp(3) assms(2) by (simp add: rtp_payload_def slice_def rtp_size_def)
    have zero: "d ! j = 0" if "payload_offset p \<le> j"
      using that j by (simp add: d_def new_Packet_def memcpy_at_nth)
    show "memcpy_at (d1[1 := d1 ! 1 + ?t]) (payload_offset p) ?x (length ?x) ! j = pkt_data (media_packet p) ! j"
      using j d P(7) [of j] byte1 x wp(1-3) assms(2) pay zero len
      unfolding m(1) by (auto simp: d1_def memcpy_at_nth nth_list_update nth_append rtp_bytes_def rtp_size_def)
  qed (use len assms(4) in \<open>simp add: d1_def d(1) m(1)\<close>)
  have n: "length (rtp_bytes ?P) = rtp_size ?P" using w(3) by (simp add: rtp_bytes_def)
  show ?thesis
  proof (rule queued_red [OF P(1,6) _ assms(7) _ P(5) small])
    show "rtp_size ?P \<le> 1500" "rtp_ssrc ?P = ms" using assms(3,4) size P(3) by simp_all
    show "red_received (GetHeader q h) (rtp_bytes ?P) ulp =
        \<lparr>rcv_ssrc = ms, rcv_seq_num = rtp_sequence_number p, is_fec = False, rcv_pkt = media_packet p\<rparr>" for h
    proof -
      have hl: "headerLength (GetHeader q h) = payload_offset p" "sequenceNumber (GetHeader q h) = rtp_sequence_number p" "hdr_ssrc (GetHeader q h) = ms"
        using same P(2,3,4) assms(3) by (simp_all add: GetHeader_def headers_size_def same_packet_def)
      have at: "rtp_bytes ?P ! payload_offset p = ?t" "drop (payload_offset p + 1) (rtp_bytes ?P) = ?x"
        "length (rtp_bytes ?P) - payload_offset p - 1 = length ?x"
        using h unfolding b by (simp_all add: nth_append)
      have size': "payload_offset p + length ?x = pkt_length (media_packet p)" using x assms(2) by (simp add: m(2) rtp_size_def)
      show ?thesis
        unfolding red_received_def Let_def hl at small_type(2) [OF small] d_def [symmetric] d1_def [symmetric] copy size'
        using assms(6) by simp
    qed
  qed (use wp in \<open>simp add: m(2)\<close>)
qed

end
