(* ===== verification/UlpfecRepair.thy ===== *)
theory UlpfecRepair
  imports UlpfecSession FlexfecRepair
begin

text \<open>
  A frame of media packets through the generator and the receiver of ULPFEC, from the RTP packets given to the
  one to the packets passed on by the other.
\<close>

subsection \<open>Processing\<close>

text \<open>Clearing the registered extensions that may change on the way leaves the packet as it is.\<close>

definition steady :: "RtpHeaderExtensionMap \<Rightarrow> RtpPacket \<Rightarrow> bool" where
  "steady m p \<longleftrightarrow> fold (zero_extension m) (extension_entries p) (pkt_data (media_packet p)) = pkt_data (media_packet p)"

lemma steady_media:
  assumes "rtp_wf p" "rtp_size p \<le> 1500" "steady m p"
  shows "red_media fresh m \<lparr>rcv_ssrc = s, rcv_seq_num = n, is_fec = False, rcv_pkt = media_packet p\<rparr> =
    Some ([media_packet p], \<lparr>rcv_ssrc = s, rcv_seq_num = n, is_fec = False, rcv_pkt = media_packet p\<rparr>)"
proof -
  have len: "length (rtp_bytes p) = rtp_size p" using rtp_wf_facts(3) [OF assms(1)] by (simp add: rtp_bytes_def)
  note d = media_packet_data [OF len assms(2)]
  have bytes: "take (pkt_length (media_packet p)) (pkt_data (media_packet p)) = rtp_bytes p" by (simp add: d len)
  obtain q where q: "Parse fresh (rtp_bytes p) (new_RtpPacket fresh None 1500) = (True, q)" "same_packet p q"
    using rtp_parse_same [OF assms(1), of fresh "new_RtpPacket fresh None 1500"] by blast
  have ok: "parsed_ok (rtp_bytes p) q" by (rule Parse_inv [OF q(1)])
  have copied: "memcpy_at (pkt_data (media_packet p)) 0 (rtp_data q) (rtp_size p) = pkt_data (media_packet p)"
  proof (rule nth_equalityI)
    fix j assume "j < length (memcpy_at (pkt_data (media_packet p)) 0 (rtp_data q) (rtp_size p))"
    then have j: "j < 1500" using len assms(2) by (simp add: d(1))
    have "rtp_data q ! j = rtp_bytes p ! j" if "j < rtp_size p" using ok len that by (metis nth_take parsed_ok_def)
    then show "memcpy_at (pkt_data (media_packet p)) 0 (rtp_data q) (rtp_size p) ! j = pkt_data (media_packet p) ! j"
      using j len assms(2) by (simp add: memcpy_at_nth d(1) nth_append)
  qed simp
  have "CopyAndZeroMutableExtensions (IdentifyExtensions m q) (pkt_length (media_packet p)) (pkt_data (media_packet p)) =
      Some (pkt_data (media_packet p))"
    using ok q(2) assms(3) len copied
    by (simp add: CopyAndZeroMutableExtensions_def IdentifyExtensions_def parsed_ok_def same_packet_def steady_def d(2))
  then show ?thesis by (simp add: red_media_def Let_def bytes q(1))
qed

text \<open>A run of the receiver: every packet is added and processed. The memory that is not initialised, the time and
  the header before \<open>GetHeader\<close> come with the packets.\<close>

fun receive_red :: "u8 \<Rightarrow> (((nat \<Rightarrow> u8) \<times> int \<times> RTPHeader) \<times> RtpPacket) list \<Rightarrow> UlpfecReceiver \<Rightarrow> (Packet list \<times> UlpfecReceiver) option" where
  "receive_red ulp [] u = Some ([], u)"
| "receive_red ulp (((fresh, now, h), q) # qs) u =
     (case AddReceivedRedPacket now (GetHeader q h) (rtp_bytes q) ulp u of None \<Rightarrow> None
      | Some (_, u) \<Rightarrow>
          (case ProcessReceivedFec fresh u of None \<Rightarrow> None
           | Some (out, _, u) \<Rightarrow> (case receive_red ulp qs u of None \<Rightarrow> None | Some (outs, u) \<Rightarrow> Some (out @ outs, u))))"

definition processed_as :: "RtpHeaderExtensionMap \<Rightarrow> ReceivedPacket \<Rightarrow> bool" where
  "processed_as m a \<longleftrightarrow> (\<forall>fresh. red_media fresh m a = Some (if is_fec a then [] else [rcv_pkt a], a))"

lemma processed_fec: "is_fec a \<Longrightarrow> processed_as m a"
  by (simp add: processed_as_def red_media_def)

lemma receive_red_decodes:
  assumes "list_all2 (\<lambda>x a. queued_as ulp ms (snd x) a \<and> processed_as m a) qs as" "ur_ssrc u = ms" "ur_extensions u = m" "received_packets u = []"
    and "deliver_all as (ur_fec u, ur_recovered_packets u) = (repaired, code, rs)"
  shows "\<exists>outs u'. receive_red ulp qs u = Some (outs, u') \<and> set outs = rcv_pkt ` {a \<in> set as. \<not> is_fec a} \<union> set repaired"
  using assms
proof (induction qs as arbitrary: u repaired rule: list_all2_induct)
  case (Cons x qs a as)
  obtain fresh now h q where x: "x = ((fresh, now, h), q)" by (metis prod.collapse)
  have "queued_as ulp ms q a" using Cons.hyps(1) by (simp add: x)
  then have "\<exists>c. AddReceivedRedPacket now (GetHeader q h) (rtp_bytes q) ulp u =
      Some (0, u\<lparr>ur_packet_counter := c, received_packets := received_packets u @ [a]\<rparr>)"
    unfolding queued_as_def using Cons.prems(1) by blast
  then obtain c where add: "AddReceivedRedPacket now (GetHeader q h) (rtp_bytes q) ulp u =
      Some (0, u\<lparr>ur_packet_counter := c, received_packets := [a]\<rparr>)"
    unfolding Cons.prems(3) append_Nil by (elim exE) (rule that)
  have media: "red_media fresh m a = Some (if is_fec a then [] else [rcv_pkt a], a)" using Cons.hyps(1) by (simp add: processed_as_def)
  obtain s1 rs1 where d: "DecodeFec a (ur_fec u, ur_recovered_packets u) = (s1, rs1)" by fastforce
  obtain o1 rs2 where ret: "return_recovered rs1 = (o1, rs2)" by fastforce
  obtain o2 where rest: "deliver_all as (s1, rs2) = (o2, code, rs)" "repaired = o1 @ o2"
    using Cons.prems(4) by (auto simp: d ret split: prod.splits)
  define u1 where "u1 = u\<lparr>ur_packet_counter := c\<lparr>num_recovered_packets := num_recovered_packets c + length o1\<rparr>,
    received_packets := [], ur_fec := s1, ur_recovered_packets := rs2\<rparr>"
  have proc: "ProcessReceivedFec fresh (u\<lparr>ur_packet_counter := c, received_packets := [a]\<rparr>) =
      Some ((if is_fec a then [] else [rcv_pkt a]) @ o1, 0, u1)"
    by (simp add: ProcessReceivedFec_def Cons.prems(2) media d ret Let_def u1_def)
  have u1: "ur_ssrc u1 = ms" "ur_extensions u1 = m" "received_packets u1 = []" "deliver_all as (ur_fec u1, ur_recovered_packets u1) = (o2, code, rs)"
    using Cons.prems(1,2) rest(1) by (simp_all add: u1_def)
  obtain outs u' where "receive_red ulp qs u1 = Some (outs, u')" "set outs = rcv_pkt ` {a \<in> set as. \<not> is_fec a} \<union> set o2"
    using Cons.IH [OF u1] by blast
  moreover have "rcv_pkt ` {b \<in> set (a # as). \<not> is_fec b} = set (if is_fec a then [] else [rcv_pkt a]) \<union> rcv_pkt ` {b \<in> set as. \<not> is_fec b}" by auto
  ultimately show ?case using rest(2) by (auto simp: x add proc)
qed simp

subsection \<open>What arrives of a frame\<close>

text \<open>A RED packet of the generator that arrives.\<close>

definition fec_arrives :: "RedPacket \<Rightarrow> RtpPacket \<Rightarrow> bool" where
  "fec_arrives r q \<longleftrightarrow> (\<exists>fresh q0. Parse fresh (red_data r) q0 = (True, q))"

definition from_red :: "u8 \<Rightarrow> RtpPacket list \<Rightarrow> RedPacket list \<Rightarrow> RtpPacket \<Rightarrow> bool" where
  "from_red red ps sent q \<longleftrightarrow> (\<exists>p\<in>set ps. arrives_red (red_media_view red p) q) \<or> (\<exists>r\<in>set sent. fec_arrives r q)"

text \<open>The RED packets \<open>sent\<close> carry the FEC packets \<open>fecs\<close> of a frame.\<close>

definition red_sent ::
  "u8 \<times> u8 \<times> RtpHeaderExtensionMap \<Rightarrow> u32 \<Rightarrow> u32 \<Rightarrow> RtpPacket list \<Rightarrow> u16 \<Rightarrow> Packet list \<Rightarrow> RedPacket list \<Rightarrow> bool" where
  "red_sent c fs ms ps n0 fecs sent \<longleftrightarrow>
     (case c of (red, ulp, m) \<Rightarrow> fs = ms \<and> frame_ok ms ps \<and> length sent = length fecs \<and> red < 0x80 \<and> ulp < 0x80 \<and>
       (\<forall>p\<in>set ps. steady m p \<and> rtp_payload_type p \<noteq> ulp) \<and>
       (\<forall>i<length fecs. fec_clear (map media_packet ps) (fecs ! i) \<and> payload_offset (last ps) + 1 + pkt_length (fecs ! i) \<le> 1500 \<and>
          red_data (sent ! i) = rtp_bytes (red_fec_view red ulp (n0 + of_nat i) (fecs ! i) (last ps))))"

definition red_taken :: "u8 \<times> u8 \<times> RtpHeaderExtensionMap \<Rightarrow> u32 \<Rightarrow> u32 \<Rightarrow> RtpPacket \<Rightarrow> ReceivedPacket \<Rightarrow> bool" where
  "red_taken c fs ms q a \<longleftrightarrow> (case c of (red, ulp, m) \<Rightarrow> queued_as ulp ms q a \<and> processed_as m a)"

lemma queued_unique: "queued_as ulp ms q a \<Longrightarrow> queued_as ulp ms q b \<Longrightarrow> a = b"
proof -
  assume "queued_as ulp ms q a" "queued_as ulp ms q b"
  let ?u = "CreateUlpfecReceiver ms [] [] []" and ?h = "undefined :: RTPHeader"
  let ?r = "AddReceivedRedPacket 0 (GetHeader q ?h) (rtp_bytes q) ulp ?u"
  have u: "ur_ssrc ?u = ms" "received_packets ?u = []" by (simp_all add: CreateUlpfecReceiver_def)
  obtain c d where "?r = Some (0, ?u\<lparr>ur_packet_counter := c, received_packets := received_packets ?u @ [a]\<rparr>)"
    "?r = Some (0, ?u\<lparr>ur_packet_counter := d, received_packets := received_packets ?u @ [b]\<rparr>)"
    using u(1) \<open>queued_as ulp ms q a\<close> \<open>queued_as ulp ms q b\<close> unfolding queued_as_def by blast
  then have "?u\<lparr>ur_packet_counter := c, received_packets := [a]\<rparr> = ?u\<lparr>ur_packet_counter := d, received_packets := [b]\<rparr>" by (simp add: u(2))
  then have "received_packets (?u\<lparr>ur_packet_counter := c, received_packets := [a]\<rparr>) = received_packets (?u\<lparr>ur_packet_counter := d, received_packets := [b]\<rparr>)" by (rule arg_cong)
  then show "a = b" by simp
qed

lemma red_media_taken:
  assumes "red_sent (red, ulp, m) fs ms ps n0 fecs sent" "p \<in> set ps" "arrives_red (red_media_view red p) q"
  shows "red_taken (red, ulp, m) fs ms q (media_received ms p)"
proof -
  have ok: "rtp_wf p" "rtp_padding_size p = 0" "rtp_size p \<le> 1436" "rtp_ssrc p = ms" "steady m p" "rtp_payload_type p \<noteq> ulp" "red < 0x80"
    using assms(1,2) by (auto simp: red_sent_def frame_ok_def)
  have "queued_as ulp ms q (media_received ms p)"
    by (rule media_queued [OF ok(1,2,4) _ ok(7,6) assms(3)]) (use ok(3) in simp)
  moreover have "processed_as m (media_received ms p)"
    using steady_media [OF ok(1) _ ok(5)] ok(3) by (simp add: processed_as_def)
  ultimately show ?thesis by (simp add: red_taken_def)
qed

lemma red_fec_taken:
  assumes "red_sent (red, ulp, m) fs ms ps n0 fecs sent" "i < length fecs" "fec_arrives (sent ! i) q"
  shows "red_taken (red, ulp, m) fs ms q (fec_received fs n0 fecs i)"
proof -
  have f: "fs = ms" "red < 0x80" "ulp < 0x80" "fec_clear (map media_packet ps) (fecs ! i)"
      "payload_offset (last ps) + 1 + pkt_length (fecs ! i) \<le> 1500"
      "red_data (sent ! i) = rtp_bytes (red_fec_view red ulp (n0 + of_nat i) (fecs ! i) (last ps))"
    using assms(1,2) by (simp_all add: red_sent_def)
  have "last ps \<in> set ps" using assms(1) by (simp add: red_sent_def frame_ok_def)
  then have l: "rtp_wf (last ps)" "rtp_padding_size (last ps) = 0" "rtp_ssrc (last ps) = ms" using assms(1) by (auto simp: red_sent_def frame_ok_def)
  have "arrives_red (red_fec_view red ulp (n0 + of_nat i) (fecs ! i) (last ps)) q"
    using assms(3) f(6) by (simp add: arrives_red_def fec_arrives_def)
  from fec_queued [OF l f(5,2,3,4) this] show ?thesis
    by (simp add: red_taken_def f(1) processed_fec)
qed

text \<open>ULPFEC in RED packets keeps the contract of \<open>frame_stream\<close>.\<close>

interpretation ulpfec_stream: frame_stream red_sent red_taken "\<lambda>c _ p. arrives_red (red_media_view (fst c) p)" "\<lambda>_. fec_arrives"
proof
  fix c :: "u8 \<times> u8 \<times> RtpHeaderExtensionMap" and fs ms ps n0 fecs sent p q i and a b :: ReceivedPacket
  obtain red ulp m where c: "c = (red, ulp, m)" by (rule prod_cases3)
  show "red_sent c fs ms ps n0 fecs sent \<Longrightarrow> frame_ok ms ps \<and> length sent = length fecs" by (simp add: red_sent_def c)
  show "red_taken c fs ms q a \<Longrightarrow> red_taken c fs ms q b \<Longrightarrow> a = b" unfolding red_taken_def c prod.case by (elim conjE) (rule queued_unique)
  assume sent: "red_sent c fs ms ps n0 fecs sent"
  show "red_taken c fs ms q (media_received ms p)" if "p \<in> set ps" "arrives_red (red_media_view (fst c) p) q"
    using red_media_taken sent that unfolding c fst_conv by blast
  show "red_taken c fs ms q (fec_received fs n0 fecs i)" if "i < length fecs" "fec_arrives (sent ! i) q"
    using red_fec_taken sent that unfolding c by blast
qed

subsection \<open>The property\<close>

lemma red_received_all:
  assumes sent: "red_sent (red, ulp, extension_map_of exts) ms ms ps n0 fecs sent"
    and rep: "frame_protected UlpfecHeaderWriter UlpfecHeaderReader ms ms ps fecs"
    and arrive: "\<forall>q\<in>snd ` set qs. from_red red ps sent q"
  shows "\<exists>outs u. receive_red ulp qs (CreateUlpfecReceiver ms exts masks tmp) = Some (outs, u) \<and> packet_bytes ` set outs \<subseteq> rtp_bytes ` set ps \<and>
     (\<forall>x. (\<forall>p\<in>set ps - {x}. \<exists>q\<in>snd ` set qs. arrives_red (red_media_view red p) q) \<and> (\<forall>r\<in>set sent. \<exists>q\<in>snd ` set qs. fec_arrives r q) \<longrightarrow>
        packet_bytes ` set outs = rtp_bytes ` set ps)"
proof -
  let ?u = "CreateUlpfecReceiver ms exts masks tmp"
  have start: "decoder_start UlpfecHeaderReader ms (ur_fec ?u)" "ur_recovered_packets ?u = []" "ur_ssrc ?u = ms"
      "ur_extensions ?u = extension_map_of exts" "received_packets ?u = []"
    by (simp_all add: decoder_start_def CreateUlpfecReceiver_def CreateUlpfec_def new_ForwardErrorCorrection_def)
  have frame: "frame_ok ms ps" using sent by (simp add: red_sent_def)
  have bytes: "packet_bytes ` media_packet ` set ps = rtp_bytes ` set ps"
    unfolding image_image by (rule image_cong [OF refl]) (rule frame_media(5) [OF frame])
  have "\<forall>q\<in>set (map snd qs). (\<exists>p\<in>set ps. arrives_red (red_media_view (fst (red, ulp, extension_map_of exts)) p) q) \<or> (\<exists>r\<in>set sent. fec_arrives r q)"
    using arrive by (simp add: from_red_def)
  from ulpfec_stream.stream_repaired [OF sent rep start(1) this] obtain as repaired st where
    as: "list_all2 (red_taken (red, ulp, extension_map_of exts) ms ms) (map snd qs) as" and run: "deliver_all as (ur_fec ?u, []) = (repaired, st)"
    and outs: "set repaired \<subseteq> media_packet ` set ps" "rcv_pkt ` {a \<in> set as. \<not> is_fec a} \<subseteq> media_packet ` set ps"
    and rest: "\<forall>x. (\<forall>p\<in>set ps - {x}. \<exists>q\<in>snd ` set qs. arrives_red (red_media_view red p) q) \<and> (\<forall>r\<in>set sent. \<exists>q\<in>snd ` set qs. fec_arrives r q) \<longrightarrow>
       (\<forall>p\<in>set ps. media_packet p \<in> rcv_pkt ` {a \<in> set as. \<not> is_fec a} \<union> set repaired)"
    unfolding set_map fst_conv by (elim exE conjE) (rule that)
  have taken: "list_all2 (\<lambda>x a. queued_as ulp ms (snd x) a \<and> processed_as (extension_map_of exts) a) qs as"
    using as by (simp add: list_all2_map1 red_taken_def)
  obtain outs' u' where u': "receive_red ulp qs ?u = Some (outs', u')" "set outs' = rcv_pkt ` {a \<in> set as. \<not> is_fec a} \<union> set repaired"
    using receive_red_decodes [OF taken start(3,4,5), of repaired "fst st" "snd st"] run start(2) by auto
  have sub: "set outs' \<subseteq> media_packet ` set ps" unfolding u'(2) using outs by (rule Un_least [rotated])
  show ?thesis
  proof (intro exI conjI allI impI)
    show "receive_red ulp qs ?u = Some (outs', u')" by (rule u'(1))
    show le: "packet_bytes ` set outs' \<subseteq> rtp_bytes ` set ps" unfolding bytes [symmetric] by (rule image_mono [OF sub])
    fix x
    assume "(\<forall>p\<in>set ps - {x}. \<exists>q\<in>snd ` set qs. arrives_red (red_media_view red p) q) \<and> (\<forall>r\<in>set sent. \<exists>q\<in>snd ` set qs. fec_arrives r q)"
    with rest have "\<forall>p\<in>set ps. media_packet p \<in> set outs'" unfolding u'(2) by blast
    then have "media_packet ` set ps \<subseteq> set outs'" by blast
    then show "packet_bytes ` set outs' = rtp_bytes ` set ps" unfolding bytes [symmetric] using sub by (metis subset_antisym)
  qed
qed

lemma red_parses:
  assumes "red_sent (red, ulp, m) ms ms ps n0 fecs sent" "r \<in> set sent"
  shows "\<exists>q. Parse fresh (red_data r) q0 = (True, q) \<and> rtp_ssrc q = ms"
proof -
  obtain i where i: "i < length fecs" "r = sent ! i" using assms by (auto simp: red_sent_def in_set_conv_nth)
  have f: "red < 0x80" "length (pkt_data (fecs ! i)) = 1500" "payload_offset (last ps) + 1 + pkt_length (fecs ! i) \<le> 1500"
      "red_data r = rtp_bytes (red_fec_view red ulp (n0 + of_nat i) (fecs ! i) (last ps))"
    using assms(1) i by (simp_all add: red_sent_def fec_clear_def)
  have "last ps \<in> set ps" using assms(1) by (simp add: red_sent_def frame_ok_def)
  then have l: "rtp_wf (last ps)" "rtp_padding_size (last ps) = 0" "rtp_ssrc (last ps) = ms" using assms(1) by (auto simp: red_sent_def frame_ok_def)
  note P = red_fec_view_facts [OF l(1,2) f(2,3,1), of ulp "n0 + of_nat i"]
  show ?thesis using rtp_parse_same [OF P(1), of fresh q0] P(3) l(3) unfolding f(4) by (auto simp: same_packet_def)
qed

lemma enumerate_map: "map (\<lambda>(i, p). g i p) (enumerate 0 xs) = map (\<lambda>i. g i (xs ! i)) [0..<length xs]"
  by (rule nth_equalityI) (simp_all add: nth_enumerate_eq)

lemma red_generated:
  assumes "frame_ok ms ps" "0 < fec_rate prm" "fec_rate prm \<le> 255" "max_fec_frames prm = 1"
    and "length masks = 288" "length tmp = 288" "length buf = 288" "payload_offset (last ps) \<le> 43"
    and "0 \<le> red" "red < 128" "0 \<le> ulp" "ulp < 128" "\<forall>p\<in>set ps. steady m p \<and> rtp_payload_type p \<noteq> word_of_int ulp"
  shows "\<exists>g fecs sent. add_all buf ps (SetFecParameters prm (new_UlpfecGenerator_ulpfec masks tmp)) = Some (replicate (length ps) 0, g) \<and>
    GetUlpfecPacketsAsRed fresh red ulp n0 g = (sent, ResetGenerator g) \<and> length sent = NumFecPackets (length ps) (nat (fec_rate prm)) \<and>
    red_sent (word_of_int red, word_of_int ulp, m) ms ms ps n0 fecs sent \<and> frame_protected UlpfecHeaderWriter UlpfecHeaderReader ms ms ps fecs"
proof -
  let ?g = "SetFecParameters prm (new_UlpfecGenerator_ulpfec masks tmp)"
  have ready: "generator_ready UlpfecHeaderWriter prm ?g"
    using assms(5,6) ulpfec.limits
    by (simp add: generator_ready_def SetFecParameters_def new_UlpfecGenerator_ulpfec_def new_UlpfecGenerator_def CreateUlpfec_def
        new_ForwardErrorCorrection_def encoder_ok_def new_Packet_def)
  obtain g where g: "add_all buf ps ?g = Some (replicate (length ps) 0, g)" "media_packets g = map media_packet ps"
      "last_media_packet_rtp_header_length g = headers_size (last ps)" "length (generated_packets g) = NumFecPackets (length ps) (nat (fec_rate prm))"
    and rep: "frame_protected UlpfecHeaderWriter UlpfecHeaderReader ms ms ps (generated_packets g)"
    using generate_frame [OF assms(1) fec_kind.ulpfec ready assms(2,3,4,7)] by blast
  let ?f = "generated_packets g"
  note clear = frame_protected_clear [OF rep fec_kind.ulpfec assms(1)]
  define sent where "sent = fst (GetUlpfecPacketsAsRed fresh red ulp n0 g)"
  have sent: "sent = map (\<lambda>i. red_packet_of fresh red ulp g (?f ! i) (n0 + of_nat i)) [0..<length ?f]"
    by (simp add: sent_def GetUlpfecPacketsAsRed_def enumerate_map)
  have ne: "ps \<noteq> []" "last ps \<in> set ps" using assms(1) by (simp_all add: frame_ok_def)
  then have l: "rtp_wf (last ps)" "rtp_padding_size (last ps) = 0" "rtp_size (last ps) \<le> 1500"
    using assms(1) frame_media(2) [OF assms(1) ne(2)] by (auto simp: frame_ok_def)
  have last: "last (media_packets g) = media_packet (last ps)" by (simp add: g(2) last_map ne(1))
  have small: "(word_of_int red :: u8) < 0x80" "(word_of_int ulp :: u8) < 0x80"
    using assms(9-12) by (simp_all add: word_less_def unsigned_of_int take_bit_int_eq_self)
  have "red_sent (word_of_int red, word_of_int ulp, m) ms ms ps n0 ?f sent"
    unfolding red_sent_def prod.case
  proof (intro conjI allI impI refl assms(1) small assms(13))
    show "length sent = length ?f" by (simp add: sent)
    fix i assume i: "i < length ?f"
    show "fec_clear (map media_packet ps) (?f ! i)" by (rule clear(1) [OF i])
    show "payload_offset (last ps) + 1 + pkt_length (?f ! i) \<le> 1500" using clear(3) [OF i] assms(8) by simp
    show "red_data (sent ! i) = rtp_bytes (red_fec_view (word_of_int red) (word_of_int ulp) (n0 + of_nat i) (?f ! i) (last ps))"
      using red_packet_data [OF l clear(4) [OF i] _ last g(3) assms(9,10)] clear(3) [OF i] i by (simp add: sent)
  qed
  then show ?thesis
    using g(1,4) rep by (intro exI [of _ g] exI [of _ ?f] exI [of _ sent]) (simp add: sent_def GetUlpfecPacketsAsRed_def)
qed

lemma ulpfec_repaired:
  assumes "frame_ok ms ps" "0 < fec_rate prm" "fec_rate prm \<le> 255" "max_fec_frames prm = 1"
    and "length masks = 288" "length tmp = 288" "length buf = 288" "payload_offset (last ps) \<le> 43"
    and "0 \<le> red" "red < 128" "0 \<le> ulp" "ulp < 128" "\<forall>p\<in>set ps. steady (extension_map_of exts) p \<and> rtp_payload_type p \<noteq> word_of_int ulp"
  shows "\<exists>g sent. add_all buf ps (SetFecParameters prm (new_UlpfecGenerator_ulpfec masks tmp)) = Some (replicate (length ps) 0, g) \<and>
    GetUlpfecPacketsAsRed fresh red ulp n0 g = (sent, ResetGenerator g) \<and> length sent = NumFecPackets (length ps) (nat (fec_rate prm)) \<and>
    (\<forall>r\<in>set sent. \<forall>fresh' q0. \<exists>q. Parse fresh' (red_data r) q0 = (True, q) \<and> rtp_ssrc q = ms) \<and>
    (\<forall>qs masks' tmp'. (\<forall>q\<in>snd ` set qs. from_red (word_of_int red) ps sent q) \<longrightarrow>
       (\<exists>outs u. receive_red (word_of_int ulp) qs (CreateUlpfecReceiver ms exts masks' tmp') = Some (outs, u) \<and>
         packet_bytes ` set outs \<subseteq> rtp_bytes ` set ps \<and>
         (\<forall>x. (\<forall>p\<in>set ps - {x}. \<exists>q\<in>snd ` set qs. arrives_red (red_media_view (word_of_int red) p) q) \<and>
              (\<forall>r\<in>set sent. \<exists>q\<in>snd ` set qs. fec_arrives r q) \<longrightarrow> packet_bytes ` set outs = rtp_bytes ` set ps)))"
proof -
  obtain g fecs sent where gen: "add_all buf ps (SetFecParameters prm (new_UlpfecGenerator_ulpfec masks tmp)) = Some (replicate (length ps) 0, g)"
      "GetUlpfecPacketsAsRed fresh red ulp n0 g = (sent, ResetGenerator g)" "length sent = NumFecPackets (length ps) (nat (fec_rate prm))"
    and sent: "red_sent (word_of_int red, word_of_int ulp, extension_map_of exts) ms ms ps n0 fecs sent"
    and rep: "frame_protected UlpfecHeaderWriter UlpfecHeaderReader ms ms ps fecs"
    using red_generated [OF assms, of fresh n0] by (elim exE conjE) (rule that)
  show ?thesis
  proof (rule exI [of _ g], rule exI [of _ sent], intro conjI gen)
    show "\<forall>r\<in>set sent. \<forall>fresh' q0. \<exists>q. Parse fresh' (red_data r) q0 = (True, q) \<and> rtp_ssrc q = ms"
      by (intro ballI allI red_parses [OF sent])
  qed (intro allI impI red_received_all [OF sent rep])
qed

text \<open>C8: ULPFEC from end to end. The media packets of a frame go to a new generator, and its FEC packets are taken
  as RED packets of the media stream. A new receiver gets media packets of the frame, wrapped into RED
  packets too, and these FEC packets in any order, each any number of times or not at all, and processes after each. It
  then never passes on a packet that is not of the frame; and once all FEC packets and all media packets but
  one have arrived it has passed on the bytes of every media packet of the frame.\<close>

theorem ulpfec_session:
  assumes "frame_ok ms ps" "0 < fec_rate prm" "fec_rate prm \<le> 255" "max_fec_frames prm = 1"
    and "length masks = 288" "length tmp = 288" "length buf = 288" "payload_offset (last ps) \<le> 43"
    and "0 \<le> red" "red < 128" "0 \<le> ulp" "ulp < 128" "\<forall>p\<in>set ps. steady (extension_map_of exts) p \<and> rtp_payload_type p \<noteq> word_of_int ulp"
  shows "\<exists>g sent. add_all buf ps (SetFecParameters prm (new_UlpfecGenerator_ulpfec masks tmp)) = Some (replicate (length ps) 0, g) \<and>
    GetUlpfecPacketsAsRed fresh red ulp n0 g = (sent, ResetGenerator g) \<and> length sent = NumFecPackets (length ps) (nat (fec_rate prm)) \<and>
    (\<forall>r\<in>set sent. \<forall>fresh' q0. \<exists>q. Parse fresh' (red_data r) q0 = (True, q) \<and> rtp_ssrc q = ms) \<and>
    (\<forall>qs masks' tmp'. (\<forall>q\<in>snd ` set qs. from_red (word_of_int red) ps sent q) \<longrightarrow>
       (\<exists>outs u. receive_red (word_of_int ulp) qs (CreateUlpfecReceiver ms exts masks' tmp') = Some (outs, u) \<and>
         packet_bytes ` set outs \<subseteq> rtp_bytes ` set ps \<and>
         (\<forall>x. (\<forall>p\<in>set ps - {x}. \<exists>q\<in>snd ` set qs. arrives_red (red_media_view (word_of_int red) p) q) \<and>
              (\<forall>r\<in>set sent. \<exists>q\<in>snd ` set qs. fec_arrives r q) \<longrightarrow> packet_bytes ` set outs = rtp_bytes ` set ps)))"
  using assms by (rule ulpfec_repaired)

subsection \<open>An example\<close>

text \<open>Two packets, the first of which is lost; the bytes that arrive are parsed into a new packet.\<close>

definition ex_header :: RTPHeader where
  "ex_header = \<lparr>markerBit = False, payloadType = 0, sequenceNumber = 0, hdr_timestamp = 0, hdr_ssrc = 0, numCSRCs = 0,
     arrOfCSRCs = replicate 15 0, paddingLength = 0, headerLength = 0\<rparr>"

definition ex_red :: "u8 list \<Rightarrow> ((nat \<Rightarrow> u8) \<times> int \<times> RTPHeader) \<times> RtpPacket" where
  "ex_red b = ((\<lambda>_. 0, 1, ex_header), snd (Parse (\<lambda>_. 0) b (new_RtpPacket (\<lambda>_. 0) None 1500)))"

lemma ex_rtp_more: "extension_entries (ex_rtp n mk) = []" "payload_offset (ex_rtp n mk) = 12" "rtp_payload_type (ex_rtp n mk) = 96"
proof -
  let ?p = "SetMarker mk (SetSsrc 7 (SetPayloadType 96 (SetSequenceNumber n (new_RtpPacket (\<lambda>_. 42) (Some (new_RtpHeaderExtensionMap False)) 1500))))"
  have b: "bare ?p" by (intro bare_setters bare_new) (simp_all add: new_RtpHeaderExtensionMap_def)
  have f: "extension_entries ?p = []" "payload_offset ?p = 12" "rtp_payload_type ?p = 96"
    by (simp_all add: SetMarker_def SetSsrc_def SetPayloadType_def SetSequenceNumber_def write_byte_def new_RtpPacket_cleared) (simp_all add: cleared_def)
  show "extension_entries (ex_rtp n mk) = []" "payload_offset (ex_rtp n mk) = 12" "rtp_payload_type (ex_rtp n mk) = 96"
    using b f by (simp_all add: ex_rtp_def SetPayloadSize_eq bare_def)
qed

theorem ulpfec_session_witness:
  "\<exists>g sent outs u. add_all (replicate 288 0) [ex_rtp 5 False, ex_rtp 6 True]
       (SetFecParameters ex_params (new_UlpfecGenerator_ulpfec (replicate 288 0) (replicate 288 0))) = Some ([0, 0], g) \<and>
     GetUlpfecPacketsAsRed (\<lambda>_. 0) 98 97 7 g = (sent, ResetGenerator g) \<and>
     receive_red 97 (ex_red (rtp_bytes (red_media_view 98 (ex_rtp 6 True))) # map (ex_red \<circ> red_data) sent) (CreateUlpfecReceiver 7 [] [] []) = Some (outs, u) \<and>
     packet_bytes ` set outs = {rtp_bytes (ex_rtp 5 False), rtp_bytes (ex_rtp 6 True)}"
proof -
  let ?ps = "[ex_rtp 5 False, ex_rtp 6 True]" and ?b = "replicate 288 0 :: u8 list" and ?m = "red_media_view 98 (ex_rtp 6 True)"
  have len: "length ?b = 288" by simp
  have frame: "frame_ok 7 ?ps" by (simp add: frame_ok_def ex_rtp_facts)
  have prm: "0 < fec_rate ex_params" "fec_rate ex_params \<le> 255" "max_fec_frames ex_params = 1" by (simp_all add: ex_params_def)
  have off: "payload_offset (last ?ps) \<le> 43" by (simp add: ex_rtp_more)
  have types: "0 \<le> (98 :: int)" "(98 :: int) < 128" "0 \<le> (97 :: int)" "(97 :: int) < 128" by simp_all
  have steady: "\<forall>p\<in>set ?ps. steady (extension_map_of []) p \<and> rtp_payload_type p \<noteq> word_of_int 97" by (simp add: steady_def ex_rtp_more)
  have w: "word_of_int 98 = (98 :: u8)" "word_of_int 97 = (97 :: u8)" by simp_all
  obtain g sent where run: "add_all ?b ?ps (SetFecParameters ex_params (new_UlpfecGenerator_ulpfec ?b ?b)) = Some (replicate (length ?ps) 0, g)"
      "GetUlpfecPacketsAsRed (\<lambda>_. 0) 98 97 7 g = (sent, ResetGenerator g)"
    and parse: "\<forall>r\<in>set sent. \<forall>fresh' q0. \<exists>q. Parse fresh' (red_data r) q0 = (True, q) \<and> rtp_ssrc q = 7"
    and all: "\<forall>qs masks' tmp'. (\<forall>q\<in>snd ` set qs. from_red 98 ?ps sent q) \<longrightarrow>
       (\<exists>outs u. receive_red 97 qs (CreateUlpfecReceiver 7 [] masks' tmp') = Some (outs, u) \<and> packet_bytes ` set outs \<subseteq> rtp_bytes ` set ?ps \<and>
         (\<forall>x. (\<forall>p\<in>set ?ps - {x}. \<exists>q\<in>snd ` set qs. arrives_red (red_media_view 98 p) q) \<and>
              (\<forall>r\<in>set sent. \<exists>q\<in>snd ` set qs. fec_arrives r q) \<longrightarrow> packet_bytes ` set outs = rtp_bytes ` set ?ps))"
    using ulpfec_session [OF frame prm len len len off types steady, of "\<lambda>_. 0" 7] unfolding w by (elim exE conjE) (rule that)
  let ?qs = "ex_red (rtp_bytes ?m) # map (ex_red \<circ> red_data) sent"
  have fec: "fec_arrives r (snd (ex_red (red_data r)))" if r: "r \<in> set sent" for r
  proof -
    obtain q where "Parse (\<lambda>_. 0) (red_data r) (new_RtpPacket (\<lambda>_. 0) None 1500) = (True, q)" using parse r by blast
    then show ?thesis by (auto simp: fec_arrives_def ex_red_def)
  qed
  have "rtp_wf ?m" by (rule red_media_view_facts) (simp_all add: ex_rtp_facts)
  then obtain q where "Parse (\<lambda>_. 0) (rtp_bytes ?m) (new_RtpPacket (\<lambda>_. 0) None 1500) = (True, q)" using rtp_parse_same by blast
  then have media: "arrives_red ?m (snd (ex_red (rtp_bytes ?m)))" by (auto simp: arrives_red_def ex_red_def)
  have sess: "\<forall>q\<in>snd ` set ?qs. from_red 98 ?ps sent q" using fec media by (auto simp: from_red_def)
  obtain outs u where rec: "receive_red 97 ?qs (CreateUlpfecReceiver 7 [] [] []) = Some (outs, u)"
    and rest: "\<forall>x. (\<forall>p\<in>set ?ps - {x}. \<exists>q\<in>snd ` set ?qs. arrives_red (red_media_view 98 p) q) \<and>
              (\<forall>r\<in>set sent. \<exists>q\<in>snd ` set ?qs. fec_arrives r q) \<longrightarrow> packet_bytes ` set outs = rtp_bytes ` set ?ps"
    using mp [OF spec [OF spec [OF spec [OF all]]] sess, of "[]" "[]"] by (elim exE conjE) (rule that)
  have "\<forall>p\<in>set ?ps - {ex_rtp 5 False}. \<exists>q\<in>snd ` set ?qs. arrives_red (red_media_view 98 p) q" using media by auto
  moreover have "\<forall>r\<in>set sent. \<exists>q\<in>snd ` set ?qs. fec_arrives r q" using fec by auto
  ultimately have "packet_bytes ` set outs = rtp_bytes ` set ?ps" using rest by blast
  then have "packet_bytes ` set outs = {rtp_bytes (ex_rtp 5 False), rtp_bytes (ex_rtp 6 True)}" by simp
  moreover have "add_all ?b ?ps (SetFecParameters ex_params (new_UlpfecGenerator_ulpfec ?b ?b)) = Some ([0, 0], g)"
    using run(1) by (simp only: list.size replicate.simps add_0 plus_nat.simps One_nat_def)
  ultimately show ?thesis using run(2) rec by (intro exI conjI)
qed

end
