(* ===== verification/NackPack.thy ===== *)
theory NackPack
  imports ByteIo
begin

text \<open>
  The packets of the repair-by-retransmission programs: \<open>test_tp.h\<close> and \<open>pack.cpp\<close> of
  \<open>src/nack-test/receiver/Transport\<close>. A packet is its buffer with a length; what a new buffer holds is
  not determined. Fields are stored in network order at the offsets the compiler gives them; the
  header of a report occupies 8 bytes (its unused field \<open>padding\<close> lies behind them). A list of missing sequence
  numbers is sent as items of a first number and a bit mask of the 16 numbers after it.
\<close>

subsection \<open>Packets\<close>

definition UDP_PACKET_MAX_BYTES :: nat where [simp]: "UDP_PACKET_MAX_BYTES = 1400"

record TESTTPPacket =
  tp_buf :: "u8 list"
  tp_length :: nat

definition new_TESTTPPacket :: "u8 list \<Rightarrow> nat \<Rightarrow> TESTTPPacket" where
  "new_TESTTPPacket bytes len = \<lparr>tp_buf = take UDP_PACKET_MAX_BYTES (bytes @ replicate UDP_PACKET_MAX_BYTES 0), tp_length = len\<rparr>"

definition get_type :: "u8 list \<Rightarrow> u16" where
  "get_type b = ReadBigEndian2 b 0"

definition get_sequence :: "u8 list \<Rightarrow> u16" where
  "get_sequence b = ReadBigEndian2 b 2"

definition get_timestamp :: "u8 list \<Rightarrow> u32" where
  "get_timestamp b = ReadBigEndian4 b 4"

definition tcp_get_length :: "u8 list \<Rightarrow> u32" where
  "tcp_get_length b = ReadBigEndian4 b 4"

definition TPYE_RTT :: u16 where [simp]: "TPYE_RTT = 12"
definition TPYE_TRANSPORT_PACKET :: u16 where [simp]: "TPYE_TRANSPORT_PACKET = 1"
definition TPYE_TRANSPORT_INFO :: u16 where [simp]: "TPYE_TRANSPORT_INFO = 2"
definition RTP_HEADER_SIZE_BYTES :: nat where [simp]: "RTP_HEADER_SIZE_BYTES = 8"
definition RTCP_HEADER_SIZE_BYTES :: nat where [simp]: "RTCP_HEADER_SIZE_BYTES = 8"
definition NACK_ITEM_BYTES :: nat where [simp]: "NACK_ITEM_BYTES = 4"
definition RTT_PAYLOAD_BYTES :: nat where [simp]: "RTT_PAYLOAD_BYTES = 4"
definition MAX_NACK_ITEM_NUM :: nat where [simp]: "MAX_NACK_ITEM_NUM = 347"

subsection \<open>Packing\<close>

definition packing_header :: "u16 \<Rightarrow> u32 \<Rightarrow> TESTTPPacket \<Rightarrow> TESTTPPacket" where
  "packing_header seqn timestamp p =
     (let b = WriteBigEndian2 (tp_buf p) 0 TPYE_TRANSPORT_PACKET;
          b = WriteBigEndian2 b 2 seqn;
          b = WriteBigEndian4 b 4 timestamp
      in p\<lparr>tp_buf := b\<rparr>)"

text \<open>The payload is a struct with a header of its own before its buffer, of which one byte is cleared.\<close>

definition packing_packet :: "u16 \<Rightarrow> u32 \<Rightarrow> TESTTPPacket \<Rightarrow> TESTTPPacket" where
  "packing_packet seqn timestamp p =
     (let p = packing_header seqn timestamp p
      in p\<lparr>tp_buf := (tp_buf p)[RTP_HEADER_SIZE_BYTES + 8 := 0], tp_length := RTP_HEADER_SIZE_BYTES + 1300\<rparr>)"

text \<open>The inner loop of \<open>packing_nack\<close>: the bit mask of an item and the numbers it does not reach.\<close>

fun nack_blp :: "u16 \<Rightarrow> u16 \<Rightarrow> u16 list \<Rightarrow> u16 \<times> u16 list" where
  "nack_blp pid blp [] = (blp, [])"
| "nack_blp pid blp (x # xs) =
     (let shift = x - pid - 1
      in if shift \<le> 15 then nack_blp pid (blp OR push_bit (unat shift) 1) xs else (blp, x # xs))"

lemma nack_blp_length: "length (snd (nack_blp pid blp xs)) \<le> length xs"
  by (induction pid blp xs rule: nack_blp.induct) (auto simp: Let_def)

function nack_items :: "nat \<Rightarrow> u16 list \<Rightarrow> u8 list \<Rightarrow> nat \<times> u8 list" where
  "nack_items n [] b = (n, b)"
| "nack_items n (pid # xs) b =
     (let (blp, rest) = nack_blp pid 0 xs;
          b = WriteBigEndian2 b (RTCP_HEADER_SIZE_BYTES + NACK_ITEM_BYTES * n) pid;
          b = WriteBigEndian2 b (RTCP_HEADER_SIZE_BYTES + NACK_ITEM_BYTES * n + 2) blp
      in if n + 1 = MAX_NACK_ITEM_NUM then (n + 1, b) else nack_items (n + 1) rest b)"
  by pat_completeness auto
termination
proof (relation "measure (\<lambda>(n, xs, b). length xs)")
  fix n :: nat and pid :: u16 and xs b p blp rest b1 b2
  assume "p = nack_blp pid 0 xs" "(blp, rest) = p"
  then have "length rest \<le> length xs" using nack_blp_length [of pid 0 xs] by (metis snd_conv)
  then show "((n + 1, rest, b2), n, pid # xs, b) \<in> measure (\<lambda>(n, xs, b). length xs)" by simp
qed simp

definition packing_nack :: "u16 list \<Rightarrow> TESTTPPacket \<Rightarrow> TESTTPPacket" where
  "packing_nack sequence_vector p =
     (let b = WriteBigEndian2 (tp_buf p) 0 TPYE_TRANSPORT_INFO;
          (n, b) = nack_items 0 sequence_vector b;
          len = of_nat (RTCP_HEADER_SIZE_BYTES + NACK_ITEM_BYTES * n) :: u16;
          b = WriteBigEndian4 b 4 (ucast len :: u32)
      in p\<lparr>tp_buf := b, tp_length := unat len\<rparr>)"

text \<open>The number of the round-trip measurement is stored in the order of the host, little-endian here.\<close>

definition rtt_packing :: "u16 \<Rightarrow> TESTTPPacket \<Rightarrow> TESTTPPacket" where
  "rtt_packing num p =
     (let b = WriteBigEndian2 (tp_buf p) 0 TPYE_RTT;
          b = WriteLittleEndian4 b RTCP_HEADER_SIZE_BYTES (ucast num :: u32);
          len = of_nat (RTCP_HEADER_SIZE_BYTES + RTT_PAYLOAD_BYTES) :: u16;
          b = WriteBigEndian4 b 4 (ucast len :: u32)
      in p\<lparr>tp_buf := b, tp_length := unat len\<rparr>)"

subsection \<open>Unpacking\<close>

function blp_seqs :: "u16 \<Rightarrow> u16 \<Rightarrow> u16 list" where
  "blp_seqs bitmask pid =
     (if bitmask = 0 then []
      else (if bitmask AND 1 \<noteq> 0 then [pid] else []) @ blp_seqs (drop_bit 1 bitmask) (pid + 1))"
  by pat_completeness auto
termination
proof (relation "measure (\<lambda>(bitmask, pid). unat bitmask)")
  fix bitmask pid :: u16 assume "bitmask \<noteq> 0"
  then have "0 < unat bitmask" by (simp add: unat_gt_0)
  then show "((drop_bit 1 bitmask, pid + 1), bitmask, pid) \<in> measure (\<lambda>(bitmask, pid). unat bitmask)"
    by (simp add: drop_bit_eq_div unat_div)
qed simp

declare blp_seqs.simps [simp del]

definition unpack_item :: "u8 list \<Rightarrow> nat \<Rightarrow> u16 list" where
  "unpack_item b i =
     (let pid = ReadBigEndian2 b (RTCP_HEADER_SIZE_BYTES + NACK_ITEM_BYTES * i);
          blp = ReadBigEndian2 b (RTCP_HEADER_SIZE_BYTES + NACK_ITEM_BYTES * i + 2)
      in pid # blp_seqs blp (pid + 1))"

text \<open>The return value and the numbers appended. The length in the header is not compared with the
  buffer: \<open>None\<close> when it makes the code read behind it.\<close>

definition unpacking_nack :: "TESTTPPacket \<Rightarrow> u16 list \<Rightarrow> (bool \<times> u16 list) option" where
  "unpacking_nack p sequence_vector =
     (let len = unat (tcp_get_length (tp_buf p))
      in if len < RTCP_HEADER_SIZE_BYTES then Some (False, sequence_vector)
         else
           let nack_item = (len - RTCP_HEADER_SIZE_BYTES) div NACK_ITEM_BYTES
           in if RTCP_HEADER_SIZE_BYTES + NACK_ITEM_BYTES * nack_item > length (tp_buf p) then None
              else Some (True, fold (\<lambda>i v. v @ unpack_item (tp_buf p) i) [0..<nack_item] sequence_vector))"

subsection \<open>An item\<close>

definition near :: "u16 \<Rightarrow> u16 \<Rightarrow> bool" where
  "near pid x \<longleftrightarrow> x - pid - 1 \<le> 15"

lemma blp_seqs_bits:
  "unat b < 2 ^ n \<Longrightarrow> blp_seqs b p = map (\<lambda>i. p + of_nat i) (filter (bit b) [0..<n])"
proof (induction n arbitrary: b p)
  case 0
  then have "b = 0" by (simp add: unat_eq_0)
  then show ?case by (simp add: blp_seqs.simps)
next
  case (Suc n)
  show ?case
  proof (cases "b = 0")
    case True
    then show ?thesis by (simp add: blp_seqs.simps)
  next
    case False
    have upt: "[0..<Suc n] = 0 # map Suc [0..<n]" by (metis upt_conv_Cons map_Suc_upt zero_less_Suc)
    have "unat (drop_bit 1 b) < 2 ^ n" using Suc.prems by (simp add: drop_bit_eq_div unat_div less_mult_imp_div_less mult.commute)
    then have rest: "blp_seqs (drop_bit 1 b) (p + 1) = map (\<lambda>i. p + 1 + of_nat i) (filter (bit (drop_bit 1 b)) [0..<n])"
      by (rule Suc.IH)
    have "b AND 1 \<noteq> 0 \<longleftrightarrow> bit b 0" by (simp add: and_one_eq odd_iff_mod_2_eq_one bit_0 even_iff_mod_2_eq_zero)
    then show ?thesis unfolding upt using False
      by (subst blp_seqs.simps, simp only: rest False if_False, simp add: bit_drop_bit_eq filter_map o_def ac_simps)
  qed
qed

lemma nack_blp_eq:
  "nack_blp pid blp xs =
     (fold (\<lambda>x blp. blp OR push_bit (unat (x - pid - 1)) 1) (takeWhile (near pid) xs) blp, dropWhile (near pid) xs)"
  by (induction pid blp xs rule: nack_blp.induct) (simp_all add: near_def Let_def)

lemma bit_fold_blp:
  "i < 16 \<Longrightarrow> bit (fold (\<lambda>x blp. blp OR push_bit (f x) (1 :: u16)) xs blp) i \<longleftrightarrow> bit blp i \<or> i \<in> f ` set xs"
  by (induction xs arbitrary: blp) (auto simp: bit_or_iff bit_exp_iff)

lemma unat_ahead: "(pid :: u16) < x \<Longrightarrow> unat (x - pid - 1) = unat x - unat pid - 1"
proof -
  assume lt: "pid < x"
  have "unat (x - pid) = unat x - unat pid" using lt by (simp add: unat_sub less_imp_le)
  moreover have "1 \<le> x - pid" using lt calculation by (simp add: word_le_nat_alt word_less_nat_alt)
  ultimately show ?thesis by (simp add: unat_sub)
qed

text \<open>What an item is read back as: its number and the numbers behind it that it reaches.\<close>

lemma item_seqs:
  assumes "sorted_wrt (<) (pid # xs)"
  shows "blp_seqs (fst (nack_blp pid 0 xs)) (pid + 1) = takeWhile (near pid) xs"
proof -
  define ys f where "ys = takeWhile (near pid) xs" and "f x = unat (x - pid - 1)" for x :: u16
  have ys: "sorted_wrt (<) ys" "\<forall>x\<in>set ys. pid < x \<and> near pid x"
    using assms by (auto simp: ys_def sorted_wrt_takeWhile dest: set_takeWhileD)
  have mono: "f x < f y" if "x \<in> set ys" "y \<in> set ys" "x < y" for x y
    using ys(2) [rule_format, OF that(1)] ys(2) [rule_format, OF that(2)] that(3)
    by (simp add: f_def unat_ahead) (auto simp: word_less_nat_alt intro!: diff_less_mono)
  have less: "f x < 16" if "x \<in> set ys" for x
  proof -
    have "x - pid - 1 \<le> 15" using ys(2) that by (simp add: near_def)
    then show ?thesis by (simp add: f_def word_le_nat_alt)
  qed
  define b where "b = fst (nack_blp pid 0 xs)"
  have bits: "bit b i \<longleftrightarrow> i \<in> f ` set ys" if "i < 16" for i
    unfolding b_def nack_blp_eq fst_conv ys_def [symmetric] f_def [symmetric]
    by (subst bit_fold_blp [OF that]) simp
  have "sorted_wrt (<) (map f ys)" unfolding sorted_wrt_map
    by (rule sorted_wrt_mono_rel [OF _ ys(1)]) (rule mono)
  moreover have "sorted_wrt (<) (filter (bit b) [0..<16])" by (simp add: sorted_wrt_filter)
  moreover have "set (filter (bit b) [0..<16]) = set (map f ys)" using bits less by auto
  ultimately have "filter (bit b) [0..<16] = map f ys" by (intro strict_sorted_equal) auto
  moreover have "unat b < 2 ^ 16" using unsigned_less [of b, where ?'a = nat] by simp
  ultimately have "blp_seqs b (pid + 1) = map (\<lambda>x. pid + 1 + of_nat (f x)) ys"
    by (subst blp_seqs_bits [where n = 16]) (simp_all add: o_def)
  also have "\<dots> = ys" by (intro map_idI) (simp add: f_def)
  finally show ?thesis by (simp add: b_def ys_def)
qed

subsection \<open>The list of items\<close>

lemma unpack_item_cong:
  "(\<And>j. j < 4 \<Longrightarrow> b' ! (8 + 4 * n + j) = b ! (8 + 4 * n + j)) \<Longrightarrow> unpack_item b' n = unpack_item b n"
proof -
  assume same: "\<And>j. j < 4 \<Longrightarrow> b' ! (8 + 4 * n + j) = b ! (8 + 4 * n + j)"
  show ?thesis
    using same [of 0] same [of 1] same [of 2] same [of 3]
    by (simp add: unpack_item_def ReadBigEndian2_def eval_nat_numeral)
qed

lemma unpack_item_write:
  assumes "8 + 4 * n + 4 \<le> length b" "sorted_wrt (<) (pid # xs)"
  shows "unpack_item (WriteBigEndian2 (WriteBigEndian2 b (8 + 4 * n) pid) (8 + 4 * n + 2) (fst (nack_blp pid 0 xs))) n
    = pid # takeWhile (near pid) xs"
proof -
  let ?blp = "fst (nack_blp pid 0 xs)"
  let ?b = "WriteBigEndian2 (WriteBigEndian2 b (8 + 4 * n) pid) (8 + 4 * n + 2) ?blp"
  have "ReadBigEndian2 ?b (8 + 4 * n + 2) = ?blp"
    using assms(1) by (simp add: byte_io_2 read_write_big take_bit_word_eq_self)
  moreover have "ReadBigEndian2 ?b (8 + 4 * n) = (ReadBigEndian2 (WriteBigEndian2 b (8 + 4 * n) pid) (8 + 4 * n) :: u16)"
    using assms(1) by (simp add: byte_io_2 WriteBigEndian_nth) (simp add: ReadBigEndian_def upt_2 WriteBigEndian_nth)
  moreover have "\<dots> = pid" using assms(1) by (simp add: byte_io_2 read_write_big take_bit_word_eq_self)
  ultimately show ?thesis using item_seqs [OF assms(2)] by (simp add: unpack_item_def Let_def)
qed

text \<open>The items from \<open>n\<close> on in the finished buffer hold a prefix of the list, all of it unless the
  packet is full.\<close>

definition holds_items :: "nat \<Rightarrow> u16 list \<Rightarrow> u8 list \<Rightarrow> nat \<times> u8 list \<Rightarrow> bool" where
  "holds_items n xs b = (\<lambda>(n', b'). n \<le> n' \<and> n' \<le> MAX_NACK_ITEM_NUM \<and> length b' = length b \<and>
     (\<forall>j<8 + 4 * n. b' ! j = b ! j) \<and>
     (\<exists>m. n' - n \<le> m \<and> m \<le> length xs \<and> (m = length xs \<or> n' = MAX_NACK_ITEM_NUM) \<and>
        concat (map (unpack_item b') [n..<n']) = take m xs))"

lemma nack_items_spec:
  "n < MAX_NACK_ITEM_NUM \<Longrightarrow> length b = UDP_PACKET_MAX_BYTES \<Longrightarrow> sorted_wrt (<) xs \<Longrightarrow>
     holds_items n xs b (nack_items n xs b)"
proof (induction n xs b rule: nack_items.induct)
  case (1 n b)
  then show ?case by (simp add: holds_items_def)
next
  case (2 n pid xs b)
  define blp rest where "blp = fst (nack_blp pid 0 xs)" and "rest = dropWhile (near pid) xs"
  have nb: "nack_blp pid 0 xs = (blp, rest)" by (simp add: blp_def rest_def nack_blp_eq)
  define b2 where "b2 = WriteBigEndian2 (WriteBigEndian2 b (8 + 4 * n) pid) (8 + 4 * n + 2) blp"
  have len: "length b2 = 1400" using "2.prems" by (simp add: b2_def byte_io_2)
  have low: "b2 ! j = b ! j" if "j < 8 + 4 * n" for j
    using that "2.prems" by (simp add: b2_def byte_io_2 WriteBigEndian_nth)
  have item: "unpack_item b2 n = pid # takeWhile (near pid) xs"
    unfolding b2_def blp_def using "2.prems" by (intro unpack_item_write) simp_all
  have xs: "takeWhile (near pid) xs @ rest = xs" by (simp add: rest_def)
  have le: "length (takeWhile (near pid) xs) \<le> length xs" by (rule length_takeWhile_le)
  have tk: "takeWhile (near pid) xs = take (length (takeWhile (near pid) xs)) xs" by (metis takeWhile_eq_take length_take min.absorb2 le)
  show ?case
  proof (cases "n + 1 = MAX_NACK_ITEM_NUM")
    case True
    then have "nack_items n (pid # xs) b = (n + 1, b2)" by (simp add: nb b2_def)
    then show ?thesis using True len low item le tk "2.prems"
      by (auto simp: holds_items_def intro!: exI [of _ "Suc (length (takeWhile (near pid) xs))"])
  next
    case False
    then have eq: "nack_items n (pid # xs) b = nack_items (n + 1) rest b2" by (simp add: nb b2_def)
    have "sorted_wrt (<) rest" using "2.prems"(3) by (simp add: rest_def sorted_wrt_dropWhile)
    then have IH: "holds_items (n + 1) rest b2 (nack_items (n + 1) rest b2)"
      using "2.IH" [OF nb [symmetric] refl refl] False "2.prems" len by (simp add: b2_def)
    obtain n' b' where nb': "nack_items (n + 1) rest b2 = (n', b')" by fastforce
    obtain m where m: "n' - (n + 1) \<le> m" "m \<le> length rest" "m = length rest \<or> n' = MAX_NACK_ITEM_NUM"
      "concat (map (unpack_item b') [n + 1..<n']) = take m rest"
      and n': "n + 1 \<le> n'" "n' \<le> MAX_NACK_ITEM_NUM" "length b' = 1400" and low': "\<forall>j<8 + 4 * (n + 1). b' ! j = b2 ! j"
      using IH [unfolded nb' holds_items_def prod.case] len by auto
    have "unpack_item b' n = pid # takeWhile (near pid) xs"
      unfolding item [symmetric] by (rule unpack_item_cong) (simp add: low')
    moreover have "[n..<n'] = n # [n + 1..<n']" using n'(1) by (simp add: upt_conv_Cons)
    ultimately have "concat (map (unpack_item b') [n..<n']) = take (Suc (length (takeWhile (near pid) xs) + m)) (pid # xs)"
      using m(4) xs by simp (metis take_append take_all le_add1 add_diff_cancel_left')
    moreover have "length xs = length (takeWhile (near pid) xs) + length rest" by (metis length_append xs)
    ultimately show ?thesis using m n' low low' "2.prems"
      unfolding eq nb' holds_items_def prod.case
      by (intro conjI exI [of _ "Suc (length (takeWhile (near pid) xs) + m)"]) auto
  qed
qed

text \<open>A packet read back yields what was packed.\<close>

lemma unpacking_packed:
  assumes "sorted_wrt (<) xs" "length (tp_buf p) = UDP_PACKET_MAX_BYTES"
  shows "\<exists>m \<le> length xs. (m = length xs \<or> MAX_NACK_ITEM_NUM \<le> m) \<and> 
    unpacking_nack (packing_nack xs p) sv = Some (True, sv @ take m xs)"
proof -
  define b1 where "b1 = WriteBigEndian2 (tp_buf p) 0 TPYE_TRANSPORT_INFO"
  obtain n b where nb: "nack_items 0 xs b1 = (n, b)" by fastforce
  have "holds_items 0 xs b1 (nack_items 0 xs b1)"
    by (rule nack_items_spec) (use assms in \<open>simp_all add: b1_def byte_io_2\<close>)
  then obtain m where m: "n \<le> m" "m \<le> length xs" "m = length xs \<or> n = MAX_NACK_ITEM_NUM"
    "concat (map (unpack_item b) [0..<n]) = take m xs"
    and n: "n \<le> MAX_NACK_ITEM_NUM" and len: "length b = 1400"
    unfolding nb holds_items_def prod.case using assms(2) by (auto simp: b1_def byte_io_2)
  define l :: u16 where "l = of_nat (8 + 4 * n)"
  define b2 where "b2 = WriteBigEndian4 b 4 (ucast l :: u32)"
  have l: "unat l = 8 + 4 * n" using n unfolding l_def by (subst unat_of_nat) simp
  have pack: "tp_buf (packing_nack xs p) = b2"
    using nb by (simp add: packing_nack_def b1_def b2_def l_def Let_def)
  have "tcp_get_length b2 = ucast l"
    using len by (simp add: tcp_get_length_def b2_def byte_io_4 read_write_big take_bit_word_eq_self)
  then have l2: "unat (tcp_get_length b2) = 8 + 4 * n" using l n by (simp add: unsigned_ucast_eq take_bit_nat_eq_self)
  have "unpack_item b2 i = unpack_item b i" if i: "i < n" for i
  proof (rule unpack_item_cong)
    fix j :: nat assume "j < 4"
    then have "8 + 4 * i + j < length b" using i n len by simp
    from WriteBigEndian_nth [OF this, of 4 4 "ucast l :: u32"] show "b2 ! (8 + 4 * i + j) = b ! (8 + 4 * i + j)"
      by (simp add: b2_def byte_io_4)
  qed
  then have "map (unpack_item b2) [0..<n] = map (unpack_item b) [0..<n]" by simp
  then have items: "concat (map (unpack_item b2) [0..<n]) = take m xs" by (simp only: m(4))
  have "fold (\<lambda>i v. v @ unpack_item b2 i) [0..<n] sv = sv @ concat (map (unpack_item b2) [0..<n])"
    by (induction n) simp_all
  then have "unpacking_nack (packing_nack xs p) sv = Some (True, sv @ take m xs)"
    using l2 n len items by (simp add: unpacking_nack_def pack b2_def byte_io_4 Let_def)
  then show ?thesis using m n by auto
qed

text \<open>The reader does not compare the length in the header with the packet: every packet whose header claims
  more than 348 items makes it read behind the buffer, and one that claims less than the 8 bytes
  of the header is refused.\<close>

lemma unpacking_nack_bounds:
  assumes "length (tp_buf p) = UDP_PACKET_MAX_BYTES"
  shows "unpacking_nack p sv = None \<longleftrightarrow> 1404 \<le> unat (tcp_get_length (tp_buf p))"
    and "(\<exists>v. unpacking_nack p sv = Some (False, v)) \<longleftrightarrow> unat (tcp_get_length (tp_buf p)) < 8"
  using assms by (auto simp: unpacking_nack_def Let_def)

subsection \<open>Properties\<close>

text \<open>C19: a report built from a strictly ascending list of missing numbers is read back as a prefix of the
  list, and as the whole list unless all 347 items of the packet are used; so every list of at most
  347 numbers survives.\<close>

theorem nack_roundtrip:
  assumes "sorted_wrt (<) xs" "length (tp_buf p) = UDP_PACKET_MAX_BYTES"
  shows "\<exists>m \<le> length xs. (m = length xs \<or> MAX_NACK_ITEM_NUM \<le> m) \<and>
    unpacking_nack (packing_nack xs p) sv = Some (True, sv @ take m xs)"
  using assms by (rule unpacking_packed)

theorem nack_roundtrip_witness:
  "\<exists>m \<le> length [4, 7, 900 :: u16]. (m = length [4, 7, 900 :: u16] \<or> MAX_NACK_ITEM_NUM \<le> m) \<and>
     unpacking_nack (packing_nack [4, 7, 900] (new_TESTTPPacket [] 0)) [] = Some (True, [] @ take m [4, 7, 900])"
  by (rule nack_roundtrip) (simp_all add: new_TESTTPPacket_def)

end
