(* ===== verification/NackGen.thy ===== *)
theory NackGen
  imports NackPack
begin

text \<open>
  The list of missing packets of a receiver: \<open>nack_gen.h\<close> and \<open>nack_gen.cpp\<close> of
  \<open>src/nack-test/receiver/Transport\<close> (the file of \<open>src/fec-test/receiver\<close> is the same). The class is the record
  \<open>NackGenerator\<close>; its \<open>std::map\<close> is the list of its entries in the order of the keys, which is the order of
  the numbers, not the circular order of sequence numbers. The clock is an argument.
\<close>

subsection \<open>The ordered map\<close>

definition map_erase :: "'k \<Rightarrow> ('k \<times> 'v) list \<Rightarrow> ('k \<times> 'v) list" where
  "map_erase k m = filter (\<lambda>e. fst e \<noteq> k) m"

text \<open>\<open>erase (begin (), lower_bound (k))\<close>.\<close>

definition map_erase_below :: "'k :: linorder \<Rightarrow> ('k \<times> 'v) list \<Rightarrow> ('k \<times> 'v) list" where
  "map_erase_below k m = dropWhile (\<lambda>e. fst e < k) m"

fun map_emplace :: "'k :: linorder \<Rightarrow> 'v \<Rightarrow> ('k \<times> 'v) list \<Rightarrow> ('k \<times> 'v) list" where
  "map_emplace k v [] = [(k, v)]"
| "map_emplace k v (e # m) = (if k < fst e then (k, v) # e # m else if k = fst e then e # m else e # map_emplace k v m)"

subsection \<open>The class\<close>

record NackInfo =
  ni_seq :: u16
  sendAtSeq :: u16
  sentAtMs :: u64
  retries :: u8

record NackGenerator =
  nackList :: "(u16 \<times> NackInfo) list"
  started :: bool
  lastSeq :: u16
  ng_rtt :: u32

definition MaxValue :: int where [simp]: "MaxValue = 65535"
definition MaxPacketAge :: u64 where [simp]: "MaxPacketAge = 10000"
definition MaxNackPackets :: nat where [simp]: "MaxNackPackets = 1000"
definition DefaultRtt :: u32 where [simp]: "DefaultRtt = 100"
definition MaxNackRetries :: u8 where [simp]: "MaxNackRetries = 20"

definition new_NackGenerator :: NackGenerator where
  "new_NackGenerator = \<lparr>nackList = [], started = False, lastSeq = 0, ng_rtt = DefaultRtt\<rparr>"

text \<open>The comparisons promote the numbers to \<open>int\<close>.\<close>

definition SeqLowerThan :: "u16 \<Rightarrow> u16 \<Rightarrow> bool" where
  "SeqLowerThan lhs rhs \<longleftrightarrow>
     (rhs > lhs \<and> uint rhs - uint lhs \<le> MaxValue div 2) \<or> (lhs > rhs \<and> uint lhs - uint rhs > MaxValue div 2)"

definition SeqHigherThan :: "u16 \<Rightarrow> u16 \<Rightarrow> bool" where
  "SeqHigherThan lhs rhs \<longleftrightarrow>
     (lhs > rhs \<and> uint lhs - uint rhs \<le> MaxValue div 2) \<or> (rhs > lhs \<and> uint rhs - uint lhs > MaxValue div 2)"

definition GetNackListLength :: "NackGenerator \<Rightarrow> nat" where
  "GetNackListLength g = length (nackList g)"

definition UpdateRtt :: "u32 \<Rightarrow> NackGenerator \<Rightarrow> NackGenerator" where
  "UpdateRtt r g = g\<lparr>ng_rtt := r\<rparr>"

definition Reset :: "NackGenerator \<Rightarrow> NackGenerator" where
  "Reset g = g\<lparr>nackList := [], started := False, lastSeq := 0\<rparr>"

text \<open>The age limit is computed in the 64 bits of \<open>size_t\<close> and truncated to the key of the map.\<close>

definition age_limit :: "u16 \<Rightarrow> u16" where
  "age_limit seqEnd = ucast (ucast seqEnd - MaxPacketAge)"

definition AddPacketsToNackList :: "u16 \<Rightarrow> u16 \<Rightarrow> NackGenerator \<Rightarrow> NackGenerator" where
  "AddPacketsToNackList seqStart seqEnd g =
     (let m = map_erase_below (age_limit seqEnd) (nackList g);
          numNewNacks = seqEnd - seqStart
      in if length m + unat numNewNacks > MaxNackPackets then g\<lparr>nackList := []\<rparr>
         else g\<lparr>nackList := fold
           (\<lambda>i m. let s = seqStart + of_nat i in
              if map_of m s = None
              then map_emplace s \<lparr>ni_seq = s, sendAtSeq = s, sentAtMs = 0, retries = 0\<rparr> m else m)
           [0..<unat numNewNacks] m\<rparr>)"

text \<open>Whether the packet fills a gap, and the new state.\<close>

definition ReceivePacket :: "u8 list \<Rightarrow> NackGenerator \<Rightarrow> bool \<times> NackGenerator" where
  "ReceivePacket b g =
     (let s = get_sequence b
      in if \<not> started g then (False, g\<lparr>started := True, lastSeq := s\<rparr>)
         else if s = lastSeq g then (False, g)
         else if SeqLowerThan s (lastSeq g) then
           (if map_of (nackList g) s \<noteq> None then (True, g\<lparr>nackList := map_erase s (nackList g)\<rparr>) else (False, g))
         else (False, (AddPacketsToNackList (lastSeq g + 1) s g)\<lparr>lastSeq := s\<rparr>))"

text \<open>The divisor of the round trip time, \<open>0.4 tryTimes + 1\<close> below three tries and 2 from then on, as a fraction;
  and the time to wait after a request, the quotient truncated. The code divides in double precision: the
  divisors are 1, 1.4, 1.8 and 2 up to a relative error below \<open>2 ^ -53\<close>, so an exact quotient is reached
  again by rounding and any other one keeps its distance (at least 1/9) from the next integer, for every
  \<open>rtt\<close> of 32 bits. The division of integers below is therefore the truncated value.\<close>

definition CalculateRttLimit2SendNack :: "u8 \<Rightarrow> nat \<times> nat" where
  "CalculateRttLimit2SendNack tryTimes = (if tryTimes < 3 then (2 * unat tryTimes + 5, 5) else (2, 1))"

definition nack_limit :: "u32 \<Rightarrow> u8 \<Rightarrow> u64" where
  "nack_limit rtt tryTimes =
     (let (numerator, denominator) = CalculateRttLimit2SendNack tryTimes in of_nat (unat rtt * denominator div numerator))"

definition nack_due :: "u32 \<Rightarrow> u64 \<Rightarrow> NackInfo \<Rightarrow> bool" where
  "nack_due rtt nowMs i \<longleftrightarrow> nowMs - sentAtMs i \<ge> nack_limit rtt (retries i)"

definition nack_sent :: "u64 \<Rightarrow> NackInfo \<Rightarrow> NackInfo" where
  "nack_sent nowMs i = i\<lparr>retries := retries i + 1, sentAtMs := nowMs\<rparr>"

fun nack_batch :: "u32 \<Rightarrow> u64 \<Rightarrow> (u16 \<times> NackInfo) list \<Rightarrow> u16 list \<times> (u16 \<times> NackInfo) list" where
  "nack_batch rtt nowMs [] = ([], [])"
| "nack_batch rtt nowMs ((k, i) # m) =
     (let (batch, m') = nack_batch rtt nowMs m
      in if nack_due rtt nowMs i
         then (ni_seq i # batch, if retries (nack_sent nowMs i) \<ge> MaxNackRetries then m' else (k, nack_sent nowMs i) # m')
         else (batch, (k, i) # m'))"

definition GetNackBatch :: "u64 \<Rightarrow> NackGenerator \<Rightarrow> u16 list \<times> NackGenerator" where
  "GetNackBatch nowMs g = (let (batch, m) = nack_batch (ng_rtt g) nowMs (nackList g) in (batch, g\<lparr>nackList := m\<rparr>))"

subsection \<open>The map keeps its order\<close>

abbreviation keys_sorted :: "('k :: linorder \<times> 'v) list \<Rightarrow> bool" where
  "keys_sorted m \<equiv> sorted_wrt (<) (map fst m)"

lemma set_map_emplace: "set (map_emplace k v m) \<subseteq> insert (k, v) (set m)"
  by (induction m) auto

lemma keys_map_emplace: "fst ` set (map_emplace k v m) = insert k (fst ` set m)"
  by (induction m) (auto simp: insert_commute)

lemma sorted_map_emplace: "keys_sorted m \<Longrightarrow> keys_sorted (map_emplace k v m)"
proof (induction m)
  case (Cons e m)
  then have "\<forall>x \<in> fst ` set (map_emplace k v m). fst e < x" if "fst e < k"
    using that by (auto simp: keys_map_emplace)
  then show ?case using Cons by (cases "k < fst e"; cases "k = fst e") (auto intro: less_trans)
qed simp

lemma map_of_map_emplace: "keys_sorted m \<Longrightarrow> k \<notin> fst ` set m \<Longrightarrow> map_of (map_emplace k v m) = (map_of m)(k \<mapsto> v)"
proof (induction m)
  case (Cons e m)
  then show ?case by (cases e) (auto simp: fun_eq_iff)
qed simp

lemma length_map_emplace: "length (map_emplace k v m) \<le> Suc (length m)"
  by (induction m) auto

lemma sorted_map_erase: "keys_sorted m \<Longrightarrow> keys_sorted (map_erase k m)"
  unfolding map_erase_def sorted_wrt_map by (rule sorted_wrt_filter)

lemma map_of_map_erase: "map_of (map_erase k m) = (map_of m)(k := None)"
  by (induction m) (auto simp: map_erase_def fun_eq_iff)

lemma sorted_map_erase_below: "keys_sorted m \<Longrightarrow> keys_sorted (map_erase_below k m)"
  unfolding map_erase_below_def sorted_wrt_map by (rule sorted_wrt_dropWhile)

lemma map_of_map_erase_below:
  "keys_sorted m \<Longrightarrow> map_of (map_erase_below k m) x = (if x < k then None else map_of m x)"
proof (induction m)
  case (Cons e m)
  have none: "map_of m x = None" if "x \<le> fst e" for x
    using Cons.prems that by (auto simp: map_of_eq_None_iff)
  show ?case using Cons none [of x] by (cases e) (auto simp: map_erase_below_def)
qed (simp add: map_erase_below_def)

lemma set_map_erase_below: "set (map_erase_below k m) \<subseteq> set m"
  by (auto simp: map_erase_below_def dest: set_dropWhileD)

subsection \<open>Comparing numbers\<close>

lemma SeqLowerThan_distance:
  "SeqLowerThan s l \<longleftrightarrow> s \<noteq> l \<and> (uint (l - s) \<le> 32767 \<or> uint (l - s) = 32768 \<and> l < s)"
  using unsigned_less [of l, where ?'a = int] unsigned_less [of s, where ?'a = int]
  by (cases "l = s") (auto simp: SeqLowerThan_def word_less_def uint_sub_if' word_uint_eq_iff)

lemma SeqHigherThan_flip: "SeqHigherThan a b = SeqLowerThan b a"
  by (auto simp: SeqHigherThan_def SeqLowerThan_def)

subsection \<open>Adding packets\<close>

definition fresh :: "u16 \<Rightarrow> NackInfo" where
  "fresh s = \<lparr>ni_seq = s, sendAtSeq = s, sentAtMs = 0, retries = 0\<rparr>"

definition add_missing :: "u16 \<Rightarrow> nat \<Rightarrow> (u16 \<times> NackInfo) list \<Rightarrow> (u16 \<times> NackInfo) list" where
  "add_missing a n m = fold (\<lambda>i m. let s = a + of_nat i in
     if map_of m s = None then map_emplace s (fresh s) m else m) [0..<n] m"

lemma add_missing_spec:
  assumes "keys_sorted m"
  shows "keys_sorted (add_missing a n m) \<and> length (add_missing a n m) \<le> length m + n \<and>
    map_of (add_missing a n m) = (\<lambda>k. if map_of m k \<noteq> None then map_of m k
      else if \<exists>i<n. k = a + of_nat i then Some (fresh k) else None)"
proof (induction n)
  case 0
  then show ?case using assms by (auto simp: add_missing_def)
next
  case (Suc n)
  define m' s where "m' = add_missing a n m" and "s = a + of_nat n"
  have eq: "add_missing a (Suc n) m = (if map_of m' s = None then map_emplace s (fresh s) m' else m')"
    by (simp add: add_missing_def m'_def s_def Let_def)
  have IH: "keys_sorted m'" "length m' \<le> length m + n"
    "map_of m' = (\<lambda>k. if map_of m k \<noteq> None then map_of m k else if \<exists>i<n. k = a + of_nat i then Some (fresh k) else None)"
    using Suc by (simp_all add: m'_def)
  show ?case
  proof (cases "map_of m' s = None")
    case True
    then have "s \<notin> fst ` set m'" by (simp add: map_of_eq_None_iff)
    then show ?thesis unfolding eq using True IH length_map_emplace [of s "fresh s" m']
      by (auto simp: sorted_map_emplace map_of_map_emplace fun_eq_iff less_Suc_eq s_def split: if_splits)
  next
    case False
    then show ?thesis unfolding eq using IH by (auto simp: fun_eq_iff less_Suc_eq s_def split: if_splits)
  qed
qed

lemma in_gap: "(\<exists>i<unat (b - a). k = a + of_nat i) \<longleftrightarrow> k - a < b - (a :: u16)"
proof
  assume "\<exists>i<unat (b - a). k = a + of_nat i"
  then obtain i where "i < unat (b - a)" "k = a + of_nat i" by blast
  then show "k - a < b - a" using unsigned_less [of "b - a", where ?'a = nat]
    by (simp add: word_less_nat_alt unat_of_nat)
next
  assume "k - a < b - a"
  then show "\<exists>i<unat (b - a). k = a + of_nat i"
    by (intro exI [of _ "unat (k - a)"]) (simp add: word_less_nat_alt)
qed

text \<open>What is left of the list when the packet \<open>s\<close> is the newest.\<close>

abbreviation kept :: "u16 \<Rightarrow> NackGenerator \<Rightarrow> (u16 \<times> NackInfo) list" where
  "kept s g \<equiv> map_erase_below (age_limit s) (nackList g)"

lemma AddPacketsToNackList_eq:
  "AddPacketsToNackList a b g =
     g\<lparr>nackList := if length (kept b g) + unat (b - a) > 1000 then [] else add_missing a (unat (b - a)) (kept b g)\<rparr>"
  unfolding AddPacketsToNackList_def add_missing_def fresh_def by (simp add: Let_def)

text \<open>The list a newer packet leaves: the recorded numbers from the age limit on and the numbers of the gap.\<close>

definition gap_list :: "u16 \<Rightarrow> NackGenerator \<Rightarrow> u16 \<Rightarrow> NackInfo option" where
  "gap_list s g k = (if age_limit s \<le> k \<and> map_of (nackList g) k \<noteq> None then map_of (nackList g) k
     else if k - (lastSeq g + 1) < s - (lastSeq g + 1) then Some (fresh k) else None)"

lemma map_of_add:
  assumes "keys_sorted (nackList g)" "length (kept s g) + unat (s - (lastSeq g + 1)) \<le> 1000"
  shows "map_of (nackList (AddPacketsToNackList (lastSeq g + 1) s g)) = gap_list s g"
  using assms add_missing_spec [OF sorted_map_erase_below [OF assms(1)], of "lastSeq g + 1" "unat (s - (lastSeq g + 1))" "age_limit s"]
  by (auto simp: AddPacketsToNackList_eq gap_list_def fun_eq_iff in_gap map_of_map_erase_below not_less)

subsection \<open>The invariant\<close>

definition nack_wf :: "NackGenerator \<Rightarrow> bool" where
  "nack_wf g \<longleftrightarrow> keys_sorted (nackList g) \<and> length (nackList g) \<le> 1000 \<and> (\<not> started g \<longrightarrow> nackList g = []) \<and>
     (\<forall>(k, i) \<in> set (nackList g). ni_seq i = k \<and> sendAtSeq i = k \<and> retries i < 20)"

lemma keys_distinct: "keys_sorted m \<Longrightarrow> distinct (map fst m)"
  by (simp add: strict_sorted_iff)

lemma set_map_of: "keys_sorted m \<Longrightarrow> (k, i) \<in> set m \<longleftrightarrow> map_of m k = Some i"
  by (simp add: keys_distinct)

lemma add_missing_entries:
  assumes "keys_sorted m" "(k, i) \<in> set (add_missing a n m)"
  shows "(k, i) \<in> set m \<or> i = fresh k"
  using assms add_missing_spec [OF assms(1), of a n] by (auto simp: set_map_of split: if_splits)

lemma nack_batch_eq:
  "nack_batch rtt now m =
     (map (ni_seq \<circ> snd) (filter (nack_due rtt now \<circ> snd) m),
      map (\<lambda>(k, i). (k, if nack_due rtt now i then nack_sent now i else i))
        (filter (\<lambda>(k, i). nack_due rtt now i \<longrightarrow> retries (nack_sent now i) < 20) m))"
  by (induction rtt now m rule: nack_batch.induct) (auto simp: Let_def not_le)

lemma nack_batch_sorted: "keys_sorted m \<Longrightarrow> keys_sorted (snd (nack_batch rtt now m))"
proof -
  have "map fst (snd (nack_batch rtt now m)) = map fst (filter (\<lambda>(k, i). nack_due rtt now i \<longrightarrow> retries (nack_sent now i) < 20) m)"
    by (simp add: nack_batch_eq case_prod_unfold)
  then show "keys_sorted m \<Longrightarrow> keys_sorted (snd (nack_batch rtt now m))"
    by (simp add: sorted_wrt_map sorted_wrt_filter)
qed

lemma nack_wf_new: "nack_wf new_NackGenerator"
  by (simp add: nack_wf_def new_NackGenerator_def)

lemma nack_wf_receive: "nack_wf g \<Longrightarrow> nack_wf (snd (ReceivePacket b g))"
proof -
  assume wf: "nack_wf g"
  have sorted: "keys_sorted (nackList g)" using wf by (simp add: nack_wf_def)
  have add: "nack_wf ((AddPacketsToNackList a s g)\<lparr>lastSeq := s\<rparr>)" if "started g" for a s
  proof (cases "length (kept s g) + unat (s - a) > 1000")
    case True
    then show ?thesis by (simp add: AddPacketsToNackList_eq nack_wf_def)
  next
    case False
    have "ni_seq i = k \<and> sendAtSeq i = k \<and> retries i < 20" if "(k, i) \<in> set (add_missing a (unat (s - a)) (kept s g))" for k i
      using add_missing_entries [OF sorted_map_erase_below [OF sorted] that] set_map_erase_below [of "age_limit s" "nackList g"] wf
      by (auto simp: nack_wf_def fresh_def)
    then show ?thesis using False add_missing_spec [OF sorted_map_erase_below [OF sorted], of a "unat (s - a)" "age_limit s"] that
      by (auto simp: AddPacketsToNackList_eq nack_wf_def)
  qed
  have erase: "nack_wf (g\<lparr>nackList := map_erase k (nackList g)\<rparr>)" for k
    using wf sorted_map_erase [OF sorted, of k]
    by (auto simp: nack_wf_def map_erase_def intro: le_trans [OF length_filter_le])
  have start: "nack_wf (g\<lparr>started := True, lastSeq := s\<rparr>)" if "\<not> started g" for s
    using wf that by (simp add: nack_wf_def)
  show ?thesis using wf add erase start by (auto simp: ReceivePacket_def Let_def)
qed

lemma nack_wf_batch: "nack_wf g \<Longrightarrow> nack_wf (snd (GetNackBatch now g))"
proof -
  assume wf: "nack_wf g"
  let ?m = "snd (nack_batch (ng_rtt g) now (nackList g))"
  have "ni_seq i = k \<and> sendAtSeq i = k \<and> retries i < 20" if "(k, i) \<in> set ?m" for k i
    using that wf by (auto simp: nack_wf_def nack_batch_eq nack_sent_def)
  moreover have "length ?m \<le> 1000" using wf by (auto simp: nack_wf_def nack_batch_eq intro: le_trans [OF length_filter_le])
  moreover have "keys_sorted ?m" using wf by (simp add: nack_wf_def nack_batch_sorted)
  ultimately show ?thesis using wf by (auto simp: nack_wf_def GetNackBatch_def split: prod.splits)
qed

text \<open>The states a generator goes through.\<close>

inductive nack_reachable :: "NackGenerator \<Rightarrow> bool" where
  new: "nack_reachable new_NackGenerator"
| receive: "nack_reachable g \<Longrightarrow> nack_reachable (snd (ReceivePacket b g))"
| batch: "nack_reachable g \<Longrightarrow> nack_reachable (snd (GetNackBatch now g))"
| rtt: "nack_reachable g \<Longrightarrow> nack_reachable (UpdateRtt r g)"
| reset: "nack_reachable g \<Longrightarrow> nack_reachable (Reset g)"

lemma nack_reachable_wf: "nack_reachable g \<Longrightarrow> nack_wf g"
proof (induction rule: nack_reachable.induct)
  case (rtt g r)
  then show ?case by (simp add: nack_wf_def UpdateRtt_def)
next
  case (reset g)
  then show ?case by (simp add: nack_wf_def Reset_def)
qed (simp_all add: nack_wf_new nack_wf_receive nack_wf_batch)

subsection \<open>Requests over time\<close>

text \<open>Successive batches, with the requests they make.\<close>

fun run_batches :: "u64 list \<Rightarrow> NackGenerator \<Rightarrow> u16 list \<times> NackGenerator" where
  "run_batches [] g = ([], g)"
| "run_batches (now # ts) g =
     (let (batch, g) = GetNackBatch now g; (rest, g) = run_batches ts g in (batch @ rest, g))"

text \<open>Times a round trip or more apart.\<close>

fun spaced :: "u32 \<Rightarrow> u64 \<Rightarrow> u64 list \<Rightarrow> bool" where
  "spaced rtt t [] \<longleftrightarrow> True"
| "spaced rtt t (now # ts) \<longleftrightarrow> unat t + unat rtt \<le> unat now \<and> spaced rtt now ts"

lemma limit_le_rtt: "unat (nack_limit rtt r) \<le> unat rtt"
proof -
  obtain a b where ab: "CalculateRttLimit2SendNack r = (a, b)" by fastforce
  then have "0 < b" "b \<le> a" by (auto simp: CalculateRttLimit2SendNack_def split: if_splits)
  then have q: "unat rtt * b div a \<le> unat rtt" using div_le_mono2 [of b a "unat rtt * b"] by simp
  also have "unat rtt < 2 ^ 64" using unsigned_less [of rtt, where ?'a = nat] by simp
  finally have "unat (of_nat (unat rtt * b div a) :: u64) = unat rtt * b div a" by (simp add: unat_of_nat)
  then show ?thesis using q by (simp add: nack_limit_def ab)
qed

lemma due_when_spaced:
  assumes "sentAtMs i \<le> t" "unat t + unat rtt \<le> unat now"
  shows "nack_due rtt now i"
proof -
  have "sentAtMs i \<le> now" using assms by (simp add: word_le_nat_alt)
  then have "unat (now - sentAtMs i) = unat now - unat (sentAtMs i)" by (rule unat_sub)
  moreover have "unat (sentAtMs i) + unat rtt \<le> unat now" using assms by (simp add: word_le_nat_alt)
  ultimately show ?thesis using limit_le_rtt [of rtt "retries i"] by (simp add: nack_due_def word_le_nat_alt)
qed

definition sent_by :: "u64 \<Rightarrow> NackGenerator \<Rightarrow> bool" where
  "sent_by t g \<longleftrightarrow> (\<forall>(k, i) \<in> set (nackList g). sentAtMs i \<le> t)"

lemma count_keys: "distinct (map fst m) \<Longrightarrow> count_list (map fst m) k = (if map_of m k = None then 0 else 1)"
proof (induction m)
  case (Cons e m)
  then show ?case by (cases e) (force simp: map_of_eq_None_iff)
qed simp

text \<open>A batch in which every entry is due.\<close>

lemma batch_all_due:
  assumes wf: "nack_wf g" and t: "sent_by t g" "unat t + unat (ng_rtt g) \<le> unat now"
    and g': "GetNackBatch now g = (batch, g')"
  shows "batch = map fst (nackList g)"
    and "nackList g' = map (\<lambda>(k, i). (k, nack_sent now i)) (filter (\<lambda>(k, i). retries i < 19) (nackList g))"
    and "ng_rtt g' = ng_rtt g"
proof -
  have due: "nack_due (ng_rtt g) now i" if "(k, i) \<in> set (nackList g)" for k i
    using t that by (auto simp: sent_by_def intro: due_when_spaced)
  have seq: "ni_seq i = k" "retries i < 20" if "(k, i) \<in> set (nackList g)" for k i
    using wf that by (auto simp: nack_wf_def)
  have low: "retries (nack_sent now i) < 20 \<longleftrightarrow> retries i < 19" if "retries i < 20" for i
    using that by (simp add: nack_sent_def word_less_nat_alt unat_word_ariths)
  show "batch = map fst (nackList g)"
    using g' due seq(1) by (auto simp: GetNackBatch_def nack_batch_eq filter_id_conv intro!: map_cong)
  have "filter (\<lambda>(k, i). nack_due (ng_rtt g) now i \<longrightarrow> retries (nack_sent now i) < 20) (nackList g) =
      filter (\<lambda>(k, i). retries i < 19) (nackList g)"
    using due seq(2) low by (intro filter_cong) auto
  then show "nackList g' = map (\<lambda>(k, i). (k, nack_sent now i)) (filter (\<lambda>(k, i). retries i < 19) (nackList g))"
    using g' due by (auto simp: GetNackBatch_def nack_batch_eq intro!: map_cong)
  show "ng_rtt g' = ng_rtt g" using g' by (auto simp: GetNackBatch_def split: prod.splits)
qed

definition tries_left :: "NackGenerator \<Rightarrow> u16 \<Rightarrow> nat" where
  "tries_left g k = (case map_of (nackList g) k of None \<Rightarrow> 0 | Some i \<Rightarrow> 20 - unat (retries i))"

lemma map_of_filter_map:
  "distinct (map fst m) \<Longrightarrow>
     map_of (map (\<lambda>(k, i). (k, f i)) (filter (\<lambda>(k, i). P i) m)) k =
       (case map_of m k of None \<Rightarrow> None | Some i \<Rightarrow> if P i then Some (f i) else None)"
proof (induction m)
  case (Cons e m)
  then show ?case by (cases e) (auto simp: map_of_eq_None_iff image_iff split: option.splits dest: map_of_SomeD)
qed simp

lemma tries_left_batch:
  assumes "nack_wf g" "sent_by t g" "unat t + unat (ng_rtt g) \<le> unat now" "GetNackBatch now g = (batch, g')"
  shows "count_list batch k = min 1 (tries_left g k)" "tries_left g' k = tries_left g k - 1" "sent_by now g'" "nack_wf g'"
proof -
  note b = batch_all_due [OF assms]
  have d: "distinct (map fst (nackList g))" using assms(1) by (simp add: nack_wf_def keys_distinct)
  have r: "unat (retries i) < 20" if "map_of (nackList g) k = Some i" for i
    using assms(1) map_of_SomeD [OF that] by (auto simp: nack_wf_def word_less_nat_alt)
  show "count_list batch k = min 1 (tries_left g k)"
    unfolding b(1) count_keys [OF d] using r by (fastforce simp: tries_left_def split: option.splits)
  show "tries_left g' k = tries_left g k - 1"
    using r unfolding tries_left_def b(2) map_of_filter_map [OF d]
    by (auto simp: nack_sent_def word_less_nat_alt unat_word_ariths split: option.splits)
  show "sent_by now g'" by (auto simp: sent_by_def b(2) nack_sent_def)
  show "nack_wf g'" using nack_wf_batch [OF assms(1), of now] by (simp add: assms(4))
qed

lemma run_batches_spec:
  "nack_wf g \<Longrightarrow> sent_by t g \<Longrightarrow> spaced (ng_rtt g) t ts \<Longrightarrow>
     count_list (fst (run_batches ts g)) k = min (length ts) (tries_left g k) \<and>
     tries_left (snd (run_batches ts g)) k = tries_left g k - length ts \<and> nack_wf (snd (run_batches ts g))"
proof (induction ts arbitrary: g t)
  case (Cons now ts)
  obtain batch g' where g': "GetNackBatch now g = (batch, g')" by fastforce
  have sp: "unat t + unat (ng_rtt g) \<le> unat now" "spaced (ng_rtt g') now ts"
    using Cons.prems(3) g' by (auto simp: GetNackBatch_def split: prod.splits)
  note step = tries_left_batch [OF Cons.prems(1,2) sp(1) g']
  show ?case using Cons.IH [OF step(4,3) sp(2)] step(1,2) [of k]
    by (auto simp: g' min_def split: prod.splits)
qed simp

lemma drained: "nack_wf g \<Longrightarrow> (\<And>k. tries_left g k = 0) \<Longrightarrow> nackList g = []"
proof (rule ccontr)
  assume wf: "nack_wf g" and none: "\<And>k. tries_left g k = 0" and "nackList g \<noteq> []"
  then obtain k i where "(k, i) \<in> set (nackList g)" by (metis list.set_intros(1) neq_Nil_conv surj_pair)
  then have "map_of (nackList g) k = Some i" "unat (retries i) < 20"
    using wf by (auto simp: nack_wf_def keys_distinct word_less_nat_alt)
  then show False using none [of k] by (simp add: tries_left_def)
qed

lemma age_limit_wraps: "age_limit s = s + 55536"
proof -
  have "(uint s - 10000) mod 2 ^ 64 mod 2 ^ 16 = (uint s - 10000) mod 2 ^ 16" by (rule mod_mod_cancel) simp
  also have "\<dots> = (uint s + 55536) mod 2 ^ 16" by (simp add: mod_eq_dvd_iff)
  finally show ?thesis
    by (simp add: age_limit_def word_uint_eq_iff uint_word_ariths unsigned_ucast_eq take_bit_eq_mod mod_diff_left_eq)
qed

subsection \<open>An example\<close>

text \<open>The packets 4 and 6 have arrived.\<close>

definition ex_gen :: NackGenerator where
  "ex_gen = snd (ReceivePacket [0, 1, 0, 4] new_NackGenerator)"

lemma ex_gen_reachable: "nack_reachable ex_gen"
  unfolding ex_gen_def by (intro nack_reachable.intros)

lemma ex_gen_started: "started ex_gen"
  by (simp add: ex_gen_def ReceivePacket_def new_NackGenerator_def)

lemma ex_gen_eq: "ex_gen = \<lparr>nackList = [], started = True, lastSeq = 4, ng_rtt = 100\<rparr>"
  by (simp add: ex_gen_def ReceivePacket_def new_NackGenerator_def get_sequence_def ReadBigEndian2_def)

definition ex_gap :: NackGenerator where "ex_gap = snd (ReceivePacket [0, 1, 0, 6] ex_gen)"

lemma ex_gap_eq: "ex_gap = \<lparr>nackList = [(5, fresh 5)], started = True, lastSeq = 6, ng_rtt = 100\<rparr>"
  by (simp add: ex_gap_def ex_gen_eq ReceivePacket_def get_sequence_def ReadBigEndian2_def SeqLowerThan_def
      AddPacketsToNackList_def map_erase_below_def fresh_def Let_def)

lemma ex_gap_reachable: "nack_reachable ex_gap"
  unfolding ex_gap_def by (intro nack_reachable.intros ex_gen_reachable)

subsection \<open>Properties\<close>

text \<open>C20: in every state a generator can be in, the list of missing numbers is in strictly ascending order, holds
  at most 1000 entries, each under its own number and with fewer than 20 requests, and is empty
  before the first packet.\<close>

theorem nack_list_invariant:
  assumes "nack_reachable g"
  shows "sorted_wrt (<) (map fst (nackList g)) \<and> GetNackListLength g \<le> MaxNackPackets \<and> (\<not> started g \<longrightarrow> nackList g = []) \<and>
    (\<forall>(k, i) \<in> set (nackList g). ni_seq i = k \<and> sendAtSeq i = k \<and> retries i < MaxNackRetries)"
  using nack_reachable_wf [OF assms] by (simp add: nack_wf_def GetNackListLength_def)

theorem nack_list_invariant_witness:
  "sorted_wrt (<) (map fst (nackList ex_gap)) \<and> GetNackListLength ex_gap \<le> MaxNackPackets \<and> retries (fresh 5) < MaxNackRetries"
  using nack_list_invariant [OF ex_gap_reachable] by (simp add: ex_gap_eq)

text \<open>C12: what a packet does to a started generator. The newest number again changes nothing. A late number is
  removed from the list, with the result whether it was there. A newer number becomes the newest; the list
  then holds the recorded numbers from the age limit on and the numbers of the gap as new entries, or
  nothing if these would be more than 1000.\<close>

theorem receive_packet_effect:
  fixes b :: "u8 list"
  assumes "nack_reachable g" "started g"
  defines "s \<equiv> get_sequence b"
  defines "r \<equiv> ReceivePacket b g"
  shows "(s = lastSeq g \<longrightarrow> r = (False, g)) \<and>
    (SeqLowerThan s (lastSeq g) \<longrightarrow> fst r = (map_of (nackList g) s \<noteq> None) \<and>
       map_of (nackList (snd r)) = (map_of (nackList g))(s := None) \<and> lastSeq (snd r) = lastSeq g) \<and>
    (SeqLowerThan (lastSeq g) s \<longrightarrow> \<not> fst r \<and> lastSeq (snd r) = s \<and>
       map_of (nackList (snd r)) =
         (if length (kept s g) + unat (s - (lastSeq g + 1)) \<le> MaxNackPackets then gap_list s g else Map.empty))"
proof -
  have sorted: "keys_sorted (nackList g)" using nack_reachable_wf [OF assms(1)] by (simp add: nack_wf_def)
  have none: "map_of (nackList g) s = None \<Longrightarrow> (map_of (nackList g))(s := None) = map_of (nackList g)" by auto
  have tour: "SeqLowerThan (lastSeq g) s \<Longrightarrow> s \<noteq> lastSeq g \<and> \<not> SeqLowerThan s (lastSeq g)"
    by (auto simp: SeqLowerThan_def)
  have irrefl: "SeqLowerThan s (lastSeq g) \<Longrightarrow> s \<noteq> lastSeq g" by (auto simp: SeqLowerThan_def)
  show ?thesis using assms(2) none tour irrefl map_of_add [OF sorted, of s]
    by (auto simp: r_def s_def [symmetric] ReceivePacket_def map_of_map_erase AddPacketsToNackList_eq Let_def)
qed

theorem receive_packet_effect_witness:
  "\<not> fst (ReceivePacket [0, 1, 0, 6] ex_gen) \<and> lastSeq (snd (ReceivePacket [0, 1, 0, 6] ex_gen)) = 6 \<and>
     map_of (nackList (snd (ReceivePacket [0, 1, 0, 6] ex_gen))) = gap_list 6 ex_gen"
  using receive_packet_effect [OF ex_gen_reachable ex_gen_started, of "[0, 1, 0, 6]"]
  by (simp add: ex_gen_eq get_sequence_def ReadBigEndian2_def SeqLowerThan_def map_erase_below_def)

text \<open>C21: the age limit is compared with the plain order of the map. When a packet with a number below 10000 is the
  newest, the limit has wrapped around to the top of the number range, and everything recorded below it is
  forgotten: only the numbers of the last gap are still missing. So after two
  packets in order behind a gap no request is made for the gap any more.\<close>

theorem nack_forgets:
  assumes "nack_reachable g" "started g" "SeqLowerThan (lastSeq g) (get_sequence b)" "unat (get_sequence b) < 10000"
    and "map_of (nackList (snd (ReceivePacket b g))) k \<noteq> None"
  shows "k - (lastSeq g + 1) < get_sequence b - (lastSeq g + 1) \<or> unat (get_sequence b) + 55536 \<le> unat k"
proof -
  define s where "s = get_sequence b"
  have sorted: "keys_sorted (nackList g)" using nack_reachable_wf [OF assms(1)] by (simp add: nack_wf_def)
  have "s \<noteq> lastSeq g \<and> \<not> SeqLowerThan s (lastSeq g)" using assms(3) by (auto simp: SeqLowerThan_def s_def)
  then have "gap_list s g k \<noteq> None"
    using assms(2,5) map_of_add [OF sorted, of s]
    by (auto simp: ReceivePacket_def AddPacketsToNackList_eq Let_def s_def [symmetric] split: if_splits)
  moreover have "age_limit s = s + 55536" by (rule age_limit_wraps)
  moreover have "unat (s + 55536) = unat s + 55536" using assms(4) by (simp add: s_def unat_word_ariths)
  ultimately show ?thesis by (auto simp: gap_list_def s_def [symmetric] word_le_nat_alt split: if_splits)
qed

text \<open>Packets 4, 6, 8 arrive: 5 is forgotten when 8 comes, only 7 is still missing.\<close>

theorem nack_forgets_witness:
  "(7 - (lastSeq ex_gap + 1) < get_sequence [0, 1, 0, 8] - (lastSeq ex_gap + 1) \<or> unat (get_sequence [0, 1, 0, 8]) + 55536 \<le> unat (7 :: u16))
   \<and> map_of (nackList ex_gap) 5 \<noteq> None \<and> map_of (nackList (snd (ReceivePacket [0, 1, 0, 8] ex_gap))) 5 = None"
proof (intro conjI nack_forgets)
  show "nack_reachable ex_gap" by (rule ex_gap_reachable)
  show "map_of (nackList ex_gap) 5 \<noteq> None" by (simp add: ex_gap_eq)
qed (simp_all add: ex_gap_eq ReceivePacket_def get_sequence_def ReadBigEndian2_def SeqLowerThan_def
      AddPacketsToNackList_def map_erase_below_def age_limit_def Let_def)

text \<open>C13: if batches are asked for a round trip or more apart, every missing number is requested once in every batch
  until it has been requested 20 times in all, and never again; after 20 batches the list is empty.\<close>

theorem nack_requests:
  assumes "nack_reachable g" "sent_by t g" "spaced (ng_rtt g) t ts"
  shows "count_list (fst (run_batches ts g)) k =
      (case map_of (nackList g) k of None \<Rightarrow> 0 | Some i \<Rightarrow> min (length ts) (20 - unat (retries i))) \<and>
    (20 \<le> length ts \<longrightarrow> nackList (snd (run_batches ts g)) = [])"
proof -
  note wf = nack_reachable_wf [OF assms(1)]
  note run = run_batches_spec [OF wf assms(2,3)]
  have twenty: "tries_left g k \<le> 20" for k by (simp add: tries_left_def split: option.split)
  then have "tries_left (snd (run_batches ts g)) k = 0" if "20 \<le> length ts" for k
    using run [of k] that twenty [of k] by simp
  then show ?thesis using run by (auto simp: tries_left_def split: option.split intro: drained)
qed

theorem nack_requests_witness: "count_list (fst (run_batches [1000, 1100, 1250] ex_gap)) 5 = 3"
proof -
  have "sent_by 0 ex_gap" by (simp add: sent_by_def ex_gap_eq fresh_def)
  moreover have "spaced (ng_rtt ex_gap) 0 [1000, 1100, 1250]" by (simp add: ex_gap_eq)
  ultimately show ?thesis
    using nack_requests [OF ex_gap_reachable, of 0 "[1000, 1100, 1250]" 5] by (simp add: ex_gap_eq fresh_def)
qed

end
