(* ===== verification/NackSession.thy ===== *)
theory NackSession
  imports NackGen
begin

text \<open>
  The two programs that repair by retransmission: \<open>boost-asio/udp_sender.cpp\<close> of \<open>src/nack-test/sender\<close> and
  of \<open>src/nack-test/receiver\<close> (both call their class \<open>UDPSender\<close>). A handler takes the state, the packet and its
  endpoint, the clock and the memory of the packets it allocates, and returns the new state with the packets it
  sends. Sockets, timers and output are left out: a handler is called when a packet or a timer arrives.
  \<open>None\<close> is a read behind the received packet.
\<close>

definition get_rtt_num :: "u8 list \<Rightarrow> u32" where
  "get_rtt_num b = ReadLittleEndian4 b 8"

subsection \<open>The sender\<close>

record 'ep nack_sender =
  pkt_map :: "u16 \<Rightarrow> TESTTPPacket option"
  sender_seq :: u16
  sender_ep :: 'ep

definition new_nack_sender :: "'ep \<Rightarrow> 'ep nack_sender" where
  "new_nack_sender ep = \<lparr>pkt_map = Map.empty, sender_seq = 1, sender_ep = ep\<rparr>"

definition sender_test :: "u16 \<Rightarrow> u32 \<Rightarrow> 'ep \<Rightarrow> TESTTPPacket \<Rightarrow> 'ep nack_sender \<Rightarrow> 'ep nack_sender \<times> ('ep \<times> TESTTPPacket) list" where
  "sender_test s timestamp ep mem sd =
     (let pkt = packing_packet s timestamp mem in (sd\<lparr>pkt_map := (pkt_map sd)(s \<mapsto> pkt)\<rparr>, [(ep, pkt)]))"

definition sender_timer :: "u64 \<Rightarrow> TESTTPPacket \<Rightarrow> 'ep nack_sender \<Rightarrow> 'ep nack_sender \<times> ('ep \<times> TESTTPPacket) list" where
  "sender_timer now mem sd =
     (let (sd, out) = sender_test (sender_seq sd) (ucast now) (sender_ep sd) mem sd
      in (sd\<lparr>sender_seq := sender_seq sd + 1\<rparr>, out))"

definition sender_receive :: "TESTTPPacket \<Rightarrow> 'ep \<Rightarrow> TESTTPPacket \<Rightarrow> 'ep nack_sender \<Rightarrow> ('ep \<times> TESTTPPacket) list option" where
  "sender_receive pkt ep mem sd =
     (if get_type (tp_buf pkt) = 12 then Some [(ep, rtt_packing (ucast (get_rtt_num (tp_buf pkt))) mem)]
      else case unpacking_nack pkt [] of
        None \<Rightarrow> None
      | Some (_, seqs) \<Rightarrow> Some (List.map_filter (\<lambda>s. map_option (Pair ep) (pkt_map sd s)) seqs))"

subsection \<open>The receiver\<close>

record 'ep nack_receiver =
  nackgen :: NackGenerator
  rtt_count_map :: "u16 \<Rightarrow> u32 option"
  rtt_count_num :: u16
  rcv_rtt :: u32
  count_timer_ms :: u64
  timer_ms :: u64
  receiver_ep :: 'ep

definition new_nack_receiver :: "u64 \<Rightarrow> 'ep \<Rightarrow> 'ep nack_receiver" where
  "new_nack_receiver t ep = \<lparr>nackgen = new_NackGenerator, rtt_count_map = Map.empty, rtt_count_num = 1, rcv_rtt = 1,
     count_timer_ms = 0, timer_ms = t, receiver_ep = ep\<rparr>"

definition receiver_receive :: "u64 \<Rightarrow> TESTTPPacket \<Rightarrow> 'ep \<Rightarrow> 'ep nack_receiver \<Rightarrow> 'ep nack_receiver" where
  "receiver_receive now pkt ep r =
     (let r = r\<lparr>receiver_ep := ep\<rparr>
      in if get_type (tp_buf pkt) = 12 then
           let num = ucast (get_rtt_num (tp_buf pkt)) :: u16
           in case rtt_count_map r num of
                None \<Rightarrow> r
              | Some sent \<Rightarrow> r\<lparr>rcv_rtt := ((ucast now - sent) + rcv_rtt r) div 2, rtt_count_map := (rtt_count_map r)(num := None)\<rparr>
         else r\<lparr>nackgen := snd (ReceivePacket (tp_buf pkt) (nackgen r))\<rparr>)"

text \<open>The clock is read for the round-trip probe and again for the batch.\<close>

definition receiver_timer :: "u64 \<Rightarrow> u64 \<Rightarrow> TESTTPPacket \<Rightarrow> TESTTPPacket \<Rightarrow> 'ep nack_receiver \<Rightarrow> 'ep nack_receiver \<times> ('ep \<times> TESTTPPacket) list" where
  "receiver_timer now now' mem mem' r =
     (let (r, out) =
            if count_timer_ms r mod 80 = 0
            then (r\<lparr>rtt_count_map := (rtt_count_map r)(rtt_count_num r \<mapsto> ucast now), rtt_count_num := rtt_count_num r + 1\<rparr>,
                  [(receiver_ep r, rtt_packing (rtt_count_num r) mem)])
            else (r, []);
          r = if count_timer_ms r mod 400 = 0 then r\<lparr>nackgen := UpdateRtt (rcv_rtt r) (nackgen r)\<rparr> else r;
          (seqs, g) = GetNackBatch now' (nackgen r);
          nack = packing_nack seqs mem';
          out = out @ (if seqs \<noteq> [] then [(receiver_ep r, nack)] else [])
      in (r\<lparr>nackgen := g, count_timer_ms := count_timer_ms r + timer_ms r\<rparr>, out))"

subsection \<open>What the sender keeps\<close>

definition stored_ok :: "'ep nack_sender \<Rightarrow> bool" where
  "stored_ok sd \<longleftrightarrow> (\<forall>k p. pkt_map sd k = Some p \<longrightarrow>
     get_type (tp_buf p) = 1 \<and> get_sequence (tp_buf p) = k \<and> tp_length p = 1308 \<and> length (tp_buf p) = UDP_PACKET_MAX_BYTES)"

lemma read_cong:
  "(\<And>j. j < B \<Longrightarrow> d' ! (off + j) = d ! (off + j)) \<Longrightarrow> ReadBigEndian B d' off = (ReadBigEndian B d off :: 'a :: len word)"
  unfolding ReadBigEndian_def by (rule fold_cong) simp_all

lemma read_apart:
  assumes "off + B \<le> length d" "off + B \<le> off' \<or> off' + B' \<le> off"
  shows "ReadBigEndian B (WriteBigEndian B' d off' v) off = (ReadBigEndian B d off :: 'a :: len word)"
proof (rule read_cong)
  fix j assume "j < B"
  then have "off + j < length d" "\<not> (off' \<le> off + j \<and> off + j < off' + B')" using assms by auto
  then show "WriteBigEndian B' d off' v ! (off + j) = d ! (off + j)" by (auto simp: WriteBigEndian_nth)
qed

lemma read_apart_little:
  assumes "off + B \<le> length d" "off + B \<le> off' \<or> off' + B' \<le> off"
  shows "ReadBigEndian B (WriteLittleEndian B' d off' v) off = (ReadBigEndian B d off :: 'a :: len word)"
proof (rule read_cong)
  fix j assume "j < B"
  then have "off + j < length d" "\<not> (off' \<le> off + j \<and> off + j < off' + B')" using assms by auto
  then show "WriteLittleEndian B' d off' v ! (off + j) = d ! (off + j)" by (auto simp: WriteLittleEndian_nth)
qed

lemma read_update: "j < off \<or> off + B \<le> j \<Longrightarrow> ReadBigEndian B (d[j := x]) off = (ReadBigEndian B d off :: 'a :: len word)"
  by (rule read_cong) auto

lemmas packet_io = byte_io_2 byte_io_4 read_apart read_apart_little read_update read_write_big take_bit_word_eq_self

lemma packing_packet_fields:
  assumes "length (tp_buf mem) = UDP_PACKET_MAX_BYTES"
  shows "get_type (tp_buf (packing_packet s ts mem)) = 1" "get_sequence (tp_buf (packing_packet s ts mem)) = s"
    "get_timestamp (tp_buf (packing_packet s ts mem)) = ts"
    "tp_length (packing_packet s ts mem) = 1308" "length (tp_buf (packing_packet s ts mem)) = UDP_PACKET_MAX_BYTES"
  using assms
  by (simp_all add: packing_packet_def packing_header_def get_type_def get_sequence_def get_timestamp_def packet_io)

lemma stored_ok_new: "stored_ok (new_nack_sender ep)"
  by (simp add: stored_ok_def new_nack_sender_def)

lemma stored_ok_timer: "stored_ok sd \<Longrightarrow> length (tp_buf mem) = UDP_PACKET_MAX_BYTES \<Longrightarrow> stored_ok (fst (sender_timer now mem sd))"
  by (auto simp: stored_ok_def sender_timer_def sender_test_def packing_packet_fields Let_def)

subsection \<open>Repair\<close>

text \<open>A receiver that keeps a set of missing numbers: a late packet removes its number and nothing else.\<close>

locale repair =
  fixes missing :: "'r \<Rightarrow> u16 \<Rightarrow> bool" and late :: "'r \<Rightarrow> u16 \<Rightarrow> bool"
    and receive :: "'p \<Rightarrow> 'r \<Rightarrow> 'r" and num :: "'p \<Rightarrow> u16" and good :: "'p \<Rightarrow> bool"
  assumes removes: "good p \<Longrightarrow> late r (num p) \<Longrightarrow> missing (receive p r) k \<longleftrightarrow> missing r k \<and> k \<noteq> num p"
    and late_kept: "good p \<Longrightarrow> late r (num p) \<Longrightarrow> late (receive p r) k \<longleftrightarrow> late r k"
begin

lemma delivered:
  "(\<And>p. p \<in> set ps \<Longrightarrow> good p \<and> late r (num p)) \<Longrightarrow>
     missing (fold receive ps r) k \<longleftrightarrow> missing r k \<and> k \<notin> num ` set ps"
  by (induction ps arbitrary: r) (auto simp: removes late_kept)

end

definition gen_missing :: "NackGenerator \<Rightarrow> u16 \<Rightarrow> bool" where
  "gen_missing g k \<longleftrightarrow> map_of (nackList g) k \<noteq> None"

definition gen_late :: "NackGenerator \<Rightarrow> u16 \<Rightarrow> bool" where
  "gen_late g k \<longleftrightarrow> started g \<and> SeqLowerThan k (lastSeq g)"

lemma not_lower_self [simp]: "\<not> SeqLowerThan k k"
  by (simp add: SeqLowerThan_def)

interpretation ng: repair gen_missing gen_late "\<lambda>b. snd \<circ> ReceivePacket b" get_sequence "\<lambda>b. True"
  by unfold_locales (auto simp: gen_missing_def gen_late_def ReceivePacket_def map_of_map_erase Let_def)

interpretation rc: repair "\<lambda>r. gen_missing (nackgen r)" "\<lambda>r. gen_late (nackgen r)"
  "\<lambda>(now, ep, pkt). receiver_receive now pkt ep" "\<lambda>(now, ep, pkt). get_sequence (tp_buf pkt)"
  "\<lambda>(now, ep, pkt). get_type (tp_buf pkt) \<noteq> 12"
  using ng.removes ng.late_kept by unfold_locales (auto simp: receiver_receive_def)

text \<open>What the timer of the receiver asks for.\<close>

lemma receiver_timer_batch:
  assumes "receiver_timer now now' mem mem' r = (r1, out)" "(ep, p) \<in> set out" "get_type (tp_buf p) = 2"
    "length (tp_buf mem) = UDP_PACKET_MAX_BYTES"
  obtains g where "GetNackBatch now' g = (fst (GetNackBatch now' g), nackgen r1)" "fst (GetNackBatch now' g) \<noteq> []"
    "p = packing_nack (fst (GetNackBatch now' g)) mem'" "nackList g = nackList (nackgen r)" "ng_rtt g = ng_rtt (nackgen r1)"
    "started g = started (nackgen r)" "lastSeq g = lastSeq (nackgen r)"
proof -
  define g where "g = (if count_timer_ms r mod 400 = 0 then UpdateRtt (rcv_rtt r) (nackgen r) else nackgen r)"
  have probe: "get_type (tp_buf (rtt_packing n mem)) \<noteq> 2" for n
    using assms(4) by (simp add: rtt_packing_def get_type_def packet_io Let_def)
  obtain seqs g2 where b: "GetNackBatch now' g = (seqs, g2)" by fastforce
  have "nackgen r1 = g2"
    using assms(1) b by (auto simp: receiver_timer_def g_def Let_def split: if_splits prod.splits)
  moreover have "(ep, p) \<in> set (if seqs \<noteq> [] then [(receiver_ep r, packing_nack seqs mem')] else [])"
    using assms(1,2) b probe assms(3) by (auto simp: receiver_timer_def g_def Let_def split: if_splits prod.splits)
  then have "seqs \<noteq> []" "p = packing_nack seqs mem'" by (auto split: if_splits)
  moreover have "ng_rtt g2 = ng_rtt g" using b by (auto simp: GetNackBatch_def split: prod.splits)
  ultimately show ?thesis using that [of g] b by (simp add: g_def UpdateRtt_def)
qed

text \<open>The answer to a report: the stored packet of every number read.\<close>

lemma sender_answers:
  assumes "stored_ok sd" "sorted_wrt (<) seqs" "length seqs \<le> MAX_NACK_ITEM_NUM" "length (tp_buf mem') = UDP_PACKET_MAX_BYTES"
    and all: "\<And>k. k \<in> set seqs \<Longrightarrow> pkt_map sd k \<noteq> None" and type: "get_type (tp_buf (packing_nack seqs mem')) = 2"
  shows "sender_receive (packing_nack seqs mem') ep mem sd = Some (map (\<lambda>k. (ep, the (pkt_map sd k))) seqs)"
proof -
  obtain m where "m \<le> length seqs" "m = length seqs \<or> MAX_NACK_ITEM_NUM \<le> m"
    "unpacking_nack (packing_nack seqs mem') [] = Some (True, [] @ take m seqs)"
    using unpacking_packed [OF assms(2,4), of "[]"] by blast
  then have read: "unpacking_nack (packing_nack seqs mem') [] = Some (True, seqs)" using assms(3) by auto
  have "List.map_filter (\<lambda>k. map_option (Pair ep) (pkt_map sd k)) seqs = map (\<lambda>k. (ep, the (pkt_map sd k))) seqs"
    using all by (induction seqs) (simp_all add: List.map_filter_def option.map_sel)
  then show ?thesis using type read by (simp add: sender_receive_def)
qed

lemma batch_requests:
  assumes "nack_wf g" "GetNackBatch now g = (seqs, g')"
  shows "sorted_wrt (<) seqs" "length seqs \<le> length (nackList g)"
    "set seqs = {k. \<exists>i. map_of (nackList g) k = Some i \<and> nack_due (ng_rtt g) now i}"
proof -
  have sorted: "keys_sorted (nackList g)" using assms(1) by (simp add: nack_wf_def)
  have seqs: "seqs = map fst (filter (nack_due (ng_rtt g) now \<circ> snd) (nackList g))"
    using assms by (auto simp: GetNackBatch_def nack_batch_eq nack_wf_def intro!: map_cong)
  show "sorted_wrt (<) seqs" using sorted unfolding seqs sorted_wrt_map by (rule sorted_wrt_filter)
  show "length seqs \<le> length (nackList g)" by (simp add: seqs)
  show "set seqs = {k. \<exists>i. map_of (nackList g) k = Some i \<and> nack_due (ng_rtt g) now i}"
    unfolding seqs using sorted by (force simp: set_map_of [symmetric])
qed

lemma batch_late: "GetNackBatch now g = (seqs, g') \<Longrightarrow> gen_late g' k = gen_late g k"
  by (auto simp: GetNackBatch_def gen_late_def split: prod.splits)

subsection \<open>A round of repair\<close>

definition arrive :: "(u64 \<times> 'ep \<times> TESTTPPacket) list \<Rightarrow> 'ep nack_receiver \<Rightarrow> 'ep nack_receiver" where
  "arrive = fold (\<lambda>(now, ep, pkt). receiver_receive now pkt ep)"

lemma repair_round_lemma:
  assumes wf: "nack_wf (nackgen r)" and few: "length (nackList (nackgen r)) \<le> MAX_NACK_ITEM_NUM"
    and mem: "length (tp_buf mem) = UDP_PACKET_MAX_BYTES" "length (tp_buf mem') = UDP_PACKET_MAX_BYTES"
    and timer: "receiver_timer now now' mem mem' r = (r1, out)" "(ep, p) \<in> set out" "get_type (tp_buf p) = 2"
    and stored: "stored_ok sd" "\<And>k. gen_missing (nackgen r) k \<Longrightarrow> pkt_map sd k \<noteq> None \<and> gen_late (nackgen r) k"
  shows "\<exists>seqs answers. seqs \<noteq> [] \<and>
      set seqs = {k. \<exists>i. map_of (nackList (nackgen r)) k = Some i \<and> nack_due (ng_rtt (nackgen r1)) now' i} \<and>
      sender_receive p ep' mem'' sd = Some answers \<and> map (get_sequence \<circ> tp_buf \<circ> snd) answers = seqs \<and>
      (\<forall>arrivals. (\<forall>(t, e, a) \<in> set arrivals. a \<in> snd ` set answers) \<longrightarrow>
        (\<forall>k. gen_missing (nackgen (arrive arrivals r1)) k \<longleftrightarrow>
             gen_missing (nackgen r1) k \<and> k \<notin> (\<lambda>(t, e, a). get_sequence (tp_buf a)) ` set arrivals))"
proof -
  obtain g where g: "GetNackBatch now' g = (fst (GetNackBatch now' g), nackgen r1)" "fst (GetNackBatch now' g) \<noteq> []"
    "p = packing_nack (fst (GetNackBatch now' g)) mem'" "nackList g = nackList (nackgen r)" "ng_rtt g = ng_rtt (nackgen r1)"
    "started g = started (nackgen r)" "lastSeq g = lastSeq (nackgen r)"
    using receiver_timer_batch [OF timer mem(1)] by blast
  define seqs where "seqs = fst (GetNackBatch now' g)"
  have wfg: "nack_wf g" using wf g(4,6) by (simp add: nack_wf_def)
  note req = batch_requests [OF wfg g(1) [folded seqs_def], unfolded g(4,5)]
  have known: "pkt_map sd k \<noteq> None" "gen_late (nackgen r1) k" if "k \<in> set seqs" for k
    using stored(2) [of k] that req(3) batch_late [OF g(1), of k] g(6,7) by (auto simp: gen_missing_def gen_late_def)
  define answers where "answers = map (\<lambda>k. (ep', the (pkt_map sd k))) seqs"
  have ans: "sender_receive p ep' mem'' sd = Some answers"
    unfolding g(3) answers_def seqs_def [symmetric]
    using few req(2) known(1) timer(3) by (intro sender_answers [OF stored(1) req(1)] mem(2)) (simp_all add: g(3) seqs_def)
  have of_stored: "get_type (tp_buf (the (pkt_map sd k))) = 1 \<and> get_sequence (tp_buf (the (pkt_map sd k))) = k" if "k \<in> set seqs" for k
    using known(1) [OF that] stored(1) by (auto simp: stored_ok_def)
  have nums: "map (get_sequence \<circ> tp_buf \<circ> snd) answers = seqs"
    using of_stored by (simp add: answers_def map_idI)
  have "gen_missing (nackgen (arrive arrivals r1)) k \<longleftrightarrow>
      gen_missing (nackgen r1) k \<and> k \<notin> (\<lambda>(t, e, a). get_sequence (tp_buf a)) ` set arrivals"
    if only: "\<forall>(t, e, a) \<in> set arrivals. a \<in> snd ` set answers" for arrivals :: "(u64 \<times> 'a \<times> TESTTPPacket) list" and k
    unfolding arrive_def
  proof (rule rc.delivered)
    fix x assume "x \<in> set arrivals"
    then obtain t e q where x: "x = (t, e, the (pkt_map sd q))" "q \<in> set seqs"
      using only by (fastforce simp: answers_def)
    then show "(case x of (now, ep, pkt) \<Rightarrow> get_type (tp_buf pkt) \<noteq> 12) \<and>
        gen_late (nackgen r1) (case x of (now, ep, pkt) \<Rightarrow> get_sequence (tp_buf pkt))"
      using of_stored [OF x(2)] known(2) [OF x(2)] by simp
  qed
  then show ?thesis using g(2) req(3) ans nums unfolding seqs_def [symmetric] by blast
qed

subsection \<open>Properties\<close>

text \<open>C7: one round of repair, for a list of at most 347 missing numbers, which is what one report holds, all of
  them late: older than the newest number received. When the timer of the receiver sends a report, the report
  lists exactly the missing numbers that are due; the sender, if it holds the packets, answers with exactly their packets; and
  whichever of the answers arrive, in any order and any number of times, the receiver then misses what it
  missed before less the numbers that arrived.\<close>

theorem repair_round:
  assumes "nack_wf (nackgen r)" "length (nackList (nackgen r)) \<le> MAX_NACK_ITEM_NUM"
    and "length (tp_buf mem) = UDP_PACKET_MAX_BYTES" "length (tp_buf mem') = UDP_PACKET_MAX_BYTES"
    and "receiver_timer now now' mem mem' r = (r1, out)" "(ep, p) \<in> set out" "get_type (tp_buf p) = 2"
    and "stored_ok sd" "\<And>k. gen_missing (nackgen r) k \<Longrightarrow> pkt_map sd k \<noteq> None \<and> gen_late (nackgen r) k"
  shows "\<exists>seqs answers. seqs \<noteq> [] \<and>
      set seqs = {k. \<exists>i. map_of (nackList (nackgen r)) k = Some i \<and> nack_due (ng_rtt (nackgen r1)) now' i} \<and>
      sender_receive p ep' mem'' sd = Some answers \<and> map (get_sequence \<circ> tp_buf \<circ> snd) answers = seqs \<and>
      (\<forall>arrivals. (\<forall>(t, e, a) \<in> set arrivals. a \<in> snd ` set answers) \<longrightarrow>
        (\<forall>k. gen_missing (nackgen (arrive arrivals r1)) k \<longleftrightarrow>
             gen_missing (nackgen r1) k \<and> k \<notin> (\<lambda>(t, e, a). get_sequence (tp_buf a)) ` set arrivals))"
  using assms by (rule repair_round_lemma)

definition ex_mem :: TESTTPPacket where "ex_mem = new_TESTTPPacket [] 0"

definition ex_sender :: "nat nack_sender" where
  "ex_sender = (new_nack_sender 1)\<lparr>pkt_map := [5 \<mapsto> packing_packet 5 77 ex_mem], sender_seq := 7\<rparr>"

definition ex_receiver :: "nat nack_receiver" where
  "ex_receiver = (new_nack_receiver 20 2)
     \<lparr>nackgen := \<lparr>nackList = [(5, fresh 5)], started = True, lastSeq = 6, ng_rtt = 100\<rparr>, count_timer_ms := 20\<rparr>"

lemma ex_mem_length: "length (tp_buf ex_mem) = UDP_PACKET_MAX_BYTES"
  by (simp add: ex_mem_def new_TESTTPPacket_def)

lemma ex_receiver_batch: "receiver_timer 900 900 ex_mem ex_mem ex_receiver =
    (fst (receiver_timer 900 900 ex_mem ex_mem ex_receiver), [(2, packing_nack [5] ex_mem)])"
  by (simp add: receiver_timer_def ex_receiver_def new_nack_receiver_def GetNackBatch_def nack_due_def fresh_def
      nack_limit_def CalculateRttLimit2SendNack_def Let_def)

lemma ex_nack_type: "get_type (tp_buf (packing_nack [5] ex_mem)) = 2"
  using ex_mem_length by (simp add: packing_nack_def get_type_def packet_io Let_def)

lemma ex_stored: "stored_ok ex_sender"
  using packing_packet_fields [OF ex_mem_length] by (simp add: stored_ok_def ex_sender_def new_nack_sender_def)

theorem repair_round_witness:
  "\<exists>seqs answers. seqs \<noteq> [] \<and>
      set seqs = {k. \<exists>i. map_of (nackList (nackgen ex_receiver)) k = Some i \<and>
        nack_due (ng_rtt (nackgen (fst (receiver_timer 900 900 ex_mem ex_mem ex_receiver)))) 900 i} \<and>
      sender_receive (packing_nack [5] ex_mem) 3 ex_mem ex_sender = Some answers \<and>
      map (get_sequence \<circ> tp_buf \<circ> snd) answers = seqs \<and>
      (\<forall>arrivals :: (u64 \<times> nat \<times> TESTTPPacket) list. (\<forall>(t, e, a) \<in> set arrivals. a \<in> snd ` set answers) \<longrightarrow>
        (\<forall>k. gen_missing (nackgen (arrive arrivals (fst (receiver_timer 900 900 ex_mem ex_mem ex_receiver)))) k \<longleftrightarrow>
             gen_missing (nackgen (fst (receiver_timer 900 900 ex_mem ex_mem ex_receiver))) k \<and>
             k \<notin> (\<lambda>(t, e, a). get_sequence (tp_buf a)) ` set arrivals))"
proof (rule repair_round [OF _ _ ex_mem_length ex_mem_length ex_receiver_batch _ ex_nack_type ex_stored])
  show "nack_wf (nackgen ex_receiver)" by (simp add: nack_wf_def ex_receiver_def fresh_def)
  show "length (nackList (nackgen ex_receiver)) \<le> MAX_NACK_ITEM_NUM" by (simp add: ex_receiver_def)
  show "(2, packing_nack [5] ex_mem) \<in> set [(2, packing_nack [5] ex_mem)]" by simp
  show "pkt_map ex_sender k \<noteq> None \<and> gen_late (nackgen ex_receiver) k" if "gen_missing (nackgen ex_receiver) k" for k
    using that by (auto simp: gen_missing_def gen_late_def ex_receiver_def ex_sender_def new_nack_sender_def SeqLowerThan_def split: if_splits)
qed

end
