(* ===== verification/Spec2Isabelle.thy ===== *)
theory Spec2Isabelle
  imports FecProps FecGroup RsProps Crc XorSafe FlexfecRepair UlpfecRepair NackSession
begin

text \<open>
  Verification of the loss repair of the repository. The repository is a collection of programs that
  show how lost packets are repaired; three independent codes and a retransmission protocol do the work,
  and each is modelled and verified here from its data types up to its end-to-end promise.

  \<^bold>\<open>1. The Vandermonde erasure code\<close> (\<open>src/fec-test/sender/Transport/FEC/fec.c\<close>; the copy under
  \<open>src/fec-test/receiver\<close> is the same file). \<open>FecTables\<close> holds the static tables as a record and
  \<open>generate_gf\<close>, \<open>init_mul_table\<close>, \<open>init_fec\<close>, \<open>modnn\<close>; \<open>FecLinalg\<close> the loops on rows and
  matrices (\<open>addmul1\<close>, \<open>matmul\<close>, \<open>invert_mat\<close>, \<open>invert_vdm\<close>); \<open>FecCodec\<close> the operations a
  client calls (\<open>fec_new\<close>, \<open>fec_free\<close>, \<open>fec_encode\<close>, \<open>shuffle\<close>, \<open>fec_decode\<close>). \<open>FecDecode\<close> and
  \<open>FecRecover\<close> prove what the parts do, \<open>FecProps\<close> states the properties and makes the codec an
  instance of the abstract erasure code of \<open>ErasureSpec\<close>. \<open>FecGen\<close> models the layer above it,
  \<open>fec_gen.h\<close> and \<open>fec_gen.cpp\<close>: the class \<open>FECGenerator\<close> as a record, the packets it queues with their
  group numbers and indices, and the receiver's tables of groups. \<open>FecGroup\<close> proves that a group with enough
  packets reaches the caller complete (\<open>fec_group_delivered\<close>) and that an original which arrives after it was
  recovered corrupts the receiver (\<open>late_original_corrupts\<close>). Buffers are lists of bytes, pointers into them
  are positions, \<open>None\<close> is an access the code makes without a check, and the return codes are kept.

  \<^bold>\<open>2. The Reed-Solomon library\<close> (\<open>src/rscode-1.3\<close>). \<open>RsGalois\<close> models \<open>galois.c\<close>, \<open>RsPoly\<close> the
  polynomials of \<open>berlekamp.c\<close>, \<open>RsEncode\<close> \<open>rs.c\<close>, \<open>RsDecode\<close> the decoder of \<open>berlekamp.c\<close>
  and \<open>RsProps\<close> the demonstration \<open>example.c\<close>; \<open>Crc\<close> models \<open>crcgen.c\<close>. The global variables of
  the library are the record \<open>rs_state\<close>. \<open>RsDecode\<close> and \<open>RsCorrect\<close> relate the iteration on integer
  arrays to an abstract Berlekamp-Massey iteration on coefficient sequences (\<open>Series\<close>).

  \<^bold>\<open>3. The XOR code of WebRTC\<close> (\<open>src/flexfec_test/libwebrtc/libwebrtc\<close>, ULPFEC and FlexFEC).
  \<open>ByteIo\<close> models \<open>byte_io.h\<close>, \<open>SeqNum\<close> the wrapping numbers of \<open>module_common_types_public.h\<close> and
  \<open>mod_ops.h\<close>. \<open>FecMaskRandom\<close> and \<open>FecMaskBursty\<close> are the mask tables, \<open>FecMasks\<close> is
  \<open>forward_error_correction_internal.cc\<close>, \<open>FecMaskGen\<close> proves that the generated masks serve.
  \<open>FecHeader\<close> models the packets and the two header formats, whose contract is the locale \<open>fec_format\<close>
  of \<open>FecFormat\<close>, implemented by ULPFEC there and by FlexFEC in \<open>FlexFormat\<close>. \<open>XorFec\<close> is the
  encoder and \<open>XorDecode\<close> the decoder of \<open>forward_error_correction.cc\<close>: the class is the record
  \<open>ForwardErrorCorrection\<close>, and every operation takes and returns it with the list of recovered packets
  of the caller. \<open>XorPayload\<close> shows that a payload is the exclusive or of contributions, \<open>XorColumns\<close>
  that gaps in the sequence numbers spread the mask, \<open>XorEncode\<close> what \<open>EncodeFec\<close> returns,
  \<open>XorOutput\<close> that the packets it returns are the exclusive or of others, stated on their bytes (\<open>protects\<close>),
  \<open>XorRecover\<close> that one missing packet is recovered exactly, \<open>XorSorted\<close> that the sorted lists are
  sorted, \<open>XorHeld\<close> and \<open>XorPeel\<close> the invariant of the decoder, \<open>XorArrive\<close> its preservation by
  every arrival, and \<open>XorProps\<close> the properties.
  \<open>RtpPacket\<close> models RTP packets with their header extensions (\<open>rtp_packet.cc\<close>, the registry
  \<open>rtp_header_extension_map.cc\<close> and the buffers under them); \<open>RtpProps\<close> shows that parsing is safe on any
  bytes and \<open>RtpBuild\<close> that packets put together by the operations of the class are parsed back.
  \<open>UlpfecGen\<close> models the generator that collects media packets for the encoder (\<open>ulpfec_generator.cc\<close>).
  \<open>XorSession\<close> shows that the decoder does not look at the marks the receivers set and that every packet
  it holds was received or passed on, \<open>XorSafe\<close> that forged packets neither overflow its lists nor make it read
  behind its arrays (\<open>decoder_bounded\<close>), \<open>XorTail\<close> that the packets of the encoder survive being copied.
  \<open>FlexfecStream\<close> models the FlexFEC sender and receiver (\<open>flexfec_sender.cc\<close>, \<open>flexfec_receiver.cc\<close>), the
  classes as records and their clocks as arguments; \<open>FrameGen\<close> what the generator makes of a frame, and
  \<open>FrameStream\<close> the contract between a stream and the decoder, a locale; \<open>FlexfecSession\<close> shows that an FEC packet comes out of
  the receiver's unwrapping as it went into the sender's wrapping, and \<open>FlexfecRepair\<close> joins all of
  this in one statement, \<open>flexfec_session\<close>: from the media packets given to a new sender, over RTP packets
  that may be lost and reordered, to the bytes the receiver passes on. \<open>polled_never_protects\<close> shows that
  a sender used as in \<open>mytest\<close> produces nothing. \<open>UlpfecRecv\<close> models the receiver of ULPFEC
  (\<open>ulpfec_receiver_impl.cc\<close>), \<open>UlpfecSession\<close> shows that packets come out of RED packets as they were put
  in, and \<open>UlpfecRepair\<close> has the same statement for ULPFEC, \<open>ulpfec_session\<close>; media packets are wrapped into RED
  packets outside the repository, as RFC 2198 has it (\<open>red_media_view\<close>).

  \<^bold>\<open>4. Retransmission\<close> (\<open>src/nack-test\<close>). \<open>NackPack\<close> models \<open>pack.cpp\<close> and \<open>test_tp.h\<close>, the reports of
  missing numbers; \<open>NackGen\<close> models \<open>nack_gen.h\<close> and \<open>nack_gen.cpp\<close>, the list of missing numbers with its
  limits and the times of the requests; \<open>NackSession\<close> the packet handlers of the sender and the receiver, as
  functions from the state and the packet to the new state and the packets to send. The clock and the
  contents of new memory are arguments, and the division by the round trip time is the one of the code. The
  locale \<open>repair\<close> of \<open>NackSession\<close> has the contract between the list of missing numbers and the reports.
  \<open>repair_round\<close> shows that a report lists the numbers that are due, is answered with exactly their packets,
  and leaves missing what did not arrive;
  \<open>nack_forgets\<close> shows that the numbers missing before a wrap-around are dropped without being requested.

  \<^bold>\<open>Shared.\<close> \<open>Prelude\<close> has the vocabulary and the lemmas on counted loops, \<open>GF256\<close> the reference field
  with 256 elements, which both C libraries are proved against through the locale of \<open>ByteField\<close>, and
  \<open>Linear\<close> the linear algebra over a field with the theorem that a Vandermonde matrix with distinct
  points has a trivial kernel.

  \<^bold>\<open>Recursion and bounds.\<close> Loops with a counter are folds. \<open>shuffle_loop\<close> ends because every swap puts an
  index in its place; \<open>attempt_loop\<close> (\<open>AttemptRecovery\<close>, which starts again after every recovery) ends
  because every restart drops an FEC packet; \<open>modnn\<close> ends because its argument decreases. No fuel is
  used. Words keep the widths of the code: sequence numbers are 16 bits, streams 32 bits, the sums of
  the column insertion 64 bits.

  \<^bold>\<open>Assumptions on inputs.\<close> A media packet of the XOR code is in a buffer of 1500 bytes that is clear behind
  the packet, has RTP version 2 and at most 1480 bytes (\<open>media_ok\<close>); a block spans at most 48 sequence
  numbers (\<open>media_block\<close>). The decoder theorems hold for one block; \<open>decoder_bounded\<close> holds on any
  FEC packet and on any media packet of at most 1488 bytes. Debug assertions (\<open>RTC_DCHECK\<close>) are hypotheses, fatal ones (\<open>RTC_CHECK\<close>) are \<open>None\<close>.

  \<^bold>\<open>Not modelled.\<close> The vendored abseil library; sockets, timers, files and the main programs, which are
  input and output around the codes, with the packet handlers of \<open>fec-test\<close> (\<open>udp_sender.cpp\<close>), which only
  move packets between a socket and \<open>FECGenerator\<close>; logging; the copies with the suffix \<open>_85\<close> of the
  WebRTC files, a later release of the same code that keeps packets in resizable buffers; the values of
  header extensions (\<open>rtp_header_extensions.cc\<close>), which the codes carry as bytes, and the older header parser
  \<open>rtp_utility.cc\<close>; the second erasure library \<open>src/feclib-0.90\<close>; the bandwidth simulator in
  Go. Sharing of reference-counted packets is modelled by values: the decoder writes to a packet only
  before it is linked anywhere else.
\<close>

end
